(* ===== verification/Prelude.thy ===== *)
theory Prelude
  imports Complex_Main
    "HOL-Library.Word"
    "HOL-Library.AList"
    "HOL-Library.Multiset"
    "HOL-Library.Sublist"
    "HOL-Library.Char_ord"
    "HOL-Library.List_Lexorder"
begin

text \<open>
  Shared vocabulary of the development: the machine types of the C++ sources, the
  models of the standard-library containers and algorithms the control server uses
  (\<open>std::unordered_map\<close>, \<open>std::sort\<close>/\<open>std::stable_sort\<close>, \<open>std::find_if\<close> followed by
  \<open>erase\<close>), and the generic lemmas the components share.

  Machine types. Identifiers and counters that the code holds in \<open>uint32_t\<close> and
  \<open>uint64_t\<close> are words of that width, so that increments wrap. \<open>int64_t\<close> row ids and
  the small \<open>int\<close> head counts are \<open>int\<close>; \<open>size_t\<close> lengths are \<open>nat\<close>. \<open>double\<close> and
  \<open>float\<close> values are exact rationals: rounding, infinities and NaN are not modelled.
\<close>

type_synonym u16 = "16 word"
type_synonym u32 = "32 word"
type_synonym u64 = "64 word"
type_synonym guid = string
type_synonym millis = int

named_theorems place_simps \<open>facts about the guid to task force maps the placement code fills\<close>
named_theorems keep_inv \<open>operations that keep an invariant\<close>

section \<open>Association lists for std::unordered_map\<close>

text \<open>
  An \<open>std::unordered_map\<close> is an association list. Assignment through \<open>operator[]\<close>
  replaces the value of a present key in place and appends an absent one; \<open>erase\<close>
  removes the key. C++ leaves the iteration order open; the model iterates in list
  order, and the lemmas hold for association lists in any order.
\<close>

type_synonym ('k, 'v) umap = "('k \<times> 'v) list"

abbreviation umap_find :: "('k, 'v) umap \<Rightarrow> 'k \<Rightarrow> 'v option" where
  "umap_find m k \<equiv> map_of m k"

abbreviation umap_put :: "'k \<Rightarrow> 'v \<Rightarrow> ('k, 'v) umap \<Rightarrow> ('k, 'v) umap" where
  "umap_put k v m \<equiv> AList.update k v m"

abbreviation umap_erase :: "'k \<Rightarrow> ('k, 'v) umap \<Rightarrow> ('k, 'v) umap" where
  "umap_erase k m \<equiv> AList.delete k m"

definition umap_get :: "'v \<Rightarrow> ('k, 'v) umap \<Rightarrow> 'k \<Rightarrow> 'v" where
  \<comment> \<open>the \<open>it == end() ? d : it->second\<close> idiom\<close>
  "umap_get d m k = (case map_of m k of None \<Rightarrow> d | Some v \<Rightarrow> v)"

definition umap_mod :: "'v \<Rightarrow> ('v \<Rightarrow> 'v) \<Rightarrow> 'k \<Rightarrow> ('k, 'v) umap \<Rightarrow> ('k, 'v) umap" where
  \<comment> \<open>\<open>m[k] op= x\<close>: an absent key is created with the value-initialised \<open>d\<close> first\<close>
  "umap_mod d f k m = AList.update k (f (umap_get d m k)) m"

definition umap_wf :: "('k, 'v) umap \<Rightarrow> bool" where
  "umap_wf m = distinct (map fst m)"

lemma umap_find_put [simp]:
  "map_of (AList.update k v m) k' = (if k' = k then Some v else map_of m k')"
  by (simp add: update_conv')

lemma umap_find_erase [simp]:
  "map_of (AList.delete k m) k' = (if k' = k then None else map_of m k')"
  by (simp add: delete_conv')

lemma umap_get_mod [simp]:
  "umap_get d (umap_mod d f k m) k' = (if k' = k then f (umap_get d m k) else umap_get d m k')"
  by (simp add: umap_get_def umap_mod_def)

lemma umap_get_Nil [simp]: "umap_get d [] k = d"
  by (simp add: umap_get_def)

lemma umap_wf_Nil [simp]: "umap_wf []"
  by (simp add: umap_wf_def)

lemma umap_wf_put [simp, intro]: "umap_wf m \<Longrightarrow> umap_wf (AList.update k v m)"
  by (simp add: umap_wf_def distinct_update)

lemma umap_wf_erase [simp, intro]: "umap_wf m \<Longrightarrow> umap_wf (AList.delete k m)"
  by (simp add: umap_wf_def distinct_delete)

lemma umap_wf_mod [simp, intro]: "umap_wf m \<Longrightarrow> umap_wf (umap_mod d f k m)"
  by (simp add: umap_mod_def umap_wf_put)

lemma umap_find_mod:
  "map_of (umap_mod d f k m) k' = (if k' = k then Some (f (umap_get d m k)) else map_of m k')"
  by (simp add: umap_mod_def)

lemma umap_keys_put [simp]: "fst ` set (AList.update k v m) = insert k (fst ` set m)"
proof -
  have "dom (map_of (AList.update k v m)) = insert k (dom (map_of m))"
    by (auto simp: dom_def split: if_splits)
  then show ?thesis by (simp add: dom_map_of_conv_image_fst)
qed

lemma umap_keys_mod [simp]: "fst ` set (umap_mod d f k m) = insert k (fst ` set m)"
  by (simp add: umap_mod_def)

lemma umap_find_in_set: "umap_wf m \<Longrightarrow> (k, v) \<in> set m \<longleftrightarrow> map_of m k = Some v"
  by (auto simp: umap_wf_def)

lemma put_absent_append: "map_of m k = None \<Longrightarrow> AList.update k v m = m @ [(k, v)]"
  by (induction m) (auto split: if_splits)

text \<open>How many of the keys \<open>gs\<close> a map sends to \<open>tf\<close>.\<close>

definition side_count :: "('k, 'v) umap \<Rightarrow> 'k list \<Rightarrow> 'v \<Rightarrow> nat" where
  "side_count out gs tf = length (filter (\<lambda>g. map_of out g = Some tf) gs)"

lemma side_count_Nil [simp]: "side_count out [] tf = 0"
  by (simp add: side_count_def)

lemma side_count_Cons [simp]:
  "side_count out (g # gs) tf = (if map_of out g = Some tf then 1 else 0) + side_count out gs tf"
  by (simp add: side_count_def)

lemma side_count_append [simp]:
  "side_count out (gs @ hs) tf = side_count out gs tf + side_count out hs tf"
  by (simp add: side_count_def)

lemma side_count_cong:
  "(\<And>g. g \<in> set gs \<Longrightarrow> map_of out g = map_of out' g) \<Longrightarrow> side_count out gs tf = side_count out' gs tf"
  unfolding side_count_def by (metis (mono_tags, lifting) filter_cong)

lemma side_count_mset: "mset gs = mset hs \<Longrightarrow> side_count out gs tf = side_count out hs tf"
  unfolding side_count_def by (metis mset_filter size_mset)

lemma side_count_all:
  "(\<And>g. g \<in> set gs \<Longrightarrow> map_of out g = Some t) \<Longrightarrow>
   side_count out gs tf = (if tf = t then length gs else 0)"
  by (induction gs) auto

text \<open>Counting occurrences into a map, \<open>counts[f(x)] += 1\<close> over a loop.\<close>

lemma fold_count_get:
  "umap_get 0 (fold (\<lambda>m. umap_mod 0 (\<lambda>n. n + 1) (f m)) ms c) k
     = umap_get 0 c k + int (length (filter (\<lambda>m. f m = k) ms))"
  by (induction ms arbitrary: c) auto

lemma fold_count_wf: "umap_wf c \<Longrightarrow> umap_wf (fold (\<lambda>m. umap_mod 0 (\<lambda>n. n + (1::int)) (f m)) ms c)"
  by (induction ms arbitrary: c) auto

text \<open>
  The gap between two counts after \<open>n\<close> steps that each add one to the smaller count (to
  either when they are equal), from a gap of \<open>d\<close>.
\<close>

definition gap_after :: "int \<Rightarrow> nat \<Rightarrow> int" where
  "gap_after d n = (if int n \<le> d then d - int n else (int n - d) mod 2)"

lemma gap_after_step:
  assumes "0 \<le> d" shows "gap_after (if d = 0 then 1 else d - 1) n = gap_after d (Suc n)"
proof -
  consider "d = 0" "n = 0" | "d = 0" "n > 0" | "d > 0" "int n \<le> d - 1" | "d > 0" "d - 1 < int n"
    using assms by linarith
  then show ?thesis
  proof cases
    case 2
    have "(int n - 1) mod 2 = (1 + int n) mod 2" by presburger
    with 2 show ?thesis by (cases "n = 1") (simp_all add: gap_after_def)
  next
    case 4
    then show ?thesis by (simp add: gap_after_def algebra_simps)
  qed (simp_all add: gap_after_def)
qed

lemma length_filter_classes:
  "finite K \<Longrightarrow> f ` set ps \<subseteq> K \<Longrightarrow>
   length (filter P ps) = (\<Sum>c \<in> K. length (filter (\<lambda>p. f p = c \<and> P p) ps))"
proof (induction ps)
  case (Cons p ps)
  have "(\<Sum>c \<in> K. length (filter (\<lambda>p. f p = c \<and> P p) (p # ps)))
      = (\<Sum>c \<in> K. length (filter (\<lambda>p. f p = c \<and> P p) ps) + (if c = f p then (if P p then 1 else 0) else 0))"
    by (rule sum.cong) auto
  also have "\<dots> = length (filter P ps) + (if P p then 1 else 0)"
    using Cons by (simp add: sum.distrib)
  finally show ?case by simp
qed simp

subsection \<open>The dictionary contract\<close>

text \<open>
  What the placement code relies on when it fills \<open>guid -> value\<close> maps: lookup after
  assignment, and lookup in the empty map. The client lemmas give the content of a map
  after a loop of assignments; they are used through the interpretation on \<open>umap\<close>.
\<close>

locale dictionary =
  fixes find :: "'m \<Rightarrow> 'k \<Rightarrow> 'v option"
    and put :: "'k \<Rightarrow> 'v \<Rightarrow> 'm \<Rightarrow> 'm"
    and empty :: 'm
  assumes find_put: "find (put k v m) k' = (if k' = k then Some v else find m k')"
    and find_empty: "find empty k = None"
begin

lemma find_fold_put_notin:
  "k \<notin> key ` set xs \<Longrightarrow> find (fold (\<lambda>x. put (key x) (val x)) xs m) k = find m k"
  by (induction xs arbitrary: m) (auto simp: find_put)

lemma find_fold_put_const:
  "find (fold (\<lambda>x. put (key x) v) xs m) k = (if k \<in> key ` set xs then Some v else find m k)"
  by (induction xs arbitrary: m) (auto simp: find_put)

lemma find_fold_put_distinct:
  "distinct (map key xs) \<Longrightarrow> x \<in> set xs \<Longrightarrow>
   find (fold (\<lambda>x. put (key x) (val x)) xs m) (key x) = Some (val x)"
proof (induction xs arbitrary: m)
  case Nil
  then show ?case by simp
next
  case (Cons y ys)
  show ?case
  proof (cases "x = y")
    case True
    with Cons.prems have "key x \<notin> key ` set ys" by auto
    with True show ?thesis by (simp add: find_fold_put_notin find_put)
  next
    case False
    with Cons show ?thesis by simp
  qed
qed

lemma find_fold_put_some:
  "find m k \<noteq> None \<or> k \<in> key ` set xs \<Longrightarrow>
   find (fold (\<lambda>x. put (key x) (val x)) xs m) k \<noteq> None"
  by (induction xs arbitrary: m) (auto simp: find_put)

lemma find_fold_put_range:
  "find (fold (\<lambda>x. put (key x) (val x)) xs m) k = Some v \<Longrightarrow>
   find m k = Some v \<or> (\<exists>x \<in> set xs. key x = k \<and> val x = v)"
  by (induction xs arbitrary: m) (fastforce simp: find_put split: if_splits)+

end

interpretation ud: dictionary "map_of :: ('k \<times> 'v) list \<Rightarrow> 'k \<Rightarrow> 'v option" AList.update "[]"
  by unfold_locales simp_all

subsection \<open>Filling two sides one by one\<close>

text \<open>
  The contract both placement loops keep: each step puts one key on side 1 or 2, counts
  it there, and prefers the smaller side. \<open>ok n\<close> is the condition under which the
  preference is guaranteed for \<open>n\<close> more steps. The client lemmas give the final map and
  the final gap.
\<close>

definition sided :: "('k, int) umap \<Rightarrow> 'k \<Rightarrow> bool" where
  "sided out g \<longleftrightarrow> map_of out g = Some 1 \<or> map_of out g = Some 2"

locale greedy_fill =
  fixes place :: "'p \<Rightarrow> 's \<Rightarrow> 's" and key :: "'p \<Rightarrow> 'k" and side :: "'p \<Rightarrow> 's \<Rightarrow> int"
    and out :: "'s \<Rightarrow> ('k, int) umap" and size1 :: "'s \<Rightarrow> int" and size2 :: "'s \<Rightarrow> int"
    and ok :: "nat \<Rightarrow> 's \<Rightarrow> bool"
  assumes side_range: "side p s = 1 \<or> side p s = 2"
    and out_place: "map_of (out (place p s)) k = (if k = key p then Some (side p s) else map_of (out s) k)"
    and size1_place: "size1 (place p s) = size1 s + (if side p s = 1 then 1 else 0)"
    and size2_place: "size2 (place p s) = size2 s + (if side p s = 2 then 1 else 0)"
    and ok_place: "ok (Suc n) s \<Longrightarrow> ok n (place p s)"
    and smaller1: "ok (Suc n) s \<Longrightarrow> size1 s < size2 s \<Longrightarrow> side p s = 1"
    and smaller2: "ok (Suc n) s \<Longrightarrow> size2 s < size1 s \<Longrightarrow> side p s = 2"
begin

lemma fold_frame: "k \<notin> key ` set ps \<Longrightarrow> map_of (out (fold place ps s)) k = map_of (out s) k"
  by (induction ps arbitrary: s) (auto simp: out_place)

lemma fold_sided: "k \<in> key ` set ps \<Longrightarrow> sided (out (fold place ps s)) k"
proof (induction ps arbitrary: s)
  case (Cons p ps)
  show ?case
  proof (cases "k \<in> key ` set ps")
    case True
    with Cons.IH show ?thesis by simp
  next
    case False
    then have "k = key p" using Cons.prems by simp
    then show ?thesis
      using fold_frame [OF False, of "place p s"] side_range [of p s] by (auto simp: sided_def out_place)
  qed
qed simp

lemma fold_gap: "ok (length ps) s \<Longrightarrow>
  \<bar>size1 (fold place ps s) - size2 (fold place ps s)\<bar> = gap_after \<bar>size1 s - size2 s\<bar> (length ps)"
proof (induction ps arbitrary: s)
  case (Cons p ps)
  have ok: "ok (Suc (length ps)) s" using Cons.prems by simp
  have "\<bar>size1 (place p s) - size2 (place p s)\<bar>
      = (if \<bar>size1 s - size2 s\<bar> = 0 then 1 else \<bar>size1 s - size2 s\<bar> - 1)"
    using smaller1 [OF ok, of p] smaller2 [OF ok, of p] side_range [of p s]
    by (cases "size1 s" "size2 s" rule: linorder_cases) (auto simp: size1_place size2_place)
  then show ?case
    using Cons.IH [OF ok_place [OF ok], of p] gap_after_step [of "\<bar>size1 s - size2 s\<bar>" "length ps"] by simp
qed (simp add: gap_after_def)

lemma fold_sizes:
  "distinct (map key ps) \<Longrightarrow> s' = fold place ps s \<Longrightarrow>
   size1 s' = size1 s + int (side_count (out s') (map key ps) 1) \<and>
   size2 s' = size2 s + int (side_count (out s') (map key ps) 2)"
proof (induction ps arbitrary: s)
  case (Cons p ps)
  have "map_of (out s') (key p) = Some (side p s)"
    using Cons.prems fold_frame [of "key p" ps "place p s"] by (simp add: out_place)
  then show ?case
    using Cons.IH [of "place p s"] Cons.prems side_range [of p s]
    by (auto simp: size1_place size2_place)
qed simp

lemma balanced:
  assumes "ok (length gs) s" "mset (map key ps) = mset gs" "distinct gs"
  shows "\<bar>(size1 s + int (side_count (out (fold place ps s)) gs 1))
        - (size2 s + int (side_count (out (fold place ps s)) gs 2))\<bar>
      = gap_after \<bar>size1 s - size2 s\<bar> (length gs)"
proof -
  have d: "distinct (map key ps)" and l: "length ps = length gs"
    using assms(2,3) mset_eq_imp_distinct_iff by (blast, metis length_map mset_eq_length)
  show ?thesis
    using fold_sizes [OF d refl, of s] fold_gap [of ps s] assms(1) l
    by (simp add: side_count_mset [OF assms(2)])
qed

end

section \<open>std::sort and std::stable_sort\<close>

text \<open>
  A stable insertion sort over a comparison \<open>lt\<close>. For a strict weak order (the
  precondition the standard puts on the comparison) every stable sort returns this
  list; where the comparison is moreover total on the elements, every sort does.
\<close>

fun sort_insert :: "('a \<Rightarrow> 'a \<Rightarrow> bool) \<Rightarrow> 'a \<Rightarrow> 'a list \<Rightarrow> 'a list" where
  "sort_insert lt x [] = [x]"
| "sort_insert lt x (y # ys) = (if lt y x then y # sort_insert lt x ys else x # y # ys)"

fun stable_sort :: "('a \<Rightarrow> 'a \<Rightarrow> bool) \<Rightarrow> 'a list \<Rightarrow> 'a list" where
  "stable_sort lt [] = []"
| "stable_sort lt (x # xs) = sort_insert lt x (stable_sort lt xs)"

lemma mset_sort_insert [simp]: "mset (sort_insert lt x ys) = add_mset x (mset ys)"
  by (induction ys) auto

lemma mset_stable_sort [simp]: "mset (stable_sort lt xs) = mset xs"
  by (induction xs) auto

lemma set_stable_sort [simp]: "set (stable_sort lt xs) = set xs"
  using mset_stable_sort by (metis set_mset_mset)

lemma length_stable_sort [simp]: "length (stable_sort lt xs) = length xs"
  using mset_stable_sort by (metis size_mset)

lemma stable_sort_empty_iff [simp]: "stable_sort lt xs = [] \<longleftrightarrow> xs = []"
  using length_stable_sort by (metis length_0_conv)

lemma distinct_stable_sort [simp]: "distinct (stable_sort lt xs) = distinct xs"
  using mset_stable_sort by (metis mset_eq_imp_distinct_iff)

lemma sum_list_map_stable_sort:
  fixes f :: "'a \<Rightarrow> 'b::comm_monoid_add"
  shows "sum_list (map f (stable_sort lt xs)) = sum_list (map f xs)"
  by (metis mset_stable_sort mset_map sum_mset_sum_list)

lemma set_sort_insert [simp]: "set (sort_insert lt x ys) = insert x (set ys)"
  by (induction ys) auto

locale strict_weak_order =
  fixes lt :: "'a \<Rightarrow> 'a \<Rightarrow> bool" and dom :: "'a set"
  assumes asym: "x \<in> dom \<Longrightarrow> y \<in> dom \<Longrightarrow> lt x y \<Longrightarrow> \<not> lt y x"
    and neg_trans: "x \<in> dom \<Longrightarrow> y \<in> dom \<Longrightarrow> z \<in> dom \<Longrightarrow> lt x z \<Longrightarrow> lt x y \<or> lt y z"
begin

lemma trans: "x \<in> dom \<Longrightarrow> y \<in> dom \<Longrightarrow> z \<in> dom \<Longrightarrow> lt x y \<Longrightarrow> lt y z \<Longrightarrow> lt x z"
  using neg_trans [of x z y] asym [of y z] by blast

lemma sorted_sort_insert:
  assumes "x \<in> dom" "set ys \<subseteq> dom" "sorted_wrt (\<lambda>a b. \<not> lt b a) ys"
  shows "sorted_wrt (\<lambda>a b. \<not> lt b a) (sort_insert lt x ys)"
  using assms
proof (induction ys)
  case Nil
  then show ?case by simp
next
  case (Cons y ys)
  show ?case
  proof (cases "lt y x")
    case True
    with Cons have "sorted_wrt (\<lambda>a b. \<not> lt b a) (sort_insert lt x ys)" by simp
    moreover have "\<not> lt x y" using True Cons.prems asym by auto
    ultimately show ?thesis using True Cons.prems by auto
  next
    case False
    have "\<not> lt z x" if "z \<in> set ys" for z
    proof -
      have d: "z \<in> dom" "y \<in> dom" "x \<in> dom" using that Cons.prems by auto
      have "\<not> lt z y" using that Cons.prems by simp
      then show ?thesis using False neg_trans [OF d(1,2,3)] by blast
    qed
    then show ?thesis using False Cons.prems by simp
  qed
qed

lemma sorted_stable_sort: "set xs \<subseteq> dom \<Longrightarrow> sorted_wrt (\<lambda>a b. \<not> lt b a) (stable_sort lt xs)"
  by (induction xs) (auto intro!: sorted_sort_insert)

lemma sort_insert_stable:
  assumes "x \<in> dom" "set ys \<subseteq> dom" "e \<in> dom"
  shows "filter (\<lambda>z. \<not> lt z e \<and> \<not> lt e z) (sort_insert lt x ys)
       = filter (\<lambda>z. \<not> lt z e \<and> \<not> lt e z) (x # ys)"
  using assms
proof (induction ys)
  case Nil
  then show ?case by simp
next
  case (Cons y ys)
  have "\<not> (lt y x \<and> (\<not> lt x e \<and> \<not> lt e x) \<and> (\<not> lt y e \<and> \<not> lt e y))"
    using Cons.prems neg_trans [of y e x] by auto
  with Cons show ?case by auto
qed

lemma stable_sort_stable:
  "set xs \<subseteq> dom \<Longrightarrow> e \<in> dom \<Longrightarrow>
   filter (\<lambda>z. \<not> lt z e \<and> \<not> lt e z) (stable_sort lt xs) = filter (\<lambda>z. \<not> lt z e \<and> \<not> lt e z) xs"
proof (induction xs)
  case Nil
  then show ?case by simp
next
  case (Cons x xs)
  have "filter (\<lambda>z. \<not> lt z e \<and> \<not> lt e z) (stable_sort lt (x # xs))
      = filter (\<lambda>z. \<not> lt z e \<and> \<not> lt e z) (x # stable_sort lt xs)"
    unfolding stable_sort.simps by (rule sort_insert_stable) (use Cons.prems in auto)
  also have "\<dots> = filter (\<lambda>z. \<not> lt z e \<and> \<not> lt e z) (x # xs)"
    using Cons by simp
  finally show ?case .
qed

lemma hd_stable_sort_min:
  assumes "set xs \<subseteq> dom" "x \<in> set xs"
  shows "\<not> lt x (hd (stable_sort lt xs))"
proof -
  obtain y ys where s: "stable_sort lt xs = y # ys"
    using assms(2) by (cases "stable_sort lt xs") auto
  have "x = y \<or> x \<in> set ys"
    using assms(2) s by (metis set_ConsD set_stable_sort)
  moreover have "\<not> lt y y" using assms(1) s asym
    by (metis list.set_intros(1) set_stable_sort subsetD)
  ultimately show ?thesis
    using sorted_stable_sort [OF assms(1)] s by auto
qed

end

text \<open>Comparisons by a key, the common case; the key decides the order.\<close>

lemma strict_weak_order_key:
  "strict_weak_order (\<lambda>a b. (f a :: 'k::linorder) < f b) D"
  by unfold_locales auto

section \<open>Lists\<close>

definition remove_first :: "('a \<Rightarrow> bool) \<Rightarrow> 'a list \<Rightarrow> 'a list" where
  \<comment> \<open>\<open>find_if\<close> and, when it finds an element, \<open>erase\<close> of that one\<close>
  "remove_first P xs = takeWhile (\<lambda>x. \<not> P x) xs @ tl (dropWhile (\<lambda>x. \<not> P x) xs)"

lemma remove_first_simps [simp]:
  "remove_first P [] = []"
  "remove_first P (x # xs) = (if P x then xs else x # remove_first P xs)"
  by (simp_all add: remove_first_def)

lemma set_remove_first_subset: "set (remove_first P xs) \<subseteq> set xs"
  by (induction xs) auto

lemma distinct_remove_first [simp]: "distinct xs \<Longrightarrow> distinct (remove_first P xs)"
  by (induction xs) (auto dest: subsetD [OF set_remove_first_subset])

lemma subseq_remove_first: "subseq (remove_first P xs) xs"
  by (induction xs) auto

lemma length_remove_first_less: "x \<in> set xs \<Longrightarrow> P x \<Longrightarrow> length (remove_first P xs) < length xs"
  by (induction xs) auto

lemma set_remove_first_distinct:
  "distinct (map f xs) \<Longrightarrow> set (remove_first (\<lambda>x. f x = k) xs) = {x \<in> set xs. f x \<noteq> k}"
  by (induction xs) (auto simp: image_iff)

lemma find_Some_in_set: "find P xs = Some x \<Longrightarrow> x \<in> set xs \<and> P x"
  by (auto simp: find_Some_iff)

lemma fold_inv:
  "P s \<Longrightarrow> (\<And>x s. x \<in> set xs \<Longrightarrow> P s \<Longrightarrow> P (f x s)) \<Longrightarrow> P (fold f xs s)"
  by (induction xs arbitrary: s) auto

lemma sum_list_concat_length: "length (concat xss) = sum_list (map length xss)"
  by (simp add: length_concat)

lemma subseq_map_distinct: "subseq xs ys \<Longrightarrow> distinct (map f ys) \<Longrightarrow> distinct (map f xs)"
  by (metis subseq_map subseq_conv_nths distinct_nthsI)

lemma filter_notin_subseq: "subseq (filter P xs) xs"
  by simp

end
