(* ===== verification/Domain.thy ===== *)
theory Domain
  imports Prelude
begin

text \<open>
  The matchmaking domain, \<open>src/ControlServer/MatchmakingService/Domain.hpp\<close>: queued
  players and parties, the policy enumerations, the map pool, the makeup of a side, a
  running instance, the decision of a rule and the queue configuration, with the free
  helpers of namespace \<open>mm\<close>. Record fields carry a short prefix for their structure,
  since Isabelle record fields are global names.
\<close>

section \<open>Players and parties\<close>

record FairnessStats =
  fs_exclusion_count :: u32
  fs_lifetime_exclusions :: u32
  fs_played_count :: u32
  fs_last_defender_id :: int
  fs_defender_count :: u32

definition fresh_FairnessStats :: FairnessStats where
  "fresh_FairnessStats = \<lparr>fs_exclusion_count = 0, fs_lifetime_exclusions = 0,
     fs_played_count = 0, fs_last_defender_id = 0, fs_defender_count = 0\<rparr>"

definition u32_ratio :: "u32 \<Rightarrow> u32 \<Rightarrow> rat" where
  "u32_ratio a b = rat_of_nat (unat a) / rat_of_nat (unat b)"

definition exclusion_rate :: "FairnessStats \<Rightarrow> rat" where
  "exclusion_rate s =
     (let total = fs_lifetime_exclusions s + fs_played_count s
      in if total \<noteq> 0 then u32_ratio (fs_lifetime_exclusions s) total else 0)"

definition defender_ratio :: "FairnessStats \<Rightarrow> rat" where
  "defender_ratio s =
     (if fs_played_count s \<noteq> 0 then u32_ratio (fs_defender_count s) (fs_played_count s) else 0)"

text \<open>\<open>src/Config/DifficultyScalar.hpp\<close>: a pair of multipliers, all zero when unset.\<close>

record DifficultyScalar =
  ds_HP :: rat
  ds_Dmg :: rat

definition ds_set :: "DifficultyScalar \<Rightarrow> bool" where
  \<comment> \<open>\<open>operator bool\<close>\<close>
  "ds_set d \<longleftrightarrow> ds_HP d > 0 \<or> ds_Dmg d > 0"

definition make_DifficultyScalar :: "rat \<Rightarrow> rat \<Rightarrow> DifficultyScalar" where
  "make_DifficultyScalar hp dmg =
     (let d = \<lparr>ds_HP = hp, ds_Dmg = dmg\<rparr>
      in if ds_set d
         then \<lparr>ds_HP = (if hp = 0 then 1 else hp), ds_Dmg = (if dmg = 0 then 1 else dmg)\<rparr>
         else d)"

definition ds_zero :: DifficultyScalar where
  \<comment> \<open>\<open>zero()\<close>, and the default constructor\<close>
  "ds_zero = \<lparr>ds_HP = 0, ds_Dmg = 0\<rparr>"

record QueuedPlayer =
  qp_session_guid :: guid
  qp_profile_id :: u32
  qp_user_id :: int
  qp_mmr :: rat
  qp_solo_lock :: bool
  qp_fairness :: FairnessStats
  qp_installed_dlcs :: "int list"
  qp_joined_at :: int
  qp_difficulty_override :: DifficultyScalar

record QueuedParty =
  pt_party_id :: u64
  pt_is_team :: bool
  pt_leader_guid :: guid
  pt_members :: "QueuedPlayer list"
  pt_joined_at :: int
  pt_difficulty_override :: DifficultyScalar

definition pt_size :: "QueuedParty \<Rightarrow> nat" where
  "pt_size p = length (pt_members p)"

abbreviation member_guids :: "QueuedParty \<Rightarrow> guid list" where
  "member_guids p \<equiv> map qp_session_guid (pt_members p)"

definition party_guids :: "QueuedParty list \<Rightarrow> guid list" where
  "party_guids ps = concat (map member_guids ps)"

section \<open>Policies\<close>

datatype TaskforcePolicy = Pinned1 | Pinned2 | Balanced | BalancedPvp
datatype TeamPolicy = Block | OwnMatch | Mixed | VersusSides
datatype TeamSidePolicy = Ignore | Preferred | Required
datatype AccessMode = OpenAccess | PartyLocked | Sealed | BackfillOnlyAccess
datatype PopDelayPolicy = HalveOnJoin | Fixed | ResetOnJoin
datatype LateJoinPolicy = OpenLateJoin | BackfillOnly

section \<open>Map pool, sides, instances, results\<close>

record MapModeEntry =
  me_map_name :: string
  me_game_mode :: string
  me_weight :: int
  me_min_players :: "int option"
  me_max_players :: "int option"
  me_dlc_id :: "int option"

record MapModeSpec =
  ms_map_name :: string
  ms_game_mode :: string

record TeamSeed =
  sd_size :: int
  sd_heal_score :: rat
  sd_mmr_sum :: rat
  sd_class_counts :: "(u32, int) umap"
  sd_class_mmr_sum :: "(u32, rat) umap"

definition empty_seed :: TeamSeed where
  "empty_seed = \<lparr>sd_size = 0, sd_heal_score = 0, sd_mmr_sum = 0,
     sd_class_counts = [], sd_class_mmr_sum = []\<rparr>"

record RunningInstance =
  ri_instance_id :: int
  ri_map_name :: string
  ri_game_mode :: string
  ri_player_count :: int
  ri_max_players :: int
  ri_queue_id :: u32
  ri_team1 :: TeamSeed
  ri_team2 :: TeamSeed
  ri_access_mode :: AccessMode
  ri_owner_party_ids :: "u64 list"

definition seats_free :: "RunningInstance \<Rightarrow> int" where
  "seats_free ri =
     (if ri_max_players ri > 0 then max 0 (ri_max_players ri - ri_player_count ri) else -1)"

definition admits_party :: "RunningInstance \<Rightarrow> u64 \<Rightarrow> bool" where
  "admits_party ri pid =
     (if ri_access_mode ri = OpenAccess then True
      else if ri_access_mode ri = Sealed \<or> ri_access_mode ri = BackfillOnlyAccess then False
      else pid \<in> set (ri_owner_party_ids ri))"

record MatchResult =
  mr_map_name :: string
  mr_game_mode :: string
  mr_session_guids :: "guid list"
  mr_existing_instance_id :: "int option"
  mr_task_force_assignments :: "(guid, int) umap"
  mr_profile_ids :: "(guid, u32) umap"
  mr_mmrs :: "(guid, rat) umap"
  mr_cap_override :: "u32 option"
  mr_access_mode :: AccessMode
  mr_owner_party_ids :: "u64 list"
  mr_cohesion_spilled :: bool
  mr_consumed_party_ids :: "u64 list"
  mr_difficulty_override :: DifficultyScalar

definition empty_result :: MatchResult where
  \<comment> \<open>the member initialisers of \<open>struct MatchResult\<close>\<close>
  "empty_result = \<lparr>mr_map_name = [], mr_game_mode = [], mr_session_guids = [],
     mr_existing_instance_id = None, mr_task_force_assignments = [], mr_profile_ids = [],
     mr_mmrs = [], mr_cap_override = None, mr_access_mode = OpenAccess,
     mr_owner_party_ids = [], mr_cohesion_spilled = False, mr_consumed_party_ids = [],
     mr_difficulty_override = ds_zero\<rparr>"

section \<open>Queue configuration\<close>

text \<open>
  One \<open>ga_queues\<close> row with its map pool. The two floats \<open>map_x\<close> and \<open>map_y\<close> are only
  ever copied to the wire as raw bits (\<open>TicketInfoEncoder\<close>), so they are held as their
  bit pattern.
\<close>

record QueueConfig =
  qc_queue_id :: u32
  qc_map_pool_id :: u32
  qc_name :: string
  qc_rule_class :: string
  qc_taskforce_policy :: TaskforcePolicy
  qc_continue_in_queue :: bool
  qc_enabled :: bool
  qc_team_policy :: TeamPolicy
  qc_team_side_policy :: TeamSidePolicy
  qc_max_team_size :: u32
  qc_queue_type_value_id :: u32
  qc_status_msg_id :: u32
  qc_name_msg_id :: u32
  qc_desc_msg_id :: u32
  qc_icon_id :: u32
  qc_max_players_per_side :: u32
  qc_min_players_per_team :: u32
  qc_max_players_per_team :: u32
  qc_level_min :: u32
  qc_level_max :: u32
  qc_tab :: u32
  qc_map_x :: u32
  qc_map_y :: u32
  qc_map_active_flag :: bool
  qc_map_icon_texture_res_id :: u32
  qc_video_res_id :: u32
  qc_location_value_id :: u32
  qc_double_agent_flag :: bool
  qc_sys_site_id :: u32
  qc_sort_order :: u32
  qc_bonus_queue_flag :: bool
  qc_difficulty_value_id :: u32
  qc_marshal_difficulty_value_id :: "u32 option"
  qc_access_flags :: u64
  qc_active_flag :: bool
  qc_locked_flag :: bool
  qc_remaining_seconds :: "u32 option"
  qc_min_players_to_pop :: u32
  qc_max_players_per_instance :: u32
  qc_pop_delay_seconds :: rat
  qc_pop_delay_policy :: PopDelayPolicy
  qc_instant_pop_when_full :: bool
  qc_requires_pvp_verification :: bool
  qc_strict_class_balance :: bool
  qc_late_join_policy :: LateJoinPolicy
  qc_pair_backfill :: bool
  qc_setup_rebalance :: bool
  qc_fairness_scope :: string
  qc_map_recency_divisors :: "rat list"
  qc_map_pool :: "MapModeEntry list"

section \<open>Parsing of the policy columns\<close>

text \<open>Each parser answers the value and the \<open>ok\<close> flag; an unknown word gives the default.\<close>

definition ParseTaskforcePolicy :: "string \<Rightarrow> bool \<times> TaskforcePolicy" where
  "ParseTaskforcePolicy s =
     (if s = ''pinned_1'' then (True, Pinned1)
      else if s = ''pinned_2'' then (True, Pinned2)
      else if s = ''balanced'' then (True, Balanced)
      else if s = ''balanced_pvp'' then (True, BalancedPvp)
      else (False, Pinned1))"

definition ParseTeamPolicy :: "string \<Rightarrow> bool \<times> TeamPolicy" where
  "ParseTeamPolicy s =
     (if s = ''block'' then (True, Block)
      else if s = ''own_match'' then (True, OwnMatch)
      else if s = ''mixed'' then (True, Mixed)
      else if s = ''versus_sides'' then (True, VersusSides)
      else (False, Mixed))"

definition ParseTeamSidePolicy :: "string \<Rightarrow> bool \<times> TeamSidePolicy" where
  "ParseTeamSidePolicy s =
     (if s = ''ignore'' then (True, Ignore)
      else if s = ''preferred'' then (True, Preferred)
      else if s = ''required'' then (True, Required)
      else (False, Ignore))"

definition ParsePopDelayPolicy :: "string \<Rightarrow> bool \<times> PopDelayPolicy" where
  "ParsePopDelayPolicy s =
     (if s = ''halve_on_join'' then (True, HalveOnJoin)
      else if s = ''fixed'' then (True, Fixed)
      else if s = ''reset_on_join'' then (True, ResetOnJoin)
      else (False, HalveOnJoin))"

definition ParseLateJoinPolicy :: "string \<Rightarrow> bool \<times> LateJoinPolicy" where
  "ParseLateJoinPolicy s =
     (if s = ''open'' then (True, OpenLateJoin)
      else if s = ''backfill_only'' then (True, BackfillOnly)
      else (False, OpenLateJoin))"

definition AccessModeToString :: "AccessMode \<Rightarrow> string" where
  "AccessModeToString m =
     (case m of OpenAccess \<Rightarrow> ''OPEN'' | PartyLocked \<Rightarrow> ''PARTY_LOCKED''
      | Sealed \<Rightarrow> ''SEALED'' | BackfillOnlyAccess \<Rightarrow> ''BACKFILL_ONLY'')"

definition ParseAccessMode :: "string \<Rightarrow> AccessMode" where
  "ParseAccessMode s =
     (if s = ''PARTY_LOCKED'' then PartyLocked
      else if s = ''SEALED'' then Sealed
      else if s = ''BACKFILL_ONLY'' then BackfillOnlyAccess
      else OpenAccess)"

text \<open>
  \<open>ParseRecencyDivisors\<close> reads a comma separated list of numbers, each at least one.
  \<open>strtod\<close> is a parameter: it answers the number read and the unread rest (\<open>endp\<close>);
  \<open>c_str\<close> cuts the token at an embedded NUL. The numbers are of any ordered type with a
  one, so that the result for infinities is covered too.
\<close>

definition isspace :: "char \<Rightarrow> bool" where
  "isspace c = (c \<in> {CHR 0x20, CHR 0x09, CHR 0x0A, CHR 0x0B, CHR 0x0C, CHR 0x0D})"

definition trim :: "string \<Rightarrow> string" where
  "trim s = rev (dropWhile isspace (rev (dropWhile isspace s)))"

definition c_str :: "string \<Rightarrow> string" where
  "c_str s = takeWhile (\<lambda>c. c \<noteq> CHR 0x00) s"

function recency_loop ::
  "(string \<Rightarrow> 'd::{ord,one} \<times> string) \<Rightarrow> bool \<Rightarrow> 'd list \<Rightarrow> string \<Rightarrow> bool \<times> 'd list" where
  "recency_loop strtod any_token out s =
     (let raw = takeWhile (\<lambda>c. c \<noteq> CHR '','') s;
          rest = dropWhile (\<lambda>c. c \<noteq> CHR '','') s;
          tok = trim raw
      in if tok = [] then
           (if any_token \<or> rest \<noteq> [] then (False, []) else (True, out))
         else
           (case strtod (c_str tok) of (v, endp) \<Rightarrow>
             if endp \<noteq> [] \<or> \<not> (v \<ge> 1) then (False, [])
             else if rest = [] then (True, out @ [v])
             else recency_loop strtod True (out @ [v]) (tl rest)))"
  by pat_completeness auto
termination
proof (relation "measure (\<lambda>(_, _, _, s). length s)", goal_cases)
  case 1
  then show ?case by simp
next
  case (2 strtod any_token out s)
  have "length (dropWhile (\<lambda>c. c \<noteq> CHR '','') s) \<le> length s"
    by (rule length_dropWhile_le)
  with 2 show ?case
    by (cases "dropWhile (\<lambda>c. c \<noteq> CHR '','') s") auto
qed

declare recency_loop.simps [simp del]

definition ParseRecencyDivisors ::
  "(string \<Rightarrow> 'd::{ord,one} \<times> string) \<Rightarrow> string \<Rightarrow> bool \<times> 'd list" where
  "ParseRecencyDivisors strtod s = recency_loop strtod False [] s"

section \<open>Caps and map gating\<close>

definition QueueInstanceCap :: "QueueConfig \<Rightarrow> u32 \<Rightarrow> u32" where
  "QueueInstanceCap cfg instance_max_players =
     (if qc_max_players_per_instance cfg > 0 then qc_max_players_per_instance cfg
      else if qc_taskforce_policy cfg \<in> {Balanced, BalancedPvp} \<and> qc_max_players_per_side cfg > 0
        then qc_max_players_per_side cfg * 2
      else if qc_taskforce_policy cfg \<in> {Balanced, BalancedPvp} \<and> qc_max_players_per_team cfg > 0
        then qc_max_players_per_team cfg * 2
      else if qc_max_players_per_side cfg > 0 then qc_max_players_per_side cfg
      else if qc_max_players_per_team cfg > 0 then qc_max_players_per_team cfg
      else instance_max_players)"

definition MaxTeamSize :: "QueueConfig \<Rightarrow> u32" where
  "MaxTeamSize cfg =
     (if qc_max_team_size cfg > 0 then qc_max_team_size cfg else QueueInstanceCap cfg 0)"

definition FlattenParties :: "QueuedParty list \<Rightarrow> QueuedPlayer list" where
  "FlattenParties ps = concat (map pt_members ps)"

definition EntryPlayableWith :: "MapModeEntry \<Rightarrow> int list \<Rightarrow> bool" where
  "EntryPlayableWith e installed =
     (case me_dlc_id e of None \<Rightarrow> True | Some d \<Rightarrow> d \<in> set installed)"

definition EntryPlayableByParty :: "MapModeEntry \<Rightarrow> QueuedParty \<Rightarrow> bool" where
  "EntryPlayableByParty e p =
     (case me_dlc_id e of None \<Rightarrow> True
      | Some _ \<Rightarrow> list_all (\<lambda>m. EntryPlayableWith e (qp_installed_dlcs m)) (pt_members p))"

definition PartyCanPlayMap :: "QueueConfig \<Rightarrow> QueuedParty \<Rightarrow> string \<Rightarrow> bool" where
  "PartyCanPlayMap cfg p map_name =
     (case find (\<lambda>e. me_map_name e = map_name) (qc_map_pool cfg) of
        Some e \<Rightarrow> EntryPlayableByParty e p | None \<Rightarrow> True)"

definition PoolHasDlcMaps :: "QueueConfig \<Rightarrow> bool" where
  "PoolHasDlcMaps cfg = list_ex (\<lambda>e. me_dlc_id e \<noteq> None) (qc_map_pool cfg)"

section \<open>Lemmas\<close>

lemma u32_ratio_nonneg [simp]: "0 \<le> u32_ratio a b"
  unfolding u32_ratio_def by (intro divide_nonneg_nonneg of_nat_0_le_iff)

lemma exclusion_rate_nonneg: "0 \<le> exclusion_rate s"
  by (simp add: exclusion_rate_def Let_def)

lemma defender_ratio_nonneg: "0 \<le> defender_ratio s"
  by (simp add: defender_ratio_def)

text \<open>Two different fractions with denominators below 30000 differ by more than \<open>1e-9\<close>.\<close>

lemma frac_gap:
  fixes a c :: int and b d :: nat
  assumes "0 < b" "0 < d" "b < 30000" "d < 30000" "of_int a / of_nat b \<noteq> (of_int c / of_nat d :: rat)"
  shows "1 / 10 ^ 9 < \<bar>of_int a / of_nat b - of_int c / of_nat d :: rat\<bar>"
proof -
  define e where "e = a * int d - c * int b"
  have bd: "(of_nat b * of_nat d :: rat) > 0" using assms by simp
  have eq: "of_int a / of_nat b - of_int c / of_nat d = (of_int e / (of_nat b * of_nat d) :: rat)"
    using assms(1,2) by (simp add: e_def field_simps)
  then have "e \<noteq> 0" using assms(5) by auto
  then have "1 \<le> \<bar>e\<bar>" by simp
  then have e1: "(1 :: rat) \<le> \<bar>of_int e\<bar>" by (metis of_int_1_le_iff of_int_abs)
  have "b * d < 30000 * 30000" using assms by (intro mult_strict_mono) auto
  then have "(of_nat (b * d) :: rat) < of_nat (30000 * 30000)" by (rule of_nat_less_iff [THEN iffD2])
  then have "(of_nat b * of_nat d :: rat) < 10 ^ 9" by simp
  then have "1 / 10 ^ 9 < 1 / (of_nat b * of_nat d :: rat)" using bd by (simp add: field_simps)
  also have "\<dots> \<le> \<bar>of_int e\<bar> / (of_nat b * of_nat d)" using e1 bd by (simp add: divide_right_mono)
  finally show ?thesis using bd by (simp add: eq abs_divide abs_mult)
qed

lemma parse_access_roundtrip: "ParseAccessMode (AccessModeToString m) = m"
  by (cases m) (simp_all add: ParseAccessMode_def AccessModeToString_def)

lemma party_guids_Cons [simp]: "party_guids (p # ps) = member_guids p @ party_guids ps"
  by (simp add: party_guids_def)

lemma party_guids_Nil [simp]: "party_guids [] = []"
  by (simp add: party_guids_def)

lemma party_guids_append [simp]: "party_guids (ps @ qs) = party_guids ps @ party_guids qs"
  by (simp add: party_guids_def)

lemma length_party_guids: "length (party_guids ps) = sum_list (map pt_size ps)"
  by (induction ps) (simp_all add: pt_size_def)

lemma party_guids_Flatten: "party_guids ps = map qp_session_guid (FlattenParties ps)"
  by (induction ps) (simp_all add: FlattenParties_def)

lemma set_party_guids: "set (party_guids ps) = (\<Union>p \<in> set ps. set (member_guids p))"
  by (auto simp: party_guids_def)

lemma mset_party_guids: "mset ps = mset qs \<Longrightarrow> mset (party_guids ps) = mset (party_guids qs)"
  unfolding party_guids_def by (simp add: mset_concat) (metis mset_map sum_mset_sum_list)

lemma distinct_party_guids_mset:
  "mset ps = mset qs \<Longrightarrow> distinct (party_guids qs) \<Longrightarrow> distinct (party_guids ps)"
  using mset_party_guids mset_eq_imp_distinct_iff by blast

lemma subseq_party_guids: "subseq ps qs \<Longrightarrow> subseq (party_guids ps) (party_guids qs)"
  by (induction rule: list_emb.induct) (auto intro: list_emb_append2 list_emb_append_mono)

lemma distinct_party_guids_subseq:
  "subseq ps qs \<Longrightarrow> distinct (party_guids qs) \<Longrightarrow> distinct (party_guids ps)"
  by (metis subseq_party_guids subseq_map_distinct [of _ _ "\<lambda>x. x"] list.map_ident)

text \<open>A failed parse clears the list; a successful one holds numbers that are at least one.\<close>

lemma recency_loop_sound:
  "recency_loop strtod any out s = (ok, ds) \<Longrightarrow> \<forall>d \<in> set out. d \<ge> 1 \<Longrightarrow>
   (ok \<longrightarrow> (\<forall>d \<in> set ds. d \<ge> 1)) \<and> (\<not> ok \<longrightarrow> ds = [])"
proof (induction strtod any out s arbitrary: ok ds rule: recency_loop.induct)
  case (1 strtod any_token out s)
  define tok where "tok = trim (takeWhile (\<lambda>c. c \<noteq> CHR '','') s)"
  define rest where "rest = dropWhile (\<lambda>c. c \<noteq> CHR '','') s"
  obtain v endp where v: "strtod (c_str tok) = (v, endp)" by force
  note unf = "1.prems"(1) [unfolded recency_loop.simps [of strtod any_token out s] Let_def,
      folded tok_def rest_def]
  show ?case
  proof (cases "tok \<noteq> [] \<and> endp = [] \<and> v \<ge> 1 \<and> rest \<noteq> []")
    case True
    with unf v have "recency_loop strtod True (out @ [v]) (tl rest) = (ok, ds)" by simp
    moreover have "\<forall>d \<in> set (out @ [v]). d \<ge> 1" using True "1.prems"(2) by simp
    moreover note "1.IH" [OF refl rest_def tok_def _ v [symmetric]]
    ultimately show ?thesis using True by blast
  next
    case False
    with unf v "1.prems"(2) show ?thesis by (auto split: if_splits)
  qed
qed

end
