(* ===== verification/MmrSwap.thy ===== *)
theory MmrSwap
  imports Domain
begin

text \<open>
  The rating post-pass of the placement code, \<open>MatchmakingService/MmrSwap.hpp\<close> and
  \<open>MmrSwap.cpp\<close>: the balance cost of an assignment (\<open>ClassMmrGap\<close>, \<open>OverallMmrGap\<close>,
  \<open>BalanceCost\<close>), the greedy same-class swap pass \<open>BalanceByMmr\<close>, and the dynamic
  program \<open>BalanceByMmrOptimal\<close> with its combination search. An assignment is the
  \<open>guid -> task force\<close> map the code mutates in place; the model returns it. The lemmas
  show that both passes only exchange swappable players of one class, so that the
  head count of every class on every side is untouched.
\<close>

section \<open>Data\<close>

record Player =
  pl_guid :: guid
  pl_profile_id :: u32
  pl_mmr :: rat
  pl_swappable :: bool

type_synonym assignment = "(guid, int) umap"

record SeedContext =
  sc_mmr_tf1 :: rat
  sc_mmr_tf2 :: rat
  sc_n_tf1 :: int
  sc_n_tf2 :: int
  sc_class_mmr_tf1 :: "(u32, rat) umap"
  sc_class_mmr_tf2 :: "(u32, rat) umap"
  sc_class_n_tf1 :: "(u32, int) umap"
  sc_class_n_tf2 :: "(u32, int) umap"

definition empty_ctx :: SeedContext where
  "empty_ctx = \<lparr>sc_mmr_tf1 = 0, sc_mmr_tf2 = 0, sc_n_tf1 = 0, sc_n_tf2 = 0,
     sc_class_mmr_tf1 = [], sc_class_mmr_tf2 = [], sc_class_n_tf1 = [], sc_class_n_tf2 = []\<rparr>"

definition kClassBalanceWeight :: rat where
  "kClassBalanceWeight = 2"

text \<open>Sums are kept in thousandths of a rating point (\<open>Milli\<close>, an \<open>int64_t\<close>).\<close>

definition llround :: "rat \<Rightarrow> int" where
  \<comment> \<open>\<open>std::llround\<close>: to the nearest integer, halves away from zero\<close>
  "llround x = (if x \<ge> 0 then \<lfloor>x + 1/2\<rfloor> else - \<lfloor>1/2 - x\<rfloor>)"

definition ToMilli :: "rat \<Rightarrow> int" where
  "ToMilli v = llround (v * 1000)"

definition FromMilli :: "int \<Rightarrow> rat" where
  "FromMilli m = rat_of_int m / 1000"

section \<open>The balance cost\<close>

definition MeanMmrDiff :: "rat \<Rightarrow> int \<Rightarrow> rat \<Rightarrow> int \<Rightarrow> SeedContext \<Rightarrow> rat" where
  "MeanMmrDiff sum1 n1 sum2 n2 seed =
     (let t1 = sc_mmr_tf1 seed + sum1; t2 = sc_mmr_tf2 seed + sum2;
          c1 = sc_n_tf1 seed + n1; c2 = sc_n_tf2 seed + n2
      in if c1 \<le> 0 \<or> c2 \<le> 0 then 0 else \<bar>t1 / of_int c1 - t2 / of_int c2\<bar>)"

definition ClassGap :: "u32 \<Rightarrow> rat \<Rightarrow> int \<Rightarrow> rat \<Rightarrow> int \<Rightarrow> SeedContext \<Rightarrow> rat" where
  "ClassGap cls sum1 n1 sum2 n2 seed =
     (let t1 = umap_get 0 (sc_class_mmr_tf1 seed) cls + sum1;
          t2 = umap_get 0 (sc_class_mmr_tf2 seed) cls + sum2;
          c1 = umap_get 0 (sc_class_n_tf1 seed) cls + n1;
          c2 = umap_get 0 (sc_class_n_tf2 seed) cls + n2
      in if c1 \<le> 0 \<or> c2 \<le> 0 then 0 else \<bar>t1 / of_int c1 - t2 / of_int c2\<bar>)"

record ClassTally =
  ct_sum1 :: rat
  ct_sum2 :: rat
  ct_n1 :: int
  ct_n2 :: int

definition empty_tally :: ClassTally where
  "empty_tally = \<lparr>ct_sum1 = 0, ct_sum2 = 0, ct_n1 = 0, ct_n2 = 0\<rparr>"

definition tally_add :: "int \<Rightarrow> rat \<Rightarrow> ClassTally \<Rightarrow> ClassTally" where
  "tally_add tf mmr t =
     (if tf = 1 then t\<lparr>ct_sum1 := ct_sum1 t + mmr, ct_n1 := ct_n1 t + 1\<rparr>
      else t\<lparr>ct_sum2 := ct_sum2 t + mmr, ct_n2 := ct_n2 t + 1\<rparr>)"

definition Tally :: "Player list \<Rightarrow> assignment \<Rightarrow> (u32, ClassTally) umap" where
  "Tally players asg =
     fold (\<lambda>p out. case umap_find asg (pl_guid p) of
         None \<Rightarrow> out
       | Some tf \<Rightarrow> umap_mod empty_tally (tally_add tf (pl_mmr p)) (pl_profile_id p) out)
       players []"

definition ClassMmrGap :: "Player list \<Rightarrow> assignment \<Rightarrow> SeedContext \<Rightarrow> rat" where
  "ClassMmrGap players asg seed =
     (let tally = Tally players asg;
          tot = sc_n_tf1 seed + sc_n_tf2 seed
                + sum_list (map (\<lambda>(_, t). ct_n1 t + ct_n2 t) tally)
      in if tot \<le> 0 then 0
         else sum_list (map (\<lambda>(cls, t).
                of_int (umap_get 0 (sc_class_n_tf1 seed) cls + umap_get 0 (sc_class_n_tf2 seed) cls
                        + ct_n1 t + ct_n2 t)
                * ClassGap cls (ct_sum1 t) (ct_n1 t) (ct_sum2 t) (ct_n2 t) seed) tally)
              / of_int tot)"

definition OverallMmrGap :: "Player list \<Rightarrow> assignment \<Rightarrow> SeedContext \<Rightarrow> rat" where
  "OverallMmrGap players asg seed =
     (let t = fold (\<lambda>p t. case umap_find asg (pl_guid p) of
                 None \<Rightarrow> t | Some tf \<Rightarrow> tally_add tf (pl_mmr p) t) players empty_tally
      in MeanMmrDiff (ct_sum1 t) (ct_n1 t) (ct_sum2 t) (ct_n2 t) seed)"

definition BalanceCost :: "Player list \<Rightarrow> assignment \<Rightarrow> SeedContext \<Rightarrow> rat" where
  "BalanceCost players asg seed =
     kClassBalanceWeight * ClassMmrGap players asg seed + OverallMmrGap players asg seed"

section \<open>The greedy swap pass\<close>

text \<open>
  One round of \<open>BalanceByMmr\<close> scans all pairs of a swappable TF1 player and a swappable
  TF2 player of the same class and keeps the swap with the smallest remaining gap. The
  scan state is \<open>(best_abs, best_diff, best pair)\<close>.
\<close>

type_synonym swap_best = "rat \<times> rat \<times> (Player \<times> Player) option"

definition swap_scan_b :: "assignment \<Rightarrow> rat \<Rightarrow> Player \<Rightarrow> Player \<Rightarrow> swap_best \<Rightarrow> swap_best" where
  "swap_scan_b asg diff a b best =
     (case best of (best_abs, best_diff, pair) \<Rightarrow>
        if \<not> pl_swappable b \<or> pl_profile_id b \<noteq> pl_profile_id a then best
        else if umap_find asg (pl_guid b) \<noteq> Some 2 then best
        else let nd = diff - 2 * pl_mmr a + 2 * pl_mmr b
             in if \<bar>nd\<bar> < best_abs - 1 / 10^9 then (\<bar>nd\<bar>, nd, Some (a, b)) else best)"

definition swap_scan_a :: "Player list \<Rightarrow> assignment \<Rightarrow> rat \<Rightarrow> Player \<Rightarrow> swap_best \<Rightarrow> swap_best" where
  "swap_scan_a players asg diff a best =
     (if \<not> pl_swappable a then best
      else if umap_find asg (pl_guid a) \<noteq> Some 1 then best
      else fold (swap_scan_b asg diff a) players best)"

definition best_swap :: "Player list \<Rightarrow> assignment \<Rightarrow> rat \<Rightarrow> swap_best" where
  "best_swap players asg diff =
     fold (swap_scan_a players asg diff) players (\<bar>diff\<bar>, diff, None)"

fun swap_rounds :: "nat \<Rightarrow> Player list \<Rightarrow> assignment \<Rightarrow> rat \<Rightarrow> int \<Rightarrow> int \<times> assignment \<times> rat" where
  \<comment> \<open>\<open>while (swaps < cap)\<close>, counting the rounds that are left\<close>
  "swap_rounds 0 players asg diff swaps = (swaps, asg, diff)"
| "swap_rounds (Suc left) players asg diff swaps =
     (case best_swap players asg diff of
        (_, _, None) \<Rightarrow> (swaps, asg, diff)
      | (_, best_diff, Some (a, b)) \<Rightarrow>
          swap_rounds left players (umap_put (pl_guid b) 1 (umap_put (pl_guid a) 2 asg))
            best_diff (swaps + 1))"

definition mmr_diff :: "Player list \<Rightarrow> assignment \<Rightarrow> rat \<Rightarrow> rat" where
  "mmr_diff players asg seed_diff =
     fold (\<lambda>p diff. case umap_find asg (pl_guid p) of None \<Rightarrow> diff
        | Some tf \<Rightarrow> diff + (if tf = 1 then pl_mmr p else - pl_mmr p)) players seed_diff"

definition BalanceByMmr :: "Player list \<Rightarrow> assignment \<Rightarrow> rat \<Rightarrow> int \<times> assignment" where
  "BalanceByMmr players asg seed_diff =
     (case swap_rounds (length players) players asg (mmr_diff players asg seed_diff) 0 of
        (swaps, asg', _) \<Rightarrow> (swaps, asg'))"

section \<open>Combinations\<close>

text \<open>
  Both \<open>ClassAchievableSums\<close> and \<open>AssignClassCombination\<close> walk the \<open>need\<close>-element index
  combinations of \<open>0..<n\<close> in lexicographic order, from \<open>[0, ..., need - 1]\<close>. The next
  combination moves up the rightmost index that is not at its maximum (the index with
  \<open>L\<close> entries from it to the end has the maximum \<open>n - L\<close>; an index never exceeds it)
  and resets the ones after it.
\<close>

fun next_combo :: "nat \<Rightarrow> nat list \<Rightarrow> nat list option" where
  "next_combo n [] = None"
| "next_combo n (i # is) =
     (case next_combo n is of
        Some is' \<Rightarrow> Some (i # is')
      | None \<Rightarrow> if i + length (i # is) < n 
        then Some (Suc i # [Suc (Suc i) ..< Suc i + length (i # is)]) else None)"

fun combo_rank :: "nat \<Rightarrow> nat list \<Rightarrow> nat" where
  "combo_rank n [] = 0"
| "combo_rank n (i # is) = (n - i) * (n + 1) ^ length is + combo_rank n is"

lemma combo_rank_less: "combo_rank n is < (n + 1) ^ length is"
proof (induction "is")
  case (Cons i "is")
  have "(n - i) * (n + 1) ^ length is \<le> n * (n + 1) ^ length is" by simp
  with Cons show ?case by (simp add: algebra_simps)
qed simp

lemma length_next_combo: "next_combo n is = Some is' \<Longrightarrow> length is' = length is"
  by (induction n "is" arbitrary: is' rule: next_combo.induct)
    (auto split: option.splits if_splits simp del: upt_Suc)

lemma next_combo_rank: "next_combo n is = Some is' \<Longrightarrow> combo_rank n is' < combo_rank n is"
proof (induction n "is" arbitrary: is' rule: next_combo.induct)
  case (2 n i "is")
  show ?case
  proof (cases "next_combo n is")
    case (Some js)
    with 2 show ?thesis by (auto dest: length_next_combo)
  next
    case None
    with 2(2) have *: "i + length (i # is) < n"
      and is': "is' = Suc i # [Suc (Suc i) ..< Suc i + length (i # is)]"
      by (auto split: if_splits simp del: upt_Suc)
    have "combo_rank n [Suc (Suc i) ..< Suc i + length (i # is)] < (n + 1) ^ length is"
      using combo_rank_less [of n "[Suc (Suc i) ..< Suc i + length (i # is)]"]
      by (simp del: upt_Suc)
    moreover have "(n - i) * (n + 1) ^ length is
        = (n - Suc i) * (n + 1) ^ length is + (n + 1) ^ length is"
      using * by (simp add: Suc_diff_Suc [symmetric] add.commute)
    ultimately show ?thesis using is' by (simp del: upt_Suc)
  qed
qed simp

function combos_from :: "nat \<Rightarrow> nat list \<Rightarrow> nat list list" where
  \<comment> \<open>the combinations the \<open>while (true)\<close> loop visits, in order\<close>
  "combos_from n idx =
     idx # (case next_combo n idx of None \<Rightarrow> [] | Some idx' \<Rightarrow> combos_from n idx')"
  by pat_completeness auto
termination
  by (relation "measure (\<lambda>(n, idx). combo_rank n idx)") (auto intro: next_combo_rank)

declare combos_from.simps [simp del]

type_synonym milli_pool = "(guid \<times> int) list"

definition class_pool_step ::
  "assignment \<Rightarrow> Player \<Rightarrow> int \<times> int \<times> milli_pool \<Rightarrow> int \<times> int \<times> milli_pool" where
  "class_pool_step asg p st =
     (case st of (locked1, locked_sum1, pool) \<Rightarrow>
        (case umap_find asg (pl_guid p) of
          None \<Rightarrow> st
        | Some tf \<Rightarrow>
            if \<not> pl_swappable p
            then (if tf = 1 then (locked1 + 1, locked_sum1 + ToMilli (pl_mmr p), pool) else st)
            else (locked1, locked_sum1, pool @ [(pl_guid p, ToMilli (pl_mmr p))])))"

definition class_pool :: "Player list \<Rightarrow> assignment \<Rightarrow> int \<times> int \<times> milli_pool" where
  \<comment> \<open>the first loop of both functions below: locked TF1 heads, their sum, the swappable pool\<close>
  "class_pool players asg = fold (class_pool_step asg) players (0, 0, [])"

definition combo_sum :: "int \<Rightarrow> int list \<Rightarrow> nat list \<Rightarrow> int" where
  "combo_sum locked_sum1 vals idx = locked_sum1 + sum_list (map (\<lambda>i. vals ! i) idx)"

definition ClassAchievableSums :: "Player list \<Rightarrow> assignment \<Rightarrow> int \<Rightarrow> int list" where
  "ClassAchievableSums players asg n1_target =
     (case class_pool players asg of (locked1, locked_sum1, pool) \<Rightarrow>
        let need = n1_target - locked1
        in if need < 0 \<or> need > int (length pool) then []
           else if need = 0 then [locked_sum1]
           else let vals = sort (map snd pool)
                in remdups_adj (sort (map (combo_sum locked_sum1 vals)
                     (combos_from (length pool) [0 ..< nat need]))))"

definition apply_combo :: "milli_pool \<Rightarrow> nat list \<Rightarrow> assignment \<Rightarrow> assignment" where
  "apply_combo pool idx asg =
     fold (\<lambda>i. umap_put (fst (pool ! i)) 2) (filter (\<lambda>i. i \<notin> set idx) [0 ..< length pool])
       (fold (\<lambda>i. umap_put (fst (pool ! i)) 1) idx asg)"

text \<open>
  \<open>AssignClassCombination\<close> reads \<open>pool[idx[i]]\<close> without checking \<open>need <= n\<close>; its only
  caller has already refused that case (\<open>ClassAchievableSums\<close> is empty there).
\<close>

definition AssignClassCombination ::
  "Player list \<Rightarrow> int \<Rightarrow> int \<Rightarrow> assignment \<Rightarrow> bool \<times> assignment" where
  "AssignClassCombination players n1_target target_sum1 asg =
     (case class_pool players asg of (locked1, locked_sum1, pool) \<Rightarrow>
        let need = n1_target - locked1
        in if need < 0 then (False, asg)
           else if need = 0 then (locked_sum1 = target_sum1, asg)
           else (case find (\<lambda>idx. combo_sum locked_sum1 (map snd pool) idx = target_sum1)
                       (combos_from (length pool) [0 ..< nat need]) of
                  Some idx \<Rightarrow> (True, apply_combo pool idx asg)
                | None \<Rightarrow> (False, asg)))"

section \<open>The optimal same-class reassignment\<close>

definition batch_counts :: "Player list \<Rightarrow> assignment \<Rightarrow> int \<times> int \<times> int" where
  "batch_counts players asg =
     fold (\<lambda>p (n1, n2, tot). case umap_find asg (pl_guid p) of
         None \<Rightarrow> (n1, n2, tot)
       | Some tf \<Rightarrow> (if tf = 1 then (n1 + 1, n2, tot + ToMilli (pl_mmr p))
                     else (n1, n2 + 1, tot + ToMilli (pl_mmr p))))
       players (0, 0, 0)"

definition group_by_class :: "Player list \<Rightarrow> assignment \<Rightarrow> (u32, Player list) umap" where
  "group_by_class players asg =
     fold (\<lambda>p m. case umap_find asg (pl_guid p) of None \<Rightarrow> m
         | Some _ \<Rightarrow> umap_mod [] (\<lambda>ps. ps @ [p]) (pl_profile_id p) m) players []"

definition class_targets :: "Player list \<Rightarrow> assignment \<Rightarrow> (u32, int) umap" where
  "class_targets players asg =
     fold (\<lambda>p m. case umap_find asg (pl_guid p) of None \<Rightarrow> m
         | Some tf \<Rightarrow> if tf = 1 then umap_mod 0 (\<lambda>n. n + 1) (pl_profile_id p) m else m)
       players []"

definition class_cost ::
  "SeedContext \<Rightarrow> int \<Rightarrow> u32 \<Rightarrow> Player list \<Rightarrow> int \<Rightarrow> int \<Rightarrow> rat" where
  "class_cost seed heads_total cls ps n1 s1 =
     (let class_total = sum_list (map (\<lambda>p. ToMilli (pl_mmr p)) ps);
          heads = umap_get 0 (sc_class_n_tf1 seed) cls + umap_get 0 (sc_class_n_tf2 seed) cls
                + int (length ps);
          weight = (if heads_total > 0 then of_int heads / of_int heads_total else 0)
      in weight * ClassGap cls (FromMilli s1) n1 (FromMilli (class_total - s1))
                    (int (length ps) - n1) seed)"

type_synonym dp_table = "(int, rat \<times> int) umap"

definition dp_first :: "(int \<Rightarrow> rat) \<Rightarrow> int list \<Rightarrow> dp_table" where
  "dp_first cost sms = fold (\<lambda>add. umap_put add (cost add, 0)) sms []"

definition dp_add :: "(int \<Rightarrow> rat) \<Rightarrow> int \<Rightarrow> rat \<Rightarrow> int \<Rightarrow> dp_table \<Rightarrow> dp_table" where
  "dp_add cost s c add cur =
     (let ns = s + add; nc = c + cost add
      in case umap_find cur ns of
           None \<Rightarrow> umap_put ns (nc, s) cur
         | Some (oc, _) \<Rightarrow> if nc < oc - 1 / 10^12 then umap_put ns (nc, s) cur else cur)"

definition dp_step :: "(int \<Rightarrow> rat) \<Rightarrow> int list \<Rightarrow> dp_table \<Rightarrow> dp_table" where
  "dp_step cost sms prev = fold (\<lambda>(s, c, _). fold (dp_add cost s c) sms) prev []"

fun dp_tables :: "((int \<Rightarrow> rat) \<times> int list) list \<Rightarrow> dp_table \<Rightarrow> dp_table list" where
  "dp_tables [] t = [t]"
| "dp_tables ((cost, sms) # rest) t = t # dp_tables rest (dp_step cost sms t)"

definition dp_best :: "(int \<Rightarrow> rat \<Rightarrow> rat) \<Rightarrow> dp_table \<Rightarrow> rat option \<times> int" where
  \<comment> \<open>\<open>None\<close> is the initial infinity\<close>
  "dp_best obj_of t =
     fold (\<lambda>(s1, c, _) (best_obj, best_s1).
         let obj = obj_of s1 c
         in if (case best_obj of None \<Rightarrow> True | Some b \<Rightarrow> obj < b - 1 / 10^12)
            then (Some obj, s1) else (best_obj, best_s1)) t (None, 0)"

fun backtrack :: "dp_table list \<Rightarrow> int \<Rightarrow> int list \<Rightarrow> int list option" where
  \<comment> \<open>over the tables from the last class to the first\<close>
  "backtrack [] cur picks = Some picks"
| "backtrack (t # ts) cur picks =
     (case umap_find t cur of None \<Rightarrow> None
      | Some (_, prev) \<Rightarrow> backtrack ts prev ((cur - prev) # picks))"

fun assign_classes ::
  "(Player list \<times> int \<times> int) list \<Rightarrow> assignment \<Rightarrow> bool \<times> assignment" where
  "assign_classes [] asg = (True, asg)"
| "assign_classes ((ps, n1, pick) # rest) asg =
     (case AssignClassCombination ps n1 pick asg of
        (False, asg') \<Rightarrow> (False, asg')
      | (True, asg') \<Rightarrow> assign_classes rest asg')"

definition count_moved :: "Player list \<Rightarrow> assignment \<Rightarrow> assignment \<Rightarrow> int option" where
  \<comment> \<open>\<open>at\<close> throws on a missing guid: \<open>None\<close>\<close>
  "count_moved players before after =
     (if list_all (\<lambda>p. umap_find before (pl_guid p) \<noteq> None \<and> umap_find after (pl_guid p) \<noteq> None) players
      then Some (int (length (filter (\<lambda>p. umap_find before (pl_guid p) \<noteq> umap_find after (pl_guid p)) players)))
      else None)"

text \<open>
  The result is the returned count (\<open>None\<close> when \<open>std::out_of_range\<close> escapes) and the
  assignment as the call leaves it. Every early \<open>return 0\<close> is kept, the one after a
  partial update of the assignment included.
\<close>

definition BalanceByMmrOptimal ::
  "Player list \<Rightarrow> assignment \<Rightarrow> SeedContext \<Rightarrow> int option \<times> assignment" where
  "BalanceByMmrOptimal players asg seed =
     (if players = [] then (Some 0, asg)
      else case batch_counts players asg of (n1, n2, tot) \<Rightarrow>
        if n1 = 0 \<or> n2 = 0 then (Some 0, asg)
        else
          let n1_target = class_targets players asg;
              by_class = group_by_class players asg;
              classes = sort (map fst by_class);
              members = (\<lambda>cls. umap_get [] by_class cls);
              target = (\<lambda>cls. umap_get 0 n1_target cls);
              class_sums = map (\<lambda>cls. ClassAchievableSums (members cls) asg (target cls)) classes
          in if list_ex (\<lambda>sms. sms = []) class_sums then (Some 0, asg)
          else
            let heads_total = sc_n_tf1 seed + sc_n_tf2 seed + n1 + n2;
                costs = map (\<lambda>cls. class_cost seed heads_total cls (members cls) (target cls)) classes;
                tables = dp_tables (zip (tl costs) (tl class_sums))
                           (dp_first (hd costs) (hd class_sums))
            in if list_ex (\<lambda>t. t = []) (tl tables) then (Some 0, asg)
            else
              let obj_of = (\<lambda>s1 c. kClassBalanceWeight * c
                    + MeanMmrDiff (FromMilli s1) n1 (FromMilli (tot - s1)) n2 seed);
                  best_s1 = snd (dp_best obj_of (last tables))
              in (case backtrack (rev tables) best_s1 [] of
                   None \<Rightarrow> (Some 0, asg)
                 | Some picks \<Rightarrow>
                     (case assign_classes
                         (map (\<lambda>(cls, pick). (members cls, target cls, pick)) (zip classes picks)) asg of
                        (False, asg') \<Rightarrow> (Some 0, asg')
                      | (True, asg') \<Rightarrow> (count_moved players asg asg', asg'))))"

section \<open>Combinations: soundness and completeness of the enumeration\<close>

definition combo_ok :: "nat \<Rightarrow> nat \<Rightarrow> nat \<Rightarrow> nat list \<Rightarrow> bool" where
  "combo_ok lo n k is \<longleftrightarrow> length is = k \<and> sorted_wrt (<) is \<and> (\<forall>i \<in> set is. lo \<le> i \<and> i < n)"

lemma combo_ok_Cons:
  "combo_ok lo n (Suc k) (i # is) \<longleftrightarrow> lo \<le> i \<and> i < n \<and> combo_ok (Suc i) n k is"
  by (auto simp: combo_ok_def Suc_le_eq intro: order.strict_implies_order)

lemma combo_ok_Nil [simp]: "combo_ok lo n 0 is \<longleftrightarrow> is = []"
  by (auto simp: combo_ok_def)

lemma combo_ok_upt: "lo + k \<le> n \<Longrightarrow> combo_ok lo n k [lo ..< lo + k]"
  by (auto simp: combo_ok_def)

lemma combo_ok_room: "combo_ok lo n k is \<Longrightarrow> k = 0 \<or> lo + k \<le> n"
proof (induction k arbitrary: lo "is")
  case (Suc k)
  then obtain j js where "is = j # js" by (cases "is") (auto simp: combo_ok_def)
  with Suc show ?case by (fastforce simp: combo_ok_Cons)
qed simp

lemma combo_ok_least: "combo_ok lo n k is \<Longrightarrow> [lo ..< lo + k] \<le> is"
proof (induction k arbitrary: lo "is")
  case (Suc k)
  then obtain j js where j: "is = j # js" by (cases "is") (auto simp: combo_ok_def)
  with Suc.prems have "lo \<le> j" and js: "combo_ok (Suc j) n k js" by (auto simp: combo_ok_Cons)
  show ?case
  proof (cases "lo = j")
    case True
    from Suc.IH [OF js] have "[Suc j ..< Suc j + k] \<le> js" .
    with True j show ?thesis by (simp add: upt_conv_Cons del: upt_Suc)
  next
    case False
    with \<open>lo \<le> j\<close> j show ?thesis by (simp add: upt_conv_Cons del: upt_Suc)
  qed
qed simp

text \<open>\<open>next_combo\<close> is the successor in the lexicographic order of the combinations.\<close>

lemma next_combo_succ:
  assumes "combo_ok lo n k is"
  shows "case next_combo n is of
           Some is' \<Rightarrow> combo_ok lo n k is' \<and> is < is' \<and> (\<forall>js. combo_ok lo n k js \<and> is < js \<longrightarrow> is' \<le> js)
         | None \<Rightarrow> \<forall>js. combo_ok lo n k js \<longrightarrow> js \<le> is"
  using assms
proof (induction "is" arbitrary: lo k)
  case Nil
  then show ?case by (auto simp: combo_ok_def)
next
  case (Cons i "is")
  then obtain k' where k: "k = Suc k'" by (auto simp: combo_ok_def)
  with Cons.prems have i: "lo \<le> i" "i < n" "combo_ok (Suc i) n k' is" by (auto simp: combo_ok_Cons)
  have len: "length is = k'" using i(3) by (simp add: combo_ok_def)
  note IH = Cons.IH [OF i(3)]
  have split: "\<exists>j js'. js = j # js' \<and> lo \<le> j \<and> combo_ok (Suc j) n k' js'"
    if "combo_ok lo n k js" for js
    using that k by (cases js) (auto simp: combo_ok_Cons combo_ok_def)
  show ?case
  proof (cases "next_combo n is")
    case (Some is')
    with IH have s: "combo_ok (Suc i) n k' is'" "is < is'"
      "\<And>js. combo_ok (Suc i) n k' js \<Longrightarrow> is < js \<Longrightarrow> is' \<le> js" by auto
    have "i # is' \<le> js" if "combo_ok lo n k js" "i # is < js" for js
      using split [OF that(1)] that(2) s(3) by auto
    with Some s i k show ?thesis by (auto simp: combo_ok_Cons)
  next
    case None
    with IH have top: "\<And>js. combo_ok (Suc i) n k' js \<Longrightarrow> js \<le> is" by auto
    show ?thesis
    proof (cases "i + Suc k' < n")
      case True
      let ?r = "Suc i # [Suc (Suc i) ..< Suc i + Suc k']"
      have up: "?r = [Suc i ..< Suc i + Suc k']" by (simp add: upt_conv_Cons del: upt_Suc)
      have ok: "combo_ok lo n k ?r"
        using combo_ok_upt [of "Suc (Suc i)" k' n] True i(1) k
        by (simp add: combo_ok_Cons del: upt_Suc)
      have least: "?r \<le> xs" if a: "combo_ok lo n k xs" and b: "i # is < xs" for xs
      proof -
        obtain j js' where j: "xs = j # js'" "lo \<le> j" "combo_ok (Suc j) n k' js'"
          using split [OF a] by auto
        have "i \<noteq> j"
        proof
          assume "i = j"
          with j top have "js' \<le> is" by simp
          with b j \<open>i = j\<close> show False by auto
        qed
        with b j have "i < j" by auto
        with a j k have "combo_ok (Suc i) n k xs" by (auto simp: combo_ok_Cons)
        then show ?thesis using combo_ok_least k up by metis
      qed
      show ?thesis using None True ok least len by (simp del: upt_Suc)
    next
      case False
      have "xs \<le> i # is" if a: "combo_ok lo n k xs" for xs
      proof -
        obtain j js' where j: "xs = j # js'" "lo \<le> j" "combo_ok (Suc j) n k' js'"
          using split [OF a] by auto
        have "j \<le> i"
          using combo_ok_room [OF j(3)] False a j(1) k by (auto simp: combo_ok_Cons)
        then show ?thesis using j top by (cases "j = i") auto
      qed
      then show ?thesis using None False len by simp
    qed
  qed
qed

lemma combos_from_all:
  "combo_ok 0 n k idx \<Longrightarrow> set (combos_from n idx) = {js. combo_ok 0 n k js \<and> idx \<le> js}"
proof (induction n idx rule: combos_from.induct)
  case (1 n idx)
  show ?case
  proof (cases "next_combo n idx")
    case None
    with next_combo_succ [OF 1(2)] have "\<And>js. combo_ok 0 n k js \<Longrightarrow> js \<le> idx" by auto
    with None 1(2) show ?thesis by (subst combos_from.simps) (auto intro: antisym)
  next
    case (Some idx')
    with next_combo_succ [OF 1(2)] have n: "combo_ok 0 n k idx'" "idx < idx'"
      "\<And>js. combo_ok 0 n k js \<Longrightarrow> idx < js \<Longrightarrow> idx' \<le> js" by auto
    have eq: "combos_from n idx = idx # combos_from n idx'"
      using Some by (subst combos_from.simps) simp
    have "set (combos_from n idx') = {js. combo_ok 0 n k js \<and> idx' \<le> js}"
      using 1(1) [OF Some n(1)] .
    moreover have "idx \<le> js \<longleftrightarrow> js = idx \<or> idx' \<le> js" if "combo_ok 0 n k js" for js
      using that n by (auto simp: order.order_iff_strict dest: less_trans)
    ultimately show ?thesis using eq 1(2) by auto
  qed
qed

text \<open>Started at \<open>[0, ..., k - 1]\<close> the loop visits exactly the \<open>k\<close>-element combinations.\<close>

lemma combos_from_start:
  assumes "k \<le> n"
  shows "set (combos_from n [0 ..< k]) = {is. length is = k \<and> sorted_wrt (<) is \<and> set is \<subseteq> {..<n}}"
proof -
  have "combo_ok 0 n k [0 ..< k]" using assms combo_ok_upt [of 0 k n] by simp
  moreover have "[0 ..< k] \<le> js" if "combo_ok 0 n k js" for js
    using combo_ok_least [OF that] by simp
  ultimately have "set (combos_from n [0 ..< k]) = {js. combo_ok 0 n k js}"
    using combos_from_all by blast
  then show ?thesis by (auto simp: combo_ok_def)
qed

section \<open>Moves inside a class\<close>

text \<open>
  \<open>placed\<close>: the precondition of both passes (distinct guids, everyone on side 1 or 2).
  \<open>same_class_moves\<close>: their contract. Only swappable players move, everyone stays on a
  side, and each class keeps its head count on TF1 (hence on TF2).
\<close>

definition placed :: "Player list \<Rightarrow> assignment \<Rightarrow> bool" where
  "placed players asg \<longleftrightarrow> distinct (map pl_guid players) \<and>
     (\<forall>p \<in> set players. map_of asg (pl_guid p) = Some 1 \<or> map_of asg (pl_guid p) = Some 2)"

definition class_heads :: "Player list \<Rightarrow> assignment \<Rightarrow> u32 \<Rightarrow> int \<Rightarrow> nat" where
  "class_heads players asg cls tf =
     length (filter (\<lambda>p. pl_profile_id p = cls \<and> map_of asg (pl_guid p) = Some tf) players)"

definition same_class_moves :: "Player list \<Rightarrow> assignment \<Rightarrow> assignment \<Rightarrow> bool" where
  "same_class_moves players asg asg' \<longleftrightarrow>
     (\<forall>g. g \<notin> pl_guid ` {p \<in> set players. pl_swappable p} \<longrightarrow> map_of asg' g = map_of asg g) \<and>
     (placed players asg \<longrightarrow> placed players asg') \<and>
     (\<forall>cls. class_heads players asg' cls 1 = class_heads players asg cls 1)"

lemma same_class_moves_refl [simp]: "same_class_moves players asg asg"
  by (simp add: same_class_moves_def)

lemma same_class_moves_trans [trans]:
  "same_class_moves players a b \<Longrightarrow> same_class_moves players b c \<Longrightarrow> same_class_moves players a c"
  by (simp add: same_class_moves_def)

lemma class_heads_both:
  "placed players asg \<Longrightarrow>
   class_heads players asg cls 1 + class_heads players asg cls 2
     = length (filter (\<lambda>p. pl_profile_id p = cls) players)"
proof (induction players)
  case (Cons p ps)
  then have "placed ps asg" by (simp add: placed_def)
  with Cons show ?case by (auto simp: class_heads_def placed_def)
qed (simp add: class_heads_def)

lemma same_class_moves_heads2:
  assumes "placed players asg" "same_class_moves players asg asg'"
  shows "class_heads players asg' cls 2 = class_heads players asg cls 2"
proof -
  have "placed players asg'" using assms by (simp add: same_class_moves_def)
  from class_heads_both [OF this, of cls] class_heads_both [OF assms(1), of cls] assms(2)
  show ?thesis by (simp add: same_class_moves_def)
qed

lemma class_heads_card:
  assumes "distinct (map pl_guid players)"
  shows "class_heads players asg cls tf
    = card {p \<in> set players. pl_profile_id p = cls \<and> map_of asg (pl_guid p) = Some tf}"
proof -
  have "distinct players" using assms by (simp add: distinct_map)
  then show ?thesis unfolding class_heads_def by (simp add: distinct_length_filter Int_def conj_commute)
qed

lemma swap_pair_moves:
  assumes "placed players asg" "a \<in> set players" "b \<in> set players"
    and "pl_swappable a" "pl_swappable b" "pl_profile_id b = pl_profile_id a"
    and "map_of asg (pl_guid a) = Some 1" "map_of asg (pl_guid b) = Some 2"
  shows "same_class_moves players asg (umap_put (pl_guid b) 1 (umap_put (pl_guid a) 2 asg))"
proof -
  let ?asg = "umap_put (pl_guid b) 1 (umap_put (pl_guid a) 2 asg)"
  have d: "distinct (map pl_guid players)" using assms(1) by (simp add: placed_def)
  have inj: "p = q" if "p \<in> set players" "q \<in> set players" "pl_guid p = pl_guid q" for p q
    using d that by (auto simp: distinct_map inj_on_def)
  have "class_heads players ?asg cls 1 = class_heads players asg cls 1" for cls
  proof -
    let ?S = "\<lambda>m. {p \<in> set players. pl_profile_id p = cls \<and> map_of m (pl_guid p) = Some 1}"
    show ?thesis
    proof (cases "cls = pl_profile_id a")
      case True
      have "?S ?asg = insert b (?S asg - {a})"
        using assms True inj by (auto dest: inj)
      moreover have "a \<in> ?S asg" "b \<notin> ?S asg" using assms True by auto
      moreover have "finite (?S asg)" by simp
      ultimately have "card (?S ?asg) = card (?S asg)"
        by (metis (no_types, lifting) Diff_iff card.insert_remove card_Suc_Diff1 finite_Diff
            card_insert_disjoint)
      then show ?thesis by (simp add: class_heads_card [OF d])
    next
      case False
      have "?S ?asg = ?S asg" using assms False inj by (auto dest: inj)
      then show ?thesis by (simp add: class_heads_card [OF d])
    qed
  qed
  moreover have "placed players ?asg" using assms(1) by (simp add: placed_def)
  ultimately show ?thesis using assms by (auto simp: same_class_moves_def)
qed

section \<open>The greedy pass\<close>

text \<open>What a scan for the best swap has established about its running best.\<close>

definition swap_ok :: "Player list \<Rightarrow> assignment \<Rightarrow> rat \<Rightarrow> swap_best \<Rightarrow> bool" where
  "swap_ok players asg diff best \<longleftrightarrow>
     (case best of
        (best_abs, best_diff, None) \<Rightarrow> best_abs = \<bar>diff\<bar> \<and> best_diff = diff
      | (best_abs, best_diff, Some (a, b)) \<Rightarrow>
          best_abs = \<bar>best_diff\<bar> \<and> best_diff = diff - 2 * pl_mmr a + 2 * pl_mmr b \<and>
          best_abs < \<bar>diff\<bar> - 1 / 10^9 \<and>
          a \<in> set players \<and> b \<in> set players \<and> pl_swappable a \<and> pl_swappable b \<and>
          pl_profile_id b = pl_profile_id a \<and>
          map_of asg (pl_guid a) = Some 1 \<and> map_of asg (pl_guid b) = Some 2)"

lemma swap_scan_b_ok:
  assumes "swap_ok players asg diff best" "a \<in> set players" "b \<in> set players"
    and "pl_swappable a" "map_of asg (pl_guid a) = Some 1"
  shows "swap_ok players asg diff (swap_scan_b asg diff a b best)"
proof -
  obtain ba bd pr where best: "best = (ba, bd, pr)" by (cases best) auto
  have "ba \<le> \<bar>diff\<bar>" using assms(1) best
    by (cases pr) (auto simp: swap_ok_def split: prod.splits)
  then show ?thesis using assms best
    by (auto simp: swap_scan_b_def swap_ok_def Let_def)
qed

lemma best_swap_ok: "swap_ok players asg diff (best_swap players asg diff)"
  unfolding best_swap_def
proof (rule fold_inv)
  show "swap_ok players asg diff (\<bar>diff\<bar>, diff, None)" by (simp add: swap_ok_def)
next
  fix a best assume a: "a \<in> set players" and best: "swap_ok players asg diff best"
  show "swap_ok players asg diff (swap_scan_a players asg diff a best)"
  proof (cases "pl_swappable a \<and> map_of asg (pl_guid a) = Some 1")
    case True
    have "swap_ok players asg diff (fold (swap_scan_b asg diff a) players best)"
      by (rule fold_inv [where P = "swap_ok players asg diff"])
        (use True a best in \<open>simp_all add: swap_scan_b_ok\<close>)
    with True show ?thesis by (simp add: swap_scan_a_def)
  next
    case False
    with best show ?thesis by (simp add: swap_scan_a_def)
  qed
qed

definition contrib :: "assignment \<Rightarrow> Player \<Rightarrow> rat" where
  "contrib asg p = (case map_of asg (pl_guid p) of None \<Rightarrow> 0
     | Some tf \<Rightarrow> if tf = 1 then pl_mmr p else - pl_mmr p)"

lemma mmr_diff_sum:
  assumes "distinct (map pl_guid players)"
  shows "mmr_diff players asg d = d + (\<Sum>p \<in> set players. contrib asg p)"
proof -
  have "mmr_diff players asg d = d + sum_list (map (contrib asg) players)"
    unfolding mmr_diff_def
    by (induction players arbitrary: d) (auto simp: contrib_def split: option.splits)
  moreover have "distinct players" using assms by (simp add: distinct_map)
  ultimately show ?thesis by (simp add: sum_list_distinct_conv_sum_set)
qed

lemma mmr_diff_swap:
  assumes "placed players asg" "a \<in> set players" "b \<in> set players"
    and "map_of asg (pl_guid a) = Some 1" "map_of asg (pl_guid b) = Some 2"
  shows "mmr_diff players (umap_put (pl_guid b) 1 (umap_put (pl_guid a) 2 asg)) d
       = mmr_diff players asg d - 2 * pl_mmr a + 2 * pl_mmr b"
proof -
  let ?asg = "umap_put (pl_guid b) 1 (umap_put (pl_guid a) 2 asg)"
  have d: "distinct (map pl_guid players)" using assms(1) by (simp add: placed_def)
  have inj: "p = q" if "p \<in> set players" "q \<in> set players" "pl_guid p = pl_guid q" for p q
    using d that by (auto simp: distinct_map inj_on_def)
  have ab: "a \<noteq> b" using assms by auto
  let ?R = "set players - {a} - {b}"
  have split: "(\<Sum>p \<in> set players. f p) = f a + (f b + sum f ?R)" for f :: "Player \<Rightarrow> rat"
    using assms(2,3) ab by (simp add: sum.remove)
  have "sum (contrib ?asg) ?R = sum (contrib asg) ?R"
    by (rule sum.cong) (use inj assms in \<open>auto simp: contrib_def dest: inj\<close>)
  moreover have "contrib ?asg a = - pl_mmr a" "contrib ?asg b = pl_mmr b"
    "contrib asg a = pl_mmr a" "contrib asg b = - pl_mmr b"
    using assms ab inj by (auto simp: contrib_def)
  ultimately show ?thesis by (simp add: mmr_diff_sum [OF d] split)
qed

lemma swap_rounds_props:
  "placed players asg \<Longrightarrow> diff = mmr_diff players asg d0 \<Longrightarrow>
   swap_rounds left players asg diff swaps = (n, asg', diff') \<Longrightarrow>
   same_class_moves players asg asg' \<and> diff' = mmr_diff players asg' d0 \<and>
   swaps \<le> n \<and> n \<le> swaps + int left \<and>
   \<bar>diff'\<bar> + of_int (n - swaps) / 10^9 \<le> \<bar>diff\<bar> \<and>
   (n < swaps + int left \<longrightarrow> snd (snd (best_swap players asg' diff')) = None)"
proof (induction left arbitrary: asg diff swaps)
  case 0
  then show ?case by auto
next
  case (Suc left)
  obtain ba bd pr where best: "best_swap players asg diff = (ba, bd, pr)"
    by (cases "best_swap players asg diff") auto
  have ok: "swap_ok players asg diff (ba, bd, pr)" using best_swap_ok best by metis
  show ?case
  proof (cases pr)
    case None
    with best Suc.prems(3) have "n = swaps" "asg' = asg" "diff' = diff" by auto
    with best None Suc.prems show ?thesis by simp
  next
    case (Some ab)
    obtain a b where ab: "ab = (a, b)" by force
    let ?asg = "umap_put (pl_guid b) 1 (umap_put (pl_guid a) 2 asg)"
    note o = ok [unfolded swap_ok_def Some ab, simplified]
    have mv: "same_class_moves players asg ?asg"
      using o Suc.prems(1) by (intro swap_pair_moves) auto
    have pl: "placed players ?asg" using mv Suc.prems(1) by (simp add: same_class_moves_def)
    have dd: "bd = mmr_diff players ?asg d0"
      using mmr_diff_swap [OF Suc.prems(1), of a b d0] o Suc.prems(2) by simp
    have rec: "swap_rounds left players ?asg bd (swaps + 1) = (n, asg', diff')"
      using Suc.prems(3) best Some ab by simp
    note IH = Suc.IH [OF pl dd rec]
    have "ba = \<bar>bd\<bar>" and "ba < \<bar>diff\<bar> - 1 / 1000000000" using o by blast+
    then have "\<bar>bd\<bar> < \<bar>diff\<bar> - 1 / 10^9" by simp
    moreover have "(of_int (n - swaps) :: rat) / 10^9 = of_int (n - (swaps + 1)) / 10^9 + 1 / 10^9"
      by (simp add: diff_divide_distrib add_divide_distrib)
    moreover have "\<bar>diff'\<bar> + of_int (n - (swaps + 1)) / 10^9 \<le> \<bar>bd\<bar>" using IH by blast
    ultimately have "\<bar>diff'\<bar> + of_int (n - swaps) / 10^9 \<le> \<bar>diff\<bar>" by linarith
    then show ?thesis using IH same_class_moves_trans [OF mv] by auto
  qed
qed

text \<open>The pass as the code calls it, from the true rating gap.\<close>

lemma BalanceByMmr_props:
  assumes "placed players asg" "BalanceByMmr players asg d0 = (n, asg')"
  shows "same_class_moves players asg asg'"
    and "0 \<le> n" "n \<le> int (length players)"
    and "\<bar>mmr_diff players asg' d0\<bar> + of_int n / 10^9 \<le> \<bar>mmr_diff players asg d0\<bar>"
    and "n < int (length players) \<Longrightarrow>
         snd (snd (best_swap players asg' (mmr_diff players asg' d0))) = None"
proof -
  obtain diff' where "swap_rounds (length players) players asg (mmr_diff players asg d0) 0 = (n, asg', diff')"
    using assms(2) by (auto simp: BalanceByMmr_def split: prod.splits)
  from swap_rounds_props [OF assms(1) refl this]
  show "same_class_moves players asg asg'" "0 \<le> n" "n \<le> int (length players)"
    "\<bar>mmr_diff players asg' d0\<bar> + of_int n / 10^9 \<le> \<bar>mmr_diff players asg d0\<bar>"
    "n < int (length players) \<Longrightarrow>
       snd (snd (best_swap players asg' (mmr_diff players asg' d0))) = None"
    by auto
qed

text \<open>A scan that ends without a pair has rejected every candidate.\<close>

lemma fold_stays_None:
  assumes "\<And>x s. N (f x s) \<Longrightarrow> f x s = s" "N (fold f xs s)"
  shows "fold f xs s = s \<and> (\<forall>x \<in> set xs. f x s = s)"
  using assms(2)
proof (induction xs arbitrary: s)
  case (Cons x xs)
  from Cons.IH [of "f x s"] Cons.prems have "fold f xs (f x s) = f x s" by simp
  with Cons.prems have "N (f x s)" by simp
  then have "f x s = s" by (rule assms(1))
  with Cons show ?case by simp
qed simp

lemma swap_scan_b_None: "snd (snd (swap_scan_b asg diff a b best)) = None \<Longrightarrow> swap_scan_b asg diff a b best = best"
  by (auto simp: swap_scan_b_def Let_def split: prod.splits if_splits)

lemma swap_scan_a_None:
  "snd (snd (swap_scan_a players asg diff a best)) = None \<Longrightarrow> swap_scan_a players asg diff a best = best"
  using fold_stays_None [of "\<lambda>s. snd (snd s) = None" "swap_scan_b asg diff a" players best]
  by (auto simp: swap_scan_a_def swap_scan_b_None)

lemma best_swap_None:
  assumes "snd (snd (best_swap players asg diff)) = None"
    and "a \<in> set players" "b \<in> set players" "pl_swappable a" "pl_swappable b"
    and "pl_profile_id b = pl_profile_id a"
    and "map_of asg (pl_guid a) = Some 1" "map_of asg (pl_guid b) = Some 2"
  shows "\<bar>diff - 2 * pl_mmr a + 2 * pl_mmr b\<bar> \<ge> \<bar>diff\<bar> - 1 / 10^9"
proof -
  let ?init = "(\<bar>diff\<bar>, diff, None)"
  have "swap_scan_a players asg diff a ?init = ?init"
    using fold_stays_None [of "\<lambda>s. snd (snd s) = None" "swap_scan_a players asg diff" players ?init]
      swap_scan_a_None assms(1,2) unfolding best_swap_def by blast
  then have "fold (swap_scan_b asg diff a) players ?init = ?init"
    using assms by (simp add: swap_scan_a_def)
  then have "swap_scan_b asg diff a b ?init = ?init"
    using fold_stays_None [of "\<lambda>s. snd (snd s) = None" "swap_scan_b asg diff a" players ?init]
      swap_scan_b_None assms(3) by (metis snd_conv)
  then show ?thesis using assms by (auto simp: swap_scan_b_def Let_def split: if_splits)
qed

section \<open>The optimal pass\<close>

lemma class_pool_eq:
  "class_pool players asg =
     (int (length (filter (\<lambda>p. \<not> pl_swappable p \<and> map_of asg (pl_guid p) = Some 1) players)),
      sum_list (map (\<lambda>p. ToMilli (pl_mmr p))
        (filter (\<lambda>p. \<not> pl_swappable p \<and> map_of asg (pl_guid p) = Some 1) players)),
      map (\<lambda>p. (pl_guid p, ToMilli (pl_mmr p)))
        (filter (\<lambda>p. pl_swappable p \<and> map_of asg (pl_guid p) \<noteq> None) players))"
proof -
  have "fold (class_pool_step asg) players (l, s, pool) =
     (l + int (length (filter (\<lambda>p. \<not> pl_swappable p \<and> map_of asg (pl_guid p) = Some 1) players)),
      s + sum_list (map (\<lambda>p. ToMilli (pl_mmr p))
        (filter (\<lambda>p. \<not> pl_swappable p \<and> map_of asg (pl_guid p) = Some 1) players)),
      pool @ map (\<lambda>p. (pl_guid p, ToMilli (pl_mmr p)))
        (filter (\<lambda>p. pl_swappable p \<and> map_of asg (pl_guid p) \<noteq> None) players))" for l s pool
    by (induction players arbitrary: l s pool) (auto simp: class_pool_step_def split: option.splits)
  then show ?thesis by (simp add: class_pool_def)
qed

lemma find_apply_combo:
  assumes "set idx \<subseteq> {..<length pool}"
  shows "map_of (apply_combo pool idx asg) g =
    (if \<exists>i < length pool. i \<notin> set idx \<and> fst (pool ! i) = g then Some 2
     else if \<exists>i \<in> set idx. fst (pool ! i) = g then Some 1 else map_of asg g)"
  unfolding apply_combo_def
  by (auto simp: image_iff ud.find_fold_put_const [where key = "\<lambda>i. fst (pool ! i)"])

lemma find_apply_combo_cases:
  "set idx \<subseteq> {..<length pool} \<Longrightarrow>
   map_of (apply_combo pool idx asg) g \<in> {Some 1, Some 2, map_of asg g}"
  by (simp only: find_apply_combo split: if_split) simp

text \<open>
  The head counts of one class after \<open>AssignClassCombination\<close>: with distinct guids the
  chosen indices are exactly the pool members on TF1 afterwards.
\<close>

lemma apply_combo_heads:
  assumes "distinct (map fst pool)" "distinct idx" "set idx \<subseteq> {..<length pool}"
  shows "length (filter (\<lambda>e. map_of (apply_combo pool idx asg) (fst e) = Some 1) pool) = length idx"
proof -
  have on1: "map_of (apply_combo pool idx asg) (fst (pool ! i)) = (if i \<in> set idx then Some 1 else Some 2)"
    if "i < length pool" for i
  proof -
    have uniq: "j = i" if "j < length pool" "fst (pool ! j) = fst (pool ! i)" for j
      using assms(1) that \<open>i < length pool\<close>
      by (metis (no_types, lifting) distinct_conv_nth length_map nth_map)
    show ?thesis
      using assms(3) that uniq by (auto simp: find_apply_combo [OF assms(3)])
  qed
  have "length (filter (\<lambda>e. map_of (apply_combo pool idx asg) (fst e) = Some 1) pool)
      = card {i. i < length pool \<and> map_of (apply_combo pool idx asg) (fst (pool ! i)) = Some 1}"
    by (rule length_filter_conv_card)
  also have "{i. i < length pool \<and> map_of (apply_combo pool idx asg) (fst (pool ! i)) = Some 1} = set idx"
    using on1 assms(3) by (auto split: if_splits)
  finally show ?thesis using assms(2) by (simp add: distinct_card)
qed

definition heads1 :: "Player list \<Rightarrow> assignment \<Rightarrow> nat" where
  "heads1 ps asg = length (filter (\<lambda>p. map_of asg (pl_guid p) = Some 1) ps)"

definition list_moves :: "Player list \<Rightarrow> assignment \<Rightarrow> assignment \<Rightarrow> bool" where
  "list_moves ps asg asg' \<longleftrightarrow>
     (\<forall>g. g \<notin> pl_guid ` {p \<in> set ps. pl_swappable p} \<longrightarrow> map_of asg' g = map_of asg g) \<and>
     placed ps asg' \<and> heads1 ps asg' = heads1 ps asg"

lemma length_filter_split:
  "length (filter P xs) = length (filter (\<lambda>x. Q x \<and> P x) xs) + length (filter (\<lambda>x. \<not> Q x \<and> P x) xs)"
  by (induction xs) auto

lemma heads1_split:
  "heads1 ps asg = length (filter (\<lambda>p. pl_swappable p \<and> map_of asg (pl_guid p) = Some 1) ps)
    + length (filter (\<lambda>p. \<not> pl_swappable p \<and> map_of asg (pl_guid p) = Some 1) ps)"
  unfolding heads1_def by (rule length_filter_split)

lemma apply_combo_moves:
  assumes pl: "placed ps asg"
    and pool: "pool = map (\<lambda>p. (pl_guid p, ToMilli (pl_mmr p))) (filter pl_swappable ps)"
    and idx: "length idx = length (filter (\<lambda>p. pl_swappable p \<and> map_of asg (pl_guid p) = Some 1) ps)"
      "distinct idx" "set idx \<subseteq> {..<length pool}"
  shows "list_moves ps asg (apply_combo pool idx asg)"
proof -
  let ?asg = "apply_combo pool idx asg"
  have dps: "distinct (map pl_guid ps)" using pl by (simp add: placed_def)
  then have dpool: "distinct (map fst pool)"
    using pool by (simp add: comp_def distinct_map_filter)
  have nth: "fst (pool ! i) = pl_guid (filter pl_swappable ps ! i) \<and> filter pl_swappable ps ! i \<in> {p \<in> set ps. pl_swappable p}"
    if "i < length pool" for i
    using that pool nth_mem [of i "filter pl_swappable ps"] by simp
  have frame: "map_of ?asg g = map_of asg g" if g: "g \<notin> pl_guid ` {p \<in> set ps. pl_swappable p}" for g
  proof -
    have "fst (pool ! i) \<noteq> g" if "i < length pool" for i using nth [OF that] g by auto
    then show ?thesis using idx(3) by (auto simp: find_apply_combo [OF idx(3)])
  qed
  have placed': "placed ps ?asg"
    using pl find_apply_combo_cases [OF idx(3), of asg] unfolding placed_def
    by (metis (no_types, lifting) empty_iff insert_iff)
  have inj: "p = q" if "p \<in> set ps" "q \<in> set ps" "pl_guid p = pl_guid q" for p q
    using dps that by (auto simp: distinct_map inj_on_def)
  have "filter (\<lambda>p. \<not> pl_swappable p \<and> map_of ?asg (pl_guid p) = Some 1) ps
      = filter (\<lambda>p. \<not> pl_swappable p \<and> map_of asg (pl_guid p) = Some 1) ps"
  proof (rule filter_cong [OF refl])
    fix p assume p: "p \<in> set ps"
    have "map_of ?asg (pl_guid p) = map_of asg (pl_guid p)" if "\<not> pl_swappable p"
      using frame that inj [OF p] by blast
    then show "(\<not> pl_swappable p \<and> map_of ?asg (pl_guid p) = Some 1)
        = (\<not> pl_swappable p \<and> map_of asg (pl_guid p) = Some 1)" by auto
  qed
  moreover have "length (filter (\<lambda>p. pl_swappable p \<and> map_of ?asg (pl_guid p) = Some 1) ps)
      = length (filter (\<lambda>e. map_of ?asg (fst e) = Some 1) pool)"
    by (simp add: pool filter_map comp_def conj_commute)
  ultimately have "heads1 ps ?asg = heads1 ps asg"
    using apply_combo_heads [OF dpool idx(2,3), of asg] idx(1)
    by (simp add: heads1_split [of ps ?asg] heads1_split [of ps asg])
  with frame placed' show ?thesis by (simp add: list_moves_def)
qed

lemma AssignClassCombination_moves:
  assumes pl: "placed ps asg" and "AssignClassCombination ps (int (heads1 ps asg)) t asg = (b, asg')"
  shows "list_moves ps asg asg'"
proof -
  have stay: "list_moves ps asg asg" using pl by (simp add: list_moves_def)
  let ?pool = "map (\<lambda>p. (pl_guid p, ToMilli (pl_mmr p))) (filter pl_swappable ps)"
  let ?k = "length (filter (\<lambda>p. pl_swappable p \<and> map_of asg (pl_guid p) = Some 1) ps)"
  have pool: "filter (\<lambda>p. pl_swappable p \<and> map_of asg (pl_guid p) \<noteq> None) ps = filter pl_swappable ps"
    by (rule filter_cong) (use pl in \<open>auto simp: placed_def\<close>)
  have k: "?k \<le> length ?pool"
    by (simp add: length_filter_conv_card card_mono Collect_mono)
  obtain l sm where cp: "class_pool ps asg = (l, sm, ?pool)" "int (heads1 ps asg) - l = int ?k"
    unfolding class_pool_eq pool by (simp add: heads1_split)
  show ?thesis
  proof (cases "asg' = asg")
    case True
    then show ?thesis using stay by simp
  next
    case False
    then obtain idx where f: "idx \<in> set (combos_from (length ?pool) [0 ..< ?k])"
      and a: "asg' = apply_combo ?pool idx asg"
      using assms(2) unfolding AssignClassCombination_def cp(1) prod.case Let_def cp(2)
      by (auto simp del: length_map split: if_splits option.splits dest!: find_Some_in_set)
    then have "length idx = ?k" "distinct idx" "set idx \<subseteq> {..<length ?pool}"
      using combos_from_start [OF k] by (auto simp: strict_sorted_iff)
    then show ?thesis using apply_combo_moves [OF pl refl] a by blast
  qed
qed

definition entry_players :: "(Player list \<times> int \<times> int) list \<Rightarrow> Player set" where
  "entry_players es = (\<Union>e \<in> set es. set (fst e))"

lemma assign_classes_moves:
  assumes "assign_classes es asg = (b, asg')"
    and "\<And>e. e \<in> set es \<Longrightarrow> placed (fst e) asg \<and> fst (snd e) = int (heads1 (fst e) asg)"
    and "distinct (map pl_guid (concat (map fst es)))"
  shows "(\<forall>g. g \<notin> pl_guid ` {p \<in> entry_players es. pl_swappable p} \<longrightarrow> map_of asg' g = map_of asg g)
       \<and> (\<forall>e \<in> set es. placed (fst e) asg' \<and> heads1 (fst e) asg' = heads1 (fst e) asg)"
  using assms
proof (induction es arbitrary: asg)
  case Nil
  then show ?case by simp
next
  case (Cons e es)
  obtain ps n t where e: "e = (ps, n, t)" by (cases e) auto
  obtain c asg1 where a: "AssignClassCombination ps n t asg = (c, asg1)" by force
  have pn: "placed ps asg" "n = int (heads1 ps asg)" using Cons.prems(2) [of e] e by auto
  have m: "list_moves ps asg asg1" using AssignClassCombination_moves [OF pn(1)] a pn(2) by simp
  have dis: "pl_guid p \<noteq> pl_guid q" if "p \<in> set ps" "f \<in> set es" "q \<in> set (fst f)" for p f q
  proof -
    have "q \<in> set (concat (map fst es))" using that by auto
    moreover have "pl_guid ` set ps \<inter> pl_guid ` set (concat (map fst es)) = {}"
      using Cons.prems(3) e by simp
    ultimately show ?thesis using that(1) by blast
  qed
  have same: "map_of asg1 (pl_guid q) = map_of asg (pl_guid q)" if "f \<in> set es" "q \<in> set (fst f)" for f q
  proof -
    have "pl_guid q \<notin> pl_guid ` {p \<in> set ps. pl_swappable p}" using dis [OF _ that] by force
    then show ?thesis using m by (simp add: list_moves_def)
  qed
  have keep: "placed qs m' = placed qs m \<and> heads1 qs m' = heads1 qs m"
    if "\<And>q. q \<in> set qs \<Longrightarrow> map_of m' (pl_guid q) = map_of m (pl_guid q)" for qs m' m
    using that filter_cong [OF refl, of qs "\<lambda>p. map_of m' (pl_guid p) = Some 1"
        "\<lambda>p. map_of m (pl_guid p) = Some 1"]
    by (simp add: placed_def heads1_def)
  have now: "placed (fst f) asg1 \<and> heads1 (fst f) asg1 = heads1 (fst f) asg" if "f \<in> set es" for f
    using keep [of "fst f" asg1 asg] same [OF that] Cons.prems(2) [of f] that by simp
  have ep: "entry_players (e # es) = set ps \<union> entry_players es" using e by (simp add: entry_players_def)
  show ?case
  proof (cases c)
    case False
    with Cons.prems(1) a e have "asg' = asg1" by simp
    then show ?thesis using now m e ep by (auto simp: list_moves_def)
  next
    case True
    have rest: "assign_classes es asg1 = (b, asg')" using Cons.prems(1) a e True by simp
    have pre: "placed (fst f) asg1 \<and> fst (snd f) = int (heads1 (fst f) asg1)" if "f \<in> set es" for f
      using now [OF that] Cons.prems(2) [of f] that by simp
    have ih: "(\<forall>g. g \<notin> pl_guid ` {p \<in> entry_players es. pl_swappable p} \<longrightarrow> map_of asg' g = map_of asg1 g)
       \<and> (\<forall>f \<in> set es. placed (fst f) asg' \<and> heads1 (fst f) asg' = heads1 (fst f) asg1)"
      using Cons.IH [OF rest pre] Cons.prems(3) by simp
    have "map_of asg' (pl_guid q) = map_of asg1 (pl_guid q)" if "q \<in> set ps" for q
    proof -
      have "pl_guid q \<notin> pl_guid ` {p \<in> entry_players es. pl_swappable p}"
        using dis [OF that] by (force simp: entry_players_def)
      then show ?thesis using ih by blast
    qed
    then have "placed ps asg' \<and> heads1 ps asg' = heads1 ps asg"
      using m keep [of ps asg' asg1] by (simp add: list_moves_def)
    moreover have "map_of asg' g = map_of asg g"
      if "g \<notin> pl_guid ` {p \<in> entry_players (e # es). pl_swappable p}" for g
    proof -
      have "g \<notin> pl_guid ` {p \<in> set ps. pl_swappable p}"
        "g \<notin> pl_guid ` {p \<in> entry_players es. pl_swappable p}" using that ep by auto
      then show ?thesis using ih m by (simp add: list_moves_def)
    qed
    ultimately show ?thesis using ih now e by auto
  qed
qed

section \<open>The batch grouped by class\<close>

lemma placed_assigned: "placed players asg \<Longrightarrow> p \<in> set players \<Longrightarrow> map_of asg (pl_guid p) \<noteq> None"
  by (auto simp: placed_def)

lemma group_by_class_get:
  assumes "\<forall>p \<in> set players. map_of asg (pl_guid p) \<noteq> None"
  shows "umap_get [] (group_by_class players asg) cls = filter (\<lambda>p. pl_profile_id p = cls) players"
proof -
  have "umap_get [] (fold (\<lambda>p m. case map_of asg (pl_guid p) of None \<Rightarrow> m
         | Some _ \<Rightarrow> umap_mod [] (\<lambda>ps. ps @ [p]) (pl_profile_id p) m) players m) cls
      = umap_get [] m cls @ filter (\<lambda>p. pl_profile_id p = cls) players" for m
    using assms by (induction players arbitrary: m) auto
  then show ?thesis by (simp add: group_by_class_def)
qed

lemma group_by_class_keys:
  assumes "\<forall>p \<in> set players. map_of asg (pl_guid p) \<noteq> None"
  shows "fst ` set (group_by_class players asg) = pl_profile_id ` set players
    \<and> distinct (map fst (group_by_class players asg))"
proof -
  have "fst ` set (fold (\<lambda>p m. case map_of asg (pl_guid p) of None \<Rightarrow> m
         | Some _ \<Rightarrow> umap_mod [] (\<lambda>ps. ps @ [p]) (pl_profile_id p) m) players m)
      = fst ` set m \<union> pl_profile_id ` set players" for m
    using assms
  proof (induction players arbitrary: m)
    case (Cons p ps)
    then obtain y where "map_of asg (pl_guid p) = Some y" by auto
    with Cons show ?case by simp
  qed simp
  moreover have "umap_wf (fold (\<lambda>p m. case map_of asg (pl_guid p) of None \<Rightarrow> m
         | Some _ \<Rightarrow> umap_mod [] (\<lambda>ps. ps @ [p]) (pl_profile_id p) m) players [])"
    by (rule fold_inv) (auto split: option.splits)
  ultimately show ?thesis by (simp add: group_by_class_def umap_wf_def)
qed

lemma class_targets_get:
  "umap_get 0 (class_targets players asg) cls
    = int (length (filter (\<lambda>p. pl_profile_id p = cls \<and> map_of asg (pl_guid p) = Some 1) players))"
proof -
  have "umap_get 0 (fold (\<lambda>p m. case map_of asg (pl_guid p) of None \<Rightarrow> m
         | Some tf \<Rightarrow> if tf = 1 then umap_mod 0 (\<lambda>n. n + 1) (pl_profile_id p) m else m) players m) cls
      = umap_get 0 m cls
        + int (length (filter (\<lambda>p. pl_profile_id p = cls \<and> map_of asg (pl_guid p) = Some 1) players))" for m
    by (induction players arbitrary: m) (auto split: option.splits)
  then show ?thesis by (simp add: class_targets_def)
qed

lemma class_targets_heads1:
  "umap_get 0 (class_targets players asg) cls
    = int (heads1 (filter (\<lambda>p. pl_profile_id p = cls) players) asg)"
  by (simp add: class_targets_get heads1_def conj_commute)

lemma class_heads_heads1:
  "class_heads players asg cls 1 = heads1 (filter (\<lambda>p. pl_profile_id p = cls) players) asg"
  by (simp add: class_heads_def heads1_def conj_commute)

lemma distinct_guids_by_class:
  assumes "distinct (map pl_guid players)" "distinct classes"
  shows "distinct (map pl_guid (concat (map (\<lambda>cls. filter (\<lambda>p. pl_profile_id p = cls) players) classes)))"
proof -
  have "distinct players" and inj: "inj_on pl_guid (set players)" using assms(1) by (auto simp: distinct_map)
  then have "distinct (concat (map (\<lambda>cls. filter (\<lambda>p. pl_profile_id p = cls) players) classes))"
    using assms(2) by (induction classes) auto
  moreover have "inj_on pl_guid (set (concat (map (\<lambda>cls. filter (\<lambda>p. pl_profile_id p = cls) players) classes)))"
    by (rule inj_on_subset [OF inj]) auto
  ultimately show ?thesis by (simp add: distinct_map del: set_concat)
qed

text \<open>
  The whole pass: whatever the dynamic program decides, and on every early return, the
  assignment it leaves differs from the original by same-class moves only.
\<close>

lemma assign_by_class_moves:
  assumes pl: "placed players asg" and "distinct classes" "set classes \<subseteq> pl_profile_id ` set players"
    and "assign_classes (map (\<lambda>(cls, pick). (umap_get [] (group_by_class players asg) cls,
           umap_get 0 (class_targets players asg) cls, pick)) (zip classes picks)) asg = (b, asg')"
  shows "same_class_moves players asg asg'"
proof -
  let ?cl = "\<lambda>cls. filter (\<lambda>p. pl_profile_id p = cls) players"
  define cs where "cs = map fst (zip classes picks)"
  have cs: "distinct cs" unfolding cs_def by (metis assms(2) distinct_take map_fst_zip_take)
  define es where "es = map (\<lambda>(cls, pick). (?cl cls, int (heads1 (?cl cls) asg), pick)) (zip classes picks)"
  have all: "\<forall>p \<in> set players. map_of asg (pl_guid p) \<noteq> None" using pl placed_assigned by blast
  have run: "assign_classes es asg = (b, asg')"
    using assms(4) unfolding es_def group_by_class_get [OF all] class_targets_heads1 .
  have fsts: "map fst es = map ?cl cs" by (simp add: es_def cs_def split_def)
  have sub: "placed (?cl cls) asg" for cls
    using pl by (auto simp: placed_def distinct_map_filter)
  have dist: "distinct (map pl_guid (concat (map fst es)))"
    unfolding fsts by (rule distinct_guids_by_class) (use pl cs in \<open>auto simp: placed_def\<close>)
  have pre: "placed (fst e) asg \<and> fst (snd e) = int (heads1 (fst e) asg)" if "e \<in> set es" for e
    using that sub by (auto simp: es_def)
  note m = assign_classes_moves [OF run pre dist]
  have ep: "entry_players es = {p \<in> set players. pl_profile_id p \<in> set cs}"
  proof -
    have "entry_players es = (\<Union>ps \<in> set (map fst es). set ps)" by (simp add: entry_players_def)
    then show ?thesis unfolding fsts by auto
  qed
  have frame: "map_of asg' g = map_of asg g" if "g \<notin> pl_guid ` {p \<in> entry_players es. pl_swappable p}" for g
    using m that by blast
  have inj: "p = q" if "p \<in> set players" "q \<in> set players" "pl_guid p = pl_guid q" for p q
    using pl that by (auto simp: placed_def distinct_map inj_on_def)
  have untouched: "map_of asg' (pl_guid p) = map_of asg (pl_guid p)"
    if "p \<in> set players" "pl_profile_id p \<notin> set cs" for p
    using frame [of "pl_guid p"] that inj ep by blast
  have touched: "placed (?cl cls) asg' \<and> heads1 (?cl cls) asg' = heads1 (?cl cls) asg" if "cls \<in> set cs" for cls
  proof -
    have "?cl cls \<in> set (map fst es)" using that fsts by simp
    then show ?thesis using m by auto
  qed
  have "heads1 (?cl cls) asg' = heads1 (?cl cls) asg" for cls
  proof (cases "cls \<in> set cs")
    case True
    then show ?thesis using touched by blast
  next
    case False
    then show ?thesis unfolding heads1_def
      by (intro arg_cong [where f = length] filter_cong) (auto simp: untouched)
  qed
  moreover have "placed players asg'"
    using pl touched untouched unfolding placed_def by (metis (mono_tags, lifting) mem_Collect_eq set_filter)
  moreover have "map_of asg' g = map_of asg g" if "g \<notin> pl_guid ` {p \<in> set players. pl_swappable p}" for g
    using frame that ep by auto
  ultimately show ?thesis by (simp add: same_class_moves_def class_heads_heads1)
qed

lemma BalanceByMmrOptimal_moves:
  assumes pl: "placed players asg"
  shows "same_class_moves players asg (snd (BalanceByMmrOptimal players asg seed))"
    and "fst (BalanceByMmrOptimal players asg seed) \<noteq> None"
proof -
  let ?classes = "sort (map fst (group_by_class players asg))"
  have all: "\<forall>p \<in> set players. map_of asg (pl_guid p) \<noteq> None" using pl placed_assigned by blast
  have cl: "distinct ?classes" "set ?classes \<subseteq> pl_profile_id ` set players"
    using group_by_class_keys [OF all] by auto
  have "same_class_moves players asg (snd (BalanceByMmrOptimal players asg seed)) \<and>
        fst (BalanceByMmrOptimal players asg seed) \<noteq> None"
  proof -
    have moved: "count_moved players asg m \<noteq> None" if "placed players m" for m
      using all placed_assigned [OF that] by (auto simp: count_moved_def list_all_iff)
    show ?thesis
      unfolding BalanceByMmrOptimal_def Let_def
      using assign_by_class_moves [OF pl cl] moved pl
      by (auto split: prod.splits option.splits bool.splits simp: same_class_moves_def)
  qed
  then show "same_class_moves players asg (snd (BalanceByMmrOptimal players asg seed))"
    "fst (BalanceByMmrOptimal players asg seed) \<noteq> None" by blast+
qed

text \<open>Same-class moves keep the head count of each side.\<close>

lemma same_class_moves_count:
  assumes "same_class_moves players asg asg'" "placed players asg" "tf = 1 \<or> tf = 2"
  shows "side_count asg' (map pl_guid players) tf = side_count asg (map pl_guid players) tf"
proof -
  have "side_count m (map pl_guid players) tf
      = (\<Sum>c \<in> pl_profile_id ` set players. class_heads players m c tf)" for m
    using length_filter_classes [of "pl_profile_id ` set players" pl_profile_id players
        "\<lambda>p. map_of m (pl_guid p) = Some tf"]
    by (simp add: side_count_def class_heads_def filter_map comp_def)
  moreover have "class_heads players asg' c tf = class_heads players asg c tf" for c
    using assms same_class_moves_heads2 [OF assms(2,1)] by (auto simp: same_class_moves_def)
  ultimately show ?thesis by simp
qed

section \<open>Properties\<close>

definition ex_players :: "Player list" where
  "ex_players =
     [\<lparr>pl_guid = ''a'', pl_profile_id = 680, pl_mmr = 1800, pl_swappable = True\<rparr>,
      \<lparr>pl_guid = ''b'', pl_profile_id = 567, pl_mmr = 1200, pl_swappable = False\<rparr>,
      \<lparr>pl_guid = ''c'', pl_profile_id = 680, pl_mmr = 1000, pl_swappable = True\<rparr>]"

definition ex_sides :: assignment where
  "ex_sides = [(''a'', 1), (''b'', 1), (''c'', 2)]"

lemma placed_ex: "placed ex_players ex_sides"
  by (simp add: placed_def ex_players_def ex_sides_def)


lemma ex_balance: "BalanceByMmr ex_players ex_sides 0 = (1, [(''a'', 2), (''b'', 1), (''c'', 1)])"
  by code_simp


text \<open>
  The optimal rating pass never throws and, whatever the search decides and on every
  early return, changes the assignment by same-class moves of swappable players only.
\<close>

theorem balance_optimal_same_class:
  assumes "placed players asg"
  shows "\<exists>n. BalanceByMmrOptimal players asg seed = (Some n, snd (BalanceByMmrOptimal players asg seed)) \<and>
    same_class_moves players asg (snd (BalanceByMmrOptimal players asg seed))"
  using BalanceByMmrOptimal_moves [OF assms, of seed] by (metis not_None_eq prod.collapse)

theorem balance_optimal_same_class_witness:
  "\<exists>n. BalanceByMmrOptimal ex_players ex_sides empty_ctx
      = (Some n, snd (BalanceByMmrOptimal ex_players ex_sides empty_ctx)) \<and>
    same_class_moves ex_players ex_sides (snd (BalanceByMmrOptimal ex_players ex_sides empty_ctx))"
  by (rule balance_optimal_same_class [OF placed_ex])

end
