(* ===== verification/SidePlacement.thy ===== *)
theory SidePlacement
  imports MmrSwap
begin

text \<open>
  Task-force placement of one pop, \<open>MatchmakingService/SidePlacement.hpp\<close> and
  \<open>SidePlacement.cpp\<close>: the imbalance cost of two sides, greedy placement of single
  slots and of whole parties, the choice between them by \<open>TeamSidePolicy\<close>, and the
  rating post-pass. The two seeds the code passes by reference are threaded through as
  a pair. The lemmas show that everybody gets a side, that a party the code places whole
  stays whole, and that head counts dominate the cost: a slot goes to the smaller side.
\<close>

section \<open>Data and cost\<close>

definition kProfileAssault :: u32 where "kProfileAssault = 680"
definition kProfileMedic :: u32 where "kProfileMedic = 567"
definition kProfileRecon :: u32 where "kProfileRecon = 681"
definition kProfileRobotics :: u32 where "kProfileRobotics = 679"

definition kSizeWeight :: rat where "kSizeWeight = 100000"
definition kClassWeight :: rat where "kClassWeight = 1000"
definition kHealWeight :: rat where "kHealWeight = 1"

record Slot =
  sl_guid :: guid
  sl_profile_id :: u32
  sl_mmr :: rat
  sl_solo :: bool

record Group =
  gr_party_id :: u64
  gr_members :: "Slot list"

definition HealValue :: "u32 \<Rightarrow> int \<Rightarrow> rat" where
  "HealValue profile_id task_force =
     (if profile_id = kProfileMedic then 1
      else if profile_id = kProfileRobotics then (if task_force = 2 then 85/100 else 75/100)
      else 0)"

definition ClassImbalance :: "TeamSeed \<Rightarrow> TeamSeed \<Rightarrow> int" where
  "ClassImbalance a b =
     sum_list (map (\<lambda>(cls, n). \<bar>n - umap_get 0 (sd_class_counts b) cls\<bar>) (sd_class_counts a))
   + sum_list (map (\<lambda>(cls, n). \<bar>n\<bar>)
       (filter (\<lambda>(cls, n). map_of (sd_class_counts a) cls = None) (sd_class_counts b)))"

definition Imbalance :: "TeamSeed \<Rightarrow> TeamSeed \<Rightarrow> rat" where
  "Imbalance a b =
     kClassWeight * of_int (ClassImbalance a b)
   + kHealWeight * \<bar>sd_heal_score a - sd_heal_score b\<bar>
   + kSizeWeight * of_int \<bar>sd_size a - sd_size b\<bar>"

definition AddSlot :: "int \<Rightarrow> Slot \<Rightarrow> TeamSeed \<Rightarrow> TeamSeed" where
  "AddSlot tf s seed = seed\<lparr>
     sd_size := sd_size seed + 1,
     sd_heal_score := sd_heal_score seed + HealValue (sl_profile_id s) tf,
     sd_class_counts := umap_mod 0 (\<lambda>n. n + 1) (sl_profile_id s) (sd_class_counts seed),
     sd_class_mmr_sum := umap_mod 0 (\<lambda>x. x + sl_mmr s) (sl_profile_id s) (sd_class_mmr_sum seed),
     sd_mmr_sum := sd_mmr_sum seed + sl_mmr s\<rparr>"

section \<open>Placement\<close>

type_synonym seeds = "TeamSeed \<times> TeamSeed"

definition PlaceSlotGreedy :: "Slot \<Rightarrow> seeds \<Rightarrow> int \<times> seeds" where
  "PlaceSlotGreedy s sds =
     (case sds of (seed1, seed2) \<Rightarrow>
        let try1 = AddSlot 1 s seed1; try2 = AddSlot 2 s seed2;
            cost1 = Imbalance try1 seed2; cost2 = Imbalance seed1 try2
        in if cost2 < cost1 then (2, seed1, try2)
           else if cost1 = cost2 \<and> sd_mmr_sum seed2 < sd_mmr_sum seed1 then (2, seed1, try2)
           else (1, try1, seed2))"

definition GroupsBySizeDesc :: "Group list \<Rightarrow> Group list" where
  \<comment> \<open>the code sorts the indices; the model sorts the groups they index\<close>
  "GroupsBySizeDesc groups =
     map (\<lambda>i. groups ! i)
       (stable_sort (\<lambda>a b. length (gr_members (groups ! a)) > length (gr_members (groups ! b)))
         [0 ..< length groups])"

definition place_group :: "Group \<Rightarrow> seeds \<times> assignment \<Rightarrow> seeds \<times> assignment" where
  "place_group g st =
     (case st of ((seed1, seed2), out) \<Rightarrow>
        if gr_members g = [] then st
        else
          let s1a = fold (AddSlot 1) (gr_members g) seed1;
              cost1 = Imbalance s1a seed2;
              s2b = fold (AddSlot 2) (gr_members g) seed2;
              cost2 = Imbalance seed1 s2b;
              side = (if cost2 < cost1 then 2
                      else if cost1 = cost2 \<and> sd_mmr_sum seed2 < sd_mmr_sum seed1 then 2 else 1)
          in (if side = 1 then (s1a, seed2) else (seed1, s2b),
              fold (\<lambda>m. umap_put (sl_guid m) side) (gr_members g) out))"

definition AssignWhole :: "Group list \<Rightarrow> seeds \<Rightarrow> seeds \<times> assignment" where
  "AssignWhole groups sds = fold place_group (GroupsBySizeDesc groups) (sds, [])"

definition heal_tier :: "u32 \<Rightarrow> rat" where
  "heal_tier profile_id = max (HealValue profile_id 1) (HealValue profile_id 2)"

definition place_slot :: "Slot \<Rightarrow> seeds \<times> assignment \<Rightarrow> seeds \<times> assignment" where
  "place_slot s st =
     (case st of (sds, out) \<Rightarrow>
        (case PlaceSlotGreedy s sds of (tf, sds') \<Rightarrow> (sds', umap_put (sl_guid s) tf out)))"

definition group_slots :: "Group list \<Rightarrow> Slot list" where
  "group_slots groups = concat (map gr_members groups)"

definition AssignIndividual :: "Group list \<Rightarrow> seeds \<Rightarrow> seeds \<times> assignment" where
  "AssignIndividual groups sds =
     fold place_slot
       (stable_sort (\<lambda>a b. heal_tier (sl_profile_id a) > heal_tier (sl_profile_id b))
         (group_slots groups)) (sds, [])"

definition swap_players :: "Group list \<Rightarrow> Player list" where
  "swap_players groups =
     concat (map (\<lambda>g. map (\<lambda>m. \<lparr>pl_guid = sl_guid m, pl_profile_id = sl_profile_id m,
         pl_mmr = sl_mmr m, pl_swappable = (sl_solo m \<and> length (gr_members g) = 1)\<rparr>)
       (gr_members g)) groups)"

text \<open>
  \<open>Finish\<close> ignores the returned count; \<open>finish_no_throw\<close> below shows that the \<open>at\<close>
  calls of the optimal pass cannot throw here.
\<close>

definition Finish :: "TaskforcePolicy \<Rightarrow> Group list \<Rightarrow> assignment \<Rightarrow> SeedContext \<Rightarrow> assignment" where
  "Finish tf_policy groups out ctx =
     (if tf_policy = BalancedPvp
      then snd (BalanceByMmrOptimal (swap_players groups) out ctx) else out)"

definition seed_context :: "TeamSeed \<Rightarrow> TeamSeed \<Rightarrow> SeedContext" where
  "seed_context seed1 seed2 =
     \<lparr>sc_mmr_tf1 = sd_mmr_sum seed1, sc_mmr_tf2 = sd_mmr_sum seed2,
      sc_n_tf1 = sd_size seed1, sc_n_tf2 = sd_size seed2,
      sc_class_mmr_tf1 = sd_class_mmr_sum seed1, sc_class_mmr_tf2 = sd_class_mmr_sum seed2,
      sc_class_n_tf1 = sd_class_counts seed1, sc_class_n_tf2 = sd_class_counts seed2\<rparr>"

definition Assign ::
  "TaskforcePolicy \<Rightarrow> TeamSidePolicy \<Rightarrow> Group list \<Rightarrow> TeamSeed \<Rightarrow> TeamSeed \<Rightarrow> assignment" where
  "Assign tf_policy side_policy groups seed1 seed2 =
     (let ctx = seed_context seed1 seed2
      in if tf_policy = Pinned1 \<or> tf_policy = Pinned2 then
           (let tf = (if tf_policy = Pinned1 then 1 else 2)
            in fold (\<lambda>m. umap_put (sl_guid m) tf) (group_slots groups) [])
         else if side_policy = Ignore then
           Finish tf_policy groups (snd (AssignIndividual groups (seed1, seed2))) ctx
         else if side_policy = Required then
           Finish tf_policy groups (snd (AssignWhole groups (seed1, seed2))) ctx
         else
           (case (AssignWhole groups (seed1, seed2), AssignIndividual groups (seed1, seed2)) of
              (((ws1, ws2), whole), ((is1, is2), indiv)) \<Rightarrow>
                if ClassImbalance is1 is2 < ClassImbalance ws1 ws2
                then Finish tf_policy groups indiv ctx
                else Finish tf_policy groups whole ctx))"

section \<open>Head counts dominate\<close>

text \<open>The class cost as a sum over any finite set of classes that covers both sides.\<close>

lemma sum_list_map_pairs:
  "umap_wf m \<Longrightarrow> sum_list (map (\<lambda>(k, n). f k n) m) = (\<Sum>k \<in> fst ` set m. f k (umap_get 0 m k))"
proof (induction m)
  case (Cons e m)
  obtain k n where e: "e = (k, n)" by force
  have notin: "k \<notin> fst ` set m" and wf: "umap_wf m" using Cons.prems e by (auto simp: umap_wf_def)
  have "(\<Sum>j \<in> fst ` set m. f j (umap_get 0 (e # m) j)) = (\<Sum>j \<in> fst ` set m. f j (umap_get 0 m j))"
    by (rule sum.cong) (use notin in \<open>auto simp: e umap_get_def\<close>)
  with Cons.IH [OF wf] notin show ?case by (simp add: e umap_get_def)
qed simp

lemma ClassImbalance_sum:
  assumes "umap_wf (sd_class_counts a)" "umap_wf (sd_class_counts b)" "finite K"
    and "fst ` set (sd_class_counts a) \<union> fst ` set (sd_class_counts b) \<subseteq> K"
  shows "ClassImbalance a b =
    (\<Sum>k \<in> K. \<bar>umap_get 0 (sd_class_counts a) k - umap_get 0 (sd_class_counts b) k\<bar>)"
proof -
  let ?A = "fst ` set (sd_class_counts a)" and ?B = "fst ` set (sd_class_counts b)"
  let ?f = "\<lambda>k. \<bar>umap_get 0 (sd_class_counts a) k - umap_get 0 (sd_class_counts b) k\<bar>"
  define only where "only = filter (\<lambda>(cls, n). map_of (sd_class_counts a) cls = None) (sd_class_counts b)"
  have none: "umap_get 0 m k = 0" if "k \<notin> fst ` set m" for m :: "(u32, int) umap" and k
    using that by (simp add: umap_get_def map_of_eq_None_iff [THEN iffD2])
  have wf: "umap_wf only"
    using assms(2) unfolding only_def umap_wf_def by (rule distinct_map_filter)
  have only: "set only = {e \<in> set (sd_class_counts b). fst e \<notin> ?A}"
    by (simp add: only_def map_of_eq_None_iff case_prod_beta)
  have keys: "fst ` set only = ?B - ?A"
    unfolding only by (rule set_eqI) (auto intro: rev_image_eqI)
  have get: "umap_get 0 only k = umap_get 0 (sd_class_counts b) k" if k: "k \<in> ?B - ?A" for k
  proof -
    obtain n where n: "(k, n) \<in> set only" using k keys [symmetric] by (metis imageE prod.collapse)
    then have "(k, n) \<in> set (sd_class_counts b)" by (simp add: only)
    then have "map_of (sd_class_counts b) k = Some n" "map_of only k = Some n"
      using n umap_find_in_set [OF wf] umap_find_in_set [OF assms(2)] by blast+
    then show ?thesis by (simp add: umap_get_def)
  qed
  have "(\<Sum>k \<in> K. ?f k) = (\<Sum>k \<in> ?A \<union> (?B - ?A). ?f k)"
  proof (rule sum.mono_neutral_right)
    show "\<forall>k \<in> K - (?A \<union> (?B - ?A)). ?f k = 0" by (simp add: none)
  qed (use assms(3,4) in auto)
  also have "\<dots> = (\<Sum>k \<in> ?A. ?f k) + (\<Sum>k \<in> ?B - ?A. ?f k)"
    by (rule sum.union_disjoint) auto
  also have "(\<Sum>k \<in> ?B - ?A. ?f k) = (\<Sum>k \<in> ?B - ?A. \<bar>umap_get 0 only k\<bar>)"
    by (rule sum.cong) (auto simp: get none)
  finally show ?thesis
    using sum_list_map_pairs [OF assms(1), of "\<lambda>k n. \<bar>n - umap_get 0 (sd_class_counts b) k\<bar>"]
      sum_list_map_pairs [OF wf, of "\<lambda>k n. \<bar>n\<bar>"]
    by (simp add: ClassImbalance_def only_def [symmetric] keys)
qed

lemma AddSlot_simps [simp]:
  "sd_size (AddSlot tf s a) = sd_size a + 1"
  "sd_class_counts (AddSlot tf s a) = umap_mod 0 (\<lambda>n. n + 1) (sl_profile_id s) (sd_class_counts a)"
  "sd_heal_score (AddSlot tf s a) = sd_heal_score a + HealValue (sl_profile_id s) tf"
  "sd_mmr_sum (AddSlot tf s a) = sd_mmr_sum a + sl_mmr s"
  by (simp_all add: AddSlot_def)

lemma ClassImbalance_AddSlot:
  assumes "umap_wf (sd_class_counts a)" "umap_wf (sd_class_counts b)"
  shows "\<bar>ClassImbalance (AddSlot tf s a) b - ClassImbalance a b\<bar> \<le> 1"
    "\<bar>ClassImbalance a (AddSlot tf s b) - ClassImbalance a b\<bar> \<le> 1"
proof -
  define K where "K = insert (sl_profile_id s)
    (fst ` set (sd_class_counts a) \<union> fst ` set (sd_class_counts b))"
  define c where "c = sl_profile_id s"
  define A where "A = umap_get 0 (sd_class_counts a)"
  define B where "B = umap_get 0 (sd_class_counts b)"
  have K: "finite K" "c \<in> K" by (simp_all add: K_def c_def)
  have base: "ClassImbalance a b = (\<Sum>k \<in> K. \<bar>A k - B k\<bar>)"
    unfolding A_def B_def by (rule ClassImbalance_sum) (auto simp: assms K_def)
  have 1: "ClassImbalance (AddSlot tf s a) b = (\<Sum>k \<in> K. \<bar>(if k = c then A k + 1 else A k) - B k\<bar>)"
    by (subst ClassImbalance_sum [where K = K]) (auto simp: assms K_def A_def B_def c_def intro!: sum.cong)
  have 2: "ClassImbalance a (AddSlot tf s b) = (\<Sum>k \<in> K. \<bar>A k - (if k = c then B k + 1 else B k)\<bar>)"
    by (subst ClassImbalance_sum [where K = K]) (auto simp: assms K_def A_def B_def c_def intro!: sum.cong)
  have rest: "(\<Sum>k \<in> K - {c}. \<bar>(if k = c then A k + 1 else A k) - B k\<bar>) = (\<Sum>k \<in> K - {c}. \<bar>A k - B k\<bar>)"
    "(\<Sum>k \<in> K - {c}. \<bar>A k - (if k = c then B k + 1 else B k)\<bar>) = (\<Sum>k \<in> K - {c}. \<bar>A k - B k\<bar>)"
    by (auto intro: sum.cong)
  show "\<bar>ClassImbalance (AddSlot tf s a) b - ClassImbalance a b\<bar> \<le> 1"
    unfolding 1 base sum.remove [OF K] using rest(1) by simp
  show "\<bar>ClassImbalance a (AddSlot tf s b) - ClassImbalance a b\<bar> \<le> 1"
    unfolding 2 base sum.remove [OF K] using rest(2) by simp
qed

lemma HealValue_bounds: "0 \<le> HealValue p tf \<and> HealValue p tf \<le> 1"
  by (simp add: HealValue_def)

lemma Imbalance_gap:
  assumes "umap_wf (sd_class_counts a)" "umap_wf (sd_class_counts b)"
  shows "\<bar>(Imbalance (AddSlot 1 s a) b - Imbalance a (AddSlot 2 s b))
     - 100000 * of_int (\<bar>sd_size a + 1 - sd_size b\<bar> - \<bar>sd_size a - sd_size b - 1\<bar>)\<bar> \<le> 2002"
proof -
  let ?c1 = "ClassImbalance (AddSlot 1 s a) b" and ?c2 = "ClassImbalance a (AddSlot 2 s b)"
  let ?h = "sd_heal_score a - sd_heal_score b"
  have "\<bar>?c1 - ?c2\<bar> \<le> 2"
    using ClassImbalance_AddSlot(1) [OF assms, of 1 s] ClassImbalance_AddSlot(2) [OF assms, of 2 s] by linarith
  then have c: "\<bar>of_int ?c1 - of_int ?c2 :: rat\<bar> \<le> 2"
    by (metis of_int_abs of_int_diff of_int_le_iff of_int_numeral)
  have h: "\<bar>\<bar>?h + HealValue (sl_profile_id s) 1\<bar> - \<bar>?h - HealValue (sl_profile_id s) 2\<bar>\<bar> \<le> 2"
    using HealValue_bounds [of "sl_profile_id s" 1] HealValue_bounds [of "sl_profile_id s" 2] by linarith
  define x where "x = \<bar>?h + HealValue (sl_profile_id s) 1\<bar>"
  define y where "y = \<bar>?h - HealValue (sl_profile_id s) 2\<bar>"
  have eqs: "Imbalance (AddSlot 1 s a) b
      = 1000 * of_int ?c1 + x + 100000 * of_int \<bar>sd_size a + 1 - sd_size b\<bar>"
    "Imbalance a (AddSlot 2 s b)
      = 1000 * of_int ?c2 + y + 100000 * of_int \<bar>sd_size a - sd_size b - 1\<bar>"
    by (simp_all add: Imbalance_def kClassWeight_def kHealWeight_def kSizeWeight_def x_def y_def
        algebra_simps)
  have xy: "\<bar>x - y\<bar> \<le> 2" using h by (simp add: x_def y_def)
  show ?thesis unfolding eqs using c xy by (simp add: abs_le_iff)
qed

lemma PlaceSlotGreedy_smaller:
  assumes "umap_wf (sd_class_counts a)" "umap_wf (sd_class_counts b)"
  shows "sd_size a < sd_size b \<Longrightarrow> fst (PlaceSlotGreedy s (a, b)) = 1"
    and "sd_size b < sd_size a \<Longrightarrow> fst (PlaceSlotGreedy s (a, b)) = 2"
proof -
  let ?d = "Imbalance (AddSlot 1 s a) b - Imbalance a (AddSlot 2 s b)"
  let ?z = "of_int (\<bar>sd_size a + 1 - sd_size b\<bar> - \<bar>sd_size a - sd_size b - 1\<bar>) :: rat"
  note gap = Imbalance_gap [OF assms, of s]
  show "fst (PlaceSlotGreedy s (a, b)) = 1" if "sd_size a < sd_size b"
  proof -
    have "\<bar>sd_size a + 1 - sd_size b\<bar> - \<bar>sd_size a - sd_size b - 1\<bar> = -2" using that by simp
    then have "?z = - 2" by simp
    then have "?d < 0" using gap by (simp add: abs_le_iff)
    then show ?thesis by (simp add: PlaceSlotGreedy_def Let_def)
  qed
  show "fst (PlaceSlotGreedy s (a, b)) = 2" if "sd_size b < sd_size a"
  proof -
    have "\<bar>sd_size a + 1 - sd_size b\<bar> - \<bar>sd_size a - sd_size b - 1\<bar> = 2" using that by simp
    then have "?z = 2" by simp
    then have "?d > 0" using gap by (simp add: abs_le_iff)
    then show ?thesis by (simp add: PlaceSlotGreedy_def Let_def)
  qed
qed

text \<open>
  Head counts of two sides.
\<close>

definition seeds_wf :: "seeds \<Rightarrow> bool" where
  "seeds_wf sds \<longleftrightarrow> umap_wf (sd_class_counts (fst sds)) \<and> umap_wf (sd_class_counts (snd sds))"

lemma PlaceSlotGreedy_seeds:
  "snd (PlaceSlotGreedy s (a, b)) =
     (if fst (PlaceSlotGreedy s (a, b)) = 1 then (AddSlot 1 s a, b) else (a, AddSlot 2 s b))"
  by (auto simp: PlaceSlotGreedy_def Let_def)

section \<open>Everybody gets a side\<close>

lemma PlaceSlotGreedy_tf: "fst (PlaceSlotGreedy s sds) \<in> {1, 2}"
  by (auto simp: PlaceSlotGreedy_def Let_def split: prod.splits)

lemma place_slot_find:
  "map_of (snd (place_slot s st)) g =
     (if g = sl_guid s then Some (fst (PlaceSlotGreedy s (fst st))) else map_of (snd st) g)"
  by (auto simp: place_slot_def split: prod.splits)

lemma place_slot_seeds: "fst (place_slot s st) = snd (PlaceSlotGreedy s (fst st))"
  by (auto simp: place_slot_def split: prod.splits)

interpretation slot_fill: greedy_fill place_slot sl_guid "\<lambda>s st. fst (PlaceSlotGreedy s (fst st))"
    snd "\<lambda>st. sd_size (fst (fst st))" "\<lambda>st. sd_size (snd (fst st))" "\<lambda>n st. seeds_wf (fst st)"
proof
  fix s and st :: "seeds \<times> assignment" and n :: nat
  obtain a b out where st: "st = ((a, b), out)" by (metis prod.exhaust)
  show "fst (PlaceSlotGreedy s (fst st)) = 1 \<or> fst (PlaceSlotGreedy s (fst st)) = 2"
    using PlaceSlotGreedy_tf by simp
  show "map_of (snd (place_slot s st)) g
      = (if g = sl_guid s then Some (fst (PlaceSlotGreedy s (fst st))) else map_of (snd st) g)" for g
    by (rule place_slot_find)
  show "sd_size (fst (fst (place_slot s st)))
      = sd_size (fst (fst st)) + (if fst (PlaceSlotGreedy s (fst st)) = 1 then 1 else 0)"
    and "sd_size (snd (fst (place_slot s st)))
      = sd_size (snd (fst st)) + (if fst (PlaceSlotGreedy s (fst st)) = 2 then 1 else 0)"
    using PlaceSlotGreedy_tf [of s "(a, b)"] by (auto simp: place_slot_seeds st PlaceSlotGreedy_seeds)
  assume wf: "seeds_wf (fst st)"
  then show "seeds_wf (fst (place_slot s st))"
    by (simp add: st place_slot_seeds PlaceSlotGreedy_seeds seeds_wf_def umap_wf_mod)
  show "sd_size (fst (fst st)) < sd_size (snd (fst st)) \<Longrightarrow> fst (PlaceSlotGreedy s (fst st)) = 1"
    and "sd_size (snd (fst st)) < sd_size (fst (fst st)) \<Longrightarrow> fst (PlaceSlotGreedy s (fst st)) = 2"
    using wf PlaceSlotGreedy_smaller [of a b s] by (simp_all add: st seeds_wf_def)
qed

definition group_guids :: "Group list \<Rightarrow> guid list" where
  "group_guids groups = map sl_guid (group_slots groups)"

lemma AssignIndividual_sided: "g \<in> set (group_guids groups) \<Longrightarrow> sided (snd (AssignIndividual groups sds)) g"
  unfolding AssignIndividual_def by (rule slot_fill.fold_sided) (auto simp: group_guids_def)

lemma AssignIndividual_gap:
  assumes "distinct (group_guids groups)" "seeds_wf (a, b)"
  shows "\<bar>(sd_size a + int (side_count (snd (AssignIndividual groups (a, b))) (group_guids groups) 1))
        - (sd_size b + int (side_count (snd (AssignIndividual groups (a, b))) (group_guids groups) 2))\<bar>
     = gap_after \<bar>sd_size a - sd_size b\<bar> (length (group_guids groups))"
  unfolding AssignIndividual_def
  using slot_fill.balanced [OF _ _ assms(1), where s = "((a, b), [])"] assms(2)
  by (simp add: group_guids_def)

text \<open>One party: all members get one side.\<close>

lemma place_group_find:
  "\<exists>side \<in> {1, 2}. \<forall>g. map_of (snd (place_group gr st)) g =
     (if g \<in> sl_guid ` set (gr_members gr) then Some side else map_of (snd st) g)"
proof -
  obtain a b out where st: "st = ((a, b), out)" by (metis prod.exhaust)
  show ?thesis
  proof (cases "gr_members gr = []")
    case True
    then show ?thesis by (intro bexI [of _ 1]) (simp_all add: st place_group_def)
  next
    case False
    define side :: int where "side =
      (if Imbalance a (fold (AddSlot 2) (gr_members gr) b) < Imbalance (fold (AddSlot 1) (gr_members gr) a) b then 2
       else if Imbalance (fold (AddSlot 1) (gr_members gr) a) b = Imbalance a (fold (AddSlot 2) (gr_members gr) b)
         \<and> sd_mmr_sum b < sd_mmr_sum a then 2 else 1)"
    have "snd (place_group gr st) = fold (\<lambda>m. umap_put (sl_guid m) side) (gr_members gr) out"
      using False by (simp only: st place_group_def prod.case Let_def side_def if_False snd_conv)
    moreover have "side \<in> {1, 2}" by (simp add: side_def)
    ultimately show ?thesis
      by (intro bexI [of _ side]) (simp_all add: st ud.find_fold_put_const [where key = sl_guid])
  qed
qed

lemma fold_place_group_find:
  assumes "distinct (map sl_guid (concat (map gr_members gs)))" "gr \<in> set gs"
  shows "\<exists>side \<in> {1, 2}. \<forall>m \<in> set (gr_members gr). map_of (snd (fold place_group gs st)) (sl_guid m) = Some side"
  using assms
proof (induction gs arbitrary: st)
  case (Cons g gs)
  have frame: "map_of (snd (fold place_group gs st)) h = map_of (snd st) h"
    if "h \<notin> sl_guid ` set (concat (map gr_members gs))" for h st
    using that
  proof (induction gs arbitrary: st)
    case (Cons k ks)
    obtain side where "\<forall>g. map_of (snd (place_group k st)) g =
        (if g \<in> sl_guid ` set (gr_members k) then Some side else map_of (snd st) g)"
      using place_group_find [of k st] by blast
    moreover have "h \<notin> sl_guid ` set (gr_members k)"
      "h \<notin> sl_guid ` set (concat (map gr_members ks))"
      using Cons.prems by (auto simp del: set_concat simp: image_Un)
    ultimately show ?case using Cons.IH [of "place_group k st"] by simp
  qed simp
  show ?case
  proof (cases "gr \<in> set gs")
    case True
    with Cons show ?thesis by simp
  next
    case False
    with Cons.prems have [simp]: "gr = g" by simp
    obtain side where side: "side \<in> {1, 2}" "\<forall>h. map_of (snd (place_group g st)) h =
        (if h \<in> sl_guid ` set (gr_members g) then Some side else map_of (snd st) h)"
      using place_group_find [of g st] by blast
    have "map_of (snd (fold place_group (g # gs) st)) (sl_guid m) = Some side"
      if "m \<in> set (gr_members g)" for m
    proof -
      have "sl_guid m \<notin> sl_guid ` set (concat (map gr_members gs))"
        using Cons.prems(1) that by (auto simp del: set_concat)
      then show ?thesis using frame [of "sl_guid m" "place_group g st"] side(2) that by simp
    qed
    with side(1) show ?thesis by auto
  qed
qed simp

lemma GroupsBySizeDesc_mset: "mset (GroupsBySizeDesc groups) = mset groups"
  unfolding GroupsBySizeDesc_def by (metis map_nth mset_map mset_stable_sort)

lemma GroupsBySizeDesc_set [simp]: "set (GroupsBySizeDesc groups) = set groups"
  using GroupsBySizeDesc_mset by (metis set_mset_mset)

lemma GroupsBySizeDesc_distinct:
  assumes "distinct (group_guids groups)"
  shows "distinct (map sl_guid (concat (map gr_members (GroupsBySizeDesc groups))))"
proof -
  have "mset (concat (map gr_members (GroupsBySizeDesc groups))) = mset (concat (map gr_members groups))"
    by (simp add: mset_concat GroupsBySizeDesc_mset flip: sum_mset_sum_list mset_map)
      (metis GroupsBySizeDesc_mset mset_map)
  then have "mset (map sl_guid (concat (map gr_members (GroupsBySizeDesc groups)))) = mset (group_guids groups)"
    unfolding group_guids_def group_slots_def by (metis mset_map)
  then show ?thesis using assms mset_eq_imp_distinct_iff by blast
qed

lemma AssignWhole_whole:
  assumes "distinct (group_guids groups)" "gr \<in> set groups"
  shows "\<exists>side \<in> {1, 2}. \<forall>m \<in> set (gr_members gr). map_of (snd (AssignWhole groups sds)) (sl_guid m) = Some side"
  unfolding AssignWhole_def
  by (rule fold_place_group_find) (use GroupsBySizeDesc_distinct assms in auto)

lemma AssignWhole_sided:
  assumes "distinct (group_guids groups)" "g \<in> set (group_guids groups)"
  shows "sided (snd (AssignWhole groups sds)) g"
proof -
  obtain gr m where "gr \<in> set groups" "m \<in> set (gr_members gr)" "g = sl_guid m"
    using assms(2) by (auto simp: group_guids_def group_slots_def)
  then show ?thesis using AssignWhole_whole [OF assms(1), of gr sds] by (auto simp: sided_def)
qed

section \<open>The post-pass\<close>

lemma swap_players_guids: "map pl_guid (swap_players groups) = group_guids groups"
  by (induction groups) (auto simp: swap_players_def group_guids_def group_slots_def comp_def)

lemma placed_swap_players:
  assumes "distinct (group_guids groups)" "\<And>g. g \<in> set (group_guids groups) \<Longrightarrow> sided out g"
  shows "placed (swap_players groups) out"
proof -
  have "pl_guid p \<in> set (group_guids groups)" if "p \<in> set (swap_players groups)" for p
    using that swap_players_guids by (metis image_eqI set_map)
  then show ?thesis using assms by (auto simp: placed_def swap_players_guids sided_def)
qed

lemma finish_no_throw:
  "distinct (group_guids groups) \<Longrightarrow> (\<And>g. g \<in> set (group_guids groups) \<Longrightarrow> sided out g) \<Longrightarrow>
   fst (BalanceByMmrOptimal (swap_players groups) out ctx) \<noteq> None"
  by (rule BalanceByMmrOptimal_moves(2) [OF placed_swap_players])

lemma Finish_moves:
  assumes "distinct (group_guids groups)" "\<And>g. g \<in> set (group_guids groups) \<Longrightarrow> sided out g"
  shows "same_class_moves (swap_players groups) out (Finish pol groups out ctx)"
  using BalanceByMmrOptimal_moves(1) [OF placed_swap_players] assms by (simp add: Finish_def)

lemma Finish_sided:
  assumes "distinct (group_guids groups)" "\<And>g. g \<in> set (group_guids groups) \<Longrightarrow> sided out g"
    and "g \<in> set (group_guids groups)"
  shows "sided (Finish pol groups out ctx) g"
proof -
  have "placed (swap_players groups) (Finish pol groups out ctx)"
    using Finish_moves [OF assms(1,2)] placed_swap_players [OF assms(1,2)]
    by (simp add: same_class_moves_def)
  moreover obtain p where "p \<in> set (swap_players groups)" "pl_guid p = g"
    using assms(3) swap_players_guids by (metis imageE set_map)
  ultimately show ?thesis by (auto simp: placed_def sided_def)
qed

text \<open>The post-pass never touches a member of a party of two or more.\<close>

lemma swap_players_swappable:
  assumes "distinct (group_guids groups)" "gr \<in> set groups" "length (gr_members gr) \<noteq> 1"
    and "m \<in> set (gr_members gr)"
  shows "sl_guid m \<notin> pl_guid ` {p \<in> set (swap_players groups). pl_swappable p}"
proof
  assume "sl_guid m \<in> pl_guid ` {p \<in> set (swap_players groups). pl_swappable p}"
  then obtain h n where h: "h \<in> set groups" "n \<in> set (gr_members h)" "length (gr_members h) = 1"
    "sl_guid n = sl_guid m"
    by (auto simp: swap_players_def)
  have "inj_on sl_guid (set (group_slots groups))" and "distinct (group_slots groups)"
    using assms(1) by (auto simp: group_guids_def distinct_map)
  moreover have "n \<in> set (group_slots groups)" "m \<in> set (group_slots groups)"
    using h assms by (auto simp: group_slots_def)
  ultimately have "n = m" using h(4) by (auto dest: inj_onD)
  have "h = gr"
    using \<open>distinct (group_slots groups)\<close> h(1,2) assms(2,4) \<open>n = m\<close> unfolding group_slots_def
  proof (induction groups)
    case (Cons k ks)
    then show ?case by (auto simp: disjoint_iff)
  qed simp
  then show False using h(3) assms(3) by simp
qed

text \<open>The post-pass keeps the head counts.\<close>

lemma Finish_count:
  assumes "distinct (group_guids groups)" "\<And>g. g \<in> set (group_guids groups) \<Longrightarrow> sided out g"
    and "tf = 1 \<or> tf = 2"
  shows "side_count (Finish pol groups out ctx) (group_guids groups) tf = side_count out (group_guids groups) tf"
  using same_class_moves_count [OF Finish_moves placed_swap_players] assms
  by (simp add: swap_players_guids)

section \<open>Properties\<close>

text \<open>A pop used by the witnesses: a party of a medic and an assault, and two solo players.\<close>

definition ex_groups :: "Group list" where
  "ex_groups =
     [\<lparr>gr_party_id = 1, gr_members =
        [\<lparr>sl_guid = ''a'', sl_profile_id = 567, sl_mmr = 1500, sl_solo = False\<rparr>,
         \<lparr>sl_guid = ''b'', sl_profile_id = 680, sl_mmr = 1400, sl_solo = False\<rparr>]\<rparr>,
      \<lparr>gr_party_id = 2, gr_members =
        [\<lparr>sl_guid = ''c'', sl_profile_id = 680, sl_mmr = 1700, sl_solo = True\<rparr>]\<rparr>,
      \<lparr>gr_party_id = 3, gr_members =
        [\<lparr>sl_guid = ''d'', sl_profile_id = 567, sl_mmr = 1000, sl_solo = True\<rparr>]\<rparr>]"

lemma ex_groups_guids: "group_guids ex_groups = [''a'', ''b'', ''c'', ''d'']"
  by (simp add: ex_groups_def group_guids_def group_slots_def)

lemma Assign_sided:
  assumes "distinct (group_guids groups)" "g \<in> set (group_guids groups)"
  shows "sided (Assign tf_policy side_policy groups seed1 seed2) g"
proof -
  have pin: "sided (fold (\<lambda>m. umap_put (sl_guid m) tf) (group_slots groups) []) g" if "tf = 1 \<or> tf = 2" for tf
    using assms(2) that by (auto simp: sided_def group_guids_def ud.find_fold_put_const [where key = sl_guid])
  note fin = Finish_sided [OF assms(1) _ assms(2)]
  note w = AssignWhole_sided [OF assms(1)] and i = AssignIndividual_sided
  show ?thesis
    unfolding Assign_def Let_def by (simp add: pin fin w i split: prod.splits) (metis fin w i snd_conv)
qed

text \<open>
  Task-force assignment is total and stays on the two sides: whatever the policies, the
  parties and the two live rosters, every member of every party of a pop gets task force 1
  or task force 2.
\<close>

theorem assign_total:
  assumes "distinct (group_guids groups)" "g \<in> set (group_guids groups)"
  shows "sided (Assign tf_policy side_policy groups seed1 seed2) g"
  by (rule Assign_sided [OF assms])

theorem assign_total_witness:
  "sided (Assign BalancedPvp Preferred ex_groups empty_seed empty_seed) ''c''"
  by (rule assign_total) (simp_all add: ex_groups_guids)

lemma Assign_required_whole:
  assumes "distinct (group_guids groups)" "gr \<in> set groups" "2 \<le> length (gr_members gr)"
  shows "\<exists>side \<in> {1, 2}. \<forall>m \<in> set (gr_members gr).
    map_of (Assign tf_policy Required groups seed1 seed2) (sl_guid m) = Some side"
proof (cases "tf_policy = Pinned1 \<or> tf_policy = Pinned2")
  case True
  have "sl_guid m \<in> sl_guid ` set (group_slots groups)" if "m \<in> set (gr_members gr)" for m
    using assms(2) that by (auto simp: group_slots_def)
  then show ?thesis
    using True by (auto simp: Assign_def Let_def ud.find_fold_put_const [where key = sl_guid])
next
  case False
  let ?out = "snd (AssignWhole groups (seed1, seed2))"
  have "same_class_moves (swap_players groups) ?out (Assign tf_policy Required groups seed1 seed2)"
    using False Finish_moves [OF assms(1) AssignWhole_sided [OF assms(1)]]
    by (simp add: Assign_def Let_def)
  then have "map_of (Assign tf_policy Required groups seed1 seed2) (sl_guid m) = map_of ?out (sl_guid m)"
    if "m \<in> set (gr_members gr)" for m
    using swap_players_swappable [OF assms(1,2) _ that] assms(3) by (auto simp: same_class_moves_def)
  then show ?thesis using AssignWhole_whole [OF assms(1,2), of "(seed1, seed2)"] by simp
qed

text \<open>
  Under the Required side policy a party of two or more is never split: all its members
  get the same task force, also after the rating post-pass has swapped players.
\<close>

theorem required_party_whole:
  assumes "distinct (group_guids groups)" "gr \<in> set groups" "2 \<le> length (gr_members gr)"
  shows "\<exists>side \<in> {1, 2}. \<forall>m \<in> set (gr_members gr).
    map_of (Assign tf_policy Required groups seed1 seed2) (sl_guid m) = Some side"
  by (rule Assign_required_whole [OF assms])

theorem required_party_whole_witness:
  "\<exists>side \<in> {1, 2}. \<forall>m \<in> set (gr_members (ex_groups ! 0)).
     map_of (Assign BalancedPvp Required ex_groups empty_seed empty_seed) (sl_guid m) = Some side"
  by (rule required_party_whole) (simp_all add: ex_groups_guids, simp_all add: ex_groups_def)

text \<open>
  Head counts come first: when parties may be split (side policy Ignore) and the queue
  balances, the gap between the two sides after placement is exactly what filling the
  smaller side first gives, \<open>gap_after\<close> of the gap of the live rosters and the number of
  arrivals: the old gap shrinks by one per arrival until it is gone and then alternates
  between 0 and 1. Neither class, heal score nor rating can make it larger.
\<close>

theorem ignore_policy_even_sides:
  assumes "distinct (group_guids groups)" "seeds_wf (seed1, seed2)"
    and "tf_policy = Balanced \<or> tf_policy = BalancedPvp"
    and "out = Assign tf_policy Ignore groups seed1 seed2"
  shows "\<bar>(sd_size seed1 + int (side_count out (group_guids groups) 1))
        - (sd_size seed2 + int (side_count out (group_guids groups) 2))\<bar>
     = gap_after \<bar>sd_size seed1 - sd_size seed2\<bar> (length (group_guids groups))"
  using assms(3,4) AssignIndividual_gap [OF assms(1,2)]
    Finish_count [OF assms(1) AssignIndividual_sided]
  by (auto simp: Assign_def)

theorem ignore_policy_even_sides_witness:
  "\<bar>(3 + int (side_count (Assign BalancedPvp Ignore ex_groups (empty_seed\<lparr>sd_size := 3\<rparr>) empty_seed) [''a'', ''b'', ''c'', ''d''] 1))
   - int (side_count (Assign BalancedPvp Ignore ex_groups (empty_seed\<lparr>sd_size := 3\<rparr>) empty_seed) [''a'', ''b'', ''c'', ''d''] 2)\<bar> = 1"
  using ignore_policy_even_sides [of ex_groups "empty_seed\<lparr>sd_size := 3\<rparr>" empty_seed BalancedPvp, OF _ _ _ refl]
  by (simp add: ex_groups_guids seeds_wf_def empty_seed_def gap_after_def)

end
