(* ===== verification/RuleSupport.thy ===== *)
theory RuleSupport
  imports SidePlacement
begin

text \<open>
  Helpers the match rules share, \<open>MatchmakingService/RuleSupport.hpp\<close>, and the contract of
  \<open>MatchRule::Evaluate\<close> (\<open>MatchRule.hpp\<close>) as a locale: what every result says about the
  parties it consumes. The lemmas of the locale are what the orchestrator relies on: the
  consumed parties leave the queue as wholes, and a pop makes the queue shorter.
\<close>

section \<open>Packing and result assembly\<close>

definition PartiesByWaitAsc :: "QueuedParty list \<Rightarrow> QueuedParty list" where
  "PartiesByWaitAsc parties = stable_sort (\<lambda>a b. pt_joined_at a < pt_joined_at b) parties"

definition pack_step :: "int \<Rightarrow> QueuedParty \<Rightarrow> QueuedParty list \<times> int \<Rightarrow> QueuedParty list \<times> int" where
  "pack_step seat_budget p st =
     (case st of (chosen, used) \<Rightarrow>
        let need = int (pt_size p)
        in if seat_budget \<ge> 0 \<and> used + need > seat_budget then st
           else (chosen @ [p], used + need))"

definition PackParties :: "QueuedParty list \<Rightarrow> int \<Rightarrow> QueuedParty list" where
  "PackParties ordered seat_budget = fst (fold (pack_step seat_budget) ordered ([], 0))"

definition CountMembers :: "QueuedParty list \<Rightarrow> int" where
  "CountMembers parties = fold (\<lambda>p n. n + int (pt_size p)) parties 0"

text \<open>The loop body that enters one member, and one whole party, in a result.\<close>

definition place_member ::
  "(QueuedPlayer \<Rightarrow> int) \<Rightarrow> (QueuedPlayer \<Rightarrow> rat option) \<Rightarrow> QueuedPlayer \<Rightarrow> MatchResult \<Rightarrow> MatchResult" where
  "place_member tf mmr m r = r\<lparr>
     mr_session_guids := mr_session_guids r @ [qp_session_guid m],
     mr_task_force_assignments := umap_put (qp_session_guid m) (tf m) (mr_task_force_assignments r),
     mr_profile_ids := umap_put (qp_session_guid m) (qp_profile_id m) (mr_profile_ids r),
     mr_mmrs := (case mmr m of None \<Rightarrow> mr_mmrs r
                 | Some x \<Rightarrow> umap_put (qp_session_guid m) x (mr_mmrs r))\<rparr>"

definition place_party ::
  "(QueuedPlayer \<Rightarrow> int) \<Rightarrow> (QueuedPlayer \<Rightarrow> rat option) \<Rightarrow> QueuedParty \<Rightarrow> MatchResult \<Rightarrow> MatchResult" where
  "place_party tf mmr p r =
     fold (place_member tf mmr) (pt_members p)
       (r\<lparr>mr_consumed_party_ids := mr_consumed_party_ids r @ [pt_party_id p]\<rparr>)"

definition party_group :: "bool \<Rightarrow> QueuedParty \<Rightarrow> Group" where
  "party_group mmr_aware p = \<lparr>gr_party_id = pt_party_id p,
     gr_members = map (\<lambda>m. \<lparr>sl_guid = qp_session_guid m, sl_profile_id = qp_profile_id m,
        sl_mmr = (if mmr_aware then qp_mmr m else 1000), sl_solo = (pt_size p = 1)\<rparr>) (pt_members p)\<rparr>"

definition BuildResult ::
  "QueuedParty list \<Rightarrow> TaskforcePolicy \<Rightarrow> TeamSidePolicy \<Rightarrow> TeamSeed \<Rightarrow> TeamSeed \<Rightarrow> AccessMode
     \<Rightarrow> u64 list \<Rightarrow> MatchResult" where
  "BuildResult chosen tf_policy side_policy seed1 seed2 access owners =
     (let mmr_aware = (tf_policy = BalancedPvp);
          asg = Assign tf_policy side_policy (map (party_group mmr_aware) chosen) seed1 seed2
      in fold (place_party (\<lambda>m. umap_get 1 asg (qp_session_guid m))
                 (\<lambda>m. Some (if mmr_aware then qp_mmr m else 1000))) chosen
           (empty_result\<lparr>mr_access_mode := access, mr_owner_party_ids := owners\<rparr>))"

section \<open>What a result says about its parties\<close>

definition queue_ok :: "QueuedParty list \<Rightarrow> bool" where
  "queue_ok ps \<longleftrightarrow> distinct (map pt_party_id ps) \<and> distinct (party_guids ps) \<and>
     (\<forall>p \<in> set ps. pt_members p \<noteq> [])"

definition instance_wf :: "RunningInstance \<Rightarrow> bool" where
  "instance_wf ri \<longleftrightarrow> umap_wf (sd_class_counts (ri_team1 ri)) \<and> umap_wf (sd_class_counts (ri_team2 ri))"

definition consumed :: "MatchResult \<Rightarrow> QueuedParty list \<Rightarrow> QueuedParty list" where
  "consumed r ps = filter (\<lambda>p. pt_party_id p \<in> set (mr_consumed_party_ids r)) ps"

definition remaining :: "MatchResult \<Rightarrow> QueuedParty list \<Rightarrow> QueuedParty list" where
  \<comment> \<open>\<open>MatchmakingService::RemoveConsumedParties\<close>\<close>
  "remaining r ps = filter (\<lambda>p. pt_party_id p \<notin> set (mr_consumed_party_ids r)) ps"

definition result_ok :: "QueuedParty list \<Rightarrow> MatchResult \<Rightarrow> bool" where
  "result_ok ps r \<longleftrightarrow>
     mr_consumed_party_ids r \<noteq> [] \<and> distinct (mr_consumed_party_ids r) \<and>
     set (mr_consumed_party_ids r) \<subseteq> pt_party_id ` set ps \<and>
     mset (mr_session_guids r) = mset (party_guids (consumed r ps)) \<and>
     (\<forall>g. map_of (mr_task_force_assignments r) g \<noteq> None \<longleftrightarrow> g \<in> set (mr_session_guids r)) \<and>
     (\<forall>g \<in> set (mr_session_guids r). sided (mr_task_force_assignments r) g) \<and>
     (\<forall>m \<in> set (FlattenParties (consumed r ps)).
        map_of (mr_profile_ids r) (qp_session_guid m) = Some (qp_profile_id m))"

lemma party_guids_unique:
  "distinct (party_guids ps) \<Longrightarrow> p \<in> set ps \<Longrightarrow> q \<in> set ps \<Longrightarrow>
   g \<in> set (member_guids p) \<Longrightarrow> g \<in> set (member_guids q) \<Longrightarrow> p = q"
proof (induction ps)
  case (Cons x ps)
  have other: "g \<notin> set (party_guids ps)" if "g \<in> set (member_guids x)"
    using Cons.prems(1) that by (auto simp del: set_map)
  have "g \<in> set (party_guids ps)" if "y \<in> set ps" "g \<in> set (member_guids y)" for y
    using that unfolding set_party_guids by blast
  then show ?case using Cons other by (metis distinct_append party_guids_Cons set_ConsD)
qed simp

lemma queue_ok_subset:
  "queue_ok ps \<Longrightarrow> distinct qs \<Longrightarrow> set qs \<subseteq> set ps \<Longrightarrow> queue_ok qs"
proof -
  assume ok: "queue_ok ps" and qs: "distinct qs" "set qs \<subseteq> set ps"
  have "inj_on pt_party_id (set ps)" using ok by (simp add: queue_ok_def distinct_map)
  then have ids: "distinct (map pt_party_id qs)" using qs by (simp add: distinct_map inj_on_subset)
  have "distinct ps" using ok by (simp add: queue_ok_def distinct_map)
  then have "mset qs \<subseteq># mset ps"
    using subset_imp_msubset_mset_set [OF qs(2)] qs(1) by (simp add: mset_set_set)
  then obtain rest where "mset ps = mset (qs @ rest)"
    by (metis ex_mset mset_append subset_mset.add_diff_inverse)
  then have "distinct (party_guids (qs @ rest))"
    using ok distinct_party_guids_mset by (metis queue_ok_def)
  then show "queue_ok qs" using ids ok qs by (auto simp: queue_ok_def)
qed

lemma queue_ok_remaining: "queue_ok ps \<Longrightarrow> queue_ok (remaining r ps)"
  by (rule queue_ok_subset) (auto simp: remaining_def queue_ok_def distinct_map)

locale match_rule =
  fixes evaluate :: "QueuedParty list \<Rightarrow> RunningInstance list \<Rightarrow> MatchResult option"
  assumes evaluate_ok:
    "queue_ok ps \<Longrightarrow> \<forall>i \<in> set is. instance_wf i \<Longrightarrow> evaluate ps is = Some r \<Longrightarrow> result_ok ps r"
begin

lemma pop_shrinks:
  assumes "queue_ok ps" "\<forall>i \<in> set is. instance_wf i" "evaluate ps is = Some r"
  shows "length (remaining r ps) < length ps"
proof -
  have ok: "result_ok ps r" by (rule evaluate_ok [OF assms])
  then obtain pid where "pid \<in> set (mr_consumed_party_ids r)"
    by (cases "mr_consumed_party_ids r") (auto simp: result_ok_def)
  then obtain p where "p \<in> set ps" "pt_party_id p \<in> set (mr_consumed_party_ids r)"
    using ok by (auto simp: result_ok_def)
  then show ?thesis unfolding remaining_def by (intro length_filter_less) auto
qed

lemma pop_atomic:
  assumes "queue_ok ps" "\<forall>i \<in> set is. instance_wf i" "evaluate ps is = Some r" "p \<in> set ps"
  shows "set (member_guids p) \<subseteq> set (mr_session_guids r) \<and> p \<notin> set (remaining r ps)
       \<or> set (member_guids p) \<inter> set (mr_session_guids r) = {} \<and> p \<in> set (remaining r ps)"
proof -
  have ok: "result_ok ps r" by (rule evaluate_ok [OF assms(1-3)])
  then have guids: "set (mr_session_guids r) = set (party_guids (consumed r ps))"
    by (metis result_ok_def set_mset_mset)
  have disj: "p = q" if "q \<in> set ps" "g \<in> set (member_guids p)" "g \<in> set (member_guids q)" for q g
    using party_guids_unique assms(1,4) that unfolding queue_ok_def by blast
  show ?thesis
  proof (cases "pt_party_id p \<in> set (mr_consumed_party_ids r)")
    case True
    then show ?thesis using assms(4) guids by (auto simp: consumed_def remaining_def set_party_guids)
  next
    case False
    have "g \<notin> set (mr_session_guids r)" if "g \<in> set (member_guids p)" for g
      using False disj [OF _ that] unfolding guids set_party_guids consumed_def by auto
    then show ?thesis using False assms(4) by (auto simp: remaining_def)
  qed
qed

end

section \<open>Lemmas\<close>

lemma PartiesByWaitAsc_set [simp]: "set (PartiesByWaitAsc ps) = set ps"
  by (simp add: PartiesByWaitAsc_def)

lemma PartiesByWaitAsc_mset [simp]: "mset (PartiesByWaitAsc ps) = mset ps"
  by (simp add: PartiesByWaitAsc_def)

interpretation wait: strict_weak_order "\<lambda>a b :: QueuedParty. pt_joined_at a < pt_joined_at b" UNIV
  by (rule strict_weak_order_key)

lemma PartiesByWaitAsc_sorted: "sorted_wrt (\<lambda>a b. pt_joined_at a \<le> pt_joined_at b) (PartiesByWaitAsc ps)"
  using wait.sorted_stable_sort [of ps] by (simp add: PartiesByWaitAsc_def not_less)

lemma fold_place_member:
  "mr_session_guids (fold (place_member tf mmr) ms r) = mr_session_guids r @ map qp_session_guid ms"
  "mr_consumed_party_ids (fold (place_member tf mmr) ms r) = mr_consumed_party_ids r"
  "mr_task_force_assignments (fold (place_member tf mmr) ms r)
     = fold (\<lambda>m. umap_put (qp_session_guid m) (tf m)) ms (mr_task_force_assignments r)"
  "mr_profile_ids (fold (place_member tf mmr) ms r)
     = fold (\<lambda>m. umap_put (qp_session_guid m) (qp_profile_id m)) ms (mr_profile_ids r)"
  by (induction ms arbitrary: r) (simp_all add: place_member_def)

lemma fold_place_member_other:
  "mr_access_mode (fold (place_member tf mmr) ms r) = mr_access_mode r"
  "mr_owner_party_ids (fold (place_member tf mmr) ms r) = mr_owner_party_ids r"
  "mr_existing_instance_id (fold (place_member tf mmr) ms r) = mr_existing_instance_id r"
  "mr_cap_override (fold (place_member tf mmr) ms r) = mr_cap_override r"
  "mr_cohesion_spilled (fold (place_member tf mmr) ms r) = mr_cohesion_spilled r"
  "mr_map_name (fold (place_member tf mmr) ms r) = mr_map_name r"
  by (induction ms arbitrary: r) (simp_all add: place_member_def)

lemma fold_place_party:
  "mr_session_guids (fold (place_party tf mmr) ps r) = mr_session_guids r @ party_guids ps"
  "mr_consumed_party_ids (fold (place_party tf mmr) ps r) = mr_consumed_party_ids r @ map pt_party_id ps"
  "mr_task_force_assignments (fold (place_party tf mmr) ps r)
     = fold (\<lambda>m. umap_put (qp_session_guid m) (tf m)) (FlattenParties ps) (mr_task_force_assignments r)"
  "mr_profile_ids (fold (place_party tf mmr) ps r)
     = fold (\<lambda>m. umap_put (qp_session_guid m) (qp_profile_id m)) (FlattenParties ps) (mr_profile_ids r)"
  by (induction ps arbitrary: r) (simp_all add: place_party_def fold_place_member FlattenParties_def)

lemma fold_place_party_other:
  "mr_access_mode (fold (place_party tf mmr) ps r) = mr_access_mode r"
  "mr_owner_party_ids (fold (place_party tf mmr) ps r) = mr_owner_party_ids r"
  "mr_existing_instance_id (fold (place_party tf mmr) ps r) = mr_existing_instance_id r"
  "mr_cap_override (fold (place_party tf mmr) ps r) = mr_cap_override r"
  "mr_cohesion_spilled (fold (place_party tf mmr) ps r) = mr_cohesion_spilled r"
  "mr_map_name (fold (place_party tf mmr) ps r) = mr_map_name r"
  by (induction ps arbitrary: r) (simp_all add: place_party_def fold_place_member_other)

text \<open>A result that enters distinct queued parties, each member with side 1 or 2, is in order.\<close>

lemma consumed_mset:
  assumes "queue_ok ps" "distinct qs" "set qs \<subseteq> set ps" "mr_consumed_party_ids r = map pt_party_id qs"
  shows "mset (consumed r ps) = mset qs"
proof -
  have inj: "inj_on pt_party_id (set ps)" and "distinct ps"
    using assms(1) by (simp_all add: queue_ok_def distinct_map)
  then have "set (consumed r ps) = set qs"
    using assms(3,4) by (auto simp: consumed_def dest: inj_onD)
  moreover have "distinct (consumed r ps)" using \<open>distinct ps\<close> by (simp add: consumed_def)
  ultimately show ?thesis using assms(2) set_eq_iff_mset_eq_distinct by blast
qed

lemma place_parties_ok:
  assumes "queue_ok ps" "qs \<noteq> []" "distinct qs" "set qs \<subseteq> set ps"
    and r: "mr_consumed_party_ids r = map pt_party_id qs" "mr_session_guids r = party_guids qs"
    and tf: "\<And>g. map_of (mr_task_force_assignments r) g \<noteq> None \<longleftrightarrow> g \<in> set (party_guids qs)"
      "\<And>g. g \<in> set (party_guids qs) \<Longrightarrow> sided (mr_task_force_assignments r) g"
    and prof: "\<And>m. m \<in> set (FlattenParties qs) \<Longrightarrow> map_of (mr_profile_ids r) (qp_session_guid m) = Some (qp_profile_id m)"
  shows "result_ok ps r"
proof -
  have q: "queue_ok qs" by (rule queue_ok_subset [OF assms(1,3,4)])
  have m: "mset (consumed r ps) = mset qs" by (rule consumed_mset [OF assms(1,3,4) r(1)])
  then have "mset (party_guids (consumed r ps)) = mset (party_guids qs)" by (rule mset_party_guids)
  moreover have "set (FlattenParties (consumed r ps)) = set (FlattenParties qs)"
    using m by (metis FlattenParties_def mset_eq_setD set_concat set_map)
  ultimately show ?thesis
    using assms(2,4) q tf prof by (auto simp: result_ok_def r queue_ok_def)
qed

lemma fold_place_party_ok:
  assumes "queue_ok ps" "qs \<noteq> []" "distinct qs" "set qs \<subseteq> set ps"
    and "mr_consumed_party_ids r = []" "mr_session_guids r = []" "mr_task_force_assignments r = []"
    and tf: "\<And>m. m \<in> set (FlattenParties qs) \<Longrightarrow> tf m = 1 \<or> tf m = 2"
  shows "result_ok ps (fold (place_party tf mmr) qs r)"
proof (rule place_parties_ok [OF assms(1-4)])
  have q: "queue_ok qs" by (rule queue_ok_subset [OF assms(1,3,4)])
  then have d: "distinct (map qp_session_guid (FlattenParties qs))"
    by (simp add: queue_ok_def party_guids_Flatten)
  let ?m = "mr_task_force_assignments (fold (place_party tf mmr) qs r)"
  have find: "map_of ?m (qp_session_guid m) = Some (tf m)" if "m \<in> set (FlattenParties qs)" for m
    unfolding fold_place_party(3) by (rule ud.find_fold_put_distinct [OF d that])
  show "sided ?m g" if gq: "g \<in> set (party_guids qs)" for g
  proof -
    obtain m where m: "m \<in> set (FlattenParties qs)" "g = qp_session_guid m"
      using gq by (auto simp: party_guids_Flatten)
    show ?thesis using find [OF m(1)] tf [OF m(1)] by (auto simp: sided_def m(2))
  qed
  show "map_of ?m g \<noteq> None \<longleftrightarrow> g \<in> set (party_guids qs)" for g
  proof (cases "g \<in> set (party_guids qs)")
    case True
    then show ?thesis using find by (auto simp: party_guids_Flatten)
  next
    case False
    then have "g \<notin> qp_session_guid ` set (FlattenParties qs)" by (simp add: party_guids_Flatten)
    then have "map_of ?m g = None"
      unfolding fold_place_party(3) by (simp add: ud.find_fold_put_notin assms(7))
    then show ?thesis using False by simp
  qed
  show "map_of (mr_profile_ids (fold (place_party tf mmr) qs r)) (qp_session_guid m) = Some (qp_profile_id m)"
    if "m \<in> set (FlattenParties qs)" for m
    unfolding fold_place_party(4) by (rule ud.find_fold_put_distinct [OF d that])
qed (simp_all add: fold_place_party assms(5,6))

lemma group_guids_parties: "group_guids (map (party_group b) ps) = party_guids ps"
  by (induction ps) (simp_all add: group_guids_def group_slots_def party_group_def comp_def)

end
