(* ===== verification/DefenderRotation.thy ===== *)
theory DefenderRotation
  imports Domain "HOL-Library.Countable"
begin

text \<open>
  Choice of the defending side of a Double Agent match,
  \<open>MatchmakingService/DefenderRotation.cpp\<close>: members are ranked by their claim to
  defend, the party subset that fills the defender seats exactly with the strongest total
  claim is searched exhaustively, and when no subset fits one party spills across the
  boundary. A bit mask over the chosen parties is a \<open>nat\<close>; the code searches only when
  there are at most 20 parties, so \<open>1u << n\<close> does not overflow. The lemmas relate masks
  to sets of party indices.
\<close>

section \<open>Definitions\<close>

type_synonym sides = "(guid, int) umap"

definition StrongerClaim :: "QueuedPlayer \<Rightarrow> QueuedPlayer \<Rightarrow> bool" where
  "StrongerClaim a b =
     (if fs_last_defender_id (qp_fairness a) \<noteq> fs_last_defender_id (qp_fairness b)
        then fs_last_defender_id (qp_fairness a) < fs_last_defender_id (qp_fairness b)
      else let ra = defender_ratio (qp_fairness a); rb = defender_ratio (qp_fairness b)
        in if \<bar>ra - rb\<bar> > 1 / 10 ^ 9 then ra < rb
           else if qp_joined_at a \<noteq> qp_joined_at b then qp_joined_at a < qp_joined_at b
           else qp_session_guid a < qp_session_guid b)"

definition claim_order :: "QueuedParty list \<Rightarrow> QueuedPlayer list" where
  "claim_order chosen = stable_sort StrongerClaim (concat (map pt_members chosen))"

definition claim_rank :: "QueuedParty list \<Rightarrow> (guid, int) umap" where
  "claim_rank chosen =
     fold (\<lambda>(i, m). umap_put (qp_session_guid m) (int i)) (enumerate 0 (claim_order chosen)) []"

definition party_cost :: "(guid, int) umap \<Rightarrow> QueuedParty \<Rightarrow> int" where
  "party_cost rank p = sum_list (map (\<lambda>m. umap_get 0 rank (qp_session_guid m)) (pt_members p))"

definition party_max_rank :: "(guid, int) umap \<Rightarrow> QueuedParty \<Rightarrow> int" where
  "party_max_rank rank p = fold (\<lambda>m x. max x (umap_get 0 rank (qp_session_guid m))) (pt_members p) 0"

definition mask_parties :: "QueuedParty list \<Rightarrow> nat \<Rightarrow> QueuedParty list" where
  "mask_parties chosen bm = map (\<lambda>i. chosen ! i) (filter (bit bm) [0 ..< length chosen])"

definition mask_seats :: "QueuedParty list \<Rightarrow> nat \<Rightarrow> int" where
  "mask_seats chosen bm = sum_list (map (\<lambda>p. int (pt_size p)) (mask_parties chosen bm))"

definition mask_cost :: "(guid, int) umap \<Rightarrow> QueuedParty list \<Rightarrow> nat \<Rightarrow> int" where
  "mask_cost rank chosen bm = sum_list (map (party_cost rank) (mask_parties chosen bm))"

definition mask_max :: "(guid, int) umap \<Rightarrow> QueuedParty list \<Rightarrow> nat \<Rightarrow> int" where
  "mask_max rank chosen bm =
     fold (\<lambda>p x. max x (party_max_rank rank p)) (mask_parties chosen bm) 0"

text \<open>The state of the search: cost, worst rank and mask of the best subset so far.\<close>

type_synonym mask_best = "(int \<times> int \<times> nat) option"

definition mask_step ::
  "(guid, int) umap \<Rightarrow> QueuedParty list \<Rightarrow> int \<Rightarrow> nat \<Rightarrow> mask_best \<Rightarrow> mask_best" where
  "mask_step rank chosen tf2_n bm best =
     (if mask_seats chosen bm \<noteq> tf2_n then best
      else let cost = mask_cost rank chosen bm; maxr = mask_max rank chosen bm
        in (case best of
              None \<Rightarrow> Some (cost, maxr, bm)
            | Some (best_cost, best_max, best_mask) \<Rightarrow>
                if cost < best_cost \<or> (cost = best_cost \<and> maxr < best_max)
                then Some (cost, maxr, bm) else best))"

definition best_mask :: "(guid, int) umap \<Rightarrow> QueuedParty list \<Rightarrow> int \<Rightarrow> mask_best" where
  "best_mask rank chosen tf2_n =
     (if length chosen \<le> 20
      then fold (mask_step rank chosen tf2_n) [1 ..< 2 ^ length chosen] None else None)"

definition put_party :: "QueuedParty \<Rightarrow> int \<Rightarrow> sides \<Rightarrow> sides" where
  "put_party p tf out = fold (\<lambda>m. umap_put (qp_session_guid m) tf) (pt_members p) out"

definition place_mask :: "QueuedParty list \<Rightarrow> nat \<Rightarrow> sides" where
  "place_mask chosen bm =
     fold (\<lambda>i. put_party (chosen ! i) (if bit bm i then 2 else 1)) [0 ..< length chosen] []"

definition spill_before :: "(guid, int) umap \<Rightarrow> QueuedParty \<Rightarrow> QueuedParty \<Rightarrow> bool" where
  \<comment> \<open>parties are never empty; for an empty one the quotient is NaN in the code and 0 here\<close>
  "spill_before rank a b =
     (let aa = of_int (party_cost rank a) / (of_nat (pt_size a) :: rat);
          bb = of_int (party_cost rank b) / of_nat (pt_size b)
      in if \<bar>aa - bb\<bar> > 1 / 10 ^ 9 then aa < bb else pt_party_id a < pt_party_id b)"

definition fill_step ::
  "QueuedParty \<Rightarrow> sides \<times> int \<times> QueuedParty list \<Rightarrow> sides \<times> int \<times> QueuedParty list" where
  "fill_step p st =
     (case st of (out, rem2, deferred) \<Rightarrow>
        if int (pt_size p) \<le> rem2 then (put_party p 2 out, rem2 - int (pt_size p), deferred)
        else (out, rem2, deferred @ [p]))"

definition spill_member :: "QueuedPlayer \<Rightarrow> sides \<times> int \<Rightarrow> sides \<times> int" where
  "spill_member m st =
     (case st of (out, rem2) \<Rightarrow>
        if rem2 > 0 then (umap_put (qp_session_guid m) 2 out, rem2 - 1)
        else (umap_put (qp_session_guid m) 1 out, rem2))"

definition spill_members :: "(guid, int) umap \<Rightarrow> QueuedParty \<Rightarrow> QueuedPlayer list" where
  "spill_members rank p =
     stable_sort (\<lambda>a b. umap_get 0 rank (qp_session_guid a) < umap_get 0 rank (qp_session_guid b))
       (pt_members p)"

definition spill_party ::
  "(guid, int) umap \<Rightarrow> QueuedParty \<Rightarrow> sides \<times> int \<Rightarrow> sides \<times> int" where
  "spill_party rank p st = fold spill_member (spill_members rank p) st"

definition fill_and_spill :: "(guid, int) umap \<Rightarrow> QueuedParty list \<Rightarrow> int \<Rightarrow> sides" where
  "fill_and_spill rank chosen tf2_n =
     (case fold fill_step (stable_sort (spill_before rank) chosen) ([], tf2_n, []) of
        (out, rem2, deferred) \<Rightarrow> fst (fold (spill_party rank) deferred (out, rem2)))"

definition RotationAssign :: "QueuedParty list \<Rightarrow> int \<Rightarrow> int \<Rightarrow> sides \<times> bool" where
  \<comment> \<open>\<open>DefenderRotation::Assign\<close>; the flag is \<open>*out_split\<close>\<close>
  "RotationAssign chosen tf1_n tf2_n =
     (if chosen = [] then ([], False)
      else let rank = claim_rank chosen
        in (case best_mask rank chosen tf2_n of
              Some (_, _, bm) \<Rightarrow> (place_mask chosen bm, False)
            | None \<Rightarrow> (fill_and_spill rank chosen tf2_n, True)))"

section \<open>Lookup after placing parties\<close>

lemma put_party_find:
  "map_of (put_party p tf out) g = (if g \<in> set (member_guids p) then Some tf else map_of out g)"
  by (simp add: put_party_def ud.find_fold_put_const [where key = qp_session_guid])

lemma fold_put_party_frame:
  "(\<And>i. i \<in> set is \<Longrightarrow> g \<notin> set (member_guids (c i))) \<Longrightarrow>
   map_of (fold (\<lambda>i. put_party (c i) (tf i)) is out) g = map_of out g"
  by (induction "is" arbitrary: out) (simp_all add: put_party_find)

lemma fold_put_party_find:
  "distinct (party_guids (map c is)) \<Longrightarrow> i \<in> set is \<Longrightarrow> g \<in> set (member_guids (c i)) \<Longrightarrow>
   map_of (fold (\<lambda>i. put_party (c i) (tf i)) is out) g = Some (tf i)"
proof (induction "is" arbitrary: out)
  case (Cons j js)
  show ?case
  proof (cases "g \<in> set (party_guids (map c js))")
    case True
    then have "i \<in> set js" using Cons.prems by auto
    with Cons show ?thesis by simp
  next
    case False
    then have "i = j" using Cons.prems by (auto simp: set_party_guids)
    have "map_of (fold (\<lambda>i. put_party (c i) (tf i)) (j # js) out) g = map_of (put_party (c j) (tf j) out) g"
      using False by (simp add: fold_put_party_frame set_party_guids)
    then show ?thesis using \<open>i = j\<close> Cons.prems(3) by (simp add: put_party_find)
  qed
qed simp

lemma place_mask_find:
  assumes "distinct (party_guids chosen)" "i < length chosen" "g \<in> set (member_guids (chosen ! i))"
  shows "map_of (place_mask chosen bm) g = Some (if bit bm i then 2 else 1)"
  unfolding place_mask_def
  by (rule fold_put_party_find) (use assms in \<open>simp_all add: map_nth\<close>)

section \<open>The search over masks\<close>

definition mask_set :: "nat \<Rightarrow> nat \<Rightarrow> nat set" where
  "mask_set n bm = {i. i < n \<and> bit bm i}"

lemma mask_set_surj:
  assumes "S \<subseteq> {..<n}"
  obtains bm where "bm < 2 ^ n" "mask_set n bm = S"
proof
  have fin: "finite S" using assms finite_subset by blast
  have "set_encode S \<le> (\<Sum>i<n. 2 ^ i)"
    unfolding set_encode_def by (rule sum_mono2) (use assms in auto)
  also have "\<dots> < (2::nat) ^ n" by (induction n) auto
  finally show "set_encode S < 2 ^ n" .
  have "i \<in> S \<longleftrightarrow> bit (set_encode S) i" for i
    using set_encode_inverse [OF fin] unfolding set_decode_def bit_iff_odd by blast
  then show "mask_set n (set_encode S) = S" using assms by (auto simp: mask_set_def)
qed

lemma sum_mask: "sum_list (map f (mask_parties chosen bm)) = (\<Sum>i \<in> mask_set (length chosen) bm. f (chosen ! i))"
proof -
  have "sum_list (map (\<lambda>i. f (chosen ! i)) (filter (bit bm) [0 ..< length chosen]))
      = (\<Sum>i \<in> set (filter (bit bm) [0 ..< length chosen]). f (chosen ! i))"
    by (rule sum_list_distinct_conv_sum_set) simp
  moreover have "set (filter (bit bm) [0 ..< length chosen]) = mask_set (length chosen) bm"
    by (auto simp: mask_set_def)
  ultimately show ?thesis by (simp add: mask_parties_def comp_def)
qed

text \<open>The search returns a fitting mask that no fitting mask seen beats.\<close>

definition mask_beats :: "(guid, int) umap \<Rightarrow> QueuedParty list \<Rightarrow> nat \<Rightarrow> nat \<Rightarrow> bool" where
  "mask_beats rank chosen m m' \<longleftrightarrow>
     mask_cost rank chosen m < mask_cost rank chosen m' \<or>
     (mask_cost rank chosen m = mask_cost rank chosen m' \<and> mask_max rank chosen m < mask_max rank chosen m')"

definition mask_best_ok ::
  "(guid, int) umap \<Rightarrow> QueuedParty list \<Rightarrow> int \<Rightarrow> nat set \<Rightarrow> mask_best \<Rightarrow> bool" where
  "mask_best_ok rank chosen tf2_n M best \<longleftrightarrow>
     (case best of
        None \<Rightarrow> \<forall>m \<in> M. mask_seats chosen m \<noteq> tf2_n
      | Some (c, x, m) \<Rightarrow> m \<in> M \<and> mask_seats chosen m = tf2_n \<and>
          c = mask_cost rank chosen m \<and> x = mask_max rank chosen m \<and>
          (\<forall>m' \<in> M. mask_seats chosen m' = tf2_n \<longrightarrow> \<not> mask_beats rank chosen m' m))"

lemma mask_step_ok:
  assumes "mask_best_ok rank chosen k M best"
  shows "mask_best_ok rank chosen k (insert bm M) (mask_step rank chosen k bm best)"
proof (cases "mask_seats chosen bm = k")
  case False
  then show ?thesis using assms
    by (auto simp: mask_best_ok_def mask_step_def split: option.splits)
next
  case fits: True
  show ?thesis
  proof (cases best)
    case None
    then show ?thesis using assms fits
      by (auto simp: mask_best_ok_def mask_step_def Let_def mask_beats_def)
  next
    case (Some b)
    obtain c x m where b: "b = (c, x, m)" by (metis prod.exhaust)
    have ok: "m \<in> M" "mask_seats chosen m = k" "c = mask_cost rank chosen m" "x = mask_max rank chosen m"
      "\<And>m'. m' \<in> M \<Longrightarrow> mask_seats chosen m' = k \<Longrightarrow> \<not> mask_beats rank chosen m' m"
      using assms by (auto simp: Some b mask_best_ok_def)
    have step: "mask_step rank chosen k bm best =
        (if mask_beats rank chosen bm m
         then Some (mask_cost rank chosen bm, mask_max rank chosen bm, bm) else best)"
      using fits ok(3,4) by (simp add: mask_step_def Some b Let_def mask_beats_def)
    show ?thesis
    proof (cases "mask_beats rank chosen bm m")
      case True
      have "\<not> mask_beats rank chosen m' bm" if "m' \<in> M" "mask_seats chosen m' = k" for m'
        using ok(5) [OF that] True unfolding mask_beats_def by linarith
      moreover have res: "mask_step rank chosen k bm best
          = Some (mask_cost rank chosen bm, mask_max rank chosen bm, bm)"
        using True by (simp only: step if_True)
      ultimately show ?thesis unfolding res using fits by (auto simp: mask_best_ok_def mask_beats_def)
    next
      case False
      then have res: "mask_step rank chosen k bm best = Some (c, x, m)" by (metis step Some b)
      show ?thesis unfolding res using ok fits False by (auto simp: mask_best_ok_def)
    qed
  qed
qed

lemma fold_mask_step_ok:
  "mask_best_ok rank chosen k M best \<Longrightarrow>
   mask_best_ok rank chosen k (M \<union> set ms) (fold (mask_step rank chosen k) ms best)"
proof (induction ms arbitrary: M best)
  case (Cons m ms)
  from Cons.IH [OF mask_step_ok [OF Cons.prems, of m]] show ?case by simp
qed simp

lemma best_mask_ok:
  assumes "length chosen \<le> 20"
  shows "mask_best_ok rank chosen k {1 ..< 2 ^ length chosen} (best_mask rank chosen k)"
  using fold_mask_step_ok [of rank chosen k "{}" None "[1 ..< 2 ^ length chosen]"] assms
  by (simp add: best_mask_def mask_best_ok_def)

lemma best_mask_SomeD:
  assumes "best_mask rank chosen k = Some (c, x, m)"
  shows "mask_seats chosen m = k" "m < 2 ^ length chosen" "m > 0"
    "\<And>m'. 0 < m' \<Longrightarrow> m' < 2 ^ length chosen \<Longrightarrow> mask_seats chosen m' = k \<Longrightarrow>
      mask_cost rank chosen m \<le> mask_cost rank chosen m'"
proof -
  have "length chosen \<le> 20" using assms by (auto simp: best_mask_def split: if_splits)
  from best_mask_ok [OF this, of rank k] assms
  have *: "mask_best_ok rank chosen k {1 ..< 2 ^ length chosen} (Some (c, x, m))" by simp
  show "mask_seats chosen m = k" "m < 2 ^ length chosen" "m > 0"
    using * by (auto simp: mask_best_ok_def)
  show "mask_cost rank chosen m \<le> mask_cost rank chosen m'"
    if "0 < m'" "m' < 2 ^ length chosen" "mask_seats chosen m' = k" for m'
  proof -
    have "\<not> mask_beats rank chosen m' m" using * that by (auto simp: mask_best_ok_def)
    then show ?thesis by (simp add: mask_beats_def)
  qed
qed

section \<open>The fallback\<close>

text \<open>Which parties the fill phase takes and defers, and the seats it leaves.\<close>

fun fill_sel :: "QueuedParty list \<Rightarrow> int \<Rightarrow> QueuedParty list \<times> QueuedParty list \<times> int" where
  "fill_sel [] r = ([], [], r)"
| "fill_sel (p # ps) r =
     (if int (pt_size p) \<le> r
      then (case fill_sel ps (r - int (pt_size p)) of (t, d, r') \<Rightarrow> (p # t, d, r'))
      else (case fill_sel ps r of (t, d, r') \<Rightarrow> (t, p # d, r')))"

lemma fold_fill_step:
  "fill_sel ps r = (t, d, r') \<Longrightarrow>
   fold fill_step ps (out, r, ds) = (fold (\<lambda>p. put_party p 2) t out, r', ds @ d)"
  by (induction ps arbitrary: r t d out ds) (auto simp: fill_step_def split: if_splits prod.splits)

lemma fill_sel_props:
  assumes "fill_sel ps r = (t, d, r')"
  shows "mset ps = mset t + mset d"
    and "r' = r - int (length (party_guids t))"
    and "0 \<le> r \<Longrightarrow> 0 \<le> r'"
    and "\<forall>p \<in> set d. r' < int (pt_size p)"
proof -
  have "mset ps = mset t + mset d \<and> r' = r - int (length (party_guids t)) \<and> (0 \<le> r \<longrightarrow> 0 \<le> r')
     \<and> r' \<le> r \<and> (\<forall>p \<in> set d. r' < int (pt_size p))"
    using assms
  proof (induction ps arbitrary: r t d r')
    case (Cons p ps)
    show ?case
    proof (cases "int (pt_size p) \<le> r")
      case True
      then obtain t1 where "fill_sel ps (r - int (pt_size p)) = (t1, d, r')" "t = p # t1"
        using Cons.prems by (auto split: prod.splits)
      with Cons.IH [of "r - int (pt_size p)" t1 d r'] True show ?thesis by (auto simp: pt_size_def)
    next
      case False
      then obtain d1 where "fill_sel ps r = (t, d1, r')" "d = p # d1"
        using Cons.prems by (auto split: prod.splits)
      with Cons.IH [of r t d1 r'] False show ?thesis by auto
    qed
  qed simp
  then show "mset ps = mset t + mset d" "r' = r - int (length (party_guids t))" "0 \<le> r \<Longrightarrow> 0 \<le> r'"
    "\<forall>p \<in> set d. r' < int (pt_size p)" by auto
qed

text \<open>The spill phase hands the remaining seats to the first members in its order.\<close>

definition spill_queue :: "(guid, int) umap \<Rightarrow> QueuedParty list \<Rightarrow> guid list" where
  "spill_queue rank d = map qp_session_guid (concat (map (spill_members rank) d))"

lemma fold_spill_party:
  "fold (spill_party rank) d st = fold spill_member (concat (map (spill_members rank) d)) st"
  by (induction d arbitrary: st) (simp_all add: spill_party_def)

lemma spill_member_eq:
  "spill_member m (out, r) =
     (umap_put (qp_session_guid m) (if 0 < r then 2 else 1) out, if 0 < r then r - 1 else r)"
  by (simp add: spill_member_def)

lemma fold_spill_member_frame:
  "g \<notin> qp_session_guid ` set ms \<Longrightarrow> map_of (fst (fold spill_member ms st)) g = map_of (fst st) g"
  by (induction ms arbitrary: st) (auto simp: spill_member_def split: prod.splits)

lemma fold_spill_member_find:
  "distinct (map qp_session_guid ms) \<Longrightarrow> 0 \<le> r \<Longrightarrow> i < length ms \<Longrightarrow>
   map_of (fst (fold spill_member ms (out, r))) (qp_session_guid (ms ! i)) = Some (if int i < r then 2 else 1)"
proof (induction ms arbitrary: out r i)
  case (Cons m ms)
  show ?case
  proof (cases i)
    case 0
    then show ?thesis
      using Cons.prems fold_spill_member_frame [of "qp_session_guid m" ms "spill_member m (out, r)"]
      by (simp add: spill_member_eq)
  next
    case (Suc j)
    show ?thesis
    proof (cases "r > 0")
      case True
      then show ?thesis
        using Cons.IH [of "r - 1" j "umap_put (qp_session_guid m) 2 out"] Cons.prems Suc
        by (auto simp: spill_member_eq)
    next
      case False
      then show ?thesis
        using Cons.IH [of r j "umap_put (qp_session_guid m) 1 out"] Cons.prems Suc
        by (auto simp: spill_member_eq)
    qed
  qed
qed simp

lemma spill_queue_mset: "mset (spill_queue rank d) = mset (party_guids d)"
  by (induction d) (simp_all add: spill_queue_def spill_members_def)

lemma spill_queue_nth:
  "i < length (spill_queue rank d) \<Longrightarrow> distinct (party_guids d) \<Longrightarrow> 0 \<le> r \<Longrightarrow>
   map_of (fst (fold (spill_party rank) d (out, r))) (spill_queue rank d ! i) = Some (if int i < r then 2 else 1)"
proof -
  assume i: "i < length (spill_queue rank d)" and "distinct (party_guids d)" and r: "0 \<le> r"
  then have "distinct (spill_queue rank d)"
    using spill_queue_mset [of rank d] mset_eq_imp_distinct_iff by blast
  then show ?thesis
    unfolding fold_spill_party spill_queue_def
    using fold_spill_member_find [of "concat (map (spill_members rank) d)" r i out] i r
    by (simp only: spill_queue_def length_map nth_map)
qed

lemma spill_find:
  assumes "distinct (party_guids d)" "0 \<le> r" "g \<in> set (party_guids d)"
  shows "\<exists>i < length (spill_queue rank d). spill_queue rank d ! i = g \<and>
    map_of (fst (fold (spill_party rank) d (out, r))) g = Some (if int i < r then 2 else 1)"
proof -
  have "g \<in> set (spill_queue rank d)" using assms(3) spill_queue_mset by (metis mset_eq_setD)
  then obtain i where "i < length (spill_queue rank d)" "spill_queue rank d ! i = g"
    by (auto simp: in_set_conv_nth)
  then show ?thesis using spill_queue_nth [OF _ assms(1,2)] by auto
qed

lemma count_take:
  "(\<And>i. i < length gs \<Longrightarrow> map_of out (gs ! i) = Some (if int i < r then 2 else (1::int))) \<Longrightarrow>
   0 \<le> r \<Longrightarrow> r \<le> int (length gs) \<Longrightarrow> int (side_count out gs 2) = r"
proof -
  assume find: "\<And>i. i < length gs \<Longrightarrow> map_of out (gs ! i) = Some (if int i < r then 2 else (1::int))"
    and r: "0 \<le> r" "r \<le> int (length gs)"
  have "side_count out (take (nat r) gs) 2 = nat r"
    by (subst side_count_all [where t = 2]) (use find r in \<open>auto simp: in_set_conv_nth\<close>)
  moreover have "side_count out (drop (nat r) gs) 2 = 0"
    by (subst side_count_all [where t = 1]) (use find r in \<open>auto simp: in_set_conv_nth\<close>)
  moreover have "side_count out gs 2 = side_count out (take (nat r) gs) 2 + side_count out (drop (nat r) gs) 2"
    by (metis append_take_drop_id side_count_append)
  ultimately show "int (side_count out gs 2) = r" using r by simp
qed

text \<open>A party is whole on a side when all its members are there.\<close>

definition whole_on :: "sides \<Rightarrow> int \<Rightarrow> QueuedParty \<Rightarrow> bool" where
  "whole_on out tf p \<longleftrightarrow> (\<forall>g \<in> set (member_guids p). map_of out g = Some tf)"

lemma fill_and_spill_props:
  assumes dist: "distinct (party_guids chosen)" and k: "0 \<le> k"
    and out: "out = fill_and_spill rank chosen k"
  shows "g \<in> set (party_guids chosen) \<Longrightarrow> map_of out g = Some 1 \<or> map_of out g = Some 2"
    and "k \<le> int (length (party_guids chosen)) \<Longrightarrow> int (side_count out (party_guids chosen) 2) = k"
    and "\<exists>p0. \<forall>p \<in> set chosen. p \<noteq> p0 \<longrightarrow> whole_on out 1 p \<or> whole_on out 2 p"
proof -
  obtain t d r where sel: "fill_sel (stable_sort (spill_before rank) chosen) k = (t, d, r)"
    by (metis prod.exhaust)
  define o1 :: sides where "o1 = fold (\<lambda>p. put_party p 2) t []"
  have out': "out = fst (fold (spill_party rank) d (o1, r))"
    using fold_fill_step [OF sel, of "[]" "[]"] by (simp add: out fill_and_spill_def o1_def)
  note props = fill_sel_props [OF sel]
  have r0: "0 \<le> r" using props(3) k by simp
  have mset: "mset chosen = mset (t @ d)" using props(1) by simp
  then have dtd: "distinct (party_guids (t @ d))" using dist distinct_party_guids_mset by metis
  then have dt: "distinct (party_guids t)" and dd: "distinct (party_guids d)"
    and disj: "set (party_guids t) \<inter> set (party_guids d) = {}" by simp_all
  have find_t: "map_of out g = Some 2" if gt: "g \<in> set (party_guids t)" for g
  proof -
    have "g \<notin> set (party_guids d)" using gt disj by blast
    then have "g \<notin> set (spill_queue rank d)" using spill_queue_mset by (metis mset_eq_setD)
    then have "map_of out g = map_of o1 g"
      by (simp add: out' fold_spill_party fold_spill_member_frame spill_queue_def)
    moreover obtain p where "p \<in> set t" "g \<in> set (member_guids p)"
      using gt unfolding set_party_guids by blast
    ultimately show ?thesis
      using fold_put_party_find [of "\<lambda>p. p" t p g "\<lambda>_. 2" "[]"] dt by (simp add: o1_def)
  qed
  have find_d: "\<exists>i < length (spill_queue rank d). spill_queue rank d ! i = g \<and>
      map_of out g = Some (if int i < r then 2 else 1)" if "g \<in> set (party_guids d)" for g
    unfolding out' by (rule spill_find [OF dd r0 that])
  have split: "set (party_guids chosen) = set (party_guids t) \<union> set (party_guids d)"
    using mset_party_guids [OF mset] by (metis mset_eq_setD party_guids_append set_append)
  show "map_of out g = Some 1 \<or> map_of out g = Some 2" if "g \<in> set (party_guids chosen)"
    using that find_t find_d unfolding split by (metis UnE)
  show "int (side_count out (party_guids chosen) 2) = k" if "k \<le> int (length (party_guids chosen))"
  proof -
    have "length (party_guids chosen) = length (party_guids t) + length (party_guids d)"
      using mset_party_guids [OF mset] by (metis mset_eq_length party_guids_append length_append)
    then have "r \<le> int (length (spill_queue rank d))"
      using that props(2) spill_queue_mset [of rank d] by (metis add_diff_cancel_left' diff_right_mono mset_eq_length of_nat_add)
    then have "int (side_count out (spill_queue rank d) 2) = r"
      unfolding out' by (intro count_take spill_queue_nth [OF _ dd r0]) (use r0 in auto)
    then have "int (side_count out (party_guids d) 2) = r"
      using side_count_mset [OF spill_queue_mset [of rank d]] by metis
    moreover have "side_count out (party_guids t) 2 = length (party_guids t)"
      using side_count_all [of "party_guids t" out 2 2] find_t by simp
    moreover have "side_count out (party_guids chosen) 2
        = side_count out (party_guids t) 2 + side_count out (party_guids d) 2"
      using side_count_mset [OF mset_party_guids [OF mset]] by simp
    ultimately show ?thesis using props(2) by simp
  qed
  have rest: "whole_on out 1 p" if d: "d = p0 # ds" and p: "p \<in> set ds" for p0 ds p
  proof -
    have "map_of out g = Some 1" if g: "g \<in> set (member_guids p)" for g
    proof -
      have gd: "g \<in> set (party_guids ds)" using g p by (auto simp: set_party_guids)
      obtain i where i: "spill_queue rank d ! i = g" "map_of out g = Some (if int i < r then 2 else 1)"
        using find_d [of g] gd d by auto
      have q: "spill_queue rank d = spill_queue rank [p0] @ spill_queue rank ds"
        by (simp add: d spill_queue_def)
      have len: "length (spill_queue rank [p0]) = pt_size p0"
        by (simp add: spill_queue_def spill_members_def pt_size_def)
      have "\<not> int i < r"
      proof
        assume "int i < r"
        then have "i < length (spill_queue rank [p0])" using props(4) d len by auto
        then have "g \<in> set (spill_queue rank [p0])" using i(1) q by (auto simp: nth_append)
        then have "g \<in> set (member_guids p0)" by (simp add: spill_queue_def spill_members_def)
        then show False using gd dd d by auto
      qed
      then show ?thesis using i(2) by simp
    qed
    then show ?thesis by (simp add: whole_on_def)
  qed
  have "whole_on out 1 p \<or> whole_on out 2 p" if "p \<in> set chosen" "p \<noteq> hd d" for p
  proof -
    have "p \<in> set t \<or> p \<in> set d" using that(1) mset by (metis mset_eq_setD UnE set_append)
    then show ?thesis
    proof
      assume "p \<in> set t"
      then show ?thesis using find_t by (auto simp: whole_on_def set_party_guids)
    next
      assume "p \<in> set d"
      then show ?thesis using rest that(2) by (cases d) auto
    qed
  qed
  then show "\<exists>p0. \<forall>p \<in> set chosen. p \<noteq> p0 \<longrightarrow> whole_on out 1 p \<or> whole_on out 2 p" by blast
qed

section \<open>The claim order\<close>

text \<open>
  The tolerance of \<open>1e-9\<close> in \<open>StrongerClaim\<close> never merges two different defender shares of
  players with fewer than 30000 matches, so on those players the comparison is a strict
  weak order, as \<open>std::sort\<close> requires.
\<close>

definition short_history :: "QueuedPlayer \<Rightarrow> bool" where
  "short_history m \<longleftrightarrow> unat (fs_played_count (qp_fairness m)) < 30000"

lemma defender_ratio_frac:
  assumes "short_history m"
  obtains a :: int and b :: nat where "0 < b" "b < 30000" "defender_ratio (qp_fairness m) = of_int a / of_nat b"
proof (cases "fs_played_count (qp_fairness m) = 0")
  case True
  then show ?thesis using that [of 1 0] by (simp add: defender_ratio_def)
next
  case False
  then have "0 < unat (fs_played_count (qp_fairness m))" by (simp add: unat_gt_0)
  moreover have "defender_ratio (qp_fairness m)
      = of_int (int (unat (fs_defender_count (qp_fairness m)))) / of_nat (unat (fs_played_count (qp_fairness m)))"
    using False unfolding defender_ratio_def u32_ratio_def of_int_of_nat_eq by simp
  ultimately show ?thesis using that assms unfolding short_history_def by blast
qed

lemma defender_ratio_gap:
  assumes "short_history a" "short_history b"
  shows "1 / 10 ^ 9 < \<bar>defender_ratio (qp_fairness a) - defender_ratio (qp_fairness b)\<bar>
     \<longleftrightarrow> defender_ratio (qp_fairness a) \<noteq> defender_ratio (qp_fairness b)"
proof -
  obtain p q where 1: "0 < q" "q < 30000" "defender_ratio (qp_fairness a) = of_int p / of_nat q"
    using defender_ratio_frac [OF assms(1)] .
  obtain r s where 2: "0 < s" "s < 30000" "defender_ratio (qp_fairness b) = of_int r / of_nat s"
    using defender_ratio_frac [OF assms(2)] .
  show ?thesis using frac_gap [OF 1(1) 2(1) 1(2) 2(2), of p r] by (auto simp: 1(3) 2(3))
qed

definition claim_key :: "QueuedPlayer \<Rightarrow> int \<times> rat \<times> int" where
  "claim_key m = (fs_last_defender_id (qp_fairness m), defender_ratio (qp_fairness m), qp_joined_at m)"

lemma StrongerClaim_short:
  assumes "short_history a" "short_history b"
  shows "StrongerClaim a b \<longleftrightarrow>
    (let (da, ra, ja) = claim_key a; (db, rb, jb) = claim_key b
     in da < db \<or> (da = db \<and> (ra < rb \<or> (ra = rb \<and>
        (ja < jb \<or> (ja = jb \<and> qp_session_guid a < qp_session_guid b))))))"
  using defender_ratio_gap [OF assms] by (auto simp: StrongerClaim_def claim_key_def Let_def)

interpretation claim: strict_weak_order StrongerClaim "{m. short_history m}"
proof
  fix x y assume "x \<in> {m. short_history m}" "y \<in> {m. short_history m}" "StrongerClaim x y"
  then show "\<not> StrongerClaim y x" by (auto simp: StrongerClaim_short Let_def split: prod.splits)
next
  fix x y z assume "x \<in> {m. short_history m}" "y \<in> {m. short_history m}" "z \<in> {m. short_history m}"
    and "StrongerClaim x z"
  then show "StrongerClaim x y \<or> StrongerClaim y z"
    by (auto simp: StrongerClaim_short Let_def split: prod.splits)
qed

lemma mset_claim_order: "mset (map qp_session_guid (claim_order chosen)) = mset (party_guids chosen)"
  by (simp add: claim_order_def party_guids_Flatten FlattenParties_def)

lemma claim_rank_nth:
  assumes "distinct (party_guids chosen)" "i < length (claim_order chosen)"
  shows "map_of (claim_rank chosen) (qp_session_guid (claim_order chosen ! i)) = Some (int i)"
proof -
  have eq: "fold (\<lambda>(i, m). umap_put (qp_session_guid m) (int i)) xs m0
      = fold (\<lambda>e. umap_put (qp_session_guid (snd e)) (int (fst e))) xs m0"
    for xs :: "(nat \<times> QueuedPlayer) list" and m0
    by (induction xs arbitrary: m0) auto
  have d: "distinct (map (\<lambda>e. qp_session_guid (snd e)) (enumerate 0 (claim_order chosen)))"
    using assms(1) mset_claim_order [of chosen] mset_eq_imp_distinct_iff
    by (metis (no_types, lifting) list.map_comp comp_def map_eq_conv map_snd_enumerate)
  have "(i, claim_order chosen ! i) \<in> set (enumerate 0 (claim_order chosen))"
    using assms(2) by (simp add: in_set_enumerate_eq)
  then show ?thesis
    unfolding claim_rank_def eq
    using ud.find_fold_put_distinct [OF d, of "(i, claim_order chosen ! i)" "\<lambda>e. int (fst e)" "[]"] by simp
qed

text \<open>The search answer in terms of sets of party indices.\<close>

definition set_seats :: "QueuedParty list \<Rightarrow> nat set \<Rightarrow> int" where
  "set_seats chosen S = (\<Sum>i \<in> S. int (pt_size (chosen ! i)))"

definition set_claim :: "QueuedParty list \<Rightarrow> nat set \<Rightarrow> int" where
  "set_claim chosen S = (\<Sum>i \<in> S. party_cost (claim_rank chosen) (chosen ! i))"

definition fits :: "QueuedParty list \<Rightarrow> int \<Rightarrow> nat set \<Rightarrow> bool" where
  "fits chosen k S \<longleftrightarrow> S \<noteq> {} \<and> S \<subseteq> {..<length chosen} \<and> set_seats chosen S = k"

lemma fits_mask:
  assumes "fits chosen k S"
  obtains m where "0 < m" "m < 2 ^ length chosen" "mask_set (length chosen) m = S" "mask_seats chosen m = k"
proof -
  obtain m where m: "m < 2 ^ length chosen" "mask_set (length chosen) m = S"
    using mask_set_surj assms by (metis fits_def)
  have "m \<noteq> 0" using m(2) assms by (auto simp: fits_def mask_set_def)
  then show ?thesis using that m assms by (simp add: mask_seats_def sum_mask fits_def set_seats_def)
qed

lemma RotationAssign_found:
  assumes "RotationAssign chosen n1 k = (out, False)" "chosen \<noteq> []"
  obtains m where "out = place_mask chosen m" "mask_seats chosen m = k"
    "\<And>S. fits chosen k S \<Longrightarrow> mask_cost (claim_rank chosen) chosen m \<le> set_claim chosen S"
proof -
  obtain c x m where b: "best_mask (claim_rank chosen) chosen k = Some (c, x, m)" "out = place_mask chosen m"
    using assms by (auto simp: RotationAssign_def Let_def split: option.splits prod.splits)
  have "mask_cost (claim_rank chosen) chosen m \<le> set_claim chosen S" if S: "fits chosen k S" for S
  proof -
    obtain m' where m': "0 < m'" "m' < 2 ^ length chosen" "mask_set (length chosen) m' = S" "mask_seats chosen m' = k"
      using fits_mask [OF S] .
    have "mask_cost (claim_rank chosen) chosen m' = set_claim chosen S"
      by (simp add: mask_cost_def sum_mask m'(3) set_claim_def)
    then show ?thesis using best_mask_SomeD(4) [OF b(1) m'(1,2,4)] by simp
  qed
  then show ?thesis using that b best_mask_SomeD(1) [OF b(1)] by blast
qed

lemma RotationAssign_split:
  assumes "RotationAssign chosen n1 k = (out, True)"
  shows "out = fill_and_spill (claim_rank chosen) chosen k" "chosen \<noteq> []"
  using assms by (auto simp: RotationAssign_def Let_def split: option.splits if_splits)

lemma place_mask_whole:
  assumes "distinct (party_guids chosen)" "i < length chosen"
  shows "whole_on (place_mask chosen m) (if bit m i then 2 else 1) (chosen ! i)"
  using place_mask_find [OF assms] by (auto simp: whole_on_def)

lemma defenders_mask:
  assumes "distinct (party_guids chosen)" "\<forall>p \<in> set chosen. pt_members p \<noteq> []"
  shows "{i. i < length chosen \<and> whole_on (place_mask chosen m) 2 (chosen ! i)} = mask_set (length chosen) m"
proof -
  have "whole_on (place_mask chosen m) 2 (chosen ! i) \<longleftrightarrow> bit m i" if "i < length chosen" for i
    using place_mask_whole [OF assms(1) that, of m] assms(2) that
    by (cases "pt_members (chosen ! i)") (auto simp: whole_on_def split: if_splits)
  then show ?thesis by (auto simp: mask_set_def)
qed

lemma place_mask_count:
  assumes "distinct (party_guids chosen)"
  shows "int (side_count (place_mask chosen m) (party_guids chosen) 2) = mask_seats chosen m"
proof -
  have cnt: "int (side_count out (party_guids ps) 2) = sum_list (map (\<lambda>p. int (side_count out (member_guids p) 2)) ps)"
    for out :: sides and ps
    by (induction ps) simp_all
  have one: "int (side_count (place_mask chosen m) (member_guids (chosen ! i)) 2)
      = (if bit m i then int (pt_size (chosen ! i)) else 0)" if "i < length chosen" for i
    by (subst side_count_all [where t = "if bit m i then 2 else 1"])
      (use place_mask_find [OF assms that] in \<open>auto simp: pt_size_def\<close>)
  have "int (side_count (place_mask chosen m) (party_guids chosen) 2)
      = (\<Sum>i < length chosen. if bit m i then int (pt_size (chosen ! i)) else 0)"
    unfolding cnt sum_list_sum_nth by (simp add: one lessThan_atLeast0)
  also have "\<dots> = (\<Sum>i \<in> mask_set (length chosen) m. int (pt_size (chosen ! i)))"
    unfolding mask_set_def by (subst sum.inter_filter [symmetric]) (auto intro: sum.cong)
  finally show ?thesis by (simp add: mask_seats_def sum_mask)
qed

section \<open>Properties\<close>

definition ex_solo :: "guid \<Rightarrow> int \<Rightarrow> int \<Rightarrow> QueuedPlayer" where
  "ex_solo g def_id joined = \<lparr>qp_session_guid = g, qp_profile_id = 680, qp_user_id = 1, qp_mmr = 1500,
     qp_solo_lock = False, qp_fairness = fresh_FairnessStats\<lparr>fs_last_defender_id := def_id\<rparr>,
     qp_installed_dlcs = [], qp_joined_at = joined, qp_difficulty_override = ds_zero\<rparr>"

definition ex_party :: "u64 \<Rightarrow> QueuedPlayer list \<Rightarrow> QueuedParty" where
  "ex_party pid ms = \<lparr>pt_party_id = pid, pt_is_team = False,
     pt_leader_guid = (case ms of [] \<Rightarrow> [] | m # _ \<Rightarrow> qp_session_guid m),
     pt_members = ms, pt_joined_at = 0, pt_difficulty_override = ds_zero\<rparr>"

definition ex_lobby :: "QueuedParty list" where
  "ex_lobby = [ex_party 1 [ex_solo ''a'' 7 0], ex_party 2 [ex_solo ''b'' 0 5], ex_party 3 [ex_solo ''c'' 3 1]]"

lemma ex_lobby_guids: "party_guids ex_lobby = [''a'', ''b'', ''c'']"
  by (simp add: ex_lobby_def ex_party_def ex_solo_def)

lemma ex_lobby_assign: "RotationAssign ex_lobby 2 1 = ([(''a'', 1), (''b'', 2), (''c'', 1)], False)"
  by code_simp

lemma RotationAssign_exact:
  assumes "distinct (party_guids chosen)" "chosen \<noteq> []" "0 \<le> k" "k \<le> int (length (party_guids chosen))"
    and "RotationAssign chosen n1 k = (out, split)"
  shows "(\<forall>g \<in> set (party_guids chosen). map_of out g = Some 1 \<or> map_of out g = Some 2) \<and>
    int (side_count out (party_guids chosen) 2) = k"
proof (cases split)
  case True
  then have "out = fill_and_spill (claim_rank chosen) chosen k" using RotationAssign_split(1) [of chosen n1 k out] assms(5) by simp
  from fill_and_spill_props(1,2) [OF assms(1,3) this] assms(4) show ?thesis by blast
next
  case False
  then obtain m where "out = place_mask chosen m" "mask_seats chosen m = k"
    using RotationAssign_found assms(2,5) by metis
  moreover have "map_of (place_mask chosen m) g = Some 1 \<or> map_of (place_mask chosen m) g = Some 2"
    if g: "g \<in> set (party_guids chosen)" for g
  proof -
    obtain i where "i < length chosen" "g \<in> set (member_guids (chosen ! i))"
      using g unfolding set_party_guids by (metis UN_E in_set_conv_nth)
    then show ?thesis using place_mask_find [OF assms(1)] by auto
  qed
  ultimately show ?thesis using place_mask_count [OF assms(1)] by auto
qed

text \<open>
  C33. The defender side is filled exactly: for any lobby that can fill it, every member gets
  one of the two sides and exactly \<open>tf2_n\<close> of them defend, in the exact branch and in the
  spill branch.
\<close>

theorem rotation_exact_defenders:
  assumes "distinct (party_guids chosen)" "chosen \<noteq> []" "0 \<le> k" "k \<le> int (length (party_guids chosen))"
    and "RotationAssign chosen n1 k = (out, split)"
  shows "(\<forall>g \<in> set (party_guids chosen). map_of out g = Some 1 \<or> map_of out g = Some 2) \<and>
    int (side_count out (party_guids chosen) 2) = k"
  by (rule RotationAssign_exact [OF assms])

theorem rotation_exact_defenders_witness:
  "sided (fst (RotationAssign ex_lobby 2 1)) ''a'' \<and>
   int (side_count (fst (RotationAssign ex_lobby 2 1)) (party_guids ex_lobby) 2) = 1"
  using rotation_exact_defenders [of ex_lobby 1 2 "fst (RotationAssign ex_lobby 2 1)" False]
  by (simp add: ex_lobby_guids ex_lobby_assign sided_def)

lemma RotationAssign_cohesion:
  assumes "distinct (party_guids chosen)" "0 \<le> k" "RotationAssign chosen n1 k = (out, split)"
  shows "(\<exists>p0. \<forall>p \<in> set chosen. split \<and> p = p0 \<or> whole_on out 1 p \<or> whole_on out 2 p) \<and>
    (length chosen \<le> 20 \<and> split \<longrightarrow> \<not> (\<exists>S. fits chosen k S))"
proof (intro conjI impI)
  show "\<exists>p0. \<forall>p \<in> set chosen. split \<and> p = p0 \<or> whole_on out 1 p \<or> whole_on out 2 p"
  proof (cases split)
    case True
    then have "out = fill_and_spill (claim_rank chosen) chosen k" using RotationAssign_split(1) [of chosen n1 k out] assms(3) by simp
    from fill_and_spill_props(3) [OF assms(1,2) this] True show ?thesis by metis
  next
    case False
    show ?thesis
    proof (cases "chosen = []")
      case ne: False
      obtain m where "out = place_mask chosen m" using RotationAssign_found assms(3) False ne by metis
      then have "whole_on out 1 p \<or> whole_on out 2 p" if "p \<in> set chosen" for p
        using place_mask_whole [OF assms(1), of _ m] that by (metis in_set_conv_nth)
      then show ?thesis by blast
    qed simp
  qed
next
  assume "length chosen \<le> 20 \<and> split"
  then have len: "length chosen \<le> 20" and split by simp_all
  then have "best_mask (claim_rank chosen) chosen k = None"
    using assms(3) by (auto simp: RotationAssign_def Let_def split: if_splits option.splits)
  then have none: "mask_seats chosen m \<noteq> k" if "0 < m" "m < 2 ^ length chosen" for m
    using best_mask_ok [OF len, of "claim_rank chosen" k] that by (auto simp: mask_best_ok_def)
  show "\<not> (\<exists>S. fits chosen k S)" using fits_mask none by metis
qed

text \<open>
  Parties stay together: at most one party of the lobby is ever divided between
  attackers and defenders, none is when the flag says so, and, for the at most 20 parties
  the search covers, the flag is raised only if no set of parties fills the defender seats
  exactly.
\<close>

theorem rotation_cohesion:
  assumes "distinct (party_guids chosen)" "0 \<le> k" "RotationAssign chosen n1 k = (out, split)"
  shows "(\<exists>p0. \<forall>p \<in> set chosen. split \<and> p = p0 \<or> whole_on out 1 p \<or> whole_on out 2 p) \<and>
    (length chosen \<le> 20 \<and> split \<longrightarrow> \<not> (\<exists>S. fits chosen k S))"
  by (rule RotationAssign_cohesion [OF assms])

theorem rotation_cohesion_witness:
  "whole_on (fst (RotationAssign ex_lobby 2 1)) 1 (hd ex_lobby) \<or>
   whole_on (fst (RotationAssign ex_lobby 2 1)) 2 (hd ex_lobby)"
  using rotation_cohesion [of ex_lobby 1 2 "fst (RotationAssign ex_lobby 2 1)" False]
  by (simp add: ex_lobby_guids ex_lobby_assign) (simp add: ex_lobby_def)

text \<open>
  When the parties fit, the choice is the best one: no other set of parties that fills
  the defender seats exactly has a smaller sum of claim ranks than the parties that defend.
\<close>

theorem rotation_strongest_claim:
  assumes "distinct (party_guids chosen)" "\<forall>p \<in> set chosen. pt_members p \<noteq> []"
    and "RotationAssign chosen n1 k = (out, False)" "fits chosen k S"
  shows "set_claim chosen {i. i < length chosen \<and> whole_on out 2 (chosen ! i)} \<le> set_claim chosen S"
proof -
  have "chosen \<noteq> []" using assms(4) by (auto simp: fits_def)
  with assms(3) obtain m where "out = place_mask chosen m"
    "mask_cost (claim_rank chosen) chosen m \<le> set_claim chosen S"
    using RotationAssign_found assms(4) by metis
  then show ?thesis
    using defenders_mask [OF assms(1,2)] by (simp add: mask_cost_def sum_mask set_claim_def)
qed

theorem rotation_strongest_claim_witness:
  "set_claim ex_lobby {i. i < length ex_lobby \<and> whole_on (fst (RotationAssign ex_lobby 2 1)) 2 (ex_lobby ! i)}
     \<le> set_claim ex_lobby {2}"
  by (rule rotation_strongest_claim [of _ 2 1])
    (simp_all add: ex_lobby_guids ex_lobby_assign,
      simp_all add: ex_lobby_def ex_party_def fits_def set_seats_def pt_size_def)

lemma solo_exchange:
  assumes dist: "distinct (party_guids chosen)" and solo: "\<forall>p \<in> set chosen. pt_size p = 1"
    and out: "RotationAssign chosen n1 k = (out, False)"
    and a: "a < length chosen" "whole_on out 2 (chosen ! a)" and b: "b < length chosen" "whole_on out 1 (chosen ! b)"
  shows "party_cost (claim_rank chosen) (chosen ! a) \<le> party_cost (claim_rank chosen) (chosen ! b)"
proof -
  let ?n = "length chosen" and ?c = "\<lambda>i. party_cost (claim_rank chosen) (chosen ! i)"
  have "chosen \<noteq> []" using a(1) by auto
  then obtain m where m: "out = place_mask chosen m" "mask_seats chosen m = k"
    "\<And>S. fits chosen k S \<Longrightarrow> mask_cost (claim_rank chosen) chosen m \<le> set_claim chosen S"
    using RotationAssign_found out by metis
  define D where "D = mask_set ?n m"
  have ne: "\<forall>p \<in> set chosen. pt_members p \<noteq> []" using solo by (auto simp: pt_size_def)
  have D: "D = {i. i < ?n \<and> whole_on out 2 (chosen ! i)}"
    using defenders_mask [OF dist ne, of m] m(1) by (simp add: D_def)
  have aD: "a \<in> D" using a by (simp add: D)
  have "chosen ! b \<in> set chosen" using b(1) by simp
  then have "pt_members (chosen ! b) \<noteq> []" using ne by blast
  then have bD: "b \<notin> D" using b(2) by (cases "pt_members (chosen ! b)") (auto simp: D whole_on_def)
  have fin: "finite D" by (simp add: D_def mask_set_def)
  have sub: "D \<subseteq> {..<?n}" by (auto simp: D)
  have size: "set_seats chosen T = int (card T)" if "T \<subseteq> {..<?n}" for T
  proof -
    have "set_seats chosen T = (\<Sum>i \<in> T. 1)"
      unfolding set_seats_def by (rule sum.cong) (use that solo in auto)
    then show ?thesis by simp
  qed
  have "set_seats chosen D = k" using m(2) by (simp add: mask_seats_def sum_mask set_seats_def D_def)
  then have cardD: "int (card D) = k" using size [OF sub] by simp
  let ?S = "insert b (D - {a})"
  have sS: "?S \<subseteq> {..<?n}" using sub b(1) by auto
  have "card ?S = card D" using aD bD fin card_gt_0_iff [of D] by (simp add: card_insert_if card_Diff_singleton) fastforce
  then have "fits chosen k ?S" using size [OF sS] cardD sS by (simp add: fits_def)
  then have "sum ?c D \<le> sum ?c ?S"
    using m(3) by (simp add: mask_cost_def sum_mask set_claim_def D_def)
  moreover have "sum ?c ?S = ?c b + (sum ?c D - ?c a)"
    using aD bD fin by (simp add: sum_diff1)
  ultimately show ?thesis by simp
qed

text \<open>
  In a lobby of solo players nobody defends ahead of a stronger claim: no attacker has a
  stronger claim (defended less recently, smaller defender share, waited longer) than any
  defender.
\<close>

theorem rotation_solo_fair:
  assumes dist: "distinct (party_guids chosen)" and solo: "\<forall>p \<in> set chosen. pt_size p = 1"
    and short: "\<forall>m \<in> set (FlattenParties chosen). short_history m"
    and out: "RotationAssign chosen n1 k = (out, False)"
    and d: "d \<in> set (FlattenParties chosen)" "map_of out (qp_session_guid d) = Some 2"
    and a: "a \<in> set (FlattenParties chosen)" "map_of out (qp_session_guid a) = Some 1"
  shows "\<not> StrongerClaim a d"
proof -
  have party: "\<exists>i < length chosen. pt_members (chosen ! i) = [m]" if "m \<in> set (FlattenParties chosen)" for m
  proof -
    obtain p where "p \<in> set chosen" "m \<in> set (pt_members p)"
      using \<open>m \<in> set (FlattenParties chosen)\<close> by (auto simp: FlattenParties_def)
    then obtain i where "i < length chosen" "m \<in> set (pt_members (chosen ! i))"
      by (metis in_set_conv_nth)
    moreover then have "pt_size (chosen ! i) = 1" using solo by simp
    ultimately show ?thesis by (auto simp: pt_size_def length_Suc_conv)
  qed
  obtain i j where i: "i < length chosen" "pt_members (chosen ! i) = [d]"
    and j: "j < length chosen" "pt_members (chosen ! j) = [a]"
    using party d(1) a(1) by metis
  have "party_cost (claim_rank chosen) (chosen ! i) \<le> party_cost (claim_rank chosen) (chosen ! j)"
    by (rule solo_exchange [OF dist solo out i(1) _ j(1)]) (simp_all add: whole_on_def i j d a)
  then have le: "umap_get 0 (claim_rank chosen) (qp_session_guid d) \<le> umap_get 0 (claim_rank chosen) (qp_session_guid a)"
    by (simp add: party_cost_def i j)
  have set: "set (claim_order chosen) = set (FlattenParties chosen)"
    by (simp add: claim_order_def FlattenParties_def)
  obtain x where x: "x < length (claim_order chosen)" "claim_order chosen ! x = d"
    using d(1) set by (metis in_set_conv_nth)
  obtain y where y: "y < length (claim_order chosen)" "claim_order chosen ! y = a"
    using a(1) set by (metis in_set_conv_nth)
  have "x \<le> y" using le claim_rank_nth [OF dist x(1)] claim_rank_nth [OF dist y(1)] by (simp add: x y umap_get_def)
  moreover have "x \<noteq> y" using d(2) a(2) x(2) y(2) by auto
  moreover have "sorted_wrt (\<lambda>a b. \<not> StrongerClaim b a) (claim_order chosen)"
    unfolding claim_order_def by (rule claim.sorted_stable_sort) (use short in \<open>auto simp: FlattenParties_def\<close>)
  ultimately show ?thesis using sorted_wrt_nth_less [of _ "claim_order chosen" x y] x y by auto
qed

theorem rotation_solo_fair_witness: "\<not> StrongerClaim (ex_solo ''c'' 3 1) (ex_solo ''b'' 0 5)"
  by (rule rotation_solo_fair [of ex_lobby 2 1 "[(''a'', 1), (''b'', 2), (''c'', 1)]"])
    (simp_all add: ex_lobby_guids ex_lobby_assign,
      simp_all add: ex_lobby_def ex_party_def ex_solo_def pt_size_def FlattenParties_def short_history_def
        fresh_FairnessStats_def)

end
