(* ===== verification/StrictBalance.thy ===== *)
theory StrictBalance
  imports MmrSwap
begin

text \<open>
  Strict class-equal matchmaking, \<open>MatchmakingService/StrictBalance.cpp\<close>: the priority
  order that shares the cost of being left out, the choice of a class-even subset, the
  backfill of missing classes in a live instance and the admission of a pair. Parties the
  code identifies by their address are identified by value; two queued parties differ at
  least in their id.
\<close>

section \<open>Definitions\<close>

definition PartyExclusions :: "QueuedParty \<Rightarrow> u32" where
  "PartyExclusions p = fold (\<lambda>m x. max x (fs_exclusion_count (qp_fairness m))) (pt_members p) 0"

definition PartyExclusionRate :: "QueuedParty \<Rightarrow> rat" where
  "PartyExclusionRate p = fold (\<lambda>m x. max x (exclusion_rate (qp_fairness m))) (pt_members p) 0"

definition kLateJoinCostSlack :: rat where "kLateJoinCostSlack = 300"

definition MeanDiff :: "rat \<Rightarrow> int \<Rightarrow> rat \<Rightarrow> int \<Rightarrow> rat" where
  "MeanDiff s1 n1 s2 n2 =
     (if n1 \<le> 0 \<or> n2 \<le> 0 then 0 else \<bar>s1 / of_int n1 - s2 / of_int n2\<bar>)"

definition ClassHeads :: "TeamSeed \<Rightarrow> u32 \<Rightarrow> int" where
  "ClassHeads t cls = umap_get 0 (sd_class_counts t) cls"

definition ClassMmr :: "TeamSeed \<Rightarrow> u32 \<Rightarrow> rat" where
  "ClassMmr t cls = umap_get 0 (sd_class_mmr_sum t) cls"

definition side_classes :: "TeamSeed \<Rightarrow> TeamSeed \<Rightarrow> u32 list" where
  "side_classes a b =
     map fst (sd_class_counts a)
   @ map fst (filter (\<lambda>e. map_of (sd_class_counts a) (fst e) = None) (sd_class_counts b))"

definition SidesBalanceCost :: "TeamSeed \<Rightarrow> TeamSeed \<Rightarrow> rat" where
  "SidesBalanceCost a b =
     (let heads_total = sd_size a + sd_size b;
          class_gap = (if heads_total > 0
            then sum_list (map (\<lambda>cls.
                   of_int (ClassHeads a cls + ClassHeads b cls)
                   * MeanDiff (ClassMmr a cls) (ClassHeads a cls) (ClassMmr b cls) (ClassHeads b cls))
                 (side_classes a b)) / of_int heads_total
            else 0)
      in kClassBalanceWeight * class_gap
         + MeanDiff (sd_mmr_sum a) (sd_size a) (sd_mmr_sum b) (sd_size b))"

definition WithMember :: "TeamSeed \<Rightarrow> u32 \<Rightarrow> rat \<Rightarrow> TeamSeed" where
  "WithMember t cls mmr = t\<lparr>
     sd_size := sd_size t + 1,
     sd_mmr_sum := sd_mmr_sum t + mmr,
     sd_class_counts := umap_mod 0 (\<lambda>n. n + 1) cls (sd_class_counts t),
     sd_class_mmr_sum := umap_mod 0 (\<lambda>x. x + mmr) cls (sd_class_mmr_sum t)\<rparr>"

definition priority_before :: "QueuedParty \<Rightarrow> QueuedParty \<Rightarrow> bool" where
  "priority_before a b =
     (let ea = PartyExclusions a; eb = PartyExclusions b
      in if ea \<noteq> eb then ea > eb
         else let ra = PartyExclusionRate a; rb = PartyExclusionRate b
           in if \<bar>ra - rb\<bar> > 1 / 10 ^ 9 then ra > rb
              else pt_joined_at a < pt_joined_at b)"

definition PartiesByPriority :: "QueuedParty list \<Rightarrow> QueuedParty list" where
  "PartiesByPriority parties = stable_sort priority_before parties"

subsection \<open>A class-even subset\<close>

definition greedy_add :: "int \<Rightarrow> QueuedParty \<Rightarrow> QueuedParty list \<times> int \<Rightarrow> QueuedParty list \<times> int" where
  "greedy_add cap p st =
     (case st of (chosen, used) \<Rightarrow>
        let need = int (pt_size p)
        in if cap > 0 \<and> used + need > cap then st else (chosen @ [p], used + need))"

definition class_counts :: "QueuedParty list \<Rightarrow> (u32, int) umap" where
  "class_counts chosen =
     fold (\<lambda>p c. fold (\<lambda>m. umap_mod 0 (\<lambda>n. n + 1) (qp_profile_id m)) (pt_members p) c) chosen []"

definition odd_class :: "(u32, int) umap \<Rightarrow> u32 option" where
  "odd_class counts =
     fold (\<lambda>(cls, n) acc.
        if n mod 2 = 0 then acc
        else (case acc of None \<Rightarrow> Some cls | Some oc \<Rightarrow> if cls < oc then Some cls else acc))
       counts None"

definition solo_of :: "u32 \<Rightarrow> QueuedParty \<Rightarrow> bool" where
  "solo_of cls p = (case pt_members p of [m] \<Rightarrow> qp_profile_id m = cls | _ \<Rightarrow> False)"

definition has_class :: "u32 \<Rightarrow> QueuedParty \<Rightarrow> bool" where
  "has_class cls p = list_ex (\<lambda>m. qp_profile_id m = cls) (pt_members p)"

definition erase_last :: "('a \<Rightarrow> bool) \<Rightarrow> 'a list \<Rightarrow> 'a list" where
  \<comment> \<open>the scan over \<open>rbegin\<close>, and \<open>erase\<close> of the element found\<close>
  "erase_last P xs = rev (remove_first P (rev xs))"

lemma length_erase_last: "list_ex P xs \<Longrightarrow> length (erase_last P xs) < length xs"
  using length_remove_first_less [of _ "rev xs" P] by (auto simp: erase_last_def list_ex_iff)

function class_repair :: "QueuedParty list \<Rightarrow> QueuedParty list" where
  "class_repair chosen =
     (case odd_class (class_counts chosen) of
        None \<Rightarrow> chosen
      | Some cls \<Rightarrow>
          if list_ex (solo_of cls) chosen then class_repair (erase_last (solo_of cls) chosen)
          else if list_ex (has_class cls) chosen then class_repair (erase_last (has_class cls) chosen)
          else chosen)"
  by pat_completeness auto
termination
  by (relation "measure length") (simp_all add: length_erase_last)

declare class_repair.simps [simp del]

definition SelectClassEqualSubset :: "QueuedParty list \<Rightarrow> int \<Rightarrow> QueuedParty list" where
  "SelectClassEqualSubset parties cap =
     class_repair (fst (fold (greedy_add cap) (PartiesByPriority parties) ([], 0)))"

subsection \<open>Backfill and pair admission\<close>

record Invite =
  in_party :: QueuedParty
  in_tf :: int

record backfill_state =
  bf_out :: "Invite list"
  bf_taken :: "QueuedParty list"
  bf_seats :: int

definition backfill_party ::
  "u32 \<Rightarrow> int \<Rightarrow> QueuedParty \<Rightarrow> int \<times> backfill_state \<Rightarrow> int \<times> backfill_state" where
  "backfill_party cls tf p st =
     (case st of (deficit, s) \<Rightarrow>
        if deficit = 0 \<or> bf_seats s = 0 then st
        else if pt_size p \<noteq> 1 \<or> p \<in> set (bf_taken s) then st
        else if \<not> solo_of cls p then st
        else (deficit - 1,
              \<lparr>bf_out = bf_out s @ [\<lparr>in_party = p, in_tf = tf\<rparr>],
               bf_taken = p # bf_taken s,
               bf_seats = (if bf_seats s > 0 then bf_seats s - 1 else bf_seats s)\<rparr>))"

definition backfill_class ::
  "QueuedParty list \<Rightarrow> RunningInstance \<Rightarrow> u32 \<Rightarrow> backfill_state \<Rightarrow> backfill_state" where
  "backfill_class ordered inst cls s =
     (let c1 = ClassHeads (ri_team1 inst) cls; c2 = ClassHeads (ri_team2 inst) cls;
          tf = (if c1 < c2 then 1 else 2)
      in snd (fold (backfill_party cls tf) ordered (\<bar>c1 - c2\<bar>, s)))"

definition PlanDeficitBackfill :: "QueuedParty list \<Rightarrow> RunningInstance \<Rightarrow> Invite list" where
  "PlanDeficitBackfill parties inst =
     bf_out (fold (backfill_class (PartiesByPriority parties) inst)
       (stable_sort (<) (side_classes (ri_team1 inst) (ri_team2 inst)))
       \<lparr>bf_out = [], bf_taken = [], bf_seats = seats_free inst\<rparr>)"

definition pair_tf :: "RunningInstance \<Rightarrow> QueuedParty \<Rightarrow> QueuedParty \<Rightarrow> (Invite \<times> Invite) option" where
  "pair_tf inst pa pb =
     (case (pt_members pa, pt_members pb) of
        (a # _, b # _) \<Rightarrow>
          if qp_profile_id a \<noteq> qp_profile_id b then None
          else
            let t1 = ri_team1 inst; t2 = ri_team2 inst;
                d1 = SidesBalanceCost (WithMember t1 (qp_profile_id a) (qp_mmr a))
                                      (WithMember t2 (qp_profile_id b) (qp_mmr b));
                d2 = SidesBalanceCost (WithMember t1 (qp_profile_id b) (qp_mmr b))
                                      (WithMember t2 (qp_profile_id a) (qp_mmr a))
            in if min d1 d2 > max (SidesBalanceCost t1 t2) kLateJoinCostSlack + 1 / 10 ^ 9 then None
               else let a_tf = (if d1 \<le> d2 then 1 else 2)
                 in Some (\<lparr>in_party = pa, in_tf = a_tf\<rparr>,
                          \<lparr>in_party = pb, in_tf = (if a_tf = 1 then 2 else 1)\<rparr>)
      | _ \<Rightarrow> None)"

fun first_pair :: "RunningInstance \<Rightarrow> QueuedParty list \<Rightarrow> (Invite \<times> Invite) option" where
  "first_pair inst [] = None"
| "first_pair inst (p # ps) =
     (case find (\<lambda>q. pair_tf inst p q \<noteq> None) ps of
        Some q \<Rightarrow> pair_tf inst p q
      | None \<Rightarrow> first_pair inst ps)"

definition sides_equal :: "TeamSeed \<Rightarrow> TeamSeed \<Rightarrow> bool" where
  "sides_equal a b \<longleftrightarrow> sd_size a = sd_size b \<and>
     length (sd_class_counts a) = length (sd_class_counts b) \<and>
     list_all (\<lambda>e. map_of (sd_class_counts b) (fst e) = Some (snd e)) (sd_class_counts a)"

definition PlanPairJoin :: "QueuedParty list \<Rightarrow> RunningInstance \<Rightarrow> Invite list" where
  "PlanPairJoin parties inst =
     (if \<not> sides_equal (ri_team1 inst) (ri_team2 inst) then []
      else if seats_free inst \<ge> 0 \<and> seats_free inst < 2 then []
      else (case first_pair inst (filter (\<lambda>p. pt_size p = 1) (PartiesByPriority parties)) of
              Some (i, j) \<Rightarrow> [i, j] | None \<Rightarrow> []))"

section \<open>The priority order\<close>

definition brief_party :: "QueuedParty \<Rightarrow> bool" where
  "brief_party p \<longleftrightarrow> (\<forall>m \<in> set (pt_members p).
     unat (fs_lifetime_exclusions (qp_fairness m) + fs_played_count (qp_fairness m)) < 30000)"

lemma exclusion_rate_frac:
  assumes "unat (fs_lifetime_exclusions s + fs_played_count s) < 30000"
  shows "\<exists>(a :: int) (b :: nat). 0 < b \<and> b < 30000 \<and> exclusion_rate s = of_int a / of_nat b"
proof (cases "fs_lifetime_exclusions s + fs_played_count s = 0")
  case True
  then have "exclusion_rate s = of_int 0 / of_nat 1" by (simp add: exclusion_rate_def)
  then show ?thesis by (intro exI [of _ 0] exI [of _ 1]) simp
next
  case False
  then have "0 < unat (fs_lifetime_exclusions s + fs_played_count s)" by (simp add: unat_gt_0)
  moreover have "exclusion_rate s = of_int (int (unat (fs_lifetime_exclusions s)))
      / of_nat (unat (fs_lifetime_exclusions s + fs_played_count s))"
    using False unfolding exclusion_rate_def u32_ratio_def of_int_of_nat_eq Let_def by simp
  ultimately show ?thesis using assms by blast
qed

lemma fold_max_in:
  "fold (\<lambda>m x. max x (f m)) ms (z :: 'k::linorder) = z \<or> (\<exists>m \<in> set ms. fold (\<lambda>m x. max x (f m)) ms z = f m)"
proof (induction ms arbitrary: z)
  case (Cons m ms)
  show ?case using Cons.IH [of "max z (f m)"] by (cases "z \<le> f m") (auto simp: max_def)
qed simp

lemma PartyExclusionRate_frac:
  assumes "brief_party p"
  shows "\<exists>(a :: int) (b :: nat). 0 < b \<and> b < 30000 \<and> PartyExclusionRate p = of_int a / of_nat b"
proof -
  consider "PartyExclusionRate p = of_int 0 / of_nat 1"
    | m where "m \<in> set (pt_members p)" "PartyExclusionRate p = exclusion_rate (qp_fairness m)"
    using fold_max_in [of "\<lambda>m. exclusion_rate (qp_fairness m)" "pt_members p" 0]
    by (auto simp: PartyExclusionRate_def)
  then show ?thesis
  proof cases
    case 1
    then show ?thesis by (intro exI [of _ 0] exI [of _ 1]) simp
  next
    case 2
    then show ?thesis using exclusion_rate_frac assms by (simp add: brief_party_def)
  qed
qed

lemma PartyExclusionRate_gap:
  assumes "brief_party a" "brief_party b"
  shows "1 / 10 ^ 9 < \<bar>PartyExclusionRate a - PartyExclusionRate b\<bar>
     \<longleftrightarrow> PartyExclusionRate a \<noteq> PartyExclusionRate b"
proof -
  obtain p q where 1: "0 < q" "q < 30000" "PartyExclusionRate a = of_int p / of_nat q"
    using PartyExclusionRate_frac [OF assms(1)] by blast
  obtain r s where 2: "0 < s" "s < 30000" "PartyExclusionRate b = of_int r / of_nat s"
    using PartyExclusionRate_frac [OF assms(2)] by blast
  show ?thesis using frac_gap [OF 1(1) 2(1) 1(2) 2(2), of p r] by (auto simp: 1(3) 2(3))
qed

lemma priority_before_brief:
  assumes "brief_party a" "brief_party b"
  shows "priority_before a b \<longleftrightarrow>
    PartyExclusions b < PartyExclusions a \<or> (PartyExclusions a = PartyExclusions b \<and>
      (PartyExclusionRate b < PartyExclusionRate a \<or>
       (PartyExclusionRate a = PartyExclusionRate b \<and> pt_joined_at a < pt_joined_at b)))"
  using PartyExclusionRate_gap [OF assms] by (auto simp: priority_before_def Let_def)

interpretation prio: strict_weak_order priority_before "{p. brief_party p}"
proof
  fix x y assume "x \<in> {p. brief_party p}" "y \<in> {p. brief_party p}" "priority_before x y"
  then show "\<not> priority_before y x" by (auto simp: priority_before_brief)
next
  fix x y z assume "x \<in> {p. brief_party p}" "y \<in> {p. brief_party p}" "z \<in> {p. brief_party p}"
    and "priority_before x z"
  then show "priority_before x y \<or> priority_before y z" by (auto simp: priority_before_brief)
qed

lemma mset_PartiesByPriority [simp]: "mset (PartiesByPriority ps) = mset ps"
  by (simp add: PartiesByPriority_def)

lemma set_PartiesByPriority [simp]: "set (PartiesByPriority ps) = set ps"
  by (simp add: PartiesByPriority_def)

section \<open>Class counts and repair\<close>

definition class_size :: "QueuedParty list \<Rightarrow> u32 \<Rightarrow> nat" where
  "class_size ps cls = length (filter (\<lambda>m. qp_profile_id m = cls) (FlattenParties ps))"

lemma FlattenParties_simps [simp]:
  "FlattenParties [] = []" "FlattenParties (p # ps) = pt_members p @ FlattenParties ps"
  "FlattenParties (ps @ qs) = FlattenParties ps @ FlattenParties qs"
  by (simp_all add: FlattenParties_def)

lemma class_counts_flat:
  "class_counts ps = fold (\<lambda>m. umap_mod 0 (\<lambda>n. n + 1) (qp_profile_id m)) (FlattenParties ps) []"
proof -
  have "fold (\<lambda>p c. fold (\<lambda>m. umap_mod 0 (\<lambda>n. n + 1) (qp_profile_id m)) (pt_members p) c) ps c
      = fold (\<lambda>m. umap_mod 0 (\<lambda>n. n + 1) (qp_profile_id m)) (FlattenParties ps) c" for c :: "(u32, int) umap"
    by (induction ps arbitrary: c) simp_all
  then show ?thesis by (simp add: class_counts_def)
qed

lemma class_counts_get: "umap_get 0 (class_counts ps) cls = int (class_size ps cls)"
  by (simp add: class_counts_flat fold_count_get class_size_def)

lemma class_counts_wf: "umap_wf (class_counts ps)"
  by (simp add: class_counts_flat fold_count_wf)

lemma odd_class_spec:
  "case odd_class counts of
     None \<Rightarrow> \<forall>(cls, n) \<in> set counts. even n
   | Some oc \<Rightarrow> \<exists>n. (oc, n) \<in> set counts \<and> odd n"
proof -
  let ?f = "\<lambda>(cls :: u32, n :: int) acc. if n mod 2 = 0 then acc
     else (case acc of None \<Rightarrow> Some cls | Some oc \<Rightarrow> if cls < oc then Some cls else acc)"
  have gen: "case fold ?f cs acc of
     None \<Rightarrow> acc = None \<and> (\<forall>(cls, n) \<in> set cs. even n)
   | Some oc \<Rightarrow> acc = Some oc \<or> (\<exists>n. (oc, n) \<in> set cs \<and> odd n)" for cs acc
  proof (induction cs arbitrary: acc)
    case (Cons e cs)
    obtain c n where e: "e = (c, n)" by force
    show ?case
    proof (cases "even n")
      case True
      then have "?f e acc = acc" by (simp add: e even_iff_mod_2_eq_zero)
      then have "fold ?f (e # cs) acc = fold ?f cs acc" by (simp only: fold_simps)
      then show ?thesis using Cons.IH [of acc] True by (auto simp: e split: option.splits)
    next
      case False
      then have "\<exists>k. ?f e acc = Some k \<and> (k = c \<or> acc = Some k)"
        by (cases acc) (auto simp: e odd_iff_mod_2_eq_one)
      then obtain k where k: "?f e acc = Some k" "k = c \<or> acc = Some k" by blast
      then have "fold ?f (e # cs) acc = fold ?f cs (Some k)" by (simp only: fold_simps)
      then show ?thesis using Cons.IH [of "Some k"] False k(2) by (auto simp: e split: option.splits)
    qed
  qed (auto split: option.splits)
  from gen [of None counts] show ?thesis by (simp add: odd_class_def split: option.splits)
qed

lemma odd_class_None: "odd_class (class_counts ps) = None \<Longrightarrow> even (class_size ps cls)"
proof (cases "map_of (class_counts ps) cls")
  case None
  then show ?thesis using class_counts_get [of ps cls] by (simp add: umap_get_def)
next
  case (Some n)
  assume "odd_class (class_counts ps) = None"
  then have "even n" using Some odd_class_spec [of "class_counts ps"] by (auto dest: map_of_SomeD)
  then show ?thesis using class_counts_get [of ps cls] Some by (simp add: umap_get_def)
qed

lemma odd_class_Some:
  assumes "odd_class (class_counts ps) = Some cls"
  shows "odd (class_size ps cls)"
proof -
  obtain n where "(cls, n) \<in> set (class_counts ps)" "odd n"
    using odd_class_spec [of "class_counts ps"] assms by auto
  then show ?thesis
    using umap_find_in_set [OF class_counts_wf] class_counts_get [of ps cls] by (fastforce simp: umap_get_def)
qed

lemma odd_class_has: "odd_class (class_counts ps) = Some cls \<Longrightarrow> list_ex (has_class cls) ps"
proof -
  assume "odd_class (class_counts ps) = Some cls"
  then have "class_size ps cls \<noteq> 0" using odd_class_Some [of ps cls] odd_pos by fastforce
  then show ?thesis
    by (auto simp: class_size_def has_class_def FlattenParties_def list_ex_iff filter_empty_conv)
qed

lemma subseq_rev: "subseq xs ys \<Longrightarrow> subseq (rev xs) (rev ys)"
  by (induction rule: list_emb.induct) (auto intro: subseq_rev_drop_many list_emb_append_mono)

lemma subseq_erase_last: "subseq (erase_last P xs) xs"
  unfolding erase_last_def using subseq_rev [OF subseq_remove_first [of P "rev xs"]] by simp

lemma subseq_class_repair: "subseq (class_repair ps) ps"
proof (induction ps rule: class_repair.induct)
  case (1 ps)
  show ?case
    by (subst class_repair.simps)
      (auto split: option.splits intro: 1 subseq_order.trans subseq_erase_last)
qed

lemma class_repair_even: "even (class_size (class_repair ps) cls)"
proof (induction ps rule: class_repair.induct)
  case (1 ps)
  show ?case
    by (subst class_repair.simps)
      (auto simp: 1 odd_class_None odd_class_has split: option.splits)
qed

lemma greedy_add_props:
  assumes "fold (greedy_add cap) ps (ch, int (length (FlattenParties ch))) = (ch', used)"
  shows "subseq ch' (ch @ ps)" "used = int (length (FlattenParties ch'))"
    "0 < cap \<Longrightarrow> int (length (FlattenParties ch)) \<le> cap \<Longrightarrow> used \<le> cap"
proof -
  have "subseq ch' (ch @ ps) \<and> used = int (length (FlattenParties ch')) \<and>
     (0 < cap \<longrightarrow> int (length (FlattenParties ch)) \<le> cap \<longrightarrow> used \<le> cap)"
    using assms
  proof (induction ps arbitrary: ch)
    case (Cons p ps)
    show ?case
    proof (cases "cap > 0 \<and> int (length (FlattenParties ch)) + int (pt_size p) > cap")
      case True
      then have *: "greedy_add cap p (ch, int (length (FlattenParties ch))) = (ch, int (length (FlattenParties ch)))"
        by (simp add: greedy_add_def)
      have "subseq (ch @ ps) (ch @ p # ps)" by (simp add: subseq_append' list_emb_Cons)
      then show ?thesis using Cons.IH [of ch] Cons.prems * subseq_order.trans by simp blast
    next
      case False
      then have *: "greedy_add cap p (ch, int (length (FlattenParties ch)))
          = (ch @ [p], int (length (FlattenParties (ch @ [p]))))"
        by (auto simp: greedy_add_def pt_size_def)
      have "int (length (FlattenParties (ch @ [p]))) \<le> cap" if "0 < cap"
        using False that by (simp add: pt_size_def)
      then show ?thesis using Cons.IH [of "ch @ [p]"] Cons.prems by (auto simp del: FlattenParties_simps simp: *)
    qed
  qed simp
  then show "subseq ch' (ch @ ps)" "used = int (length (FlattenParties ch'))"
    "0 < cap \<Longrightarrow> int (length (FlattenParties ch)) \<le> cap \<Longrightarrow> used \<le> cap" by auto
qed

lemma length_FlattenParties: "length (FlattenParties ps) = sum_list (map pt_size ps)"
  by (induction ps) (simp_all add: pt_size_def)

lemma subseq_FlattenParties: "subseq ps qs \<Longrightarrow> subseq (FlattenParties ps) (FlattenParties qs)"
  by (induction rule: list_emb.induct) (auto intro: list_emb_append2 list_emb_append_mono)

subsection \<open>Pools of solo players\<close>

lemma filter_remove_first: "filter P (remove_first P xs) = tl (filter P xs)"
  by (induction xs) auto

lemma filter_remove_first_other:
  "(\<And>x. x \<in> set xs \<Longrightarrow> P x \<Longrightarrow> \<not> Q x) \<Longrightarrow> filter Q (remove_first P xs) = filter Q xs"
  by (induction xs) auto

lemma filter_erase_last: "filter P (erase_last P xs) = butlast (filter P xs)"
  unfolding erase_last_def rev_filter [symmetric] filter_remove_first
  by (metis butlast_rev rev_filter rev_rev_ident)

lemma filter_erase_last_other:
  "(\<And>x. x \<in> set xs \<Longrightarrow> P x \<Longrightarrow> \<not> Q x) \<Longrightarrow> filter Q (erase_last P xs) = filter Q xs"
  using filter_remove_first_other [of "rev xs" P Q] by (simp add: erase_last_def flip: rev_filter)

lemma solo_of_iff: "pt_size p = 1 \<Longrightarrow> solo_of cls p \<longleftrightarrow> has_class cls p"
  by (auto simp: solo_of_def has_class_def pt_size_def length_Suc_conv)

lemma solo_of_unique: "solo_of c p \<Longrightarrow> solo_of d p \<Longrightarrow> c = d"
  by (auto simp: solo_of_def split: list.splits)

lemma class_size_solo:
  "\<forall>p \<in> set ps. pt_size p = 1 \<Longrightarrow> class_size ps cls = length (filter (solo_of cls) ps)"
  by (induction ps) (auto simp: class_size_def pt_size_def solo_of_def length_Suc_conv)

lemma class_repair_solo:
  "\<forall>p \<in> set ps. pt_size p = 1 \<Longrightarrow>
   filter (solo_of c) (class_repair ps)
     = take (2 * (length (filter (solo_of c) ps) div 2)) (filter (solo_of c) ps)"
proof (induction ps rule: class_repair.induct)
  case (1 ps)
  let ?n = "length (filter (solo_of c) ps)"
  show ?case
  proof (cases "odd_class (class_counts ps)")
    case None
    then have "even ?n" using odd_class_None class_size_solo [OF 1(3)] by metis
    then show ?thesis by (subst class_repair.simps) (simp add: None)
  next
    case (Some oc)
    have ex: "list_ex (solo_of oc) ps"
      using odd_class_has [OF Some] 1(3) by (auto simp: list_ex_iff solo_of_iff)
    let ?qs = "erase_last (solo_of oc) ps"
    have "set ?qs \<subseteq> set ps" using subseq_erase_last by (metis set_nths_subset subseq_conv_nths)
    then have IH: "filter (solo_of c) (class_repair ?qs)
        = take (2 * (length (filter (solo_of c) ?qs) div 2)) (filter (solo_of c) ?qs)"
      using 1(1) [OF Some ex] 1(3) by blast
    have step: "class_repair ps = class_repair ?qs" by (subst class_repair.simps) (simp add: Some ex)
    show ?thesis
    proof (cases "c = oc")
      case True
      then have "odd ?n" using odd_class_Some [OF Some] class_size_solo [OF 1(3)] by simp
      then obtain k where k: "?n = 2 * k + 1" by (rule oddE)
      then have "take (2 * k) (butlast (filter (solo_of c) ps)) = take (2 * k) (filter (solo_of c) ps)"
        by (intro take_butlast) simp
      moreover have "(?n - 1) div 2 = k" "?n div 2 = k" using k by simp_all
      ultimately show ?thesis
        using IH by (simp only: step True [symmetric] filter_erase_last length_butlast)
    next
      case False
      then have "filter (solo_of c) ?qs = filter (solo_of c) ps"
        by (intro filter_erase_last_other) (auto dest: solo_of_unique)
      then show ?thesis using IH by (simp add: step)
    qed
  qed
qed

lemma greedy_add_solo:
  "\<forall>p \<in> set ps. pt_size p = 1 \<Longrightarrow>
   fst (fold (greedy_add cap) ps (ch, int (length ch)))
     = ch @ (if 0 < cap then take (nat cap - length ch) ps else ps)"
proof (induction ps arbitrary: ch)
  case (Cons p ps)
  show ?case
  proof (cases "0 < cap \<and> int (length ch) + 1 > cap")
    case True
    then have "greedy_add cap p (ch, int (length ch)) = (ch, int (length ch))"
      using Cons.prems by (simp add: greedy_add_def)
    moreover have "nat cap - length ch = 0" using True by linarith
    ultimately show ?thesis using Cons.IH [of ch] Cons.prems True by simp
  next
    case False
    then have *: "greedy_add cap p (ch, int (length ch)) = (ch @ [p], int (length (ch @ [p])))"
      using Cons.prems by (auto simp: greedy_add_def)
    have "take (nat cap - length ch) (p # ps) = p # take (nat cap - length (ch @ [p])) ps" if "0 < cap"
    proof -
      have "nat cap - length ch = Suc (nat cap - length (ch @ [p]))" using False that by simp
      then show ?thesis by simp
    qed
    then show ?thesis using Cons.IH [of "ch @ [p]"] Cons.prems by (simp add: *)
  qed
qed simp

section \<open>Deficit backfill\<close>

text \<open>
  What one class adds: invites of solo parties of that class, not taken before, one side,
  no more than the deficit and the seats allow.
\<close>

lemma fold_backfill_party:
  assumes "fold (backfill_party cls tf) ps (d, s) = (d', s')" "0 \<le> d"
  shows "\<exists>new. bf_out s' = bf_out s @ map (\<lambda>p. \<lparr>in_party = p, in_tf = tf\<rparr>) new \<and>
    set (bf_taken s') = set (bf_taken s) \<union> set new \<and> distinct new \<and> set new \<inter> set (bf_taken s) = {} \<and>
    (\<forall>p \<in> set new. p \<in> set ps \<and> solo_of cls p) \<and>
    int (length new) = d - d' \<and> 0 \<le> d' \<and>
    (0 \<le> bf_seats s \<longrightarrow> bf_seats s' = bf_seats s - int (length new) \<and> 0 \<le> bf_seats s') \<and>
    (bf_seats s < 0 \<longrightarrow> bf_seats s' = bf_seats s)"
  using assms
proof (induction ps arbitrary: d s)
  case Nil
  then show ?case by (intro exI [of _ "[]"]) simp
next
  case (Cons p ps)
  show ?case
  proof (cases "d = 0 \<or> bf_seats s = 0 \<or> p \<in> set (bf_taken s) \<or> \<not> solo_of cls p")
    case True
    then have "backfill_party cls tf p (d, s) = (d, s)" by (auto simp: backfill_party_def)
    then have "fold (backfill_party cls tf) ps (d, s) = (d', s')" using Cons.prems(1) by simp
    from Cons.IH [OF this Cons.prems(2)] show ?thesis by (auto 4 3)
  next
    case False
    define s1 where "s1 = \<lparr>bf_out = bf_out s @ [\<lparr>in_party = p, in_tf = tf\<rparr>],
      bf_taken = p # bf_taken s, bf_seats = (if bf_seats s > 0 then bf_seats s - 1 else bf_seats s)\<rparr>"
    have "pt_size p = 1" using False by (auto simp: solo_of_def pt_size_def split: list.splits)
    then have "backfill_party cls tf p (d, s) = (d - 1, s1)"
      using False by (simp add: backfill_party_def s1_def)
    then have "fold (backfill_party cls tf) ps (d - 1, s1) = (d', s')" using Cons.prems(1) by simp
    from Cons.IH [OF this] False Cons.prems(2) obtain new where new:
      "bf_out s' = bf_out s1 @ map (\<lambda>p. \<lparr>in_party = p, in_tf = tf\<rparr>) new"
      "set (bf_taken s') = set (bf_taken s1) \<union> set new" "distinct new" "set new \<inter> set (bf_taken s1) = {}"
      "\<forall>p \<in> set new. p \<in> set ps \<and> solo_of cls p" "int (length new) = d - 1 - d'" "0 \<le> d'"
      "0 \<le> bf_seats s1 \<longrightarrow> bf_seats s' = bf_seats s1 - int (length new) \<and> 0 \<le> bf_seats s'"
      "bf_seats s1 < 0 \<longrightarrow> bf_seats s' = bf_seats s1"
      by auto
    show ?thesis
    proof (intro exI [of _ "p # new"] conjI)
      show "0 \<le> bf_seats s \<longrightarrow> bf_seats s' = bf_seats s - int (length (p # new)) \<and> 0 \<le> bf_seats s'"
        using new(8) False by (auto simp: s1_def)
      show "bf_seats s < 0 \<longrightarrow> bf_seats s' = bf_seats s" using new(9) by (auto simp: s1_def)
    qed (use new(1-7) False in \<open>auto simp: s1_def\<close>)
  qed
qed

definition class_tf :: "RunningInstance \<Rightarrow> u32 \<Rightarrow> int" where
  "class_tf inst cls = (if ClassHeads (ri_team1 inst) cls < ClassHeads (ri_team2 inst) cls then 1 else 2)"

definition class_deficit :: "RunningInstance \<Rightarrow> u32 \<Rightarrow> int" where
  "class_deficit inst cls = \<bar>ClassHeads (ri_team1 inst) cls - ClassHeads (ri_team2 inst) cls\<bar>"

definition backfill_ok ::
  "QueuedParty list \<Rightarrow> RunningInstance \<Rightarrow> u32 set \<Rightarrow> backfill_state \<Rightarrow> bool" where
  "backfill_ok ps inst seen s \<longleftrightarrow>
     distinct (map in_party (bf_out s)) \<and> set (bf_taken s) = set (map in_party (bf_out s)) \<and>
     (\<forall>i \<in> set (bf_out s). in_party i \<in> set ps \<and>
        (\<exists>cls \<in> seen. solo_of cls (in_party i) \<and> in_tf i = class_tf inst cls)) \<and>
     (\<forall>cls. int (length (filter (\<lambda>i. solo_of cls (in_party i)) (bf_out s))) \<le> class_deficit inst cls) \<and>
     (0 \<le> seats_free inst \<longrightarrow> bf_seats s = seats_free inst - int (length (bf_out s)) \<and> 0 \<le> bf_seats s)
     \<and> (seats_free inst < 0 \<longrightarrow> bf_seats s < 0)"

lemma backfill_class_ok:
  assumes ok: "backfill_ok ps inst D s" and cls: "cls \<notin> D"
  shows "backfill_ok ps inst (insert cls D) (backfill_class ps inst cls s)"
proof -
  obtain d' s' where f: "fold (backfill_party cls (class_tf inst cls)) ps (class_deficit inst cls, s) = (d', s')"
    by force
  have res: "backfill_class ps inst cls s = s'"
    using f by (simp add: backfill_class_def class_tf_def class_deficit_def Let_def)
  obtain new where new:
    "bf_out s' = bf_out s @ map (\<lambda>p. \<lparr>in_party = p, in_tf = class_tf inst cls\<rparr>) new"
    "set (bf_taken s') = set (bf_taken s) \<union> set new" "distinct new" "set new \<inter> set (bf_taken s) = {}"
    "\<forall>p \<in> set new. p \<in> set ps \<and> solo_of cls p" "int (length new) = class_deficit inst cls - d'" "0 \<le> d'"
    "0 \<le> bf_seats s \<longrightarrow> bf_seats s' = bf_seats s - int (length new) \<and> 0 \<le> bf_seats s'"
    "bf_seats s < 0 \<longrightarrow> bf_seats s' = bf_seats s"
    using fold_backfill_party [OF f] by (auto simp: class_deficit_def)
  have none: "filter (\<lambda>i. solo_of cls (in_party i)) (bf_out s) = []"
    using ok cls by (fastforce simp: backfill_ok_def filter_empty_conv dest: solo_of_unique)
  have cnt: "int (length (filter (\<lambda>i. solo_of c (in_party i)) (bf_out s'))) \<le> class_deficit inst c" for c
  proof (cases "c = cls")
    case True
    have "length (filter (\<lambda>i. solo_of cls (in_party i)) (bf_out s')) \<le> length new"
      unfolding new(1) filter_append none by (simp add: filter_map comp_def)
    then show ?thesis unfolding True using new(6,7) by linarith
  next
    case False
    then have "filter (\<lambda>p. solo_of c p) new = []"
      using new(5) by (auto simp: filter_empty_conv dest: solo_of_unique)
    then show ?thesis using ok by (simp add: new(1) filter_map comp_def backfill_ok_def)
  qed
  show ?thesis
    unfolding res backfill_ok_def
  proof (intro conjI)
    show "\<forall>i \<in> set (bf_out s'). in_party i \<in> set ps \<and>
        (\<exists>c \<in> insert cls D. solo_of c (in_party i) \<and> in_tf i = class_tf inst c)"
      using ok new(5) by (auto simp: new(1) backfill_ok_def)
    show "distinct (map in_party (bf_out s'))" "set (bf_taken s') = set (map in_party (bf_out s'))"
      using ok new(2-4) by (auto simp: new(1) backfill_ok_def comp_def)
    show "\<forall>c. int (length (filter (\<lambda>i. solo_of c (in_party i)) (bf_out s'))) \<le> class_deficit inst c"
      using cnt by simp
    show "0 \<le> seats_free inst \<longrightarrow> bf_seats s' = seats_free inst - int (length (bf_out s')) \<and> 0 \<le> bf_seats s'"
      "seats_free inst < 0 \<longrightarrow> bf_seats s' < 0"
      using ok new(8,9) by (auto simp: new(1) backfill_ok_def)
  qed
qed

lemma fold_backfill_class_ok:
  "distinct cs \<Longrightarrow> D \<inter> set cs = {} \<Longrightarrow> backfill_ok ps inst D s \<Longrightarrow>
   backfill_ok ps inst (D \<union> set cs) (fold (backfill_class ps inst) cs s)"
proof (induction cs arbitrary: D s)
  case (Cons c cs)
  have "backfill_ok ps inst (insert c D \<union> set cs) (fold (backfill_class ps inst) cs (backfill_class ps inst c s))"
    by (rule Cons.IH) (use Cons.prems backfill_class_ok in auto)
  then show ?case by simp
qed simp

lemma distinct_side_classes:
  "umap_wf (sd_class_counts a) \<Longrightarrow> umap_wf (sd_class_counts b) \<Longrightarrow> distinct (side_classes a b)"
  by (auto simp: side_classes_def umap_wf_def distinct_map_filter map_of_eq_None_iff intro: rev_image_eqI)

section \<open>Pair admission\<close>

lemma first_pair_Some:
  assumes "first_pair inst ps = Some r"
  obtains p q where "subseq [p, q] ps" "pair_tf inst p q = Some r"
  using assms
proof (induction ps arbitrary: thesis)
  case (Cons p ps)
  show ?case
  proof (cases "find (\<lambda>q. pair_tf inst p q \<noteq> None) ps")
    case None
    then have "first_pair inst ps = Some r" using Cons.prems(2) by simp
    then obtain x y where xy: "subseq [x, y] ps" "pair_tf inst x y = Some r" using Cons.IH by blast
    show ?thesis by (rule Cons.prems(1) [OF _ xy(2)]) (rule list_emb_Cons [OF xy(1)])
  next
    case (Some q)
    then have "q \<in> set ps" using find_Some_in_set by metis
    then have "subseq [q] ps" by (simp add: subseq_singleton_left)
    moreover have "pair_tf inst p q = Some r" using Some Cons.prems(2) by simp
    ultimately show ?thesis using Cons.prems(1) [of p q] by simp
  qed
qed simp

lemma sides_equal_add:
  assumes "sides_equal a b" "umap_wf (sd_class_counts a)" "umap_wf (sd_class_counts b)"
  shows "\<forall>c. ClassHeads (WithMember a cls x) c = ClassHeads (WithMember b cls y) c"
    "sd_size (WithMember a cls x) = sd_size (WithMember b cls y)"
proof -
  let ?A = "sd_class_counts a" and ?B = "sd_class_counts b"
  have sub: "set ?A \<subseteq> set ?B"
  proof
    fix e assume "e \<in> set ?A"
    then have "map_of ?B (fst e) = Some (snd e)" using assms(1) by (simp add: sides_equal_def list_all_iff)
    then show "e \<in> set ?B" using map_of_SomeD by fastforce
  qed
  have "card (set ?A) = length ?A" "card (set ?B) = length ?B"
    using assms(2,3) by (simp_all add: umap_wf_def distinct_map distinct_card)
  then have "set ?A = set ?B"
    using sub assms(1) by (metis List.finite_set card_subset_eq sides_equal_def)
  then have "map_of ?A = map_of ?B"
    using assms(2,3) by (simp add: umap_wf_def map_of_inject_set)
  then show "\<forall>c. ClassHeads (WithMember a cls x) c = ClassHeads (WithMember b cls y) c"
    by (simp add: ClassHeads_def WithMember_def umap_get_def umap_find_mod)
  show "sd_size (WithMember a cls x) = sd_size (WithMember b cls y)"
    using assms(1) by (simp add: WithMember_def sides_equal_def)
qed

section \<open>Properties\<close>

definition ex_member :: "guid \<Rightarrow> u32 \<Rightarrow> rat \<Rightarrow> u32 \<Rightarrow> int \<Rightarrow> QueuedPlayer" where
  "ex_member g cls mmr excl joined = \<lparr>qp_session_guid = g, qp_profile_id = cls, qp_user_id = 1,
     qp_mmr = mmr, qp_solo_lock = False,
     qp_fairness = fresh_FairnessStats\<lparr>fs_exclusion_count := excl\<rparr>,
     qp_installed_dlcs = [], qp_joined_at = joined, qp_difficulty_override = ds_zero\<rparr>"

definition ex_solo_party :: "u64 \<Rightarrow> guid \<Rightarrow> u32 \<Rightarrow> rat \<Rightarrow> u32 \<Rightarrow> int \<Rightarrow> QueuedParty" where
  "ex_solo_party pid g cls mmr excl joined = \<lparr>pt_party_id = pid, pt_is_team = False,
     pt_leader_guid = g, pt_members = [ex_member g cls mmr excl joined], pt_joined_at = joined,
     pt_difficulty_override = ds_zero\<rparr>"

definition ex_pool :: "QueuedParty list" where
  "ex_pool = [ex_solo_party 1 ''a'' 680 1500 0 1, ex_solo_party 2 ''b'' 567 1400 0 2,
              ex_solo_party 3 ''c'' 680 1600 1 3, ex_solo_party 4 ''d'' 680 1450 0 4]"

definition ex_instance :: "TeamSeed \<Rightarrow> TeamSeed \<Rightarrow> RunningInstance" where
  "ex_instance a b = \<lparr>ri_instance_id = 9, ri_map_name = ''m'', ri_game_mode = ''g'',
     ri_player_count = sd_size a + sd_size b, ri_max_players = 20, ri_queue_id = 1,
     ri_team1 = a, ri_team2 = b, ri_access_mode = BackfillOnlyAccess, ri_owner_party_ids = []\<rparr>"

lemma SelectClassEqualSubset_even:
  "subseq (SelectClassEqualSubset parties cap) (PartiesByPriority parties) \<and>
   even (class_size (SelectClassEqualSubset parties cap) cls) \<and>
   (cap \<le> 0 \<or> int (length (FlattenParties (SelectClassEqualSubset parties cap))) \<le> cap)"
proof -
  obtain ch used where g: "fold (greedy_add cap) (PartiesByPriority parties) ([], 0) = (ch, used)" by force
  have sel: "SelectClassEqualSubset parties cap = class_repair ch" by (simp add: SelectClassEqualSubset_def g)
  note props = greedy_add_props [of cap _ "[]", simplified, OF g]
  have "subseq (class_repair ch) (PartiesByPriority parties)"
    using props(1) subseq_class_repair subseq_order.trans by blast
  moreover have "int (length (FlattenParties (class_repair ch))) \<le> cap" if "\<not> cap \<le> 0"
    using props(2,3) that list_emb_length [OF subseq_FlattenParties [OF subseq_class_repair [of ch]]] by simp
  ultimately show ?thesis using class_repair_even by (auto simp: sel)
qed

text \<open>
  C29. A strict match is class-even and atomic: the chosen parties are queued parties in
  priority order, taken whole, every class occurs an even number of times among their
  members, and the member count respects a positive cap.
\<close>

theorem strict_subset_even:
  "subseq (SelectClassEqualSubset parties cap) (PartiesByPriority parties) \<and>
   even (class_size (SelectClassEqualSubset parties cap) cls) \<and>
   (cap \<le> 0 \<or> int (length (FlattenParties (SelectClassEqualSubset parties cap))) \<le> cap)"
  by (rule SelectClassEqualSubset_even)

text \<open>
  For a pool of solo players the choice is exact and fair within each class: of the
  players the cap lets in, in priority order, each class keeps the largest even number,
  and it keeps its players of highest priority, so at most one player per class is dropped.
\<close>

theorem strict_subset_solo:
  assumes "\<forall>p \<in> set parties. pt_size p = 1"
    and "admitted = (if 0 < cap then take (nat cap) (PartiesByPriority parties) else PartiesByPriority parties)"
  shows "filter (solo_of cls) (SelectClassEqualSubset parties cap)
     = take (2 * (length (filter (solo_of cls) admitted) div 2)) (filter (solo_of cls) (PartiesByPriority parties))"
proof -
  have ch: "fst (fold (greedy_add cap) (PartiesByPriority parties) ([], 0)) = admitted"
    using greedy_add_solo [of "PartiesByPriority parties" cap "[]"] assms by simp
  have sub: "set admitted \<subseteq> set parties"
    using assms(2) by (auto dest: in_set_takeD split: if_splits)
  obtain rest where "PartiesByPriority parties = admitted @ rest"
    using assms(2) by (metis append_Nil2 append_take_drop_id)
  then have "filter (solo_of cls) (PartiesByPriority parties) = filter (solo_of cls) admitted @ filter (solo_of cls) rest"
    by simp
  moreover have "filter (solo_of cls) (class_repair admitted)
      = take (2 * (length (filter (solo_of cls) admitted) div 2)) (filter (solo_of cls) admitted)"
    by (rule class_repair_solo) (use assms(1) sub in blast)
  ultimately show ?thesis by (simp add: SelectClassEqualSubset_def ch)
qed

theorem strict_subset_solo_witness:
  "filter (solo_of 680) (SelectClassEqualSubset ex_pool 3)
     = take (2 * (length (filter (solo_of 680) (take 3 (PartiesByPriority ex_pool))) div 2))
         (filter (solo_of 680) (PartiesByPriority ex_pool))"
  using strict_subset_solo [of ex_pool _ 3 680, OF _ refl]
  by (simp add: ex_pool_def ex_solo_party_def pt_size_def)

text \<open>
  With a cap the choice is not the largest class-even subset, even for solo players: of
  three players, assault, medic and assault, a cap of two admits the first two, and both
  are dropped again, although the two assaults would make a match.
\<close>

definition ex_capped :: "QueuedParty list" where
  "ex_capped = [ex_solo_party 1 ''a'' 680 1500 0 1, ex_solo_party 2 ''b'' 567 1400 0 2,
                ex_solo_party 3 ''c'' 680 1600 0 3]"

lemma strict_subset_cap_not_exact:
  "SelectClassEqualSubset ex_capped 2 = []"
  "class_repair [ex_capped ! 0, ex_capped ! 2] = [ex_capped ! 0, ex_capped ! 2]"
  by code_simp+

lemma PlanDeficitBackfill_repairs:
  assumes "umap_wf (sd_class_counts (ri_team1 inst))" "umap_wf (sd_class_counts (ri_team2 inst))"
    and "invites = PlanDeficitBackfill parties inst"
  shows "distinct (map in_party invites) \<and>
    (\<forall>i \<in> set invites. in_party i \<in> set parties \<and>
       (\<exists>cls. solo_of cls (in_party i) \<and> in_tf i = class_tf inst cls \<and> 0 < class_deficit inst cls)) \<and>
    (\<forall>cls. int (length (filter (\<lambda>i. solo_of cls (in_party i)) invites)) \<le> class_deficit inst cls) \<and>
    (seats_free inst < 0 \<or> int (length invites) \<le> seats_free inst)"
proof -
  let ?cs = "stable_sort (<) (side_classes (ri_team1 inst) (ri_team2 inst))"
  define s where "s = fold (backfill_class (PartiesByPriority parties) inst) ?cs
    \<lparr>bf_out = [], bf_taken = [], bf_seats = seats_free inst\<rparr>"
  have inv: "invites = bf_out s" by (simp add: assms(3) PlanDeficitBackfill_def s_def)
  have "backfill_ok (PartiesByPriority parties) inst ({} \<union> set ?cs) s"
    unfolding s_def by (rule fold_backfill_class_ok)
      (use distinct_side_classes [OF assms(1,2)] in \<open>auto simp: backfill_ok_def class_deficit_def\<close>)
  then have ok: "backfill_ok (PartiesByPriority parties) inst (set ?cs) s" by simp
  have pos: "0 < class_deficit inst cls" if i: "i \<in> set invites" "solo_of cls (in_party i)" for i cls
  proof -
    have "i \<in> set (filter (\<lambda>i. solo_of cls (in_party i)) (bf_out s))" using i inv by simp
    then have "0 < length (filter (\<lambda>i. solo_of cls (in_party i)) (bf_out s))" by (metis length_pos_if_in_set)
    moreover have "int (length (filter (\<lambda>i. solo_of cls (in_party i)) (bf_out s))) \<le> class_deficit inst cls"
      using ok unfolding backfill_ok_def by blast
    ultimately show ?thesis by linarith
  qed
  have "\<forall>i \<in> set invites. in_party i \<in> set parties \<and>
      (\<exists>cls. solo_of cls (in_party i) \<and> in_tf i = class_tf inst cls \<and> 0 < class_deficit inst cls)"
    using ok pos unfolding inv backfill_ok_def set_PartiesByPriority by blast
  then show ?thesis using ok unfolding inv backfill_ok_def by auto
qed

definition ex_short :: RunningInstance where
  "ex_short = ex_instance (empty_seed\<lparr>sd_size := 3, sd_class_counts := [(680, 2), (567, 1)]\<rparr>)
     (empty_seed\<lparr>sd_size := 1, sd_class_counts := [(680, 1)]\<rparr>)"

text \<open>
  Deficit backfill only repairs: every invite is a queued solo party of a class that the
  side it is sent to is short of, no party is invited twice, no class gets more invites than
  its deficit (so the gap closes and never flips), and free seats are never exceeded.
\<close>

theorem deficit_backfill_repairs:
  assumes "umap_wf (sd_class_counts (ri_team1 inst))" "umap_wf (sd_class_counts (ri_team2 inst))"
    and "invites = PlanDeficitBackfill parties inst"
  shows "distinct (map in_party invites) \<and>
    (\<forall>i \<in> set invites. in_party i \<in> set parties \<and>
       (\<exists>cls. solo_of cls (in_party i) \<and> in_tf i = class_tf inst cls \<and> 0 < class_deficit inst cls)) \<and>
    (\<forall>cls. int (length (filter (\<lambda>i. solo_of cls (in_party i)) invites)) \<le> class_deficit inst cls) \<and>
    (seats_free inst < 0 \<or> int (length invites) \<le> seats_free inst)"
  by (rule PlanDeficitBackfill_repairs [OF assms])

theorem deficit_backfill_repairs_witness:
  "distinct (map in_party (PlanDeficitBackfill ex_pool ex_short)) \<and>
   int (length (PlanDeficitBackfill ex_pool ex_short)) \<le> seats_free ex_short"
  using deficit_backfill_repairs [of ex_short _ ex_pool, OF _ _ refl]
  by (simp add: ex_short_def ex_instance_def umap_wf_def seats_free_def empty_seed_def)

lemma PlanPairJoin_keeps_even:
  assumes "umap_wf (sd_class_counts (ri_team1 inst))" "umap_wf (sd_class_counts (ri_team2 inst))"
    and "PlanPairJoin parties inst = i # rest"
    and "(p1, p2) = (if in_tf i = 1 then (in_party i, in_party (hd rest)) else (in_party (hd rest), in_party i))"
  shows "length rest = 1 \<and> {in_tf i, in_tf (hd rest)} = {1, 2} \<and>
    subseq [in_party i, in_party (hd rest)] (PartiesByPriority parties) \<and>
    sides_equal (ri_team1 inst) (ri_team2 inst) \<and>
    (\<exists>a b t1 t2. pt_members p1 = [a] \<and> pt_members p2 = [b] \<and> qp_profile_id a = qp_profile_id b \<and>
       t1 = WithMember (ri_team1 inst) (qp_profile_id a) (qp_mmr a) \<and>
       t2 = WithMember (ri_team2 inst) (qp_profile_id b) (qp_mmr b) \<and>
       sd_size t1 = sd_size t2 \<and> (\<forall>c. ClassHeads t1 c = ClassHeads t2 c) \<and>
       SidesBalanceCost t1 t2
         \<le> max (SidesBalanceCost (ri_team1 inst) (ri_team2 inst)) 300 + 1 / 10 ^ 9)"
proof -
  let ?solos = "filter (\<lambda>p. pt_size p = 1) (PartiesByPriority parties)"
  have eq: "sides_equal (ri_team1 inst) (ri_team2 inst)"
    using assms(3) by (auto simp: PlanPairJoin_def split: if_splits)
  obtain j where j: "first_pair inst ?solos = Some (i, j)" "rest = [j]"
    using assms(3) by (auto simp: PlanPairJoin_def split: if_splits option.splits)
  obtain p q where pq: "subseq [p, q] ?solos" "pair_tf inst p q = Some (i, j)"
    using first_pair_Some [OF j(1)] .
  have "set [p, q] \<subseteq> set ?solos" using pq(1) by (metis set_nths_subset subseq_conv_nths)
  then obtain a b where ab: "pt_members p = [a]" "pt_members q = [b]"
    by (auto simp: pt_size_def length_Suc_conv)
  have sub: "subseq [p, q] (PartiesByPriority parties)"
    using pq(1) filter_notin_subseq subseq_order.trans by blast
  have cls: "qp_profile_id a = qp_profile_id b" using pq(2) by (auto simp: pair_tf_def ab split: if_splits)
  define d1 where "d1 = SidesBalanceCost (WithMember (ri_team1 inst) (qp_profile_id a) (qp_mmr a))
    (WithMember (ri_team2 inst) (qp_profile_id b) (qp_mmr b))"
  define d2 where "d2 = SidesBalanceCost (WithMember (ri_team1 inst) (qp_profile_id b) (qp_mmr b))
    (WithMember (ri_team2 inst) (qp_profile_id a) (qp_mmr a))"
  define lim where "lim = max (SidesBalanceCost (ri_team1 inst) (ri_team2 inst)) 300 + 1 / 10 ^ 9"
  have r: "\<not> lim < min d1 d2" "i = \<lparr>in_party = p, in_tf = (if d1 \<le> d2 then 1 else 2)\<rparr>"
    "j = \<lparr>in_party = q, in_tf = (if d1 \<le> d2 then 2 else 1)\<rparr>"
    using pq(2) cls
    by (simp_all add: pair_tf_def ab Let_def kLateJoinCostSlack_def d1_def d2_def lim_def split: if_splits)
  note even = sides_equal_add [OF eq assms(1,2)]
  show ?thesis
  proof (cases "d1 \<le> d2")
    case True
    then have ps: "p1 = p" "p2 = q" using assms(4) by (simp_all add: r j)
    have "d1 \<le> lim" using r(1) True by simp
    then show ?thesis using True eq sub even cls by (simp add: r j ps ab d1_def lim_def)
  next
    case False
    then have ps: "p1 = q" "p2 = p" using assms(4) by (simp_all add: r j)
    have "d2 \<le> lim" using r(1) False by simp
    then show ?thesis using False eq sub even cls by (simp add: r j ps ab d2_def lim_def) auto
  qed
qed

lemma ex_pair_join:
  "map (\<lambda>i. (pt_party_id (in_party i), in_tf i)) (PlanPairJoin ex_pool (ex_instance empty_seed empty_seed))
     = [(3, 1), (1, 2)]"
  by code_simp

text \<open>
  Late-join pairs keep a live match even: when invites come out they are two solo
  entries of the queue of one class, sent to different sides of an instance whose sides
  were equal; with both admitted the sides are again equal in size and in every class, and
  the balance cost does not exceed the larger of the present cost and the slack of 300.
\<close>

theorem pair_join_keeps_even:
  assumes "umap_wf (sd_class_counts (ri_team1 inst))" "umap_wf (sd_class_counts (ri_team2 inst))"
    and "PlanPairJoin parties inst = i # rest"
    and "(p1, p2) = (if in_tf i = 1 then (in_party i, in_party (hd rest)) else (in_party (hd rest), in_party i))"
  shows "length rest = 1 \<and> {in_tf i, in_tf (hd rest)} = {1, 2} \<and>
    subseq [in_party i, in_party (hd rest)] (PartiesByPriority parties) \<and>
    sides_equal (ri_team1 inst) (ri_team2 inst) \<and>
    (\<exists>a b t1 t2. pt_members p1 = [a] \<and> pt_members p2 = [b] \<and> qp_profile_id a = qp_profile_id b \<and>
       t1 = WithMember (ri_team1 inst) (qp_profile_id a) (qp_mmr a) \<and>
       t2 = WithMember (ri_team2 inst) (qp_profile_id b) (qp_mmr b) \<and>
       sd_size t1 = sd_size t2 \<and> (\<forall>c. ClassHeads t1 c = ClassHeads t2 c) \<and>
       SidesBalanceCost t1 t2
         \<le> max (SidesBalanceCost (ri_team1 inst) (ri_team2 inst)) 300 + 1 / 10 ^ 9)"
  by (rule PlanPairJoin_keeps_even [OF assms])

theorem pair_join_keeps_even_witness:
  "\<exists>i rest. PlanPairJoin ex_pool (ex_instance empty_seed empty_seed) = i # rest \<and>
     {in_tf i, in_tf (hd rest)} = {1, 2}"
proof -
  obtain i rest where ir: "PlanPairJoin ex_pool (ex_instance empty_seed empty_seed) = i # rest"
    using ex_pair_join by (cases "PlanPairJoin ex_pool (ex_instance empty_seed empty_seed)") auto
  obtain p1 p2 where p: "(p1, p2) = (if in_tf i = 1 then (in_party i, in_party (hd rest)) else (in_party (hd rest), in_party i))"
    by (metis surj_pair)
  have wf: "umap_wf (sd_class_counts (ri_team1 (ex_instance empty_seed empty_seed)))"
    "umap_wf (sd_class_counts (ri_team2 (ex_instance empty_seed empty_seed)))"
    by (simp_all add: ex_instance_def empty_seed_def)
  show ?thesis using pair_join_keeps_even [OF wf ir p] ir by blast
qed

end
