(* ===== verification/MatchRules.thy ===== *)
theory MatchRules
  imports RuleSupport DefenderRotation StrictBalance
begin

text \<open>
  The concrete match rules, \<open>MatchmakingService/Rules/*.cpp\<close>, and \<open>RuleFactory::Create\<close>.
  Every rule is a pure function of the queued parties, the candidate instances and its
  configuration; each is shown to satisfy the contract \<open>match_rule\<close>.
\<close>

section \<open>CoopMatchRule\<close>

definition Partition :: "QueuedParty list \<Rightarrow> QueuedParty list \<times> QueuedParty list" where
  "Partition parties = (filter pt_is_team parties, filter (\<lambda>p. \<not> pt_is_team p) parties)"

definition BuildOwnMatch :: "QueueConfig \<Rightarrow> QueuedParty \<Rightarrow> MatchResult" where
  "BuildOwnMatch cfg team =
     (let r = BuildResult (PartiesByWaitAsc [team]) (qc_taskforce_policy cfg) (qc_team_side_policy cfg)
                empty_seed empty_seed PartyLocked [pt_party_id team]
      in if ds_set (pt_difficulty_override team)
            \<and> (qc_difficulty_value_id cfg = 3000 \<or> qc_difficulty_value_id cfg = 4000)
         then r\<lparr>mr_difficulty_override := pt_difficulty_override team\<rparr> else r)"

definition strict_queue :: "QueueConfig \<Rightarrow> bool" where
  "strict_queue cfg \<longleftrightarrow> qc_taskforce_policy cfg = BalancedPvp \<and> qc_strict_class_balance cfg"

definition backfill_queue :: "QueueConfig \<Rightarrow> bool" where
  "backfill_queue cfg \<longleftrightarrow> qc_taskforce_policy cfg = BalancedPvp \<and> qc_late_join_policy cfg = BackfillOnly"

definition backfill_invites :: "QueueConfig \<Rightarrow> QueuedParty list \<Rightarrow> RunningInstance \<Rightarrow> Invite list" where
  "backfill_invites cfg parties inst =
     (let invites = PlanDeficitBackfill parties inst
      in if invites = [] \<and> qc_pair_backfill cfg then PlanPairJoin parties inst else invites)"

definition place_invite :: "Invite \<Rightarrow> MatchResult \<Rightarrow> MatchResult" where
  \<comment> \<open>invites hold solo parties; \<open>front()\<close> of an empty one would be undefined\<close>
  "place_invite iv r =
     (case pt_members (in_party iv) of
        m # _ \<Rightarrow> place_member (\<lambda>_. in_tf iv) (\<lambda>m. Some (qp_mmr m)) m
                  (r\<lparr>mr_consumed_party_ids := mr_consumed_party_ids r @ [pt_party_id (in_party iv)]\<rparr>)
      | [] \<Rightarrow> r)"

definition into_instance :: "RunningInstance \<Rightarrow> MatchResult \<Rightarrow> MatchResult" where
  "into_instance inst r = r\<lparr>mr_existing_instance_id := Some (ri_instance_id inst),
     mr_map_name := ri_map_name inst, mr_game_mode := ri_game_mode inst\<rparr>"

fun backfill_first ::
  "QueueConfig \<Rightarrow> QueuedParty list \<Rightarrow> RunningInstance list \<Rightarrow> MatchResult option" where
  "backfill_first cfg parties [] = None"
| "backfill_first cfg parties (inst # is) =
     (if ri_access_mode inst \<noteq> BackfillOnlyAccess then backfill_first cfg parties is
      else
        let invites = backfill_invites cfg parties inst
        in if invites = [] then backfill_first cfg parties is
           else Some (into_instance inst (fold place_invite invites empty_result)))"

fun drop_in_first ::
  "QueueConfig \<Rightarrow> QueuedParty list \<Rightarrow> RunningInstance list \<Rightarrow> MatchResult option" where
  "drop_in_first cfg ordered [] = None"
| "drop_in_first cfg ordered (inst # is) =
     (if ri_access_mode inst \<noteq> OpenAccess then drop_in_first cfg ordered is
      else
        let chosen = PackParties ordered (seats_free inst)
        in if chosen = [] then drop_in_first cfg ordered is
           else Some (into_instance inst
                  (BuildResult chosen (qc_taskforce_policy cfg) (qc_team_side_policy cfg)
                     (ri_team1 inst) (ri_team2 inst) OpenAccess [])))"

definition spawn_cap :: "QueueConfig \<Rightarrow> int" where
  \<comment> \<open>\<open>cap > 0 ? (int)cap : -1\<close>\<close>
  "spawn_cap cfg = (let cap = QueueInstanceCap cfg 0 in if cap > 0 then sint cap else -1)"

definition fresh_spawn :: "QueueConfig \<Rightarrow> QueuedParty list \<Rightarrow> MatchResult option" where
  "fresh_spawn cfg parties =
     (let chosen = (if strict_queue cfg then SelectClassEqualSubset parties (spawn_cap cfg)
                    else PackParties (PartiesByWaitAsc parties) (spawn_cap cfg))
      in if chosen = [] then None
         else
           let r = BuildResult chosen (qc_taskforce_policy cfg) (qc_team_side_policy cfg)
                     empty_seed empty_seed OpenAccess []
           in Some (if backfill_queue cfg
                    then r\<lparr>mr_access_mode := BackfillOnlyAccess,
                           mr_cap_override := Some (of_nat (length (mr_session_guids r)))\<rparr>
                    else r))"

definition PlacePool ::
  "QueueConfig \<Rightarrow> QueuedParty list \<Rightarrow> RunningInstance list \<Rightarrow> MatchResult option" where
  "PlacePool cfg parties instances =
     (if parties = [] then None
      else
        case (if backfill_queue cfg then backfill_first cfg parties instances else None) of
          Some r \<Rightarrow> Some r
        | None \<Rightarrow>
            (case drop_in_first cfg (PartiesByWaitAsc parties) instances of
               Some r \<Rightarrow> Some r
             | None \<Rightarrow> fresh_spawn cfg parties))"

definition wants_own :: "QueuedParty \<Rightarrow> bool" where
  "wants_own p = (case pt_members p of m # _ \<Rightarrow> qp_solo_lock m | [] \<Rightarrow> False)"

definition CoopEvaluate ::
  "QueueConfig \<Rightarrow> QueuedParty list \<Rightarrow> RunningInstance list \<Rightarrow> MatchResult option" where
  "CoopEvaluate cfg parties instances =
     (if parties = [] then None
      else
        case Partition parties of (teams, solos0) \<Rightarrow>
        let split = qc_min_players_to_pop cfg \<le> 1;
            locked = (if split then filter wants_own solos0 else []);
            solos = (if split then filter (\<lambda>p. \<not> wants_own p) solos0 else solos0)
        in if locked \<noteq> [] then Some (BuildOwnMatch cfg (hd (PartiesByWaitAsc locked)))
           else
             (case qc_team_policy cfg of
                OwnMatch \<Rightarrow>
                  if teams \<noteq> [] then Some (BuildOwnMatch cfg (hd (PartiesByWaitAsc teams)))
                  else PlacePool cfg solos instances
              | Block \<Rightarrow> PlacePool cfg solos instances
              | Mixed \<Rightarrow> PlacePool cfg (teams @ solos) instances
              | VersusSides \<Rightarrow> None))"

section \<open>DoubleAgentRule\<close>

definition kShapeTable :: "(int \<times> int) list" where
  "kShapeTable = [(1, 1), (2, 1), (2, 2), (3, 2), (4, 2), (4, 3), (5, 3), (5, 4), (6, 4)]"

definition kMinTotal :: int where "kMinTotal = 2"
definition kMaxTotal :: int where "kMaxTotal = 10"

definition agent_step :: "QueuedParty \<Rightarrow> QueuedParty list \<times> int \<Rightarrow> QueuedParty list \<times> int" where
  "agent_step p st =
     (case st of (chosen, tot) \<Rightarrow>
        let n = int (pt_size p)
        in if n > kMaxTotal then st
           else if tot + n > kMaxTotal then st
           else (chosen @ [p], tot + n))"

definition DoubleAgentEvaluate ::
  "QueueConfig \<Rightarrow> QueuedParty list \<Rightarrow> RunningInstance list \<Rightarrow> MatchResult option" where
  "DoubleAgentEvaluate cfg parties instances =
     (if parties = [] then None
      else
        case fold agent_step (PartiesByWaitAsc parties) ([], 0) of (chosen, tot) \<Rightarrow>
        if tot < kMinTotal then None
        else
          case kShapeTable ! nat (tot - kMinTotal) of (tf1_n, tf2_n) \<Rightarrow>
          case RotationAssign chosen tf1_n tf2_n of (asg, spilled) \<Rightarrow>
            Some (fold (place_party (\<lambda>m. umap_get 1 asg (qp_session_guid m)) (\<lambda>_. None)) chosen
              (empty_result\<lparr>mr_access_mode := Sealed, mr_cap_override := Some (of_int tot),
                 mr_cohesion_spilled := spilled\<rparr>)))"

section \<open>VersusSidesRule\<close>

definition VersusSidesEvaluate ::
  "QueueConfig \<Rightarrow> QueuedParty list \<Rightarrow> RunningInstance list \<Rightarrow> MatchResult option" where
  "VersusSidesEvaluate cfg parties instances =
     (case PartiesByWaitAsc parties of
        a # b # _ \<Rightarrow>
          Some (place_party (\<lambda>_. 2) (\<lambda>_. None) b
                 (place_party (\<lambda>_. 1) (\<lambda>_. None) a
                   (empty_result\<lparr>mr_access_mode := PartyLocked,
                      mr_owner_party_ids := [pt_party_id a, pt_party_id b]\<rparr>)))
      | _ \<Rightarrow> None)"

section \<open>RuleFactory\<close>

datatype RuleKind = CoopMatchRule | DoubleAgentRule | VersusSidesRule

definition rule_kind :: "string \<Rightarrow> RuleKind" where
  "rule_kind rule_class =
     (if rule_class = [] \<or> rule_class = ''DataDriven'' \<or> rule_class = ''Coop'' then CoopMatchRule
      else if rule_class = ''DoubleAgent'' then DoubleAgentRule
      else if rule_class = ''VersusSides'' \<or> rule_class = ''1v1'' then VersusSidesRule
      else CoopMatchRule)"

definition RuleEvaluate ::
  "QueueConfig \<Rightarrow> QueuedParty list \<Rightarrow> RunningInstance list \<Rightarrow> MatchResult option" where
  \<comment> \<open>\<open>RuleFactory::Create(&cfg)->Evaluate\<close>: the rule holds a copy of the configuration\<close>
  "RuleEvaluate cfg =
     (case rule_kind (qc_rule_class cfg) of
        CoopMatchRule \<Rightarrow> CoopEvaluate cfg
      | DoubleAgentRule \<Rightarrow> DoubleAgentEvaluate cfg
      | VersusSidesRule \<Rightarrow> VersusSidesEvaluate cfg)"

section \<open>Lemmas\<close>

subsection \<open>Packing\<close>

lemma pack_step_eq:
  "pack_step b p (ch, u) =
     (if b \<ge> 0 \<and> u + int (pt_size p) > b then (ch, u) else (ch @ [p], u + int (pt_size p)))"
  by (simp add: pack_step_def Let_def)

lemma CountMembers_guids: "CountMembers ps = int (length (party_guids ps))"
proof -
  have "fold (\<lambda>p n. n + int (pt_size p)) ps z = z + int (length (party_guids ps))" for z
    by (induction ps arbitrary: z) (simp_all add: pt_size_def)
  then show ?thesis by (simp add: CountMembers_def)
qed

lemma fold_pack_step:
  assumes "fold (pack_step b) ps (ch, CountMembers ch) = (ch', u')"
  shows "subseq ch' (ch @ ps) \<and> set ch \<subseteq> set ch' \<and> u' = CountMembers ch' \<and> CountMembers ch \<le> u' \<and>
    (0 \<le> b \<longrightarrow> CountMembers ch \<le> b \<longrightarrow> u' \<le> b) \<and>
    (\<forall>p \<in> set ps. p \<in> set ch' \<or> (0 \<le> b \<and> b < u' + int (pt_size p)))"
  using assms
proof (induction ps arbitrary: ch)
  case (Cons p ps)
  show ?case
  proof (cases "b \<ge> 0 \<and> CountMembers ch + int (pt_size p) > b")
    case True
    then have "fold (pack_step b) ps (ch, CountMembers ch) = (ch', u')"
      using Cons.prems by (simp add: pack_step_eq)
    note IH = Cons.IH [OF this]
    have "subseq (ch @ ps) (ch @ p # ps)" by (simp add: subseq_append' list_emb_Cons)
    then have "subseq ch' (ch @ p # ps)" using IH subseq_order.trans by blast
    then show ?thesis using IH True by auto
  next
    case False
    have "CountMembers (ch @ [p]) = CountMembers ch + int (pt_size p)"
      by (simp add: CountMembers_guids pt_size_def)
    moreover from this have "fold (pack_step b) ps (ch @ [p], CountMembers (ch @ [p])) = (ch', u')"
      using Cons.prems False by (auto simp: pack_step_eq)
    ultimately show ?thesis using Cons.IH [of "ch @ [p]"] False by auto
  qed
qed simp

lemma PackParties_props:
  shows "subseq (PackParties ps b) ps"
    and "0 \<le> b \<Longrightarrow> CountMembers (PackParties ps b) \<le> b"
    and "p \<in> set ps \<Longrightarrow> p \<in> set (PackParties ps b) \<or> (0 \<le> b \<and> b < CountMembers (PackParties ps b) + int (pt_size p))"
proof -
  obtain ch u where r: "fold (pack_step b) ps ([], CountMembers []) = (ch, u)" by force
  then have "PackParties ps b = ch" by (simp add: PackParties_def CountMembers_def)
  then show "subseq (PackParties ps b) ps" "0 \<le> b \<Longrightarrow> CountMembers (PackParties ps b) \<le> b"
    "p \<in> set ps \<Longrightarrow> p \<in> set (PackParties ps b) \<or> (0 \<le> b \<and> b < CountMembers (PackParties ps b) + int (pt_size p))"
    using fold_pack_step [OF r] by (auto simp: CountMembers_def)
qed

subsection \<open>Results built by SidePlacement\<close>

lemma umap_get_sided: "sided m g \<Longrightarrow> umap_get d m g = 1 \<or> umap_get d m g = 2"
  by (auto simp: sided_def umap_get_def)

lemma BuildResult_ok:
  assumes "queue_ok ps" "qs \<noteq> []" "distinct qs" "set qs \<subseteq> set ps"
  shows "result_ok ps (BuildResult qs pol side s1 s2 acc owners)"
  unfolding BuildResult_def Let_def
proof (rule fold_place_party_ok [OF assms])
  fix m assume "m \<in> set (FlattenParties qs)"
  moreover have "distinct (party_guids qs)"
    using queue_ok_subset [OF assms(1,3,4)] by (simp add: queue_ok_def)
  ultimately have "sided (Assign pol side (map (party_group (pol = BalancedPvp)) qs) s1 s2) (qp_session_guid m)"
    by (intro Assign_sided) (auto simp: group_guids_parties party_guids_Flatten)
  then show "umap_get 1 (Assign pol side (map (party_group (pol = BalancedPvp)) qs) s1 s2) (qp_session_guid m) = 1
    \<or> umap_get 1 (Assign pol side (map (party_group (pol = BalancedPvp)) qs) s1 s2) (qp_session_guid m) = 2"
    by (rule umap_get_sided)
qed (simp_all add: empty_result_def)

lemma BuildResult_fields:
  "mr_session_guids (BuildResult qs pol side s1 s2 acc owners) = party_guids qs"
  "mr_consumed_party_ids (BuildResult qs pol side s1 s2 acc owners) = map pt_party_id qs"
  "mr_access_mode (BuildResult qs pol side s1 s2 acc owners) = acc"
  "mr_owner_party_ids (BuildResult qs pol side s1 s2 acc owners) = owners"
  "mr_existing_instance_id (BuildResult qs pol side s1 s2 acc owners) = None"
  "mr_cap_override (BuildResult qs pol side s1 s2 acc owners) = None"
  by (simp_all add: BuildResult_def Let_def fold_place_party fold_place_party_other empty_result_def)

lemma result_ok_cong:
  assumes "result_ok ps r" "mr_consumed_party_ids r' = mr_consumed_party_ids r"
    "mr_session_guids r' = mr_session_guids r"
    "mr_task_force_assignments r' = mr_task_force_assignments r" "mr_profile_ids r' = mr_profile_ids r"
  shows "result_ok ps r'"
proof -
  have "consumed r' ps = consumed r ps" by (simp add: consumed_def assms(2))
  then show ?thesis using assms by (simp add: result_ok_def)
qed

lemma subseq_distinct_subset: "subseq qs ps \<Longrightarrow> distinct ps \<Longrightarrow> distinct qs \<and> set qs \<subseteq> set ps"
  by (metis subseq_conv_nths distinct_nthsI set_nths_subset)

lemma queue_ok_distinct: "queue_ok ps \<Longrightarrow> distinct ps"
  by (simp add: queue_ok_def distinct_map)

lemma wait_distinct [simp]: "distinct (PartiesByWaitAsc ps) = distinct ps"
  by (simp add: PartiesByWaitAsc_def)

lemma prio_distinct [simp]: "distinct (PartiesByPriority ps) = distinct ps"
  by (simp add: PartiesByPriority_def)

lemma BuildOwnMatch_ok:
  assumes "queue_ok ps" "p \<in> set ps"
  shows "result_ok ps (BuildOwnMatch cfg p)"
proof -
  have one: "PartiesByWaitAsc [p] = [p]" by (simp add: PartiesByWaitAsc_def)
  have "result_ok ps (BuildResult [p] (qc_taskforce_policy cfg) (qc_team_side_policy cfg)
      empty_seed empty_seed PartyLocked [pt_party_id p])"
    by (rule BuildResult_ok [OF assms(1)]) (use assms(2) in simp_all)
  then show ?thesis unfolding BuildOwnMatch_def Let_def one
    by (auto elim: result_ok_cong)
qed

lemma BuildOwnMatch_fields:
  "mr_session_guids (BuildOwnMatch cfg p) = member_guids p"
  "mr_consumed_party_ids (BuildOwnMatch cfg p) = [pt_party_id p]"
  "mr_access_mode (BuildOwnMatch cfg p) = PartyLocked"
  "mr_owner_party_ids (BuildOwnMatch cfg p) = [pt_party_id p]"
  "mr_existing_instance_id (BuildOwnMatch cfg p) = None"
  by (simp_all add: BuildOwnMatch_def Let_def PartiesByWaitAsc_def BuildResult_fields)

subsection \<open>Backfill\<close>

lemma place_invite_solo:
  assumes "pt_members (in_party iv) = [m]"
  shows "place_invite iv r = place_party (\<lambda>_. in_tf iv) (\<lambda>m. Some (qp_mmr m)) (in_party iv) r"
  by (simp add: place_invite_def place_party_def assms)

lemma fold_place_invite:
  assumes "\<forall>iv \<in> set ivs. pt_size (in_party iv) = 1"
  shows "mr_session_guids (fold place_invite ivs r) = mr_session_guids r @ party_guids (map in_party ivs)"
    "mr_consumed_party_ids (fold place_invite ivs r) = mr_consumed_party_ids r @ map pt_party_id (map in_party ivs)"
    "mr_task_force_assignments (fold place_invite ivs r)
       = fold (\<lambda>iv. umap_put (hd (member_guids (in_party iv))) (in_tf iv)) ivs (mr_task_force_assignments r)"
    "mr_profile_ids (fold place_invite ivs r)
       = fold (\<lambda>m. umap_put (qp_session_guid m) (qp_profile_id m)) (FlattenParties (map in_party ivs)) (mr_profile_ids r)"
    "mr_access_mode (fold place_invite ivs r) = mr_access_mode r"
proof -
  have "mr_session_guids (fold place_invite ivs r) = mr_session_guids r @ party_guids (map in_party ivs) \<and>
    mr_consumed_party_ids (fold place_invite ivs r) = mr_consumed_party_ids r @ map pt_party_id (map in_party ivs) \<and>
    mr_task_force_assignments (fold place_invite ivs r)
       = fold (\<lambda>iv. umap_put (hd (member_guids (in_party iv))) (in_tf iv)) ivs (mr_task_force_assignments r) \<and>
    mr_profile_ids (fold place_invite ivs r)
       = fold (\<lambda>m. umap_put (qp_session_guid m) (qp_profile_id m)) (FlattenParties (map in_party ivs)) (mr_profile_ids r) \<and>
    mr_access_mode (fold place_invite ivs r) = mr_access_mode r"
    using assms
  proof (induction ivs arbitrary: r)
    case (Cons iv ivs)
    obtain m where m: "pt_members (in_party iv) = [m]"
      using Cons.prems by (auto simp: pt_size_def length_Suc_conv)
    show ?case
      using Cons.IH [of "place_invite iv r"] Cons.prems
      by (simp add: place_invite_def m place_member_def)
  qed simp
  then show "mr_session_guids (fold place_invite ivs r) = mr_session_guids r @ party_guids (map in_party ivs)"
    "mr_consumed_party_ids (fold place_invite ivs r) = mr_consumed_party_ids r @ map pt_party_id (map in_party ivs)"
    "mr_task_force_assignments (fold place_invite ivs r)
       = fold (\<lambda>iv. umap_put (hd (member_guids (in_party iv))) (in_tf iv)) ivs (mr_task_force_assignments r)"
    "mr_profile_ids (fold place_invite ivs r)
       = fold (\<lambda>m. umap_put (qp_session_guid m) (qp_profile_id m)) (FlattenParties (map in_party ivs)) (mr_profile_ids r)"
    "mr_access_mode (fold place_invite ivs r) = mr_access_mode r" by blast+
qed

lemma backfill_invites_props:
  assumes "queue_ok ps" "instance_wf inst" "ivs = backfill_invites cfg ps inst"
  shows "distinct (map in_party ivs)" "\<forall>iv \<in> set ivs. in_party iv \<in> set ps \<and> pt_size (in_party iv) = 1 \<and> (in_tf iv = 1 \<or> in_tf iv = 2)"
    "seats_free inst < 0 \<or> int (length ivs) \<le> seats_free inst"
proof -
  have wf: "umap_wf (sd_class_counts (ri_team1 inst))" "umap_wf (sd_class_counts (ri_team2 inst))"
    using assms(2) by (simp_all add: instance_wf_def)
  have solo: "pt_size p = 1" if "solo_of c p" for c p
    using that by (auto simp: solo_of_def pt_size_def split: list.splits)
  have "distinct (map in_party ivs) \<and>
    (\<forall>iv \<in> set ivs. in_party iv \<in> set ps \<and> pt_size (in_party iv) = 1 \<and> (in_tf iv = 1 \<or> in_tf iv = 2)) \<and>
    (seats_free inst < 0 \<or> int (length ivs) \<le> seats_free inst)"
  proof (cases "PlanDeficitBackfill ps inst = [] \<and> qc_pair_backfill cfg")
    case False
    then have "ivs = PlanDeficitBackfill ps inst" by (auto simp: assms(3) backfill_invites_def Let_def)
    note rep = PlanDeficitBackfill_repairs [OF wf this]
    have "in_party iv \<in> set ps \<and> pt_size (in_party iv) = 1 \<and> (in_tf iv = 1 \<or> in_tf iv = 2)"
      if "iv \<in> set ivs" for iv
    proof -
      obtain c where "in_party iv \<in> set ps" "solo_of c (in_party iv)" "in_tf iv = class_tf inst c"
        using rep \<open>iv \<in> set ivs\<close> by blast
      then show ?thesis using solo by (simp add: class_tf_def)
    qed
    then show ?thesis using rep by blast
  next
    case True
    then have ivs: "ivs = PlanPairJoin ps inst" by (simp add: assms(3) backfill_invites_def Let_def)
    show ?thesis
    proof (cases ivs)
      case (Cons i rest)
      obtain p1 p2 where p: "(p1, p2) = (if in_tf i = 1 then (in_party i, in_party (hd rest)) else (in_party (hd rest), in_party i))"
        by (metis surj_pair)
      from PlanPairJoin_keeps_even [OF wf _ p] ivs Cons
      have rest: "length rest = 1" "{in_tf i, in_tf (hd rest)} = {1, 2}"
        "subseq [in_party i, in_party (hd rest)] (PartiesByPriority ps)"
        and one: "\<exists>a b. pt_members p1 = [a] \<and> pt_members p2 = [b]" by blast+
      obtain j where j: "rest = [j]" using rest(1) by (auto simp: length_Suc_conv)
      have d: "distinct [in_party i, in_party j] \<and> set [in_party i, in_party j] \<subseteq> set ps"
        using subseq_distinct_subset [OF rest(3)] queue_ok_distinct [OF assms(1)] j by simp
      have sz: "pt_size (in_party i) = 1" "pt_size (in_party j) = 1"
        using one p j by (auto simp: pt_size_def split: if_splits)
      have "seats_free inst < 0 \<or> 2 \<le> seats_free inst"
        using Cons ivs by (auto simp: PlanPairJoin_def split: if_splits)
      then show ?thesis using d sz rest(2) unfolding Cons j by auto
    qed auto
  qed
  then show "distinct (map in_party ivs)" "\<forall>iv \<in> set ivs. in_party iv \<in> set ps \<and> pt_size (in_party iv) = 1 \<and> (in_tf iv = 1 \<or> in_tf iv = 2)"
    "seats_free inst < 0 \<or> int (length ivs) \<le> seats_free inst" by blast+
qed

lemma place_invites_ok:
  assumes ok: "queue_ok ps" and d: "distinct (map in_party ivs)" and ne: "ivs \<noteq> []"
    and ivs: "\<forall>iv \<in> set ivs. in_party iv \<in> set ps \<and> pt_size (in_party iv) = 1 \<and> (in_tf iv = 1 \<or> in_tf iv = 2)"
  shows "result_ok ps (fold place_invite ivs empty_result)"
proof (rule place_parties_ok [OF ok _ d])
  let ?r = "fold place_invite ivs empty_result" and ?key = "\<lambda>iv. hd (member_guids (in_party iv))"
  have solo: "\<forall>iv \<in> set ivs. pt_size (in_party iv) = 1" using ivs by blast
  note f = fold_place_invite [OF solo, of empty_result]
  show "map in_party ivs \<noteq> []" "set (map in_party ivs) \<subseteq> set ps" using ne ivs by auto
  show "mr_consumed_party_ids ?r = map pt_party_id (map in_party ivs)"
    "mr_session_guids ?r = party_guids (map in_party ivs)"
    using f(1,2) by (simp_all add: empty_result_def)
  have q: "queue_ok (map in_party ivs)" by (rule queue_ok_subset [OF ok d]) (use ivs in auto)
  have keys: "map ?key ivs = party_guids (map in_party ivs)"
    using solo by (induction ivs) (auto simp: pt_size_def length_Suc_conv)
  have dk: "distinct (map ?key ivs)" using q unfolding keys by (simp add: queue_ok_def)
  have find: "map_of (mr_task_force_assignments ?r) (?key iv) = Some (in_tf iv)" if "iv \<in> set ivs" for iv
    unfolding f(3) by (rule ud.find_fold_put_distinct [OF dk that])
  have guid: "g \<in> set (party_guids (map in_party ivs)) \<longleftrightarrow> (\<exists>iv \<in> set ivs. g = ?key iv)" for g
    unfolding keys [symmetric] by auto
  show "sided (mr_task_force_assignments ?r) g" if "g \<in> set (party_guids (map in_party ivs))" for g
    using that find ivs unfolding guid by (metis sided_def)
  show "map_of (mr_task_force_assignments ?r) g \<noteq> None \<longleftrightarrow> g \<in> set (party_guids (map in_party ivs))" for g
  proof (cases "g \<in> set (party_guids (map in_party ivs))")
    case True
    then show ?thesis using find unfolding guid by auto
  next
    case False
    then have "g \<notin> ?key ` set ivs" using guid by auto
    then have "map_of (mr_task_force_assignments ?r) g = None"
      unfolding f(3) by (simp add: ud.find_fold_put_notin empty_result_def)
    then show ?thesis using False by simp
  qed
  have dm: "distinct (map qp_session_guid (FlattenParties (map in_party ivs)))"
    using q by (simp add: queue_ok_def party_guids_Flatten)
  show "map_of (mr_profile_ids ?r) (qp_session_guid m) = Some (qp_profile_id m)"
    if "m \<in> set (FlattenParties (map in_party ivs))" for m
    unfolding f(4) by (rule ud.find_fold_put_distinct [OF dm that])
qed

subsection \<open>The three rules\<close>

lemma backfill_first_SomeD:
  assumes "backfill_first cfg ps is = Some r" "queue_ok ps" "\<forall>i \<in> set is. instance_wf i"
  obtains inst ivs where "inst \<in> set is" "ri_access_mode inst = BackfillOnlyAccess"
    "ivs = backfill_invites cfg ps inst" "ivs \<noteq> []" "r = into_instance inst (fold place_invite ivs empty_result)"
  using assms(1,3)
proof (induction "is" arbitrary: thesis)
  case (Cons i "is")
  show ?case
  proof (cases "ri_access_mode i = BackfillOnlyAccess \<and> backfill_invites cfg ps i \<noteq> []")
    case True
    then have "r = into_instance i (fold place_invite (backfill_invites cfg ps i) empty_result)"
      using Cons.prems(2) by (simp add: Let_def)
    then show ?thesis using Cons.prems(1) [of i] True by simp
  next
    case False
    then have "backfill_first cfg ps is = Some r" using Cons.prems(2) by (auto simp: Let_def split: if_splits)
    then show ?thesis using Cons.IH Cons.prems(1,3) by (metis list.set_intros(2))
  qed
qed simp

lemma drop_in_first_SomeD:
  assumes "drop_in_first cfg ps is = Some r"
  obtains inst where "inst \<in> set is" "ri_access_mode inst = OpenAccess" "PackParties ps (seats_free inst) \<noteq> []"
    "r = into_instance inst (BuildResult (PackParties ps (seats_free inst)) (qc_taskforce_policy cfg)
       (qc_team_side_policy cfg) (ri_team1 inst) (ri_team2 inst) OpenAccess [])"
  using assms
proof (induction "is" arbitrary: thesis)
  case (Cons i "is")
  show ?case
  proof (cases "ri_access_mode i = OpenAccess \<and> PackParties ps (seats_free i) \<noteq> []")
    case True
    then show ?thesis using Cons.prems(1) [of i] Cons.prems(2) by (simp add: Let_def)
  next
    case False
    then have "drop_in_first cfg ps is = Some r" using Cons.prems(2) by (auto simp: Let_def split: if_splits)
    then show ?thesis using Cons.IH Cons.prems(1) by (metis list.set_intros(2))
  qed
qed simp

lemma into_instance_fields [simp]:
  "mr_consumed_party_ids (into_instance i r) = mr_consumed_party_ids r"
  "mr_session_guids (into_instance i r) = mr_session_guids r"
  "mr_task_force_assignments (into_instance i r) = mr_task_force_assignments r"
  "mr_profile_ids (into_instance i r) = mr_profile_ids r"
  "mr_access_mode (into_instance i r) = mr_access_mode r"
  "mr_existing_instance_id (into_instance i r) = Some (ri_instance_id i)"
  by (simp_all add: into_instance_def)

text \<open>The three ways \<open>PlacePool\<close> produces a match.\<close>

lemma PlacePool_cases:
  assumes "PlacePool cfg ps is = Some r" "queue_ok ps" "\<forall>i \<in> set is. instance_wf i"
  obtains (backfill) inst ivs where "backfill_queue cfg" "inst \<in> set is" "ri_access_mode inst = BackfillOnlyAccess"
      "ivs = backfill_invites cfg ps inst" "ivs \<noteq> []" "r = into_instance inst (fold place_invite ivs empty_result)"
    | (drop_in) inst where "inst \<in> set is" "ri_access_mode inst = OpenAccess"
      "PackParties (PartiesByWaitAsc ps) (seats_free inst) \<noteq> []"
      "r = into_instance inst (BuildResult (PackParties (PartiesByWaitAsc ps) (seats_free inst)) (qc_taskforce_policy cfg)
         (qc_team_side_policy cfg) (ri_team1 inst) (ri_team2 inst) OpenAccess [])"
    | (spawn) "fresh_spawn cfg ps = Some r"
proof -
  have ne: "ps \<noteq> []" using assms(1) by (auto simp: PlacePool_def)
  consider "backfill_queue cfg" "backfill_first cfg ps is = Some r"
    | "drop_in_first cfg (PartiesByWaitAsc ps) is = Some r" | "fresh_spawn cfg ps = Some r"
    using assms(1) ne by (auto simp: PlacePool_def split: option.splits if_splits)
  then show ?thesis
  proof cases
    case 1
    show ?thesis by (rule backfill_first_SomeD [OF 1(2) assms(2,3)]) (rule backfill [OF 1(1)])
  next
    case 2
    show ?thesis by (rule drop_in_first_SomeD [OF 2]) (rule drop_in)
  qed (rule spawn)
qed

definition spawn_choice :: "QueueConfig \<Rightarrow> QueuedParty list \<Rightarrow> QueuedParty list" where
  "spawn_choice cfg ps = (if strict_queue cfg then SelectClassEqualSubset ps (spawn_cap cfg)
     else PackParties (PartiesByWaitAsc ps) (spawn_cap cfg))"

lemma spawn_choice_subset:
  "distinct ps \<Longrightarrow> distinct (spawn_choice cfg ps) \<and> set (spawn_choice cfg ps) \<subseteq> set ps"
  using subseq_distinct_subset [OF conjunct1 [OF SelectClassEqualSubset_even [of ps "spawn_cap cfg"]]]
    subseq_distinct_subset [OF PackParties_props(1) [of "PartiesByWaitAsc ps" "spawn_cap cfg"]]
  by (simp add: spawn_choice_def)

lemma fresh_spawn_SomeD:
  assumes "fresh_spawn cfg ps = Some r"
  shows "spawn_choice cfg ps \<noteq> []" "mr_session_guids r = party_guids (spawn_choice cfg ps)"
    "mr_consumed_party_ids r = map pt_party_id (spawn_choice cfg ps)"
    "mr_existing_instance_id r = None"
    "mr_access_mode r = (if backfill_queue cfg then BackfillOnlyAccess else OpenAccess)"
    "mr_owner_party_ids r = []"
    "mr_cap_override r = (if backfill_queue cfg then Some (of_nat (length (mr_session_guids r))) else None)"
    "queue_ok ps \<Longrightarrow> result_ok ps r"
proof -
  let ?b = "BuildResult (spawn_choice cfg ps) (qc_taskforce_policy cfg) (qc_team_side_policy cfg)
    empty_seed empty_seed OpenAccess []"
  have ne: "spawn_choice cfg ps \<noteq> []" and r: "r = (if backfill_queue cfg
      then ?b\<lparr>mr_access_mode := BackfillOnlyAccess, mr_cap_override := Some (of_nat (length (mr_session_guids ?b)))\<rparr>
      else ?b)"
    using assms by (auto simp: fresh_spawn_def Let_def spawn_choice_def split: if_splits)
  then show "spawn_choice cfg ps \<noteq> []" "mr_session_guids r = party_guids (spawn_choice cfg ps)"
    "mr_consumed_party_ids r = map pt_party_id (spawn_choice cfg ps)"
    "mr_existing_instance_id r = None"
    "mr_access_mode r = (if backfill_queue cfg then BackfillOnlyAccess else OpenAccess)"
    "mr_owner_party_ids r = []"
    "mr_cap_override r = (if backfill_queue cfg then Some (of_nat (length (mr_session_guids r))) else None)"
    by (simp_all add: BuildResult_fields)
  assume ok: "queue_ok ps"
  have "result_ok ps ?b"
    by (rule BuildResult_ok [OF ok ne]) (use spawn_choice_subset [OF queue_ok_distinct [OF ok]] in auto)
  then show "result_ok ps r" unfolding r by (auto elim: result_ok_cong)
qed

lemma PlacePool_ok:
  assumes "PlacePool cfg ps is = Some r" "queue_ok ps" "\<forall>i \<in> set is. instance_wf i"
  shows "result_ok ps r"
  using assms
proof (cases rule: PlacePool_cases)
  case (backfill inst ivs)
  note p = backfill_invites_props [OF assms(2) _ backfill(4)]
  have "result_ok ps (fold place_invite ivs empty_result)"
    by (rule place_invites_ok [OF assms(2) p(1) backfill(5) p(2)]) (use assms(3) backfill(2) in blast)+
  then show ?thesis unfolding backfill(6) by (rule result_ok_cong) simp_all
next
  case (drop_in inst)
  have sub: "distinct (PackParties (PartiesByWaitAsc ps) (seats_free inst)) \<and>
      set (PackParties (PartiesByWaitAsc ps) (seats_free inst)) \<subseteq> set ps"
    using subseq_distinct_subset [OF PackParties_props(1) [of "PartiesByWaitAsc ps" "seats_free inst"]]
      queue_ok_distinct [OF assms(2)] by simp
  have "result_ok ps (BuildResult (PackParties (PartiesByWaitAsc ps) (seats_free inst)) (qc_taskforce_policy cfg)
         (qc_team_side_policy cfg) (ri_team1 inst) (ri_team2 inst) OpenAccess [])"
    by (rule BuildResult_ok [OF assms(2) drop_in(3)]) (use sub in auto)
  then show ?thesis unfolding drop_in(4) by (rule result_ok_cong) simp_all
next
  case spawn
  then show ?thesis using fresh_spawn_SomeD(8) assms(2) by blast
qed

lemma result_ok_mono:
  assumes "result_ok qs r" "queue_ok ps" "distinct qs" "set qs \<subseteq> set ps"
  shows "result_ok ps r"
proof -
  have "inj_on pt_party_id (set ps)" using assms(2) by (simp add: queue_ok_def distinct_map)
  moreover have "set (mr_consumed_party_ids r) \<subseteq> pt_party_id ` set qs" using assms(1) by (simp add: result_ok_def)
  ultimately have "set (consumed r ps) = set (consumed r qs)"
    using assms(4) by (auto simp: consumed_def dest: inj_onD)
  moreover have "distinct (consumed r ps)" "distinct (consumed r qs)"
    using queue_ok_distinct [OF assms(2)] assms(3) by (simp_all add: consumed_def)
  ultimately have m: "mset (consumed r ps) = mset (consumed r qs)" using set_eq_iff_mset_eq_distinct by blast
  have "set (FlattenParties (consumed r ps)) = set (FlattenParties (consumed r qs))"
    using m by (metis FlattenParties_def mset_eq_setD set_concat set_map)
  moreover have "set (mr_consumed_party_ids r) \<subseteq> pt_party_id ` set ps"
    using assms(1,4) by (meson image_mono order_trans result_ok_def)
  ultimately show ?thesis
    using assms(1) mset_party_guids [OF m] unfolding result_ok_def by simp
qed

lemma hd_wait: "ps \<noteq> [] \<Longrightarrow> hd (PartiesByWaitAsc ps) \<in> set ps"
  by (metis PartiesByWaitAsc_set PartiesByWaitAsc_def stable_sort_empty_iff list.set_sel(1))

lemma filter_queue_ok: "queue_ok ps \<Longrightarrow> queue_ok (filter P ps)"
  by (rule queue_ok_subset) (auto simp: queue_ok_distinct)

text \<open>Where a Coop match comes from: one private party, or the shared pool.\<close>

definition coop_split :: "QueueConfig \<Rightarrow> bool" where
  "coop_split cfg \<longleftrightarrow> qc_min_players_to_pop cfg \<le> 1"

definition coop_private :: "QueueConfig \<Rightarrow> QueuedParty \<Rightarrow> bool" where
  \<comment> \<open>a solo player with the lock set, in a queue that can pop a single player\<close>
  "coop_private cfg p \<longleftrightarrow> coop_split cfg \<and> \<not> pt_is_team p \<and> wants_own p"

lemma CoopEvaluate_cases:
  assumes "CoopEvaluate cfg ps is = Some r"
  obtains (own) p where "p \<in> set ps" "r = BuildOwnMatch cfg p"
      "(coop_private cfg p \<and> (\<forall>q \<in> set ps. coop_private cfg q \<longrightarrow> pt_joined_at p \<le> pt_joined_at q))
       \<or> ((\<forall>q \<in> set ps. \<not> coop_private cfg q) \<and> qc_team_policy cfg = OwnMatch \<and> pt_is_team p)"
    | (pool) pool where "set pool \<subseteq> set ps" "queue_ok ps \<Longrightarrow> queue_ok pool"
      "\<forall>q \<in> set ps. \<not> coop_private cfg q" "qc_team_policy cfg \<noteq> Mixed \<longrightarrow> (\<forall>q \<in> set pool. \<not> pt_is_team q)"
      "PlacePool cfg pool is = Some r"
proof -
  have ne: "ps \<noteq> []" using assms by (auto simp: CoopEvaluate_def)
  define solos0 where "solos0 = filter (\<lambda>p. \<not> pt_is_team p) ps"
  define teams where "teams = filter pt_is_team ps"
  define locked where "locked = (if coop_split cfg then filter wants_own solos0 else [])"
  define solos where "solos = (if coop_split cfg then filter (\<lambda>p. \<not> wants_own p) solos0 else solos0)"
  have priv: "set locked = {q \<in> set ps. coop_private cfg q}"
    by (auto simp: locked_def solos0_def coop_private_def)
  have eq: "CoopEvaluate cfg ps is =
     (if locked \<noteq> [] then Some (BuildOwnMatch cfg (hd (PartiesByWaitAsc locked)))
      else (case qc_team_policy cfg of
          OwnMatch \<Rightarrow> if teams \<noteq> [] then Some (BuildOwnMatch cfg (hd (PartiesByWaitAsc teams))) else PlacePool cfg solos is
        | Block \<Rightarrow> PlacePool cfg solos is
        | Mixed \<Rightarrow> PlacePool cfg (teams @ solos) is
        | VersusSides \<Rightarrow> None))"
    using ne by (simp only: CoopEvaluate_def Partition_def prod.case Let_def if_False coop_split_def [symmetric]
        solos0_def [symmetric] teams_def [symmetric] locked_def [symmetric] solos_def [symmetric])
  have solo_sub: "set solos \<subseteq> set ps" "\<forall>q \<in> set solos. \<not> pt_is_team q"
    by (auto simp: solos_def solos0_def)
  have ok_solos: "queue_ok solos" if "queue_ok ps"
    using that by (auto simp: solos_def solos0_def filter_queue_ok)
  show ?thesis
  proof (cases "locked = []")
    case False
    let ?p = "hd (PartiesByWaitAsc locked)"
    have p: "?p \<in> set locked" by (rule hd_wait [OF False])
    have "pt_joined_at ?p \<le> pt_joined_at q" if "q \<in> set locked" for q
      using wait.hd_stable_sort_min [of locked q] that by (simp add: PartiesByWaitAsc_def not_less)
    then show ?thesis using own [of ?p] p False assms priv unfolding eq by auto
  next
    case True
    then have nopriv: "\<forall>q \<in> set ps. \<not> coop_private cfg q" using priv by auto
    show ?thesis
    proof (cases "qc_team_policy cfg")
      case Block
      then show ?thesis using pool [OF solo_sub(1) ok_solos nopriv] solo_sub(2) assms True unfolding eq by simp
    next
      case OwnMatch
      show ?thesis
      proof (cases "teams = []")
        case True': True
        then show ?thesis using pool [OF solo_sub(1) ok_solos nopriv] solo_sub(2) assms True OwnMatch unfolding eq by simp
      next
        case False
        let ?p = "hd (PartiesByWaitAsc teams)"
        have "?p \<in> set ps" "pt_is_team ?p" using hd_wait [OF False] by (auto simp: teams_def)
        then show ?thesis using own [of ?p] nopriv False True OwnMatch assms unfolding eq by auto
      qed
    next
      case Mixed
      have "set (teams @ solos) \<subseteq> set ps" using solo_sub by (auto simp: teams_def)
      moreover have "queue_ok (teams @ solos)" if "queue_ok ps"
      proof (rule queue_ok_subset [OF that])
        show "distinct (teams @ solos)"
          using queue_ok_distinct [OF that] by (auto simp: teams_def solos_def solos0_def)
      qed (use solo_sub in \<open>auto simp: teams_def\<close>)
      ultimately show ?thesis using pool [of "teams @ solos"] nopriv assms True Mixed unfolding eq by simp
    next
      case VersusSides
      then show ?thesis using assms True unfolding eq by simp
    qed
  qed
qed

interpretation coop: match_rule "CoopEvaluate cfg" for cfg
proof
  fix ps "is" r
  assume a: "queue_ok ps" "\<forall>i \<in> set is. instance_wf i" "CoopEvaluate cfg ps is = Some r"
  from a(3) show "result_ok ps r"
  proof (cases rule: CoopEvaluate_cases)
    case (own p)
    then show ?thesis using BuildOwnMatch_ok [OF a(1)] by blast
  next
    case (pool pool)
    have q: "queue_ok pool" by (rule pool(2) [OF a(1)])
    show ?thesis
      by (rule result_ok_mono [OF PlacePool_ok [OF pool(5) q a(2)] a(1) queue_ok_distinct [OF q] pool(1)])
  qed
qed

subsection \<open>Double agent and versus sides\<close>

lemma agent_step_eq:
  "agent_step p (ch, tot) = (if tot + int (pt_size p) > 10 \<or> int (pt_size p) > 10 then (ch, tot)
     else (ch @ [p], tot + int (pt_size p)))"
  by (simp add: agent_step_def kMaxTotal_def Let_def)

lemma fold_agent_step:
  assumes "fold agent_step ps (ch, CountMembers ch) = (ch', tot')" "CountMembers ch \<le> 10"
  shows "subseq ch' (ch @ ps) \<and> tot' = CountMembers ch' \<and> tot' \<le> 10"
  using assms
proof (induction ps arbitrary: ch)
  case (Cons p ps)
  show ?case
  proof (cases "CountMembers ch + int (pt_size p) > 10 \<or> int (pt_size p) > 10")
    case True
    then have "fold agent_step ps (ch, CountMembers ch) = (ch', tot')" using Cons.prems by (simp add: agent_step_eq)
    from Cons.IH [OF this Cons.prems(2)] show ?thesis
      by (metis list_emb_Cons subseq_append' subseq_order.refl subseq_order.trans)
  next
    case False
    have c: "CountMembers (ch @ [p]) = CountMembers ch + int (pt_size p)"
      by (simp add: CountMembers_guids pt_size_def)
    then have "fold agent_step ps (ch @ [p], CountMembers (ch @ [p])) = (ch', tot')"
      using Cons.prems False by (auto simp: agent_step_eq)
    from Cons.IH [OF this] show ?thesis using False c by simp
  qed
qed simp

definition agent_shape :: "int \<Rightarrow> int \<times> int" where
  "agent_shape tot = kShapeTable ! nat (tot - 2)"

lemma agent_shape_cases:
  assumes "2 \<le> tot" "tot \<le> 10"
  shows "fst (agent_shape tot) + snd (agent_shape tot) = tot" "1 \<le> snd (agent_shape tot)"
    "snd (agent_shape tot) \<le> fst (agent_shape tot)"
proof -
  have "tot \<in> {2, 3, 4, 5, 6, 7, 8, 9, 10}" using assms by auto
  then show "fst (agent_shape tot) + snd (agent_shape tot) = tot" "1 \<le> snd (agent_shape tot)"
    "snd (agent_shape tot) \<le> fst (agent_shape tot)"
    by (auto simp: agent_shape_def kShapeTable_def)
qed

lemma DoubleAgentEvaluate_SomeD:
  assumes "DoubleAgentEvaluate cfg ps is = Some r"
  obtains chosen asg spilled where "subseq chosen (PartiesByWaitAsc ps)" "chosen \<noteq> []"
    "2 \<le> CountMembers chosen" "CountMembers chosen \<le> 10"
    "RotationAssign chosen (fst (agent_shape (CountMembers chosen))) (snd (agent_shape (CountMembers chosen))) = (asg, spilled)"
    "r = fold (place_party (\<lambda>m. umap_get 1 asg (qp_session_guid m)) (\<lambda>_. None)) chosen
       (empty_result\<lparr>mr_access_mode := Sealed, mr_cap_override := Some (of_int (CountMembers chosen)),
          mr_cohesion_spilled := spilled\<rparr>)"
proof -
  obtain chosen tot where f: "fold agent_step (PartiesByWaitAsc ps) ([], CountMembers []) = (chosen, tot)" by force
  have props: "subseq chosen (PartiesByWaitAsc ps)" "tot = CountMembers chosen" "tot \<le> 10"
    using fold_agent_step [OF f] by (simp_all add: CountMembers_def)
  have tot: "2 \<le> tot"
    using assms f by (auto simp: DoubleAgentEvaluate_def CountMembers_def kMinTotal_def split: if_splits prod.splits)
  then have "chosen \<noteq> []" using props(2) by (auto simp: CountMembers_def)
  obtain asg spilled where rot: "RotationAssign chosen (fst (agent_shape tot)) (snd (agent_shape tot)) = (asg, spilled)"
    by force
  have "r = fold (place_party (\<lambda>m. umap_get 1 asg (qp_session_guid m)) (\<lambda>_. None)) chosen
       (empty_result\<lparr>mr_access_mode := Sealed, mr_cap_override := Some (of_int tot), mr_cohesion_spilled := spilled\<rparr>)"
    using assms f rot tot
    by (auto simp: DoubleAgentEvaluate_def CountMembers_def kMinTotal_def agent_shape_def split: if_splits prod.splits)
  then show ?thesis using that props tot rot \<open>chosen \<noteq> []\<close> by simp
qed

interpretation agents: match_rule "DoubleAgentEvaluate cfg" for cfg
proof
  fix ps "is" r
  assume a: "queue_ok ps" "\<forall>i \<in> set is. instance_wf i" "DoubleAgentEvaluate cfg ps is = Some r"
  obtain chosen asg spilled where c: "subseq chosen (PartiesByWaitAsc ps)" "chosen \<noteq> []"
    "2 \<le> CountMembers chosen" "CountMembers chosen \<le> 10"
    "RotationAssign chosen (fst (agent_shape (CountMembers chosen))) (snd (agent_shape (CountMembers chosen))) = (asg, spilled)"
    "r = fold (place_party (\<lambda>m. umap_get 1 asg (qp_session_guid m)) (\<lambda>_. None)) chosen
       (empty_result\<lparr>mr_access_mode := Sealed, mr_cap_override := Some (of_int (CountMembers chosen)),
          mr_cohesion_spilled := spilled\<rparr>)"
    using DoubleAgentEvaluate_SomeD [OF a(3)] by metis
  have sub: "distinct chosen" "set chosen \<subseteq> set ps"
    using subseq_distinct_subset [OF c(1)] queue_ok_distinct [OF a(1)] by simp_all
  have dg: "distinct (party_guids chosen)"
    using queue_ok_subset [OF a(1) sub] by (simp add: queue_ok_def)
  have k: "0 \<le> snd (agent_shape (CountMembers chosen))"
    "snd (agent_shape (CountMembers chosen)) \<le> int (length (party_guids chosen))"
    using agent_shape_cases [OF c(3,4)] by (simp_all add: CountMembers_guids [symmetric])
  note ex = RotationAssign_exact [OF dg c(2) k c(5)]
  show "result_ok ps r"
    unfolding c(6)
  proof (rule fold_place_party_ok [OF a(1) c(2) sub])
    fix m assume "m \<in> set (FlattenParties chosen)"
    then have "sided asg (qp_session_guid m)" using ex by (simp add: sided_def party_guids_Flatten)
    then show "umap_get 1 asg (qp_session_guid m) = 1 \<or> umap_get 1 asg (qp_session_guid m) = 2"
      by (rule umap_get_sided)
  qed (simp_all add: empty_result_def)
qed

lemma VersusSidesEvaluate_SomeD:
  assumes "VersusSidesEvaluate cfg ps is = Some r"
  obtains a b rest where "PartiesByWaitAsc ps = a # b # rest"
    "r = place_party (\<lambda>_. 2) (\<lambda>_. None) b (place_party (\<lambda>_. 1) (\<lambda>_. None) a
       (empty_result\<lparr>mr_access_mode := PartyLocked, mr_owner_party_ids := [pt_party_id a, pt_party_id b]\<rparr>))"
  using assms by (auto simp: VersusSidesEvaluate_def split: list.splits)

lemma place_party_fields:
  "mr_session_guids (place_party tf mmr p r) = mr_session_guids r @ member_guids p"
  "mr_consumed_party_ids (place_party tf mmr p r) = mr_consumed_party_ids r @ [pt_party_id p]"
  "mr_task_force_assignments (place_party tf mmr p r)
     = fold (\<lambda>m. umap_put (qp_session_guid m) (tf m)) (pt_members p) (mr_task_force_assignments r)"
  "mr_profile_ids (place_party tf mmr p r)
     = fold (\<lambda>m. umap_put (qp_session_guid m) (qp_profile_id m)) (pt_members p) (mr_profile_ids r)"
  by (simp_all add: place_party_def fold_place_member)

interpretation versus: match_rule "VersusSidesEvaluate cfg" for cfg
proof
  fix ps "is" r
  assume h: "queue_ok ps" "\<forall>i \<in> set is. instance_wf i" "VersusSidesEvaluate cfg ps is = Some r"
  obtain a b rest where ab: "PartiesByWaitAsc ps = a # b # rest"
    and r: "r = place_party (\<lambda>_. 2) (\<lambda>_. None) b (place_party (\<lambda>_. 1) (\<lambda>_. None) a
       (empty_result\<lparr>mr_access_mode := PartyLocked, mr_owner_party_ids := [pt_party_id a, pt_party_id b]\<rparr>))"
    using VersusSidesEvaluate_SomeD [OF h(3)] by metis
  have "distinct (a # b # rest)" "set (a # b # rest) = set ps"
    using ab queue_ok_distinct [OF h(1)] by (metis wait_distinct, metis PartiesByWaitAsc_set)
  then have sub: "distinct [a, b]" "set [a, b] \<subseteq> set ps" by auto
  have q: "queue_ok [a, b]" by (rule queue_ok_subset [OF h(1) sub])
  then have d: "distinct (map qp_session_guid (pt_members a))" "distinct (map qp_session_guid (pt_members b))"
    "set (member_guids a) \<inter> set (member_guids b) = {}" by (auto simp: queue_ok_def)
  have tf: "map_of (mr_task_force_assignments r) g
      = (if g \<in> set (member_guids b) then Some 2 else if g \<in> set (member_guids a) then Some 1 else None)" for g
    by (simp add: r place_party_fields ud.find_fold_put_const [where key = qp_session_guid] empty_result_def)
  have profile: "mr_profile_ids r = fold (\<lambda>m. umap_put (qp_session_guid m) (qp_profile_id m)) (FlattenParties [a, b]) []"
    by (simp add: r place_party_fields empty_result_def FlattenParties_def)
  show "result_ok ps r"
  proof (rule place_parties_ok [OF h(1) _ sub])
    show "mr_consumed_party_ids r = map pt_party_id [a, b]" "mr_session_guids r = party_guids [a, b]"
      by (simp_all add: r place_party_fields empty_result_def)
    show "map_of (mr_task_force_assignments r) g \<noteq> None \<longleftrightarrow> g \<in> set (party_guids [a, b])" for g
      by (auto simp: tf)
    show "sided (mr_task_force_assignments r) g" if "g \<in> set (party_guids [a, b])" for g
      using that by (auto simp: tf sided_def)
    show "map_of (mr_profile_ids r) (qp_session_guid m) = Some (qp_profile_id m)"
      if "m \<in> set (FlattenParties [a, b])" for m
      unfolding profile
      by (rule ud.find_fold_put_distinct [OF _ that]) (use q in \<open>simp add: queue_ok_def FlattenParties_def\<close>)
  qed simp
qed

interpretation rule: match_rule "RuleEvaluate cfg" for cfg
  using coop.evaluate_ok agents.evaluate_ok versus.evaluate_ok
  by unfold_locales (auto simp: RuleEvaluate_def split: RuleKind.splits)

section \<open>Properties\<close>

definition ex_cfg :: QueueConfig where
  "ex_cfg = \<lparr>qc_queue_id = 1, qc_map_pool_id = 1, qc_name = ''merc'', qc_rule_class = [],
     qc_taskforce_policy = BalancedPvp, qc_continue_in_queue = False, qc_enabled = True,
     qc_team_policy = Mixed, qc_team_side_policy = Preferred, qc_max_team_size = 0,
     qc_queue_type_value_id = 0, qc_status_msg_id = 0, qc_name_msg_id = 0, qc_desc_msg_id = 0,
     qc_icon_id = 0, qc_max_players_per_side = 0, qc_min_players_per_team = 1,
     qc_max_players_per_team = 10, qc_level_min = 1, qc_level_max = 200, qc_tab = 0,
     qc_map_x = 0, qc_map_y = 0, qc_map_active_flag = True, qc_map_icon_texture_res_id = 0,
     qc_video_res_id = 0, qc_location_value_id = 0, qc_double_agent_flag = False,
     qc_sys_site_id = 0, qc_sort_order = 0, qc_bonus_queue_flag = False,
     qc_difficulty_value_id = 0, qc_marshal_difficulty_value_id = None, qc_access_flags = 0,
     qc_active_flag = True, qc_locked_flag = False, qc_remaining_seconds = None,
     qc_min_players_to_pop = 1, qc_max_players_per_instance = 4, qc_pop_delay_seconds = 0,
     qc_pop_delay_policy = HalveOnJoin, qc_instant_pop_when_full = True,
     qc_requires_pvp_verification = False, qc_strict_class_balance = True,
     qc_late_join_policy = BackfillOnly, qc_pair_backfill = True, qc_setup_rebalance = True,
     qc_fairness_scope = ''merc'', qc_map_recency_divisors = [], qc_map_pool = []\<rparr>"

lemma queue_ok_ex_pool: "queue_ok ex_pool"
  by (simp add: queue_ok_def ex_pool_def ex_solo_party_def ex_member_def)

lemma ex_spawn:
  "map_option mr_consumed_party_ids (RuleEvaluate ex_cfg ex_pool []) = Some [3, 1]"
  by code_simp

text \<open>
  C1. Whatever rule a queue uses, a pop is atomic and complete: it consumes at least one
  party, each at most once and only queued ones; the matched players are exactly the members
  of the consumed parties; every one of them, and nobody else, has task force 1 or 2; and
  each carries the class queued with.
\<close>

theorem rule_result_complete:
  assumes "queue_ok parties" "\<forall>i \<in> set instances. instance_wf i"
    and "RuleEvaluate cfg parties instances = Some r"
  shows "result_ok parties r"
  by (rule rule.evaluate_ok [OF assms])

theorem rule_result_complete_witness:
  "\<exists>r. RuleEvaluate ex_cfg ex_pool [] = Some r \<and> result_ok ex_pool r"
  using ex_spawn rule_result_complete [OF queue_ok_ex_pool, of "[]" ex_cfg] by force

text \<open>
  C17. A pop never breaks a party: each queued party is either matched with all its members
  and gone from the queue, or none of its members is matched and it is still queued; and
  the queue gets strictly shorter.
\<close>

theorem rule_pop_atomic:
  assumes "queue_ok parties" "\<forall>i \<in> set instances. instance_wf i"
    and "RuleEvaluate cfg parties instances = Some r"
  shows "(\<forall>p \<in> set parties.
      set (member_guids p) \<subseteq> set (mr_session_guids r) \<and> p \<notin> set (remaining r parties) \<or>
      set (member_guids p) \<inter> set (mr_session_guids r) = {} \<and> p \<in> set (remaining r parties)) \<and>
    length (remaining r parties) < length parties"
  using rule.pop_atomic [OF assms] rule.pop_shrinks [OF assms] by blast

theorem rule_pop_atomic_witness:
  "\<exists>r. RuleEvaluate ex_cfg ex_pool [] = Some r \<and> length (remaining r ex_pool) < 4"
  using ex_spawn rule_pop_atomic [OF queue_ok_ex_pool, of "[]" ex_cfg] by (force simp: ex_pool_def)

text \<open>
  C18. Drop-in respects access and seats: a Coop match that joins a running instance joins
  one of the given instances that is OPEN, or BACKFILL_ONLY in a backfill queue, never a
  PARTY_LOCKED or SEALED one, and brings no more players than the instance has free seats.
\<close>

theorem coop_respects_access:
  assumes "queue_ok parties" "\<forall>i \<in> set instances. instance_wf i"
    and "CoopEvaluate cfg parties instances = Some r" "mr_existing_instance_id r = Some iid"
  shows "\<exists>inst \<in> set instances. ri_instance_id inst = iid \<and>
    (ri_access_mode inst = OpenAccess \<or> ri_access_mode inst = BackfillOnlyAccess \<and> backfill_queue cfg) \<and>
    (seats_free inst < 0 \<or> int (length (mr_session_guids r)) \<le> seats_free inst)"
  using assms(3)
proof (cases rule: CoopEvaluate_cases)
  case (own p)
  then show ?thesis using assms(4) by (simp add: BuildOwnMatch_fields)
next
  case (pool pool)
  have q: "queue_ok pool" by (rule pool(2) [OF assms(1)])
  from pool(5) q assms(2) show ?thesis
  proof (cases rule: PlacePool_cases)
    case (backfill inst ivs)
    note p = backfill_invites_props [OF q _ backfill(4)]
    have solo: "\<forall>iv \<in> set ivs. pt_size (in_party iv) = 1" using p(2) assms(2) backfill(2) by blast
    have "length (party_guids (map in_party ivs)) = length ivs"
      using solo by (induction ivs) (simp_all add: pt_size_def)
    then have "length (mr_session_guids r) = length ivs"
      by (simp add: backfill(6) fold_place_invite(1) [OF solo] empty_result_def)
    then show ?thesis using backfill p(3) assms(2,4) by (intro bexI [of _ inst]) auto
  next
    case (drop_in inst)
    have "int (length (mr_session_guids r)) = CountMembers (PackParties (PartiesByWaitAsc pool) (seats_free inst))"
      by (simp add: drop_in(4) BuildResult_fields CountMembers_guids)
    then show ?thesis
      using drop_in assms(4) PackParties_props(2) [of "seats_free inst" "PartiesByWaitAsc pool"]
      by (cases "seats_free inst < 0") (auto intro!: bexI [of _ inst])
  next
    case spawn
    then show ?thesis using fresh_spawn_SomeD(4) assms(4) by fastforce
  qed
qed

lemma ex_backfill:
  "map_option mr_existing_instance_id (CoopEvaluate ex_cfg ex_pool [ex_short]) = Some (Some 9)"
  by code_simp

theorem coop_respects_access_witness:
  "\<exists>r. CoopEvaluate ex_cfg ex_pool [ex_short] = Some r \<and> int (length (mr_session_guids r)) \<le> 16"
proof -
  obtain r where r: "CoopEvaluate ex_cfg ex_pool [ex_short] = Some r" "mr_existing_instance_id r = Some 9"
    using ex_backfill by auto
  have "\<forall>i \<in> set [ex_short]. instance_wf i"
    by (simp add: instance_wf_def ex_short_def ex_instance_def umap_wf_def)
  from coop_respects_access [OF queue_ok_ex_pool this r] r(1) show ?thesis
    by (simp add: ex_short_def ex_instance_def seats_free_def empty_seed_def)
qed

text \<open>
  A solo player who asked for a private match never shares one: where single players
  can pop, a pop that takes such a player takes nobody else, opens a fresh PARTY_LOCKED
  instance owned by that player alone, and while any such player is queued the pop serves
  the one who has waited longest.
\<close>

theorem coop_private_solo:
  assumes "queue_ok parties" "\<forall>i \<in> set instances. instance_wf i"
    and "CoopEvaluate cfg parties instances = Some r"
    and "p \<in> set parties" "coop_private cfg p"
  shows "\<exists>q \<in> set parties. coop_private cfg q \<and> pt_joined_at q \<le> pt_joined_at p \<and>
    mr_consumed_party_ids r = [pt_party_id q] \<and> mr_session_guids r = member_guids q \<and>
    mr_access_mode r = PartyLocked \<and> mr_owner_party_ids r = [pt_party_id q] \<and>
    mr_existing_instance_id r = None"
  using assms(3)
proof (cases rule: CoopEvaluate_cases)
  case (own q)
  then show ?thesis using assms(4,5) by (intro bexI [of _ q]) (auto simp: BuildOwnMatch_fields)
next
  case (pool pool)
  then show ?thesis using assms(4,5) by blast
qed

definition ex_private :: QueuedParty where
  "ex_private = (ex_solo_party 5 ''e'' 680 1500 0 9)
     \<lparr>pt_members := [(ex_member ''e'' 680 1500 0 9)\<lparr>qp_solo_lock := True\<rparr>]\<rparr>"

lemma ex_private_pop: "CoopEvaluate ex_cfg (ex_private # ex_pool) [] = Some (BuildOwnMatch ex_cfg ex_private)"
  by code_simp

theorem coop_private_solo_witness:
  "mr_session_guids (BuildOwnMatch ex_cfg ex_private) = [''e''] \<and>
   mr_access_mode (BuildOwnMatch ex_cfg ex_private) = PartyLocked"
proof -
  have ok: "queue_ok (ex_private # ex_pool)"
    by (simp add: queue_ok_def ex_private_def ex_pool_def ex_solo_party_def ex_member_def)
  have priv: "coop_private ex_cfg ex_private" "\<forall>p \<in> set ex_pool. \<not> coop_private ex_cfg p"
    by (simp_all add: coop_private_def coop_split_def ex_cfg_def ex_private_def ex_solo_party_def
        wants_own_def ex_pool_def ex_member_def)
  have nil: "\<forall>i \<in> set []. instance_wf i" and mem: "ex_private \<in> set (ex_private # ex_pool)" by simp_all
  obtain q where q: "q \<in> set (ex_private # ex_pool)" "coop_private ex_cfg q"
    "mr_session_guids (BuildOwnMatch ex_cfg ex_private) = member_guids q"
    "mr_access_mode (BuildOwnMatch ex_cfg ex_private) = PartyLocked"
    using coop_private_solo [OF ok nil ex_private_pop mem priv(1)] by blast
  have "q = ex_private" using q(1,2) priv(2) by auto
  then have "member_guids q = [''e'']" by (simp add: ex_private_def ex_member_def)
  then show ?thesis using q(3,4) by simp
qed

text \<open>
  A fresh match of a strict queue is class-even, respects the instance cap, and in a
  backfill queue is sealed to drop-in at exactly its popped size.
\<close>

theorem coop_strict_spawn:
  assumes "queue_ok parties" "\<forall>i \<in> set instances. instance_wf i" "strict_queue cfg"
    and "PlacePool cfg parties instances = Some r" "mr_existing_instance_id r = None"
  shows "even (class_size (consumed r parties) cls) \<and>
    (spawn_cap cfg \<le> 0 \<or> int (length (mr_session_guids r)) \<le> spawn_cap cfg) \<and>
    (backfill_queue cfg \<longrightarrow> mr_access_mode r = BackfillOnlyAccess \<and>
       mr_cap_override r = Some (of_nat (length (mr_session_guids r))))"
  using assms(4,1,2)
proof (cases rule: PlacePool_cases)
  case (backfill inst ivs)
  then show ?thesis using assms(5) by simp
next
  case (drop_in inst)
  then show ?thesis using assms(5) by simp
next
  case spawn
  note d = fresh_spawn_SomeD [OF spawn]
  have sel: "spawn_choice cfg parties = SelectClassEqualSubset parties (spawn_cap cfg)"
    using assms(3) by (simp add: spawn_choice_def)
  have "mset (consumed r parties) = mset (spawn_choice cfg parties)"
    by (rule consumed_mset [OF assms(1) _ _ d(3)])
      (use spawn_choice_subset [OF queue_ok_distinct [OF assms(1)]] in auto)
  then have "mset (FlattenParties (consumed r parties)) = mset (FlattenParties (spawn_choice cfg parties))"
    unfolding FlattenParties_def by (simp add: mset_concat) (metis mset_map sum_mset_sum_list)
  then have "class_size (consumed r parties) cls = class_size (spawn_choice cfg parties) cls"
    unfolding class_size_def by (metis mset_filter size_mset)
  then show ?thesis
    using SelectClassEqualSubset_even [of parties "spawn_cap cfg" cls] d(2,5,7)
    by (auto simp: sel party_guids_Flatten)
qed

lemma ex_strict_spawn: "map_option mr_existing_instance_id (PlacePool ex_cfg ex_pool []) = Some None"
  by code_simp

theorem coop_strict_spawn_witness:
  "\<exists>r. PlacePool ex_cfg ex_pool [] = Some r \<and> even (class_size (consumed r ex_pool) 680)"
proof -
  obtain r where r: "PlacePool ex_cfg ex_pool [] = Some r" "mr_existing_instance_id r = None"
    using ex_strict_spawn by auto
  have "strict_queue ex_cfg" by (simp add: strict_queue_def ex_cfg_def)
  from coop_strict_spawn [OF queue_ok_ex_pool _ this r, of 680] r(1) show ?thesis by auto
qed

text \<open>
  Packing is longest-waiting-first and greedy: the chosen parties keep the queue order,
  never exceed a seat budget, and a party is passed over only when it no longer fits beside
  the ones chosen.
\<close>

theorem pack_parties_greedy:
  "subseq (PackParties ordered budget) ordered \<and>
   (budget < 0 \<or> CountMembers (PackParties ordered budget) \<le> budget) \<and>
   (\<forall>p. p \<in> set (PackParties ordered budget) \<or> p \<notin> set ordered \<or>
      (0 \<le> budget \<and> budget < CountMembers (PackParties ordered budget) + int (pt_size p)))"
  using PackParties_props(1) [of ordered budget] PackParties_props(2) [of budget ordered]
    PackParties_props(3) [of _ ordered budget] by force

theorem pack_parties_greedy_witness:
  "CountMembers (PackParties ex_pool 3) \<le> 3 \<and> ex_pool ! 3 \<notin> set (PackParties ex_pool 3) \<and>
   3 < CountMembers (PackParties ex_pool 3) + int (pt_size (ex_pool ! 3))"
proof -
  have "PackParties ex_pool 3 = take 3 ex_pool" by code_simp
  then have "ex_pool ! 3 \<notin> set (PackParties ex_pool 3)"
    by (simp add: ex_pool_def ex_solo_party_def)
  moreover have "ex_pool ! 3 \<in> set ex_pool" by (simp add: ex_pool_def)
  ultimately show ?thesis using pack_parties_greedy [of ex_pool 3] by auto
qed

text \<open>
  A Double Agent match has between 2 and 10 players, its defender side has the size the
  shape table gives for that number, it is sealed at its popped size and never joins a
  running instance.
\<close>

theorem double_agent_shape:
  assumes "queue_ok parties" "DoubleAgentEvaluate cfg parties instances = Some r"
  shows "2 \<le> length (mr_session_guids r) \<and> length (mr_session_guids r) \<le> 10 \<and>
    (int (side_count (mr_task_force_assignments r) (mr_session_guids r) 1),
     int (side_count (mr_task_force_assignments r) (mr_session_guids r) 2))
      = kShapeTable ! (length (mr_session_guids r) - 2) \<and>
    mr_access_mode r = Sealed \<and> mr_cap_override r = Some (of_nat (length (mr_session_guids r))) \<and>
    mr_existing_instance_id r = None"
proof -
  obtain chosen asg spilled where c: "subseq chosen (PartiesByWaitAsc parties)" "chosen \<noteq> []"
    "2 \<le> CountMembers chosen" "CountMembers chosen \<le> 10"
    "RotationAssign chosen (fst (agent_shape (CountMembers chosen))) (snd (agent_shape (CountMembers chosen))) = (asg, spilled)"
    "r = fold (place_party (\<lambda>m. umap_get 1 asg (qp_session_guid m)) (\<lambda>_. None)) chosen
       (empty_result\<lparr>mr_access_mode := Sealed, mr_cap_override := Some (of_int (CountMembers chosen)),
          mr_cohesion_spilled := spilled\<rparr>)"
    using DoubleAgentEvaluate_SomeD [OF assms(2)] by metis
  let ?tot = "CountMembers chosen" and ?gs = "party_guids chosen"
  have sub: "distinct chosen" "set chosen \<subseteq> set parties"
    using subseq_distinct_subset [OF c(1)] queue_ok_distinct [OF assms(1)] by simp_all
  have dg: "distinct ?gs" using queue_ok_subset [OF assms(1) sub] by (simp add: queue_ok_def)
  note shape = agent_shape_cases [OF c(3,4)]
  have k: "0 \<le> snd (agent_shape ?tot)" "snd (agent_shape ?tot) \<le> int (length ?gs)"
    using shape by (simp_all add: CountMembers_guids [symmetric])
  note ex = RotationAssign_exact [OF dg c(2) k c(5)]
  have guids: "mr_session_guids r = ?gs" by (simp add: c(6) fold_place_party empty_result_def)
  have tf: "map_of (mr_task_force_assignments r) g = map_of asg g" if g: "g \<in> set ?gs" for g
  proof -
    obtain m where m: "m \<in> set (FlattenParties chosen)" "g = qp_session_guid m"
      using g by (auto simp: party_guids_Flatten)
    have "map_of (mr_task_force_assignments r) g = Some (umap_get 1 asg g)"
      unfolding c(6) fold_place_party(3) m(2)
      by (rule ud.find_fold_put_distinct [OF _ m(1)]) (use dg in \<open>simp add: party_guids_Flatten\<close>)
    then show ?thesis using ex g by (auto simp: umap_get_def)
  qed
  have cnt: "side_count (mr_task_force_assignments r) ?gs t = side_count asg ?gs t" for t
    by (rule side_count_cong) (rule tf)
  have "side_count asg gs 1 + side_count asg gs 2 = length gs" if "set gs \<subseteq> set ?gs" for gs
    using that ex by (induction gs) auto
  then have both: "side_count asg ?gs 1 + side_count asg ?gs 2 = length ?gs" by simp
  have len: "?tot = int (length ?gs)" by (rule CountMembers_guids)
  have s2: "int (side_count asg ?gs 2) = snd (agent_shape ?tot)" using ex by blast
  then have s1: "int (side_count asg ?gs 1) = fst (agent_shape ?tot)" using both shape(1) len by linarith
  have "agent_shape ?tot = kShapeTable ! (length ?gs - 2)" by (simp add: agent_shape_def len nat_minus_as_int)
  then have "(int (side_count (mr_task_force_assignments r) ?gs 1), int (side_count (mr_task_force_assignments r) ?gs 2))
      = kShapeTable ! (length ?gs - 2)" using s1 s2 cnt by (metis prod.collapse)
  moreover have "2 \<le> length ?gs" "length ?gs \<le> 10" using c(3,4) len by simp_all
  moreover have "mr_access_mode r = Sealed" "mr_cap_override r = Some (of_nat (length ?gs))"
    "mr_existing_instance_id r = None"
    by (simp_all add: c(6) fold_place_party_other len empty_result_def)
  ultimately show ?thesis by (simp add: guids)
qed

lemma ex_agents: "map_option mr_session_guids (DoubleAgentEvaluate ex_cfg ex_lobby []) = Some [''a'', ''b'', ''c'']"
  by code_simp

theorem double_agent_shape_witness:
  "\<exists>r. DoubleAgentEvaluate ex_cfg ex_lobby [] = Some r \<and>
     side_count (mr_task_force_assignments r) [''a'', ''b'', ''c''] 2 = 1"
proof -
  obtain r where r: "DoubleAgentEvaluate ex_cfg ex_lobby [] = Some r" "mr_session_guids r = [''a'', ''b'', ''c'']"
    using ex_agents by auto
  have ok: "queue_ok ex_lobby" by (simp add: queue_ok_def ex_lobby_def ex_party_def ex_solo_def)
  from double_agent_shape [OF ok r(1)] r show ?thesis by (auto simp: kShapeTable_def)
qed

text \<open>
  A versus match pairs the two longest-waiting parties, whole, one per side, in an
  instance locked to both; nobody who waits longer than either is passed over.
\<close>

theorem versus_sides_pairs:
  assumes "queue_ok parties" "VersusSidesEvaluate cfg parties instances = Some r"
  shows "\<exists>a \<in> set parties. \<exists>b \<in> set parties. a \<noteq> b \<and>
    mr_consumed_party_ids r = [pt_party_id a, pt_party_id b] \<and> mr_owner_party_ids r = [pt_party_id a, pt_party_id b] \<and>
    mr_access_mode r = PartyLocked \<and>
    (\<forall>g \<in> set (member_guids a). map_of (mr_task_force_assignments r) g = Some 1) \<and>
    (\<forall>g \<in> set (member_guids b). map_of (mr_task_force_assignments r) g = Some 2) \<and>
    pt_joined_at a \<le> pt_joined_at b \<and>
    (\<forall>p \<in> set (remaining r parties). pt_joined_at b \<le> pt_joined_at p)"
proof -
  obtain a b rest where ab: "PartiesByWaitAsc parties = a # b # rest"
    and r: "r = place_party (\<lambda>_. 2) (\<lambda>_. None) b (place_party (\<lambda>_. 1) (\<lambda>_. None) a
       (empty_result\<lparr>mr_access_mode := PartyLocked, mr_owner_party_ids := [pt_party_id a, pt_party_id b]\<rparr>))"
    using VersusSidesEvaluate_SomeD [OF assms(2)] by metis
  have dset: "distinct (a # b # rest)" "set (a # b # rest) = set parties"
    using ab queue_ok_distinct [OF assms(1)] by (metis wait_distinct, metis PartiesByWaitAsc_set)
  then have q: "queue_ok [a, b]" by (intro queue_ok_subset [OF assms(1)]) auto
  then have disj: "set (member_guids a) \<inter> set (member_guids b) = {}" by (auto simp: queue_ok_def)
  have tf: "map_of (mr_task_force_assignments r) g
      = (if g \<in> set (member_guids b) then Some 2 else if g \<in> set (member_guids a) then Some 1 else None)" for g
    by (simp add: r place_party_fields ud.find_fold_put_const [where key = qp_session_guid] empty_result_def)
  have sorted: "sorted_wrt (\<lambda>a b. pt_joined_at a \<le> pt_joined_at b) (a # b # rest)"
    using PartiesByWaitAsc_sorted [of parties] by (simp add: ab)
  have cons: "mr_consumed_party_ids r = [pt_party_id a, pt_party_id b]"
    by (simp add: r place_party_fields empty_result_def)
  have "pt_joined_at b \<le> pt_joined_at p" if "p \<in> set (remaining r parties)" for p
  proof -
    have "p \<in> set parties" "pt_party_id p \<noteq> pt_party_id a" "pt_party_id p \<noteq> pt_party_id b"
      using that by (auto simp: remaining_def cons)
    then have "p \<in> set rest" using dset(2) by auto
    then show ?thesis using sorted by simp
  qed
  moreover have "mr_owner_party_ids r = [pt_party_id a, pt_party_id b]" "mr_access_mode r = PartyLocked"
    by (simp_all add: r place_party_def fold_place_member_other empty_result_def)
  moreover have "a \<in> set parties" "b \<in> set parties" "a \<noteq> b" using dset by auto
  ultimately show ?thesis using sorted disj tf cons by (intro bexI [of _ a] bexI [of _ b]) auto
qed

lemma ex_versus: "map_option mr_consumed_party_ids (VersusSidesEvaluate ex_cfg ex_pool []) = Some [1, 2]"
  by code_simp

theorem versus_sides_pairs_witness:
  "\<exists>r a. VersusSidesEvaluate ex_cfg ex_pool [] = Some r \<and> a \<in> set ex_pool \<and>
     (\<forall>g \<in> set (member_guids a). map_of (mr_task_force_assignments r) g = Some 1)"
proof -
  obtain r where r: "VersusSidesEvaluate ex_cfg ex_pool [] = Some r" using ex_versus by auto
  from versus_sides_pairs [OF queue_ok_ex_pool this] r show ?thesis by blast
qed

end
