(* ===== verification/FairnessLog.thy ===== *)
theory FairnessLog
  imports Domain
begin

text \<open>
  The matchmaking fairness log, \<open>MatchmakingService/FairnessLog.cpp\<close>, and the rotation index
  \<open>MatchmakingService\<close> keeps over it (\<open>FairnessEntry\<close>, \<open>RecordFairness\<close>). The table is the
  list of its rows in id order. The index is filled from the log on first use and updated
  beside it; the last section shows that it stays in step with what \<open>Load\<close> would read.
\<close>

section \<open>The log\<close>

datatype Event = Excluded | Played | Defender

definition Name :: "Event \<Rightarrow> string" where
  "Name e = (case e of Excluded \<Rightarrow> ''excluded'' | Played \<Rightarrow> ''played'' | Defender \<Rightarrow> ''defender'')"

record FairnessRow =
  fr_id :: int
  fr_user_id :: int
  fr_scope :: string
  fr_queue_id :: int
  fr_event_type :: string
  fr_profile_id :: int
  fr_instance_id :: "int option"
  fr_created_at :: int

record FairnessTable =
  ft_rows :: "FairnessRow list"
  ft_next :: int

definition empty_table :: FairnessTable where
  "empty_table = \<lparr>ft_rows = [], ft_next = 1\<rparr>"

definition Record :: "int \<Rightarrow> string \<Rightarrow> u32 \<Rightarrow> int \<Rightarrow> Event \<Rightarrow> u32 \<Rightarrow> int \<Rightarrow> FairnessTable \<Rightarrow> FairnessTable" where
  "Record now scope queue_id user_id e profile_id instance_id tab =
     (if scope = [] \<or> user_id \<le> 0 then tab
      else tab\<lparr>ft_rows := ft_rows tab @ [\<lparr>fr_id = ft_next tab, fr_user_id = user_id, fr_scope = scope,
             fr_queue_id = sint queue_id, fr_event_type = Name e, fr_profile_id = sint profile_id,
             fr_instance_id = (if instance_id > 0 then Some instance_id else None),
             fr_created_at = now\<rparr>],
           ft_next := ft_next tab + 1\<rparr>)"

text \<open>The rows of one user, and \<open>COALESCE(MAX(id), 0)\<close> over them.\<close>

definition rows_of :: "FairnessTable \<Rightarrow> string \<Rightarrow> int \<Rightarrow> Event \<Rightarrow> FairnessRow list" where
  "rows_of tab scope user_id e =
     filter (\<lambda>r. fr_scope r = scope \<and> fr_user_id r = user_id \<and> fr_event_type r = Name e) (ft_rows tab)"

definition max_id :: "FairnessRow list \<Rightarrow> int" where
  "max_id rows = (if rows = [] then 0 else Max (set (map fr_id rows)))"

definition Load :: "FairnessTable \<Rightarrow> string \<Rightarrow> int \<Rightarrow> FairnessStats" where
  "Load tab scope user_id =
     (if scope = [] \<or> user_id \<le> 0 then fresh_FairnessStats
      else
        let played = rows_of tab scope user_id Played;
            last_played = max_id played;
            excluded = rows_of tab scope user_id Excluded;
            defender = rows_of tab scope user_id Defender
        in \<lparr>fs_exclusion_count = word_of_nat (length (filter (\<lambda>r. fr_id r > last_played) excluded)),
            fs_lifetime_exclusions = word_of_nat (length excluded),
            fs_played_count = word_of_nat (length played),
            fs_last_defender_id = max_id defender,
            fs_defender_count = word_of_nat (length defender)\<rparr>)"

section \<open>The index\<close>

record FairnessState =
  fn_table :: FairnessTable
  fn_index :: "(string, (int, FairnessStats) umap) umap"

definition index_find :: "FairnessState \<Rightarrow> string \<Rightarrow> int \<Rightarrow> FairnessStats option" where
  "index_find f scope user_id = map_of (umap_get [] (fn_index f) scope) user_id"

definition index_put :: "string \<Rightarrow> int \<Rightarrow> FairnessStats \<Rightarrow> FairnessState \<Rightarrow> FairnessState" where
  "index_put scope user_id s f =
     f\<lparr>fn_index := umap_mod [] (umap_put user_id s) scope (fn_index f)\<rparr>"

definition FairnessEntry :: "string \<Rightarrow> int \<Rightarrow> FairnessState \<Rightarrow> FairnessStats \<times> FairnessState" where
  "FairnessEntry scope user_id f =
     (case index_find f scope user_id of
        Some s \<Rightarrow> (s, f)
      | None \<Rightarrow> let s = Load (fn_table f) scope user_id in (s, index_put scope user_id s f))"

definition bump :: "int \<Rightarrow> Event \<Rightarrow> FairnessStats \<Rightarrow> FairnessStats" where
  "bump now e s =
     (case e of
        Excluded \<Rightarrow> s\<lparr>fs_exclusion_count := fs_exclusion_count s + 1,
                      fs_lifetime_exclusions := fs_lifetime_exclusions s + 1\<rparr>
      | Played \<Rightarrow> s\<lparr>fs_exclusion_count := 0, fs_played_count := fs_played_count s + 1\<rparr>
      | Defender \<Rightarrow> s\<lparr>fs_last_defender_id := now, fs_defender_count := fs_defender_count s + 1\<rparr>)"

text \<open>
  The row is written first and the entry fetched afterwards, so an entry that is loaded here
  already counts the new row, and is then bumped once more.
\<close>

definition RecordFairness ::
  "int \<Rightarrow> string \<Rightarrow> u32 \<Rightarrow> int \<Rightarrow> Event \<Rightarrow> u32 \<Rightarrow> int \<Rightarrow> FairnessState \<Rightarrow> FairnessState" where
  "RecordFairness now scope queue_id user_id e profile_id instance_id f =
     (if scope = [] \<or> user_id \<le> 0 then f
      else
        let f1 = f\<lparr>fn_table := Record now scope queue_id user_id e profile_id instance_id (fn_table f)\<rparr>
        in case FairnessEntry scope user_id f1 of
             (s, f2) \<Rightarrow> index_put scope user_id (bump now e s) f2)"
section \<open>The index mirrors the log\<close>

definition table_ok :: "FairnessTable \<Rightarrow> bool" where
  "table_ok tab \<longleftrightarrow> 0 < ft_next tab \<and> (\<forall>r \<in> set (ft_rows tab). 0 < fr_id r \<and> fr_id r < ft_next tab)"

text \<open>
  The index holds the time of the last defence where the log has a row id; only the order
  against other players matters, so the mirror asks whether there is one.
\<close>

definition mirrors :: "FairnessStats \<Rightarrow> FairnessStats \<Rightarrow> bool" where
  "mirrors s l \<longleftrightarrow>
     fs_exclusion_count s = fs_exclusion_count l \<and> fs_lifetime_exclusions s = fs_lifetime_exclusions l \<and>
     fs_played_count s = fs_played_count l \<and> fs_defender_count s = fs_defender_count l \<and>
     0 \<le> fs_last_defender_id s \<and> (0 < fs_last_defender_id s \<longleftrightarrow> 0 < fs_last_defender_id l)"

definition fairness_ok :: "FairnessState \<Rightarrow> bool" where
  "fairness_ok f \<longleftrightarrow> table_ok (fn_table f) \<and>
     (\<forall>scope user_id s. index_find f scope user_id = Some s \<longrightarrow> mirrors s (Load (fn_table f) scope user_id))"

inductive fairness_step :: "FairnessState \<Rightarrow> FairnessState \<Rightarrow> bool" where
  entry: "fairness_step f (snd (FairnessEntry scope user_id f))"
| record_warm: "index_find f scope user_id \<noteq> None \<Longrightarrow> 0 < now \<Longrightarrow>
    fairness_step f (RecordFairness now scope queue_id user_id e profile_id instance_id f)"

lemma index_find_put [simp]:
  "index_find (index_put scope user_id s f) scope' user_id' =
     (if scope' = scope \<and> user_id' = user_id then Some s else index_find f scope' user_id')"
  by (simp add: index_find_def index_put_def)

lemma fn_table_put [simp]: "fn_table (index_put scope user_id s f) = fn_table f"
  by (simp add: index_put_def)

lemma index_find_table [simp]: "index_find (fn_table_update g f) scope user_id = index_find f scope user_id"
  by (simp add: index_find_def)

lemma max_id_append: "rows = [] \<or> (\<forall>r \<in> set rows. fr_id r < fr_id x) \<Longrightarrow> max_id (rows @ [x]) = fr_id x"
proof -
  assume small: "rows = [] \<or> (\<forall>r \<in> set rows. fr_id r < fr_id x)"
  have "Max (set (map fr_id (rows @ [x]))) = fr_id x"
    by (rule Max_eqI) (use small in \<open>auto intro: less_imp_le\<close>)
  then show ?thesis by (simp only: max_id_def) simp
qed

lemma max_id_bounds:
  assumes "\<forall>r \<in> set rows. 0 < fr_id r \<and> fr_id r < n" "0 < n"
  shows "0 \<le> max_id rows" "max_id rows < n"
  using assms by (auto simp: max_id_def Max_less_iff intro!: less_imp_le [of 0] simp: Max_gr_iff neq_Nil_conv)

lemma rows_of_Record:
  "rows_of (Record now scope q u e p i tab) scope' u' e' =
     rows_of tab scope' u' e' @
     (if scope \<noteq> [] \<and> 0 < u \<and> scope' = scope \<and> u' = u \<and> e' = e
      then [\<lparr>fr_id = ft_next tab, fr_user_id = u, fr_scope = scope,
             fr_queue_id = sint q, fr_event_type = Name e, fr_profile_id = sint p,
             fr_instance_id = (if i > 0 then Some i else None), fr_created_at = now\<rparr>] else [])"
  by (cases e; cases e') (auto simp: Record_def rows_of_def Name_def)

lemma rows_of_ids: "table_ok tab \<Longrightarrow> r \<in> set (rows_of tab scope u e) \<Longrightarrow> 0 < fr_id r \<and> fr_id r < ft_next tab"
  by (simp add: table_ok_def rows_of_def)

lemma table_ok_Record: "table_ok tab \<Longrightarrow> table_ok (Record now scope q u e p i tab)"
  by (auto simp: table_ok_def Record_def)

text \<open>What one new row does to the statistics read from the log.\<close>

lemma Load_Record:
  assumes "table_ok tab" "scope \<noteq> []" "0 < u"
  shows "Load (Record now scope q u e p i tab) scope u = bump (ft_next tab) e (Load tab scope u)"
proof -
  have ids: "\<forall>r \<in> set (rows_of tab scope u e'). 0 < fr_id r \<and> fr_id r < ft_next tab" for e'
    using rows_of_ids [OF assms(1)] by blast
  have n: "0 < ft_next tab" using assms(1) by (simp add: table_ok_def)
  note b = max_id_bounds [OF ids n]
  have none: "filter (\<lambda>r. ft_next tab < fr_id r) (rows_of tab scope u Excluded) = []"
    using ids [of Excluded] by (auto simp: filter_empty_conv)
  have m: "max_id (rows_of tab scope u e' @ [x]) = ft_next tab" if "fr_id x = ft_next tab" for e' x
    using max_id_append [of "rows_of tab scope u e'" x] ids [of e'] that by simp
  show ?thesis
    using assms(2,3) b [of Played] none m
    by (cases e) (simp_all add: Load_def bump_def rows_of_Record Let_def)
qed

lemma Load_Record_other:
  "scope' \<noteq> scope \<or> u' \<noteq> u \<Longrightarrow> Load (Record now scope q u e p i tab) scope' u' = Load tab scope' u'"
  by (auto simp: Load_def rows_of_Record Let_def)

lemma mirrors_refl: "table_ok tab \<Longrightarrow> mirrors (Load tab scope u) (Load tab scope u)"
proof -
  assume t: "table_ok tab"
  have "0 \<le> max_id (rows_of tab scope u Defender)"
    by (rule max_id_bounds(1) [of _ "ft_next tab"]) (use rows_of_ids [OF t] t in \<open>auto simp: table_ok_def\<close>)
  then show ?thesis by (simp add: mirrors_def Load_def fresh_FairnessStats_def Let_def)
qed

lemma mirrors_bump: "mirrors s l \<Longrightarrow> 0 < now \<Longrightarrow> 0 < n \<Longrightarrow> mirrors (bump now e s) (bump n e l)"
  by (cases e) (auto simp: mirrors_def bump_def)
lemma FairnessEntry_props:
  assumes "fairness_ok f" "FairnessEntry scope u f = (s, f')"
  shows "fairness_ok f'" "mirrors s (Load (fn_table f) scope u)" "fn_table f' = fn_table f"
    "index_find f' scope u = Some s"
proof -
  have t: "table_ok (fn_table f)" using assms(1) by (simp add: fairness_ok_def)
  show "fairness_ok f'" "mirrors s (Load (fn_table f) scope u)" "fn_table f' = fn_table f"
    "index_find f' scope u = Some s"
    using assms mirrors_refl [OF t]
    by (auto simp: FairnessEntry_def fairness_ok_def Let_def split: option.splits if_splits)
qed

lemma RecordFairness_warm:
  assumes "fairness_ok f" "index_find f scope u \<noteq> None" "0 < now"
  shows "fairness_ok (RecordFairness now scope q u e p i f)"
proof (cases "scope = [] \<or> u \<le> 0")
  case True
  then show ?thesis using assms(1) by (simp add: RecordFairness_def)
next
  case False
  obtain s where s: "index_find f scope u = Some s" using assms(2) by blast
  let ?tab = "Record now scope q u e p i (fn_table f)"
  have eq: "RecordFairness now scope q u e p i f = index_put scope u (bump now e s) (f\<lparr>fn_table := ?tab\<rparr>)"
    using False by (simp add: RecordFairness_def FairnessEntry_def s Let_def)
  have t: "table_ok (fn_table f)" and m: "mirrors s (Load (fn_table f) scope u)"
    using assms(1) s by (simp_all add: fairness_ok_def)
  have n: "0 < ft_next (fn_table f)" using t by (simp add: table_ok_def)
  have "mirrors (bump now e s) (Load ?tab scope u)"
    using mirrors_bump [OF m assms(3) n] Load_Record [OF t] False by simp
  moreover have "mirrors s' (Load ?tab scope' u')"
    if "index_find f scope' u' = Some s'" "scope' \<noteq> scope \<or> u' \<noteq> u" for scope' u' s'
    using assms(1) that by (simp add: Load_Record_other fairness_ok_def)
  ultimately show ?thesis unfolding eq fairness_ok_def by (simp add: table_ok_Record [OF t])
qed

lemma fairness_step_ok: "fairness_step f f' \<Longrightarrow> fairness_ok f \<Longrightarrow> fairness_ok f'"
proof (induction rule: fairness_step.induct)
  case (entry f scope u)
  then show ?case using FairnessEntry_props(1) by (metis prod.collapse)
next
  case (record_warm f scope u now q e p i)
  then show ?case by (rule RecordFairness_warm [rotated])
qed

lemma fairness_steps_ok: "fairness_step\<^sup>*\<^sup>* f f' \<Longrightarrow> fairness_ok f \<Longrightarrow> fairness_ok f'"
  by (induction rule: rtranclp_induct) (auto dest: fairness_step_ok)

definition ex_fairness :: FairnessState where
  "ex_fairness = RecordFairness 1700000000 ''merc'' 1 5 Played 680 3
     (RecordFairness 1700000000 ''merc'' 1 5 Excluded 680 0
       (snd (FairnessEntry ''merc'' 5 \<lparr>fn_table = empty_table, fn_index = []\<rparr>)))"

lemma ex_fairness_steps: "fairness_step\<^sup>*\<^sup>* \<lparr>fn_table = empty_table, fn_index = []\<rparr> ex_fairness"
proof -
  let ?f0 = "\<lparr>fn_table = empty_table, fn_index = []\<rparr>"
  let ?f1 = "snd (FairnessEntry ''merc'' 5 ?f0)"
  let ?f2 = "RecordFairness 1700000000 ''merc'' 1 5 Excluded 680 0 ?f1"
  have warm: "index_find ?f1 ''merc'' 5 \<noteq> None"
    by (simp add: FairnessEntry_def index_find_def [of ?f0] Let_def)
  then have "index_find ?f2 ''merc'' 5 \<noteq> None"
    by (simp add: RecordFairness_def FairnessEntry_def [of _ _ "_\<lparr>fn_table := _\<rparr>"] Let_def split: option.splits)
  then have "fairness_step ?f2 ex_fairness" unfolding ex_fairness_def by (rule fairness_step.record_warm) simp
  moreover have "fairness_step ?f1 ?f2" by (rule fairness_step.record_warm [OF warm]) simp
  moreover have "fairness_step ?f0 ?f1" by (rule fairness_step.entry)
  ultimately show ?thesis by (meson rtranclp.rtrancl_refl rtranclp.rtrancl_into_rtrancl)
qed

text \<open>
  C37. The rotation index stays in step with the fairness log: after any sequence of look-ups
  and of events recorded for players already in the index (every player is looked up when
  queueing), each index entry equals what reading the log back would give, in the four
  counters, with the recent-exclusion count reset by every match played, and agrees on
  whether the player has ever defended.
\<close>

theorem fairness_index_mirrors_log:
  assumes "fairness_ok f" "fairness_step\<^sup>*\<^sup>* f f'" "index_find f' scope user_id = Some s"
  shows "mirrors s (Load (fn_table f') scope user_id)"
  using fairness_steps_ok [OF assms(2,1)] assms(3) by (simp add: fairness_ok_def)

theorem fairness_index_mirrors_log_witness:
  "\<exists>s. index_find ex_fairness ''merc'' 5 = Some s \<and> mirrors s (Load (fn_table ex_fairness) ''merc'' 5) \<and>
     fs_played_count s = 1 \<and> fs_exclusion_count s = 0 \<and> fs_lifetime_exclusions s = 1"
proof -
  have ok: "fairness_ok \<lparr>fn_table = empty_table, fn_index = []\<rparr>"
    by (simp add: fairness_ok_def table_ok_def empty_table_def index_find_def)
  have "map_option (\<lambda>s. (fs_played_count s, fs_exclusion_count s, fs_lifetime_exclusions s))
      (index_find ex_fairness ''merc'' 5) = Some (1, 0, 1)" by code_simp
  then show ?thesis using fairness_index_mirrors_log [OF ok ex_fairness_steps] by fastforce
qed

text \<open>
  An event recorded for a player who is not in the index yet is counted twice in the index:
  the row is already in the log when the entry is loaded, and the entry is bumped as well.
\<close>

lemma cold_record_counts_twice:
  "map_option fs_played_count (index_find (RecordFairness 1700000000 ''merc'' 1 5 Played 680 3
     \<lparr>fn_table = empty_table, fn_index = []\<rparr>) ''merc'' 5) = Some 2"
  by code_simp

end
