(* ===== verification/InstanceRegistry.thy ===== *)
theory InstanceRegistry
  imports Domain
begin

text \<open>
  The registry of game-server instances, \<open>InstanceRegistry/InstanceRegistry.cpp\<close>: the
  tables \<open>ga_instances\<close> and \<open>ga_instance_players\<close> and every statement the code runs on
  them. A table is the list of its rows in row id order; \<open>UPDATE ... WHERE\<close> is
  \<open>update_where\<close>, \<open>SELECT ... WHERE\<close> is \<open>filter\<close>, \<open>SELECT ... LIMIT 1\<close> is \<open>find\<close>. The
  current time \<open>strftime('%s','now')\<close> is the argument \<open>now\<close>. The connection is taken to be
  open and SQLite to run each statement; the branches that log a failed statement are not
  modelled. The mutex serialises the operations, so each of them is one step.
\<close>

section \<open>The tables\<close>

datatype InstanceState = STARTING | DRAFTING | READY | DRAINING | STOPPED

record InstanceRow =
  ir_id :: int
  ir_map_name :: string
  ir_game_mode :: string
  ir_state :: InstanceState
  ir_pid :: int
  ir_udp_port :: u16
  ir_player_count :: int
  ir_started_at :: int
  ir_sealed_at :: "int option"
  ir_instance_id :: int
  ir_is_home_map :: bool
  ir_max_players :: int
  ir_queue_id :: "int option"
  ir_predecessor :: "int option"
  ir_end_mission_at :: "int option"
  ir_access_mode :: string
  ir_owner_party_ids :: string
  ir_last_empty_at :: "int option"
  ir_outcome :: "string option"
  ir_victory_bonus_lives :: int

record InstancePlayerRow =
  ip_id :: int
  ip_instance_id :: int
  ip_session_guid :: guid
  ip_character_id :: int
  ip_task_force :: int
  ip_profile_id :: "int option"
  ip_joined_at :: int
  ip_left_at :: "int option"

text \<open>The two sequence numbers are those of the AUTOINCREMENT keys.\<close>

record Registry =
  rg_instances :: "InstanceRow list"
  rg_players :: "InstancePlayerRow list"
  rg_next_instance :: int
  rg_next_player :: int

definition empty_registry :: Registry where
  "empty_registry = \<lparr>rg_instances = [], rg_players = [], rg_next_instance = 1, rg_next_player = 1\<rparr>"

definition update_where :: "('r \<Rightarrow> bool) \<Rightarrow> ('r \<Rightarrow> 'r) \<Rightarrow> 'r list \<Rightarrow> 'r list" where
  "update_where P f rows = map (\<lambda>r. if P r then f r else r) rows"

abbreviation update_instances where
  "update_instances P f rg \<equiv> rg_instances_update (update_where P f) rg"

abbreviation update_players where
  "update_players P f rg \<equiv> rg_players_update (update_where P f) rg"

abbreviation is_active :: "int \<Rightarrow> InstancePlayerRow \<Rightarrow> bool" where
  "is_active iid p \<equiv> ip_instance_id p = iid \<and> ip_left_at p = None"

definition active_rows :: "int \<Rightarrow> Registry \<Rightarrow> InstancePlayerRow list" where
  "active_rows iid rg = filter (is_active iid) (rg_players rg)"

text \<open>The row as the readers return it; columns that are NULL read as 0.\<close>

record InstanceInfo =
  ii_id :: int
  ii_map_name :: string
  ii_game_mode :: string
  ii_state :: InstanceState
  ii_pid :: int
  ii_udp_port :: u16
  ii_player_count :: int
  ii_started_at :: int
  ii_sealed_at :: int
  ii_instance_id :: int
  ii_is_home_map :: bool
  ii_max_players :: int
  ii_queue_id :: u32
  ii_predecessor :: int
  ii_end_mission_at :: int
  ii_access_mode :: string
  ii_owner_party_ids :: string

definition coalesce0 :: "int option \<Rightarrow> int" where
  "coalesce0 c = (case c of None \<Rightarrow> 0 | Some x \<Rightarrow> x)"

definition read_info :: "InstanceRow \<Rightarrow> InstanceInfo" where
  \<comment> \<open>the sixteen columns most readers select; the access columns keep their defaults\<close>
  "read_info r = \<lparr>ii_id = ir_id r, ii_map_name = ir_map_name r, ii_game_mode = ir_game_mode r,
     ii_state = ir_state r, ii_pid = ir_pid r, ii_udp_port = ir_udp_port r,
     ii_player_count = ir_player_count r, ii_started_at = ir_started_at r,
     ii_sealed_at = coalesce0 (ir_sealed_at r), ii_instance_id = ir_instance_id r,
     ii_is_home_map = ir_is_home_map r, ii_max_players = ir_max_players r,
     ii_queue_id = word_of_int (coalesce0 (ir_queue_id r)),
     ii_predecessor = coalesce0 (ir_predecessor r),
     ii_end_mission_at = coalesce0 (ir_end_mission_at r),
     ii_access_mode = ''OPEN'', ii_owner_party_ids = []\<rparr>"

definition read_info_access :: "InstanceRow \<Rightarrow> InstanceInfo" where
  "read_info_access r = (read_info r)
     \<lparr>ii_access_mode := (if ir_access_mode r = [] then ''OPEN'' else ir_access_mode r),
      ii_owner_party_ids := ir_owner_party_ids r\<rparr>"

section \<open>Readers of one instance\<close>

definition GetReadyInstance :: "string \<Rightarrow> Registry \<Rightarrow> InstanceInfo option" where
  "GetReadyInstance map_name rg =
     map_option read_info (find (\<lambda>r. ir_map_name r = map_name \<and> ir_state r = READY) (rg_instances rg))"

definition GetLiveInstanceByMapName :: "string \<Rightarrow> Registry \<Rightarrow> InstanceInfo option" where
  "GetLiveInstanceByMapName map_name rg =
     map_option read_info
       (find (\<lambda>r. ir_map_name r = map_name \<and> ir_state r \<in> {STARTING, READY}) (rg_instances rg))"

definition GetSuccessor :: "int \<Rightarrow> Registry \<Rightarrow> InstanceInfo option" where
  "GetSuccessor parent rg =
     map_option read_info
       (find (\<lambda>r. ir_predecessor r = Some parent \<and> ir_state r \<noteq> STOPPED) (rg_instances rg))"

definition GetReadyHomeInstance :: "Registry \<Rightarrow> InstanceInfo option" where
  "GetReadyHomeInstance rg =
     map_option read_info (find (\<lambda>r. ir_is_home_map r \<and> ir_state r = READY) (rg_instances rg))"

definition GetHomeInstance :: "Registry \<Rightarrow> InstanceInfo option" where
  "GetHomeInstance rg =
     map_option read_info (find (\<lambda>r. ir_is_home_map r \<and> ir_state r \<noteq> STOPPED) (rg_instances rg))"

definition GetInstanceById :: "int \<Rightarrow> Registry \<Rightarrow> InstanceInfo option" where
  "GetInstanceById iid rg =
     map_option read_info_access (find (\<lambda>r. ir_instance_id r = iid) (rg_instances rg))"

section \<open>Life of an instance\<close>

definition SeedHomeMapInstance :: "int \<Rightarrow> string \<Rightarrow> u16 \<Rightarrow> Registry \<Rightarrow> Registry" where
  "SeedHomeMapInstance now map_name udp_port rg =
     (let rg1 = update_instances (\<lambda>r. ir_state r \<noteq> STOPPED)
                  (\<lambda>r. r\<lparr>ir_state := STOPPED, ir_sealed_at := Some now\<rparr>) rg;
          row = \<lparr>ir_id = rg_next_instance rg1, ir_map_name = map_name, ir_game_mode = [],
             ir_state = READY, ir_pid = 0, ir_udp_port = udp_port, ir_player_count = 0,
             ir_started_at = now, ir_sealed_at = None, ir_instance_id = 0, ir_is_home_map = False,
             ir_max_players = 0, ir_queue_id = None, ir_predecessor = None, ir_end_mission_at = None,
             ir_access_mode = ''OPEN'', ir_owner_party_ids = [], ir_last_empty_at = None,
             ir_outcome = None, ir_victory_bonus_lives = 0\<rparr>
      in rg1\<lparr>rg_instances := rg_instances rg1 @ [row], rg_next_instance := rg_next_instance rg1 + 1\<rparr>)"

text \<open>
  The row goes in with \<open>instance_id = 0\<close>; a second statement copies the row id. The lives
  threshold is read from \<open>ga_queues\<close>, here the argument \<open>bonus_lives\<close>.
\<close>

definition InsertStarting ::
  "(int \<Rightarrow> int option) \<Rightarrow> int \<Rightarrow> string \<Rightarrow> string \<Rightarrow> u16 \<Rightarrow> int \<Rightarrow> bool \<Rightarrow> u32 \<Rightarrow> int \<Rightarrow> string
     \<Rightarrow> string \<Rightarrow> Registry \<Rightarrow> int \<times> Registry" where
  "InsertStarting bonus_lives now map_name game_mode udp_port pid is_home_map queue_id predecessor
       access_mode owner_party_ids rg =
     (let rowid = rg_next_instance rg;
          row = \<lparr>ir_id = rowid, ir_map_name = map_name, ir_game_mode = game_mode,
             ir_state = STARTING, ir_pid = pid, ir_udp_port = udp_port, ir_player_count = 0,
             ir_started_at = now, ir_sealed_at = None, ir_instance_id = 0,
             ir_is_home_map = is_home_map, ir_max_players = 0,
             ir_queue_id = (if queue_id \<noteq> 0 then Some (uint queue_id) else None),
             ir_predecessor = (if predecessor \<noteq> 0 then Some predecessor else None),
             ir_end_mission_at = None, ir_access_mode = access_mode,
             ir_owner_party_ids = owner_party_ids, ir_last_empty_at = None, ir_outcome = None,
             ir_victory_bonus_lives = coalesce0 (bonus_lives (uint queue_id))\<rparr>;
          rg1 = rg\<lparr>rg_instances := rg_instances rg @ [row], rg_next_instance := rowid + 1\<rparr>
      in (rowid, update_instances (\<lambda>r. ir_id r = rowid) (\<lambda>r. r\<lparr>ir_instance_id := rowid\<rparr>) rg1))"

definition UpdatePid :: "int \<Rightarrow> int \<Rightarrow> Registry \<Rightarrow> Registry" where
  "UpdatePid iid pid rg = update_instances (\<lambda>r. ir_instance_id r = iid) (\<lambda>r. r\<lparr>ir_pid := pid\<rparr>) rg"

definition has_live_predecessor :: "Registry \<Rightarrow> InstanceRow \<Rightarrow> bool" where
  "has_live_predecessor rg r =
     (case ir_predecessor r of None \<Rightarrow> False
      | Some pre \<Rightarrow> list_ex (\<lambda>p. ir_instance_id p = pre \<and> ir_end_mission_at p = None \<and> ir_state p \<noteq> STOPPED)
                    (rg_instances rg))"

definition MarkReady :: "int \<Rightarrow> int \<Rightarrow> int \<Rightarrow> Registry \<Rightarrow> Registry" where
  "MarkReady now iid max_players rg =
     update_instances (\<lambda>r. ir_instance_id r = iid \<and> ir_state r = STARTING)
       (\<lambda>r. r\<lparr>ir_state := (if has_live_predecessor rg r then DRAFTING else READY),
              ir_max_players := (if ir_max_players r > 0 then ir_max_players r else max_players),
              ir_last_empty_at := Some now\<rparr>) rg"

definition promote_row :: "int \<Rightarrow> int \<Rightarrow> Registry \<Rightarrow> Registry" where
  "promote_row now iid rg =
     update_instances (\<lambda>r. ir_instance_id r = iid \<and> ir_state r = DRAFTING)
       (\<lambda>r. r\<lparr>ir_state := READY, ir_last_empty_at := Some now\<rparr>) rg"

definition drafting_successor :: "int \<Rightarrow> Registry \<Rightarrow> int" where
  "drafting_successor parent rg =
     (case find (\<lambda>r. ir_predecessor r = Some parent \<and> ir_state r = DRAFTING) (rg_instances rg) of
        Some r \<Rightarrow> ir_instance_id r | None \<Rightarrow> 0)"

definition MarkMissionEnded :: "int \<Rightarrow> int \<Rightarrow> Registry \<Rightarrow> int \<times> Registry" where
  "MarkMissionEnded now parent rg =
     (let rg1 = update_instances (\<lambda>r. ir_instance_id r = parent \<and> ir_end_mission_at r = None)
                  (\<lambda>r. r\<lparr>ir_end_mission_at := Some now\<rparr>) rg;
          successor = drafting_successor parent rg1
      in (successor, if successor \<noteq> 0 then promote_row now successor rg1 else rg1))"

definition PromoteSuccessor :: "int \<Rightarrow> int \<Rightarrow> Registry \<Rightarrow> int \<times> Registry" where
  "PromoteSuccessor now parent rg =
     (let successor = drafting_successor parent rg
      in if successor = 0 then (0, rg) else (successor, promote_row now successor rg))"

definition SetMaxPlayers :: "int \<Rightarrow> int \<Rightarrow> Registry \<Rightarrow> Registry" where
  "SetMaxPlayers iid max_players rg =
     update_instances (\<lambda>r. ir_instance_id r = iid) (\<lambda>r. r\<lparr>ir_max_players := max_players\<rparr>) rg"

definition fallback_outcome :: "Registry \<Rightarrow> InstanceRow \<Rightarrow> InstanceRow" where
  "fallback_outcome rg r =
     r\<lparr>ir_outcome := Some (if active_rows (ir_instance_id r) rg \<noteq> [] then ''CRASHED'' else ''ABANDONED'')\<rparr>"

definition leave_rows :: "int \<Rightarrow> int \<Rightarrow> Registry \<Rightarrow> Registry" where
  "leave_rows now iid rg = update_players (is_active iid) (\<lambda>p. p\<lparr>ip_left_at := Some now\<rparr>) rg"

text \<open>
  The statements of \<open>MarkStopped\<close>; the two calls into \<open>MatchmakingService\<close> at its end are
  added where that component is modelled.
\<close>

definition MarkStoppedRows :: "int \<Rightarrow> int \<Rightarrow> Registry \<Rightarrow> Registry" where
  "MarkStoppedRows now iid rg =
     (let rg1 = update_instances
                  (\<lambda>r. ir_instance_id r = iid \<and> ir_outcome r = None \<and> \<not> ir_is_home_map r)
                  (fallback_outcome rg) rg;
          rg2 = update_instances (\<lambda>r. ir_instance_id r = iid)
                  (\<lambda>r. r\<lparr>ir_state := STOPPED, ir_sealed_at := Some now\<rparr>) rg1
      in leave_rows now iid rg2)"

definition ClearStaleInstances :: "int \<Rightarrow> Registry \<Rightarrow> Registry" where
  "ClearStaleInstances now rg =
     (let rg1 = update_instances
                  (\<lambda>r. ir_state r \<noteq> STOPPED \<and> ir_outcome r = None \<and> \<not> ir_is_home_map r)
                  (fallback_outcome rg) rg
      in update_instances (\<lambda>r. ir_state r \<noteq> STOPPED)
           (\<lambda>r. r\<lparr>ir_state := STOPPED, ir_sealed_at := Some now\<rparr>) rg1)"

text \<open>
  \<open>for (uint16_t port = lo; port <= hi; ++port)\<close>: the counter wraps at 65535. The outer
  \<open>None\<close> is a loop that does not return.
\<close>

partial_function (option) port_scan :: "u16 list \<Rightarrow> u16 \<Rightarrow> u16 \<Rightarrow> u16 option option" where
  "port_scan in_use hi port =
     (if port \<le> hi then
        (if port \<notin> set in_use then Some (Some port) else port_scan in_use hi (port + 1))
      else Some None)"

declare port_scan.simps [code]

definition live_ports :: "Registry \<Rightarrow> u16 list" where
  "live_ports rg = map ir_udp_port (filter (\<lambda>r. ir_state r \<noteq> STOPPED) (rg_instances rg))"

definition AllocatePort :: "u16 \<Rightarrow> u16 \<Rightarrow> Registry \<Rightarrow> u16 option option" where
  "AllocatePort lo hi rg = port_scan (live_ports rg) hi lo"

section \<open>Players of an instance\<close>

definition recount :: "int \<Rightarrow> Registry \<Rightarrow> Registry" where
  "recount iid rg =
     update_instances (\<lambda>r. ir_instance_id r = iid)
       (\<lambda>r. r\<lparr>ir_player_count := int (length (active_rows iid rg))\<rparr>) rg"

definition InsertInstancePlayer :: "int \<Rightarrow> int \<Rightarrow> guid \<Rightarrow> int \<Rightarrow> int \<Rightarrow> u32 \<Rightarrow> Registry \<Rightarrow> Registry" where
  "InsertInstancePlayer now iid g character_id task_force profile_id rg =
     (let row = \<lparr>ip_id = rg_next_player rg, ip_instance_id = iid, ip_session_guid = g,
             ip_character_id = character_id, ip_task_force = task_force,
             ip_profile_id = (if profile_id = 0 then None else Some (sint profile_id)),
             ip_joined_at = now, ip_left_at = None\<rparr>;
          rg1 = rg\<lparr>rg_players := filter (\<lambda>p. \<not> (ip_instance_id p = iid \<and> ip_session_guid p = g))
                                  (rg_players rg) @ [row],
                   rg_next_player := rg_next_player rg + 1\<rparr>
      in update_instances (\<lambda>r. ir_instance_id r = iid) (\<lambda>r. r\<lparr>ir_last_empty_at := None\<rparr>)
           (recount iid rg1))"

definition UpdateInstancePlayerTaskForce :: "int \<Rightarrow> guid \<Rightarrow> int \<Rightarrow> Registry \<Rightarrow> Registry" where
  "UpdateInstancePlayerTaskForce iid g task_force rg =
     update_players (\<lambda>p. is_active iid p \<and> ip_session_guid p = g)
       (\<lambda>p. p\<lparr>ip_task_force := task_force\<rparr>) rg"

definition newer_row :: "InstancePlayerRow \<Rightarrow> InstancePlayerRow \<Rightarrow> bool" where
  "newer_row a b \<longleftrightarrow> ip_joined_at a > ip_joined_at b \<or> ip_joined_at a = ip_joined_at b \<and> ip_id a > ip_id b"

definition GetInstancePlayerTaskForce :: "guid \<Rightarrow> Registry \<Rightarrow> (int \<times> int) option" where
  "GetInstancePlayerTaskForce g rg =
     (case stable_sort newer_row (filter (\<lambda>p. ip_session_guid p = g \<and> ip_left_at p = None) (rg_players rg)) of
        [] \<Rightarrow> None | p # _ \<Rightarrow> Some (ip_instance_id p, ip_task_force p))"

definition GetAllActiveInstancePlayers :: "Registry \<Rightarrow> (int \<times> guid) list" where
  "GetAllActiveInstancePlayers rg =
     map (\<lambda>p. (ip_instance_id p, ip_session_guid p)) (filter (\<lambda>p. ip_left_at p = None) (rg_players rg))"

text \<open>
  The joins read \<open>ga_characters\<close> (\<open>user_id\<close>, \<open>profile_id\<close>), \<open>ga_users\<close> and \<open>ga_players\<close>;
  those tables belong to other components and are arguments.
\<close>

record ActivePlayerRow =
  ap_guid :: guid
  ap_profile_id :: u32
  ap_task_force :: int
  ap_user_id :: int

definition GetActivePlayersForInstance ::
  "(int \<Rightarrow> (int \<times> int) option) \<Rightarrow> int \<Rightarrow> Registry \<Rightarrow> ActivePlayerRow list" where
  "GetActivePlayersForInstance characters iid rg =
     map (\<lambda>p. \<lparr>ap_guid = ip_session_guid p, ap_profile_id = word_of_int (coalesce0 (ip_profile_id p)),
                ap_task_force = ip_task_force p,
                ap_user_id = (case characters (ip_character_id p) of None \<Rightarrow> 0 | Some (u, _) \<Rightarrow> u)\<rparr>)
       (active_rows iid rg)"

record SearchablePlayerRow =
  sp_session_guid :: guid
  sp_character_id :: int
  sp_player_name :: string
  sp_profile_id :: u32
  sp_map_name :: string
  sp_in_mission :: bool

definition GetActiveSearchablePlayers ::
  "(int \<Rightarrow> (int \<times> int) option) \<Rightarrow> (int \<Rightarrow> string option) \<Rightarrow> (guid \<Rightarrow> string option) \<Rightarrow> Registry
     \<Rightarrow> SearchablePlayerRow list" where
  "GetActiveSearchablePlayers characters usernames player_names rg =
     concat (map (\<lambda>p. map (\<lambda>i.
         let character = characters (ip_character_id p);
             username = (case character of None \<Rightarrow> None | Some (u, _) \<Rightarrow> usernames u)
         in \<lparr>sp_session_guid = ip_session_guid p, sp_character_id = ip_character_id p,
             sp_player_name = (case username of Some n \<Rightarrow> n
                | None \<Rightarrow> (case player_names (ip_session_guid p) of Some n \<Rightarrow> n | None \<Rightarrow> [])),
             sp_profile_id = (case character of None \<Rightarrow> 0 | Some (_, c) \<Rightarrow> word_of_int c),
             sp_map_name = ir_map_name i, sp_in_mission = (\<not> ir_is_home_map i)\<rparr>)
         (filter (\<lambda>i. ir_instance_id i = ip_instance_id p \<and> ir_state i \<noteq> STOPPED) (rg_instances rg)))
       (filter (\<lambda>p. ip_left_at p = None) (rg_players rg)))"

definition SetLastEmptyAtIfEmpty :: "int \<Rightarrow> int \<Rightarrow> Registry \<Rightarrow> Registry" where
  "SetLastEmptyAtIfEmpty now iid rg =
     update_instances (\<lambda>r. ir_instance_id r = iid \<and> ir_player_count r = 0 \<and> ir_last_empty_at r = None)
       (\<lambda>r. r\<lparr>ir_last_empty_at := Some now\<rparr>) rg"

definition MarkInstancePlayerLeft :: "int \<Rightarrow> int \<Rightarrow> guid \<Rightarrow> Registry \<Rightarrow> Registry" where
  "MarkInstancePlayerLeft now iid g rg =
     (let rg1 = update_players (\<lambda>p. is_active iid p \<and> ip_session_guid p = g)
                  (\<lambda>p. p\<lparr>ip_left_at := Some now\<rparr>) rg;
          rg2 = recount iid rg1
      in update_instances (\<lambda>r. ir_instance_id r = iid \<and> ir_player_count r = 0 \<and> ir_last_empty_at r = None)
           (\<lambda>r. r\<lparr>ir_last_empty_at := Some now\<rparr>) rg2)"

definition MarkAllInstancePlayersLeft :: "int \<Rightarrow> int \<Rightarrow> Registry \<Rightarrow> Registry" where
  "MarkAllInstancePlayersLeft now iid rg =
     update_instances (\<lambda>r. ir_instance_id r = iid) (\<lambda>r. r\<lparr>ir_player_count := 0\<rparr>) (leave_rows now iid rg)"

definition GetTeamCounts :: "int \<Rightarrow> Registry \<Rightarrow> nat \<times> nat" where
  "GetTeamCounts iid rg =
     (length (filter (\<lambda>p. ip_task_force p = 1) (active_rows iid rg)),
      length (filter (\<lambda>p. ip_task_force p = 2) (active_rows iid rg)))"

definition GetActivePlayerCount :: "int \<Rightarrow> Registry \<Rightarrow> nat" where
  "GetActivePlayerCount iid rg = length (active_rows iid rg)"

section \<open>Readers of many instances, and the queue counters\<close>

definition GetReadyMissionInstances :: "Registry \<Rightarrow> InstanceInfo list" where
  "GetReadyMissionInstances rg =
     map read_info_access (filter (\<lambda>r. ir_state r = READY \<and> \<not> ir_is_home_map r \<and>
        ir_end_mission_at r = None \<and> active_rows (ir_instance_id r) rg \<noteq> []) (rg_instances rg))"

definition GetAllRunningInstances :: "Registry \<Rightarrow> InstanceInfo list" where
  "GetAllRunningInstances rg =
     map read_info (filter (\<lambda>r. ir_state r \<noteq> STOPPED \<and> ir_pid r > 0) (rg_instances rg))"

definition GetIdleInstances :: "int \<Rightarrow> int \<Rightarrow> Registry \<Rightarrow> InstanceInfo list" where
  "GetIdleInstances now timeout_seconds rg =
     map read_info (filter (\<lambda>r. ir_state r = READY \<and> ir_player_count r = 0 \<and>
        (case ir_last_empty_at r of None \<Rightarrow> False | Some t \<Rightarrow> now - t \<ge> timeout_seconds) \<and>
        (\<not> ir_is_home_map r \<or>
         \<not> list_ex (\<lambda>mi. \<not> ir_is_home_map mi \<and> ir_state mi \<in> {STARTING, READY}) (rg_instances rg)))
       (rg_instances rg))"

definition mission_counts :: "Registry \<Rightarrow> u32 \<Rightarrow> InstanceRow \<Rightarrow> bool" where
  \<comment> \<open>the WHERE clause of \<open>GetActiveInstanceCountForQueue\<close>; the id is bound as a signed int\<close>
  "mission_counts rg queue_id i \<longleftrightarrow>
     ir_queue_id i = Some (sint queue_id) \<and> \<not> ir_is_home_map i \<and> ir_end_mission_at i = None \<and>
     (ir_state i = STARTING \<or>
      ir_state i = READY \<and> (ir_predecessor i \<noteq> None \<or> active_rows (ir_instance_id i) rg \<noteq> [])) \<and>
     (case ir_predecessor i of None \<Rightarrow> True
      | Some pre \<Rightarrow> \<not> list_ex (\<lambda>p. ir_instance_id p = pre \<and> \<not> ir_is_home_map p \<and>
           ir_end_mission_at p = None \<and> ir_state p \<in> {STARTING, READY}) (rg_instances rg))"

definition GetActiveInstanceCountForQueue :: "u32 \<Rightarrow> Registry \<Rightarrow> nat" where
  "GetActiveInstanceCountForQueue queue_id rg =
     length (filter (mission_counts rg queue_id) (rg_instances rg))"

definition queue_players :: "u32 \<Rightarrow> Registry \<Rightarrow> InstancePlayerRow list" where
  \<comment> \<open>the join both counters below run\<close>
  "queue_players queue_id rg =
     concat (map (\<lambda>p. map (\<lambda>_. p) (filter (\<lambda>i. ir_instance_id i = ip_instance_id p \<and>
        ir_queue_id i = Some (sint queue_id) \<and> ir_state i \<noteq> STOPPED \<and>
        ir_access_mode i \<noteq> ''PARTY_LOCKED'') (rg_instances rg)))
       (filter (\<lambda>p. ip_left_at p = None) (rg_players rg)))"

definition GetActivePlayerCountForQueue :: "u32 \<Rightarrow> Registry \<Rightarrow> nat" where
  "GetActivePlayerCountForQueue queue_id rg = length (queue_players queue_id rg)"

record ProfileCounts =
  pc_assault :: u32
  pc_medic :: u32
  pc_recon :: u32
  pc_robotics :: u32

definition GetActiveProfileCountsForQueue :: "u32 \<Rightarrow> Registry \<Rightarrow> ProfileCounts" where
  "GetActiveProfileCountsForQueue queue_id rg =
     (let rows = queue_players queue_id rg;
          cnt = (\<lambda>c. word_of_nat (length (filter (\<lambda>p. ip_profile_id p = Some c) rows)))
      in \<lparr>pc_assault = cnt 680, pc_medic = cnt 567, pc_recon = cnt 681, pc_robotics = cnt 679\<rparr>)"
section \<open>Reachable registries\<close>

text \<open>
  One step is one mutating operation. New instances take their port from \<open>AllocatePort\<close>, as
  every caller of \<open>InsertStarting\<close> does; a game server only reports players for its own
  instance, which has a row. \<open>SeedHomeMapInstance\<close> has no caller and is left out.
\<close>

inductive reg_step :: "Registry \<Rightarrow> Registry \<Rightarrow> bool" where
  spawn: "AllocatePort lo hi rg = Some (Some port) \<Longrightarrow>
    reg_step rg (snd (InsertStarting bonus now map_name game_mode port pid home queue_id pre access owners rg))"
| pid: "reg_step rg (UpdatePid iid pid rg)"
| ready: "reg_step rg (MarkReady now iid max_players rg)"
| ended: "reg_step rg (snd (MarkMissionEnded now parent rg))"
| promote: "reg_step rg (snd (PromoteSuccessor now parent rg))"
| maxp: "reg_step rg (SetMaxPlayers iid max_players rg)"
| stopped: "reg_step rg (MarkStoppedRows now iid rg)"
| stale: "reg_step rg (ClearStaleInstances now rg)"
| join: "iid \<in> ir_instance_id ` set (rg_instances rg) \<Longrightarrow>
    reg_step rg (InsertInstancePlayer now iid g character_id task_force profile_id rg)"
| force: "reg_step rg (UpdateInstancePlayerTaskForce iid g task_force rg)"
| left: "reg_step rg (MarkInstancePlayerLeft now iid g rg)"
| all_left: "reg_step rg (MarkAllInstancePlayersLeft now iid rg)"
| empty: "reg_step rg (SetLastEmptyAtIfEmpty now iid rg)"

inductive_cases reg_stepE: "reg_step rg rg'"

lemmas mutator_defs = UpdatePid_def MarkReady_def promote_row_def MarkMissionEnded_def
  PromoteSuccessor_def SetMaxPlayers_def MarkStoppedRows_def ClearStaleInstances_def
  UpdateInstancePlayerTaskForce_def MarkInstancePlayerLeft_def MarkAllInstancePlayersLeft_def
  SetLastEmptyAtIfEmpty_def InsertInstancePlayer_def recount_def leave_rows_def fallback_outcome_def

subsection \<open>How a row evolves\<close>

fun state_rank :: "InstanceState \<Rightarrow> nat" where
  "state_rank STARTING = 0"
| "state_rank DRAFTING = 1"
| "state_rank READY = 2"
| "state_rank DRAINING = 3"
| "state_rank STOPPED = 4"

definition evolves :: "InstanceRow \<Rightarrow> InstanceRow \<Rightarrow> bool" where
  "evolves r r' \<longleftrightarrow>
     ir_id r' = ir_id r \<and> ir_map_name r' = ir_map_name r \<and> ir_game_mode r' = ir_game_mode r \<and>
     ir_udp_port r' = ir_udp_port r \<and> ir_is_home_map r' = ir_is_home_map r \<and>
     ir_queue_id r' = ir_queue_id r \<and> ir_predecessor r' = ir_predecessor r \<and>
     ir_access_mode r' = ir_access_mode r \<and> ir_owner_party_ids r' = ir_owner_party_ids r \<and>
     state_rank (ir_state r) \<le> state_rank (ir_state r') \<and>
     (ir_end_mission_at r \<noteq> None \<longrightarrow> ir_end_mission_at r' = ir_end_mission_at r) \<and>
     (ir_outcome r \<noteq> None \<longrightarrow> ir_outcome r' = ir_outcome r)"

definition rows_evolve :: "InstanceRow list \<Rightarrow> InstanceRow list \<Rightarrow> bool" where
  "rows_evolve rows rows' \<longleftrightarrow> (\<forall>r \<in> set rows. \<exists>r' \<in> set rows'. evolves r r')"

lemma evolves_refl [simp]: "evolves r r"
  by (simp add: evolves_def)

lemma evolves_trans: "evolves r s \<Longrightarrow> evolves s t \<Longrightarrow> evolves r t"
  unfolding evolves_def by (metis le_trans)

lemma rows_evolve_refl [simp]: "rows_evolve rows rows"
  unfolding rows_evolve_def using evolves_refl by blast

lemma rows_evolve_trans: "rows_evolve a b \<Longrightarrow> rows_evolve b c \<Longrightarrow> rows_evolve a c"
  unfolding rows_evolve_def using evolves_trans by blast

lemma rows_evolve_append [simp]: "rows_evolve rows (rows @ new)"
  unfolding rows_evolve_def by (auto intro: evolves_refl)

lemma rows_evolve_update:
  "(\<And>r. P r \<Longrightarrow> evolves r (f r)) \<Longrightarrow> rows_evolve rows (update_where P f rows)"
  unfolding rows_evolve_def update_where_def
  by (intro ballI, rule_tac x = "if P r then f r else r" in bexI) auto

lemma rows_evolve_update_after:
  "rows_evolve rows rows1 \<Longrightarrow> (\<And>r. P r \<Longrightarrow> evolves r (f r)) \<Longrightarrow> rows_evolve rows (update_where P f rows1)"
  using rows_evolve_trans rows_evolve_update by blast

lemma state_rank_le_STOPPED [simp]: "state_rank s \<le> 4"
  by (cases s) simp_all

lemma reg_step_evolve: "reg_step rg rg' \<Longrightarrow> rows_evolve (rg_instances rg) (rg_instances rg')"
  by (induction rule: reg_step.induct)
    (auto simp: mutator_defs InsertStarting_def Let_def evolves_def
      intro!: rows_evolve_update_after rows_evolve_update)

lemma reg_steps_evolve: "reg_step\<^sup>*\<^sup>* rg rg' \<Longrightarrow> rows_evolve (rg_instances rg) (rg_instances rg')"
  by (induction rule: rtranclp_induct) (auto dest: reg_step_evolve intro: rows_evolve_trans)
subsection \<open>The invariant\<close>

definition counts_ok :: "Registry \<Rightarrow> bool" where
  "counts_ok rg \<longleftrightarrow> (\<forall>r \<in> set (rg_instances rg). ir_state r \<noteq> STOPPED \<longrightarrow>
     ir_player_count r = int (length (active_rows (ir_instance_id r) rg)))"

definition keys_ok :: "Registry \<Rightarrow> bool" where
  "keys_ok rg \<longleftrightarrow> distinct (map ir_id (rg_instances rg)) \<and> 0 < rg_next_instance rg \<and>
     (\<forall>r \<in> set (rg_instances rg). ir_instance_id r = ir_id r \<and> 0 < ir_id r \<and> ir_id r < rg_next_instance rg)"

definition players_ok :: "Registry \<Rightarrow> bool" where
  "players_ok rg \<longleftrightarrow> distinct (map (\<lambda>p. (ip_instance_id p, ip_session_guid p)) (rg_players rg)) \<and>
     (\<forall>p \<in> set (rg_players rg). ip_instance_id p < rg_next_instance rg)"

definition registry_ok :: "Registry \<Rightarrow> bool" where
  "registry_ok rg \<longleftrightarrow> keys_ok rg \<and> players_ok rg \<and> distinct (live_ports rg) \<and> counts_ok rg"

lemma registry_okI:
  "keys_ok rg \<Longrightarrow> players_ok rg \<Longrightarrow> distinct (live_ports rg) \<Longrightarrow> counts_ok rg \<Longrightarrow> registry_ok rg"
  by (simp add: registry_ok_def)

lemma active_rows_instances [simp]:
  "active_rows iid (rg_instances_update f rg) = active_rows iid rg"
  by (simp add: active_rows_def)

lemma map_update_where: "(\<And>x. P x \<Longrightarrow> g (f x) = g x) \<Longrightarrow> map g (update_where P f xs) = map g xs"
  by (simp add: update_where_def)

lemma ball_update_where:
  "(\<forall>r \<in> set (update_where P f xs). Q r) \<longleftrightarrow> (\<forall>r \<in> set xs. Q (if P r then f r else r))"
  unfolding update_where_def by (metis (no_types, lifting) image_eqI imageE set_map)

lemma ball_update_keep:
  "\<forall>r \<in> set xs. Q r \<Longrightarrow> (\<And>r. P r \<Longrightarrow> Q r \<Longrightarrow> Q (f r)) \<Longrightarrow> \<forall>r \<in> set (update_where P f xs). Q r"
  unfolding ball_update_where by simp

lemma keys_ok_update:
  assumes "keys_ok rg" "\<And>r. ir_id (f r) = ir_id r" "\<And>r. ir_instance_id (f r) = ir_instance_id r"
  shows "keys_ok (update_instances P f rg)"
  using assms by (simp add: keys_ok_def map_update_where ball_update_where)

lemma players_ok_instances [simp]: "players_ok (rg_instances_update f rg) = players_ok rg"
  by (simp add: players_ok_def)

lemma live_ports_update:
  assumes "distinct (live_ports rg)" "\<And>r. ir_udp_port (f r) = ir_udp_port r"
    and "\<And>r. ir_state (f r) \<noteq> STOPPED \<Longrightarrow> ir_state r \<noteq> STOPPED"
  shows "distinct (live_ports (update_instances P f rg))"
proof -
  let ?live = "\<lambda>r. ir_state r \<noteq> STOPPED"
  have "subseq (map ir_udp_port (filter ?live (update_where P f rows)))
               (map ir_udp_port (filter ?live rows))" for rows
    unfolding update_where_def
  proof (induction rows)
    case (Cons r rows)
    show ?case
    proof (cases "P r")
      case True
      then show ?thesis using Cons.IH assms(3) [of r]
        by (cases "ir_state (f r) = STOPPED"; cases "ir_state r = STOPPED") (simp_all add: assms(2) list_emb_Cons)
    next
      case False
      then show ?thesis using Cons.IH by simp
    qed
  qed simp
  from subseq_map_distinct [OF this [of "rg_instances rg"], of "\<lambda>x. x"] assms(1)
  show ?thesis by (simp add: live_ports_def)
qed

lemma counts_ok_update:
  assumes "counts_ok rg" "\<And>r. P r \<Longrightarrow> ir_instance_id (f r) = ir_instance_id r"
    and "\<And>r. P r \<Longrightarrow> ir_state (f r) \<noteq> STOPPED \<Longrightarrow>
      ir_state r \<noteq> STOPPED \<and> ir_player_count (f r) = ir_player_count r"
  shows "counts_ok (update_instances P f rg)"
  using assms by (auto simp: counts_ok_def update_where_def)

lemma registry_ok_update:
  assumes "registry_ok rg" "\<And>r. ir_id (f r) = ir_id r" "\<And>r. ir_instance_id (f r) = ir_instance_id r"
    and "\<And>r. ir_udp_port (f r) = ir_udp_port r" "\<And>r. ir_player_count (f r) = ir_player_count r"
    and "\<And>r. P r \<Longrightarrow> ir_state r \<noteq> STOPPED \<or> ir_state (f r) = STOPPED"
  shows "registry_ok (update_instances P f rg)"
proof -
  let ?f = "\<lambda>r. if P r then f r else r"
  have eq: "update_instances P f rg = update_instances P ?f rg" by (simp add: update_where_def cong: map_cong)
  show ?thesis unfolding eq
    using assms(1) unfolding registry_ok_def
    by (intro conjI keys_ok_update live_ports_update counts_ok_update)
      (use assms(2-6) in \<open>auto split: if_splits\<close>)
qed

text \<open>Recounting one instance after its players changed.\<close>

lemma recount_ok:
  assumes "keys_ok rg" "players_ok rg" "distinct (live_ports rg)"
    and others: "\<And>r. r \<in> set (rg_instances rg) \<Longrightarrow> ir_instance_id r \<noteq> iid \<Longrightarrow> ir_state r \<noteq> STOPPED \<Longrightarrow>
      ir_player_count r = int (length (active_rows (ir_instance_id r) rg))"
  shows "registry_ok (recount iid rg)"
  unfolding recount_def
proof (rule registry_okI)
  show "counts_ok (update_instances (\<lambda>r. ir_instance_id r = iid)
          (\<lambda>r. r\<lparr>ir_player_count := int (length (active_rows iid rg))\<rparr>) rg)"
    using others by (auto simp: counts_ok_def update_where_def)
qed (use assms(1-3) in \<open>auto intro!: keys_ok_update live_ports_update\<close>)

lemma active_rows_other:
  assumes "\<And>p. P p \<Longrightarrow> ip_instance_id p = iid" "\<And>p. ip_instance_id (f p) = ip_instance_id p" "i \<noteq> iid"
  shows "active_rows i (update_players P f rg) = active_rows i rg"
proof -
  have "filter (is_active i) (update_where P f ps) = filter (is_active i) ps" for ps
    by (induction ps) (use assms in \<open>auto simp: update_where_def\<close>)
  then show ?thesis by (simp add: active_rows_def)
qed

lemma active_rows_leave: "active_rows i (leave_rows now iid rg) = (if i = iid then [] else active_rows i rg)"
proof (cases "i = iid")
  case True
  have "filter (is_active iid) (update_where (is_active iid) (\<lambda>p. p\<lparr>ip_left_at := Some now\<rparr>) ps) = []" for ps
    by (induction ps) (auto simp: update_where_def)
  with True show ?thesis by (simp add: active_rows_def leave_rows_def)
next
  case False
  then show ?thesis unfolding leave_rows_def by (subst active_rows_other [of _ iid]) auto
qed

lemma players_ok_update:
  assumes "players_ok rg" "\<And>p. ip_instance_id (f p) = ip_instance_id p" "\<And>p. ip_session_guid (f p) = ip_session_guid p"
  shows "players_ok (update_players P f rg)"
  using assms by (simp add: players_ok_def map_update_where ball_update_where)

lemma keys_ok_players [simp]: "keys_ok (rg_players_update f rg) = keys_ok rg"
  by (simp add: keys_ok_def)

lemma live_ports_players [simp]: "live_ports (rg_players_update f rg) = live_ports rg"
  by (simp add: live_ports_def)
subsection \<open>Every operation keeps the invariant\<close>

lemma leave_rows_simps [simp]:
  "rg_instances (leave_rows now iid rg) = rg_instances rg"
  "live_ports (leave_rows now iid rg) = live_ports rg"
  "keys_ok (leave_rows now iid rg) = keys_ok rg"
  by (simp_all add: leave_rows_def)

lemma players_ok_leave: "players_ok rg \<Longrightarrow> players_ok (leave_rows now iid rg)"
  unfolding leave_rows_def by (rule players_ok_update) simp_all

lemma SetMaxPlayers_ok [keep_inv]: "registry_ok rg \<Longrightarrow> registry_ok (SetMaxPlayers iid m rg)"
  and UpdatePid_ok [keep_inv]: "registry_ok rg \<Longrightarrow> registry_ok (UpdatePid iid p rg)"
  and SetLastEmpty_ok [keep_inv]: "registry_ok rg \<Longrightarrow> registry_ok (SetLastEmptyAtIfEmpty now iid rg)"
  and MarkReady_ok [keep_inv]: "registry_ok rg \<Longrightarrow> registry_ok (MarkReady now iid m rg)"
  and promote_row_ok [keep_inv]: "registry_ok rg \<Longrightarrow> registry_ok (promote_row now iid rg)"
  unfolding SetMaxPlayers_def UpdatePid_def SetLastEmptyAtIfEmpty_def MarkReady_def promote_row_def
  by (auto intro: registry_ok_update)

lemma MarkMissionEnded_ok [keep_inv]: "registry_ok rg \<Longrightarrow> registry_ok (snd (MarkMissionEnded now parent rg))"
proof -
  assume "registry_ok rg"
  then have "registry_ok (update_instances (\<lambda>r. ir_instance_id r = parent \<and> ir_end_mission_at r = None)
      (\<lambda>r. r\<lparr>ir_end_mission_at := Some now\<rparr>) rg)" by (rule registry_ok_update) auto
  then show ?thesis by (simp add: MarkMissionEnded_def Let_def promote_row_ok)
qed

lemma PromoteSuccessor_ok [keep_inv]: "registry_ok rg \<Longrightarrow> registry_ok (snd (PromoteSuccessor now parent rg))"
  by (simp add: PromoteSuccessor_def Let_def promote_row_ok)

lemma fallback_ok: "registry_ok rg \<Longrightarrow> registry_ok (update_instances P (fallback_outcome rg0) rg)"
  by (rule registry_ok_update) (auto simp: fallback_outcome_def)

lemma seal_ok:
  "registry_ok rg \<Longrightarrow> registry_ok (update_instances P (\<lambda>r. r\<lparr>ir_state := STOPPED, ir_sealed_at := Some now\<rparr>) rg)"
  by (rule registry_ok_update) auto

lemma ClearStaleInstances_ok [keep_inv]: "registry_ok rg \<Longrightarrow> registry_ok (ClearStaleInstances now rg)"
  unfolding ClearStaleInstances_def Let_def by (intro seal_ok fallback_ok)

lemma leave_rows_ok:
  assumes "registry_ok rg" "\<forall>r \<in> set (rg_instances rg). ir_instance_id r = iid \<longrightarrow> ir_state r = STOPPED"
  shows "registry_ok (leave_rows now iid rg)"
proof (rule registry_okI)
  show "counts_ok (leave_rows now iid rg)"
    using assms by (auto simp: counts_ok_def registry_ok_def active_rows_leave)
qed (use assms(1) in \<open>simp_all add: registry_ok_def players_ok_leave\<close>)

lemma MarkStoppedRows_ok [keep_inv]:
  assumes "registry_ok rg" shows "registry_ok (MarkStoppedRows now iid rg)"
  unfolding MarkStoppedRows_def Let_def
  by (rule leave_rows_ok [OF seal_ok [OF fallback_ok [OF assms]]])
    (simp add: ball_update_where)

lemma MarkAllInstancePlayersLeft_ok [keep_inv]:
  assumes "registry_ok rg" shows "registry_ok (MarkAllInstancePlayersLeft now iid rg)"
proof -
  have "MarkAllInstancePlayersLeft now iid rg = recount iid (leave_rows now iid rg)"
    by (simp add: MarkAllInstancePlayersLeft_def recount_def active_rows_leave)
  also have "registry_ok \<dots>"
    by (rule recount_ok) (use assms in \<open>auto simp: registry_ok_def counts_ok_def players_ok_leave active_rows_leave\<close>)
  finally show ?thesis .
qed

lemma UpdateInstancePlayerTaskForce_ok [keep_inv]:
  assumes "registry_ok rg" shows "registry_ok (UpdateInstancePlayerTaskForce iid g tf rg)"
proof -
  let ?P = "\<lambda>p. is_active iid p \<and> ip_session_guid p = g"
  have "length (filter (is_active i) (update_where ?P (\<lambda>p. p\<lparr>ip_task_force := tf\<rparr>) ps))
      = length (filter (is_active i) ps)" for i ps
    by (induction ps) (simp_all add: update_where_def)
  then have "length (active_rows i (UpdateInstancePlayerTaskForce iid g tf rg)) = length (active_rows i rg)" for i
    by (simp add: active_rows_def UpdateInstancePlayerTaskForce_def)
  then have "counts_ok (UpdateInstancePlayerTaskForce iid g tf rg)"
    using assms by (simp add: registry_ok_def counts_ok_def) (simp add: UpdateInstancePlayerTaskForce_def)
  then show ?thesis
    using assms players_ok_update [of rg "\<lambda>p. p\<lparr>ip_task_force := tf\<rparr>" ?P]
    by (simp add: registry_ok_def UpdateInstancePlayerTaskForce_def)
qed

lemma MarkInstancePlayerLeft_ok [keep_inv]:
  assumes "registry_ok rg" shows "registry_ok (MarkInstancePlayerLeft now iid g rg)"
proof -
  let ?rg1 = "update_players (\<lambda>p. is_active iid p \<and> ip_session_guid p = g) (\<lambda>p. p\<lparr>ip_left_at := Some now\<rparr>) rg"
  have "active_rows i ?rg1 = active_rows i rg" if "i \<noteq> iid" for i
    by (rule active_rows_other [OF _ _ that]) auto
  then have "registry_ok (recount iid ?rg1)"
    by (intro recount_ok) (use assms in \<open>auto simp: registry_ok_def counts_ok_def intro: players_ok_update\<close>)
  then have "registry_ok (update_instances (\<lambda>r. ir_instance_id r = iid \<and> ir_player_count r = 0 \<and> ir_last_empty_at r = None)
      (\<lambda>r. r\<lparr>ir_last_empty_at := Some now\<rparr>) (recount iid ?rg1))"
    by (rule registry_ok_update) auto
  then show ?thesis by (simp add: MarkInstancePlayerLeft_def Let_def)
qed

lemma InsertInstancePlayer_ok:
  assumes "registry_ok rg" "iid \<in> ir_instance_id ` set (rg_instances rg)"
  shows "registry_ok (InsertInstancePlayer now iid g c tf prof rg)"
proof -
  define row where "row = \<lparr>ip_id = rg_next_player rg, ip_instance_id = iid, ip_session_guid = g,
             ip_character_id = c, ip_task_force = tf,
             ip_profile_id = (if prof = 0 then None else Some (sint prof)),
             ip_joined_at = now, ip_left_at = None\<rparr>"
  define rg1 where "rg1 = rg\<lparr>rg_players := filter (\<lambda>p. \<not> (ip_instance_id p = iid \<and> ip_session_guid p = g))
             (rg_players rg) @ [row], rg_next_player := rg_next_player rg + 1\<rparr>"
  have next_id: "iid < rg_next_instance rg" using assms by (auto simp: registry_ok_def keys_ok_def)
  have d: "distinct (map (\<lambda>p. (ip_instance_id p, ip_session_guid p)) (rg_players rg))"
    using assms(1) by (simp add: registry_ok_def players_ok_def)
  have pl: "players_ok rg1"
    using assms(1) next_id distinct_map_filter [OF d]
    by (auto simp: players_ok_def rg1_def row_def registry_ok_def)
  have "active_rows i rg1 = active_rows i rg" if "i \<noteq> iid" for i
    using that by (auto simp: active_rows_def rg1_def row_def intro!: filter_cong)
  moreover have "keys_ok rg1" "live_ports rg1 = live_ports rg" "rg_instances rg1 = rg_instances rg"
    using assms(1) by (simp_all add: registry_ok_def keys_ok_def rg1_def live_ports_def)
  ultimately have "registry_ok (recount iid rg1)"
    by (intro recount_ok [OF _ pl]) (use assms(1) in \<open>auto simp: registry_ok_def counts_ok_def\<close>)
  then have "registry_ok (update_instances (\<lambda>r. ir_instance_id r = iid) (\<lambda>r. r\<lparr>ir_last_empty_at := None\<rparr>) (recount iid rg1))"
    by (rule registry_ok_update) auto
  then show ?thesis by (simp add: InsertInstancePlayer_def Let_def rg1_def row_def)
qed

lemma InsertStarting_rows:
  assumes "keys_ok rg"
  shows "\<exists>row. rg_instances (snd (InsertStarting bonus now m gm port p home q pre access owners rg))
           = rg_instances rg @ [row] \<and> ir_id row = rg_next_instance rg \<and> ir_instance_id row = rg_next_instance rg \<and>
         ir_state row = STARTING \<and> ir_udp_port row = port \<and> ir_player_count row = 0"
proof -
  have "update_where (\<lambda>r. ir_id r = rg_next_instance rg) f (rg_instances rg) = rg_instances rg" for f
    unfolding update_where_def by (rule map_idI) (use assms in \<open>auto simp: keys_ok_def\<close>)
  then show ?thesis by (simp add: InsertStarting_def Let_def update_where_def)
qed

lemma InsertStarting_other:
  "rg_players (snd (InsertStarting bonus now m gm port p home q pre access owners rg)) = rg_players rg"
  "rg_next_instance (snd (InsertStarting bonus now m gm port p home q pre access owners rg)) = rg_next_instance rg + 1"
  "fst (InsertStarting bonus now m gm port p home q pre access owners rg) = rg_next_instance rg"
  by (simp_all add: InsertStarting_def Let_def)

lemma InsertStarting_ok:
  assumes "registry_ok rg" "port \<notin> set (live_ports rg)"
  shows "registry_ok (snd (InsertStarting bonus now m gm port p home q pre access owners rg))" (is "registry_ok ?rg'")
proof -
  have k: "keys_ok rg" using assms(1) by (simp add: registry_ok_def)
  from InsertStarting_rows [OF this] obtain row where
    row: "rg_instances ?rg' = rg_instances rg @ [row]" "ir_id row = rg_next_instance rg"
      "ir_instance_id row = rg_next_instance rg" "ir_state row = STARTING" "ir_udp_port row = port"
      "ir_player_count row = 0" by blast
  have act: "active_rows i ?rg' = active_rows i rg" for i
    by (simp add: active_rows_def InsertStarting_other)
  have none: "active_rows (rg_next_instance rg) rg = []"
    using assms(1) by (auto simp: registry_ok_def players_ok_def active_rows_def filter_empty_conv)
  show ?thesis
  proof (rule registry_okI)
    show "keys_ok ?rg'" using k row by (auto simp: keys_ok_def InsertStarting_other)
    show "players_ok ?rg'" using assms(1) by (auto simp: registry_ok_def players_ok_def InsertStarting_other)
    show "distinct (live_ports ?rg')" using assms row by (simp add: registry_ok_def live_ports_def)
    show "counts_ok ?rg'" using assms(1) row by (auto simp: registry_ok_def counts_ok_def act none)
  qed
qed
section \<open>Port allocation\<close>

text \<open>The scan from \<open>port\<close>, by the number of ports left below the top of the range.\<close>

lemma port_scan_spec:
  "hi < 65535 \<Longrightarrow> unat hi - unat port = n \<Longrightarrow>
   \<exists>r. port_scan in_use hi port = Some r \<and>
     (case r of Some p \<Rightarrow> port \<le> p \<and> p \<le> hi \<and> p \<notin> set in_use \<and> (\<forall>q. port \<le> q \<and> q < p \<longrightarrow> q \<in> set in_use)
      | None \<Rightarrow> \<forall>q. port \<le> q \<and> q \<le> hi \<longrightarrow> q \<in> set in_use)"
proof (induction n arbitrary: port rule: less_induct)
  case (less n)
  note step = port_scan.simps [of in_use hi port]
  consider "hi < port" | "port \<le> hi" "port \<notin> set in_use" | "port \<le> hi" "port \<in> set in_use"
    by (cases "port \<le> hi") auto
  then show ?case
  proof cases
    case 1
    then show ?thesis using step by (intro exI [of _ None]) auto
  next
    case 2
    then show ?thesis using step by (intro exI [of _ "Some port"]) auto
  next
    case 3
    have small: "port < 65535" using 3(1) less.prems(1) by simp
    then have suc: "unat (port + 1) = unat port + 1"
      by (simp add: unat_word_ariths word_less_nat_alt)
    have next_port: "port_scan in_use hi port = port_scan in_use hi (port + 1)"
      using 3 by (subst step) simp
    have ge: "port \<le> q \<longleftrightarrow> q = port \<or> port + 1 \<le> q" for q
      unfolding word_le_nat_alt word_unat_eq_iff suc by auto
    show ?thesis
    proof (cases "port = hi")
      case True
      have "\<not> port + 1 \<le> hi" using True suc by (simp add: word_le_nat_alt)
      then have "port_scan in_use hi port = Some None"
        using next_port port_scan.simps [of in_use hi "port + 1"] by simp
      then show ?thesis using 3 True by (intro exI [of _ None]) auto
    next
      case False
      then have "unat port < unat hi" using 3(1) by (simp add: word_le_nat_alt le_less word_unat_eq_iff)
      then have "unat hi - unat (port + 1) < n" using less.prems(2) suc by simp
      from less.IH [OF this less.prems(1) refl] obtain r where
        r: "port_scan in_use hi (port + 1) = Some r" and
        q: "case r of Some p \<Rightarrow> port + 1 \<le> p \<and> p \<le> hi \<and> p \<notin> set in_use \<and> (\<forall>q. port + 1 \<le> q \<and> q < p \<longrightarrow> q \<in> set in_use)
            | None \<Rightarrow> \<forall>q. port + 1 \<le> q \<and> q \<le> hi \<longrightarrow> q \<in> set in_use" by blast
      have "port_scan in_use hi port = Some r" using next_port r by simp
      then show ?thesis using q 3(2) by (intro exI [of _ r]) (auto simp: ge split: option.splits)
    qed
  qed
qed

text \<open>A port that is handed out is free, whatever the range.\<close>

lemma port_scan_free: "port_scan in_use hi port = Some (Some p) \<Longrightarrow> p \<notin> set in_use"
proof -
  assume found: "port_scan in_use hi port = Some (Some p)"
  have "Some p = Some p \<longrightarrow> p \<notin> set in_use"
    by (rule port_scan.raw_induct [of "\<lambda>in_use hi port r. r = Some p \<longrightarrow> p \<notin> set in_use", OF _ found])
      (auto split: if_splits)
  then show ?thesis by simp
qed

text \<open>
  At the top of the port space the counter wraps before it passes \<open>hi\<close>, and the scan goes
  on from 0: with every port of the range in use it hands out a port below the range.
\<close>

lemma port_scan_wraps:
  "port_scan [65534, 65535] 65535 65534 = Some (Some 0)"
  by (simp add: port_scan.simps)
section \<open>Properties\<close>

lemma AllocatePort_free: "AllocatePort lo hi rg = Some (Some p) \<Longrightarrow> p \<notin> set (live_ports rg)"
  by (simp add: AllocatePort_def port_scan_free)

lemma reg_step_ok: "reg_step rg rg' \<Longrightarrow> registry_ok rg \<Longrightarrow> registry_ok rg'"
  by (induction rule: reg_step.induct)
    (auto intro: keep_inv InsertStarting_ok InsertInstancePlayer_ok dest: AllocatePort_free)

lemma reg_steps_ok: "reg_step\<^sup>*\<^sup>* rg rg' \<Longrightarrow> registry_ok rg \<Longrightarrow> registry_ok rg'"
  by (induction rule: rtranclp_induct) (auto dest: reg_step_ok)

lemma empty_registry_ok: "registry_ok empty_registry"
  by (simp add: registry_ok_def keys_ok_def players_ok_def counts_ok_def live_ports_def empty_registry_def)

text \<open>Two missions: instance 2 is the successor of instance 1, and one player is in 1.\<close>

definition ex_starting :: "int \<Rightarrow> u16 \<Rightarrow> Registry \<Rightarrow> Registry" where
  "ex_starting pre port rg = snd (InsertStarting (\<lambda>_. None) 100 ''Frostbite'' ''Merc'' port 0 False 7 pre ''OPEN'' [] rg)"

definition ex_registry :: Registry where
  "ex_registry = ex_starting 1 9001
     (InsertInstancePlayer 101 1 ''a'' 5 1 680 (MarkReady 100 1 16 (ex_starting 0 9000 empty_registry)))"

lemmas ex_registry_defs = ex_registry_def ex_starting_def InsertStarting_def InsertInstancePlayer_def
  MarkReady_def has_live_predecessor_def recount_def active_rows_def update_where_def empty_registry_def

lemma ex_registry_rows:
  "map (\<lambda>r. (ir_instance_id r, ir_state r, ir_udp_port r, ir_player_count r, ir_predecessor r, ir_end_mission_at r))
     (rg_instances ex_registry) = [(1, READY, 9000, 1, None, None), (2, STARTING, 9001, 0, Some 1, None)]"
  by (simp add: ex_registry_defs Let_def coalesce0_def)

lemma ex_registry_length: "length (rg_instances ex_registry) = 2"
  using arg_cong [OF ex_registry_rows, of length] unfolding length_map by simp

lemma ex_ports: "AllocatePort 9000 9010 empty_registry = Some (Some 9000)"
  "AllocatePort 9000 9010 (InsertInstancePlayer 101 1 ''a'' 5 1 680 (MarkReady 100 1 16 (ex_starting 0 9000 empty_registry)))
     = Some (Some 9001)"
  by (simp_all add: AllocatePort_def live_ports_def ex_registry_defs Let_def port_scan.simps)

lemma ex_registry_steps: "reg_step\<^sup>*\<^sup>* empty_registry ex_registry"
proof -
  let ?r1 = "ex_starting 0 9000 empty_registry"
  let ?r2 = "MarkReady 100 1 16 ?r1"
  let ?r3 = "InsertInstancePlayer 101 1 ''a'' 5 1 680 ?r2"
  have "reg_step empty_registry ?r1"
    unfolding ex_starting_def by (rule reg_step.spawn [OF ex_ports(1)])
  moreover have "reg_step ?r1 ?r2" by (rule reg_step.ready)
  moreover have "reg_step ?r2 ?r3" by (rule reg_step.join) (simp add: ex_registry_defs Let_def)
  moreover have "reg_step ?r3 ex_registry"
    unfolding ex_registry_def ex_starting_def [of 1]
    by (rule reg_step.spawn [OF ex_ports(2)])
  ultimately show ?thesis by (meson rtranclp.rtrancl_refl rtranclp.rtrancl_into_rtrancl)
qed

text \<open>
  C3. The registry keeps its invariant along every history of operations: instance ids are
  unique and equal to the row ids; a player has at most one row per instance; live instances
  hold pairwise different UDP ports; and the stored head count of every instance that is not
  STOPPED is the number of players who have joined it and not left.
\<close>

theorem registry_invariant:
  assumes "registry_ok rg" "reg_step\<^sup>*\<^sup>* rg rg'"
  shows "registry_ok rg'"
  by (rule reg_steps_ok [OF assms(2,1)])

theorem registry_invariant_witness: "registry_ok ex_registry \<and> length (rg_instances ex_registry) = 2"
  using registry_invariant [OF empty_registry_ok ex_registry_steps] ex_registry_length by simp

text \<open>
  The life of an instance runs one way, STARTING, DRAFTING, READY, STOPPED, possibly
  skipping states, and a stopped instance stays stopped; its map, mode, port, queue,
  predecessor and access never change; the end-of-mission stamp and the outcome are
  written once; and no operation deletes an instance.
\<close>

theorem instance_lifecycle:
  assumes "reg_step\<^sup>*\<^sup>* rg rg'" "r \<in> set (rg_instances rg)"
  shows "\<exists>r' \<in> set (rg_instances rg'). evolves r r' \<and> (ir_state r = STOPPED \<longrightarrow> ir_state r' = STOPPED)"
proof -
  obtain r' where "r' \<in> set (rg_instances rg')" "evolves r r'"
    using reg_steps_evolve [OF assms(1)] assms(2) unfolding rows_evolve_def by blast
  moreover from this(2) have "ir_state r = STOPPED \<Longrightarrow> ir_state r' = STOPPED"
    by (cases "ir_state r'") (simp_all add: evolves_def)
  ultimately show ?thesis by blast
qed

theorem instance_lifecycle_witness:
  "\<exists>r \<in> set (rg_instances ex_registry). \<exists>r' \<in> set (rg_instances (MarkStoppedRows 200 1 ex_registry)).
     ir_state r = READY \<and> evolves r r'"
proof -
  have "(1, READY, 9000, 1, None, None) \<in> set (map (\<lambda>r. (ir_instance_id r, ir_state r, ir_udp_port r,
      ir_player_count r, ir_predecessor r, ir_end_mission_at r)) (rg_instances ex_registry))"
    unfolding ex_registry_rows by simp
  then obtain r where r: "r \<in> set (rg_instances ex_registry)" "ir_state r = READY" by auto
  have "reg_step\<^sup>*\<^sup>* ex_registry (MarkStoppedRows 200 1 ex_registry)"
    by (rule r_into_rtranclp) (rule reg_step.stopped)
  from instance_lifecycle [OF this r(1)] r show ?thesis by blast
qed

text \<open>
  Port allocation always returns when the top of the range is below 65535, with the
  lowest free port of the range, or with none when all of them are held by live instances.
\<close>

theorem allocate_port_least:
  assumes "hi < 65535"
  shows "\<exists>r. AllocatePort lo hi rg = Some r \<and>
    (case r of
       Some p \<Rightarrow> lo \<le> p \<and> p \<le> hi \<and> p \<notin> set (live_ports rg) \<and> (\<forall>q. lo \<le> q \<and> q < p \<longrightarrow> q \<in> set (live_ports rg))
     | None \<Rightarrow> \<forall>q. lo \<le> q \<and> q \<le> hi \<longrightarrow> q \<in> set (live_ports rg))"
  unfolding AllocatePort_def by (rule port_scan_spec [OF assms refl])

theorem allocate_port_least_witness:
  "\<exists>r. AllocatePort 9000 9010 ex_registry = Some r \<and> (case r of Some p \<Rightarrow> 9000 \<le> p \<and> p \<le> 9010 | None \<Rightarrow> True)"
  using allocate_port_least [of 9010 9000 ex_registry] by (fastforce split: option.splits)
text \<open>The hand-over from a mission to its successor, step by step.\<close>

definition all_in_state :: "int \<Rightarrow> InstanceState set \<Rightarrow> Registry \<Rightarrow> bool" where
  "all_in_state iid S rg \<longleftrightarrow> (\<forall>r \<in> set (rg_instances rg). ir_instance_id r = iid \<longrightarrow> ir_state r \<in> S)"

definition waits_for :: "int \<Rightarrow> int \<Rightarrow> Registry \<Rightarrow> bool" where
  \<comment> \<open>\<open>iid\<close> is the only successor of \<open>parent\<close> that may be drafting\<close>
  "waits_for parent iid rg \<longleftrightarrow>
     (\<exists>r \<in> set (rg_instances rg). ir_instance_id r = iid) \<and>
     (\<forall>r \<in> set (rg_instances rg). (ir_instance_id r = iid \<longrightarrow> ir_predecessor r = Some parent) \<and>
        (ir_predecessor r = Some parent \<and> ir_state r = DRAFTING \<longrightarrow> ir_instance_id r = iid))"

lemma drafting_successor_eq:
  assumes "waits_for parent iid rg" "all_in_state iid {DRAFTING} rg"
  shows "drafting_successor parent rg = iid"
proof -
  obtain r where r: "r \<in> set (rg_instances rg)" "ir_instance_id r = iid"
    using assms(1) unfolding waits_for_def by blast
  have "ir_predecessor r = Some parent" using assms(1) r unfolding waits_for_def by blast
  moreover have "ir_state r = DRAFTING" using assms(2) r unfolding all_in_state_def by blast
  ultimately have "find (\<lambda>r. ir_predecessor r = Some parent \<and> ir_state r = DRAFTING) (rg_instances rg) \<noteq> None"
    using r(1) unfolding find_None_iff by blast
  then obtain q where q: "find (\<lambda>r. ir_predecessor r = Some parent \<and> ir_state r = DRAFTING) (rg_instances rg) = Some q"
    by blast
  from find_Some_in_set [OF this] assms(1) have "ir_instance_id q = iid"
    unfolding waits_for_def by blast
  then show ?thesis by (simp add: drafting_successor_def q)
qed

lemma all_in_state_update:
  "all_in_state iid S (update_instances P f rg) \<longleftrightarrow>
   (\<forall>r \<in> set (rg_instances rg). (if P r then ir_instance_id (f r) = iid \<longrightarrow> ir_state (f r) \<in> S
      else ir_instance_id r = iid \<longrightarrow> ir_state r \<in> S))"
  unfolding all_in_state_def by (simp add: ball_update_where)

lemma waits_for_update:
  assumes "waits_for parent iid rg"
    and "\<And>r. ir_instance_id (f r) = ir_instance_id r \<and> ir_predecessor (f r) = ir_predecessor r"
    and "\<And>r. P r \<Longrightarrow> ir_state (f r) = DRAFTING \<Longrightarrow> ir_state r = DRAFTING \<or> ir_instance_id r = iid"
  shows "waits_for parent iid (update_instances P f rg)"
proof -
  obtain r0 where r0: "r0 \<in> set (rg_instances rg)" "ir_instance_id r0 = iid"
    using assms(1) unfolding waits_for_def by blast
  have ex: "\<exists>r \<in> set (update_where P f (rg_instances rg)). ir_instance_id r = iid"
    unfolding update_where_def set_map using r0 assms(2) [of r0]
    by (intro bexI [OF _ imageI [OF r0(1)]]) simp
  have "(ir_instance_id (if P r then f r else r) = iid \<longrightarrow> ir_predecessor (if P r then f r else r) = Some parent) \<and>
      (ir_predecessor (if P r then f r else r) = Some parent \<and> ir_state (if P r then f r else r) = DRAFTING \<longrightarrow>
       ir_instance_id (if P r then f r else r) = iid)" if r: "r \<in> set (rg_instances rg)" for r
  proof -
    have "(ir_instance_id r = iid \<longrightarrow> ir_predecessor r = Some parent) \<and>
        (ir_predecessor r = Some parent \<and> ir_state r = DRAFTING \<longrightarrow> ir_instance_id r = iid)"
      using assms(1) r unfolding waits_for_def by blast
    then show ?thesis using assms(2) [of r] assms(3) [of r] by (cases "P r") auto
  qed
  then show ?thesis unfolding waits_for_def using ex by (simp add: ball_update_where del: if_split)
qed

lemma promote_released:
  assumes "all_in_state iid {DRAFTING} rg \<and> waits_for parent iid rg \<or> all_in_state iid {READY} rg" "iid \<noteq> 0"
  shows "all_in_state iid {READY} (snd (PromoteSuccessor now parent rg))"
    and "all_in_state iid {READY} (if drafting_successor parent rg \<noteq> 0
      then promote_row now (drafting_successor parent rg) rg else rg)"
proof -
  have *: "all_in_state iid {READY} (promote_row now i rg)" if "all_in_state iid {READY} rg" for i
    using that unfolding promote_row_def all_in_state_update by (auto simp: all_in_state_def)
  have **: "all_in_state iid {READY} (promote_row now iid rg)" if "all_in_state iid {DRAFTING} rg"
    using that unfolding promote_row_def all_in_state_update by (auto simp: all_in_state_def)
  show g: "all_in_state iid {READY} (if drafting_successor parent rg \<noteq> 0
      then promote_row now (drafting_successor parent rg) rg else rg)"
    using assms drafting_successor_eq [of parent iid rg] * ** by (cases "drafting_successor parent rg = 0") auto
  show "all_in_state iid {READY} (snd (PromoteSuccessor now parent rg))"
    using g by (auto simp: PromoteSuccessor_def Let_def split: if_splits)
qed

lemma MarkReady_outcome:
  assumes "all_in_state iid {STARTING} rg" "waits_for parent iid rg" "keys_ok rg"
  shows "all_in_state iid {DRAFTING} (MarkReady now iid m rg) \<and> waits_for parent iid (MarkReady now iid m rg)
    \<or> all_in_state iid {READY} (MarkReady now iid m rg)"
proof -
  let ?live = "list_ex (\<lambda>p. ir_instance_id p = parent \<and> ir_end_mission_at p = None \<and> ir_state p \<noteq> STOPPED) (rg_instances rg)"
  have eq: "has_live_predecessor rg r = ?live" if "r \<in> set (rg_instances rg)" "ir_instance_id r = iid" for r
    using assms(2) that by (auto simp: waits_for_def has_live_predecessor_def)
  have "all_in_state iid {if ?live then DRAFTING else READY} (MarkReady now iid m rg)"
    using assms(1) eq unfolding MarkReady_def all_in_state_update by (auto simp: all_in_state_def)
  moreover have "waits_for parent iid (MarkReady now iid m rg)"
    unfolding MarkReady_def by (rule waits_for_update [OF assms(2)]) auto
  ultimately show ?thesis by (cases ?live) auto
qed

lemma MarkReady_released:
  assumes "all_in_state iid {STARTING, READY} rg" "\<forall>r \<in> set (rg_instances rg). ir_instance_id r = iid \<longrightarrow> ir_predecessor r = Some parent"
    and "\<forall>p \<in> set (rg_instances rg). ir_instance_id p = parent \<longrightarrow> ir_end_mission_at p \<noteq> None \<or> ir_state p = STOPPED"
  shows "all_in_state iid {READY} (MarkReady now iid m rg)"
proof -
  have "\<not> has_live_predecessor rg r" if "r \<in> set (rg_instances rg)" "ir_instance_id r = iid" for r
    using assms(2,3) that by (auto simp: has_live_predecessor_def list_ex_iff)
  then show ?thesis using assms(1) unfolding MarkReady_def all_in_state_update by (auto simp: all_in_state_def)
qed
lemma stamp_keeps:
  "all_in_state iid S (update_instances P (\<lambda>r. r\<lparr>ir_end_mission_at := x\<rparr>) rg) = all_in_state iid S rg"
  unfolding all_in_state_update by (auto simp: all_in_state_def)

lemma all_in_state_keep:
  assumes "all_in_state iid S rg"
    and "\<And>r. P r \<Longrightarrow> ir_instance_id (f r) = ir_instance_id r \<and> (ir_instance_id r = iid \<longrightarrow> ir_state (f r) = ir_state r)"
  shows "all_in_state iid S (update_instances P f rg)"
  using assms unfolding all_in_state_update by (simp add: all_in_state_def)

lemma MarkStoppedRows_keeps:
  assumes "parent \<noteq> iid"
  shows "all_in_state iid S rg \<Longrightarrow> all_in_state iid S (MarkStoppedRows now parent rg)"
    and "waits_for parent iid rg \<Longrightarrow> waits_for parent iid (MarkStoppedRows now parent rg)"
    and "all_in_state parent {STOPPED} (MarkStoppedRows now parent rg)"
proof -
  have leave: "all_in_state i S (leave_rows now parent r) = all_in_state i S r" for i S r
    by (simp add: all_in_state_def)
  have wleave: "waits_for parent iid (leave_rows now parent r) = waits_for parent iid r" for r
    by (simp add: waits_for_def)
  show "all_in_state iid S rg \<Longrightarrow> all_in_state iid S (MarkStoppedRows now parent rg)"
    unfolding MarkStoppedRows_def Let_def leave
    by (intro all_in_state_keep) (use assms in \<open>auto simp: fallback_outcome_def\<close>)
  show "waits_for parent iid rg \<Longrightarrow> waits_for parent iid (MarkStoppedRows now parent rg)"
    unfolding MarkStoppedRows_def Let_def wleave
    by (intro waits_for_update) (auto simp: fallback_outcome_def)
  show "all_in_state parent {STOPPED} (MarkStoppedRows now parent rg)"
    unfolding MarkStoppedRows_def Let_def leave all_in_state_update by simp
qed

lemma handover_ended_last:
  assumes "registry_ok rg" "waits_for parent iid rg" "all_in_state iid {STARTING} rg"
  shows "all_in_state iid {READY} (snd (MarkMissionEnded t parent (MarkReady t' iid m rg)))"
proof -
  have k: "keys_ok rg" using assms(1) by (simp add: registry_ok_def)
  then have nz: "iid \<noteq> 0" using assms(2) by (auto simp: waits_for_def keys_ok_def)
  let ?rg1 = "update_instances (\<lambda>r. ir_instance_id r = parent \<and> ir_end_mission_at r = None)
      (\<lambda>r. r\<lparr>ir_end_mission_at := Some t\<rparr>) (MarkReady t' iid m rg)"
  from MarkReady_outcome [OF assms(3,2) k, of t' m]
  have "all_in_state iid {DRAFTING} ?rg1 \<and> waits_for parent iid ?rg1 \<or> all_in_state iid {READY} ?rg1"
  proof
    assume a: "all_in_state iid {DRAFTING} (MarkReady t' iid m rg) \<and> waits_for parent iid (MarkReady t' iid m rg)"
    have "waits_for parent iid ?rg1" by (rule waits_for_update [OF conjunct2 [OF a]]) auto
    then show ?thesis using a by (simp add: stamp_keeps)
  qed (simp add: stamp_keeps)
  from promote_released(2) [OF this nz, of t] show ?thesis
    by (simp add: MarkMissionEnded_def Let_def)
qed

lemma handover_ended_first:
  assumes "waits_for parent iid rg" "all_in_state iid {STARTING} rg"
  shows "all_in_state iid {READY} (MarkReady t' iid m (snd (MarkMissionEnded t parent rg)))"
proof -
  let ?rg1 = "update_instances (\<lambda>r. ir_instance_id r = parent \<and> ir_end_mission_at r = None)
      (\<lambda>r. r\<lparr>ir_end_mission_at := Some t\<rparr>) rg"
  have w1: "waits_for parent iid ?rg1" by (rule waits_for_update [OF assms(1)]) auto
  have s1: "all_in_state iid {STARTING, READY} ?rg1"
    unfolding stamp_keeps using assms(2) by (auto simp: all_in_state_def)
  have e1: "\<forall>p \<in> set (rg_instances ?rg1). ir_instance_id p = parent \<longrightarrow> ir_end_mission_at p \<noteq> None \<or> ir_state p = STOPPED"
    by (simp add: ball_update_where)
  have "MarkReady t' iid m (snd (MarkMissionEnded t parent rg))
      = MarkReady t' iid m (if drafting_successor parent ?rg1 \<noteq> 0
          then promote_row t (drafting_successor parent ?rg1) ?rg1 else ?rg1)"
    by (simp add: MarkMissionEnded_def Let_def)
  moreover have "all_in_state iid {READY} (MarkReady t' iid m ?rg1)"
    by (rule MarkReady_released [OF s1 _ e1]) (use w1 in \<open>simp add: waits_for_def\<close>)
  moreover have "all_in_state iid {READY} (MarkReady t' iid m (promote_row t i ?rg1))" for i
  proof (rule MarkReady_released)
    show "all_in_state iid {STARTING, READY} (promote_row t i ?rg1)"
      using s1 unfolding promote_row_def all_in_state_update [of iid "{STARTING, READY}" "\<lambda>r. ir_instance_id r = i \<and> ir_state r = DRAFTING"]
      by (auto simp: all_in_state_def)
    show "\<forall>r \<in> set (rg_instances (promote_row t i ?rg1)). ir_instance_id r = iid \<longrightarrow> ir_predecessor r = Some parent"
    proof -
      have "\<forall>r \<in> set (rg_instances ?rg1). ir_instance_id r = iid \<longrightarrow> ir_predecessor r = Some parent"
        using w1 unfolding waits_for_def by blast
      then show ?thesis unfolding promote_row_def by simp (erule ball_update_keep, auto)
    qed
    show "\<forall>p \<in> set (rg_instances (promote_row t i ?rg1)). ir_instance_id p = parent \<longrightarrow> ir_end_mission_at p \<noteq> None \<or> ir_state p = STOPPED"
      using e1 unfolding promote_row_def by simp (erule ball_update_keep, auto)
  qed
  ultimately show ?thesis by simp
qed

text \<open>
  C31. The hand-over to a successor mission does not depend on the order of the two servers'
  messages. Let an instance still be starting and be the only successor of its predecessor
  that may be held back. Whether it reports ready before or after the predecessor reports
  its mission ended, and also when the predecessor dies instead (before or after) and the
  orphan is promoted, the successor ends up READY: it is never left waiting in DRAFTING.
\<close>

theorem successor_released_in_any_order:
  assumes "registry_ok rg" "waits_for parent iid rg" "all_in_state iid {STARTING} rg" "parent \<noteq> iid"
  shows "all_in_state iid {READY} (snd (MarkMissionEnded t parent (MarkReady t' iid m rg))) \<and>
    all_in_state iid {READY} (MarkReady t' iid m (snd (MarkMissionEnded t parent rg))) \<and>
    all_in_state iid {READY} (snd (PromoteSuccessor t'' parent (MarkStoppedRows t parent (MarkReady t' iid m rg)))) \<and>
    all_in_state iid {READY} (MarkReady t' iid m (MarkStoppedRows t parent rg))"
proof (intro conjI)
  have k: "keys_ok rg" using assms(1) by (simp add: registry_ok_def)
  then have nz: "iid \<noteq> 0" using assms(2) by (auto simp: waits_for_def keys_ok_def)
  note stop = MarkStoppedRows_keeps [OF assms(4)]
  show "all_in_state iid {READY} (snd (PromoteSuccessor t'' parent (MarkStoppedRows t parent (MarkReady t' iid m rg))))"
    by (rule promote_released(1) [of iid _ parent, OF _ nz])
      (use MarkReady_outcome [OF assms(3,2) k, of t' m] stop in blast)
  show "all_in_state iid {READY} (MarkReady t' iid m (MarkStoppedRows t parent rg))"
  proof (rule MarkReady_released)
    show "all_in_state iid {STARTING, READY} (MarkStoppedRows t parent rg)"
      using stop(1) [OF assms(3)] by (auto simp: all_in_state_def)
    show "\<forall>r \<in> set (rg_instances (MarkStoppedRows t parent rg)). ir_instance_id r = iid \<longrightarrow> ir_predecessor r = Some parent"
      using stop(2) [OF assms(2)] unfolding waits_for_def by blast
    show "\<forall>p \<in> set (rg_instances (MarkStoppedRows t parent rg)). ir_instance_id p = parent \<longrightarrow>
        ir_end_mission_at p \<noteq> None \<or> ir_state p = STOPPED"
      using stop(3) unfolding all_in_state_def by blast
  qed
qed (rule handover_ended_last [OF assms(1-3)], rule handover_ended_first [OF assms(2,3)])

lemma ex_handover: "waits_for 1 2 ex_registry" "all_in_state 2 {STARTING} ex_registry"
proof -
  obtain a b where rows: "rg_instances ex_registry = [a, b]"
    and a: "ir_instance_id a = 1" "ir_state a = READY" "ir_predecessor a = None"
    and b: "ir_instance_id b = 2" "ir_state b = STARTING" "ir_predecessor b = Some 1"
    using ex_registry_rows by (auto simp: map_eq_Cons_conv)
  show "waits_for 1 2 ex_registry" "all_in_state 2 {STARTING} ex_registry"
    by (simp_all add: waits_for_def all_in_state_def rows a b)
qed

theorem successor_released_in_any_order_witness:
  "all_in_state 2 {READY} (snd (MarkMissionEnded 300 1 (MarkReady 200 2 16 ex_registry)))"
  using successor_released_in_any_order
    [OF reg_steps_ok [OF ex_registry_steps empty_registry_ok] ex_handover, of 300 200 16] by simp

text \<open>
  An instance reported idle is empty: it is READY, nobody is in it, and it has been
  empty for the timeout; and the home map is never reported while a mission instance is
  starting or running.
\<close>

theorem idle_instances_empty:
  assumes "registry_ok rg" "info \<in> set (GetIdleInstances now timeout rg)"
  shows "ii_state info = READY \<and> active_rows (ii_instance_id info) rg = [] \<and>
    (ii_is_home_map info \<longrightarrow>
      (\<forall>r \<in> set (rg_instances rg). \<not> ir_is_home_map r \<longrightarrow> ir_state r \<noteq> STARTING \<and> ir_state r \<noteq> READY))"
proof -
  obtain r where r: "r \<in> set (rg_instances rg)" "info = read_info r" "ir_state r = READY" "ir_player_count r = 0"
    and home: "\<not> ir_is_home_map r \<or>
       \<not> list_ex (\<lambda>mi. \<not> ir_is_home_map mi \<and> ir_state mi \<in> {STARTING, READY}) (rg_instances rg)"
    using assms(2) by (auto simp: GetIdleInstances_def)
  have "ir_player_count r = int (length (active_rows (ir_instance_id r) rg))"
    using assms(1) r(1,3) by (simp add: registry_ok_def counts_ok_def)
  then show ?thesis using r home by (auto simp: read_info_def list_ex_iff)
qed

theorem idle_instances_empty_witness:
  "\<exists>info \<in> set (GetIdleInstances 500 300 (MarkReady 100 1 16 (ex_starting 0 9000 empty_registry))).
     active_rows (ii_instance_id info) (MarkReady 100 1 16 (ex_starting 0 9000 empty_registry)) = []"
proof -
  let ?rg = "MarkReady 100 1 16 (ex_starting 0 9000 empty_registry)"
  have "registry_ok ?rg"
    unfolding ex_starting_def
    by (intro MarkReady_ok InsertStarting_ok empty_registry_ok) (simp add: live_ports_def empty_registry_def)
  moreover have "GetIdleInstances 500 300 ?rg \<noteq> []"
    by (simp add: GetIdleInstances_def ex_registry_defs Let_def)
  ultimately show ?thesis using idle_instances_empty [of ?rg _ 500 300] by (meson last_in_set)
qed

end
