(* ===== verification/MatchmakingState.thy ===== *)
theory MatchmakingState
  imports MatchRules FairnessLog InstanceRegistry
begin

text \<open>
  The state of \<open>MatchmakingService\<close> (\<open>MatchmakingService/MatchmakingService.hpp\<close>) and the
  operations that keep its books: queue read-outs, pending matches, ready reservations,
  pre-assigned teams, the fairness credit of a match entry, and the pop-delay timer. The
  static members of the class are the fields of \<open>World\<close>, together with the registry tables
  and the list of what the service sends to players. Reads of other components (verified
  accounts, sessions, ratings, installed packs, the clock, the random engine) are the
  fields of \<open>Env\<close>.
\<close>

section \<open>State\<close>

record DelayedPop =
  dp_next_duration :: rat
  dp_timer :: nat
  dp_fires_at :: int

record Queue =
  qu_config :: QueueConfig
  qu_parties :: "QueuedParty list"
  qu_delayed_pop :: "DelayedPop option"
  qu_recent_maps :: "string list"

record PendingMatch =
  pm_instance_id :: int
  pm_queue_id :: u32
  pm_map_name :: string
  pm_game_mode :: string
  pm_session_guids :: "guid list"
  pm_task_force_assignments :: "(guid, int) umap"
  pm_profile_ids :: "(guid, u32) umap"
  pm_mmrs :: "(guid, rat) umap"
  pm_cap :: u32
  pm_access_mode :: AccessMode
  pm_owner_party_ids :: "u64 list"

definition empty_pending :: PendingMatch where
  \<comment> \<open>the member initialisers of \<open>struct PendingMatch\<close>\<close>
  "empty_pending = \<lparr>pm_instance_id = 0, pm_queue_id = 0, pm_map_name = [], pm_game_mode = [],
     pm_session_guids = [], pm_task_force_assignments = [], pm_profile_ids = [], pm_mmrs = [],
     pm_cap = 0, pm_access_mode = OpenAccess, pm_owner_party_ids = []\<rparr>"

text \<open>What leaves the service: messages to players, and a spawned process.\<close>

datatype Difficulty = DefaultDifficulty | DifficultyId u32 | ScalarDifficulty DifficultyScalar

datatype Effect =
    DeliverMatchInvitation guid int string int
  | DeliverMatchCancelled guid string
  | SpawnInstance int string string u16 Difficulty

record World =
  w_queues :: "(u32, Queue) umap"
  w_pending :: "(int, PendingMatch) umap"
  w_ready :: "(int, PendingMatch) umap"
  w_pre_assigned :: "(int, (guid, int) umap) umap"
  w_fairness :: FairnessState
  w_credited :: "(int, guid list) umap"
  w_has_callback :: bool
  w_has_provider :: bool
  w_has_io :: bool
  w_next_timer :: nat
  w_draws :: nat
  w_registry :: Registry
  w_out :: "Effect list"

text \<open>
  The random engine is a tape of numbers in \<open>[0, 1)\<close>; \<open>w_draws\<close> counts those used. The
  steady clock is in nanoseconds and does not move during one call.
\<close>

record Env =
  ev_verified :: "int \<Rightarrow> bool"
  ev_session_user :: "guid \<Rightarrow> int option"
  ev_rating :: "int \<Rightarrow> u32 \<Rightarrow> rat"
  ev_dlcs :: "int \<Rightarrow> int list"
  ev_characters :: "int \<Rightarrow> (int \<times> int) option"
  ev_bonus_lives :: "int \<Rightarrow> int option"
  ev_steady_now :: int
  ev_time :: int
  ev_roll :: "nat \<Rightarrow> rat"
  ev_spawn_pid :: "int \<Rightarrow> int"
  ev_port_lo :: u16
  ev_port_hi :: u16

section \<open>Queue read-outs\<close>

definition TracksReadyReservations :: "QueueConfig \<Rightarrow> bool" where
  "TracksReadyReservations cfg \<longleftrightarrow>
     qc_rule_class cfg = [] \<or> qc_rule_class cfg = ''DataDriven'' \<or> qc_rule_class cfg = ''Coop''"

definition QueuedPlayerCount :: "Queue \<Rightarrow> nat" where
  "QueuedPlayerCount q = sum_list (map (\<lambda>p. length (pt_members p)) (qu_parties q))"

definition GetQueueConfig :: "u32 \<Rightarrow> World \<Rightarrow> QueueConfig option" where
  "GetQueueConfig queue_id w = map_option qu_config (map_of (w_queues w) queue_id)"

definition GetContinueInQueue :: "u32 \<Rightarrow> World \<Rightarrow> bool" where
  "GetContinueInQueue queue_id w =
     (case map_of (w_queues w) queue_id of None \<Rightarrow> False | Some q \<Rightarrow> qc_continue_in_queue (qu_config q))"

definition config_before :: "QueueConfig \<Rightarrow> QueueConfig \<Rightarrow> bool" where
  "config_before a b \<longleftrightarrow> qc_sort_order a < qc_sort_order b \<or>
     qc_sort_order a = qc_sort_order b \<and> qc_queue_id a < qc_queue_id b"

definition GetEnabledQueueConfigs :: "World \<Rightarrow> QueueConfig list" where
  "GetEnabledQueueConfigs w =
     stable_sort config_before (filter qc_enabled (map (qu_config \<circ> snd) (w_queues w)))"

definition tally_profile :: "u32 \<Rightarrow> ProfileCounts \<Rightarrow> ProfileCounts" where
  "tally_profile profile_id c =
     (if profile_id = 680 then c\<lparr>pc_assault := pc_assault c + 1\<rparr>
      else if profile_id = 567 then c\<lparr>pc_medic := pc_medic c + 1\<rparr>
      else if profile_id = 681 then c\<lparr>pc_recon := pc_recon c + 1\<rparr>
      else if profile_id = 679 then c\<lparr>pc_robotics := pc_robotics c + 1\<rparr>
      else c)"

definition destined_private :: "QueueConfig \<Rightarrow> QueuedParty \<Rightarrow> bool" where
  "destined_private cfg party \<longleftrightarrow>
     qc_team_policy cfg = VersusSides \<or> qc_team_policy cfg = OwnMatch \<and> pt_is_team party"

definition tally_match :: "u32 \<Rightarrow> int \<times> PendingMatch \<Rightarrow> ProfileCounts \<Rightarrow> ProfileCounts" where
  "tally_match queue_id e c =
     (case e of (_, pm) \<Rightarrow>
        if pm_queue_id pm \<noteq> queue_id \<or> pm_access_mode pm = PartyLocked then c
        else fold (\<lambda>(_, pid). tally_profile pid) (pm_profile_ids pm) c)"

definition GetQueuedProfileCounts :: "u32 \<Rightarrow> World \<Rightarrow> ProfileCounts" where
  "GetQueuedProfileCounts queue_id w =
     (let zero = \<lparr>pc_assault = 0, pc_medic = 0, pc_recon = 0, pc_robotics = 0\<rparr>;
          queued = (case map_of (w_queues w) queue_id of
             None \<Rightarrow> zero
           | Some q \<Rightarrow> fold (\<lambda>party c. if destined_private (qu_config q) party then c
                 else fold (\<lambda>m. tally_profile (qp_profile_id m)) (pt_members party) c) (qu_parties q) zero)
      in fold (tally_match queue_id) (w_ready w) (fold (tally_match queue_id) (w_pending w) queued))"

definition GetDelayedPopRemainingSeconds :: "Env \<Rightarrow> u32 \<Rightarrow> World \<Rightarrow> u32 option" where
  "GetDelayedPopRemainingSeconds ev queue_id w =
     (case map_of (w_queues w) queue_id of
        None \<Rightarrow> None
      | Some q \<Rightarrow> (case qu_delayed_pop q of
          None \<Rightarrow> None
        | Some dp \<Rightarrow>
            let delta = dp_fires_at dp - ev_steady_now ev
            in if delta \<le> 0 then None
               else let ms = delta div 1000000 in Some (word_of_int ((ms + 999) div 1000))))"

section \<open>Owner lists as text\<close>

text \<open>
  The instance row holds the owning party ids as decimal numbers separated by commas.
  \<open>strtoull\<close> skips white space, takes a sign, reads digits and saturates.
\<close>

definition is_digit :: "char \<Rightarrow> bool" where
  "is_digit c \<longleftrightarrow> 48 \<le> (of_char c :: nat) \<and> (of_char c :: nat) \<le> 57"

definition digits_value :: "string \<Rightarrow> nat" where
  "digits_value s = fold (\<lambda>c n. n * 10 + (of_char c - 48)) s 0"

definition strtoull :: "string \<Rightarrow> u64" where
  "strtoull s =
     (let t = dropWhile isspace s;
          neg = (t \<noteq> [] \<and> hd t = CHR ''-'');
          u = (if t \<noteq> [] \<and> (hd t = CHR ''-'' \<or> hd t = CHR ''+'') then tl t else t);
          n = digits_value (takeWhile is_digit u);
          v = (if n \<ge> 2 ^ 64 then - 1 else word_of_nat n)
      in if neg \<and> n < 2 ^ 64 then - v else v)"

fun to_string :: "nat \<Rightarrow> string" where
  "to_string n = (if n < 10 then [char_of (48 + n)] else to_string (n div 10) @ [char_of (48 + n mod 10)])"

declare to_string.simps [simp del]

fun owner_csv :: "u64 list \<Rightarrow> string" where
  "owner_csv [] = []"
| "owner_csv [x] = to_string (unat x)"
| "owner_csv (x # y # xs) = to_string (unat x) @ CHR '','' # owner_csv (y # xs)"

function parse_owner_csv :: "string \<Rightarrow> u64 list" where
  "parse_owner_csv csv =
     (if csv = [] then []
      else let tok = takeWhile (\<lambda>c. c \<noteq> CHR '','') csv;
               rest = dropWhile (\<lambda>c. c \<noteq> CHR '','') csv
           in (if tok \<noteq> [] then [strtoull tok] else []) @ parse_owner_csv (tl rest))"
  by pat_completeness auto
termination
proof (relation "measure length", goal_cases)
  case (2 csv)
  have "length (dropWhile (\<lambda>c. c \<noteq> CHR '','') csv) \<le> length csv" by (rule length_dropWhile_le)
  with 2 show ?case by (cases "dropWhile (\<lambda>c. c \<noteq> CHR '','') csv") auto
qed simp

declare parse_owner_csv.simps [simp del]
section \<open>Fairness credit\<close>

definition credit_player ::
  "Env \<Rightarrow> string \<Rightarrow> u32 \<Rightarrow> int \<Rightarrow> (guid, int) umap \<Rightarrow> (guid, u32) umap \<Rightarrow> guid
     \<Rightarrow> guid list \<times> FairnessState \<Rightarrow> guid list \<times> FairnessState" where
  "credit_player ev scope queue_id instance_id task_forces profile_ids g st =
     (case st of (credited, f) \<Rightarrow>
        if g \<in> set credited then (credited, f)
        else
          (credited @ [g],
           case ev_session_user ev g of
             None \<Rightarrow> f
           | Some user_id \<Rightarrow>
               if user_id \<le> 0 then f
               else
                 let pid = umap_get 0 profile_ids g;
                     f1 = RecordFairness (ev_time ev) scope queue_id user_id Played pid instance_id f
                 in if scope = ''double_agent'' \<and> map_of task_forces g = Some 2
                    then RecordFairness (ev_time ev) scope queue_id user_id Defender pid instance_id f1
                    else f1))"

definition RecordMatchEntry ::
  "Env \<Rightarrow> int \<Rightarrow> u32 \<Rightarrow> guid list \<Rightarrow> (guid, int) umap \<Rightarrow> (guid, u32) umap \<Rightarrow> World \<Rightarrow> World" where
  "RecordMatchEntry ev instance_id queue_id session_guids task_forces profile_ids w =
     (if instance_id = 0 \<or> session_guids = [] then w
      else (case map_of (w_queues w) queue_id of
          None \<Rightarrow> w
        | Some q \<Rightarrow>
            let scope = qc_fairness_scope (qu_config q)
            in if scope = [] then w
               else (case fold (credit_player ev scope queue_id instance_id task_forces profile_ids) session_guids
                       (umap_get [] (w_credited w) instance_id, w_fairness w) of
                 (credited, f) \<Rightarrow>
                   w\<lparr>w_credited := umap_put instance_id credited (w_credited w), w_fairness := f\<rparr>)))"

section \<open>Pending matches and ready reservations\<close>

definition AddPendingMatch :: "int \<Rightarrow> PendingMatch \<Rightarrow> World \<Rightarrow> World" where
  "AddPendingMatch instance_id match w = w\<lparr>w_pending := umap_put instance_id match (w_pending w)\<rparr>"

definition ConsumePendingMatch :: "Env \<Rightarrow> int \<Rightarrow> World \<Rightarrow> PendingMatch option \<times> World" where
  "ConsumePendingMatch ev instance_id w =
     (case map_of (w_pending w) instance_id of
        None \<Rightarrow> (None, w)
      | Some match \<Rightarrow>
          (Some match,
           RecordMatchEntry ev instance_id (pm_queue_id match) (pm_session_guids match)
             (pm_task_force_assignments match) (pm_profile_ids match)
             (w\<lparr>w_pending := umap_erase instance_id (w_pending w)\<rparr>)))"

definition DiscardPendingMatchForDeadInstance :: "int \<Rightarrow> string \<Rightarrow> World \<Rightarrow> World" where
  "DiscardPendingMatchForDeadInstance instance_id reason w =
     (case map_of (w_pending w) instance_id of
        None \<Rightarrow> w
      | Some match \<Rightarrow>
          w\<lparr>w_out := w_out w @ map (\<lambda>g. DeliverMatchCancelled g reason) (pm_session_guids match),
            w_pending := umap_erase instance_id (w_pending w)\<rparr>)"

definition reserve_player ::
  "(guid, int) umap \<Rightarrow> (guid, u32) umap \<Rightarrow> (guid, rat) umap \<Rightarrow> guid \<Rightarrow> PendingMatch \<Rightarrow> PendingMatch" where
  "reserve_player task_forces profile_ids mmrs g ready =
     (if g \<in> set (pm_session_guids ready) then ready
      else ready\<lparr>pm_session_guids := pm_session_guids ready @ [g],
        pm_task_force_assignments := umap_put g (umap_get 1 task_forces g) (pm_task_force_assignments ready),
        pm_profile_ids := umap_put g (umap_get 0 profile_ids g) (pm_profile_ids ready),
        pm_mmrs := umap_put g (umap_get 1000 mmrs g) (pm_mmrs ready)\<rparr>)"

definition open_reservation :: "int \<Rightarrow> u32 \<Rightarrow> string \<Rightarrow> u32 \<Rightarrow> World \<Rightarrow> PendingMatch \<Rightarrow> PendingMatch" where
  "open_reservation instance_id queue_id game_mode cap w ready =
     (let r1 = (if pm_instance_id ready = 0 then
                  ready\<lparr>pm_instance_id := instance_id, pm_queue_id := queue_id, pm_game_mode := game_mode,
                    pm_cap := cap,
                    pm_access_mode := (case GetInstanceById instance_id (w_registry w) of
                       Some inst \<Rightarrow> ParseAccessMode (ii_access_mode inst) | None \<Rightarrow> pm_access_mode ready)\<rparr>
                else ready)
      in if pm_cap r1 = 0 \<and> cap \<noteq> 0 then r1\<lparr>pm_cap := cap\<rparr> else r1)"

definition TrackReadyMatchReservations ::
  "Env \<Rightarrow> int \<Rightarrow> u32 \<Rightarrow> string \<Rightarrow> guid list \<Rightarrow> (guid, int) umap \<Rightarrow> (guid, u32) umap \<Rightarrow> (guid, rat) umap
     \<Rightarrow> u32 \<Rightarrow> World \<Rightarrow> World" where
  "TrackReadyMatchReservations ev instance_id queue_id game_mode session_guids task_forces profile_ids mmrs cap w =
     (if instance_id = 0 \<or> session_guids = [] then w
      else
        let w1 = RecordMatchEntry ev instance_id queue_id session_guids task_forces profile_ids w
        in (case map_of (w_queues w1) queue_id of
            None \<Rightarrow> w1
          | Some q \<Rightarrow>
              if \<not> TracksReadyReservations (qu_config q) then w1
              else
                let ready = open_reservation instance_id queue_id game_mode cap w1
                              (umap_get empty_pending (w_ready w1) instance_id)
                in w1\<lparr>w_ready := umap_put instance_id
                        (fold (reserve_player task_forces profile_ids mmrs) session_guids ready) (w_ready w1)\<rparr>))"

definition drop_guid :: "guid \<Rightarrow> PendingMatch \<Rightarrow> PendingMatch" where
  "drop_guid g pm = pm\<lparr>
     pm_session_guids := remove_first (\<lambda>x. x = g) (pm_session_guids pm),
     pm_task_force_assignments := umap_erase g (pm_task_force_assignments pm),
     pm_profile_ids := umap_erase g (pm_profile_ids pm)\<rparr>"

definition RemoveReadyMatchReservation :: "int \<Rightarrow> guid \<Rightarrow> World \<Rightarrow> World" where
  "RemoveReadyMatchReservation instance_id g w =
     (case map_of (w_ready w) instance_id of
        None \<Rightarrow> w
      | Some ready \<Rightarrow>
          if g \<notin> set (pm_session_guids ready) then w
          else
            let ready' = drop_guid g ready
            in if pm_session_guids ready' = [] then w\<lparr>w_ready := umap_erase instance_id (w_ready w)\<rparr>
               else w\<lparr>w_ready := umap_put instance_id ready' (w_ready w)\<rparr>)"

definition RemoveReadyMatchReservationAny :: "guid \<Rightarrow> World \<Rightarrow> World" where
  \<comment> \<open>the overload without an instance id\<close>
  "RemoveReadyMatchReservationAny g w =
     (case find (\<lambda>(_, ready). g \<in> set (pm_session_guids ready)) (w_ready w) of
        None \<Rightarrow> w | Some (iid, _) \<Rightarrow> RemoveReadyMatchReservation iid g w)"

definition DropReadyMatchReservations :: "int \<Rightarrow> World \<Rightarrow> World" where
  "DropReadyMatchReservations instance_id w =
     w\<lparr>w_credited := umap_erase instance_id (w_credited w),
       w_ready := umap_erase instance_id (w_ready w)\<rparr>"

text \<open>The seeds a reservation adds to the two sides of its instance.\<close>

definition seed_player :: "bool \<Rightarrow> int \<Rightarrow> u32 \<Rightarrow> rat \<Rightarrow> TeamSeed \<Rightarrow> TeamSeed" where
  "seed_player mmr_aware tf profile_id mmr seed =
     (let s1 = seed\<lparr>sd_size := sd_size seed + 1,
            sd_heal_score := sd_heal_score seed + HealValue profile_id (if tf = 2 then 2 else 1),
            sd_class_counts := umap_mod 0 (\<lambda>n. n + 1) profile_id (sd_class_counts seed)\<rparr>
      in if mmr_aware then s1\<lparr>sd_mmr_sum := sd_mmr_sum s1 + mmr,
            sd_class_mmr_sum := umap_mod 0 (\<lambda>x. x + mmr) profile_id (sd_class_mmr_sum s1)\<rparr>
         else s1)"

definition seed_instance :: "bool \<Rightarrow> int \<Rightarrow> u32 \<Rightarrow> rat \<Rightarrow> RunningInstance \<Rightarrow> RunningInstance" where
  "seed_instance mmr_aware tf profile_id mmr ri =
     (if tf = 2 then ri\<lparr>ri_team2 := seed_player mmr_aware tf profile_id mmr (ri_team2 ri)\<rparr>
      else ri\<lparr>ri_team1 := seed_player mmr_aware tf profile_id mmr (ri_team1 ri)\<rparr>)"

definition bare_instance :: "InstanceInfo \<Rightarrow> int \<Rightarrow> RunningInstance" where
  "bare_instance inst max_players =
     \<lparr>ri_instance_id = ii_instance_id inst, ri_map_name = ii_map_name inst,
      ri_game_mode = ii_game_mode inst, ri_player_count = 0, ri_max_players = max_players,
      ri_queue_id = ii_queue_id inst, ri_team1 = empty_seed, ri_team2 = empty_seed,
      ri_access_mode = ParseAccessMode (ii_access_mode inst),
      ri_owner_party_ids = parse_owner_csv (ii_owner_party_ids inst)\<rparr>"

definition is_mmr_aware :: "u32 \<Rightarrow> World \<Rightarrow> bool" where
  "is_mmr_aware queue_id w =
     (case GetQueueConfig queue_id w of None \<Rightarrow> False | Some cfg \<Rightarrow> qc_taskforce_policy cfg = BalancedPvp)"

definition reserved_instance :: "bool \<Rightarrow> InstanceInfo \<Rightarrow> PendingMatch \<Rightarrow> RunningInstance" where
  "reserved_instance mmr_aware inst ready =
     (fold (\<lambda>(g, tf). seed_instance mmr_aware tf (umap_get 0 (pm_profile_ids ready) g)
              (umap_get 1000 (pm_mmrs ready) g))
        (pm_task_force_assignments ready) (bare_instance inst 0))
       \<lparr>ri_player_count := int (length (pm_session_guids ready))\<rparr>"

definition reservation_alive :: "InstanceInfo option \<Rightarrow> bool" where
  "reservation_alive info =
     (case info of None \<Rightarrow> False
      | Some inst \<Rightarrow> ii_state inst = READY \<and> \<not> ii_is_home_map inst \<and> ii_end_mission_at inst = 0)"

definition GetReservedReadyInstances :: "u32 \<Rightarrow> World \<Rightarrow> RunningInstance list \<times> World" where
  "GetReservedReadyInstances queue_id w =
     (case map_of (w_queues w) queue_id of
        None \<Rightarrow> ([], w)
      | Some q \<Rightarrow>
          if \<not> TracksReadyReservations (qu_config q) then ([], w)
          else
            let mine = filter (\<lambda>(_, ready). pm_queue_id ready = queue_id \<and> pm_session_guids ready \<noteq> []) (w_ready w);
                info = (\<lambda>iid. GetInstanceById iid (w_registry w));
                alive = filter (\<lambda>(iid, _). reservation_alive (info iid)) mine;
                stale = filter (\<lambda>(iid, _). \<not> reservation_alive (info iid)) mine
            in (map (\<lambda>(iid, ready). reserved_instance (is_mmr_aware (pm_queue_id ready) w) (the (info iid)) ready) alive,
                fold (\<lambda>(iid, _). DropReadyMatchReservations iid) stale w))"

section \<open>Pre-assigned teams\<close>

definition SetPreAssignedTeam :: "int \<Rightarrow> guid \<Rightarrow> int \<Rightarrow> World \<Rightarrow> World" where
  "SetPreAssignedTeam instance_id g tf w =
     w\<lparr>w_pre_assigned := umap_mod [] (umap_put g tf) instance_id (w_pre_assigned w)\<rparr>"

definition ConsumePreAssignedTeam :: "int \<Rightarrow> guid \<Rightarrow> World \<Rightarrow> int option \<times> World" where
  "ConsumePreAssignedTeam instance_id g w =
     (case map_of (w_pre_assigned w) instance_id of
        None \<Rightarrow> (None, w)
      | Some teams \<Rightarrow> (case map_of teams g of
          None \<Rightarrow> (None, w)
        | Some tf \<Rightarrow>
            let teams' = umap_erase g teams
            in (Some tf, w\<lparr>w_pre_assigned :=
                  (if teams' = [] then umap_erase instance_id (w_pre_assigned w)
                   else umap_put instance_id teams' (w_pre_assigned w))\<rparr>)))"

definition DropPreAssignedTeams :: "int \<Rightarrow> World \<Rightarrow> World" where
  "DropPreAssignedTeams instance_id w = w\<lparr>w_pre_assigned := umap_erase instance_id (w_pre_assigned w)\<rparr>"

text \<open>\<open>InstanceRegistry::MarkStopped\<close> with its two calls into the service.\<close>

definition MarkStopped :: "int \<Rightarrow> int \<Rightarrow> World \<Rightarrow> World" where
  "MarkStopped now instance_id w =
     DropReadyMatchReservations instance_id
       (DropPreAssignedTeams instance_id (w\<lparr>w_registry := MarkStoppedRows now instance_id (w_registry w)\<rparr>))"

definition IsInstanceActive :: "int \<Rightarrow> World \<Rightarrow> bool" where
  "IsInstanceActive instance_id w =
     (case GetInstanceById instance_id (w_registry w) of None \<Rightarrow> False | Some info \<Rightarrow> ii_state info \<noteq> STOPPED)"

section \<open>The pop-delay timer\<close>

definition to_ms :: "rat \<Rightarrow> int" where
  \<comment> \<open>\<open>(int64_t)(seconds * 1000.0f)\<close> truncates toward zero\<close>
  "to_ms seconds = (let x = seconds * 1000 in if x \<ge> 0 then \<lfloor>x\<rfloor> else \<lceil>x\<rceil>)"

definition rearm :: "Env \<Rightarrow> rat \<Rightarrow> DelayedPop \<Rightarrow> DelayedPop" where
  "rearm ev next dp = dp\<lparr>dp_next_duration := next,
     dp_fires_at := ev_steady_now ev + to_ms next * 1000000\<rparr>"

definition MaybeResetDelayedPop :: "Env \<Rightarrow> string \<Rightarrow> Queue \<Rightarrow> Queue" where
  "MaybeResetDelayedPop ev trigger q =
     (case qu_delayed_pop q of
        None \<Rightarrow> q
      | Some dp \<Rightarrow>
          if QueuedPlayerCount q < unat (qc_min_players_to_pop (qu_config q)) then q\<lparr>qu_delayed_pop := None\<rparr>
          else (case qc_pop_delay_policy (qu_config q) of
              HalveOnJoin \<Rightarrow> if trigger \<noteq> ''join'' then q
                else q\<lparr>qu_delayed_pop := Some (rearm ev (max (1/2) (dp_next_duration dp * (1/2))) dp)\<rparr>
            | Fixed \<Rightarrow> q
            | ResetOnJoin \<Rightarrow> if trigger \<noteq> ''join'' then q
                else q\<lparr>qu_delayed_pop := Some (rearm ev (qc_pop_delay_seconds (qu_config q)) dp)\<rparr>))"

end
