(* ===== verification/MatchPop.thy ===== *)
theory MatchPop
  imports MatchmakingState
begin

text \<open>
  The pop path of \<open>MatchmakingService\<close>: map choice, the evaluation of a queue's rule with the
  pack-aware variant, the gates of \<open>TryPop\<close>, coalescing and commit, and the two callbacks
  \<open>main.cpp\<close> installs, the instance provider and the match-pop handler. \<open>TryPop\<close> calls itself
  after every pop: it takes fuel, one unit per call, and answers \<open>None\<close> when the fuel runs
  out or the port scan of the handler does not return. Then the operations of the queues
  that end in \<open>TryPop\<close>.
\<close>

section \<open>Map choice\<close>

definition recency_divisor :: "rat list \<Rightarrow> string list \<Rightarrow> string \<Rightarrow> rat" where
  "recency_divisor divisors recent map_name =
     (case find (\<lambda>(r, _). r = map_name) (zip recent divisors) of Some (_, d) \<Rightarrow> d | None \<Rightarrow> 1)"

text \<open>The roll walks the weights; where rounding leaves it non-negative the default is taken.\<close>

fun weighted_index :: "rat \<Rightarrow> rat list \<Rightarrow> nat" where
  "weighted_index roll [] = 0"
| "weighted_index roll [e] = 0"
| "weighted_index roll (e # e' # es) =
     (if roll - e < 0 then 0 else Suc (weighted_index (roll - e) (e' # es)))"

definition draw :: "Env \<Rightarrow> rat \<Rightarrow> World \<Rightarrow> rat \<times> World" where
  \<comment> \<open>\<open>uniform_real_distribution(0, total)\<close>\<close>
  "draw ev bound w = (ev_roll ev (w_draws w) * bound, w\<lparr>w_draws := w_draws w + 1\<rparr>)"

definition owned_base :: "MapModeEntry list \<Rightarrow> int list list option \<Rightarrow> MapModeEntry list" where
  "owned_base pool installed_sets =
     (case installed_sets of
        None \<Rightarrow> pool
      | Some sets \<Rightarrow>
          if sets = [] then pool
          else
            let owners = (\<lambda>e. length (filter (EntryPlayableWith e) sets));
                best = fold max (map owners pool) 0
            in if best > 0 then filter (\<lambda>e. owners e = best) pool else pool)"

definition window_fits :: "int \<Rightarrow> MapModeEntry \<Rightarrow> bool" where
  "window_fits players e \<longleftrightarrow>
     (case me_min_players e of None \<Rightarrow> True | Some n \<Rightarrow> \<not> players < n) \<and>
     (case me_max_players e of None \<Rightarrow> True | Some n \<Rightarrow> \<not> players > n)"

definition window_distance :: "int \<Rightarrow> MapModeEntry \<Rightarrow> int" where
  "window_distance players e =
     (if (case me_min_players e of None \<Rightarrow> False | Some n \<Rightarrow> players < n) then the (me_min_players e) - players
      else if (case me_max_players e of None \<Rightarrow> False | Some n \<Rightarrow> players > n) then players - the (me_max_players e)
      else 0)"

definition int_max :: int where "int_max = 2147483647"

definition nearest_step :: "int \<Rightarrow> MapModeEntry \<Rightarrow> int \<times> MapModeEntry list \<Rightarrow> int \<times> MapModeEntry list" where
  "nearest_step players e st =
     (case st of (best, cands) \<Rightarrow>
        let d = window_distance players e
        in if d < best then (d, [e]) else if d = best then (best, cands @ [e]) else st)"

definition map_candidates :: "int \<Rightarrow> MapModeEntry list \<Rightarrow> MapModeEntry list" where
  "map_candidates players base =
     (let fitting = filter (window_fits players) base
      in if fitting = [] then snd (fold (nearest_step players) base (int_max, [])) else fitting)"

definition push_recent :: "rat list \<Rightarrow> string \<Rightarrow> string list \<Rightarrow> string list" where
  "push_recent divisors map_name recent =
     (if divisors = [] then recent else take (length divisors) (map_name # recent))"

definition PickRandomMapPoolEntryForCount ::
  "Env \<Rightarrow> u32 \<Rightarrow> int \<Rightarrow> int list list option \<Rightarrow> World \<Rightarrow> MapModeSpec option \<times> World" where
  "PickRandomMapPoolEntryForCount ev queue_id players installed_sets w =
     (case map_of (w_queues w) queue_id of
        None \<Rightarrow> (None, w)
      | Some q \<Rightarrow>
          let pool = qc_map_pool (qu_config q);
              candidates = map_candidates players (owned_base pool installed_sets);
              divisors = qc_map_recency_divisors (qu_config q)
          in if pool = [] \<or> candidates = [] then (None, w)
             else
               let eff = map (\<lambda>e. of_int (me_weight e) / recency_divisor divisors (qu_recent_maps q) (me_map_name e)) candidates
               in (case draw ev (sum_list eff) w of
                  (roll, w1) \<Rightarrow>
                    let picked = candidates ! weighted_index roll eff
                    in (Some \<lparr>ms_map_name = me_map_name picked, ms_game_mode = me_game_mode picked\<rparr>,
                        w1\<lparr>w_queues := umap_put queue_id
                             (q\<lparr>qu_recent_maps := push_recent divisors (me_map_name picked) (qu_recent_maps q)\<rparr>)
                             (w_queues w1)\<rparr>)))"

section \<open>Eligible parties\<close>

definition party_verified :: "Env \<Rightarrow> QueueConfig \<Rightarrow> QueuedParty \<Rightarrow> bool" where
  "party_verified ev cfg p \<longleftrightarrow>
     (qc_requires_pvp_verification cfg \<longrightarrow> list_all (\<lambda>m. ev_verified ev (qp_user_id m)) (pt_members p))"

fun stamp_members :: "string \<Rightarrow> QueuedPlayer list \<Rightarrow> FairnessState \<Rightarrow> QueuedPlayer list \<times> FairnessState" where
  "stamp_members scope [] f = ([], f)"
| "stamp_members scope (m # ms) f =
     (case FairnessEntry scope (qp_user_id m) f of
        (s, f1) \<Rightarrow> (case stamp_members scope ms f1 of
          (ms', f2) \<Rightarrow> (m\<lparr>qp_fairness := s\<rparr> # ms', f2)))"

fun eligible_parties :: "Env \<Rightarrow> QueueConfig \<Rightarrow> QueuedParty list \<Rightarrow> FairnessState \<Rightarrow> QueuedParty list \<times> FairnessState" where
  "eligible_parties ev cfg [] f = ([], f)"
| "eligible_parties ev cfg (p # ps) f =
     (if \<not> party_verified ev cfg p then eligible_parties ev cfg ps f
      else (case (if qc_fairness_scope cfg = [] then (pt_members p, f)
                  else stamp_members (qc_fairness_scope cfg) (pt_members p) f) of
        (ms, f1) \<Rightarrow> (case eligible_parties ev cfg ps f1 of
          (ps', f2) \<Rightarrow> (p\<lparr>pt_members := ms\<rparr> # ps', f2))))"

section \<open>Evaluation on pools with pack-locked maps\<close>

fun dlc_drop_in :: "QueueConfig \<Rightarrow> QueuedParty list \<Rightarrow> RunningInstance list \<Rightarrow> MatchResult option" where
  "dlc_drop_in cfg eligible [] = None"
| "dlc_drop_in cfg eligible (inst # rest) =
     (let slice = filter (\<lambda>p. PartyCanPlayMap cfg p (ri_map_name inst)) eligible
      in if slice = [] then dlc_drop_in cfg eligible rest
         else (case RuleEvaluate cfg slice [inst] of
             Some r \<Rightarrow> if mr_existing_instance_id r \<noteq> None then Some r else dlc_drop_in cfg eligible rest
           | None \<Rightarrow> dlc_drop_in cfg eligible rest))"

record DlcCand =
  dc_entry :: MapModeEntry
  dc_slice :: "QueuedParty list"
  dc_players :: nat
  dc_eff :: rat

definition dlc_candidates :: "Queue \<Rightarrow> QueuedParty list \<Rightarrow> DlcCand list" where
  "dlc_candidates q eligible =
     filter (\<lambda>c. dc_slice c \<noteq> [])
       (map (\<lambda>e. let slice = filter (EntryPlayableByParty e) eligible
                 in \<lparr>dc_entry = e, dc_slice = slice, dc_players = sum_list (map pt_size slice),
                     dc_eff = of_int (me_weight e) / recency_divisor (qc_map_recency_divisors (qu_config q))
                                 (qu_recent_maps q) (me_map_name e)\<rparr>)
          (qc_map_pool (qu_config q)))"

text \<open>
  Weighted order inside a group of equal ownership: a roll picks an entry, which swaps with
  the first one; the rest follows. The first argument bounds the recursion by the length.
\<close>

fun weighted_order :: "nat \<Rightarrow> Env \<Rightarrow> DlcCand list \<Rightarrow> World \<Rightarrow> DlcCand list \<times> World" where
  "weighted_order (Suc n) ev (c # d # cs) w =
     (let cands_eq = c # d # cs; effs = map dc_eff cands_eq
      in case draw ev (sum_list effs) w of
        (roll, w1) \<Rightarrow>
          let k = weighted_index roll effs
          in (case weighted_order n ev (tl (cands_eq[k := c])) w1 of
              (rest, w2) \<Rightarrow> ((cands_eq ! k) # rest, w2)))"
| "weighted_order _ ev cands_eq w = (cands_eq, w)"

function order_groups :: "Env \<Rightarrow> DlcCand list \<Rightarrow> World \<Rightarrow> DlcCand list \<times> World" where
  "order_groups ev [] w = ([], w)"
| "order_groups ev (c # cs) w =
     (let cands_eq = c # takeWhile (\<lambda>d. dc_players d = dc_players c) cs;
          rest = dropWhile (\<lambda>d. dc_players d = dc_players c) cs
      in case weighted_order (length cands_eq) ev cands_eq w of
        (g, w1) \<Rightarrow> (case order_groups ev rest w1 of (r, w2) \<Rightarrow> (g @ r, w2)))"
  by pat_completeness auto
termination
  by (relation "measure (\<lambda>(_, cs, _). length cs)") (auto simp: less_Suc_eq_le length_dropWhile_le)

fun dlc_spawn ::
  "QueueConfig \<Rightarrow> DlcCand list \<Rightarrow> int \<Rightarrow> (MapModeEntry \<times> MatchResult) option \<Rightarrow> (MapModeEntry \<times> MatchResult) option" where
  "dlc_spawn cfg [] nf_dist nf = nf"
| "dlc_spawn cfg (c # cs) nf_dist nf =
     (case RuleEvaluate cfg (dc_slice c) [] of
        None \<Rightarrow> dlc_spawn cfg cs nf_dist nf
      | Some r \<Rightarrow>
          if mr_existing_instance_id r \<noteq> None then dlc_spawn cfg cs nf_dist nf
          else
            let n = int (length (mr_session_guids r))
            in if n < sint (qc_min_players_to_pop cfg) then dlc_spawn cfg cs nf_dist nf
               else
                 let dist = window_distance n (dc_entry c)
                 in if dist = 0 then Some (dc_entry c, r)
                    else if dist < nf_dist then dlc_spawn cfg cs dist (Some (dc_entry c, r))
                    else dlc_spawn cfg cs nf_dist nf)"

text \<open>The rule's decision, with the map the pack-aware path fixed for a fresh spawn.\<close>

definition evaluate_queue ::
  "Env \<Rightarrow> Queue \<Rightarrow> QueuedParty list \<Rightarrow> RunningInstance list \<Rightarrow> World
     \<Rightarrow> (MatchResult \<times> MapModeEntry option) option \<times> World" where
  "evaluate_queue ev q eligible instances w =
     (let cfg = qu_config q
      in if \<not> PoolHasDlcMaps cfg then (map_option (\<lambda>r. (r, None)) (RuleEvaluate cfg eligible instances), w)
         else (case dlc_drop_in cfg eligible instances of
             Some r \<Rightarrow> (Some (r, None), w)
           | None \<Rightarrow>
               (case order_groups ev (stable_sort (\<lambda>a b. dc_players a > dc_players b) (dlc_candidates q eligible)) w of
                  (cands, w1) \<Rightarrow>
                    (map_option (\<lambda>(e, r). (r, Some e)) (dlc_spawn cfg cands int_max None), w1))))"
section \<open>The instance provider\<close>

definition live_instance :: "Env \<Rightarrow> World \<Rightarrow> int \<Rightarrow> InstanceInfo \<Rightarrow> RunningInstance" where
  "live_instance ev w queue_cap inst =
     (let aware = is_mmr_aware (ii_queue_id inst) w;
          ri = fold (\<lambda>r. seed_instance aware (ap_task_force r) (ap_profile_id r) (ev_rating ev (ap_user_id r) (ap_profile_id r)))
                 (GetActivePlayersForInstance (ev_characters ev) (ii_instance_id inst) (w_registry w))
                 (bare_instance inst (if queue_cap > 0 then queue_cap else ii_max_players inst))
      in ri\<lparr>ri_player_count := sd_size (ri_team1 ri) + sd_size (ri_team2 ri)\<rparr>)"

definition merge_seed :: "TeamSeed \<Rightarrow> TeamSeed \<Rightarrow> TeamSeed" where
  "merge_seed dst src =
     \<lparr>sd_size = sd_size dst + sd_size src,
      sd_heal_score = sd_heal_score dst + sd_heal_score src,
      sd_mmr_sum = sd_mmr_sum dst + sd_mmr_sum src,
      sd_class_counts = fold (\<lambda>(cls, n). umap_mod 0 (\<lambda>x. x + n) cls) (sd_class_counts src) (sd_class_counts dst),
      sd_class_mmr_sum = fold (\<lambda>(cls, v). umap_mod 0 (\<lambda>x. x + v) cls) (sd_class_mmr_sum src) (sd_class_mmr_sum dst)\<rparr>"

definition merge_instance :: "RunningInstance \<Rightarrow> RunningInstance \<Rightarrow> RunningInstance" where
  "merge_instance ri reserved =
     (let t1 = merge_seed (ri_team1 ri) (ri_team1 reserved); t2 = merge_seed (ri_team2 ri) (ri_team2 reserved)
      in ri\<lparr>ri_team1 := t1, ri_team2 := t2, ri_player_count := sd_size t1 + sd_size t2\<rparr>)"

fun merge_reserved :: "int \<Rightarrow> RunningInstance \<Rightarrow> RunningInstance list \<Rightarrow> RunningInstance list" where
  "merge_reserved queue_cap reserved [] =
     [reserved\<lparr>ri_max_players := (if queue_cap > 0 then queue_cap else ri_max_players reserved)\<rparr>]"
| "merge_reserved queue_cap reserved (ri # rest) =
     (if ri_instance_id ri = ri_instance_id reserved then merge_instance ri reserved # rest
      else ri # merge_reserved queue_cap reserved rest)"

definition InstanceProvider :: "Env \<Rightarrow> u32 \<Rightarrow> World \<Rightarrow> RunningInstance list \<times> World" where
  "InstanceProvider ev queue_id w =
     (let queue_cap = (case GetQueueConfig queue_id w of None \<Rightarrow> 0 | Some cfg \<Rightarrow> sint (QueueInstanceCap cfg 0));
          live = map (live_instance ev w queue_cap)
                   (filter (\<lambda>inst. ii_queue_id inst = queue_id) (GetReadyMissionInstances (w_registry w)))
      in case GetReservedReadyInstances queue_id w of
        (reserved, w1) \<Rightarrow>
          (filter (\<lambda>ri. \<not> (ri_max_players ri > 0 \<and> ri_player_count ri \<ge> ri_max_players ri))
             (fold (merge_reserved queue_cap) reserved live), w1))"

section \<open>The match-pop handler\<close>

definition result_cap :: "u32 \<Rightarrow> MatchResult \<Rightarrow> World \<Rightarrow> u32" where
  "result_cap queue_id r w =
     (case GetQueueConfig queue_id w of None \<Rightarrow> 0
      | Some cfg \<Rightarrow> (case mr_cap_override r of Some c \<Rightarrow> c | None \<Rightarrow> QueueInstanceCap cfg 0))"

definition pending_of :: "u32 \<Rightarrow> int \<Rightarrow> MatchResult \<Rightarrow> u32 \<Rightarrow> PendingMatch" where
  "pending_of queue_id instance_id r cap =
     \<lparr>pm_instance_id = instance_id, pm_queue_id = queue_id, pm_map_name = mr_map_name r,
      pm_game_mode = mr_game_mode r, pm_session_guids = mr_session_guids r,
      pm_task_force_assignments = mr_task_force_assignments r, pm_profile_ids = mr_profile_ids r,
      pm_mmrs = mr_mmrs r, pm_cap = cap, pm_access_mode = mr_access_mode r,
      pm_owner_party_ids = mr_owner_party_ids r\<rparr>"

definition spawn_difficulty :: "u32 \<Rightarrow> MatchResult \<Rightarrow> World \<Rightarrow> Difficulty" where
  "spawn_difficulty queue_id r w =
     (if ds_set (mr_difficulty_override r) then ScalarDifficulty (mr_difficulty_override r)
      else (case GetQueueConfig queue_id w of
          None \<Rightarrow> DefaultDifficulty
        | Some cfg \<Rightarrow> if qc_difficulty_value_id cfg \<noteq> 0 then DifficultyId (qc_difficulty_value_id cfg)
                      else DefaultDifficulty))"

definition route_match :: "Env \<Rightarrow> u32 \<Rightarrow> int \<Rightarrow> MatchResult \<Rightarrow> World \<Rightarrow> World" where
  "route_match ev queue_id iid r w =
     (let w1 = TrackReadyMatchReservations ev iid queue_id (mr_game_mode r) (mr_session_guids r)
                 (mr_task_force_assignments r) (mr_profile_ids r) (mr_mmrs r) (result_cap queue_id r w) w
      in w1\<lparr>w_out := w_out w1 @ map (\<lambda>g. DeliverMatchInvitation g iid (mr_game_mode r)
                                         (umap_get 1 (mr_task_force_assignments r) g)) (mr_session_guids r)\<rparr>)"

definition spawn_match :: "Env \<Rightarrow> u32 \<Rightarrow> u16 \<Rightarrow> MatchResult \<Rightarrow> World \<Rightarrow> World" where
  "spawn_match ev queue_id port r w =
     (case InsertStarting (ev_bonus_lives ev) (ev_time ev) (mr_map_name r) (mr_game_mode r) port 0 False queue_id 0
             (AccessModeToString (mr_access_mode r)) (owner_csv (mr_owner_party_ids r)) (w_registry w) of
        (iid, rg) \<Rightarrow>
          let w1 = AddPendingMatch iid (pending_of queue_id iid r (result_cap queue_id r w)) (w\<lparr>w_registry := rg\<rparr>);
              w2 = w1\<lparr>w_out := w_out w1 @ [SpawnInstance iid (mr_map_name r) (mr_game_mode r) port
                                             (spawn_difficulty queue_id r w)]\<rparr>;
              pid = ev_spawn_pid ev iid
          in if pid < 0
             then MarkStopped (ev_time ev) iid
                    (DiscardPendingMatchForDeadInstance iid ''InstanceSpawner::Spawn returned -1'' w2)
             else w2\<lparr>w_registry := UpdatePid iid pid (w_registry w2)\<rparr>)"

definition MatchPop :: "Env \<Rightarrow> u32 \<Rightarrow> MatchResult \<Rightarrow> World \<Rightarrow> World option" where
  "MatchPop ev queue_id r w =
     (case mr_existing_instance_id r of
        Some iid \<Rightarrow> Some (route_match ev queue_id iid r w)
      | None \<Rightarrow>
          (case AllocatePort (ev_port_lo ev) (ev_port_hi ev) (w_registry w) of
             None \<Rightarrow> None
           | Some None \<Rightarrow> Some w
           | Some (Some port) \<Rightarrow> Some (spawn_match ev queue_id port r w)))"

section \<open>TryPop\<close>

definition put_queue :: "u32 \<Rightarrow> Queue \<Rightarrow> World \<Rightarrow> World" where
  "put_queue queue_id q w = w\<lparr>w_queues := umap_put queue_id q (w_queues w)\<rparr>"

definition arm_timer :: "Env \<Rightarrow> u32 \<Rightarrow> Queue \<Rightarrow> World \<Rightarrow> World" where
  "arm_timer ev queue_id q w =
     (let dp = \<lparr>dp_next_duration = qc_pop_delay_seconds (qu_config q), dp_timer = w_next_timer w,
            dp_fires_at = ev_steady_now ev + to_ms (qc_pop_delay_seconds (qu_config q)) * 1000000\<rparr>
      in (put_queue queue_id (q\<lparr>qu_delayed_pop := Some dp\<rparr>) w)\<lparr>w_next_timer := w_next_timer w + 1\<rparr>)"

text \<open>The map of a fresh spawn; \<open>None\<close> is the early return.\<close>

definition fill_map ::
  "Env \<Rightarrow> u32 \<Rightarrow> Queue \<Rightarrow> MatchResult \<Rightarrow> MapModeEntry option \<Rightarrow> World \<Rightarrow> (MatchResult option) \<times> World" where
  "fill_map ev queue_id q r dlc_map w =
     (if mr_existing_instance_id r \<noteq> None \<or> mr_map_name r \<noteq> [] then (Some r, w)
      else if PoolHasDlcMaps (qu_config q) then
        (case dlc_map of
           None \<Rightarrow> (None, w)
         | Some e \<Rightarrow> (Some (r\<lparr>mr_map_name := me_map_name e, mr_game_mode := me_game_mode e\<rparr>),
             put_queue queue_id (q\<lparr>qu_recent_maps := push_recent (qc_map_recency_divisors (qu_config q))
                (me_map_name e) (qu_recent_maps q)\<rparr>) w))
      else (case PickRandomMapPoolEntryForCount ev queue_id (int (length (mr_session_guids r))) None w of
          (None, w1) \<Rightarrow> (None, w1)
        | (Some spec, w1) \<Rightarrow> (Some (r\<lparr>mr_map_name := ms_map_name spec, mr_game_mode := ms_game_mode spec\<rparr>), w1)))"

definition record_exclusions :: "Env \<Rightarrow> u32 \<Rightarrow> QueueConfig \<Rightarrow> QueuedParty list \<Rightarrow> MatchResult \<Rightarrow> World \<Rightarrow> World" where
  "record_exclusions ev queue_id cfg eligible r w =
     (if qc_fairness_scope cfg = [] \<or> mr_existing_instance_id r \<noteq> None then w
      else w\<lparr>w_fairness := fold (\<lambda>m f. if qp_session_guid m \<in> set (mr_session_guids r) then f
               else RecordFairness (ev_time ev) (qc_fairness_scope cfg) queue_id (qp_user_id m) Excluded
                      (qp_profile_id m) 0 f)
             (FlattenParties eligible) (w_fairness w)\<rparr>)"

definition coalesces :: "u32 \<Rightarrow> QueueConfig \<Rightarrow> QueuedParty list \<Rightarrow> MatchResult \<Rightarrow> World \<Rightarrow> int \<times> PendingMatch \<Rightarrow> bool" where
  "coalesces queue_id cfg eligible r w e \<longleftrightarrow>
     (case e of (iid, pm) \<Rightarrow>
        pm_queue_id pm = queue_id \<and> pm_access_mode pm = OpenAccess \<and> IsInstanceActive iid w \<and>
        \<not> (pm_cap pm > 0 \<and> length (pm_session_guids pm) + length (mr_session_guids r) > unat (pm_cap pm)) \<and>
        (PoolHasDlcMaps cfg \<longrightarrow>
           list_all (\<lambda>p. pt_party_id p \<notin> set (mr_consumed_party_ids r) \<or> PartyCanPlayMap cfg p (pm_map_name pm)) eligible))"

definition coalesce_player :: "MatchResult \<Rightarrow> guid \<Rightarrow> PendingMatch \<Rightarrow> PendingMatch" where
  "coalesce_player r g pm =
     (if map_of (pm_task_force_assignments pm) g \<noteq> None then pm
      else pm\<lparr>pm_session_guids := pm_session_guids pm @ [g],
        pm_task_force_assignments := umap_put g (umap_get 1 (mr_task_force_assignments r) g) (pm_task_force_assignments pm),
        pm_profile_ids := umap_put g (umap_get 0 (mr_profile_ids r) g) (pm_profile_ids pm),
        pm_mmrs := umap_put g (umap_get 1000 (mr_mmrs r) g) (pm_mmrs pm)\<rparr>)"

definition consume_parties :: "u32 \<Rightarrow> MatchResult \<Rightarrow> World \<Rightarrow> World" where
  "consume_parties queue_id r w =
     (case map_of (w_queues w) queue_id of None \<Rightarrow> w
      | Some q \<Rightarrow> put_queue queue_id (q\<lparr>qu_parties := remaining r (qu_parties q)\<rparr>) w)"

definition queue_nonempty :: "u32 \<Rightarrow> World \<Rightarrow> bool" where
  "queue_nonempty queue_id w =
     (case map_of (w_queues w) queue_id of None \<Rightarrow> False | Some q \<Rightarrow> qu_parties q \<noteq> [])"

text \<open>
  The last part of \<open>TryPop\<close>, once a result has passed the gates: coalesce into a pending
  match or commit. The flag says whether \<open>TryPop\<close> calls itself again.
\<close>

definition commit ::
  "Env \<Rightarrow> u32 \<Rightarrow> QueueConfig \<Rightarrow> QueuedParty list \<Rightarrow> MatchResult \<Rightarrow> World \<Rightarrow> (bool \<times> World) option" where
  "commit ev queue_id cfg eligible r w =
     (case (if mr_existing_instance_id r = None \<and> mr_access_mode r = OpenAccess
            then find (coalesces queue_id cfg eligible r w) (w_pending w) else None) of
        Some (iid, pm) \<Rightarrow>
          let w1 = w\<lparr>w_pending := umap_put iid (fold (coalesce_player r) (mr_session_guids r) pm) (w_pending w)\<rparr>;
              w2 = record_exclusions ev queue_id cfg eligible r (consume_parties queue_id r w1)
          in Some (queue_nonempty queue_id w2, w2)
      | None \<Rightarrow>
          let w1 = record_exclusions ev queue_id cfg eligible r (consume_parties queue_id r w)
          in (case (if w_has_callback w1 then MatchPop ev queue_id r w1 else Some w1) of
              None \<Rightarrow> None
            | Some w2 \<Rightarrow> Some (queue_nonempty queue_id w2, w2)))"

text \<open>One call of \<open>TryPop\<close> up to its recursive call.\<close>

definition pop_once :: "Env \<Rightarrow> u32 \<Rightarrow> bool \<Rightarrow> World \<Rightarrow> (bool \<times> World) option" where
  "pop_once ev queue_id delay_elapsed w =
     (case map_of (w_queues w) queue_id of
        None \<Rightarrow> Some (False, w)
      | Some q \<Rightarrow>
          if qu_parties q = [] then Some (False, w)
          else
            let cfg = qu_config q
            in (case eligible_parties ev cfg (qu_parties q) (w_fairness w) of
              (eligible, f) \<Rightarrow>
                let w1 = w\<lparr>w_fairness := f\<rparr>
                in if eligible = [] then Some (False, w1)
                   else (case (if w_has_provider w1 then InstanceProvider ev queue_id w1 else ([], w1)) of
                     (instances, w2) \<Rightarrow>
                       (case evaluate_queue ev q eligible instances w2 of
                          (None, w3) \<Rightarrow> Some (False, w3)
                        | (Some (r, dlc_map), w3) \<Rightarrow>
                            if mr_existing_instance_id r = None \<and>
                               length (mr_session_guids r) < unat (qc_min_players_to_pop cfg)
                            then Some (False, w3)
                            else if \<not> delay_elapsed \<and> mr_existing_instance_id r = None \<and>
                                 mr_access_mode r \<noteq> PartyLocked \<and> qc_pop_delay_seconds cfg > 0 \<and> w_has_io w3
                            then Some (False, if qu_delayed_pop q \<noteq> None then w3 else arm_timer ev queue_id q w3)
                            else (case fill_map ev queue_id q r dlc_map w3 of
                                (None, w4) \<Rightarrow> Some (False, w4)
                              | (Some r', w4) \<Rightarrow> commit ev queue_id cfg eligible r' w4)))))"

fun TryPop :: "nat \<Rightarrow> Env \<Rightarrow> u32 \<Rightarrow> bool \<Rightarrow> World \<Rightarrow> World option" where
  "TryPop 0 ev queue_id delay_elapsed w = None"
| "TryPop (Suc n) ev queue_id delay_elapsed w =
     (case pop_once ev queue_id delay_elapsed w of
        None \<Rightarrow> None
      | Some (True, w') \<Rightarrow> TryPop n ev queue_id delay_elapsed w'
      | Some (False, w') \<Rightarrow> Some w')"
section \<open>Operations on the queues\<close>

definition SoloPartyId :: "(guid \<Rightarrow> u64) \<Rightarrow> guid \<Rightarrow> u64" where
  \<comment> \<open>\<open>hash\<close> is \<open>std::hash<std::string>\<close>\<close>
  "SoloPartyId hash g = or 0x8000000000000000 (and (hash g) 0x7FFFFFFF)"

definition OnQueueChanged :: "nat \<Rightarrow> Env \<Rightarrow> u32 \<Rightarrow> string \<Rightarrow> World \<Rightarrow> World option" where
  "OnQueueChanged n ev queue_id trigger w =
     (case map_of (w_queues w) queue_id of
        None \<Rightarrow> Some w
      | Some q \<Rightarrow>
          let players = QueuedPlayerCount q; cfg = qu_config q
          in if trigger = ''join'' \<and> qc_instant_pop_when_full cfg \<and> qc_max_players_per_instance cfg > 0 \<and>
                players \<ge> unat (qc_max_players_per_instance cfg)
             then TryPop n ev queue_id True (put_queue queue_id (q\<lparr>qu_delayed_pop := None\<rparr>) w)
             else if qu_delayed_pop q \<noteq> None then Some (put_queue queue_id (MaybeResetDelayedPop ev trigger q) w)
             else TryPop n ev queue_id False w)"

definition stamp_joined :: "Env \<Rightarrow> QueuedPlayer \<Rightarrow> QueuedPlayer" where
  "stamp_joined ev m = m\<lparr>qp_mmr := ev_rating ev (qp_user_id m) (qp_profile_id m),
     qp_installed_dlcs := ev_dlcs ev (qp_user_id m)\<rparr>"

definition enqueue :: "Env \<Rightarrow> QueuedParty \<Rightarrow> QueuedParty list \<Rightarrow> QueuedParty list" where
  "enqueue ev party parties =
     filter (\<lambda>p. pt_party_id p \<noteq> pt_party_id party) parties
       @ [party\<lparr>pt_members := map (stamp_joined ev) (pt_members party)\<rparr>]"

definition warm_index :: "string \<Rightarrow> QueuedPlayer list \<Rightarrow> FairnessState \<Rightarrow> FairnessState" where
  "warm_index scope ms f =
     (if scope = [] then f else fold (\<lambda>m f. snd (FairnessEntry scope (qp_user_id m) f)) ms f)"

definition AddParty :: "nat \<Rightarrow> Env \<Rightarrow> u32 \<Rightarrow> QueuedParty \<Rightarrow> World \<Rightarrow> World option" where
  "AddParty n ev queue_id party w =
     (case map_of (w_queues w) queue_id of
        None \<Rightarrow> Some w
      | Some q \<Rightarrow>
          if pt_members party = [] then Some w
          else
            let w1 = put_queue queue_id (q\<lparr>qu_parties := enqueue ev party (qu_parties q)\<rparr>) w;
                w2 = w1\<lparr>w_fairness := warm_index (qc_fairness_scope (qu_config q)) (pt_members party) (w_fairness w1)\<rparr>
            in OnQueueChanged n ev queue_id ''join'' w2)"

text \<open>The caller's player also loses its difficulty override; the second component is that player.\<close>

definition AddPlayer :: "(guid \<Rightarrow> u64) \<Rightarrow> nat \<Rightarrow> Env \<Rightarrow> u32 \<Rightarrow> QueuedPlayer \<Rightarrow> World \<Rightarrow> World option \<times> QueuedPlayer" where
  "AddPlayer hash n ev queue_id player w =
     (AddParty n ev queue_id
        \<lparr>pt_party_id = SoloPartyId hash (qp_session_guid player), pt_is_team = False,
         pt_leader_guid = qp_session_guid player, pt_members = [player],
         pt_joined_at = qp_joined_at player, pt_difficulty_override = qp_difficulty_override player\<rparr> w,
      player\<lparr>qp_difficulty_override := ds_zero\<rparr>)"

definition update_first :: "('a \<Rightarrow> bool) \<Rightarrow> ('a \<Rightarrow> 'a) \<Rightarrow> 'a list \<Rightarrow> 'a list" where
  "update_first P f xs =
     takeWhile (\<lambda>x. \<not> P x) xs @ (case dropWhile (\<lambda>x. \<not> P x) xs of [] \<Rightarrow> [] | x # rest \<Rightarrow> f x # rest)"

definition solo_has :: "guid \<Rightarrow> QueuedParty \<Rightarrow> bool" where
  "solo_has g p \<longleftrightarrow> \<not> pt_is_team p \<and> g \<in> set (member_guids p)"

definition SetSoloLockForQueuedPlayer :: "nat \<Rightarrow> Env \<Rightarrow> guid \<Rightarrow> bool \<Rightarrow> World \<Rightarrow> World option" where
  "SetSoloLockForQueuedPlayer n ev g solo_lock w =
     (case find (\<lambda>(_, q). list_ex (solo_has g) (qu_parties q)) (w_queues w) of
        None \<Rightarrow> Some w
      | Some (queue_id, q) \<Rightarrow>
          (case find (solo_has g) (qu_parties q) of
             None \<Rightarrow> Some w
           | Some party \<Rightarrow> (case find (\<lambda>m. qp_session_guid m = g) (pt_members party) of
               None \<Rightarrow> Some w
             | Some m \<Rightarrow>
                 if qp_solo_lock m = solo_lock then Some w
                 else OnQueueChanged n ev queue_id ''solo_lock''
                        (put_queue queue_id (q\<lparr>qu_parties := update_first (solo_has g)
                           (\<lambda>p. p\<lparr>pt_members := update_first (\<lambda>m. qp_session_guid m = g)
                                    (\<lambda>m. m\<lparr>qp_solo_lock := solo_lock\<rparr>) (pt_members p)\<rparr>) (qu_parties q)\<rparr>) w))))"

text \<open>Erasing a party from the first queue that holds one with property \<open>P\<close>.\<close>

definition leave_queue :: "Env \<Rightarrow> (QueuedParty \<Rightarrow> bool) \<Rightarrow> World \<Rightarrow> bool \<times> World" where
  "leave_queue ev P w =
     (case find (\<lambda>(_, q). list_ex P (qu_parties q)) (w_queues w) of
        None \<Rightarrow> (False, w)
      | Some (queue_id, q) \<Rightarrow>
          (True, put_queue queue_id
             (MaybeResetDelayedPop ev ''leave'' (q\<lparr>qu_parties := remove_first P (qu_parties q)\<rparr>)) w))"

definition RemoveParty :: "Env \<Rightarrow> u64 \<Rightarrow> World \<Rightarrow> bool \<times> World" where
  "RemoveParty ev party_id w = leave_queue ev (\<lambda>p. pt_party_id p = party_id) w"

definition scrub_pending :: "guid \<Rightarrow> World \<Rightarrow> World" where
  "scrub_pending g w =
     (case find (\<lambda>(_, pm). g \<in> set (pm_session_guids pm)) (w_pending w) of
        None \<Rightarrow> w | Some (iid, pm) \<Rightarrow> w\<lparr>w_pending := umap_put iid (drop_guid g pm) (w_pending w)\<rparr>)"

definition RemovePlayer :: "Env \<Rightarrow> guid \<Rightarrow> World \<Rightarrow> World" where
  "RemovePlayer ev g w =
     RemoveReadyMatchReservationAny g
       (scrub_pending g (snd (leave_queue ev (\<lambda>p. g \<in> set (member_guids p)) w)))"

definition EvaluateQueue :: "nat \<Rightarrow> Env \<Rightarrow> u32 \<Rightarrow> World \<Rightarrow> World option" where
  "EvaluateQueue n ev queue_id w = TryPop n ev queue_id False w"

text \<open>The completion handler of the pop-delay timer; a cancelled wait never gets here.\<close>

definition TimerFired :: "nat \<Rightarrow> Env \<Rightarrow> u32 \<Rightarrow> nat \<Rightarrow> World \<Rightarrow> World option" where
  "TimerFired n ev queue_id timer w =
     (case map_of (w_queues w) queue_id of
        None \<Rightarrow> Some w
      | Some q \<Rightarrow> (case qu_delayed_pop q of
          None \<Rightarrow> Some w
        | Some dp \<Rightarrow> if dp_timer dp \<noteq> timer then Some w
                     else TryPop n ev queue_id True (put_queue queue_id (q\<lparr>qu_delayed_pop := None\<rparr>) w)))"

section \<open>Start-up and reload\<close>

definition BuildQueue :: "QueueConfig \<Rightarrow> Queue" where
  "BuildQueue cfg = \<lparr>qu_config = cfg, qu_parties = [], qu_delayed_pop = None, qu_recent_maps = []\<rparr>"

definition InitService :: "QueueConfig list \<Rightarrow> World \<Rightarrow> World" where
  "InitService configs w = w\<lparr>
     w_queues := fold (\<lambda>cfg. umap_put (qc_queue_id cfg) (BuildQueue cfg)) configs [],
     w_pending := [], w_ready := [], w_pre_assigned := [],
     w_fairness := (w_fairness w)\<lparr>fn_index := []\<rparr>, w_credited := [],
     w_has_callback := False, w_has_provider := False, w_has_io := False\<rparr>"

definition rebuild_queue ::
  "QueueConfig \<Rightarrow> (u32, Queue) umap \<times> (u32, Queue) umap \<Rightarrow> (u32, Queue) umap \<times> (u32, Queue) umap" where
  \<comment> \<open>\<open>kept\<close> holds the waiting parties, the armed delays and the recent maps of the old queues\<close>
  "rebuild_queue cfg st =
     (case st of (rebuilt, kept) \<Rightarrow>
        let q = (case map_of kept (qc_queue_id cfg) of None \<Rightarrow> BuildQueue cfg | Some old \<Rightarrow> old\<lparr>qu_config := cfg\<rparr>)
        in (umap_put (qc_queue_id cfg) q rebuilt, umap_erase (qc_queue_id cfg) kept))"

fun pop_all :: "nat \<Rightarrow> Env \<Rightarrow> u32 list \<Rightarrow> World \<Rightarrow> World option" where
  "pop_all n ev [] w = Some w"
| "pop_all n ev (qid # qids) w =
     (case TryPop n ev qid False w of None \<Rightarrow> None | Some w' \<Rightarrow> pop_all n ev qids w')"

definition ReloadQueues :: "nat \<Rightarrow> Env \<Rightarrow> QueueConfig list \<Rightarrow> World \<Rightarrow> World option" where
  "ReloadQueues n ev fresh w =
     (let queues = fst (fold rebuild_queue fresh ([], w_queues w));
          qids = map fst (filter (\<lambda>(_, q). qu_parties q \<noteq> [] \<and> qu_delayed_pop q = None) queues)
      in pop_all n ev qids (w\<lparr>w_queues := queues\<rparr>))"

end
