(* ===== verification/MatchPopLemmas.thy ===== *)
theory MatchPopLemmas
  imports MatchPop
begin

text \<open>
  What each part of the pop path leaves alone, and the step lemma of \<open>TryPop\<close>: the queue a
  pop works on keeps its configuration and loses exactly the consumed parties, and every
  other queue is untouched.
\<close>

section \<open>Frames\<close>

lemma RecordMatchEntry_frame [simp]:
  "w_queues (RecordMatchEntry ev i q gs tf pr w) = w_queues w"
  "w_pending (RecordMatchEntry ev i q gs tf pr w) = w_pending w"
  "w_ready (RecordMatchEntry ev i q gs tf pr w) = w_ready w"
  "w_registry (RecordMatchEntry ev i q gs tf pr w) = w_registry w"
  "w_out (RecordMatchEntry ev i q gs tf pr w) = w_out w"
  "w_has_callback (RecordMatchEntry ev i q gs tf pr w) = w_has_callback w"
  "w_has_provider (RecordMatchEntry ev i q gs tf pr w) = w_has_provider w"
  by (auto simp: RecordMatchEntry_def Let_def split: option.splits prod.splits)

lemma TrackReady_frame [simp]:
  "w_queues (TrackReadyMatchReservations ev i q gm gs tf pr mm c w) = w_queues w"
  "w_pending (TrackReadyMatchReservations ev i q gm gs tf pr mm c w) = w_pending w"
  "w_registry (TrackReadyMatchReservations ev i q gm gs tf pr mm c w) = w_registry w"
  "w_out (TrackReadyMatchReservations ev i q gm gs tf pr mm c w) = w_out w"
  "w_has_callback (TrackReadyMatchReservations ev i q gm gs tf pr mm c w) = w_has_callback w"
  "w_has_provider (TrackReadyMatchReservations ev i q gm gs tf pr mm c w) = w_has_provider w"
  by (auto simp: TrackReadyMatchReservations_def Let_def split: option.splits)

lemma DropReady_frame [simp]:
  "w_queues (DropReadyMatchReservations i w) = w_queues w"
  "w_pending (DropReadyMatchReservations i w) = w_pending w"
  "w_registry (DropReadyMatchReservations i w) = w_registry w"
  "w_fairness (DropReadyMatchReservations i w) = w_fairness w"
  "w_out (DropReadyMatchReservations i w) = w_out w"
  "w_has_callback (DropReadyMatchReservations i w) = w_has_callback w"
  "w_has_provider (DropReadyMatchReservations i w) = w_has_provider w"
  by (simp_all add: DropReadyMatchReservations_def)

lemma fold_keeps: "(\<And>x s. F (f x s) = F s) \<Longrightarrow> F (fold f xs s) = F s"
  by (induction xs arbitrary: s) simp_all

lemma fold_DropReady_frames [simp]:
  "w_queues (fold (\<lambda>(i, _). DropReadyMatchReservations i) xs w) = w_queues w"
  "w_pending (fold (\<lambda>(i, _). DropReadyMatchReservations i) xs w) = w_pending w"
  "w_registry (fold (\<lambda>(i, _). DropReadyMatchReservations i) xs w) = w_registry w"
  "w_fairness (fold (\<lambda>(i, _). DropReadyMatchReservations i) xs w) = w_fairness w"
  "w_out (fold (\<lambda>(i, _). DropReadyMatchReservations i) xs w) = w_out w"
  "w_has_callback (fold (\<lambda>(i, _). DropReadyMatchReservations i) xs w) = w_has_callback w"
  "w_has_provider (fold (\<lambda>(i, _). DropReadyMatchReservations i) xs w) = w_has_provider w"
  by (rule fold_keeps, simp add: split_def)+

lemma GetReserved_frame [simp]:
  "w_queues (snd (GetReservedReadyInstances q w)) = w_queues w"
  "w_pending (snd (GetReservedReadyInstances q w)) = w_pending w"
  "w_registry (snd (GetReservedReadyInstances q w)) = w_registry w"
  "w_fairness (snd (GetReservedReadyInstances q w)) = w_fairness w"
  "w_out (snd (GetReservedReadyInstances q w)) = w_out w"
  "w_has_callback (snd (GetReservedReadyInstances q w)) = w_has_callback w"
  "w_has_provider (snd (GetReservedReadyInstances q w)) = w_has_provider w"
  by (simp_all add: GetReservedReadyInstances_def Let_def split: option.split)

lemma InstanceProvider_frame [simp]:
  "w_queues (snd (InstanceProvider ev q w)) = w_queues w"
  "w_pending (snd (InstanceProvider ev q w)) = w_pending w"
  "w_registry (snd (InstanceProvider ev q w)) = w_registry w"
  "w_fairness (snd (InstanceProvider ev q w)) = w_fairness w"
  "w_out (snd (InstanceProvider ev q w)) = w_out w"
  "w_has_callback (snd (InstanceProvider ev q w)) = w_has_callback w"
  "w_has_provider (snd (InstanceProvider ev q w)) = w_has_provider w"
  by (simp_all add: InstanceProvider_def Let_def split_def)

lemma record_exclusions_frame [simp]:
  "w_queues (record_exclusions ev q cfg el r w) = w_queues w"
  "w_pending (record_exclusions ev q cfg el r w) = w_pending w"
  "w_registry (record_exclusions ev q cfg el r w) = w_registry w"
  "w_out (record_exclusions ev q cfg el r w) = w_out w"
  "w_has_callback (record_exclusions ev q cfg el r w) = w_has_callback w"
  "w_has_provider (record_exclusions ev q cfg el r w) = w_has_provider w"
  by (simp_all add: record_exclusions_def)

lemma Discard_frame [simp]:
  "w_queues (DiscardPendingMatchForDeadInstance i s w) = w_queues w"
  "w_registry (DiscardPendingMatchForDeadInstance i s w) = w_registry w"
  "w_has_callback (DiscardPendingMatchForDeadInstance i s w) = w_has_callback w"
  "w_has_provider (DiscardPendingMatchForDeadInstance i s w) = w_has_provider w"
  by (auto simp: DiscardPendingMatchForDeadInstance_def split: option.splits)

lemma MarkStopped_frame [simp]:
  "w_queues (MarkStopped t i w) = w_queues w"
  "w_pending (MarkStopped t i w) = w_pending w"
  "w_out (MarkStopped t i w) = w_out w"
  "w_has_callback (MarkStopped t i w) = w_has_callback w"
  "w_has_provider (MarkStopped t i w) = w_has_provider w"
  by (simp_all add: MarkStopped_def DropPreAssignedTeams_def)

lemma spawn_match_frame [simp]:
  "w_queues (spawn_match ev q port r w) = w_queues w"
  "w_has_callback (spawn_match ev q port r w) = w_has_callback w"
  "w_has_provider (spawn_match ev q port r w) = w_has_provider w"
  by (simp_all add: spawn_match_def AddPendingMatch_def Let_def split: prod.splits)

lemma route_match_frame [simp]:
  "w_queues (route_match ev q i r w) = w_queues w"
  "w_pending (route_match ev q i r w) = w_pending w"
  "w_registry (route_match ev q i r w) = w_registry w"
  "w_has_callback (route_match ev q i r w) = w_has_callback w"
  "w_has_provider (route_match ev q i r w) = w_has_provider w"
  by (simp_all add: route_match_def Let_def)

lemma MatchPop_queues: "MatchPop ev q r w = Some w' \<Longrightarrow> w_queues w' = w_queues w"
  by (auto simp: MatchPop_def split: option.splits)

section \<open>Eligible parties keep their ids and guids\<close>

lemma stamp_members_guids:
  "stamp_members scope ms f = (ms', f') \<Longrightarrow> map qp_session_guid ms' = map qp_session_guid ms"
  by (induction ms arbitrary: f ms' f') (auto split: prod.splits)

definition same_ids :: "QueuedParty \<Rightarrow> QueuedParty \<Rightarrow> bool" where
  "same_ids a b \<longleftrightarrow> pt_party_id a = pt_party_id b \<and> member_guids a = member_guids b"

lemma eligible_same:
  "eligible_parties ev cfg ps f = (el, f') \<Longrightarrow> list_all2 same_ids el (filter (party_verified ev cfg) ps)"
proof (induction ps arbitrary: f el f')
  case (Cons p ps)
  show ?case
  proof (cases "party_verified ev cfg p")
    case True
    obtain ms f1 where m: "(if qc_fairness_scope cfg = [] then (pt_members p, f)
        else stamp_members (qc_fairness_scope cfg) (pt_members p) f) = (ms, f1)" by force
    obtain ps' f2 where r: "eligible_parties ev cfg ps f1 = (ps', f2)" by force
    have "map qp_session_guid ms = member_guids p"
      using m stamp_members_guids by (fastforce split: if_splits)
    then show ?thesis using Cons.prems Cons.IH [OF r] True m r by (auto simp: same_ids_def)
  next
    case False
    then show ?thesis using Cons by simp
  qed
qed simp

lemma same_ids_maps:
  "list_all2 same_ids as bs \<Longrightarrow>
   map pt_party_id as = map pt_party_id bs \<and> party_guids as = party_guids bs \<and>
   ((\<forall>p \<in> set as. pt_members p \<noteq> []) \<longleftrightarrow> (\<forall>p \<in> set bs. pt_members p \<noteq> []))"
  by (induction rule: list_all2_induct) (auto simp: same_ids_def dest: map_eq_imp_length_eq)

lemma eligible_queue_ok:
  assumes "queue_ok ps" "eligible_parties ev cfg ps f = (el, f')"
  shows "queue_ok el" "pt_party_id ` set el \<subseteq> pt_party_id ` set ps"
proof -
  note s = same_ids_maps [OF eligible_same [OF assms(2)]]
  have "queue_ok (filter (party_verified ev cfg) ps)" by (rule filter_queue_ok [OF assms(1)])
  then show "queue_ok el" using s unfolding queue_ok_def by metis
  have "set (map pt_party_id el) = set (map pt_party_id (filter (party_verified ev cfg) ps))" using s by metis
  then show "pt_party_id ` set el \<subseteq> pt_party_id ` set ps" by auto
qed
section \<open>The instances the provider offers are well formed\<close>

lemma instance_wf_bare [simp]: "instance_wf (bare_instance inst m)"
  by (simp add: instance_wf_def bare_instance_def empty_seed_def)

lemma instance_wf_seed [simp]: "instance_wf ri \<Longrightarrow> instance_wf (seed_instance a tf p m ri)"
  by (simp add: instance_wf_def seed_instance_def seed_player_def Let_def)

lemma instance_wf_count [simp]: "instance_wf (ri\<lparr>ri_player_count := n\<rparr>) = instance_wf ri"
  "instance_wf (ri\<lparr>ri_max_players := n\<rparr>) = instance_wf ri"
  by (simp_all add: instance_wf_def)

lemma instance_wf_fold_seed: "instance_wf ri \<Longrightarrow> instance_wf (fold (\<lambda>x. seed_instance a (f x) (p x) (m x)) xs ri)"
  by (induction xs arbitrary: ri) simp_all

lemma reserved_instance_wf [simp]: "instance_wf (reserved_instance a inst ready)"
  unfolding reserved_instance_def split_def by (simp add: instance_wf_fold_seed)

lemma live_instance_wf [simp]: "instance_wf (live_instance ev w c inst)"
  unfolding live_instance_def Let_def by (simp add: instance_wf_fold_seed)

lemma umap_wf_fold_mod: "umap_wf m \<Longrightarrow> umap_wf (fold (\<lambda>(k, n). umap_mod d (\<lambda>x. x + n) k) xs m)"
  by (induction xs arbitrary: m) auto

lemma merge_instance_wf: "instance_wf ri \<Longrightarrow> instance_wf (merge_instance ri res)"
  by (simp add: instance_wf_def merge_instance_def merge_seed_def Let_def umap_wf_fold_mod)

lemma merge_reserved_wf:
  "instance_wf res \<Longrightarrow> \<forall>i \<in> set ris. instance_wf i \<Longrightarrow> \<forall>i \<in> set (merge_reserved c res ris). instance_wf i"
  by (induction ris) (auto simp: merge_instance_wf)

lemma GetReserved_wf: "\<forall>i \<in> set (fst (GetReservedReadyInstances q w)). instance_wf i"
  by (auto simp: GetReservedReadyInstances_def Let_def split_def split: option.split)

lemma InstanceProvider_wf: "\<forall>i \<in> set (fst (InstanceProvider ev q w)). instance_wf i"
proof -
  have "\<forall>i \<in> set (fold (merge_reserved c) rs ls). instance_wf i"
    if "\<forall>i \<in> set rs. instance_wf i" "\<forall>i \<in> set ls. instance_wf i" for c rs ls
    by (rule fold_inv [where P = "\<lambda>ls. \<forall>i \<in> set ls. instance_wf i"], rule that(2))
      (rule merge_reserved_wf, use that(1) in blast)
  note wf = this [OF GetReserved_wf]
  show ?thesis
  proof (rule ballI)
    fix i assume "i \<in> set (fst (InstanceProvider ev q w))"
    then obtain c cs where "i \<in> set (fold (merge_reserved c) (fst (GetReservedReadyInstances q w))
        (map (live_instance ev w c) cs))"
      by (auto simp: InstanceProvider_def Let_def split_def)
    then show "instance_wf i" using wf [of "map (live_instance ev w c) cs" c q w] by auto
  qed
qed

section \<open>Every evaluation is a good result\<close>

lemma weighted_index_less: "es \<noteq> [] \<Longrightarrow> weighted_index roll es < length es"
  by (induction roll es rule: weighted_index.induct) auto

lemma set_update_tl: "c \<in> set g \<Longrightarrow> set (tl (g[k := c])) \<subseteq> set g"
proof -
  assume c: "c \<in> set g"
  have "set (tl (g[k := c])) \<subseteq> set (g[k := c])" by (cases "g[k := c]") auto
  also have "\<dots> \<subseteq> insert c (set g)" by (rule set_update_subset_insert)
  finally show ?thesis using c by blast
qed

lemma draw_frame [simp]:
  "draw ev b w = (roll, w') \<Longrightarrow> w' = w\<lparr>w_draws := w_draws w + 1\<rparr>"
  by (auto simp: draw_def)

definition only_draws :: "World \<Rightarrow> World \<Rightarrow> bool" where
  "only_draws w w' \<longleftrightarrow> (\<exists>n. w' = w\<lparr>w_draws := n\<rparr>)"

lemma only_draws_refl [simp]: "only_draws w w"
  unfolding only_draws_def by (rule exI [of _ "w_draws w"]) simp

lemma only_draws_trans: "only_draws a b \<Longrightarrow> only_draws b c \<Longrightarrow> only_draws a c"
  by (auto simp: only_draws_def)

lemma weighted_order_props:
  "weighted_order n ev cs w = (cs', w') \<Longrightarrow> set cs' \<subseteq> set cs \<and> only_draws w w'"
proof (induction n ev cs w arbitrary: cs' w' rule: weighted_order.induct)
  case (1 n ev c d cs w)
  let ?g = "c # d # cs"
  obtain roll w1 where d: "draw ev (sum_list (map dc_eff ?g)) w = (roll, w1)" by force
  define k where "k = weighted_index roll (map dc_eff ?g)"
  obtain rest w2 where r: "weighted_order n ev (tl (?g[k := c])) w1 = (rest, w2)" by force
  have k: "k < length ?g" using weighted_index_less [of "map dc_eff ?g" roll] by (simp add: k_def)
  note ih = "1.IH" [OF refl refl d [symmetric] k_def r]
  have "set rest \<subseteq> set ?g" using ih set_update_tl [of c ?g k] by (meson list.set_intros(1) order_trans)
  moreover have "?g ! k \<in> set ?g" by (rule nth_mem [OF k])
  moreover have "only_draws w w2"
    using ih d only_draws_trans [of w w1 w2] by (auto simp: draw_def only_draws_def)
  moreover have "cs' = ?g ! k # rest" "w' = w2"
    using "1.prems" d r by (simp_all add: Let_def k_def)
  ultimately show ?case by simp
qed simp_all

lemma order_groups_props: "order_groups ev cs w = (cs', w') \<Longrightarrow> set cs' \<subseteq> set cs \<and> only_draws w w'"
proof (induction ev cs w arbitrary: cs' w' rule: order_groups.induct)
  case (2 ev c cs w)
  define grp where "grp = c # takeWhile (\<lambda>d. dc_players d = dc_players c) cs"
  define rest where "rest = dropWhile (\<lambda>d. dc_players d = dc_players c) cs"
  obtain g w1 where g: "weighted_order (length grp) ev grp w = (g, w1)" by force
  obtain r w2 where r: "order_groups ev rest w1 = (r, w2)" by force
  note ih = "2.IH" [OF grp_def rest_def g [symmetric] r]
  have "cs' = g @ r" "w' = w2"
    using "2.prems" g r by (simp_all add: Let_def grp_def rest_def)
  moreover have "set grp \<subseteq> insert c (set cs)" "set rest \<subseteq> set cs"
    unfolding grp_def rest_def by (auto dest: set_takeWhileD set_dropWhileD)
  ultimately show ?case
    using ih weighted_order_props [OF g] only_draws_trans [of w w1 w2] by auto
qed simp

lemma dlc_drop_in_SomeD:
  "dlc_drop_in cfg el is = Some r \<Longrightarrow>
   \<exists>P inst. inst \<in> set is \<and> RuleEvaluate cfg (filter P el) [inst] = Some r \<and> mr_existing_instance_id r \<noteq> None"
proof (induction cfg el "is" rule: dlc_drop_in.induct)
  case (2 cfg el inst rest)
  then show ?case by (auto simp: Let_def split: if_splits option.splits) blast+
qed simp

lemma dlc_spawn_SomeD:
  "dlc_spawn cfg cs d nf = Some (e, r) \<Longrightarrow>
   nf = Some (e, r) \<or> (\<exists>c \<in> set cs. e = dc_entry c \<and> RuleEvaluate cfg (dc_slice c) [] = Some r \<and>
      mr_existing_instance_id r = None)"
proof (induction cs arbitrary: d nf)
  case (Cons c cs)
  show ?case
  proof (cases "RuleEvaluate cfg (dc_slice c) []")
    case None
    then show ?thesis using Cons.IH [of d nf] Cons.prems by auto
  next
    case (Some r')
    then show ?thesis using Cons.IH [of d nf] Cons.IH [of "window_distance (int (length (mr_session_guids r'))) (dc_entry c)" "Some (dc_entry c, r')"]
        Cons.prems by (auto simp: Let_def split: if_splits)
  qed
qed simp

lemma evaluate_queue_ok:
  assumes "evaluate_queue ev q el is w = (Some (r, m), w')" "queue_ok el" "\<forall>i \<in> set is. instance_wf i"
  shows "result_ok el r"
proof -
  have slice: "result_ok el r" if "RuleEvaluate cfg (filter P el) js = Some r" "\<forall>i \<in> set js. instance_wf i" for cfg P js
  proof (rule result_ok_mono)
    show "result_ok (filter P el) r" by (rule rule.evaluate_ok [OF filter_queue_ok [OF assms(2)] that(2,1)])
  qed (use assms(2) queue_ok_distinct in auto)
  show ?thesis
  proof (cases "PoolHasDlcMaps (qu_config q)")
    case False
    then have "RuleEvaluate (qu_config q) (filter (\<lambda>_. True) el) is = Some r" using assms(1) by (auto simp: evaluate_queue_def Let_def)
    then show ?thesis using slice assms(3) by blast
  next
    case True
    show ?thesis
    proof (cases "dlc_drop_in (qu_config q) el is")
      case (Some r')
      then have "r' = r" using assms(1) True by (simp add: evaluate_queue_def Let_def)
      from dlc_drop_in_SomeD [OF Some [unfolded this]] slice assms(3) show ?thesis by fastforce
    next
      case None
      let ?cs = "stable_sort (\<lambda>a b. dc_players a > dc_players b) (dlc_candidates q el)"
      obtain cs w1 where o: "order_groups ev ?cs w = (cs, w1)" by force
      then obtain e where "dlc_spawn (qu_config q) cs int_max None = Some (e, r)"
        using assms(1) True None by (auto simp: evaluate_queue_def Let_def)
      from dlc_spawn_SomeD [OF this] obtain c where c: "c \<in> set cs" "RuleEvaluate (qu_config q) (dc_slice c) [] = Some r"
        by blast
      have "c \<in> set (dlc_candidates q el)" using order_groups_props [OF o] c(1) by auto
      then obtain P where "dc_slice c = filter P el" by (auto simp: dlc_candidates_def Let_def)
      then show ?thesis using slice [of "qu_config q" P "[]"] c(2) by simp
    qed
  qed
qed

lemma evaluate_queue_draws: "evaluate_queue ev q el is w = (x, w') \<Longrightarrow> only_draws w w'"
  by (auto simp: evaluate_queue_def Let_def split: if_splits option.splits prod.splits dest: order_groups_props)
section \<open>One call of TryPop\<close>

text \<open>Queues agree up to the bookkeeping a failed pop may leave (timer, recent maps).\<close>

definition same_queues :: "u32 \<Rightarrow> World \<Rightarrow> World \<Rightarrow> bool" where
  "same_queues qid w w' \<longleftrightarrow>
     (\<forall>k. k \<noteq> qid \<longrightarrow> map_of (w_queues w') k = map_of (w_queues w) k) \<and>
     (\<forall>q. map_of (w_queues w) qid = Some q \<longrightarrow>
        (\<exists>q'. map_of (w_queues w') qid = Some q' \<and> qu_config q' = qu_config q \<and> qu_parties q' = qu_parties q))"

lemma same_queues_refl [simp]: "w_queues w' = w_queues w \<Longrightarrow> same_queues qid w w'"
  by (simp add: same_queues_def)

lemma same_queues_put:
  "map_of (w_queues w) qid = Some q \<Longrightarrow> qu_config q' = qu_config q \<Longrightarrow> qu_parties q' = qu_parties q \<Longrightarrow>
   w_queues w'' = w_queues w \<Longrightarrow> same_queues qid w (put_queue qid q' w'')"
  by (simp add: same_queues_def put_queue_def)

lemma Pick_frame:
  assumes "PickRandomMapPoolEntryForCount ev qid n sets w = (x, w')"
  shows "same_queues qid w w' \<and> w_pending w' = w_pending w \<and> w_registry w' = w_registry w \<and>
    w_out w' = w_out w \<and> w_has_callback w' = w_has_callback w"
proof (cases "map_of (w_queues w) qid")
  case (Some q)
  then show ?thesis using assms
    by (auto simp: PickRandomMapPoolEntryForCount_def Let_def draw_def same_queues_def split: if_splits)
qed (use assms in \<open>simp add: PickRandomMapPoolEntryForCount_def\<close>)

lemma fill_map_frame:
  assumes "fill_map ev qid q r m w = (x, w')" "map_of (w_queues w) qid = Some q"
  shows "same_queues qid w w' \<and> w_pending w' = w_pending w \<and> w_registry w' = w_registry w \<and>
    w_out w' = w_out w \<and> w_has_callback w' = w_has_callback w"
  using assms Pick_frame [of ev qid "int (length (mr_session_guids r))" None w]
  by (auto simp: fill_map_def same_queues_def put_queue_def split: if_splits option.splits prod.splits)

lemma fill_map_result:
  assumes "fill_map ev qid q r m w = (Some r', w')"
  shows "\<exists>a b. r' = r\<lparr>mr_map_name := a, mr_game_mode := b\<rparr>"
proof -
  have same: "\<exists>a b. r = r\<lparr>mr_map_name := a, mr_game_mode := b\<rparr>"
    by (intro exI [of _ "mr_map_name r"] exI [of _ "mr_game_mode r"]) simp
  show ?thesis
  proof (cases "mr_existing_instance_id r \<noteq> None \<or> mr_map_name r \<noteq> []")
    case True
    then show ?thesis using assms same by (simp add: fill_map_def)
  next
    case False
    then show ?thesis using assms by (auto simp: fill_map_def split: if_splits option.splits prod.splits)
  qed
qed

lemma result_ok_map [simp]: "result_ok el (r\<lparr>mr_map_name := a, mr_game_mode := b\<rparr>) = result_ok el r"
  by (simp add: result_ok_def consumed_def)

lemma remaining_map [simp]: "remaining (r\<lparr>mr_map_name := a, mr_game_mode := b\<rparr>) ps = remaining r ps"
  by (simp add: remaining_def)

lemma commit_queues:
  assumes "commit ev qid cfg el r w = Some (again, w')" "map_of (w_queues w) qid = Some q"
  shows "map_of (w_queues w') qid = Some (q\<lparr>qu_parties := remaining r (qu_parties q)\<rparr>) \<and>
    (\<forall>k. k \<noteq> qid \<longrightarrow> map_of (w_queues w') k = map_of (w_queues w) k) \<and>
    (again \<longleftrightarrow> remaining r (qu_parties q) \<noteq> [])"
proof -
  have c: "w_queues (consume_parties qid r w'') = umap_put qid (q\<lparr>qu_parties := remaining r (qu_parties q)\<rparr>) (w_queues w)"
    if "w_queues w'' = w_queues w" for w''
    using that assms(2) by (simp add: consume_parties_def put_queue_def)
  have q: "w_queues w' = umap_put qid (q\<lparr>qu_parties := remaining r (qu_parties q)\<rparr>) (w_queues w)
      \<and> again = queue_nonempty qid w'"
    using assms(1) c
    by (auto simp: commit_def Let_def dest: MatchPop_queues split: option.splits prod.splits if_splits)
  then show ?thesis by (simp add: queue_nonempty_def)
qed

lemma pop_once_cases:
  assumes "pop_once ev qid d w = Some (again, w')" "map_of (w_queues w) qid = Some q" "queue_ok (qu_parties q)"
  obtains (idle) "\<not> again" "same_queues qid w w'" "w_pending w' = w_pending w" "w_registry w' = w_registry w"
      "w_out w' = w_out w" "w_has_callback w' = w_has_callback w"
  | (pop) el f r wc where "eligible_parties ev (qu_config q) (qu_parties q) (w_fairness w) = (el, f)"
      "result_ok el r" "queue_ok el" "same_queues qid w wc" "w_pending wc = w_pending w"
      "w_registry wc = w_registry w" "w_out wc = w_out w" "w_has_callback wc = w_has_callback w"
      "commit ev qid (qu_config q) el r wc = Some (again, w')"
proof (cases "qu_parties q = []")
  case True
  then show ?thesis using idle assms by (simp add: pop_once_def)
next
  case False
  obtain el f where el: "eligible_parties ev (qu_config q) (qu_parties q) (w_fairness w) = (el, f)" by force
  define w1 where "w1 = w\<lparr>w_fairness := f\<rparr>"
  define p where "p = (if w_has_provider w1 then InstanceProvider ev qid w1 else ([], w1))"
  obtain "is" w2 where i: "p = (is, w2)" by force
  have f2: "w_queues w2 = w_queues w" "w_pending w2 = w_pending w" "w_registry w2 = w_registry w"
    "w_out w2 = w_out w" "w_has_callback w2 = w_has_callback w"
    using arg_cong [OF i, of snd] by (auto simp: p_def w1_def split: if_splits)
  have wf: "\<forall>i \<in> set is. instance_wf i"
    using arg_cong [OF i, of fst] InstanceProvider_wf [of ev qid w1] by (auto simp: p_def split: if_splits)
  obtain x w3 where e: "evaluate_queue ev q el is w2 = (x, w3)" by force
  have f3: "w_queues w3 = w_queues w" "w_pending w3 = w_pending w" "w_registry w3 = w_registry w"
    "w_out w3 = w_out w" "w_has_callback w3 = w_has_callback w"
    using evaluate_queue_draws [OF e] f2 by (auto simp: only_draws_def)
  have unf: "(if el = [] then Some (False, w1)
      else case x of None \<Rightarrow> Some (False, w3)
        | Some (r, m) \<Rightarrow>
            if mr_existing_instance_id r = None \<and>
               length (mr_session_guids r) < unat (qc_min_players_to_pop (qu_config q)) then Some (False, w3)
            else if \<not> d \<and> mr_existing_instance_id r = None \<and> mr_access_mode r \<noteq> PartyLocked \<and>
                 qc_pop_delay_seconds (qu_config q) > 0 \<and> w_has_io w3
            then Some (False, if qu_delayed_pop q \<noteq> None then w3 else arm_timer ev qid q w3)
            else (case fill_map ev qid q r m w3 of
                (None, w4) \<Rightarrow> Some (False, w4)
              | (Some r', w4) \<Rightarrow> commit ev qid (qu_config q) el r' w4)) = Some (again, w')"
    using assms(1)
    by (simp only: pop_once_def assms(2) option.case Let_def False if_False el prod.case
        w1_def [symmetric] p_def [symmetric] i e)
  have quiet: thesis if "\<not> again" "w' = w1 \<or> w' = w3 \<or> w' = arm_timer ev qid q w3"
  proof (rule idle [OF that(1)])
    show "same_queues qid w w'"
      using that(2) f3 assms(2) by (auto simp: w1_def same_queues_def arm_timer_def put_queue_def Let_def)
  qed (use that(2) f3 in \<open>auto simp: w1_def arm_timer_def put_queue_def Let_def\<close>)
  show ?thesis
  proof (cases "el = [] \<or> x = None")
    case True
    then have "\<not> again \<and> (w' = w1 \<or> w' = w3)" using unf by (cases "el = []") auto
    then show ?thesis using quiet by blast
  next
    case False
    then obtain r m where x: "x = Some (r, m)" by auto
    have ok: "queue_ok el" by (rule eligible_queue_ok(1) [OF assms(3) el])
    have r: "result_ok el r" by (rule evaluate_queue_ok [OF e [unfolded x] ok wf])
    obtain y w4 where y: "fill_map ev qid q r m w3 = (y, w4)" by force
    have q3: "map_of (w_queues w3) qid = Some q" using f3 assms(2) by simp
    note f4 = fill_map_frame [OF y q3]
    have s4: "same_queues qid w w4" using f4 f3 by (simp add: same_queues_def)
    show ?thesis
    proof (cases "again = False \<and> (w' = w3 \<or> w' = arm_timer ev qid q w3)")
      case True
      then show ?thesis using quiet by blast
    next
      case loud: False
      have c: "(case y of None \<Rightarrow> Some (False, w4) | Some r' \<Rightarrow> commit ev qid (qu_config q) el r' w4) = Some (again, w')"
        using unf loud False x y by (auto split: if_splits)
      show ?thesis
      proof (cases y)
        case None
        then show ?thesis using c f4 f3 s4 by (intro idle) auto
      next
        case (Some r')
        obtain a b where "r' = r\<lparr>mr_map_name := a, mr_game_mode := b\<rparr>"
          using fill_map_result y Some by blast
        then have "result_ok el r'" using r by simp
        then show ?thesis using pop [OF el _ ok s4] c Some f4 f3 by auto
      qed
    qed
  qed
qed
section \<open>Induction along the calls\<close>

definition pop_ready :: "u32 \<Rightarrow> World \<Rightarrow> bool" where
  "pop_ready qid w \<longleftrightarrow> (\<exists>q. map_of (w_queues w) qid = Some q \<and> queue_ok (qu_parties q))"

definition parties_at :: "u32 \<Rightarrow> World \<Rightarrow> QueuedParty list" where
  "parties_at qid w = (case map_of (w_queues w) qid of None \<Rightarrow> [] | Some q \<Rightarrow> qu_parties q)"

lemma same_queues_parties:
  "same_queues qid w w' \<Longrightarrow> pop_ready qid w \<Longrightarrow> parties_at qid w' = parties_at qid w \<and> pop_ready qid w'"
  by (auto simp: same_queues_def pop_ready_def parties_at_def)

lemma remaining_less:
  assumes "result_ok el r" "eligible_parties ev cfg ps f = (el, f')" "queue_ok ps"
  shows "length (remaining r ps) < length ps"
proof -
  obtain pid where "pid \<in> set (mr_consumed_party_ids r)"
    using assms(1) by (cases "mr_consumed_party_ids r") (auto simp: result_ok_def)
  moreover then have "pid \<in> pt_party_id ` set ps"
    using assms(1) eligible_queue_ok(2) [OF assms(3,2)] by (auto simp: result_ok_def)
  ultimately obtain p where "p \<in> set ps" "pt_party_id p \<in> set (mr_consumed_party_ids r)" by auto
  then show ?thesis unfolding remaining_def by (intro length_filter_less) auto
qed

lemma pop_once_parties:
  assumes "pop_once ev qid d w = Some (again, w')" "pop_ready qid w"
  shows "pop_ready qid w'" "subseq (parties_at qid w') (parties_at qid w)"
    "again \<Longrightarrow> length (parties_at qid w') < length (parties_at qid w)"
    "\<forall>k. k \<noteq> qid \<longrightarrow> map_of (w_queues w') k = map_of (w_queues w) k"
    "GetQueueConfig qid w' = GetQueueConfig qid w"
proof -
  obtain q where q: "map_of (w_queues w) qid = Some q" "queue_ok (qu_parties q)"
    using assms(2) by (auto simp: pop_ready_def)
  have "pop_ready qid w' \<and> subseq (parties_at qid w') (parties_at qid w) \<and>
    (again \<longrightarrow> length (parties_at qid w') < length (parties_at qid w)) \<and>
    (\<forall>k. k \<noteq> qid \<longrightarrow> map_of (w_queues w') k = map_of (w_queues w) k) \<and>
    GetQueueConfig qid w' = GetQueueConfig qid w"
    using assms(1) q
  proof (cases rule: pop_once_cases)
    case idle
    then show ?thesis
      using same_queues_parties [OF idle(2) assms(2)] q by (auto simp: same_queues_def GetQueueConfig_def)
  next
    case (pop el f r wc)
    obtain qc where qc: "map_of (w_queues wc) qid = Some qc" "qu_parties qc = qu_parties q" "qu_config qc = qu_config q"
      using pop(4) q(1) by (auto simp: same_queues_def)
    note c = commit_queues [OF pop(9) qc(1)]
    have "\<forall>k. k \<noteq> qid \<longrightarrow> map_of (w_queues w') k = map_of (w_queues w) k"
      using c pop(4) by (simp add: same_queues_def)
    moreover have "subseq (remaining r (qu_parties q)) (qu_parties q)" by (simp add: remaining_def)
    moreover have "length (remaining r (qu_parties q)) < length (qu_parties q)"
      by (rule remaining_less [OF pop(2,1) q(2)])
    ultimately show ?thesis
      using c q qc queue_ok_remaining [OF q(2), of r] by (simp add: pop_ready_def parties_at_def GetQueueConfig_def)
  qed
  then show "pop_ready qid w'" "subseq (parties_at qid w') (parties_at qid w)"
    "again \<Longrightarrow> length (parties_at qid w') < length (parties_at qid w)"
    "\<forall>k. k \<noteq> qid \<longrightarrow> map_of (w_queues w') k = map_of (w_queues w) k"
    "GetQueueConfig qid w' = GetQueueConfig qid w" by blast+
qed

lemma TryPop_rel:
  assumes "TryPop n ev qid d w = Some w'" "I w"
    and step: "\<And>w b w'. I w \<Longrightarrow> pop_once ev qid d w = Some (b, w') \<Longrightarrow> I w' \<and> R w w'"
    and trans: "\<And>a b c. R a b \<Longrightarrow> R b c \<Longrightarrow> R a c"
  shows "I w' \<and> R w w'"
  using assms(1,2)
proof (induction n arbitrary: w)
  case (Suc n)
  obtain b w1 where p: "pop_once ev qid d w = Some (b, w1)"
    using Suc.prems(1) by (auto split: option.splits)
  note s = step [OF Suc.prems(2) p]
  show ?case
  proof (cases b)
    case True
    then have "TryPop n ev qid d w1 = Some w'" using Suc.prems(1) p by simp
    from Suc.IH [OF this] s trans show ?thesis by blast
  next
    case False
    then show ?thesis using Suc.prems(1) p s by simp
  qed
qed simp

section \<open>TryPop returns\<close>

lemma MatchPop_returns:
  assumes "ev_port_hi ev < 65535"
  obtains w' where "MatchPop ev q r w = Some w'"
proof -
  obtain x where x: "AllocatePort (ev_port_lo ev) (ev_port_hi ev) (w_registry w) = Some x"
    unfolding AllocatePort_def using port_scan_spec [OF assms refl] by blast
  have "\<exists>w'. MatchPop ev q r w = Some w'" unfolding MatchPop_def x by (simp split: option.split)
  then show thesis using that by blast
qed

lemma commit_returns:
  assumes "ev_port_hi ev < 65535"
  obtains b w' where "commit ev q cfg el r w = Some (b, w')"
proof (cases "if mr_existing_instance_id r = None \<and> mr_access_mode r = OpenAccess
    then find (coalesces q cfg el r w) (w_pending w) else None")
  case None
  let ?w1 = "record_exclusions ev q cfg el r (consume_parties q r w)"
  obtain w2 where m: "MatchPop ev q r ?w1 = Some w2" by (rule MatchPop_returns [OF assms])
  have "\<exists>b w'. commit ev q cfg el r w = Some (b, w')"
    unfolding commit_def None Let_def option.case m by (cases "w_has_callback ?w1") simp_all
  then show ?thesis using that by blast
next
  case (Some e)
  obtain iid pm where "e = (iid, pm)" by force
  then show ?thesis using that Some by (simp add: commit_def Let_def)
qed

lemma pop_once_returns:
  assumes "ev_port_hi ev < 65535"
  shows "\<exists>b w'. pop_once ev qid d w = Some (b, w')"
proof -
  have c: "\<exists>b w'. commit ev q cfg el r w = Some (b, w')" for q cfg el r w
    by (rule commit_returns [OF assms]) blast
  have "pop_once ev qid d w \<noteq> None"
  proof
    assume "pop_once ev qid d w = None"
    then obtain cfg el r w4 where "commit ev qid cfg el r w4 = None"
      by (auto simp: pop_once_def Let_def split: option.splits prod.splits if_splits)
    then show False using c [of qid cfg el r w4] by simp
  qed
  then show ?thesis by auto
qed

lemma TryPop_returns:
  assumes "ev_port_hi ev < 65535" "pop_ready qid w" "length (parties_at qid w) < n"
  shows "\<exists>w'. TryPop n ev qid d w = Some w'"
  using assms(2,3)
proof (induction n arbitrary: w)
  case (Suc n)
  obtain b w1 where p: "pop_once ev qid d w = Some (b, w1)" using pop_once_returns [OF assms(1)] by blast
  show ?case
  proof (cases b)
    case True
    then have "length (parties_at qid w1) < n"
      using pop_once_parties(3) [OF p Suc.prems(1)] Suc.prems(2) by simp
    then show ?thesis using Suc.IH [OF pop_once_parties(1) [OF p Suc.prems(1)]] p True by simp
  next
    case False
    then show ?thesis using p by simp
  qed
qed simp

lemma TryPop_fuel: "TryPop n ev qid d w = Some w' \<Longrightarrow> n \<le> m \<Longrightarrow> TryPop m ev qid d w = Some w'"
proof (induction n arbitrary: m w)
  case (Suc n)
  then obtain m' where "m = Suc m'" "n \<le> m'" by (cases m) auto
  then show ?case using Suc by (auto split: option.splits bool.splits)
qed simp

end
