(* ===== verification/PopGuarantees.thy ===== *)
theory PopGuarantees
  imports MatchPopLemmas
begin

text \<open>
  What the players and the instances can rely on when \<open>TryPop\<close> runs: it returns, it only
  takes parties out of its own queue, it never shrinks or overfills a pending match, and it
  tells every player it takes out of the queue what became of them. The last needs a free
  port for every spawn; \<open>pop_without_port\<close> shows what happens without one.
\<close>

section \<open>Parties a result consumes\<close>

lemma list_all2_in_set: "list_all2 P xs ys \<Longrightarrow> x \<in> set xs \<Longrightarrow> \<exists>y \<in> set ys. P x y"
  by (induction rule: list_all2_induct) auto

lemma consumed_members:
  assumes "result_ok el r" "eligible_parties ev cfg ps f = (el, f')" "queue_ok ps"
    and "p \<in> set ps" "p \<notin> set (remaining r ps)" "g \<in> set (member_guids p)"
  shows "g \<in> set (mr_session_guids r)"
proof -
  have "pt_party_id p \<in> set (mr_consumed_party_ids r)" using assms(4,5) by (simp add: remaining_def)
  then obtain p' where p': "p' \<in> set el" "pt_party_id p' = pt_party_id p" "p' \<in> set (consumed r el)"
    using assms(1) by (auto simp: result_ok_def consumed_def)
  obtain p'' where p'': "p'' \<in> set ps" "same_ids p' p''"
    using list_all2_in_set [OF eligible_same [OF assms(2)] p'(1)] by auto
  then have "p'' = p"
    using assms(3,4) p'(2) by (auto simp: same_ids_def queue_ok_def distinct_map dest: inj_onD)
  then have "g \<in> set (party_guids (consumed r el))"
    using p'' p'(3) assms(6) unfolding set_party_guids same_ids_def by (metis UN_I)
  moreover have "mset (mr_session_guids r) = mset (party_guids (consumed r el))"
    using assms(1) by (simp add: result_ok_def)
  ultimately show ?thesis by (metis set_mset_mset)
qed

section \<open>Ports\<close>

definition port_range :: "Env \<Rightarrow> nat" where
  "port_range ev = unat (ev_port_hi ev) + 1 - unat (ev_port_lo ev)"

lemma no_port_full:
  assumes "ev_port_hi ev < 65535" "AllocatePort (ev_port_lo ev) (ev_port_hi ev) rg = Some None"
  shows "port_range ev \<le> length (live_ports rg)"
proof -
  let ?ns = "{unat (ev_port_lo ev) ..< unat (ev_port_hi ev) + 1}"
  have all: "ev_port_lo ev \<le> p \<Longrightarrow> p \<le> ev_port_hi ev \<Longrightarrow> p \<in> set (live_ports rg)" for p
    using port_scan_spec [OF assms(1) refl, of "live_ports rg" "ev_port_lo ev"] assms(2)
    by (auto simp: AllocatePort_def)
  have small: "n < 2 ^ 16" if "n \<in> ?ns" for n
    using that assms(1) by (simp add: word_less_nat_alt)
  have un: "unat (word_of_nat n :: u16) = n" if "n \<in> ?ns" for n
    using small [OF that] by (simp add: unat_of_nat take_bit_nat_eq_self)
  have "inj_on (word_of_nat :: nat \<Rightarrow> u16) ?ns" by (rule inj_onI) (metis un)
  then have "port_range ev = card ((word_of_nat :: nat \<Rightarrow> u16) ` ?ns)"
    by (simp add: card_image port_range_def)
  also have "\<dots> \<le> card (set (live_ports rg))"
    by (rule card_mono) (use all un in \<open>auto simp: word_le_nat_alt\<close>)
  also have "\<dots> \<le> length (live_ports rg)" by (rule card_length)
  finally show ?thesis .
qed

lemma InsertStarting_live:
  "length (live_ports (snd (InsertStarting bl now m gm port p home q pre access owners rg)))
     = length (live_ports rg) + 1"
proof -
  have "length (filter (\<lambda>r. ir_state r \<noteq> STOPPED) (update_where P (ir_instance_id_update f) rows))
      = length (filter (\<lambda>r. ir_state r \<noteq> STOPPED) rows)" for P f and rows :: "InstanceRow list"
    by (induction rows) (auto simp: update_where_def)
  then show ?thesis unfolding InsertStarting_def Let_def live_ports_def
    by (simp split del: if_split)
qed

lemma live_ports_shrink:
  assumes "\<And>r. ir_state (f r) \<noteq> STOPPED \<Longrightarrow> ir_state r \<noteq> STOPPED"
  shows "length (live_ports (update_instances P f rg)) \<le> length (live_ports rg)"
proof -
  have "length (filter (\<lambda>r. ir_state r \<noteq> STOPPED) (update_where P f rows))
      \<le> length (filter (\<lambda>r. ir_state r \<noteq> STOPPED) rows)" for rows
  proof (induction rows)
    case (Cons r rows)
    then show ?case using assms [of r]
      by (cases "P r"; cases "ir_state (f r) = STOPPED"; cases "ir_state r = STOPPED") (simp_all add: update_where_def)
  qed (simp add: update_where_def)
  then show ?thesis by (simp add: live_ports_def)
qed

lemma UpdatePid_live [simp]: "length (live_ports (UpdatePid i pid rg)) \<le> length (live_ports rg)"
  unfolding UpdatePid_def by (rule live_ports_shrink) simp

lemma MarkStoppedRows_live [simp]: "length (live_ports (MarkStoppedRows now i rg)) \<le> length (live_ports rg)"
proof -
  have "length (live_ports (update_instances P (fallback_outcome rg0) rg)) \<le> length (live_ports rg)" for P rg0 rg
    by (rule live_ports_shrink) (simp add: fallback_outcome_def)
  moreover have "length (live_ports (update_instances P (\<lambda>r. r\<lparr>ir_state := STOPPED, ir_sealed_at := s\<rparr>) rg))
      \<le> length (live_ports rg)" for P s rg
    by (rule live_ports_shrink) simp
  ultimately show ?thesis unfolding MarkStoppedRows_def Let_def leave_rows_def live_ports_players
    by (blast intro: le_trans)
qed

lemma next_instance_keeps [simp]:
  "rg_next_instance (UpdatePid i pid rg) = rg_next_instance rg"
  "rg_next_instance (MarkStoppedRows now i rg) = rg_next_instance rg"
  by (simp_all add: UpdatePid_def MarkStoppedRows_def Let_def leave_rows_def)
section \<open>How a pop is committed\<close>

definition spawned :: "Env \<Rightarrow> u32 \<Rightarrow> u16 \<Rightarrow> MatchResult \<Rightarrow> World \<Rightarrow> PendingMatch" where
  "spawned ev qid port r w = pending_of qid (rg_next_instance (w_registry w)) r (result_cap qid r w)"

definition cancels :: "guid list \<Rightarrow> string \<Rightarrow> Effect list" where
  "cancels gs reason = map (\<lambda>g. DeliverMatchCancelled g reason) gs"

definition invites :: "int \<Rightarrow> MatchResult \<Rightarrow> Effect list" where
  "invites iid r = map (\<lambda>g. DeliverMatchInvitation g iid (mr_game_mode r)
     (umap_get 1 (mr_task_force_assignments r) g)) (mr_session_guids r)"

lemma spawn_match_effect:
  fixes w :: World
  defines "i \<equiv> rg_next_instance (w_registry w)"
  shows "rg_next_instance (w_registry (spawn_match ev qid port r w)) = i + 1"
    and "length (live_ports (w_registry (spawn_match ev qid port r w))) \<le> length (live_ports (w_registry w)) + 1"
    and "w_pending (spawn_match ev qid port r w) =
      (if ev_spawn_pid ev i < 0 then umap_erase i (umap_put i (spawned ev qid port r w) (w_pending w))
       else umap_put i (spawned ev qid port r w) (w_pending w))"
    and "w_out (spawn_match ev qid port r w) = w_out w @
      [SpawnInstance i (mr_map_name r) (mr_game_mode r) port (spawn_difficulty qid r w)] @
      (if ev_spawn_pid ev i < 0 then cancels (mr_session_guids r) ''InstanceSpawner::Spawn returned -1'' else [])"
proof -
  obtain j rg where ins: "InsertStarting (ev_bonus_lives ev) (ev_time ev) (mr_map_name r) (mr_game_mode r) port 0 False
      qid 0 (AccessModeToString (mr_access_mode r)) (owner_csv (mr_owner_party_ids r)) (w_registry w) = (j, rg)" by force
  have j: "j = i" and n: "rg_next_instance rg = i + 1" and l: "length (live_ports rg) = length (live_ports (w_registry w)) + 1"
    using InsertStarting_other [of "ev_bonus_lives ev" "ev_time ev" "mr_map_name r" "mr_game_mode r" port 0 False
      qid 0 "AccessModeToString (mr_access_mode r)" "owner_csv (mr_owner_party_ids r)" "w_registry w"]
      InsertStarting_live [of "ev_bonus_lives ev" "ev_time ev" "mr_map_name r" "mr_game_mode r" port 0 False
      qid 0 "AccessModeToString (mr_access_mode r)" "owner_csv (mr_owner_party_ids r)" "w_registry w"] ins
    by (simp_all add: i_def)
  note defs = spawn_match_def ins [unfolded j] prod.case Let_def AddPendingMatch_def spawned_def i_def [symmetric]
  show "rg_next_instance (w_registry (spawn_match ev qid port r w)) = i + 1"
    using n by (simp add: defs MarkStopped_def DropPreAssignedTeams_def)
  have "length (live_ports (UpdatePid k p rg)) \<le> length (live_ports (w_registry w)) + 1"
    "length (live_ports (MarkStoppedRows t k rg)) \<le> length (live_ports (w_registry w)) + 1" for k p t
    using UpdatePid_live [of k p rg] MarkStoppedRows_live [of t k rg] l by linarith+
  then show "length (live_ports (w_registry (spawn_match ev qid port r w))) \<le> length (live_ports (w_registry w)) + 1"
    by (simp add: defs MarkStopped_def DropPreAssignedTeams_def)
  show "w_pending (spawn_match ev qid port r w) =
      (if ev_spawn_pid ev i < 0 then umap_erase i (umap_put i (spawned ev qid port r w) (w_pending w))
       else umap_put i (spawned ev qid port r w) (w_pending w))"
    by (simp add: defs DiscardPendingMatchForDeadInstance_def)
  show "w_out (spawn_match ev qid port r w) = w_out w @
      [SpawnInstance i (mr_map_name r) (mr_game_mode r) port (spawn_difficulty qid r w)] @
      (if ev_spawn_pid ev i < 0 then cancels (mr_session_guids r) ''InstanceSpawner::Spawn returned -1'' else [])"
    by (simp add: defs DiscardPendingMatchForDeadInstance_def cancels_def pending_of_def)
qed

lemma consume_frame [simp]:
  "w_pending (consume_parties q r w) = w_pending w"
  "w_registry (consume_parties q r w) = w_registry w"
  "w_out (consume_parties q r w) = w_out w"
  "w_has_callback (consume_parties q r w) = w_has_callback w"
  by (simp_all add: consume_parties_def put_queue_def split: option.split)

lemma commit_cases:
  assumes "commit ev qid cfg el r w = Some (again, w')"
  obtains (coalesce) iid pm where "coalesces qid cfg el r w (iid, pm)" "(iid, pm) \<in> set (w_pending w)"
      "w_pending w' = umap_put iid (fold (coalesce_player r) (mr_session_guids r) pm) (w_pending w)"
      "w_registry w' = w_registry w" "w_out w' = w_out w" "w_has_callback w' = w_has_callback w"
  | (silent) "\<not> w_has_callback w" "w_pending w' = w_pending w" "w_registry w' = w_registry w"
      "w_out w' = w_out w" "w_has_callback w' = w_has_callback w"
  | (route) iid where "w_pending w' = w_pending w" "w_registry w' = w_registry w"
      "w_out w' = w_out w @ invites iid r" "w_has_callback w' = w_has_callback w"
  | (no_port) "AllocatePort (ev_port_lo ev) (ev_port_hi ev) (w_registry w) = Some None" "w_pending w' = w_pending w"
      "w_registry w' = w_registry w" "w_out w' = w_out w" "w_has_callback w' = w_has_callback w"
  | (spawn) wc port where "w_pending wc = w_pending w" "w_registry wc = w_registry w" "w_out wc = w_out w"
      "w_has_callback wc = w_has_callback w" "w' = spawn_match ev qid port r wc"
proof (cases "if mr_existing_instance_id r = None \<and> mr_access_mode r = OpenAccess
    then find (coalesces qid cfg el r w) (w_pending w) else None")
  case (Some e)
  obtain iid pm where e: "e = (iid, pm)" by force
  then have "find (coalesces qid cfg el r w) (w_pending w) = Some (iid, pm)" using Some by (simp split: if_splits)
  then have "(iid, pm) \<in> set (w_pending w)" "coalesces qid cfg el r w (iid, pm)"
    using find_Some_in_set by fastforce+
  then show ?thesis using coalesce assms Some e by (auto simp: commit_def Let_def)
next
  case None
  let ?w1 = "record_exclusions ev qid cfg el r (consume_parties qid r w)"
  have c: "(if w_has_callback ?w1 then MatchPop ev qid r ?w1 else Some ?w1) = Some w'"
    using assms by (simp add: commit_def None Let_def split: option.splits if_splits)
  show ?thesis
  proof (cases "w_has_callback w")
    case False
    then show ?thesis using silent c by auto
  next
    case True
    then have m: "MatchPop ev qid r ?w1 = Some w'" using c by simp
    show ?thesis
    proof (cases "mr_existing_instance_id r")
      case (Some iid)
      then have "w' = route_match ev qid iid r ?w1" using m by (simp add: MatchPop_def)
      then show ?thesis using route [of iid] by (simp add: route_match_def Let_def invites_def)
    next
      case None
      then obtain x where x: "AllocatePort (ev_port_lo ev) (ev_port_hi ev) (w_registry w) = Some x"
        and y: "(case x of None \<Rightarrow> Some ?w1 | Some port \<Rightarrow> Some (spawn_match ev qid port r ?w1)) = Some w'"
        using m by (auto simp: MatchPop_def split: option.splits)
      show ?thesis
      proof (cases x)
        case None
        then have "w' = ?w1" using y by simp
        then show ?thesis using no_port x None by simp
      next
        case (Some port)
        then show ?thesis using y by (intro spawn [of ?w1 port]) auto
      qed
    qed
  qed
qed
section \<open>Pending matches only grow\<close>

text \<open>The pending matches have one entry per id, below the next id, with a side for each guid.\<close>

definition pending_ok :: "PendingMatch \<Rightarrow> bool" where
  "pending_ok pm \<longleftrightarrow> (\<forall>g. map_of (pm_task_force_assignments pm) g \<noteq> None \<longleftrightarrow> g \<in> set (pm_session_guids pm))"

definition pendings_ok :: "World \<Rightarrow> bool" where
  "pendings_ok w \<longleftrightarrow> umap_wf (w_pending w) \<and>
     (\<forall>i pm. map_of (w_pending w) i = Some pm \<longrightarrow> i < rg_next_instance (w_registry w) \<and> pending_ok pm)"

text \<open>A pending match gains players only if it is open, of this queue, and its cap allows it.\<close>

definition pending_grows :: "u32 \<Rightarrow> PendingMatch \<Rightarrow> PendingMatch \<Rightarrow> bool" where
  "pending_grows qid pm pm' \<longleftrightarrow>
     (\<exists>new. pm_session_guids pm' = pm_session_guids pm @ new \<and>
        (new = [] \<or> pm_access_mode pm = OpenAccess \<and> pm_queue_id pm = qid \<and>
           (0 < pm_cap pm \<longrightarrow> length (pm_session_guids pm') \<le> unat (pm_cap pm)))) \<and>
     pm_instance_id pm' = pm_instance_id pm \<and> pm_queue_id pm' = pm_queue_id pm \<and>
     pm_map_name pm' = pm_map_name pm \<and> pm_game_mode pm' = pm_game_mode pm \<and>
     pm_cap pm' = pm_cap pm \<and> pm_access_mode pm' = pm_access_mode pm \<and>
     pm_owner_party_ids pm' = pm_owner_party_ids pm"

definition pendings_grow :: "u32 \<Rightarrow> World \<Rightarrow> World \<Rightarrow> bool" where
  "pendings_grow qid w w' \<longleftrightarrow> (\<forall>i pm. map_of (w_pending w) i = Some pm \<longrightarrow>
     (\<exists>pm'. map_of (w_pending w') i = Some pm' \<and> pending_grows qid pm pm'))"

lemma pending_grows_refl [simp]: "pending_grows qid pm pm"
  by (simp add: pending_grows_def)

lemma pending_grows_trans: "pending_grows q a b \<Longrightarrow> pending_grows q b c \<Longrightarrow> pending_grows q a c"
  unfolding pending_grows_def by auto

lemma pendings_growD:
  "pendings_grow qid w w' \<Longrightarrow> map_of (w_pending w) i = Some pm \<Longrightarrow>
   \<exists>pm'. map_of (w_pending w') i = Some pm' \<and> pending_grows qid pm pm'"
  unfolding pendings_grow_def by blast

lemma pendings_grow_trans: "pendings_grow q a b \<Longrightarrow> pendings_grow q b c \<Longrightarrow> pendings_grow q a c"
  unfolding pendings_grow_def by (meson pending_grows_trans)

lemma pendings_grow_same: "w_pending w' = w_pending w \<Longrightarrow> pendings_grow q w w'"
  by (simp add: pendings_grow_def)

lemma fold_coalesce:
  "pending_ok pm \<Longrightarrow> pending_ok (fold (coalesce_player r) gs pm) \<and>
   set (pm_session_guids (fold (coalesce_player r) gs pm)) = set (pm_session_guids pm) \<union> set gs \<and>
   (\<exists>new. pm_session_guids (fold (coalesce_player r) gs pm) = pm_session_guids pm @ new \<and> length new \<le> length gs) \<and>
   pm_instance_id (fold (coalesce_player r) gs pm) = pm_instance_id pm \<and>
   pm_queue_id (fold (coalesce_player r) gs pm) = pm_queue_id pm \<and>
   pm_map_name (fold (coalesce_player r) gs pm) = pm_map_name pm \<and>
   pm_game_mode (fold (coalesce_player r) gs pm) = pm_game_mode pm \<and>
   pm_cap (fold (coalesce_player r) gs pm) = pm_cap pm \<and>
   pm_access_mode (fold (coalesce_player r) gs pm) = pm_access_mode pm \<and>
   pm_owner_party_ids (fold (coalesce_player r) gs pm) = pm_owner_party_ids pm"
proof (induction gs arbitrary: pm)
  case (Cons g gs)
  let ?pm = "coalesce_player r g pm"
  show ?case
  proof (cases "map_of (pm_task_force_assignments pm) g = None")
    case False
    then have "?pm = pm" "g \<in> set (pm_session_guids pm)"
      using Cons.prems by (simp_all add: coalesce_player_def pending_ok_def)
    moreover obtain new where "pm_session_guids (fold (coalesce_player r) gs pm) = pm_session_guids pm @ new"
      "length new \<le> length gs" using Cons.IH [OF Cons.prems] by blast
    ultimately show ?thesis using Cons.IH [OF Cons.prems] by auto
  next
    case True
    then have ok: "pending_ok ?pm" using Cons.prems by (simp add: coalesce_player_def pending_ok_def)
    have eq: "pm_session_guids ?pm = pm_session_guids pm @ [g]" using True by (simp add: coalesce_player_def)
    obtain new where "pm_session_guids (fold (coalesce_player r) gs ?pm) = pm_session_guids ?pm @ new"
      "length new \<le> length gs" using Cons.IH [OF ok] by blast
    then have n: "\<exists>new. pm_session_guids (fold (coalesce_player r) gs ?pm) = pm_session_guids pm @ new \<and>
        length new \<le> length (g # gs)"
      using eq by (intro exI [of _ "g # new"]) simp
    have keep: "pm_instance_id ?pm = pm_instance_id pm" "pm_queue_id ?pm = pm_queue_id pm"
      "pm_map_name ?pm = pm_map_name pm" "pm_game_mode ?pm = pm_game_mode pm" "pm_cap ?pm = pm_cap pm"
      "pm_access_mode ?pm = pm_access_mode pm" "pm_owner_party_ids ?pm = pm_owner_party_ids pm"
      by (simp_all add: coalesce_player_def)
    have st: "set (pm_session_guids ?pm) \<union> set gs = set (pm_session_guids pm) \<union> set (g # gs)" using eq by auto
    show ?thesis using Cons.IH [OF ok] n unfolding keep st by simp
  qed
qed simp

lemma coalesce_grows:
  assumes "pending_ok pm" "coalesces qid cfg el r w (iid, pm)"
  shows "pending_grows qid pm (fold (coalesce_player r) (mr_session_guids r) pm)"
proof -
  note f = fold_coalesce [OF assms(1), of r "mr_session_guids r"]
  obtain new where n: "pm_session_guids (fold (coalesce_player r) (mr_session_guids r) pm) = pm_session_guids pm @ new"
    "length new \<le> length (mr_session_guids r)" using f by blast
  have "pm_queue_id pm = qid" "pm_access_mode pm = OpenAccess"
    "0 < pm_cap pm \<longrightarrow> length (pm_session_guids pm) + length (mr_session_guids r) \<le> unat (pm_cap pm)"
    using assms(2) by (auto simp: coalesces_def)
  then show ?thesis using f n unfolding pending_grows_def by (intro conjI exI [of _ new]) auto
qed
lemma commit_pendings:
  assumes "commit ev qid cfg el r w = Some (again, w')" "pendings_ok w" "result_ok el r"
  shows "pendings_ok w' \<and> pendings_grow qid w w' \<and> (\<exists>new. w_out w' = w_out w @ new) \<and>
    w_has_callback w' = w_has_callback w \<and>
    length (live_ports (w_registry w')) \<le> length (live_ports (w_registry w)) + 1"
  using assms(1)
proof (cases rule: commit_cases)
  case (coalesce iid pm)
  have pm: "map_of (w_pending w) iid = Some pm" "pending_ok pm"
    using assms(2) coalesce(2) by (auto simp: pendings_ok_def umap_find_in_set)
  note g = coalesce_grows [OF pm(2) coalesce(1)] and f = fold_coalesce [OF pm(2), of r "mr_session_guids r"]
  have "pendings_ok w'" using assms(2) f pm(1) coalesce by (auto simp: pendings_ok_def)
  moreover have "pendings_grow qid w w'" using g pm(1) coalesce by (auto simp: pendings_grow_def)
  ultimately show ?thesis using coalesce by simp
next
  case (spawn wc port)
  let ?i = "rg_next_instance (w_registry w)"
  note e = spawn_match_effect [of ev qid port r wc, unfolded spawn(1-3)]
  have ok: "pending_ok (spawned ev qid port r wc)"
    using assms(3) by (simp add: pending_ok_def spawned_def pending_of_def result_ok_def)
  have fresh: "map_of (w_pending w) i = Some pm \<Longrightarrow> i < ?i \<and> pending_ok pm" for i pm
    using assms(2) by (simp add: pendings_ok_def)
  have wf: "umap_wf (w_pending w')" using assms(2) spawn e by (simp add: pendings_ok_def)
  have look: "map_of (w_pending w') i = (if i = ?i then
      (if ev_spawn_pid ev ?i < 0 then None else Some (spawned ev qid port r wc)) else map_of (w_pending w) i)" for i
    using spawn(5) e by simp
  have reg: "rg_next_instance (w_registry w') = ?i + 1" using e(1) spawn(5) by simp
  have each: "i < rg_next_instance (w_registry w') \<and> pending_ok pm" if "map_of (w_pending w') i = Some pm" for i pm
  proof (cases "i = ?i")
    case True
    then show ?thesis using that ok reg unfolding look by (auto split: if_splits)
  next
    case False
    then show ?thesis using that fresh [of i pm] reg unfolding look by simp
  qed
  have "pendings_ok w'" unfolding pendings_ok_def using wf each by blast
  moreover have "pendings_grow qid w w'"
    unfolding pendings_grow_def
  proof (intro allI impI)
    fix i pm assume pm: "map_of (w_pending w) i = Some pm"
    then have "i \<noteq> ?i" using fresh by fastforce
    then show "\<exists>pm'. map_of (w_pending w') i = Some pm' \<and> pending_grows qid pm pm'"
      using pm by (simp add: look)
  qed
  moreover have "w_has_callback w' = w_has_callback w" using spawn by simp
  ultimately show ?thesis using spawn(5) e by auto
qed (use assms(2) in \<open>simp_all add: pendings_ok_def pendings_grow_same\<close>)

text \<open>What a player can observe of its fate: a seat in a pending match, or a message.\<close>

fun addressed :: "guid \<Rightarrow> Effect \<Rightarrow> bool" where
  "addressed g (DeliverMatchInvitation g' i gm tf) = (g' = g)"
| "addressed g (DeliverMatchCancelled g' reason) = (g' = g)"
| "addressed g (SpawnInstance i m gm port d) = False"

definition told :: "u32 \<Rightarrow> guid \<Rightarrow> World \<Rightarrow> World \<Rightarrow> bool" where
  "told qid g w w' \<longleftrightarrow>
     (\<exists>i pm. map_of (w_pending w') i = Some pm \<and> pm_queue_id pm = qid \<and> g \<in> set (pm_session_guids pm)) \<or>
     list_ex (addressed g) (drop (length (w_out w)) (w_out w'))"

lemma told_pending:
  "map_of (w_pending w') i = Some pm \<Longrightarrow> pm_queue_id pm = qid \<Longrightarrow> g \<in> set (pm_session_guids pm) \<Longrightarrow> told qid g w w'"
  unfolding told_def by blast

lemma told_later:
  assumes "told qid g w w1" "pendings_grow qid w1 w2" "w_out w1 = w_out w @ a" "w_out w2 = w_out w1 @ b"
  shows "told qid g w w2"
proof (cases "list_ex (addressed g) a")
  case True
  then show ?thesis using assms(3,4) by (simp add: told_def)
next
  case False
  then obtain i pm where "map_of (w_pending w1) i = Some pm" "pm_queue_id pm = qid" "g \<in> set (pm_session_guids pm)"
    using assms(1,3) by (auto simp: told_def)
  moreover from pendings_growD [OF assms(2) this(1)] obtain pm' where
    "map_of (w_pending w2) i = Some pm'" "pending_grows qid pm pm'" by blast
  ultimately show ?thesis by (intro told_pending [of w2 i pm']) (auto simp: pending_grows_def)
qed

lemma told_earlier:
  "told qid g w1 w2 \<Longrightarrow> w_out w1 = w_out w @ a \<Longrightarrow> w_out w2 = w_out w1 @ b \<Longrightarrow> told qid g w w2"
  by (auto simp: told_def)

lemma commit_tells:
  assumes "commit ev qid cfg el r w = Some (again, w')" "pendings_ok w" "w_has_callback w"
    and "ev_port_hi ev < 65535" "length (live_ports (w_registry w)) < port_range ev"
    and "g \<in> set (mr_session_guids r)"
  shows "told qid g w w'"
  using assms(1)
proof (cases rule: commit_cases)
  case (coalesce iid pm)
  have pm: "map_of (w_pending w) iid = Some pm" "pending_ok pm"
    using assms(2) coalesce(2) by (auto simp: pendings_ok_def umap_find_in_set)
  note f = fold_coalesce [OF pm(2), of r "mr_session_guids r"]
  have "pm_queue_id pm = qid" using coalesce(1) by (simp add: coalesces_def)
  moreover have "g \<in> set (pm_session_guids (fold (coalesce_player r) (mr_session_guids r) pm))"
    using f assms(6) by blast
  moreover have "pm_queue_id (fold (coalesce_player r) (mr_session_guids r) pm) = pm_queue_id pm" using f by blast
  ultimately show ?thesis using coalesce(3)
    by (intro told_pending [of w' iid "fold (coalesce_player r) (mr_session_guids r) pm"]) simp_all
next
  case (no_port)
  then show ?thesis using no_port_full [OF assms(4) no_port(1)] assms(5) by simp
next
  case (route iid)
  then show ?thesis using assms(6) by (auto simp: told_def invites_def list_ex_iff)
next
  case (spawn wc port)
  note e = spawn_match_effect [of ev qid port r wc, unfolded spawn(1-3)]
  show ?thesis
  proof (cases "ev_spawn_pid ev (rg_next_instance (w_registry w)) < 0")
    case True
    then show ?thesis using e(4) spawn(5) assms(6) by (auto simp: told_def cancels_def list_ex_iff)
  next
    case False
    then show ?thesis using e(3) spawn(5) assms(6)
      by (intro told_pending [of w' "rg_next_instance (w_registry w)" "spawned ev qid port r wc"])
        (simp_all add: spawned_def pending_of_def)
  qed
qed (use assms(3) in simp)
section \<open>TryPop as a whole\<close>

definition pop_state :: "u32 \<Rightarrow> World \<Rightarrow> bool" where
  "pop_state qid w \<longleftrightarrow> pop_ready qid w \<and> pendings_ok w"

definition pop_effect :: "u32 \<Rightarrow> World \<Rightarrow> World \<Rightarrow> bool" where
  "pop_effect qid w w' \<longleftrightarrow> subseq (parties_at qid w') (parties_at qid w) \<and>
     (\<forall>k. k \<noteq> qid \<longrightarrow> map_of (w_queues w') k = map_of (w_queues w) k) \<and>
     GetQueueConfig qid w' = GetQueueConfig qid w \<and>
     pendings_grow qid w w' \<and> (\<exists>new. w_out w' = w_out w @ new)"

text \<open>The callback is installed, and there is a port for every waiting party.\<close>

definition port_state :: "Env \<Rightarrow> u32 \<Rightarrow> World \<Rightarrow> bool" where
  "port_state ev qid w \<longleftrightarrow> w_has_callback w \<and>
     length (live_ports (w_registry w)) + length (parties_at qid w) \<le> port_range ev"

definition tells :: "u32 \<Rightarrow> World \<Rightarrow> World \<Rightarrow> bool" where
  "tells qid w w' \<longleftrightarrow> (\<forall>p g. p \<in> set (parties_at qid w) \<longrightarrow> p \<notin> set (parties_at qid w') \<longrightarrow>
     g \<in> set (member_guids p) \<longrightarrow> told qid g w w')"

lemma pop_effect_trans: "pop_effect q a b \<Longrightarrow> pop_effect q b c \<Longrightarrow> pop_effect q a c"
  unfolding pop_effect_def
  by (metis append_assoc pendings_grow_trans subseq_order.order_trans)

lemma tells_trans:
  assumes "pop_effect q a b" "tells q a b" "pop_effect q b c" "tells q b c"
  shows "tells q a c"
  unfolding tells_def
proof (intro allI impI)
  fix p g assume p: "p \<in> set (parties_at q a)" "p \<notin> set (parties_at q c)" "g \<in> set (member_guids p)"
  obtain x y where out: "w_out b = w_out a @ x" "w_out c = w_out b @ y" and grow: "pendings_grow q b c"
    using assms(1,3) by (auto simp: pop_effect_def)
  show "told q g a c"
  proof (cases "p \<in> set (parties_at q b)")
    case True
    then have "told q g b c" using assms(4) p by (simp add: tells_def)
    then show ?thesis by (rule told_earlier [OF _ out])
  next
    case False
    then have "told q g a b" using assms(2) p by (simp add: tells_def)
    then show ?thesis by (rule told_later [OF _ grow out])
  qed
qed

lemma pop_once_effect:
  assumes "pop_once ev qid d w = Some (again, w')" "pop_state qid w"
  shows "pop_state qid w' \<and> pop_effect qid w w'"
proof -
  have rdy: "pop_ready qid w" and ok: "pendings_ok w" using assms(2) by (simp_all add: pop_state_def)
  obtain q where q: "map_of (w_queues w) qid = Some q" "queue_ok (qu_parties q)"
    using rdy by (auto simp: pop_ready_def)
  note parties = pop_once_parties [OF assms(1) rdy]
  have "pendings_ok w' \<and> pendings_grow qid w w' \<and> (\<exists>new. w_out w' = w_out w @ new)"
    using assms(1) q
  proof (cases rule: pop_once_cases)
    case idle
    then show ?thesis using ok by (simp add: pendings_ok_def pendings_grow_same)
  next
    case (pop el f r wc)
    have okc: "pendings_ok wc" using ok pop(5,6) by (simp add: pendings_ok_def)
    show ?thesis using commit_pendings [OF pop(9) okc pop(2)] pop(5,7) by (simp add: pendings_grow_def)
  qed
  then show ?thesis using parties by (simp add: pop_state_def pop_effect_def)
qed

lemma pop_once_tells:
  assumes "pop_once ev qid d w = Some (again, w')" "pop_state qid w" "port_state ev qid w" "ev_port_hi ev < 65535"
  shows "port_state ev qid w' \<and> tells qid w w'"
proof -
  have rdy: "pop_ready qid w" and ok: "pendings_ok w" using assms(2) by (simp_all add: pop_state_def)
  obtain q where q: "map_of (w_queues w) qid = Some q" "queue_ok (qu_parties q)"
    using rdy by (auto simp: pop_ready_def)
  have at: "parties_at qid w = qu_parties q" using q by (simp add: parties_at_def)
  show ?thesis
    using assms(1) q
  proof (cases rule: pop_once_cases)
    case idle
    then show ?thesis using same_queues_parties [OF idle(2) rdy] assms(3) by (simp add: port_state_def tells_def)
  next
    case (pop el f r wc)
    have okc: "pendings_ok wc" using ok pop(5,6) by (simp add: pendings_ok_def)
    note c = commit_pendings [OF pop(9) okc pop(2)]
    obtain qc where qc: "map_of (w_queues wc) qid = Some qc" "qu_parties qc = qu_parties q"
      using pop(4) q(1) by (auto simp: same_queues_def)
    have rem: "parties_at qid w' = remaining r (qu_parties q)"
      using commit_queues [OF pop(9) qc(1)] qc(2) by (simp add: parties_at_def)
    have less: "length (remaining r (qu_parties q)) < length (qu_parties q)"
      by (rule remaining_less [OF pop(2,1) q(2)])
    have "port_state ev qid w'" using c less rem assms(3) pop(6,8) at by (auto simp: port_state_def)
    moreover have "tells qid w w'"
      unfolding tells_def at rem
    proof (intro allI impI)
      fix p g assume "p \<in> set (qu_parties q)" "p \<notin> set (remaining r (qu_parties q))" "g \<in> set (member_guids p)"
      from consumed_members [OF pop(2,1) q(2) this] have "g \<in> set (mr_session_guids r)" .
      then have "told qid g wc w'"
        by (intro commit_tells [OF pop(9) okc _ assms(4)]) (use assms(3) pop(6,8) at less in \<open>auto simp: port_state_def\<close>)
      then show "told qid g w w'" using pop(7) by (simp add: told_def)
    qed
    ultimately show ?thesis by blast
  qed
qed

lemma TryPop_effect:
  "TryPop n ev qid d w = Some w' \<Longrightarrow> pop_state qid w \<Longrightarrow> pop_state qid w' \<and> pop_effect qid w w'"
  by (rule TryPop_rel [where I = "pop_state qid" and R = "pop_effect qid"])
    (auto dest: pop_once_effect intro: pop_effect_trans)

lemma TryPop_tells:
  assumes "TryPop n ev qid d w = Some w'" "pop_state qid w" "port_state ev qid w" "ev_port_hi ev < 65535"
  shows "tells qid w w'"
proof -
  have "(pop_state qid w' \<and> port_state ev qid w') \<and> (pop_effect qid w w' \<and> tells qid w w')"
  proof (rule TryPop_rel [where I = "\<lambda>w. pop_state qid w \<and> port_state ev qid w"
        and R = "\<lambda>w w'. pop_effect qid w w' \<and> tells qid w w'", OF assms(1)])
    fix w b w' assume "pop_state qid w \<and> port_state ev qid w" "pop_once ev qid d w = Some (b, w')"
    then show "(pop_state qid w' \<and> port_state ev qid w') \<and> pop_effect qid w w' \<and> tells qid w w'"
      using pop_once_effect pop_once_tells assms(4) by blast
  qed (use assms(2,3) in \<open>auto intro: pop_effect_trans tells_trans\<close>)
  then show ?thesis by blast
qed
section \<open>A small service\<close>

definition ex_entry :: MapModeEntry where
  "ex_entry = \<lparr>me_map_name = ''Frostbite'', me_game_mode = ''Merc'', me_weight = 1,
     me_min_players = None, me_max_players = None, me_dlc_id = None\<rparr>"

definition ex_env :: Env where
  "ex_env = \<lparr>ev_verified = \<lambda>_. True, ev_session_user = \<lambda>_. Some 1, ev_rating = \<lambda>_ _. 1000,
     ev_dlcs = \<lambda>_. [], ev_characters = \<lambda>_. None, ev_bonus_lives = \<lambda>_. None, ev_steady_now = 0,
     ev_time = 100, ev_roll = \<lambda>_. 0, ev_spawn_pid = \<lambda>_. 42, ev_port_lo = 9000, ev_port_hi = 9009\<rparr>"

definition ex_queue :: Queue where
  "ex_queue = \<lparr>qu_config = ex_cfg\<lparr>qc_map_pool := [ex_entry], qc_fairness_scope := [],
       qc_late_join_policy := OpenLateJoin\<rparr>,
     qu_parties = [ex_solo_party 1 ''a'' 680 1500 0 3, ex_solo_party 3 ''c'' 680 1400 0 1],
     qu_delayed_pop = None, qu_recent_maps = []\<rparr>"

definition ex_world :: World where
  "ex_world = \<lparr>w_queues = [(1, ex_queue)], w_pending = [], w_ready = [], w_pre_assigned = [],
     w_fairness = \<lparr>fn_table = empty_table, fn_index = []\<rparr>, w_credited = [], w_has_callback = True,
     w_has_provider = True, w_has_io = True, w_next_timer = 0, w_draws = 0,
     w_registry = empty_registry, w_out = []\<rparr>"

text \<open>The same service when the only port of the range is taken.\<close>

definition ex_full_env :: Env where
  "ex_full_env = ex_env\<lparr>ev_port_hi := 9000\<rparr>"

definition ex_full_world :: World where
  "ex_full_world = ex_world\<lparr>w_registry := ex_starting 0 9000 empty_registry\<rparr>"

definition pop_view :: "World \<Rightarrow> Effect list \<times> (int \<times> guid list) list \<times> u64 list" where
  "pop_view w = (w_out w, map (\<lambda>(i, pm). (i, pm_session_guids pm)) (w_pending w), map pt_party_id (parties_at 1 w))"

lemma ex_pop:
  "map_option pop_view (TryPop 3 ex_env 1 False ex_world) =
     Some ([SpawnInstance 1 ''Frostbite'' ''Merc'' 9000 DefaultDifficulty], [(1, [''c'', ''a''])], [])"
  by code_simp

lemma ex_pop_full: "map_option pop_view (TryPop 3 ex_full_env 1 False ex_full_world) = Some ([], [], [])"
  by code_simp
text \<open>A pending match of the queue with a free seat: its instance has started.\<close>

definition ex_open_pending :: PendingMatch where
  "ex_open_pending = empty_pending\<lparr>pm_instance_id := 1, pm_queue_id := 1, pm_session_guids := [''z''],
     pm_task_force_assignments := [(''z'', 1)], pm_cap := 4\<rparr>"

definition ex_open_world :: World where
  "ex_open_world = ex_full_world\<lparr>w_pending := [(1, ex_open_pending)]\<rparr>"

lemma ex_pop_open: "map_option pop_view (TryPop 3 ex_env 1 False ex_open_world) =
     Some ([], [(1, [''z'', ''c'', ''a''])], [])"
  by code_simp

lemma ex_queue_ok: "queue_ok (qu_parties ex_queue)"
  by (simp add: queue_ok_def ex_queue_def ex_solo_party_def ex_member_def)

lemma ex_pop_ready: "pop_ready 1 ex_world" "pop_ready 1 ex_open_world"
  using ex_queue_ok by (simp_all add: pop_ready_def ex_world_def ex_open_world_def ex_full_world_def)

lemma ex_parties: "length (parties_at 1 ex_world) = 2"
  by (simp add: parties_at_def ex_world_def ex_queue_def)

lemma ex_open_state: "pop_state 1 ex_open_world"
  using ex_pop_ready by (simp add: pop_state_def pendings_ok_def pending_ok_def umap_wf_def ex_open_world_def
      ex_full_world_def ex_open_pending_def ex_starting_def InsertStarting_other empty_registry_def)

lemma ex_pop_state: "pop_state 1 ex_world" "port_state ex_env 1 ex_world"
  using ex_pop_ready ex_parties
  by (simp_all add: pop_state_def port_state_def pendings_ok_def ex_world_def port_range_def ex_env_def
      live_ports_def empty_registry_def)

section \<open>Properties\<close>

text \<open>
  C20. \<open>TryPop\<close> returns. It calls itself after each pop, and every pop consumes a party, so
  more calls than there are waiting parties are enough, whatever the rule, the instances and
  the random draws; and the result does not depend on how much fuel is left. The hypothesis
  on the port range keeps the port scan of the handler from wrapping around.
\<close>

theorem try_pop_returns:
  assumes "ev_port_hi ev < 65535" "pop_ready qid w" "length (parties_at qid w) < n"
  shows "\<exists>w'. \<forall>m. n \<le> m \<longrightarrow> TryPop m ev qid d w = Some w'"
  using TryPop_returns [OF assms] TryPop_fuel by blast

theorem try_pop_returns_witness:
  "\<exists>w'. TryPop 3 ex_env 1 False ex_world = Some w' \<and> TryPop 3000 ex_env 1 False ex_world = Some w'"
proof -
  have "ev_port_hi ex_env < 65535" "length (parties_at 1 ex_world) < 3"
    using ex_parties by (simp_all add: ex_env_def)
  from try_pop_returns [OF this(1) ex_pop_ready(1) this(2), of False] obtain w' where
    w: "\<And>m. 3 \<le> m \<Longrightarrow> TryPop m ex_env 1 False ex_world = Some w'" by blast
  show ?thesis by (intro exI [of _ w'] conjI w) simp_all
qed

text \<open>
  \<open>TryPop\<close> only takes parties out of its own queue: what is left is a subsequence of
  what was waiting, in the same order; the configuration of the queue and every other queue
  are untouched; and the queue stays well formed (distinct party ids, no player twice, no
  empty party).
\<close>

theorem try_pop_only_removes:
  assumes "TryPop n ev qid d w = Some w'" "pop_state qid w"
  shows "subseq (parties_at qid w') (parties_at qid w) \<and> queue_ok (parties_at qid w') \<and>
    (\<forall>k. k \<noteq> qid \<longrightarrow> map_of (w_queues w') k = map_of (w_queues w) k) \<and>
    GetQueueConfig qid w' = GetQueueConfig qid w"
  using TryPop_effect [OF assms] by (auto simp: pop_state_def pop_effect_def pop_ready_def parties_at_def)

theorem try_pop_only_removes_witness:
  "\<exists>w'. TryPop 3 ex_env 1 False ex_world = Some w' \<and> subseq (parties_at 1 w') (parties_at 1 ex_world) \<and>
     parties_at 1 w' = []"
proof -
  obtain w' where w: "TryPop 3 ex_env 1 False ex_world = Some w'" "pop_view w' =
      ([SpawnInstance 1 ''Frostbite'' ''Merc'' 9000 DefaultDifficulty], [(1, [''c'', ''a''])], [])"
    using ex_pop by (auto simp del: TryPop.simps)
  then show ?thesis using try_pop_only_removes [OF w(1) ex_pop_state(1)] by (auto simp: pop_view_def)
qed

text \<open>
  C19. A pop never damages a match that is still waiting for its server. Every pending match
  keeps its instance, queue, map, cap, access and all its players in order; it gains players
  only if it is open and of the popped queue, and never past its cap; and the pending matches
  stay consistent (one per id, ids already handed out, a side for exactly the players listed).
\<close>

theorem pending_matches_only_grow:
  assumes "TryPop n ev qid d w = Some w'" "pop_state qid w"
  shows "pendings_ok w' \<and> pendings_grow qid w w'"
  using TryPop_effect [OF assms] by (simp add: pop_state_def pop_effect_def)

theorem pending_matches_only_grow_witness:
  "\<exists>w' pm. TryPop 3 ex_env 1 False ex_open_world = Some w' \<and> map_of (w_pending w') 1 = Some pm \<and>
     pm_session_guids pm = [''z'', ''c'', ''a''] \<and> pm_cap pm = 4"
proof -
  obtain w' where w: "TryPop 3 ex_env 1 False ex_open_world = Some w'" "pop_view w' = ([], [(1, [''z'', ''c'', ''a''])], [])"
    using ex_pop_open by (auto simp del: TryPop.simps)
  have "map_of (w_pending ex_open_world) 1 = Some ex_open_pending" by (simp add: ex_open_world_def)
  then obtain pm where pm: "map_of (w_pending w') 1 = Some pm" "pending_grows 1 ex_open_pending pm"
    using pending_matches_only_grow [OF w(1) ex_open_state] pendings_growD by blast
  then have "w_pending w' = [(1, pm)]" "pm_session_guids pm = [''z'', ''c'', ''a'']"
    using w(2) by (auto simp: pop_view_def split: prod.splits)
  then show ?thesis using w(1) pm by (auto simp: pending_grows_def ex_open_pending_def)
qed

text \<open>
  C2. Nobody is lost: with the match-pop callback installed and a free port for every
  waiting party, each member of each party that leaves the queue either sits in a pending
  match of this queue when \<open>TryPop\<close> returns, or has been sent an invitation to a running
  instance, or has been sent a cancellation because the server could not be started.
\<close>

theorem try_pop_loses_nobody:
  assumes "TryPop n ev qid d w = Some w'" "pop_state qid w" "port_state ev qid w" "ev_port_hi ev < 65535"
    and "p \<in> set (parties_at qid w)" "p \<notin> set (parties_at qid w')" "g \<in> set (member_guids p)"
  shows "told qid g w w'"
  using TryPop_tells [OF assms(1-4)] assms(5-7) by (simp add: tells_def)

theorem try_pop_loses_nobody_witness:
  "\<exists>w'. TryPop 3 ex_env 1 False ex_world = Some w' \<and> told 1 ''a'' ex_world w'"
proof -
  obtain w' where w: "TryPop 3 ex_env 1 False ex_world = Some w'" "parties_at 1 w' = []"
    using ex_pop by (auto simp: pop_view_def simp del: TryPop.simps)
  have "ev_port_hi ex_env < 65535" "ex_solo_party 1 ''a'' 680 1500 0 3 \<in> set (parties_at 1 ex_world)"
    "''a'' \<in> set (member_guids (ex_solo_party 1 ''a'' 680 1500 0 3))"
    by (simp_all add: ex_env_def parties_at_def ex_world_def ex_queue_def ex_solo_party_def ex_member_def)
  then show ?thesis using try_pop_loses_nobody [OF w(1) ex_pop_state] w by auto
qed

definition ex_solo_result :: MatchResult where
  "ex_solo_result = empty_result\<lparr>mr_consumed_party_ids := [1, 3], mr_session_guids := [''a'', ''c'']\<rparr>"


end
