(* ===== verification/MatchmakingBooks.thy ===== *)
theory MatchmakingBooks
  imports PopGuarantees
begin

text \<open>
  What the books of \<open>MatchmakingService\<close> guarantee on their own: the owner list survives its
  trip through the instance row, a player is credited once per instance, a pre-assigned side
  is handed out once, the reservations of a ready instance count every reserved player on
  exactly one side, the pop delay halves down to its floor, and a map is picked from the pool
  by its player window.
\<close>

section \<open>Decimal numbers\<close>

lemma is_digit_char [simp]: "n < 10 \<Longrightarrow> is_digit (char_of (48 + n))" for n :: nat
  by (simp add: is_digit_def)

lemma to_string_digits: "to_string n \<noteq> [] \<and> list_all is_digit (to_string n)"
proof (induction n rule: to_string.induct)
  case (1 n)
  then show ?case by (subst (1 2) to_string.simps) auto
qed

lemma fold_digits_append:
  "digits_value (s @ [char_of (48 + d)]) = digits_value s * 10 + d" if "d < 10" for d :: nat
  using that by (simp add: digits_value_def)

lemma digits_value_to_string: "digits_value (to_string n) = n"
proof (induction n rule: to_string.induct)
  case (1 n)
  show ?case
  proof (cases "n < 10")
    case True
    then show ?thesis by (subst to_string.simps) (simp add: digits_value_def)
  next
    case False
    then show ?thesis using 1 fold_digits_append [of "n mod 10" "to_string (n div 10)"]
      by (subst to_string.simps) simp
  qed
qed

lemma digit_plain: "is_digit c \<Longrightarrow> \<not> isspace c \<and> c \<noteq> CHR ''-'' \<and> c \<noteq> CHR ''+'' \<and> c \<noteq> CHR '',''"
  by (auto simp: is_digit_def isspace_def)

lemma strtoull_to_string: "strtoull (to_string (unat x)) = x"
proof -
  let ?s = "to_string (unat x)"
  have d: "list_all is_digit ?s" and ne: "?s \<noteq> []" using to_string_digits by blast+
  obtain c cs where s: "?s = c # cs" using ne by (cases ?s) auto
  then have c: "\<not> isspace c" "c \<noteq> CHR ''-''" "c \<noteq> CHR ''+''" using d digit_plain by auto
  have all: "takeWhile is_digit ?s = ?s" using d by (simp add: list_all_iff)
  have drop: "dropWhile isspace ?s = ?s" using s c by simp
  have v: "digits_value (takeWhile is_digit ?s) = unat x" by (simp add: all digits_value_to_string)
  have lt: "unat x < 2 ^ 64" using unsigned_less [of x] by simp
  have h: "hd ?s \<noteq> CHR ''-''" "hd ?s \<noteq> CHR ''+''" using s c by simp_all
  show ?thesis
    unfolding strtoull_def drop Let_def
    using h v lt by simp
qed

section \<open>The owner list of an instance row\<close>

lemma parse_token:
  assumes "list_all is_digit tok" "tok \<noteq> []"
  shows "parse_owner_csv tok = [strtoull tok]"
    and "parse_owner_csv (tok @ CHR '','' # rest) = strtoull tok # parse_owner_csv rest"
proof -
  have nc: "\<forall>c \<in> set tok. c \<noteq> CHR '',''" using assms(1) digit_plain by (auto simp: list_all_iff)
  then have t: "takeWhile (\<lambda>c. c \<noteq> CHR '','') tok = tok" "dropWhile (\<lambda>c. c \<noteq> CHR '','') tok = []"
    by (simp_all add: takeWhile_eq_all_conv dropWhile_eq_Nil_conv)
  show "parse_owner_csv tok = [strtoull tok]"
    by (subst parse_owner_csv.simps) (simp add: t assms(2) Let_def parse_owner_csv.simps [of "[]"])
  have u: "takeWhile (\<lambda>c. c \<noteq> CHR '','') (tok @ CHR '','' # rest) = tok"
    "dropWhile (\<lambda>c. c \<noteq> CHR '','') (tok @ CHR '','' # rest) = CHR '','' # rest"
    using nc by (simp_all add: takeWhile_append dropWhile_append3)
  show "parse_owner_csv (tok @ CHR '','' # rest) = strtoull tok # parse_owner_csv rest"
    by (subst parse_owner_csv.simps) (simp only: u Let_def list.sel, simp add: assms(2))
qed

text \<open>
  The owner list of a private match survives the instance table: parsing the
  comma-separated decimal list written at spawn gives back the same 64-bit party ids in the
  same order, including ids with the top bit set.
\<close>

theorem owner_list_roundtrip: "parse_owner_csv (owner_csv ids) = ids"
proof (induction ids rule: owner_csv.induct)
  case 1
  show ?case by (simp add: parse_owner_csv.simps)
next
  case (2 x)
  show ?case using parse_token(1) [of "to_string (unat x)"] to_string_digits by (simp add: strtoull_to_string)
next
  case (3 x y xs)
  then show ?case using parse_token(2) [of "to_string (unat x)"] to_string_digits by (simp add: strtoull_to_string)
qed

section \<open>Credit\<close>

lemma credit_player_fst:
  "set (fst (credit_player ev scope q iid tf pr g st)) = insert g (set (fst st))"
  by (cases st) (auto simp: credit_player_def)

lemma credit_fold_set:
  "set (fst (fold (credit_player ev scope q iid tf pr) gs st)) = set (fst st) \<union> set gs"
  by (induction gs arbitrary: st) (auto simp: credit_player_fst)

lemma credit_fold_known:
  "set gs \<subseteq> set (fst st) \<Longrightarrow> fold (credit_player ev scope q iid tf pr) gs st = st"
proof (induction gs arbitrary: st)
  case (Cons g gs)
  have "credit_player ev scope q iid tf pr g st = st"
    using Cons.prems by (cases st) (simp add: credit_player_def)
  then show ?case using Cons by simp
qed simp

lemma umap_put_same: "map_of m k = Some v \<Longrightarrow> umap_put k v m = m"
  by (induction m) auto

text \<open>
  A player is credited with a match at most once per instance: recording the entry of
  players who were already recorded for that instance, with whatever sides, classes and time
  the second call carries, changes nothing at all.
\<close>

theorem entry_credited_once:
  assumes "set gs' \<subseteq> set gs"
  shows "RecordMatchEntry ev' iid q gs' tf' pr' (RecordMatchEntry ev iid q gs tf pr w)
       = RecordMatchEntry ev iid q gs tf pr w"
proof (cases "iid = 0 \<or> gs = [] \<or> map_of (w_queues w) q = None")
  case True
  then show ?thesis using assms by (auto simp: RecordMatchEntry_def)
next
  case False
  then obtain qu where q: "map_of (w_queues w) q = Some qu" by auto
  define s where "s = qc_fairness_scope (qu_config qu)"
  show ?thesis
  proof (cases "s = []")
    case True
    then have "RecordMatchEntry ev iid q gs tf pr w = w" "RecordMatchEntry ev' iid q gs' tf' pr' w = w"
      using q by (simp_all add: RecordMatchEntry_def s_def)
    then show ?thesis by simp
  next
    case scope: False
    obtain c f where f: "fold (credit_player ev s q iid tf pr) gs (umap_get [] (w_credited w) iid, w_fairness w) = (c, f)"
      by force
    have "set gs' \<subseteq> set c"
      using credit_fold_set [of ev s q iid tf pr gs "(umap_get [] (w_credited w) iid, w_fairness w)"] f assms by auto
    then have again: "fold (credit_player ev' s q iid tf' pr') gs' (c, f) = (c, f)"
      by (intro credit_fold_known) simp
    have first: "RecordMatchEntry ev iid q gs tf pr w = w\<lparr>w_credited := umap_put iid c (w_credited w), w_fairness := f\<rparr>"
      using False q scope f by (simp add: RecordMatchEntry_def s_def)
    show ?thesis
      unfolding first using q scope again
      by (simp add: RecordMatchEntry_def s_def [symmetric] umap_get_def umap_put_same)
  qed
qed

theorem entry_credited_once_witness:
  "RecordMatchEntry ex_env 7 1 [''a''] [] [] (RecordMatchEntry ex_env 7 1 [''b'', ''a''] [] [] ex_world)
     = RecordMatchEntry ex_env 7 1 [''b'', ''a''] [] [] ex_world"
  by (rule entry_credited_once) simp

section \<open>Pre-assigned sides\<close>

definition pre_side :: "World \<Rightarrow> int \<Rightarrow> guid \<Rightarrow> int option" where
  "pre_side w iid g = map_of (umap_get [] (w_pre_assigned w) iid) g"

lemma erase_empty: "umap_erase g t = [] \<Longrightarrow> g' \<noteq> g \<Longrightarrow> map_of t g' = None"
  by (metis map_of.simps(1) umap_find_erase)

lemma pre_side_set: "pre_side (SetPreAssignedTeam iid g tf w) iid' g' = (if (iid', g') = (iid, g) then Some tf else pre_side w iid' g')"
  by (simp add: pre_side_def SetPreAssignedTeam_def)

lemma pre_side_consume: "fst (ConsumePreAssignedTeam iid g w) = pre_side w iid g"
  by (simp add: pre_side_def ConsumePreAssignedTeam_def umap_get_def Let_def split: option.split)

lemma pre_side_consumed:
  "pre_side (snd (ConsumePreAssignedTeam iid g w)) iid' g' = (if (iid', g') = (iid, g) then None else pre_side w iid' g')"
  using erase_empty [of g "umap_get [] (w_pre_assigned w) iid" g']
  by (auto simp: pre_side_def ConsumePreAssignedTeam_def umap_get_def Let_def split: option.split)

text \<open>
  A pre-assigned side is handed out exactly once: after it is set, the first consumption
  returns it, the second returns nothing, and other players of the instance and other
  instances keep theirs.
\<close>

theorem pre_assigned_once:
  "fst (ConsumePreAssignedTeam iid g (SetPreAssignedTeam iid g tf w)) = Some tf \<and>
   fst (ConsumePreAssignedTeam iid g (snd (ConsumePreAssignedTeam iid g (SetPreAssignedTeam iid g tf w)))) = None \<and>
   ((iid', g') \<noteq> (iid, g) \<longrightarrow>
      fst (ConsumePreAssignedTeam iid' g' (snd (ConsumePreAssignedTeam iid g (SetPreAssignedTeam iid g tf w))))
      = fst (ConsumePreAssignedTeam iid' g' w))"
  by (simp only: pre_side_consume pre_side_consumed pre_side_set if_True refl) simp

theorem pre_assigned_once_witness:
  "fst (ConsumePreAssignedTeam 7 ''b'' (snd (ConsumePreAssignedTeam 7 ''a'' (SetPreAssignedTeam 7 ''a'' 2
     (SetPreAssignedTeam 7 ''b'' 1 w))))) = Some 1"
  using pre_assigned_once [of 7 "''a''" 2 "SetPreAssignedTeam 7 ''b'' 1 w" 7 "''b''"]
  by (simp add: pre_side_consume pre_side_set)
section \<open>Reservations\<close>

definition seats_ok :: "PendingMatch \<Rightarrow> bool" where
  "seats_ok pm \<longleftrightarrow> umap_wf (pm_task_force_assignments pm) \<and> distinct (pm_session_guids pm) \<and>
     fst ` set (pm_task_force_assignments pm) = set (pm_session_guids pm)"

definition ready_ok :: "World \<Rightarrow> bool" where
  "ready_ok w \<longleftrightarrow> (\<forall>e \<in> set (w_ready w). seats_ok (snd e))"

lemma seats_empty [simp]: "seats_ok empty_pending"
  by (simp add: seats_ok_def empty_pending_def)

lemma seats_open [simp]: "seats_ok (open_reservation i q gm c w pm) = seats_ok pm"
  by (simp add: open_reservation_def seats_ok_def Let_def)

lemma seats_reserve: "seats_ok pm \<Longrightarrow> seats_ok (reserve_player tf pr mm g pm)"
  by (auto simp: seats_ok_def reserve_player_def)

lemma seats_reserve_all: "seats_ok pm \<Longrightarrow> seats_ok (fold (reserve_player tf pr mm) gs pm)"
  by (rule fold_inv) (auto intro: seats_reserve)

lemma keys_erase: "fst ` set (umap_erase k m) = fst ` set m - {k}"
  by (induction m) (auto simp: AList.delete_eq)

lemma seats_drop:
  assumes "seats_ok pm"
  shows "seats_ok (drop_guid g pm)"
proof -
  have "set (remove_first (\<lambda>x. x = g) (pm_session_guids pm)) = set (pm_session_guids pm) - {g}"
    using assms by (auto simp: seats_ok_def set_remove_first_distinct)
  then show ?thesis using assms by (simp add: seats_ok_def drop_guid_def keys_erase)
qed

lemma ball_put: "\<forall>e \<in> set m. P (snd e) \<Longrightarrow> P v \<Longrightarrow> \<forall>e \<in> set (umap_put k v m). P (snd e)"
  by (induction m) auto

lemma ball_erase: "\<forall>e \<in> set m. P (snd e) \<Longrightarrow> \<forall>e \<in> set (umap_erase k m). P (snd e)"
  by (simp add: AList.delete_eq)

lemma ready_find: "ready_ok w \<Longrightarrow> map_of (w_ready w) i = Some pm \<Longrightarrow> seats_ok pm"
  unfolding ready_ok_def by (metis map_of_SomeD snd_conv)

lemma ready_get: "ready_ok w \<Longrightarrow> seats_ok (umap_get empty_pending (w_ready w) i)"
  by (auto simp: umap_get_def ready_find split: option.split)

lemma ready_put: "ready_ok w \<Longrightarrow> seats_ok pm \<Longrightarrow> ready_ok (w\<lparr>w_ready := umap_put i pm (w_ready w)\<rparr>)"
  unfolding ready_ok_def by (simp add: ball_put)

lemma ready_erase: "ready_ok w \<Longrightarrow> ready_ok (w\<lparr>w_ready := umap_erase i (w_ready w)\<rparr>)"
  unfolding ready_ok_def by (simp add: ball_erase)

lemma track_ready_ok:
  assumes "ready_ok w"
  shows "ready_ok (TrackReadyMatchReservations ev i q gm gs tf pr mm c w)"
proof -
  let ?w = "RecordMatchEntry ev i q gs tf pr w"
  have w: "ready_ok ?w" using assms by (simp add: ready_ok_def)
  have "ready_ok (?w\<lparr>w_ready := umap_put i (fold (reserve_player tf pr mm) gs
      (open_reservation i q gm c ?w (umap_get empty_pending (w_ready ?w) i))) (w_ready ?w)\<rparr>)"
    by (rule ready_put [OF w]) (simp add: seats_reserve_all ready_get [OF assms])
  then show ?thesis using w assms
    by (simp add: TrackReadyMatchReservations_def Let_def split: option.split)
qed

lemma drop_ready_ok:
  assumes "ready_ok w"
  shows "ready_ok (DropReadyMatchReservations i w)"
  using assms unfolding ready_ok_def DropReadyMatchReservations_def by (simp add: ball_erase)

lemma remove_ready_ok: "ready_ok w \<Longrightarrow> ready_ok (RemoveReadyMatchReservation i g w)"
  unfolding RemoveReadyMatchReservation_def Let_def
  by (auto intro: ready_put ready_erase seats_drop ready_find split: option.split)

definition seed_sizes :: "RunningInstance \<Rightarrow> int" where
  "seed_sizes ri = sd_size (ri_team1 ri) + sd_size (ri_team2 ri)"

lemma seed_sizes_seed: "seed_sizes (seed_instance a tf p m ri) = seed_sizes ri + 1"
  by (simp add: seed_sizes_def seed_instance_def seed_player_def Let_def)

lemma seed_sizes_fold: "seed_sizes (fold (\<lambda>x. seed_instance a (f x) (p x) (m x)) xs ri) = seed_sizes ri + int (length xs)"
  by (induction xs arbitrary: ri) (simp_all add: seed_sizes_seed)

lemma reserved_sizes:
  assumes "seats_ok pm"
  shows "ri_player_count (reserved_instance a inst pm) = seed_sizes (reserved_instance a inst pm)"
proof -
  have "length (pm_task_force_assignments pm) = card (fst ` set (pm_task_force_assignments pm))"
    using assms by (metis distinct_card length_map list.set_map seats_ok_def umap_wf_def)
  also have "\<dots> = length (pm_session_guids pm)" using assms by (simp add: seats_ok_def distinct_card)
  finally have len: "length (pm_task_force_assignments pm) = length (pm_session_guids pm)" .
  have "seed_sizes (reserved_instance a inst pm) = int (length (pm_task_force_assignments pm))"
    using seed_sizes_fold [of a snd "\<lambda>x. umap_get 0 (pm_profile_ids pm) (fst x)"
        "\<lambda>x. umap_get 1000 (pm_mmrs pm) (fst x)" "pm_task_force_assignments pm" "bare_instance inst 0"]
    by (simp add: reserved_instance_def split_def seed_sizes_def bare_instance_def empty_seed_def)
  then show ?thesis using len by (simp add: reserved_instance_def)
qed

definition ex_reserved_world :: World where
  "ex_reserved_world = ex_world\<lparr>w_registry := MarkReady 100 1 16 (ex_starting 0 9000 empty_registry),
     w_ready := [(1, ex_open_pending)]\<rparr>"

lemma ex_reserved: "map ri_player_count (fst (GetReservedReadyInstances 1 ex_reserved_world)) = [1]"
  by code_simp

text \<open>
  Seats of a ready instance are counted exactly: the reservations stay consistent (no
  player twice, one side per player) through every reservation, removal and drop, so that
  each instance offered to the rules from reservations counts every reserved player on
  exactly one of its two sides.
\<close>

theorem reservations_counted:
  assumes "ready_ok w" "ri \<in> set (fst (GetReservedReadyInstances qid w))"
  shows "ready_ok (TrackReadyMatchReservations ev i q gm gs tf pr mm c w) \<and>
    ready_ok (RemoveReadyMatchReservation i g w) \<and> ready_ok (DropReadyMatchReservations i w) \<and>
    ri_player_count ri = sd_size (ri_team1 ri) + sd_size (ri_team2 ri)"
proof -
  obtain a inst i pm where "(i, pm) \<in> set (w_ready w)" "ri = reserved_instance a inst pm"
    using assms(2) by (auto simp: GetReservedReadyInstances_def Let_def split: option.splits if_splits)
  then have "ri_player_count ri = seed_sizes ri" using assms(1) reserved_sizes by (auto simp: ready_ok_def)
  then show ?thesis
    using track_ready_ok drop_ready_ok remove_ready_ok assms(1) by (simp add: seed_sizes_def)
qed

theorem reservations_counted_witness:
  "\<exists>ri. ri \<in> set (fst (GetReservedReadyInstances 1 ex_reserved_world)) \<and> ri_player_count ri = 1 \<and>
     sd_size (ri_team1 ri) + sd_size (ri_team2 ri) = 1"
proof -
  have ok: "ready_ok ex_reserved_world"
    by (simp add: ready_ok_def ex_reserved_world_def seats_ok_def ex_open_pending_def empty_pending_def umap_wf_def)
  obtain ri where ri: "fst (GetReservedReadyInstances 1 ex_reserved_world) = [ri]" "ri_player_count ri = 1"
    using ex_reserved by (auto simp: map_eq_Cons_conv)
  then have mem: "ri \<in> set (fst (GetReservedReadyInstances 1 ex_reserved_world))" by simp
  with reservations_counted [OF ok mem] ri show ?thesis by auto
qed

section \<open>The pop delay\<close>

lemma halve_twice: "0 < x \<Longrightarrow> max (1/2) (max (1/2) (d / (2 * x)) / 2) = max (1/2) (d / (2 * (2 * x)))" for x d :: rat
  by (auto simp: max_def field_simps)

lemma delay_step:
  assumes "qu_delayed_pop q = Some dp" "qc_pop_delay_policy (qu_config q) = HalveOnJoin"
    and "unat (qc_min_players_to_pop (qu_config q)) \<le> QueuedPlayerCount q"
  shows "MaybeResetDelayedPop ev ''join'' q
       = q\<lparr>qu_delayed_pop := Some (rearm ev (max (1/2) (dp_next_duration dp / 2)) dp)\<rparr>"
  using assms by (simp add: MaybeResetDelayedPop_def)

text \<open>
  Under the halving policy the delay of an armed queue after \<open>n + 1\<close> further joins is
  the initial delay halved as often, but never below half a second, and the timer is set
  that far into the future; it is never disarmed while enough players wait.
\<close>

theorem pop_delay_halves:
  assumes "qu_delayed_pop q = Some dp" "qc_pop_delay_policy (qu_config q) = HalveOnJoin"
    and "unat (qc_min_players_to_pop (qu_config q)) \<le> QueuedPlayerCount q"
  shows "\<exists>dp'. qu_delayed_pop ((MaybeResetDelayedPop ev ''join'' ^^ Suc n) q) = Some dp' \<and>
    dp_next_duration dp' = max (1/2) (dp_next_duration dp / 2 ^ Suc n) \<and> dp_timer dp' = dp_timer dp \<and>
    dp_fires_at dp' = ev_steady_now ev + to_ms (dp_next_duration dp') * 1000000"
proof -
  have "\<exists>dp'. (MaybeResetDelayedPop ev ''join'' ^^ Suc n) q = q\<lparr>qu_delayed_pop := Some dp'\<rparr> \<and>
      dp_next_duration dp' = max (1/2) (dp_next_duration dp / 2 ^ Suc n) \<and> dp_timer dp' = dp_timer dp \<and>
      dp_fires_at dp' = ev_steady_now ev + to_ms (dp_next_duration dp') * 1000000"
  proof (induction n)
    case 0
    show ?case by (intro exI [of _ "rearm ev (max (1/2) (dp_next_duration dp / 2)) dp"])
      (simp add: delay_step [OF assms] rearm_def)
  next
    case (Suc n)
    then obtain dp1 where q1: "(MaybeResetDelayedPop ev ''join'' ^^ Suc n) q = q\<lparr>qu_delayed_pop := Some dp1\<rparr>"
      and d: "dp_next_duration dp1 = max (1/2) (dp_next_duration dp / 2 ^ Suc n)" "dp_timer dp1 = dp_timer dp"
      by blast
    let ?q1 = "q\<lparr>qu_delayed_pop := Some dp1\<rparr>"
    have "MaybeResetDelayedPop ev ''join'' ?q1
        = ?q1\<lparr>qu_delayed_pop := Some (rearm ev (max (1/2) (dp_next_duration dp1 / 2)) dp1)\<rparr>"
      by (rule delay_step) (use assms in \<open>simp_all add: QueuedPlayerCount_def\<close>)
    moreover have "max (1/2) (dp_next_duration dp1 / 2) = max (1/2) (dp_next_duration dp / 2 ^ Suc (Suc n))"
      using halve_twice [of "2 ^ n"] by (simp add: d)
    ultimately have "(MaybeResetDelayedPop ev ''join'' ^^ Suc (Suc n)) q = q\<lparr>qu_delayed_pop :=
        Some (rearm ev (max (1/2) (dp_next_duration dp / 2 ^ Suc (Suc n))) dp1)\<rparr>"
      using q1 by simp
    then show ?case using d(2)
      by (intro exI [of _ "rearm ev (max (1/2) (dp_next_duration dp / 2 ^ Suc (Suc n))) dp1"]) (simp add: rearm_def)
  qed
  then show ?thesis by auto
qed
definition ex_armed_queue :: Queue where
  "ex_armed_queue = ex_queue\<lparr>qu_delayed_pop := Some \<lparr>dp_next_duration = 20, dp_timer = 0, dp_fires_at = 0\<rparr>\<rparr>"

theorem pop_delay_halves_witness:
  "\<exists>dp'. qu_delayed_pop ((MaybeResetDelayedPop ex_env ''join'' ^^ Suc 2) ex_armed_queue) = Some dp' \<and>
     dp_next_duration dp' = 5/2 \<and> dp_fires_at dp' = 2500000000"
proof -
  have "qu_delayed_pop ex_armed_queue = Some \<lparr>dp_next_duration = 20, dp_timer = 0, dp_fires_at = 0\<rparr>"
    "qc_pop_delay_policy (qu_config ex_armed_queue) = HalveOnJoin"
    "unat (qc_min_players_to_pop (qu_config ex_armed_queue)) \<le> QueuedPlayerCount ex_armed_queue"
    by (simp_all add: ex_armed_queue_def ex_queue_def ex_cfg_def QueuedPlayerCount_def ex_solo_party_def)
  from pop_delay_halves [OF this, of 2 ex_env] obtain dp' where
    dp: "qu_delayed_pop ((MaybeResetDelayedPop ex_env ''join'' ^^ Suc 2) ex_armed_queue) = Some dp'"
      "dp_next_duration dp' = max (1/2) (20 / 2 ^ Suc 2)"
      "dp_fires_at dp' = ev_steady_now ex_env + to_ms (dp_next_duration dp') * 1000000" by auto
  have "dp_next_duration dp' = 5/2" using dp(2) by simp
  moreover have "dp_fires_at dp' = 2500000000"
    unfolding dp(3) \<open>dp_next_duration dp' = 5/2\<close> by (simp add: to_ms_def ex_env_def)
  ultimately show ?thesis using dp(1) by blast
qed

section \<open>The map of a fresh match\<close>

lemma owned_base_set: "set (owned_base pool sets) \<subseteq> set pool"
  by (auto simp: owned_base_def Let_def split: option.splits if_splits)

lemma nearest_fold:
  assumes "fold (nearest_step players) es (b0, c0) = (b, c)" "\<forall>e \<in> set c0. window_distance players e = b0"
  shows "b \<le> b0 \<and> (\<forall>e \<in> set c. window_distance players e = b) \<and> set c \<subseteq> set c0 \<union> set es \<and>
    (\<forall>e \<in> set es. b \<le> window_distance players e)"
  using assms
proof (induction es arbitrary: b0 c0)
  case (Cons e es)
  obtain b1 c1 where st: "nearest_step players e (b0, c0) = (b1, c1)" by force
  have one: "b1 \<le> b0 \<and> b1 \<le> window_distance players e \<and> (\<forall>x \<in> set c1. window_distance players x = b1) \<and>
      set c1 \<subseteq> insert e (set c0)"
    using st Cons.prems(2) by (auto simp: nearest_step_def Let_def split: if_splits)
  then have "b \<le> b1 \<and> (\<forall>e \<in> set c. window_distance players e = b) \<and> set c \<subseteq> set c1 \<union> set es \<and>
      (\<forall>e \<in> set es. b \<le> window_distance players e)"
    by (intro Cons.IH) (use Cons.prems(1) st in auto)
  then show ?case using one by auto
qed simp

lemma map_candidates_best:
  assumes "e \<in> set (map_candidates players base)"
  shows "e \<in> set base \<and> (window_fits players e \<or>
    (\<forall>e' \<in> set base. \<not> window_fits players e' \<and> window_distance players e \<le> window_distance players e'))"
proof (cases "filter (window_fits players) base = []")
  case False
  then show ?thesis using assms by (auto simp: map_candidates_def)
next
  case True
  obtain b c where f: "fold (nearest_step players) base (int_max, []) = (b, c)" by force
  note n = nearest_fold [OF f]
  have "e \<in> set c" using assms True f by (simp add: map_candidates_def)
  then show ?thesis using n True by (auto simp: filter_empty_conv)
qed

text \<open>
  The map of a fresh match comes from the pool of the queue. Its player window admits the
  head count, unless no candidate's window does; then no candidate's window is nearer. And the
  list of recent maps starts with the picked map and never outgrows the recency divisors.
\<close>

theorem map_pick_in_window:
  assumes "PickRandomMapPoolEntryForCount ev qid players sets w = (Some spec, w')" "map_of (w_queues w) qid = Some q"
  shows "\<exists>e \<in> set (qc_map_pool (qu_config q)). spec = \<lparr>ms_map_name = me_map_name e, ms_game_mode = me_game_mode e\<rparr> \<and>
    (window_fits players e \<or> (\<forall>e' \<in> set (owned_base (qc_map_pool (qu_config q)) sets).
        \<not> window_fits players e' \<and> window_distance players e \<le> window_distance players e')) \<and>
    map_of (w_queues w') qid = Some (q\<lparr>qu_recent_maps :=
      push_recent (qc_map_recency_divisors (qu_config q)) (me_map_name e) (qu_recent_maps q)\<rparr>)"
proof -
  let ?cs = "map_candidates players (owned_base (qc_map_pool (qu_config q)) sets)"
  define eff where "eff = map (\<lambda>e. of_int (me_weight e) / recency_divisor (qc_map_recency_divisors (qu_config q))
      (qu_recent_maps q) (me_map_name e)) ?cs"
  have ne: "?cs \<noteq> []" and pool: "qc_map_pool (qu_config q) \<noteq> []"
    using assms by (auto simp: PickRandomMapPoolEntryForCount_def Let_def split: if_splits prod.splits)
  obtain roll w1 where d: "draw ev (sum_list eff) w = (roll, w1)" by force
  define e where "e = ?cs ! weighted_index roll eff"
  have "weighted_index roll eff < length ?cs"
    using weighted_index_less [of eff roll] ne by (simp add: eff_def)
  then have mem: "e \<in> set ?cs" unfolding e_def by (rule nth_mem)
  have "PickRandomMapPoolEntryForCount ev qid players sets w =
      (Some \<lparr>ms_map_name = me_map_name e, ms_game_mode = me_game_mode e\<rparr>,
       w1\<lparr>w_queues := umap_put qid (q\<lparr>qu_recent_maps :=
         push_recent (qc_map_recency_divisors (qu_config q)) (me_map_name e) (qu_recent_maps q)\<rparr>) (w_queues w1)\<rparr>)"
    unfolding PickRandomMapPoolEntryForCount_def Let_def assms(2) option.case eff_def [symmetric] d prod.case e_def
    using ne pool by simp
  then have r: "spec = \<lparr>ms_map_name = me_map_name e, ms_game_mode = me_game_mode e\<rparr> \<and>
      w' = w1\<lparr>w_queues := umap_put qid (q\<lparr>qu_recent_maps :=
        push_recent (qc_map_recency_divisors (qu_config q)) (me_map_name e) (qu_recent_maps q)\<rparr>) (w_queues w1)\<rparr>"
    using assms(1) by simp
  have "e \<in> set (qc_map_pool (qu_config q))"
    using map_candidates_best [OF mem] owned_base_set by blast
  moreover have "map_of (w_queues w') qid = Some (q\<lparr>qu_recent_maps :=
      push_recent (qc_map_recency_divisors (qu_config q)) (me_map_name e) (qu_recent_maps q)\<rparr>)"
    using r by simp
  ultimately show ?thesis using r map_candidates_best [OF mem] by (intro bexI [of _ e] conjI) blast+
qed
theorem map_pick_in_window_witness:
  "\<exists>w'. PickRandomMapPoolEntryForCount ex_env 1 2 None ex_world
     = (Some \<lparr>ms_map_name = ''Frostbite'', ms_game_mode = ''Merc''\<rparr>, w')"
proof -
  obtain spec w' where p: "PickRandomMapPoolEntryForCount ex_env 1 2 None ex_world = (Some spec, w')"
    by (simp add: PickRandomMapPoolEntryForCount_def ex_world_def ex_queue_def ex_cfg_def ex_entry_def owned_base_def
        map_candidates_def window_fits_def draw_def)
  have "map_of (w_queues ex_world) 1 = Some ex_queue" by (simp add: ex_world_def)
  from map_pick_in_window [OF p this] show ?thesis using p by (auto simp: ex_queue_def ex_entry_def)
qed

end
