(* ===== verification/TeamService.thy ===== *)
theory TeamService
  imports PopGuarantees
begin

text \<open>
  \<open>TeamService\<close> (\<open>TeamService/TeamService.cpp\<close>): invitations, team membership and the parties
  that teams queue as. The static members of the class are fields of \<open>TeamWorld\<close>, beside the
  matchmaking \<open>World\<close> the service calls into and the list of messages it delivers. Sessions,
  map names and affiliations are read from \<open>TeamEnv\<close>. The mutex makes each locked block atomic;
  the model runs an operation as a whole. The timer of an invitation is its id: it fires as
  \<open>ExpireInvite\<close>, which ignores invitations that are gone.
\<close>

section \<open>State\<close>

record Session =
  se_guid :: guid
  se_player_name :: string
  se_user_id :: int
  se_character_id :: int
  se_profile_id :: u32

record TeamRosterRow =
  tr_character_id :: int
  tr_player_name :: string
  tr_profile_id :: u32
  tr_class_msg_id :: u32
  tr_status_msg_id :: u32
  tr_map_name_msg_id :: u32
  tr_level :: u32
  tr_skill_rating :: rat
  tr_offline :: bool
  tr_agency_name :: string
  tr_alliance_name :: string

record TeamRoster =
  ro_team_id :: u64
  ro_team_mode :: u32
  ro_leader_character_id :: int
  ro_rows :: "TeamRosterRow list"

record PendingInvite =
  pi_id :: u64
  pi_inviter_guid :: guid
  pi_inviter_name :: string
  pi_invitee_guid :: guid
  pi_invitee_name :: string

record TeamMember =
  tm_session_guid :: guid
  tm_character_id :: int
  tm_player_name :: string
  tm_profile_id :: u32
  tm_offline :: bool

record Team =
  te_id :: u64
  te_leader_guid :: guid
  te_members :: "TeamMember list"
  te_difficulty_override :: DifficultyScalar

datatype TeamEffect =
    DeliverTeamSystemMessage guid u32 string
  | DeliverTeamInvitation guid string
  | DeliverTeamInviteExpired guid
  | DeliverTeamUpdate guid TeamRoster
  | DeliverMatchQueueStatus guid u32 u32
  | DeliverTeamMatchInvitation guid int string int

record TeamWorld =
  ts_invites :: "PendingInvite list"
  ts_teams :: "Team list"
  ts_next_invite_id :: u64
  ts_next_team_id :: u64
  ts_world :: World
  ts_out :: "TeamEffect list"

record TeamEnv =
  en_session :: "guid \<Rightarrow> Session option"
  en_session_by_name :: "string \<Rightarrow> Session option"
  en_map_msg :: "string \<Rightarrow> u32 option"
  en_affiliation :: "int \<Rightarrow> (string \<times> string) option"
  en_hash :: "guid \<Rightarrow> u64"
  en_match :: Env

section \<open>Message ids\<close>

definition MSG_ALREADY_IN_YOUR_TEAM :: u32 where "MSG_ALREADY_IN_YOUR_TEAM = 20413"
definition MSG_IN_ANOTHER_TEAM :: u32 where "MSG_IN_ANOTHER_TEAM = 20414"
definition MSG_INVITE_SENT :: u32 where "MSG_INVITE_SENT = 20415"
definition MSG_HAS_PENDING_INVITE :: u32 where "MSG_HAS_PENDING_INVITE = 20416"
definition MSG_INVITE_DECLINED :: u32 where "MSG_INVITE_DECLINED = 20419"
definition MSG_TOO_MANY_PENDING :: u32 where "MSG_TOO_MANY_PENDING = 20456"
definition MSG_INVITE_EXPIRED :: u32 where "MSG_INVITE_EXPIRED = 20458"
definition MSG_CANNOT_INVITE_SELF :: u32 where "MSG_CANNOT_INVITE_SELF = 20548"
definition MSG_RESPOND_TO_YOURS_FIRST :: u32 where "MSG_RESPOND_TO_YOURS_FIRST = 21976"
definition MSG_RANK_CANNOT_INVITE :: u32 where "MSG_RANK_CANNOT_INVITE = 14258"
definition MSG_PLAYER_NOT_ONLINE :: u32 where "MSG_PLAYER_NOT_ONLINE = 17787"
definition MSG_NEW_LEADER :: u32 where "MSG_NEW_LEADER = 21795"
definition MSG_JOINED_TEAM :: u32 where "MSG_JOINED_TEAM = 21796"
definition MSG_LEFT_TEAM :: u32 where "MSG_LEFT_TEAM = 21797"
definition MSG_YOU_DECLINED :: u32 where "MSG_YOU_DECLINED = 28463"
definition MSG_NOT_IN_A_TEAM :: u32 where "MSG_NOT_IN_A_TEAM = 23044"
definition MSG_JOINED_QUEUE :: u32 where "MSG_JOINED_QUEUE = 18306"
definition MSG_LEFT_QUEUE :: u32 where "MSG_LEFT_QUEUE = 18308"
definition MSG_TEAM_ENTERED_QUEUE :: u32 where "MSG_TEAM_ENTERED_QUEUE = 21794"

definition kMaxOutgoingInvites :: nat where "kMaxOutgoingInvites = 5"

section \<open>Helpers\<close>

definition ascii_lower :: "char \<Rightarrow> char" where
  \<comment> \<open>\<open>tolower\<close> in the C locale\<close>
  "ascii_lower c = (let n = (of_char c :: nat) in if 65 \<le> n \<and> n \<le> 90 then char_of (n + 32) else c)"

definition NamesEqualCi :: "string \<Rightarrow> string \<Rightarrow> bool" where
  "NamesEqualCi a b \<longleftrightarrow> length a = length b \<and> list_all (\<lambda>(x, y). ascii_lower x = ascii_lower y) (zip a b)"

definition ClassMsgIdFor :: "u32 \<Rightarrow> u32" where
  "ClassMsgIdFor profile_id =
     (if profile_id = 679 then 15447 else if profile_id = 680 then 15448
      else if profile_id = 681 then 15449 else if profile_id = 567 then 15450 else 22976)"

definition MapMsgIdForSession :: "TeamEnv \<Rightarrow> guid \<Rightarrow> TeamWorld \<Rightarrow> u32" where
  "MapMsgIdForSession env g tw =
     (case GetInstancePlayerTaskForce g (w_registry (ts_world tw)) of
        None \<Rightarrow> 0
      | Some (iid, _) \<Rightarrow> (case GetInstanceById iid (w_registry (ts_world tw)) of
          None \<Rightarrow> 0
        | Some inst \<Rightarrow> (case en_map_msg env (ii_map_name inst) of None \<Rightarrow> 0 | Some m \<Rightarrow> m)))"

definition say :: "TeamEffect list \<Rightarrow> TeamWorld \<Rightarrow> TeamWorld" where
  "say es tw = tw\<lparr>ts_out := ts_out tw @ es\<rparr>"

definition member_of :: "guid \<Rightarrow> Team \<Rightarrow> bool" where
  "member_of g t \<longleftrightarrow> list_ex (\<lambda>m. tm_session_guid m = g) (te_members t)"

definition FindTeamByMember :: "guid \<Rightarrow> TeamWorld \<Rightarrow> Team option" where
  "FindTeamByMember g tw = find (member_of g) (ts_teams tw)"

definition team_guids :: "Team \<Rightarrow> guid list" where
  "team_guids t = map tm_session_guid (te_members t)"

definition IsTeamed :: "guid \<Rightarrow> TeamWorld \<Rightarrow> bool" where
  "IsTeamed g tw \<longleftrightarrow> FindTeamByMember g tw \<noteq> None"

definition GetTeamMemberGuids :: "guid \<Rightarrow> TeamWorld \<Rightarrow> guid list" where
  "GetTeamMemberGuids g tw =
     (case FindTeamByMember g tw of None \<Rightarrow> [] | Some t \<Rightarrow> filter (\<lambda>x. x \<noteq> []) (team_guids t))"

definition IsLeader :: "guid \<Rightarrow> TeamWorld \<Rightarrow> bool" where
  "IsLeader g tw \<longleftrightarrow> (case FindTeamByMember g tw of None \<Rightarrow> False | Some t \<Rightarrow> te_leader_guid t = g)"

text \<open>Changing the team of a member in place; the first team with that member is the one found.\<close>

definition update_team :: "guid \<Rightarrow> (Team \<Rightarrow> Team) \<Rightarrow> TeamWorld \<Rightarrow> TeamWorld" where
  "update_team g f tw = tw\<lparr>ts_teams := update_first (member_of g) f (ts_teams tw)\<rparr>"

definition SetDifficultyOverride :: "guid \<Rightarrow> DifficultyScalar \<Rightarrow> TeamWorld \<Rightarrow> guid list \<times> TeamWorld" where
  "SetDifficultyOverride g d tw =
     (case FindTeamByMember g tw of
        None \<Rightarrow> ([g], tw)
      | Some t \<Rightarrow>
          if te_leader_guid t \<noteq> g then ([], tw)
          else (filter (\<lambda>x. x \<noteq> []) (team_guids t), update_team g (\<lambda>t. t\<lparr>te_difficulty_override := d\<rparr>) tw))"

section \<open>Rosters\<close>

definition roster_row :: "TeamEnv \<Rightarrow> TeamWorld \<Rightarrow> TeamMember \<Rightarrow> TeamRosterRow" where
  "roster_row env tw m =
     (let a = en_affiliation env (tm_character_id m)
      in \<lparr>tr_character_id = tm_character_id m, tr_player_name = tm_player_name m,
          tr_profile_id = tm_profile_id m, tr_class_msg_id = ClassMsgIdFor (tm_profile_id m),
          tr_status_msg_id = 0, tr_map_name_msg_id = MapMsgIdForSession env (tm_session_guid m) tw,
          tr_level = 50, tr_skill_rating = 0, tr_offline = tm_offline m,
          tr_agency_name = (case a of None \<Rightarrow> [] | Some (agency, _) \<Rightarrow> agency),
          tr_alliance_name = (case a of None \<Rightarrow> [] | Some (_, alliance) \<Rightarrow> alliance)\<rparr>)"

definition empty_roster :: "u64 \<Rightarrow> TeamRoster" where
  "empty_roster team_id = \<lparr>ro_team_id = team_id, ro_team_mode = 1, ro_leader_character_id = 0, ro_rows = []\<rparr>"

definition BuildRoster :: "TeamEnv \<Rightarrow> TeamWorld \<Rightarrow> Team \<Rightarrow> TeamRoster" where
  "BuildRoster env tw t = (empty_roster (te_id t))
     \<lparr>ro_leader_character_id := fold (\<lambda>m c. if tm_session_guid m = te_leader_guid t then tm_character_id m else c)
        (te_members t) 0,
      ro_rows := map (roster_row env tw) (te_members t)\<rparr>"

definition BroadcastRoster :: "TeamEnv \<Rightarrow> u64 \<Rightarrow> TeamWorld \<Rightarrow> TeamWorld" where
  "BroadcastRoster env team_id tw =
     (case find (\<lambda>t. te_id t = team_id) (ts_teams tw) of
        None \<Rightarrow> tw
      | Some t \<Rightarrow> say (map (\<lambda>g. DeliverTeamUpdate g (BuildRoster env tw t)) (team_guids t)) tw)"

section \<open>Composition changes leave the queue\<close>

definition DequeueForCompositionChange :: "TeamEnv \<Rightarrow> guid \<Rightarrow> TeamWorld \<Rightarrow> TeamWorld" where
  "DequeueForCompositionChange env g tw =
     (let (party_id, notify) =
        (case FindTeamByMember g tw of
           Some t \<Rightarrow> (te_id t, team_guids t) | None \<Rightarrow> (SoloPartyId (en_hash env) g, [g]))
      in case RemoveParty (en_match env) party_id (ts_world tw) of
        (removed, w) \<Rightarrow>
          if \<not> removed then tw
          else say (concat (map (\<lambda>x. [DeliverMatchQueueStatus x 0 0, DeliverTeamSystemMessage x MSG_LEFT_QUEUE []]) notify))
                 (tw\<lparr>ts_world := w\<rparr>))"

section \<open>Invitations\<close>

fun scan_invites :: "guid \<Rightarrow> guid \<Rightarrow> PendingInvite list \<Rightarrow> nat \<Rightarrow> (u32 \<times> bool) option \<times> nat" where
  "scan_invites inviter target [] outgoing = (None, outgoing)"
| "scan_invites inviter target (iv # rest) outgoing =
     (if pi_invitee_guid iv = inviter then (Some (MSG_RESPOND_TO_YOURS_FIRST, False), outgoing)
      else if pi_invitee_guid iv = target then (Some (MSG_HAS_PENDING_INVITE, True), outgoing)
      else scan_invites inviter target rest (if pi_inviter_guid iv = inviter then outgoing + 1 else outgoing))"

text \<open>The message that rejects an invitation, and whether it names the target.\<close>

definition invite_reject :: "guid \<Rightarrow> guid \<Rightarrow> TeamWorld \<Rightarrow> (u32 \<times> bool) option" where
  "invite_reject inviter target tw =
     (let inviter_team = FindTeamByMember inviter tw; target_team = FindTeamByMember target tw
      in if (case inviter_team of None \<Rightarrow> False | Some t \<Rightarrow> te_leader_guid t \<noteq> inviter)
         then Some (MSG_RANK_CANNOT_INVITE, False)
         else if target_team \<noteq> None \<and> target_team = inviter_team then Some (MSG_ALREADY_IN_YOUR_TEAM, True)
         else if target_team \<noteq> None then Some (MSG_IN_ANOTHER_TEAM, True)
         else (case scan_invites inviter target (ts_invites tw) 0 of
             (Some r, _) \<Rightarrow> Some r
           | (None, outgoing) \<Rightarrow>
               if outgoing \<ge> kMaxOutgoingInvites then Some (MSG_TOO_MANY_PENDING, False) else None))"

definition RequestInvite :: "TeamEnv \<Rightarrow> guid \<Rightarrow> string \<Rightarrow> string \<Rightarrow> TeamWorld \<Rightarrow> TeamWorld" where
  "RequestInvite env inviter_guid inviter_name target_player_name tw =
     (if NamesEqualCi inviter_name target_player_name
      then say [DeliverTeamSystemMessage inviter_guid MSG_CANNOT_INVITE_SELF []] tw
      else (case en_session_by_name env target_player_name of
          None \<Rightarrow> say [DeliverTeamSystemMessage inviter_guid MSG_PLAYER_NOT_ONLINE target_player_name] tw
        | Some target \<Rightarrow>
            (case invite_reject inviter_guid (se_guid target) tw of
               Some (msg, with_name) \<Rightarrow>
                 say [DeliverTeamSystemMessage inviter_guid msg (if with_name then se_player_name target else [])] tw
             | None \<Rightarrow>
                 let iv = \<lparr>pi_id = ts_next_invite_id tw, pi_inviter_guid = inviter_guid,
                       pi_inviter_name = inviter_name, pi_invitee_guid = se_guid target,
                       pi_invitee_name = se_player_name target\<rparr>
                 in say [DeliverTeamSystemMessage inviter_guid MSG_INVITE_SENT (se_player_name target),
                         DeliverTeamInvitation (se_guid target) inviter_name]
                      (tw\<lparr>ts_invites := ts_invites tw @ [iv], ts_next_invite_id := ts_next_invite_id tw + 1\<rparr>))))"

definition MaybeRouteInviteeIntoTeamMatch :: "guid \<Rightarrow> guid \<Rightarrow> TeamWorld \<Rightarrow> TeamWorld" where
  "MaybeRouteInviteeIntoTeamMatch inviter_guid invitee_guid tw =
     (case GetInstancePlayerTaskForce inviter_guid (w_registry (ts_world tw)) of
        None \<Rightarrow> tw
      | Some (instance_id, task_force) \<Rightarrow>
          (case GetInstanceById instance_id (w_registry (ts_world tw)) of
             None \<Rightarrow> tw
           | Some inst \<Rightarrow>
               if ii_access_mode inst \<noteq> ''PARTY_LOCKED'' \<or> ii_is_home_map inst \<or> ii_end_mission_at inst \<noteq> 0 \<or>
                  (ii_state inst \<noteq> READY \<and> ii_state inst \<noteq> DRAFTING) then tw
               else say [DeliverTeamMatchInvitation invitee_guid instance_id (ii_game_mode inst) task_force]
                      (tw\<lparr>ts_world := SetPreAssignedTeam instance_id invitee_guid task_force (ts_world tw)\<rparr>)))"

definition member_from :: "guid \<Rightarrow> Session \<Rightarrow> TeamMember" where
  "member_from g s = \<lparr>tm_session_guid = g, tm_character_id = se_character_id s,
     tm_player_name = se_player_name s, tm_profile_id = se_profile_id s, tm_offline = False\<rparr>"

text \<open>The locked block that joins the teams: a fresh team for an unteamed inviter, then the member.\<close>

definition join_team :: "guid \<Rightarrow> Session \<Rightarrow> guid \<Rightarrow> Session \<Rightarrow> TeamWorld \<Rightarrow> TeamWorld" where
  "join_team inviter_guid inviter invitee_guid invitee tw =
     (let tw1 = (if FindTeamByMember inviter_guid tw = None
                 then tw\<lparr>ts_next_team_id := ts_next_team_id tw + 1,
                   ts_teams := ts_teams tw @ [\<lparr>te_id = ts_next_team_id tw, te_leader_guid = inviter_guid,
                      te_members = [member_from inviter_guid inviter], te_difficulty_override = ds_zero\<rparr>]\<rparr>
                 else tw)
      in update_team inviter_guid (\<lambda>t. t\<lparr>te_members := te_members t @ [member_from invitee_guid invitee]\<rparr>) tw1)"

definition announce_join :: "TeamEnv \<Rightarrow> guid \<Rightarrow> guid \<Rightarrow> Session \<Rightarrow> TeamWorld \<Rightarrow> TeamWorld" where
  "announce_join env inviter_guid invitee_guid invitee tw =
     (case FindTeamByMember inviter_guid tw of
        None \<Rightarrow> tw
      | Some t \<Rightarrow>
          MaybeRouteInviteeIntoTeamMatch inviter_guid invitee_guid
            (BroadcastRoster env (te_id t)
              (say (map (\<lambda>g. DeliverTeamSystemMessage g MSG_JOINED_TEAM (se_player_name invitee))
                 (filter (\<lambda>g. g \<noteq> invitee_guid) (team_guids t))) tw)))"

definition AcceptInvite :: "TeamEnv \<Rightarrow> guid \<Rightarrow> TeamWorld \<Rightarrow> TeamWorld" where
  "AcceptInvite env invitee_guid tw =
     (case find (\<lambda>i. pi_invitee_guid i = invitee_guid) (ts_invites tw) of
        None \<Rightarrow> say [DeliverTeamSystemMessage invitee_guid MSG_INVITE_EXPIRED []] tw
      | Some iv \<Rightarrow>
          let expired = say [DeliverTeamSystemMessage invitee_guid MSG_INVITE_EXPIRED []];
              tw1 = say [DeliverTeamInviteExpired invitee_guid]
                (tw\<lparr>ts_invites := remove_first (\<lambda>i. pi_invitee_guid i = invitee_guid) (ts_invites tw)\<rparr>);
              tw2 = DequeueForCompositionChange env invitee_guid
                (DequeueForCompositionChange env (pi_inviter_guid iv) tw1)
          in (case (en_session env (pi_inviter_guid iv), en_session env invitee_guid) of
                (Some inviter, Some invitee) \<Rightarrow>
                  if FindTeamByMember invitee_guid tw2 \<noteq> None then tw2
                  else if (case FindTeamByMember (pi_inviter_guid iv) tw2 of
                             None \<Rightarrow> False | Some t \<Rightarrow> te_leader_guid t \<noteq> pi_inviter_guid iv)
                  then expired tw2
                  else announce_join env (pi_inviter_guid iv) invitee_guid invitee
                         (join_team (pi_inviter_guid iv) inviter invitee_guid invitee tw2)
              | _ \<Rightarrow> expired tw2))"

definition ExpireInvite :: "u64 \<Rightarrow> TeamWorld \<Rightarrow> TeamWorld" where
  "ExpireInvite invite_id tw =
     (case find (\<lambda>i. pi_id i = invite_id) (ts_invites tw) of
        None \<Rightarrow> tw
      | Some iv \<Rightarrow>
          say [DeliverTeamInviteExpired (pi_invitee_guid iv),
               DeliverTeamSystemMessage (pi_invitee_guid iv) MSG_INVITE_EXPIRED [],
               DeliverTeamSystemMessage (pi_inviter_guid iv) MSG_INVITE_EXPIRED []]
            (tw\<lparr>ts_invites := remove_first (\<lambda>i. pi_id i = invite_id) (ts_invites tw)\<rparr>))"

definition involves :: "guid \<Rightarrow> PendingInvite \<Rightarrow> bool" where
  "involves g iv \<longleftrightarrow> pi_inviter_guid iv = g \<or> pi_invitee_guid iv = g"

definition CancelInvitesFor :: "guid \<Rightarrow> TeamWorld \<Rightarrow> TeamWorld" where
  "CancelInvitesFor g tw =
     say (map (\<lambda>iv. if pi_invitee_guid iv \<noteq> g then DeliverTeamInviteExpired (pi_invitee_guid iv)
                     else DeliverTeamSystemMessage (pi_inviter_guid iv) MSG_INVITE_EXPIRED [])
            (filter (involves g) (ts_invites tw)))
       (tw\<lparr>ts_invites := filter (\<lambda>iv. \<not> involves g iv) (ts_invites tw)\<rparr>)"

section \<open>Leaving and leading\<close>

text \<open>The locked block of \<open>LeaveCurrentTeam\<close>: the team without the leaver, and its new leader if any.\<close>

definition without_member :: "guid \<Rightarrow> Team \<Rightarrow> Team" where
  "without_member g t =
     (let ms = remove_first (\<lambda>m. tm_session_guid m = g) (te_members t)
      in t\<lparr>te_members := ms,
           te_leader_guid := (if length ms > 1 \<and> te_leader_guid t = g then tm_session_guid (hd ms) else te_leader_guid t)\<rparr>)"

definition LeaveCurrentTeam :: "TeamEnv \<Rightarrow> guid \<Rightarrow> TeamWorld \<Rightarrow> bool \<times> TeamWorld" where
  "LeaveCurrentTeam env g tw =
     (let tw1 = DequeueForCompositionChange env g tw
      in case FindTeamByMember g tw1 of
        None \<Rightarrow> (False, tw1)
      | Some t \<Rightarrow>
          let leaver = (case find (\<lambda>m. tm_session_guid m = g) (te_members t) of None \<Rightarrow> [] | Some m \<Rightarrow> tm_player_name m);
              t' = without_member g t;
              stay = team_guids t';
              bye = DeliverTeamUpdate g (empty_roster (te_id t)) #
                    map (\<lambda>x. DeliverTeamSystemMessage x MSG_LEFT_TEAM leaver) stay
          in (True,
              if length (te_members t') \<le> 1 then
                say (bye @ map (\<lambda>x. DeliverTeamUpdate x (empty_roster (te_id t))) stay)
                  (tw1\<lparr>ts_teams := filter (\<lambda>x. te_id x \<noteq> te_id t) (ts_teams tw1)\<rparr>)
              else
                let tw2 = say bye (update_team g (without_member g) tw1);
                    tw3 = (if te_leader_guid t = g \<and> tm_player_name (hd (te_members t')) \<noteq> [] then
                             say (map (\<lambda>x. DeliverTeamSystemMessage x MSG_NEW_LEADER (tm_player_name (hd (te_members t')))) stay) tw2
                           else tw2)
                in BroadcastRoster env (te_id t) tw3))"

definition HandleLeave :: "TeamEnv \<Rightarrow> guid \<Rightarrow> TeamWorld \<Rightarrow> TeamWorld" where
  "HandleLeave env g tw =
     (case find (\<lambda>i. pi_invitee_guid i = g) (ts_invites tw) of
        Some iv \<Rightarrow>
          say [DeliverTeamInviteExpired (pi_invitee_guid iv),
               DeliverTeamSystemMessage (pi_inviter_guid iv) MSG_INVITE_DECLINED (pi_invitee_name iv),
               DeliverTeamSystemMessage (pi_invitee_guid iv) MSG_YOU_DECLINED (pi_inviter_name iv)]
            (tw\<lparr>ts_invites := remove_first (\<lambda>i. pi_invitee_guid i = g) (ts_invites tw)\<rparr>)
      | None \<Rightarrow>
          (case LeaveCurrentTeam env g tw of
             (True, tw1) \<Rightarrow> tw1
           | (False, tw1) \<Rightarrow> say [DeliverTeamSystemMessage g MSG_NOT_IN_A_TEAM []] tw1))"

text \<open>The member a leader names by character id; \<open>None\<close> for every early return.\<close>

definition named_member :: "guid \<Rightarrow> int \<Rightarrow> TeamWorld \<Rightarrow> (Team \<times> TeamMember) option" where
  "named_member requester character_id tw =
     (if character_id = 0 then None
      else (case FindTeamByMember requester tw of
          None \<Rightarrow> None
        | Some t \<Rightarrow>
            if te_leader_guid t \<noteq> requester then None
            else (case find (\<lambda>m. tm_character_id m = character_id) (te_members t) of
                None \<Rightarrow> None
              | Some m \<Rightarrow> if tm_session_guid m = requester then None else Some (t, m))))"

definition PromoteLeader :: "TeamEnv \<Rightarrow> guid \<Rightarrow> int \<Rightarrow> TeamWorld \<Rightarrow> TeamWorld" where
  "PromoteLeader env requester character_id tw =
     (case named_member requester character_id tw of
        None \<Rightarrow> tw
      | Some (t, m) \<Rightarrow>
          BroadcastRoster env (te_id t)
            (say (map (\<lambda>x. DeliverTeamSystemMessage x MSG_NEW_LEADER (tm_player_name m)) (team_guids t))
              (update_team requester (\<lambda>t. t\<lparr>te_leader_guid := tm_session_guid m\<rparr>) tw)))"

definition KickMember :: "TeamEnv \<Rightarrow> guid \<Rightarrow> int \<Rightarrow> TeamWorld \<Rightarrow> TeamWorld" where
  "KickMember env requester character_id tw =
     (case named_member requester character_id tw of
        None \<Rightarrow> tw | Some (_, m) \<Rightarrow> snd (LeaveCurrentTeam env (tm_session_guid m) tw))"

definition HandleVoluntaryExit :: "TeamEnv \<Rightarrow> guid \<Rightarrow> TeamWorld \<Rightarrow> TeamWorld" where
  "HandleVoluntaryExit env g tw = snd (LeaveCurrentTeam env g (CancelInvitesFor g tw))"

definition HandleDisconnect :: "TeamEnv \<Rightarrow> guid \<Rightarrow> TeamWorld \<Rightarrow> TeamWorld" where
  "HandleDisconnect env g tw = HandleVoluntaryExit env g tw"

section \<open>Queueing as a team\<close>

definition party_member :: "TeamEnv \<Rightarrow> guid \<Rightarrow> QueuedPlayer" where
  "party_member env g =
     (let s = en_session env g
      in \<lparr>qp_session_guid = g, qp_profile_id = (case s of None \<Rightarrow> 0 | Some i \<Rightarrow> se_profile_id i),
          qp_user_id = (case s of None \<Rightarrow> 0 | Some i \<Rightarrow> se_user_id i), qp_mmr = 1000, qp_solo_lock = False,
          qp_fairness = fresh_FairnessStats, qp_installed_dlcs = [],
          qp_joined_at = ev_steady_now (en_match env), qp_difficulty_override = ds_zero\<rparr>)"

definition BuildParty :: "TeamEnv \<Rightarrow> guid \<Rightarrow> TeamWorld \<Rightarrow> QueuedParty option \<times> TeamWorld" where
  "BuildParty env leader_guid tw =
     (case FindTeamByMember leader_guid tw of
        None \<Rightarrow> (None, tw)
      | Some t \<Rightarrow>
          if te_leader_guid t \<noteq> leader_guid then (None, tw)
          else
            let tw1 = update_team leader_guid (\<lambda>t. t\<lparr>te_difficulty_override := ds_zero\<rparr>) tw
            in if team_guids t = [] then (None, tw1)
               else (Some \<lparr>pt_party_id = te_id t, pt_is_team = True, pt_leader_guid = leader_guid,
                       pt_members = map (party_member env) (team_guids t),
                       pt_joined_at = ev_steady_now (en_match env),
                       pt_difficulty_override = te_difficulty_override t\<rparr>, tw1))"

definition NotifyTeamQueued :: "u64 \<Rightarrow> u32 \<Rightarrow> u32 \<Rightarrow> TeamWorld \<Rightarrow> TeamWorld" where
  "NotifyTeamQueued team_id queue_id name_msg_id tw =
     (case find (\<lambda>t. te_id t = team_id) (ts_teams tw) of
        None \<Rightarrow> tw
      | Some t \<Rightarrow>
          let leader_name = fold (\<lambda>m n. if tm_session_guid m = te_leader_guid t then tm_player_name m else n)
                (te_members t) []
          in say (concat (map (\<lambda>g. [DeliverMatchQueueStatus g queue_id name_msg_id,
                   if g = te_leader_guid t then DeliverTeamSystemMessage g MSG_JOINED_QUEUE []
                   else DeliverTeamSystemMessage g MSG_TEAM_ENTERED_QUEUE leader_name]) (team_guids t))) tw)"

end
