(* ===== verification/TeamInvariants.thy ===== *)
theory TeamInvariants
  imports TeamService
begin

text \<open>
  The invariants of \<open>TeamService\<close> along every sequence of its operations, interleaved with
  any change of the matchmaking world: nobody is in two teams, a team has two members or
  more and is led by one of them, an invitee has one open invitation, and a team's party id
  never meets that of a solo player. Then the effect of joining and leaving.
\<close>

section \<open>Frames\<close>

definition team_core :: "TeamWorld \<Rightarrow> Team list \<times> u64 \<times> PendingInvite list \<times> u64" where
  "team_core tw = (ts_teams tw, ts_next_team_id tw, ts_invites tw, ts_next_invite_id tw)"

lemma team_core_eq [simp]:
  "team_core tw = team_core tw' \<longleftrightarrow> ts_teams tw = ts_teams tw' \<and> ts_next_team_id tw = ts_next_team_id tw' \<and>
     ts_invites tw = ts_invites tw' \<and> ts_next_invite_id tw = ts_next_invite_id tw'"
  by (simp add: team_core_def)

lemma core_say [simp]: "team_core (say es tw) = team_core tw"
  by (simp add: say_def)

lemma core_broadcast [simp]: "team_core (BroadcastRoster env i tw) = team_core tw"
  unfolding BroadcastRoster_def by (cases "find (\<lambda>t. te_id t = i) (ts_teams tw)") simp_all

lemma core_dequeue [simp]: "team_core (DequeueForCompositionChange env g tw) = team_core tw"
  by (simp add: DequeueForCompositionChange_def say_def split: prod.split option.split)

lemma core_route [simp]: "team_core (MaybeRouteInviteeIntoTeamMatch a b tw) = team_core tw"
  by (simp add: MaybeRouteInviteeIntoTeamMatch_def say_def split: prod.split option.split)

lemma core_announce [simp]: "team_core (announce_join env a b s tw) = team_core tw"
proof (cases "FindTeamByMember a tw")
  case (Some t)
  show ?thesis unfolding announce_join_def Some option.case core_route core_broadcast core_say ..
qed (simp add: announce_join_def)

lemmas core_frames = core_say core_broadcast core_dequeue core_route core_announce

lemmas frames [simp] = core_frames [unfolded team_core_eq, THEN conjunct1]
  core_frames [unfolded team_core_eq, THEN conjunct2, THEN conjunct1]
  core_frames [unfolded team_core_eq, THEN conjunct2, THEN conjunct2, THEN conjunct1]
  core_frames [unfolded team_core_eq, THEN conjunct2, THEN conjunct2, THEN conjunct2]

lemma find_frame [simp]:
  "FindTeamByMember g (say es tw) = FindTeamByMember g tw"
  "FindTeamByMember g (DequeueForCompositionChange env h tw) = FindTeamByMember g tw"
  by (simp_all add: FindTeamByMember_def)

section \<open>The invariants\<close>

definition team_ok :: "Team \<Rightarrow> bool" where
  "team_ok t \<longleftrightarrow> 2 \<le> length (te_members t) \<and> te_leader_guid t \<in> set (team_guids t)"

definition all_guids :: "Team list \<Rightarrow> guid list" where
  "all_guids ts = concat (map team_guids ts)"

definition teams_ok :: "Team list \<Rightarrow> u64 \<Rightarrow> bool" where
  "teams_ok ts next_id \<longleftrightarrow> distinct (map te_id ts) \<and> distinct (all_guids ts) \<and>
     (\<forall>t \<in> set ts. team_ok t \<and> te_id t < next_id) \<and> next_id \<le> 0x8000000000000000"

definition invites_ok :: "PendingInvite list \<Rightarrow> u64 \<Rightarrow> bool" where
  "invites_ok is next_id \<longleftrightarrow> distinct (map pi_id is) \<and> distinct (map pi_invitee_guid is) \<and>
     (\<forall>i \<in> set is. pi_inviter_guid i \<noteq> pi_invitee_guid i \<and> pi_id i < next_id) \<and>
     (\<forall>g. length (filter (\<lambda>i. pi_inviter_guid i = g) is) \<le> kMaxOutgoingInvites)"

definition team_world_ok :: "TeamWorld \<Rightarrow> bool" where
  "team_world_ok tw \<longleftrightarrow> teams_ok (ts_teams tw) (ts_next_team_id tw) \<and> invites_ok (ts_invites tw) (ts_next_invite_id tw)"

lemma team_world_ok_core: "team_core tw = team_core tw' \<Longrightarrow> team_world_ok tw = team_world_ok tw'"
  by (simp add: team_world_ok_def)

lemma all_guids_simps [simp]:
  "all_guids [] = []" "all_guids (t # ts) = team_guids t @ all_guids ts" "all_guids (as @ bs) = all_guids as @ all_guids bs"
  by (simp_all add: all_guids_def)

lemma member_of_guids: "member_of g t \<longleftrightarrow> g \<in> set (team_guids t)"
  by (auto simp: member_of_def team_guids_def list_ex_iff)

lemma find_None_guids: "FindTeamByMember g tw = None \<longleftrightarrow> g \<notin> set (all_guids (ts_teams tw))"
  by (auto simp: FindTeamByMember_def find_None_iff member_of_guids all_guids_def)

lemma find_append_None: "find P xs = None \<Longrightarrow> find P (xs @ [t]) = (if P t then Some t else None)"
  by (induction xs) (auto split: if_splits)

lemma find_split:
  assumes "find P xs = Some t"
  obtains as bs where "xs = as @ t # bs" "\<forall>x \<in> set as. \<not> P x" "P t" "\<And>f. update_first P f xs = as @ f t # bs"
proof -
  have "\<exists>bs. dropWhile (\<lambda>x. \<not> P x) xs = t # bs" using assms by (induction xs) (auto split: if_splits)
  then obtain bs where d: "dropWhile (\<lambda>x. \<not> P x) xs = t # bs" ..
  have P: "P t" using assms by (metis find_Some_iff)
  have "xs = takeWhile (\<lambda>x. \<not> P x) xs @ t # bs" using d by (metis takeWhile_dropWhile_id)
  moreover have "\<forall>x \<in> set (takeWhile (\<lambda>x. \<not> P x) xs). \<not> P x" by (auto dest: set_takeWhileD)
  moreover have "update_first P f xs = takeWhile (\<lambda>x. \<not> P x) xs @ f t # bs" for f
    by (simp add: update_first_def d)
  ultimately show thesis using that P by blast
qed

text \<open>Changing one team to one with the same id, in place.\<close>

lemma teams_ok_replace:
  assumes "teams_ok (as @ t # bs) n" "te_id t' = te_id t" "team_ok t'"
    and "distinct (team_guids t')" "set (team_guids t') \<inter> set (all_guids (as @ bs)) = {}"
  shows "teams_ok (as @ t' # bs) n"
  using assms by (auto simp: teams_ok_def)

lemma teams_ok_drop: "teams_ok (as @ t # bs) n \<Longrightarrow> teams_ok (as @ bs) n"
  by (auto simp: teams_ok_def)

lemma teams_ok_parts:
  assumes "teams_ok (as @ t # bs) n"
  shows "team_ok t" "distinct (team_guids t)" "set (team_guids t) \<inter> set (all_guids (as @ bs)) = {}" "te_id t < n"
    "te_id t \<notin> te_id ` set (as @ bs)"
  using assms by (auto simp: teams_ok_def)

lemma map_remove_first: "map f (remove_first (\<lambda>x. f x = y) xs) = remove1 y (map f xs)"
  by (induction xs) auto

lemma without_guids: "team_guids (without_member g t) = remove1 g (team_guids t)"
  by (simp add: team_guids_def without_member_def Let_def map_remove_first)

lemma without_id [simp]: "te_id (without_member g t) = te_id t"
  by (simp add: without_member_def Let_def)

lemma without_members_length: "length (te_members t) = length (team_guids t)"
  by (simp add: team_guids_def)

lemma without_ok:
  assumes "team_ok t" "member_of g t" "distinct (team_guids t)" "length (te_members (without_member g t)) > 1"
  shows "team_ok (without_member g t)"
proof -
  let ?ms = "te_members (without_member g t)"
  have g: "set (team_guids (without_member g t)) = set (team_guids t) - {g}"
    using assms(3) by (simp add: without_guids)
  have "te_leader_guid (without_member g t) \<in> set (team_guids (without_member g t))"
  proof (cases "te_leader_guid t = g")
    case True
    then have "te_leader_guid (without_member g t) = tm_session_guid (hd ?ms)"
      using assms(4) by (simp add: without_member_def Let_def)
    moreover have "hd ?ms \<in> set ?ms" using assms(4) by (cases ?ms) auto
    ultimately show ?thesis by (simp add: team_guids_def)
  next
    case False
    then have "te_leader_guid (without_member g t) = te_leader_guid t" by (simp add: without_member_def Let_def)
    then show ?thesis using False g assms(1) by (simp add: team_ok_def)
  qed
  then show ?thesis using assms(4) by (simp add: team_ok_def)
qed
section \<open>Every operation keeps them\<close>

named_theorems team_inv

text \<open>Replacing the found team, as every membership change does.\<close>

lemma found_team:
  assumes "FindTeamByMember g tw = Some t" "teams_ok (ts_teams tw) (ts_next_team_id tw)"
  obtains as bs where "ts_teams tw = as @ t # bs" "g \<in> set (team_guids t)" "g \<notin> set (all_guids (as @ bs))"
    "team_ok t" "distinct (team_guids t)" "set (team_guids t) \<inter> set (all_guids (as @ bs)) = {}"
    "\<And>f. ts_teams (update_team g f tw) = as @ f t # bs"
    "filter (\<lambda>x. te_id x \<noteq> te_id t) (ts_teams tw) = as @ bs"
proof -
  obtain as bs where s: "ts_teams tw = as @ t # bs" "member_of g t"
    "\<And>f. update_first (member_of g) f (ts_teams tw) = as @ f t # bs"
    using assms(1) unfolding FindTeamByMember_def by (elim find_split) blast
  note p = teams_ok_parts [OF assms(2) [unfolded s(1)]]
  have "filter (\<lambda>x. te_id x \<noteq> te_id t) as = as" "filter (\<lambda>x. te_id x \<noteq> te_id t) bs = bs"
    unfolding filter_id_conv using p(5) by (metis UnCI image_eqI set_append)+
  then show thesis
    using s p by (intro that [of as bs]) (auto simp: member_of_guids update_team_def)
qed

lemma update_core [simp]:
  "ts_next_team_id (update_team g f tw) = ts_next_team_id tw" "ts_invites (update_team g f tw) = ts_invites tw"
  "ts_next_invite_id (update_team g f tw) = ts_next_invite_id tw" "ts_world (update_team g f tw) = ts_world tw"
  by (simp_all add: update_team_def)

lemma update_team_keeps:
  assumes "teams_ok (ts_teams tw) (ts_next_team_id tw)"
    and "\<And>t. FindTeamByMember g tw = Some t \<Longrightarrow> te_id (f t) = te_id t \<and> team_ok (f t) \<and>
       set (team_guids (f t)) \<subseteq> set (team_guids t) \<and> distinct (team_guids (f t))"
  shows "teams_ok (ts_teams (update_team g f tw)) (ts_next_team_id tw)"
proof (cases "FindTeamByMember g tw")
  case None
  then have "update_first (member_of g) f (ts_teams tw) = ts_teams tw"
    unfolding FindTeamByMember_def find_None_iff update_first_def
    by (metis (no_types, lifting) append_Nil2 dropWhile_eq_Nil_conv list.simps(4) takeWhile_eq_all_conv)
  then show ?thesis using assms(1) by (simp add: update_team_def)
next
  case (Some t)
  obtain as bs where s: "ts_teams tw = as @ t # bs" "set (team_guids t) \<inter> set (all_guids (as @ bs)) = {}"
    "\<And>h. ts_teams (update_team g h tw) = as @ h t # bs"
    by (rule found_team [OF Some assms(1)]) (rule that, assumption+)
  have f: "te_id (f t) = te_id t" "team_ok (f t)" "set (team_guids (f t)) \<subseteq> set (team_guids t)" "distinct (team_guids (f t))"
    using assms(2) [OF Some] by auto
  have "set (team_guids (f t)) \<inter> set (all_guids (as @ bs)) = {}" using f(3) s(2) by blast
  from teams_ok_replace [OF assms(1) [unfolded s(1)] f(1,2,4) this] show ?thesis by (simp add: s(3))
qed

lemma leave_teams:
  assumes "teams_ok (ts_teams tw) (ts_next_team_id tw)"
  shows "teams_ok (ts_teams (snd (LeaveCurrentTeam env g tw))) (ts_next_team_id tw) \<and>
    set (all_guids (ts_teams (snd (LeaveCurrentTeam env g tw)))) \<subseteq> set (all_guids (ts_teams tw)) - {g} \<and>
    ts_next_team_id (snd (LeaveCurrentTeam env g tw)) = ts_next_team_id tw \<and>
    ts_invites (snd (LeaveCurrentTeam env g tw)) = ts_invites tw \<and>
    ts_next_invite_id (snd (LeaveCurrentTeam env g tw)) = ts_next_invite_id tw"
proof (cases "FindTeamByMember g tw")
  case None
  then show ?thesis using assms None [unfolded find_None_guids]
    by (simp add: LeaveCurrentTeam_def Let_def)
next
  case (Some t)
  define tw1 where "tw1 = DequeueForCompositionChange env g tw"
  have core: "ts_teams tw1 = ts_teams tw" "ts_next_team_id tw1 = ts_next_team_id tw" "ts_invites tw1 = ts_invites tw"
    "ts_next_invite_id tw1 = ts_next_invite_id tw" by (simp_all add: tw1_def)
  have find1: "FindTeamByMember g tw1 = Some t" using Some by (simp add: tw1_def)
  obtain as bs where s: "ts_teams tw1 = as @ t # bs" "g \<in> set (team_guids t)" "g \<notin> set (all_guids (as @ bs))"
    "team_ok t" "distinct (team_guids t)" "set (team_guids t) \<inter> set (all_guids (as @ bs)) = {}"
    "\<And>f. ts_teams (update_team g f tw1) = as @ f t # bs"
    "filter (\<lambda>x. te_id x \<noteq> te_id t) (ts_teams tw1) = as @ bs"
    using found_team [OF find1] assms core by (metis (no_types, lifting))
  have ok: "teams_ok (as @ t # bs) (ts_next_team_id tw)" using assms core s(1) by simp
  show ?thesis
  proof (cases "length (te_members (without_member g t)) \<le> 1")
    case True
    then have "ts_teams (snd (LeaveCurrentTeam env g tw)) = as @ bs \<and>
        ts_next_team_id (snd (LeaveCurrentTeam env g tw)) = ts_next_team_id tw \<and>
        ts_invites (snd (LeaveCurrentTeam env g tw)) = ts_invites tw \<and>
        ts_next_invite_id (snd (LeaveCurrentTeam env g tw)) = ts_next_invite_id tw"
      unfolding LeaveCurrentTeam_def Let_def tw1_def [symmetric] find1
      by (simp add: s(8) [unfolded core] core)
    then show ?thesis using teams_ok_drop [OF ok] s(1,3) core(1) by auto
  next
    case False
    then have r: "ts_teams (snd (LeaveCurrentTeam env g tw)) = as @ without_member g t # bs \<and>
        ts_next_team_id (snd (LeaveCurrentTeam env g tw)) = ts_next_team_id tw \<and>
        ts_invites (snd (LeaveCurrentTeam env g tw)) = ts_invites tw \<and>
        ts_next_invite_id (snd (LeaveCurrentTeam env g tw)) = ts_next_invite_id tw"
      unfolding LeaveCurrentTeam_def Let_def tw1_def [symmetric] find1
      by (simp add: s(7) core)
    have g: "set (team_guids (without_member g t)) = set (team_guids t) - {g}" "distinct (team_guids (without_member g t))"
      using s(5) by (simp_all add: without_guids)
    have "team_ok (without_member g t)"
      by (rule without_ok) (use s False in \<open>auto simp: member_of_guids\<close>)
    then have "teams_ok (as @ without_member g t # bs) (ts_next_team_id tw)"
      by (intro teams_ok_replace [OF ok]) (use g s(6) in auto)
    then show ?thesis using r s(1,3) g core(1) by auto
  qed
qed
lemma team_world_okI:
  "teams_ok (ts_teams tw) (ts_next_team_id tw) \<Longrightarrow> invites_ok (ts_invites tw) (ts_next_invite_id tw) \<Longrightarrow> team_world_ok tw"
  by (simp add: team_world_ok_def)

lemma invites_ok_subseq:
  assumes "invites_ok is n" "subseq js is"
  shows "invites_ok js n"
proof -
  have "set js \<subseteq> set is" using assms(2) by (auto dest: list_emb_set)
  moreover have "length (filter P js) \<le> length (filter P is)" for P
    by (rule list_emb_length [OF subseq_filter [OF assms(2)]])
  ultimately show ?thesis using assms subseq_map_distinct [OF assms(2)]
    unfolding invites_ok_def by (meson le_trans subset_eq)
qed

lemma leave_ok [team_inv]: "team_world_ok tw \<Longrightarrow> team_world_ok (snd (LeaveCurrentTeam env g tw))"
  using leave_teams [of tw env g] by (simp add: team_world_ok_def)

lemma drop_invites_ok:
  "team_world_ok tw \<Longrightarrow> subseq is (ts_invites tw) \<Longrightarrow> team_world_ok (say es (tw\<lparr>ts_invites := is\<rparr>))"
  by (auto simp: team_world_ok_def intro: invites_ok_subseq)

lemma expire_ok [team_inv]: "team_world_ok tw \<Longrightarrow> team_world_ok (ExpireInvite i tw)"
  unfolding ExpireInvite_def
  by (auto intro!: drop_invites_ok subseq_remove_first split: option.split)

lemma cancel_ok [team_inv]: "team_world_ok tw \<Longrightarrow> team_world_ok (CancelInvitesFor g tw)"
  unfolding CancelInvitesFor_def by (rule drop_invites_ok) simp_all

lemma say_ok [team_inv]: "team_world_ok (say es tw) = team_world_ok tw"
  by (simp add: team_world_ok_def)

lemma broadcast_ok [team_inv]: "team_world_ok (BroadcastRoster env i tw) = team_world_ok tw"
  by (simp add: team_world_ok_def)

lemma handle_leave_ok [team_inv]:
  assumes "team_world_ok tw"
  shows "team_world_ok (HandleLeave env g tw)"
proof (cases "find (\<lambda>i. pi_invitee_guid i = g) (ts_invites tw)")
  case None
  obtain b tw1 where l: "LeaveCurrentTeam env g tw = (b, tw1)" by force
  then show ?thesis using leave_ok [OF assms, of env g] None
    by (cases b) (simp_all add: HandleLeave_def say_ok)
next
  case (Some iv)
  then show ?thesis using assms by (simp add: HandleLeave_def drop_invites_ok subseq_remove_first)
qed

lemma exit_ok [team_inv]: "team_world_ok tw \<Longrightarrow> team_world_ok (HandleVoluntaryExit env g tw)"
  by (simp add: HandleVoluntaryExit_def leave_ok cancel_ok)

lemma kick_ok [team_inv]: "team_world_ok tw \<Longrightarrow> team_world_ok (KickMember env r c tw)"
  by (simp add: KickMember_def leave_ok split: option.split prod.split)

lemma update_ok:
  assumes "team_world_ok tw"
    and "\<And>t. FindTeamByMember g tw = Some t \<Longrightarrow> te_id (f t) = te_id t \<and> team_ok (f t) \<and>
       set (team_guids (f t)) \<subseteq> set (team_guids t) \<and> distinct (team_guids (f t))"
  shows "team_world_ok (update_team g f tw)"
  using assms update_team_keeps [of tw g f] by (simp add: team_world_ok_def)

lemma found_team_ok:
  assumes "team_world_ok tw" "FindTeamByMember g tw = Some t"
  shows "team_ok t" "distinct (team_guids t)" "te_id t < ts_next_team_id tw" "t \<in> set (ts_teams tw)" "g \<in> set (team_guids t)"
proof -
  have t: "t \<in> set (ts_teams tw)" "member_of g t"
    using assms(2) find_Some_in_set by (metis FindTeamByMember_def)+
  then obtain as bs where "ts_teams tw = as @ t # bs" by (metis split_list)
  then have "teams_ok (as @ t # bs) (ts_next_team_id tw)" using assms(1) by (simp add: team_world_ok_def)
  from teams_ok_parts [OF this] show "team_ok t" "distinct (team_guids t)" "te_id t < ts_next_team_id tw" by blast+
  show "t \<in> set (ts_teams tw)" "g \<in> set (team_guids t)" using t by (auto simp: member_of_guids)
qed

lemma found_unique:
  assumes "team_world_ok tw" "FindTeamByMember g tw = Some t" "h \<in> set (team_guids t)"
  shows "FindTeamByMember h tw = Some t"
proof -
  have T: "teams_ok (ts_teams tw) (ts_next_team_id tw)" using assms(1) by (simp add: team_world_ok_def)
  obtain as bs where s: "ts_teams tw = as @ t # bs" "set (team_guids t) \<inter> set (all_guids (as @ bs)) = {}"
    by (rule found_team [OF assms(2) T]) (rule that, assumption+)
  have "h \<notin> set (all_guids as)" using s(2) assms(3) by auto
  then have "find (member_of h) as = None" by (auto simp: find_None_iff member_of_guids all_guids_def)
  then show ?thesis
    unfolding FindTeamByMember_def s(1) using assms(3) by (induction as) (auto simp: member_of_guids split: if_splits)
qed

lemma promote_ok [team_inv]:
  assumes "team_world_ok tw"
  shows "team_world_ok (PromoteLeader env r c tw)"
proof (cases "named_member r c tw")
  case None
  then show ?thesis using assms by (simp add: PromoteLeader_def)
next
  case (Some tm)
  obtain t m where tm: "tm = (t, m)" by force
  have f: "FindTeamByMember r tw = Some t" "m \<in> set (te_members t)"
    using Some unfolding tm named_member_def by (auto split: if_splits option.splits dest: find_Some_in_set)
  have "team_world_ok (update_team r (\<lambda>t. t\<lparr>te_leader_guid := tm_session_guid m\<rparr>) tw)"
  proof (rule update_ok [OF assms])
    fix t' assume "FindTeamByMember r tw = Some t'"
    then have "t' = t" using f by simp
    then show "te_id (t'\<lparr>te_leader_guid := tm_session_guid m\<rparr>) = te_id t' \<and> team_ok (t'\<lparr>te_leader_guid := tm_session_guid m\<rparr>) \<and>
        set (team_guids (t'\<lparr>te_leader_guid := tm_session_guid m\<rparr>)) \<subseteq> set (team_guids t') \<and>
        distinct (team_guids (t'\<lparr>te_leader_guid := tm_session_guid m\<rparr>))"
      using found_team_ok [OF assms f(1)] f(2) by (auto simp: team_ok_def team_guids_def)
  qed
  then show ?thesis using Some tm by (simp add: PromoteLeader_def say_ok broadcast_ok)
qed

lemma difficulty_keeps:
  assumes "team_world_ok tw"
  shows "team_world_ok (update_team g (\<lambda>t. t\<lparr>te_difficulty_override := d\<rparr>) tw)"
  by (rule update_ok [OF assms]) (use found_team_ok [OF assms] in \<open>auto simp: team_ok_def team_guids_def\<close>)

lemma difficulty_ok [team_inv]: "team_world_ok tw \<Longrightarrow> team_world_ok (snd (SetDifficultyOverride g d tw))"
  by (simp add: SetDifficultyOverride_def difficulty_keeps split: option.split)

lemma build_party_ok [team_inv]: "team_world_ok tw \<Longrightarrow> team_world_ok (snd (BuildParty env g tw))"
  by (simp add: BuildParty_def difficulty_keeps Let_def split: option.split)

lemma notify_ok [team_inv]: "team_world_ok tw \<Longrightarrow> team_world_ok (NotifyTeamQueued i q n tw)"
  by (simp add: NotifyTeamQueued_def say_ok Let_def split: option.split)
text \<open>An invitation that passes every check, given that players are not invited under their own session.\<close>

definition names_ok :: "TeamEnv \<Rightarrow> guid \<Rightarrow> string \<Rightarrow> bool" where
  "names_ok env g name \<longleftrightarrow>
     (\<forall>target s. en_session_by_name env target = Some s \<longrightarrow> se_guid s = g \<longrightarrow> NamesEqualCi name target)"

lemma scan_invites_None:
  "scan_invites inviter target is n = (None, k) \<Longrightarrow>
   (\<forall>i \<in> set is. pi_invitee_guid i \<noteq> inviter \<and> pi_invitee_guid i \<noteq> target) \<and>
   k = n + length (filter (\<lambda>i. pi_inviter_guid i = inviter) is)"
proof (induction "is" arbitrary: n)
  case (Cons iv "is")
  then show ?case using Cons.IH [of n] Cons.IH [of "n + 1"] by (auto split: if_splits)
qed simp

lemma invite_reject_None:
  assumes "invite_reject inviter target tw = None"
  shows "FindTeamByMember target tw = None"
    and "\<And>i. i \<in> set (ts_invites tw) \<Longrightarrow> pi_invitee_guid i \<noteq> target"
    and "length (filter (\<lambda>i. pi_inviter_guid i = inviter) (ts_invites tw)) < kMaxOutgoingInvites"
proof -
  obtain r k where s: "scan_invites inviter target (ts_invites tw) 0 = (r, k)" by force
  then have r: "r = None" "k < kMaxOutgoingInvites" "FindTeamByMember target tw = None"
    using assms by (auto simp: invite_reject_def Let_def split: if_splits option.splits)
  then show "FindTeamByMember target tw = None" by simp
  show "\<And>i. i \<in> set (ts_invites tw) \<Longrightarrow> pi_invitee_guid i \<noteq> target"
    "length (filter (\<lambda>i. pi_inviter_guid i = inviter) (ts_invites tw)) < kMaxOutgoingInvites"
    using scan_invites_None [OF s [unfolded r(1)]] r(2) by auto
qed

lemma invite_ok [team_inv]:
  assumes "team_world_ok tw" "names_ok env g name" "ts_next_invite_id tw < ts_next_invite_id tw + 1"
  shows "team_world_ok (RequestInvite env g name target tw)"
proof (cases "NamesEqualCi name target \<or> en_session_by_name env target = None")
  case True
  then show ?thesis using assms(1) by (auto simp: RequestInvite_def say_ok)
next
  case False
  then obtain s where s: "en_session_by_name env target = Some s" by auto
  have ne: "se_guid s \<noteq> g" using False s assms(2) unfolding names_ok_def by blast
  show ?thesis
  proof (cases "invite_reject g (se_guid s) tw")
    case (Some r)
    then show ?thesis using assms(1) False s by (simp add: RequestInvite_def say_ok split: prod.split)
  next
    case None
    note r = invite_reject_None [OF None]
    define iv where "iv = \<lparr>pi_id = ts_next_invite_id tw, pi_inviter_guid = g, pi_inviter_name = name,
      pi_invitee_guid = se_guid s, pi_invitee_name = se_player_name s\<rparr>"
    have iv: "pi_id iv = ts_next_invite_id tw" "pi_inviter_guid iv = g" "pi_invitee_guid iv = se_guid s"
      by (simp_all add: iv_def)
    have iok: "invites_ok (ts_invites tw) (ts_next_invite_id tw)" using assms(1) by (simp add: team_world_ok_def)
    have id: "pi_id i < ts_next_invite_id tw + 1 \<and> pi_id i \<noteq> ts_next_invite_id tw" if "i \<in> set (ts_invites tw)" for i
    proof -
      have lt: "pi_id i < ts_next_invite_id tw" using iok that unfolding invites_ok_def by blast
      show ?thesis by (rule conjI [OF less_trans [OF lt assms(3)] less_imp_neq [OF lt]])
    qed
    have old: "distinct (map pi_id (ts_invites tw))" "distinct (map pi_invitee_guid (ts_invites tw))"
      "\<And>i. i \<in> set (ts_invites tw) \<Longrightarrow> pi_inviter_guid i \<noteq> pi_invitee_guid i"
      "\<And>h. length (filter (\<lambda>i. pi_inviter_guid i = h) (ts_invites tw)) \<le> kMaxOutgoingInvites"
      using iok unfolding invites_ok_def by blast+
    have "invites_ok (ts_invites tw @ [iv]) (ts_next_invite_id tw + 1)"
      unfolding invites_ok_def
    proof (intro conjI allI)
      have "ts_next_invite_id tw \<notin> pi_id ` set (ts_invites tw)" using id by (metis imageE)
      then show "distinct (map pi_id (ts_invites tw @ [iv]))" using old(1) by (simp add: iv)
      have "se_guid s \<notin> pi_invitee_guid ` set (ts_invites tw)" using r(2) by (metis imageE)
      then show "distinct (map pi_invitee_guid (ts_invites tw @ [iv]))" using old(2) by (simp add: iv)
      show "\<forall>i \<in> set (ts_invites tw @ [iv]). pi_inviter_guid i \<noteq> pi_invitee_guid i \<and> pi_id i < ts_next_invite_id tw + 1"
        using old(3) id ne assms(3) iv by (metis UnE empty_iff empty_set list.simps(15) set_append insertE)
      show "length (filter (\<lambda>i. pi_inviter_guid i = h) (ts_invites tw @ [iv])) \<le> kMaxOutgoingInvites" for h
        using old(4) [of h] r(3) by (cases "h = g") (simp_all add: iv)
    qed
    then show ?thesis using assms(1) False s None
      by (simp add: RequestInvite_def say_ok team_world_ok_def iv_def Let_def)
  qed
qed

lemma join_ok:
  assumes "team_world_ok tw" "FindTeamByMember b tw = None" "a \<noteq> b" "ts_next_team_id tw < 0x8000000000000000"
    and "\<And>t. FindTeamByMember a tw = Some t \<Longrightarrow> te_leader_guid t = a"
  shows "team_world_ok (join_team a sa b sb tw) \<and> (\<exists>t. FindTeamByMember a (join_team a sa b sb tw) = Some t \<and>
    b \<in> set (team_guids t) \<and> te_leader_guid t = a) \<and> ts_world (join_team a sa b sb tw) = ts_world tw"
proof -
  let ?f = "\<lambda>t. t\<lparr>te_members := te_members t @ [member_from b sb]\<rparr>"
  have T: "teams_ok (ts_teams tw) (ts_next_team_id tw)" using assms(1) by (simp add: team_world_ok_def)
  have fresh: "b \<notin> set (all_guids (ts_teams tw))" using assms(2) by (simp add: find_None_guids)
  show ?thesis
  proof (cases "FindTeamByMember a tw")
    case (Some t)
    obtain as bs where s: "ts_teams tw = as @ t # bs" "a \<in> set (team_guids t)" "a \<notin> set (all_guids (as @ bs))"
      "team_ok t" "distinct (team_guids t)" "set (team_guids t) \<inter> set (all_guids (as @ bs)) = {}"
      "\<And>f. ts_teams (update_team a f tw) = as @ f t # bs"
      by (rule found_team [OF Some T]) (rule that, assumption+)
    have g: "team_guids (?f t) = team_guids t @ [b]" by (simp add: team_guids_def member_from_def)
    have b: "b \<notin> set (team_guids t)" "b \<notin> set (all_guids (as @ bs))" using fresh s(1) by auto
    have ok: "team_ok (?f t)" using s(4) g by (simp add: team_ok_def)
    have "teams_ok (as @ ?f t # bs) (ts_next_team_id tw)"
      by (rule teams_ok_replace [OF T [unfolded s(1)] _ ok]) (use s(5,6) b g in auto)
    moreover have join: "join_team a sa b sb tw = update_team a ?f tw" by (simp add: join_team_def Some)
    moreover have "find (member_of a) as = None" using s(3) by (auto simp: find_None_iff member_of_guids all_guids_def)
    then have "find (member_of a) (as @ ?f t # bs) = Some (?f t)"
      using s(2) g by (induction as) (auto simp: member_of_guids split: if_splits)
    moreover have "b \<in> set (team_guids (?f t))" using g by simp
    moreover have "te_leader_guid (?f t) = a" using assms(5) [OF Some] by simp
    ultimately show ?thesis using assms(1) s(7) by (simp add: team_world_ok_def FindTeamByMember_def)
  next
    case None
    define t where "t = \<lparr>te_id = ts_next_team_id tw, te_leader_guid = a,
      te_members = [member_from a sa, member_from b sb], te_difficulty_override = ds_zero\<rparr>"
    have a: "a \<notin> set (all_guids (ts_teams tw))" using None by (simp add: find_None_guids)
    then have none: "find (member_of a) (ts_teams tw) = None" using None by (simp add: FindTeamByMember_def)
    have no: "\<forall>x \<in> set (ts_teams tw). \<not> member_of a x" using none by (simp add: find_None_iff)
    then have up: "update_first (member_of a) f (ts_teams tw @ [x]) = ts_teams tw @ [f x]" if "member_of a x" for f x
      using that by (simp add: update_first_def takeWhile_append dropWhile_append)
    have m: "member_of a \<lparr>te_id = i, te_leader_guid = a, te_members = [member_from a sa], te_difficulty_override = d\<rparr>" for i d
      by (simp add: member_of_def member_from_def)
    have ts: "ts_teams (join_team a sa b sb tw) = ts_teams tw @ [t]"
      unfolding join_team_def Let_def None update_team_def by (simp add: up [OF m] t_def)
    have rest: "ts_next_team_id (join_team a sa b sb tw) = ts_next_team_id tw + 1"
      "ts_invites (join_team a sa b sb tw) = ts_invites tw"
      "ts_next_invite_id (join_team a sa b sb tw) = ts_next_invite_id tw"
      "ts_world (join_team a sa b sb tw) = ts_world tw"
      by (simp_all add: join_team_def Let_def None)
    have g: "team_guids t = [a, b]" by (simp add: t_def team_guids_def member_from_def)
    have lt: "ts_next_team_id tw < ts_next_team_id tw + 1" "ts_next_team_id tw + 1 \<le> 0x8000000000000000"
      using assms(4) by (auto simp: word_less_nat_alt word_le_nat_alt unat_word_ariths)
    have ids: "te_id x < ts_next_team_id tw" if "x \<in> set (ts_teams tw)" for x
      using T that by (simp add: teams_ok_def)
    have "teams_ok (ts_teams tw @ [t]) (ts_next_team_id tw + 1)"
      unfolding teams_ok_def
    proof (intro conjI)
      have "ts_next_team_id tw \<notin> te_id ` set (ts_teams tw)" using ids by (metis imageE less_irrefl)
      then show "distinct (map te_id (ts_teams tw @ [t]))" using T by (simp add: teams_ok_def t_def)
      show "distinct (all_guids (ts_teams tw @ [t]))" using T a fresh g assms(3) by (auto simp: teams_ok_def)
      show "\<forall>x \<in> set (ts_teams tw @ [t]). team_ok x \<and> te_id x < ts_next_team_id tw + 1"
        using T ids lt(1) g by (auto simp: teams_ok_def team_ok_def t_def intro: less_trans)
    qed (rule lt(2))
    moreover have "find (member_of a) (ts_teams tw @ [t]) = Some t"
      using find_append_None [OF none] g by (simp add: member_of_guids)
    ultimately show ?thesis using assms(1) ts rest g
      by (simp add: team_world_ok_def FindTeamByMember_def t_def)
  qed
qed
lemma world_frame [simp]:
  "ts_world (say es tw) = ts_world tw" "ts_world (BroadcastRoster env i tw) = ts_world tw"
  by (simp_all add: say_def BroadcastRoster_def split: option.split)

lemma accept_found:
  assumes "find (\<lambda>i. pi_invitee_guid i = b) (ts_invites tw) = Some iv" "team_world_ok tw"
  shows "pi_inviter_guid iv \<noteq> b \<and> b \<notin> pi_invitee_guid ` set (remove_first (\<lambda>i. pi_invitee_guid i = b) (ts_invites tw))"
proof -
  have iv: "iv \<in> set (ts_invites tw)" "pi_invitee_guid iv = b" using find_Some_in_set [OF assms(1)] by blast+
  have ok: "pi_inviter_guid i \<noteq> pi_invitee_guid i" if "i \<in> set (ts_invites tw)" for i
    using assms(2) that unfolding team_world_ok_def invites_ok_def by blast
  have "distinct (map pi_invitee_guid (ts_invites tw))"
    using assms(2) unfolding team_world_ok_def invites_ok_def by blast
  then have "set (map pi_invitee_guid (remove_first (\<lambda>i. pi_invitee_guid i = b) (ts_invites tw)))
      = set (map pi_invitee_guid (ts_invites tw)) - {b}"
    unfolding map_remove_first by (rule set_remove1_eq)
  then show ?thesis using ok [OF iv(1)] iv(2) by auto
qed

text \<open>The state in which an accepted invitation joins the teams.\<close>

definition before_join :: "TeamEnv \<Rightarrow> guid \<Rightarrow> PendingInvite \<Rightarrow> TeamWorld \<Rightarrow> TeamWorld" where
  "before_join env b iv tw = DequeueForCompositionChange env b
     (DequeueForCompositionChange env (pi_inviter_guid iv) (say [DeliverTeamInviteExpired b]
       (tw\<lparr>ts_invites := remove_first (\<lambda>i. pi_invitee_guid i = b) (ts_invites tw)\<rparr>)))"

lemma before_join_core [simp]:
  "ts_teams (before_join env b iv tw) = ts_teams tw" "ts_next_team_id (before_join env b iv tw) = ts_next_team_id tw"
  "ts_invites (before_join env b iv tw) = remove_first (\<lambda>i. pi_invitee_guid i = b) (ts_invites tw)"
  "ts_next_invite_id (before_join env b iv tw) = ts_next_invite_id tw"
  "FindTeamByMember g (before_join env b iv tw) = FindTeamByMember g tw"
  by (simp_all add: before_join_def FindTeamByMember_def)

lemma before_join_ok: "team_world_ok tw \<Longrightarrow> team_world_ok (before_join env b iv tw)"
  by (auto simp: team_world_ok_def intro: invites_ok_subseq subseq_remove_first)

lemma accept_cases:
  assumes "find (\<lambda>i. pi_invitee_guid i = b) (ts_invites tw) = Some iv"
  obtains (same) "team_core (AcceptInvite env b tw) = team_core (before_join env b iv tw)"
      "en_session env (pi_inviter_guid iv) = None \<or> en_session env b = None \<or> FindTeamByMember b tw \<noteq> None \<or>
       (\<exists>t. FindTeamByMember (pi_inviter_guid iv) tw = Some t \<and> te_leader_guid t \<noteq> pi_inviter_guid iv)"
  | (join) sa sb where "FindTeamByMember b tw = None"
      "\<And>t. FindTeamByMember (pi_inviter_guid iv) tw = Some t \<Longrightarrow> te_leader_guid t = pi_inviter_guid iv"
      "AcceptInvite env b tw = announce_join env (pi_inviter_guid iv) b sb
         (join_team (pi_inviter_guid iv) sa b sb (before_join env b iv tw))"
proof -
  note unf = AcceptInvite_def assms option.case Let_def before_join_def [symmetric]
  consider "en_session env (pi_inviter_guid iv) = None \<or> en_session env b = None"
    | sa sb where "en_session env (pi_inviter_guid iv) = Some sa" "en_session env b = Some sb"
    by (metis option.exhaust)
  then show thesis
  proof cases
    case 1
    then have "AcceptInvite env b tw = say [DeliverTeamSystemMessage b MSG_INVITE_EXPIRED []] (before_join env b iv tw)"
      unfolding unf by (auto split: option.split)
    then show thesis using same 1 by (simp only: core_say) blast
  next
    case 2
    let ?w = "before_join env b iv tw"
    have eq: "AcceptInvite env b tw = (if FindTeamByMember b tw \<noteq> None then ?w
        else if (case FindTeamByMember (pi_inviter_guid iv) tw of None \<Rightarrow> False | Some t \<Rightarrow> te_leader_guid t \<noteq> pi_inviter_guid iv)
        then say [DeliverTeamSystemMessage b MSG_INVITE_EXPIRED []] ?w
        else announce_join env (pi_inviter_guid iv) b sb (join_team (pi_inviter_guid iv) sa b sb ?w))"
      unfolding unf 2 prod.case before_join_core(5) ..
    show thesis
    proof (cases "FindTeamByMember b tw = None \<and>
        \<not> (case FindTeamByMember (pi_inviter_guid iv) tw of None \<Rightarrow> False | Some t \<Rightarrow> te_leader_guid t \<noteq> pi_inviter_guid iv)")
      case True
      then have no: "FindTeamByMember b tw = None"
        and lead: "\<And>t. FindTeamByMember (pi_inviter_guid iv) tw = Some t \<Longrightarrow> te_leader_guid t = pi_inviter_guid iv"
        by (auto split: option.splits)
      show thesis by (rule join [OF no lead]) (use eq True in auto)
    next
      case False
      then have "AcceptInvite env b tw = ?w \<or> AcceptInvite env b tw = say [DeliverTeamSystemMessage b MSG_INVITE_EXPIRED []] ?w"
        using eq by (auto split: if_splits)
      then have "team_core (AcceptInvite env b tw) = team_core ?w" by (metis core_say)
      then show thesis by (rule same) (use False in \<open>auto split: option.splits\<close>)
    qed
  qed
qed

lemma find_announce [simp]: "FindTeamByMember g (announce_join env a b s tw) = FindTeamByMember g tw"
  by (simp add: FindTeamByMember_def)

lemma accept_ok [team_inv]:
  assumes "team_world_ok tw" "ts_next_team_id tw < 0x8000000000000000"
  shows "team_world_ok (AcceptInvite env b tw)"
proof (cases "find (\<lambda>i. pi_invitee_guid i = b) (ts_invites tw)")
  case None
  then show ?thesis using assms(1) by (simp add: AcceptInvite_def say_ok)
next
  case (Some iv)
  show ?thesis
  proof (cases env rule: accept_cases [OF Some])
    case 1
    then show ?thesis using team_world_ok_core before_join_ok [OF assms(1)] by metis
  next
    case (2 sa sb)
    have "team_world_ok (join_team (pi_inviter_guid iv) sa b sb (before_join env b iv tw))"
      using join_ok [OF before_join_ok [OF assms(1), of env b iv], of b "pi_inviter_guid iv" sa sb]
        2(1,2) accept_found [OF Some assms(1)] assms(2) by auto
    then show ?thesis using team_world_ok_core [OF core_announce] 2(3) by metis
  qed
qed
text \<open>The teams after a player has left, and who is found in them.\<close>

lemma leave_result:
  assumes "team_world_ok tw" "FindTeamByMember g tw = Some t" "ts_teams tw = as @ t # bs"
  shows "ts_teams (snd (LeaveCurrentTeam env g tw)) =
    (if length (remove1 g (team_guids t)) \<le> 1 then as @ bs else as @ without_member g t # bs)"
proof -
  define tw1 where "tw1 = DequeueForCompositionChange env g tw"
  have find1: "FindTeamByMember g tw1 = Some t" and ts1: "ts_teams tw1 = as @ t # bs" using assms(2,3) by (simp_all add: tw1_def)
  have T: "teams_ok (as @ t # bs) (ts_next_team_id tw)" using assms(1,3) by (simp add: team_world_ok_def)
  note p = teams_ok_parts [OF T]
  have drop: "filter (\<lambda>x. te_id x \<noteq> te_id t) as = as" "filter (\<lambda>x. te_id x \<noteq> te_id t) bs = bs"
    unfolding filter_id_conv using p(5) by (metis UnCI image_eqI set_append)+
  have "g \<in> set (team_guids t)" by (rule found_team_ok(5) [OF assms(1,2)])
  then have "g \<notin> set (all_guids as)" using p(3) by auto
  then have no: "\<forall>x \<in> set as. \<not> member_of g x" by (auto simp: member_of_guids all_guids_def)
  then have up: "update_first (member_of g) f (ts_teams tw1) = as @ f t # bs" for f
    using \<open>g \<in> set (team_guids t)\<close> by (simp add: ts1 update_first_def takeWhile_append dropWhile_append member_of_guids)
  have len: "length (te_members (without_member g t)) = length (remove1 g (team_guids t))"
    by (metis without_guids without_members_length)
  show ?thesis
    unfolding LeaveCurrentTeam_def Let_def tw1_def [symmetric] find1 option.case snd_conv len
    by (simp add: drop ts1 update_team_def up [unfolded ts1])
qed

lemma member_found:
  assumes "team_world_ok tw" "t \<in> set (ts_teams tw)" "g \<in> set (team_guids t)"
  shows "FindTeamByMember g tw = Some t"
proof -
  have T: "teams_ok (ts_teams tw) (ts_next_team_id tw)" using assms(1) by (simp add: team_world_ok_def)
  obtain as bs where s: "ts_teams tw = as @ t # bs" using assms(2) by (metis split_list)
  have "g \<notin> set (all_guids as)" using teams_ok_parts(3) [OF T [unfolded s]] assms(3) by auto
  then have "find (member_of g) as = None" by (auto simp: find_None_iff member_of_guids all_guids_def)
  then show ?thesis
    unfolding FindTeamByMember_def s using assms(3) by (induction as) (auto simp: member_of_guids split: if_splits)
qed

lemma without_leader:
  "1 < length (team_guids (without_member g t)) \<Longrightarrow> te_leader_guid (without_member g t) =
     (if te_leader_guid t = g then hd (team_guids (without_member g t)) else te_leader_guid t)"
  by (cases "te_members (without_member g t)") (auto simp: without_member_def team_guids_def Let_def)

lemma solo_id_high:
  assumes "i < 0x8000000000000000"
  shows "i \<noteq> SoloPartyId hash g"
proof
  assume "i = SoloPartyId hash g"
  moreover have "bit (SoloPartyId hash g) 63" by (simp add: SoloPartyId_def bit_or_iff bit_numeral_rec)
  ultimately have "bit (unat i) 63" by (simp add: bit_unsigned_iff)
  then have "odd (unat i div 2 ^ 63)" unfolding bit_iff_odd .
  moreover have "unat i div 2 ^ 63 = 0" using assms by (simp add: word_less_nat_alt)
  ultimately show False by simp
qed

section \<open>Reachable states\<close>

text \<open>
  One step is one call of the service, or any change of the matchmaking world. The two
  counters may not be exhausted: invitation ids below \<open>2^64\<close>, team ids below \<open>2^63\<close>.
\<close>

inductive team_step :: "TeamEnv \<Rightarrow> TeamWorld \<Rightarrow> TeamWorld \<Rightarrow> bool" for env where
  invite: "names_ok env g name \<Longrightarrow> ts_next_invite_id tw < ts_next_invite_id tw + 1 \<Longrightarrow>
     team_step env tw (RequestInvite env g name target tw)"
| accept: "ts_next_team_id tw < 0x8000000000000000 \<Longrightarrow> team_step env tw (AcceptInvite env g tw)"
| leave: "team_step env tw (HandleLeave env g tw)"
| promote: "team_step env tw (PromoteLeader env g c tw)"
| kick: "team_step env tw (KickMember env g c tw)"
| expire: "team_step env tw (ExpireInvite i tw)"
| exit: "team_step env tw (HandleVoluntaryExit env g tw)"
| disconnect: "team_step env tw (HandleDisconnect env g tw)"
| difficulty: "team_step env tw (snd (SetDifficultyOverride g d tw))"
| build: "team_step env tw (snd (BuildParty env g tw))"
| notify: "team_step env tw (NotifyTeamQueued i q n tw)"
| world: "team_step env tw (tw\<lparr>ts_world := w\<rparr>)"

inductive_cases team_stepE: "team_step env tw tw'"

lemma world_ok [team_inv]: "team_world_ok (tw\<lparr>ts_world := w\<rparr>) = team_world_ok tw"
  by (simp add: team_world_ok_def)

lemma team_step_ok: "team_step env tw tw' \<Longrightarrow> team_world_ok tw \<Longrightarrow> team_world_ok tw'"
  by (induction rule: team_step.induct) (auto simp: HandleDisconnect_def intro: team_inv simp: world_ok)

lemma team_steps_ok: "(team_step env)\<^sup>*\<^sup>* tw tw' \<Longrightarrow> team_world_ok tw \<Longrightarrow> team_world_ok tw'"
  by (induction rule: rtranclp_induct) (auto dest: team_step_ok)

text \<open>Two players: the first invites the second, who accepts.\<close>

definition ex_session :: "guid \<Rightarrow> Session" where
  "ex_session g = \<lparr>se_guid = g, se_player_name = g, se_user_id = 7, se_character_id = (if g = ''a'' then 1 else 2),
     se_profile_id = 680\<rparr>"

definition ex_team_env :: TeamEnv where
  "ex_team_env = \<lparr>en_session = \<lambda>g. Some (ex_session g), en_session_by_name = \<lambda>n. Some (ex_session n),
     en_map_msg = \<lambda>_. None, en_affiliation = \<lambda>_. None, en_hash = \<lambda>_. 5, en_match = ex_env\<rparr>"

definition ex_team_world :: TeamWorld where
  "ex_team_world = \<lparr>ts_invites = [], ts_teams = [], ts_next_invite_id = 1, ts_next_team_id = 1,
     ts_world = ex_world, ts_out = []\<rparr>"

definition ex_invited :: TeamWorld where
  "ex_invited = RequestInvite ex_team_env ''a'' ''a'' ''b'' ex_team_world"

definition ex_teamed :: TeamWorld where
  "ex_teamed = AcceptInvite ex_team_env ''b'' ex_invited"

lemma ex_invited_state: "map pi_invitee_guid (ts_invites ex_invited) = [''b'']"
  by code_simp

lemma ex_teamed_state: "map team_guids (ts_teams ex_teamed) = [[''a'', ''b'']] \<and> map te_leader_guid (ts_teams ex_teamed) = [''a'']"
  by code_simp

lemma NamesEqualCi_refl: "NamesEqualCi a a"
  by (auto simp: NamesEqualCi_def list_all_iff set_zip)

lemma ex_team_start: "team_world_ok ex_team_world"
  by (simp add: team_world_ok_def teams_ok_def invites_ok_def ex_team_world_def)

lemma ex_names: "names_ok ex_team_env g g"
  by (simp add: names_ok_def ex_team_env_def ex_session_def NamesEqualCi_refl)

lemma ex_team_steps: "(team_step ex_team_env)\<^sup>*\<^sup>* ex_team_world ex_teamed"
proof -
  have "team_step ex_team_env ex_team_world ex_invited"
    unfolding ex_invited_def by (rule team_step.invite [OF ex_names]) (simp add: ex_team_world_def)
  moreover have "ts_next_team_id ex_invited = 1" by code_simp
  then have "team_step ex_team_env ex_invited ex_teamed"
    unfolding ex_teamed_def by (intro team_step.accept) simp
  ultimately show ?thesis by simp
qed

section \<open>Properties\<close>

text \<open>
  C5. Along every sequence of team operations, with the matchmaking world changing freely in
  between: team ids are distinct and below \<open>2^63\<close>, nobody is a member of two teams or twice
  of one, every team has at least two members and is led by one of them, every invitee has
  one open invitation that is not their own, and nobody has more than five outgoing ones.
\<close>

theorem team_invariant:
  assumes "(team_step env)\<^sup>*\<^sup>* tw tw'" "team_world_ok tw"
  shows "team_world_ok tw'"
  by (rule team_steps_ok [OF assms])

theorem team_invariant_witness: "team_world_ok ex_teamed \<and> map team_guids (ts_teams ex_teamed) = [[''a'', ''b'']]"
  using team_invariant [OF ex_team_steps ex_team_start] ex_teamed_state by blast

text \<open>
  Accepting an invitation joins the inviter's team. In a consistent state, when the
  inviter leads a team or has none and the invitee has none, the invitee ends up in the team
  the inviter leads, the invitation is gone, and the state is consistent. The match that the
  inviter is playing does not matter.
\<close>

theorem accept_joins_team:
  assumes "team_world_ok tw" "find (\<lambda>i. pi_invitee_guid i = b) (ts_invites tw) = Some iv"
    and "en_session env (pi_inviter_guid iv) \<noteq> None" "en_session env b \<noteq> None"
    and "\<not> IsTeamed b tw" "IsTeamed (pi_inviter_guid iv) tw = IsLeader (pi_inviter_guid iv) tw"
    and "ts_next_team_id tw < 0x8000000000000000"
  shows "\<exists>t. FindTeamByMember (pi_inviter_guid iv) (AcceptInvite env b tw) = Some t \<and>
    FindTeamByMember b (AcceptInvite env b tw) = Some t \<and> te_leader_guid t = pi_inviter_guid iv \<and>
    b \<notin> pi_invitee_guid ` set (ts_invites (AcceptInvite env b tw)) \<and> team_world_ok (AcceptInvite env b tw)"
proof -
  let ?a = "pi_inviter_guid iv" and ?w = "before_join env b iv tw" and ?tw' = "AcceptInvite env b tw"
  have ok: "team_world_ok ?tw'" by (rule accept_ok [OF assms(1,7)])
  have b: "FindTeamByMember b tw = None" using assms(5) by (simp add: IsTeamed_def)
  have lead: "te_leader_guid t = ?a" if "FindTeamByMember ?a tw = Some t" for t
    using that assms(6) by (simp add: IsTeamed_def IsLeader_def)
  show ?thesis
  proof (cases env rule: accept_cases [OF assms(2)])
    case 1
    then show ?thesis using assms(3,4) b lead by auto
  next
    case (2 sa sb)
    have "\<exists>t. FindTeamByMember ?a (join_team ?a sa b sb ?w) = Some t \<and> b \<in> set (team_guids t) \<and> te_leader_guid t = ?a"
      using join_ok [OF before_join_ok [OF assms(1), of env b iv], of b ?a sa sb] b lead accept_found [OF assms(2,1)]
        assms(7) by auto
    then obtain t where t: "FindTeamByMember ?a ?tw' = Some t" "b \<in> set (team_guids t)" "te_leader_guid t = ?a"
      unfolding 2(3) find_announce by blast
    have "FindTeamByMember b ?tw' = Some t" by (rule found_unique [OF ok t(1,2)])
    moreover have "ts_invites ?tw' = remove_first (\<lambda>i. pi_invitee_guid i = b) (ts_invites tw)"
      unfolding 2(3) by (simp add: join_team_def Let_def)
    ultimately show ?thesis using t ok accept_found [OF assms(2,1)] by auto
  qed
qed

theorem accept_joins_team_witness:
  "\<exists>t. FindTeamByMember ''b'' ex_teamed = Some t \<and> te_leader_guid t = ''a''"
proof -
  have ok: "team_world_ok ex_invited"
    unfolding ex_invited_def by (rule invite_ok [OF ex_team_start ex_names]) (simp add: ex_team_world_def)
  have "map_option pi_inviter_guid (find (\<lambda>i. pi_invitee_guid i = ''b'') (ts_invites ex_invited)) = Some ''a''"
    by code_simp
  then obtain iv where iv: "find (\<lambda>i. pi_invitee_guid i = ''b'') (ts_invites ex_invited) = Some iv" "pi_inviter_guid iv = ''a''"
    by auto
  have "\<not> IsTeamed ''b'' ex_invited" "IsTeamed ''a'' ex_invited = IsLeader ''a'' ex_invited"
    "ts_next_team_id ex_invited < 0x8000000000000000" by code_simp+
  then show ?thesis
    using accept_joins_team [OF ok iv(1), of ex_team_env] iv(2) by (auto simp: ex_team_env_def ex_teamed_def)
qed


text \<open>
  A team queues as one party: only its leader can build the party, which holds every
  member once and in order, the leader among them, carries the team's id, and can stand in a
  queue beside any solo player: the id never equals a solo party's id. Building it consumes
  the team's difficulty override.
\<close>

theorem team_party_well_formed:
  assumes "team_world_ok tw" "BuildParty env g tw = (Some p, tw')"
  shows "queue_ok [p] \<and> pt_is_team p \<and> pt_leader_guid p = g \<and> g \<in> set (member_guids p) \<and>
    member_guids p = team_guids (the (FindTeamByMember g tw)) \<and> IsLeader g tw \<and> 2 \<le> pt_size p \<and>
    pt_party_id p \<noteq> SoloPartyId hash h \<and>
    map_option te_difficulty_override (FindTeamByMember g tw') = Some ds_zero"
proof -
  obtain t where t: "FindTeamByMember g tw = Some t" "te_leader_guid t = g"
    and p: "p = \<lparr>pt_party_id = te_id t, pt_is_team = True, pt_leader_guid = g,
      pt_members = map (party_member env) (team_guids t), pt_joined_at = ev_steady_now (en_match env),
      pt_difficulty_override = te_difficulty_override t\<rparr>"
    and tw': "tw' = update_team g (\<lambda>t. t\<lparr>te_difficulty_override := ds_zero\<rparr>) tw"
    using assms(2) by (auto simp: BuildParty_def Let_def split: option.splits if_splits)
  note ok = found_team_ok [OF assms(1) t(1)]
  have g: "member_guids p = team_guids t"
    by (simp add: p party_member_def Let_def comp_def)
  have len: "pt_size p = length (te_members t)" "2 \<le> length (te_members t)"
    using ok(1) by (simp_all add: p pt_size_def team_guids_def team_ok_def)
  have "te_id t < 0x8000000000000000"
    using ok(3) assms(1) by (auto simp: team_world_ok_def teams_ok_def)
  then have solo: "te_id t \<noteq> SoloPartyId hash h" by (rule solo_id_high)
  have T: "teams_ok (ts_teams tw) (ts_next_team_id tw)" using assms(1) by (simp add: team_world_ok_def)
  obtain as bs where s: "g \<notin> set (all_guids (as @ bs))"
    "\<And>f. ts_teams (update_team g f tw) = as @ f t # bs"
    by (rule found_team [OF t(1) T]) (rule that, assumption+)
  have "find (member_of g) as = None" using s(1) by (auto simp: find_None_iff member_of_guids all_guids_def)
  then have "find (member_of g) (as @ t\<lparr>te_difficulty_override := ds_zero\<rparr> # bs) = Some (t\<lparr>te_difficulty_override := ds_zero\<rparr>)"
    using ok(5) by (induction as) (auto simp: member_of_guids team_guids_def split: if_splits)
  then have "FindTeamByMember g tw' = Some (t\<lparr>te_difficulty_override := ds_zero\<rparr>)"
    by (simp add: tw' FindTeamByMember_def s(2))
  moreover have "queue_ok [p]" using ok(2) g len by (auto simp: queue_ok_def pt_size_def)
  ultimately show ?thesis using t ok g len solo by (simp add: p IsLeader_def)
qed

theorem team_party_well_formed_witness:
  "\<exists>p. fst (BuildParty ex_team_env ''a'' ex_teamed) = Some p \<and> member_guids p = [''a'', ''b''] \<and> queue_ok [p] \<and>
     pt_party_id p \<noteq> SoloPartyId (\<lambda>_. 5) ''c''"
proof -
  have ok: "team_world_ok ex_teamed" by (rule team_steps_ok [OF ex_team_steps ex_team_start])
  have "map_option member_guids (fst (BuildParty ex_team_env ''a'' ex_teamed)) = Some [''a'', ''b'']" by code_simp
  then obtain p tw' where p: "BuildParty ex_team_env ''a'' ex_teamed = (Some p, tw')" "member_guids p = [''a'', ''b'']"
    by (cases "BuildParty ex_team_env ''a'' ex_teamed") auto
  from team_party_well_formed [OF ok p(1)] p show ?thesis by auto
qed

end
