(* ===== verification/PacketReader.thy ===== *)
theory PacketReader
  imports Prelude
begin

text \<open>
  \<open>TcpSession/PacketView.hpp\<close>, the reader of the client protocol, and the field writers of
  \<open>TcpSession.hpp\<close>. A message is a run of fields: a 16 bit tag, then a value whose shape the
  tag fixes through a table of encodings. The bytes come from the network.

  The reader indexes a raw pointer. Here every access goes through \<open>byte_at\<close>, which answers
  \<open>None\<close> outside the buffer, and an operation that makes such an access answers \<open>Fault\<close>;
  \<open>Absent\<close> is the \<open>std::nullopt\<close> (or \<open>false\<close>) of the code. Offsets are \<open>size_t\<close>: they stay below
  the buffer length plus \<open>2^32\<close> and do not wrap. Floats are their bit patterns, as \<open>memcpy\<close>
  moves them.
\<close>

unbundle bit_operations_syntax

type_synonym u8 = "8 word"
type_synonym bytes = "u8 list"

section \<open>Little-endian words\<close>

lemma ff_mask: "(0xFF :: 'a::len word) = mask 8" by (simp add: mask_eq_exp_minus_1)
lemma bit_le16: "(ucast (ucast (t AND 0xFF) :: 8 word) OR push_bit 8 (ucast (ucast (drop_bit 8 t) :: 8 word))) = (t :: 16 word)"
  unfolding ff_mask
  by (rule bit_word_eqI) (auto simp: bit_simps not_less)
lemma bit_le32: "(ucast (ucast (v AND 0xFF) :: 8 word) OR push_bit 8 (ucast (ucast (drop_bit 8 v AND 0xFF) :: 8 word)) OR push_bit 16 (ucast (ucast (drop_bit 16 v AND 0xFF) :: 8 word)) OR push_bit 24 (ucast (ucast (drop_bit 24 v AND 0xFF) :: 8 word))) = (v :: 32 word)"
proof (rule bit_word_eqI)
  fix n assume "n < LENGTH(32)"
  then have "n < 32" by simp
  then consider "n < 8" | k where "n = 8 + k" "k < 8" | k where "n = 16 + k" "k < 8" | k where "n = 24 + k" "k < 8"
    by (cases "n < 8"; cases "n < 16"; cases "n < 24") (auto intro: that(2) [of "n - 8"] that(3) [of "n - 16"] that(4) [of "n - 24"])
  then show "bit (ucast (ucast (v AND 0xFF) :: 8 word) OR push_bit 8 (ucast (ucast (drop_bit 8 v AND 0xFF) :: 8 word)) OR push_bit 16 (ucast (ucast (drop_bit 16 v AND 0xFF) :: 8 word)) OR push_bit 24 (ucast (ucast (drop_bit 24 v AND 0xFF) :: 8 word)) :: 32 word) n = bit v n"
    unfolding ff_mask by cases (auto simp: bit_simps)
qed

section \<open>Reading\<close>

datatype 'a read_result = Fault | Absent | Got 'a

primrec read_bind :: "'a read_result \<Rightarrow> ('a \<Rightarrow> 'b read_result) \<Rightarrow> 'b read_result" where
  "read_bind Fault f = Fault"
| "read_bind Absent f = Absent"
| "read_bind (Got x) f = f x"

definition byte_at :: "bytes \<Rightarrow> nat \<Rightarrow> u8 option" where
  "byte_at d p = (if p < length d then Some (d ! p) else None)"

definition get16 :: "bytes \<Rightarrow> nat \<Rightarrow> u16 option" where
  "get16 d p = (case byte_at d p of None \<Rightarrow> None
     | Some lo \<Rightarrow> (case byte_at d (p + 1) of None \<Rightarrow> None
         | Some hi \<Rightarrow> Some (ucast lo OR push_bit 8 (ucast hi))))"

definition get32 :: "bytes \<Rightarrow> nat \<Rightarrow> u32 option" where
  "get32 d p = (case byte_at d p of None \<Rightarrow> None
     | Some a \<Rightarrow> (case byte_at d (p + 1) of None \<Rightarrow> None
         | Some b \<Rightarrow> (case byte_at d (p + 2) of None \<Rightarrow> None
             | Some c \<Rightarrow> (case byte_at d (p + 3) of None \<Rightarrow> None
                 | Some e \<Rightarrow> Some (ucast a OR push_bit 8 (ucast b) OR push_bit 16 (ucast c)
                                   OR push_bit 24 (ucast e))))))"

definition sub_bytes :: "bytes \<Rightarrow> nat \<Rightarrow> nat \<Rightarrow> bytes read_result" where
  \<comment> \<open>a container built from the range \<open>ptr, ptr + len\<close>\<close>
  "sub_bytes d p n = (if p + n \<le> length d then Got (take n (drop p d)) else Fault)"

text \<open>
  The table of \<open>TcpTypes.h\<close>: 0 string, 1 float, 2 double, 3, 4, 5 unsigned of 4, 2, 1 bytes,
  6 data set, 7 date, 8 unsigned of 8 bytes, 9 uuid, 10 run of bytes with a 32 bit length.
\<close>

definition kTypeEnc :: "nat list" where
  "kTypeEnc =
    [0, 5, 1, 5, 0, 0, 0, 0, 8, 3, 1, 7, 3, 3, 0, 3, 3, 3, 3, 7, 3, 3, 0, 3, 3, 3, 3, 1, 3, 3, 2, 3, 0, 3, 3, 0, 0, 3, 2, 5,
     5, 3, 3, 3, 0, 0, 0, 0, 5, 3, 0, 3, 7, 3, 3, 3, 1, 7, 0, 1, 3, 1, 0, 3, 3, 3, 3, 3, 3, 5, 3, 0, 3, 0, 3, 3, 3, 3, 3, 3,
     3, 3, 3, 3, 3, 3, 3, 1, 3, 3, 7, 0, 0, 0, 3, 3, 3, 3, 3, 3, 7, 3, 5, 1, 1, 1, 3, 3, 3, 3, 3, 7, 3, 10, 0, 0, 0, 0, 0, 3,
     3, 3, 3, 0, 3, 1, 1, 1, 1, 5, 3, 5, 1, 1, 3, 3, 3, 3, 3, 3, 0, 5, 3, 3, 3, 3, 3, 3, 3, 1, 3, 5, 3, 3, 3, 3, 3, 3, 5, 0,
     0, 0, 0, 5, 3, 3, 3, 1, 1, 0, 0, 3, 3, 3, 2, 7, 3, 3, 3, 3, 0, 3, 3, 0, 3, 3, 1, 0, 5, 3, 3, 8, 3, 7, 0, 0, 3, 3, 5, 3,
     3, 3, 0, 0, 3, 0, 1, 1, 1, 1, 1, 1, 3, 0, 3, 1, 7, 3, 5, 3, 0, 0, 3, 0, 3, 3, 3, 1, 3, 3, 3, 3, 3, 7, 3, 0, 1, 1, 1, 1,
     3, 3, 2, 1, 2, 3, 3, 3, 1, 3, 0, 3, 1, 3, 3, 1, 1, 3, 3, 3, 3, 3, 0, 0, 0, 0, 0, 3, 6, 6, 6, 6, 6, 6, 6, 6, 6, 6, 6, 6,
     6, 6, 6, 6, 6, 6, 6, 6, 6, 6, 6, 6, 6, 6, 6, 6, 6, 6, 6, 6, 6, 6, 6, 6, 6, 6, 6, 6, 6, 6, 6, 6, 6, 6, 6, 6, 6, 6, 6, 6,
     6, 6, 6, 6, 6, 6, 6, 6, 6, 6, 6, 6, 6, 6, 6, 6, 6, 6, 6, 6, 6, 6, 6, 6, 6, 6, 6, 6, 6, 6, 6, 6, 6, 6, 6, 6, 6, 6, 6, 6,
     6, 6, 6, 6, 6, 6, 6, 6, 6, 6, 6, 6, 6, 6, 6, 6, 6, 6, 6, 6, 6, 6, 6, 6, 6, 6, 6, 6, 6, 6, 6, 6, 6, 6, 6, 6, 6, 6, 6, 6,
     6, 6, 6, 6, 6, 6, 6, 6, 6, 6, 6, 6, 6, 6, 6, 6, 6, 6, 6, 6, 6, 6, 6, 6, 6, 6, 6, 6, 6, 6, 6, 6, 6, 6, 6, 6, 6, 6, 6, 6,
     6, 6, 6, 6, 6, 6, 6, 6, 6, 6, 6, 6, 6, 6, 6, 6, 6, 6, 6, 6, 6, 0, 0, 0, 3, 0, 3, 3, 1, 3, 3, 1, 3, 0, 1, 3, 3, 3, 3, 3,
     3, 3, 3, 3, 1, 3, 1, 5, 3, 3, 3, 3, 3, 1, 2, 3, 3, 0, 1, 3, 3, 3, 3, 3, 0, 3, 0, 3, 0, 3, 3, 3, 0, 0, 3, 5, 3, 0, 3, 0,
     3, 0, 0, 3, 3, 3, 0, 0, 3, 3, 0, 0, 3, 3, 3, 3, 3, 0, 0, 0, 2, 1, 5, 1, 3, 3, 10, 3, 3, 0, 3, 3, 2, 0, 3, 3, 3, 7, 7, 3,
     3, 3, 0, 3, 7, 3, 0, 3, 3, 0, 3, 3, 0, 3, 5, 3, 3, 3, 0, 0, 3, 7, 3, 3, 3, 0, 7, 3, 0, 7, 3, 0, 3, 8, 0, 5, 5, 5, 3, 3,
     3, 3, 3, 3, 1, 3, 0, 3, 5, 0, 3, 0, 3, 3, 3, 7, 3, 0, 3, 3, 3, 3, 3, 3, 3, 0, 3, 3, 3, 3, 3, 3, 5, 0, 3, 3, 3, 3, 3, 3,
     3, 0, 3, 3, 3, 0, 0, 3, 0, 1, 1, 1, 3, 3, 3, 1, 3, 3, 3, 3, 3, 3, 3, 3, 3, 3, 3, 0, 3, 3, 3, 1, 0, 3, 0, 1, 1, 3, 3, 3,
     3, 3, 0, 0, 0, 3, 0, 0, 0, 0, 8, 3, 0, 0, 0, 0, 0, 0, 0, 0, 3, 1, 3, 3, 3, 0, 3, 3, 0, 3, 3, 0, 1, 1, 1, 3, 0, 0, 0, 2,
     3, 0, 3, 3, 0, 3, 3, 5, 3, 3, 3, 3, 0, 3, 3, 3, 3, 0, 0, 0, 0, 0, 0, 0, 0, 0, 0, 0, 0, 0, 0, 0, 0, 0, 3, 3, 3, 3, 1, 1,
     1, 3, 1, 3, 1, 3, 7, 7, 3, 0, 3, 3, 5, 3, 3, 0, 1, 1, 1, 1, 1, 1, 3, 3, 3, 3, 5, 3, 7, 3, 0, 3, 3, 3, 3, 3, 3, 3, 1, 0,
     0, 0, 3, 3, 3, 3, 0, 3, 3, 3, 0, 3, 0, 3, 3, 3, 3, 1, 1, 3, 3, 3, 3, 3, 0, 5, 3, 3, 3, 3, 3, 3, 3, 3, 3, 2, 3, 3, 3, 3,
     3, 3, 3, 1, 3, 3, 3, 3, 3, 3, 3, 0, 3, 0, 3, 3, 3, 3, 3, 3, 3, 3, 1, 3, 0, 3, 3, 3, 3, 3, 3, 3, 3, 3, 3, 0, 3, 3, 3, 0,
     0, 3, 0, 3, 3, 8, 3, 0, 3, 5, 0, 0, 3, 3, 1, 3, 5, 3, 0, 3, 6, 3, 0, 3, 5, 3, 0, 0, 5, 3, 3, 3, 3, 3, 3, 3, 0, 3, 3, 0,
     3, 0, 3, 1, 3, 3, 3, 0, 3, 3, 3, 3, 3, 3, 3, 10, 0, 0, 5, 3, 3, 3, 3, 3, 3, 5, 1, 1, 1, 3, 3, 1, 3, 5, 5, 5, 0, 3, 3, 3,
     3, 3, 3, 3, 3, 0, 3, 3, 1, 0, 1, 3, 3, 3, 3, 1, 3, 3, 3, 3, 3, 0, 3, 0, 3, 3, 3, 3, 3, 0, 3, 3, 0, 3, 0, 3, 0, 2, 3, 3,
     0, 3, 3, 1, 3, 3, 3, 1, 1, 0, 3, 0, 3, 0, 0, 8, 3, 5, 0, 0, 3, 3, 3, 3, 3, 3, 3, 3, 7, 5, 5, 3, 3, 3, 3, 1, 3, 3, 5, 3,
     3, 5, 3, 3, 3, 3, 3, 3, 3, 0, 1, 7, 3, 3, 0, 0, 0, 0, 0, 5, 3, 3, 3, 3, 1, 3, 3, 3, 5, 0, 3, 3, 3, 0, 3, 3, 3, 3, 3, 3,
     1, 0, 0, 0, 3, 3, 7, 3, 0, 3, 3, 3, 3, 1, 3, 3, 0, 3, 3, 3, 3, 0, 3, 3, 3, 3, 3, 0, 1, 1, 1, 1, 0, 1, 3, 3, 3, 1, 1, 0,
     5, 3, 3, 3, 3, 3, 3, 3, 1, 3, 3, 3, 3, 3, 7, 3, 3, 3, 5, 9, 3, 3, 3, 3, 3, 3, 0, 3, 3, 1, 3, 3, 3, 3, 3, 0, 3, 1, 3, 3,
     3, 3, 3, 3, 3, 3, 3, 3, 3, 0, 3, 3, 3, 3, 0, 3, 3, 3, 1, 3, 3, 3, 3, 3, 0, 3, 5, 3, 1, 0, 3, 3, 3, 0, 7, 3, 3, 1, 7, 3,
     5, 0, 3, 3, 3, 5, 1, 3, 1, 5, 7, 3, 3, 5, 3, 1, 1, 3, 3, 3, 3, 8, 10, 0, 3, 0, 0, 3, 0, 3, 0, 3, 0, 3, 3, 3, 5, 3, 1, 5,
     3, 0, 3, 3, 1, 3, 0, 0, 3, 3, 3, 3, 3, 3, 3, 1, 3, 3, 3, 3, 5, 3, 5, 3, 0, 0, 3, 3, 1, 3, 5, 5, 1, 3, 2, 3, 4, 3, 3, 0,
     3, 3, 1, 5, 7, 3, 1, 1, 3, 3, 3, 1, 3, 3, 7, 3, 3, 0, 0, 3, 0, 3, 3, 1, 1, 1, 1, 3, 3, 3, 3, 0, 3, 3, 3, 3, 3, 3, 3, 3,
     3, 0, 0, 0, 0, 0, 3, 1, 3, 0, 0, 3, 1, 3, 3, 3, 3, 1, 1, 1, 3, 3, 3, 3, 3, 3, 3, 3, 3, 0, 3, 0, 0, 3, 3, 3, 0, 3, 1, 3,
     3, 0, 1, 3, 3, 3, 3, 3, 3, 1, 1, 1, 3, 3, 3, 2, 3, 3, 1, 3, 0, 3, 3, 3, 6, 3, 3, 3, 6, 7, 3, 0, 0, 0, 3, 5, 3, 6, 6, 3,
     3, 3, 3, 3, 3, 3, 3, 3, 3, 5, 3, 2, 3, 0, 3, 3, 3, 3, 3, 3, 3, 3, 3, 3, 3, 3, 3, 3, 3, 3, 3, 3, 5, 3, 0, 7, 3, 2, 3, 3,
     3, 6, 7, 2, 2, 4, 4, 3, 4, 4, 4, 4, 4, 4, 3, 0, 0, 3, 3, 1, 6, 5, 0, 0, 0, 0, 6, 3, 7, 3, 6, 5, 3, 6, 6, 3, 3, 3, 2, 3,
     0, 3, 6, 3, 3, 3, 5, 5, 0, 5, 3, 6, 3, 3, 3, 3, 3, 3, 5, 3, 3, 3, 3, 0, 0, 0, 0, 5, 0, 0, 3, 1, 0, 0, 0, 8, 8, 2, 2, 2,
     5, 5, 0, 5, 6, 3, 3, 3, 3, 7, 0, 6, 0, 0, 3, 3, 3, 5, 3, 5, 0, 3, 3, 3, 3, 3, 3, 3, 5, 3, 3, 6, 3, 3, 0]"

definition encoding :: "u16 \<Rightarrow> nat" where
  "encoding type_id = (if unat type_id \<ge> 0x613 then 0xFF else kTypeEnc ! unat type_id)"

definition advance :: "bytes \<Rightarrow> nat \<Rightarrow> nat \<Rightarrow> nat read_result" where
  "advance d pos n = (if pos + n > length d then Absent else Got (pos + n))"

text \<open>
  \<open>skip_value\<close>, \<open>skip_fields\<close> and the record loop of a data set call each other; a data set may
  hold data sets. The position never moves back, so the call tree ends with the buffer.
\<close>

function (sequential) skip_value :: "bytes \<Rightarrow> nat \<Rightarrow> nat \<Rightarrow> nat read_result"
  and skip_fields :: "bytes \<Rightarrow> nat \<Rightarrow> nat \<Rightarrow> nat read_result"
  and skip_records :: "bytes \<Rightarrow> nat \<Rightarrow> nat \<Rightarrow> nat read_result" where
  "skip_value d pos enc =
     (if enc = 0 then
        (if pos + 2 > length d then Absent
         else (case get16 d pos of None \<Rightarrow> Fault
           | Some n \<Rightarrow> (if pos + 2 + unat n > length d then Absent else Got (pos + 2 + unat n))))
      else if enc = 1 then advance d pos 4
      else if enc = 2 then advance d pos 8
      else if enc = 3 then advance d pos 4
      else if enc = 4 then advance d pos 2
      else if enc = 5 then advance d pos 1
      else if enc = 6 then
        (if pos + 2 > length d then Absent
         else (case get16 d pos of None \<Rightarrow> Fault
           | Some cnt \<Rightarrow> skip_records d (pos + 2) (unat cnt)))
      else if enc = 7 then advance d pos 8
      else if enc = 8 then advance d pos 8
      else if enc = 9 then advance d pos 16
      else if enc = 10 then
        (if pos + 4 > length d then Absent
         else (case get32 d pos of None \<Rightarrow> Fault
           | Some n \<Rightarrow> (if pos + 4 + unat n > length d then Absent else Got (pos + 4 + unat n))))
      else Absent)"
| "skip_fields d pos 0 = Got pos"
| "skip_fields d pos (Suc n) =
     (if pos + 2 > length d then Absent
      else (case get16 d pos of None \<Rightarrow> Fault
        | Some tid \<Rightarrow> (case skip_value d (pos + 2) (encoding tid) of Fault \<Rightarrow> Fault | Absent \<Rightarrow> Absent
            | Got pos' \<Rightarrow> skip_fields d pos' n)))"
| "skip_records d pos 0 = Got pos"
| "skip_records d pos (Suc r) =
     (if pos + 2 > length d then Absent
      else (case get16 d pos of None \<Rightarrow> Fault
        | Some fc \<Rightarrow> (case skip_fields d (pos + 2) (unat fc) of Fault \<Rightarrow> Fault | Absent \<Rightarrow> Absent
            | Got pos' \<Rightarrow> skip_records d pos' r)))"
  by pat_completeness auto

termination
proof -
  have forward:
    "skip_value_skip_fields_skip_records_dom (Inl (d, pos, enc)) \<Longrightarrow> skip_value d pos enc = Got p \<Longrightarrow> pos \<le> p"
    "skip_value_skip_fields_skip_records_dom (Inr (Inl (d, pos, n))) \<Longrightarrow> skip_fields d pos n = Got p \<Longrightarrow> pos \<le> p"
    "skip_value_skip_fields_skip_records_dom (Inr (Inr (d, pos, r))) \<Longrightarrow> skip_records d pos r = Got p \<Longrightarrow> pos \<le> p"
    for d pos enc n r p
  proof (induction d pos enc and d pos n and d pos r arbitrary: p and p and p
      rule: skip_value_skip_fields_skip_records.pinduct)
    case (1 d pos enc)
    then show ?case
      by (fastforce simp: skip_value.psimps advance_def split: if_splits option.splits)
  next
    case (3 d pos n)
    then show ?case
      by (fastforce simp: skip_fields.psimps split: if_splits option.splits read_result.splits)
  next
    case (5 d pos r)
    then show ?case
      by (fastforce simp: skip_records.psimps split: if_splits option.splits read_result.splits)
  qed (simp_all add: skip_fields.psimps skip_records.psimps)
  show ?thesis
    by (relation "measures [\<lambda>c. case c of Inl (d, pos, _) \<Rightarrow> length d + 1 - pos
          | Inr (Inl (d, pos, _)) \<Rightarrow> length d + 1 - pos | Inr (Inr (d, pos, _)) \<Rightarrow> length d + 1 - pos,
        \<lambda>c. case c of Inl _ \<Rightarrow> 0 | Inr (Inl (_, _, n)) \<Rightarrow> n | Inr (Inr (_, _, r)) \<Rightarrow> r]")
      (auto dest: forward)
qed

declare skip_value.simps [simp del]

lemma get16_in_bounds: "p + 2 \<le> length d \<Longrightarrow> get16 d p \<noteq> None"
  by (simp add: get16_def byte_at_def)

lemma get32_in_bounds: "p + 4 \<le> length d \<Longrightarrow> get32 d p \<noteq> None"
  by (simp add: get32_def byte_at_def)

text \<open>An outcome of a skip from \<open>pos\<close>: never a fault, and a position between \<open>pos\<close> and the end.\<close>

definition skipped :: "bytes \<Rightarrow> nat \<Rightarrow> nat read_result \<Rightarrow> bool" where
  "skipped d pos r = (case r of Fault \<Rightarrow> False | Absent \<Rightarrow> True | Got p \<Rightarrow> pos \<le> p \<and> p \<le> length d)"

lemma skipped_simps [simp]:
  "\<not> skipped d pos Fault" "skipped d pos Absent"
  "skipped d pos (Got p) \<longleftrightarrow> pos \<le> p \<and> p \<le> length d"
  by (simp_all add: skipped_def)

lemma skipped_from: "skipped d q r \<Longrightarrow> p \<le> q \<Longrightarrow> skipped d p r"
  by (cases r) auto

lemma skipped_advance: "skipped d pos (advance d pos n)"
  by (simp add: advance_def)

lemma skip_in_bounds:
  "pos \<le> length d \<Longrightarrow> skipped d pos (skip_value d pos enc)"
  "pos \<le> length d \<Longrightarrow> skipped d pos (skip_fields d pos n)"
  "pos \<le> length d \<Longrightarrow> skipped d pos (skip_records d pos r)"
proof (induction d pos enc and d pos n and d pos r
    rule: skip_value_skip_fields_skip_records.induct)
  case (1 d pos enc)
  note IH = "1.IH"
  show ?case
  proof (cases "enc = 6")
    case True
    show ?thesis
    proof (cases "pos + 2 > length d")
      case False
      then obtain c where c: "get16 d pos = Some c" using get16_in_bounds [of pos d] by fastforce
      have "skipped d (pos + 2) (skip_records d (pos + 2) (unat c))"
        using IH [OF _ _ _ _ _ _ True False c] True False by simp
      moreover have "skip_value d pos enc = skip_records d (pos + 2) (unat c)"
        using c True False by (simp add: skip_value.simps)
      ultimately show ?thesis by (simp add: skipped_from [of d "pos + 2"])
    qed (simp add: True skip_value.simps)
  next
    case False
    then show ?thesis
      using get16_in_bounds [of pos d] get32_in_bounds [of pos d]
      by (auto simp: skip_value.simps skipped_advance not_less split: option.splits)
  qed
next
  case (3 d pos n)
  show ?case
  proof (cases "pos + 2 > length d")
    case False
    then obtain t where t: "get16 d pos = Some t" using get16_in_bounds [of pos d] by fastforce
    have v: "skipped d (pos + 2) (skip_value d (pos + 2) (encoding t))"
      using "3.IH"(1) [OF False t] False by simp
    show ?thesis
    proof (cases "skip_value d (pos + 2) (encoding t)")
      case (Got p)
      with v have "pos + 2 \<le> p" "p \<le> length d" by simp_all
      with "3.IH"(2) [OF False t Got] t False Got show ?thesis
        by (simp add: skipped_from [of d p])
    qed (use t v False in simp_all)
  qed simp
next
  case (5 d pos r)
  show ?case
  proof (cases "pos + 2 > length d")
    case False
    then obtain t where t: "get16 d pos = Some t" using get16_in_bounds [of pos d] by fastforce
    have v: "skipped d (pos + 2) (skip_fields d (pos + 2) (unat t))"
      using "5.IH"(1) [OF False t] False by simp
    show ?thesis
    proof (cases "skip_fields d (pos + 2) (unat t)")
      case (Got p)
      with v have "pos + 2 \<le> p" "p \<le> length d" by simp_all
      with "5.IH"(2) [OF False t Got] t False Got show ?thesis
        by (simp add: skipped_from [of d p])
    qed (use t v False in simp_all)
  qed simp
qed simp_all

section \<open>Finding a field\<close>

lemma skip_value_bounds:
  assumes "skip_value d p enc = Got p'" "p \<le> length d"
  shows "p \<le> p' \<and> p' \<le> length d"
  using skip_in_bounds(1) [OF assms(2), of enc] assms(1) by simp

text \<open>A reference to a value: its offset and length. Of a string, the payload alone.\<close>

function find_from :: "bytes \<Rightarrow> u16 \<Rightarrow> nat \<Rightarrow> (nat \<times> nat) read_result" where
  "find_from d ty pos =
     (if pos + 2 \<le> length d then
        (case get16 d pos of None \<Rightarrow> Fault
         | Some tid \<Rightarrow>
            (case skip_value d (pos + 2) (encoding tid) of Fault \<Rightarrow> Fault | Absent \<Rightarrow> Absent
             | Got pos' \<Rightarrow>
                (if tid = ty then
                   (if encoding tid = 0 then
                      (case get16 d (pos + 2) of None \<Rightarrow> Fault
                       | Some n \<Rightarrow> Got (pos + 2 + 2, unat n))
                    else Got (pos + 2, pos' - (pos + 2)))
                 else find_from d ty pos')))
      else Absent)"
  by pat_completeness auto

termination
  by (relation "measure (\<lambda>(d, ty, pos). length d + 1 - pos)")
    (auto dest!: skip_value_bounds)

declare find_from.simps [simp del]

definition find_field :: "bytes \<Rightarrow> u16 \<Rightarrow> (nat \<times> nat) read_result" where
  "find_field d ty = find_from d ty 0"

section \<open>The readers\<close>

definition Read1B :: "bytes \<Rightarrow> u16 \<Rightarrow> u8 read_result" where
  "Read1B d ty = read_bind (find_field d ty) (\<lambda>(p, n).
     if n < 1 then Absent else (case byte_at d p of None \<Rightarrow> Fault | Some b \<Rightarrow> Got b))"

definition Read2B :: "bytes \<Rightarrow> u16 \<Rightarrow> u16 read_result" where
  "Read2B d ty = read_bind (find_field d ty) (\<lambda>(p, n).
     if n < 2 then Absent else (case get16 d p of None \<Rightarrow> Fault | Some v \<Rightarrow> Got v))"

definition Read4B :: "bytes \<Rightarrow> u16 \<Rightarrow> u32 read_result" where
  "Read4B d ty = read_bind (find_field d ty) (\<lambda>(p, n).
     if n < 4 then Absent else (case get32 d p of None \<Rightarrow> Fault | Some v \<Rightarrow> Got v))"

definition ReadFloat :: "bytes \<Rightarrow> u16 \<Rightarrow> u32 read_result" where
  "ReadFloat d ty = read_bind (find_field d ty) (\<lambda>(p, n).
     if n < 4 then Absent else (case get32 d p of None \<Rightarrow> Fault | Some v \<Rightarrow> Got v))"

definition ReadDouble :: "bytes \<Rightarrow> u16 \<Rightarrow> bytes read_result" where
  "ReadDouble d ty = read_bind (find_field d ty) (\<lambda>(p, n).
     if n < 8 then Absent else sub_bytes d p 8)"

definition ReadString :: "bytes \<Rightarrow> u16 \<Rightarrow> bytes read_result" where
  "ReadString d ty = read_bind (find_field d ty) (\<lambda>(p, n). sub_bytes d p n)"

text \<open>
  \<open>std::wstring(ptr, len)\<close> copies \<open>len\<close> objects of type \<open>wchar_t\<close>, whose size \<open>wc\<close> is the
  platform's: 4 bytes on Linux, where the control server runs, 2 on Windows. The result is the
  block of memory read.
\<close>

definition ReadWideString :: "nat \<Rightarrow> bytes \<Rightarrow> u16 \<Rightarrow> bytes read_result" where
  "ReadWideString wc d ty = read_bind (find_field d ty) (\<lambda>(p, n).
     if n < 2 then Absent
     else (case get16 d p of None \<Rightarrow> Fault
       | Some len \<Rightarrow> (if n < 2 + unat len * 2 then Absent else sub_bytes d (p + 2) (unat len * wc))))"

definition ReadNBytes :: "bytes \<Rightarrow> u16 \<Rightarrow> bytes read_result" where
  "ReadNBytes d ty = read_bind (find_field d ty) (\<lambda>(p, n). sub_bytes d p n)"

definition Exists :: "bytes \<Rightarrow> u16 \<Rightarrow> bool read_result" where
  "Exists d ty = (case find_field d ty of Fault \<Rightarrow> Fault | Absent \<Rightarrow> Got False | Got _ \<Rightarrow> Got True)"

text \<open>
  \<open>GetDataSet\<close> answers one view per record; a data set cut short gives the records that are
  complete. A view is the slice of its record.
\<close>

primrec data_set_records :: "bytes \<Rightarrow> nat \<Rightarrow> nat \<Rightarrow> bytes list read_result" where
  "data_set_records d 0 pos = Got []"
| "data_set_records d (Suc r) pos =
     (if pos + 2 > length d then Got []
      else (case get16 d pos of None \<Rightarrow> Fault
        | Some fcount \<Rightarrow> (case skip_fields d (pos + 2) (unat fcount) of Fault \<Rightarrow> Fault | Absent \<Rightarrow> Got []
            | Got pos' \<Rightarrow> read_bind (sub_bytes d (pos + 2) (pos' - (pos + 2))) (\<lambda>v.
                 read_bind (data_set_records d r pos') (\<lambda>vs. Got (v # vs))))))"

function data_set_from :: "bytes \<Rightarrow> u16 \<Rightarrow> nat \<Rightarrow> bytes list read_result" where
  "data_set_from d ty pos =
     (if pos + 2 \<le> length d then
        (case get16 d pos of None \<Rightarrow> Fault
         | Some tid \<Rightarrow>
            (if tid = ty \<and> encoding tid = 6 then
               (if pos + 4 > length d then Got []
                else (case get16 d (pos + 2) of None \<Rightarrow> Fault
                  | Some cnt \<Rightarrow> data_set_records d (unat cnt) (pos + 4)))
             else (case skip_value d (pos + 2) (encoding tid) of Fault \<Rightarrow> Fault | Absent \<Rightarrow> Got []
                 | Got pos' \<Rightarrow> data_set_from d ty pos')))
      else Got [])"
  by pat_completeness auto

termination
  by (relation "measure (\<lambda>(d, ty, pos). length d + 1 - pos)")
    (auto dest!: skip_value_bounds)

declare data_set_from.simps [simp del]

definition GetDataSet :: "bytes \<Rightarrow> u16 \<Rightarrow> bytes list read_result" where
  "GetDataSet d ty = data_set_from d ty 0"

section \<open>The field writers\<close>

definition WriteTLV :: "bytes \<Rightarrow> u16 \<Rightarrow> bytes \<Rightarrow> bytes" where
  "WriteTLV buffer ty v = buffer @ [ucast (ty AND 0xFF), ucast (drop_bit 8 ty)] @ v"

definition Write1B :: "bytes \<Rightarrow> u16 \<Rightarrow> u8 \<Rightarrow> bytes" where
  "Write1B buffer ty v = buffer @ [ucast (ty AND 0xFF), ucast (drop_bit 8 ty), v]"

definition Write2B :: "bytes \<Rightarrow> u16 \<Rightarrow> u16 \<Rightarrow> bytes" where
  "Write2B buffer ty v = buffer @ [ucast (ty AND 0xFF), ucast (drop_bit 8 ty),
     ucast (v AND 0xFF), ucast (drop_bit 8 v)]"

definition Write4B :: "bytes \<Rightarrow> u16 \<Rightarrow> u32 \<Rightarrow> bytes" where
  "Write4B buffer ty v = buffer @ [ucast (ty AND 0xFF), ucast (drop_bit 8 ty),
     ucast (v AND 0xFF), ucast (drop_bit 8 v AND 0xFF), ucast (drop_bit 16 v AND 0xFF),
     ucast (drop_bit 24 v AND 0xFF)]"

definition WriteString :: "bytes \<Rightarrow> u16 \<Rightarrow> bytes \<Rightarrow> bytes" where
  \<comment> \<open>one byte of length, then a zero, whatever the length of the string\<close>
  "WriteString buffer ty s = buffer @ [ucast (ty AND 0xFF), ucast (drop_bit 8 ty),
     word_of_nat (length s), 0] @ s"

definition WriteWideString :: "bytes \<Rightarrow> u16 \<Rightarrow> u32 list \<Rightarrow> bytes" where
  "WriteWideString buffer ty s =
     (let n = word_of_nat (length s) :: u16
      in buffer @ [ucast (ty AND 0xFF), ucast (drop_bit 8 ty), ucast (n AND 0xFF), ucast (drop_bit 8 n)]
         @ concat (map (\<lambda>ch. [ucast (ch AND 0xFF), ucast (drop_bit 8 ch AND 0xFF)]) s))"

definition WriteNBytes :: "bytes \<Rightarrow> u16 \<Rightarrow> bytes \<Rightarrow> bytes" where
  "WriteNBytes buffer ty bs = buffer @ [ucast (ty AND 0xFF), ucast (drop_bit 8 ty)] @ bs"

definition WriteNBytesRaw :: "bytes \<Rightarrow> bytes \<Rightarrow> bytes" where
  "WriteNBytesRaw buffer bs = buffer @ bs"

definition WriteFloat :: "bytes \<Rightarrow> u16 \<Rightarrow> u32 \<Rightarrow> bytes" where
  "WriteFloat buffer ty raw = buffer @ [ucast (ty AND 0xFF), ucast (drop_bit 8 ty),
     ucast (raw AND 0xFF), ucast (drop_bit 8 raw AND 0xFF), ucast (drop_bit 16 raw AND 0xFF),
     ucast (drop_bit 24 raw AND 0xFF)]"

definition WriteDouble :: "bytes \<Rightarrow> u16 \<Rightarrow> u64 \<Rightarrow> bytes" where
  "WriteDouble buffer ty raw = buffer @ [ucast (ty AND 0xFF), ucast (drop_bit 8 ty)]
     @ map (\<lambda>k. ucast (drop_bit k raw AND 0xFF)) [0, 8, 16, 24, 32, 40, 48, 56]"

section \<open>Reading stays inside the buffer\<close>

lemma find_from_in_bounds:
  "pos \<le> length d \<Longrightarrow> find_from d ty pos \<noteq> Fault \<and>
     (\<forall>p n. find_from d ty pos = Got (p, n) \<longrightarrow> p + n \<le> length d)"
proof (induction d ty pos rule: find_from.induct)
  case (1 d ty pos)
  show ?case
  proof (cases "pos + 2 \<le> length d")
    case True
    then obtain t where t: "get16 d pos = Some t" using get16_in_bounds [of pos d] by fastforce
    have v: "skipped d (pos + 2) (skip_value d (pos + 2) (encoding t))"
      by (rule skip_in_bounds(1)) (use True in simp)
    show ?thesis
    proof (cases "skip_value d (pos + 2) (encoding t)")
      case (Got q)
      with v have q: "pos + 2 \<le> q" "q \<le> length d" by simp_all
      have str: "get16 d (pos + 2) \<noteq> None \<and> (\<forall>n. get16 d (pos + 2) = Some n \<longrightarrow> pos + 4 + unat n \<le> length d)"
        if "encoding t = 0"
        using that Got q by (auto simp: skip_value.simps split: if_splits option.splits)
      show ?thesis
        using "1.IH" [OF True t Got] q True t Got str
        by (subst (1 2) find_from.simps) (auto split: option.splits)
    qed (use v t True in \<open>simp_all add: find_from.simps\<close>)
  qed (simp add: find_from.simps)
qed

lemma find_field_in_bounds:
  "find_field d ty \<noteq> Fault" "find_field d ty = Got (p, n) \<Longrightarrow> p + n \<le> length d"
  using find_from_in_bounds [of 0 d ty] by (simp_all add: find_field_def)

lemma data_set_records_no_fault: "pos \<le> length d \<Longrightarrow> data_set_records d r pos \<noteq> Fault"
proof (induction r arbitrary: pos)
  case (Suc r)
  show ?case
  proof (cases "pos + 2 > length d")
    case False
    then obtain t where t: "get16 d pos = Some t" using get16_in_bounds [of pos d] by fastforce
    have v: "skipped d (pos + 2) (skip_fields d (pos + 2) (unat t))"
      by (rule skip_in_bounds(2)) (use False in simp)
    show ?thesis
    proof (cases "skip_fields d (pos + 2) (unat t)")
      case (Got q)
      with v have q: "pos + 2 \<le> q" "q \<le> length d" by simp_all
      with Suc.IH [of q] show ?thesis
        using t Got False by (cases "data_set_records d r q") (simp_all add: sub_bytes_def)
    qed (use v t False in simp_all)
  qed simp
qed simp

lemma data_set_from_no_fault: "pos \<le> length d \<Longrightarrow> data_set_from d ty pos \<noteq> Fault"
proof (induction d ty pos rule: data_set_from.induct)
  case (1 d ty pos)
  show ?case
  proof (cases "pos + 2 \<le> length d")
    case True
    then obtain t where t: "get16 d pos = Some t" using get16_in_bounds [of pos d] by fastforce
    show ?thesis
    proof (cases "t = ty \<and> encoding t = 6")
      case set: True
      then show ?thesis
        using True t get16_in_bounds [of "pos + 2" d] data_set_records_no_fault [of "pos + 4" d]
        by (subst data_set_from.simps) (auto simp: not_less split: option.splits)
    next
      case False
      have v: "skipped d (pos + 2) (skip_value d (pos + 2) (encoding t))"
        by (rule skip_in_bounds(1)) (use True in simp)
      show ?thesis
      proof (cases "skip_value d (pos + 2) (encoding t)")
        case (Got q)
        with v have "q \<le> length d" by simp
        from "1.IH" [OF True t False Got this] show ?thesis
          using t True False Got by (subst data_set_from.simps) auto
      qed (use v t True False in \<open>auto simp: data_set_from.simps\<close>)
    qed
  qed (simp add: data_set_from.simps)
qed

lemma get16_field: "get16 d p = None \<Longrightarrow> p + n \<le> length d \<Longrightarrow> n < 2"
  using get16_in_bounds [of p d] by fastforce

lemma get32_field: "get32 d p = None \<Longrightarrow> p + n \<le> length d \<Longrightarrow> n < 4"
  using get32_in_bounds [of p d] by fastforce

lemma read_bind_no_fault:
  "r \<noteq> Fault \<Longrightarrow> (\<And>x. r = Got x \<Longrightarrow> f x \<noteq> Fault) \<Longrightarrow> read_bind r f \<noteq> Fault"
  by (cases r) auto

lemma wide_no_fault: "wc \<le> 2 \<Longrightarrow> ReadWideString wc d ty \<noteq> Fault"
  unfolding ReadWideString_def
proof (rule read_bind_no_fault, rule find_field_in_bounds, clarify)
  fix p n
  assume wc: "wc \<le> 2" and f: "find_field d ty = Got (p, n)"
    and "(if n < 2 then Absent else case get16 d p of None \<Rightarrow> Fault
      | Some len \<Rightarrow> (if n < 2 + unat len * 2 then Absent else sub_bytes d (p + 2) (unat len * wc))) = Fault"
  then have n: "2 \<le> n"
    and g: "get16 d p = None \<or> (\<exists>len :: u16. 2 + unat len * 2 \<le> n \<and> sub_bytes d (p + 2) (unat len * wc) = Fault)"
    by (auto simp: not_less split: if_splits option.splits)
  have b: "p + n \<le> length d" by (rule find_field_in_bounds(2)) (rule f)
  have "unat (len :: u16) * wc \<le> unat len * 2" for len using wc by simp
  moreover have "get16 d p \<noteq> None" by (rule get16_in_bounds) (use n b in simp)
  ultimately obtain len :: u16 where len: "2 + unat len * 2 \<le> n"
    "sub_bytes d (p + 2) (unat len * wc) = Fault" "unat len * wc \<le> unat len * 2"
    using g by auto
  then have "p + 2 + unat len * wc \<le> length d" using b by linarith
  with len(2) show False by (simp add: sub_bytes_def)
qed

text \<open>
  C16. Whatever bytes a client sends, no reader of \<open>PacketView\<close> looks past the end of the packet: the scan
  for a field, the fixed-width readers, the narrow string, the raw bytes and the data set never
  fault, and neither does the wide string where \<open>wchar_t\<close> has two bytes. A cut or malformed packet
  is an absent field.
\<close>

theorem packet_reader_in_bounds:
  "find_field d ty \<noteq> Fault \<and> Exists d ty \<noteq> Fault \<and> Read1B d ty \<noteq> Fault \<and> Read2B d ty \<noteq> Fault
   \<and> Read4B d ty \<noteq> Fault \<and> ReadFloat d ty \<noteq> Fault \<and> ReadDouble d ty \<noteq> Fault \<and> ReadString d ty \<noteq> Fault
   \<and> ReadNBytes d ty \<noteq> Fault \<and> GetDataSet d ty \<noteq> Fault \<and> ReadWideString 2 d ty \<noteq> Fault"
proof -
  have field: "read_bind (find_field d ty) f \<noteq> Fault"
    if "\<And>p n. p + n \<le> length d \<Longrightarrow> f (p, n) \<noteq> Fault" for f :: "nat \<times> nat \<Rightarrow> 'x read_result"
    by (rule read_bind_no_fault) (auto simp: find_field_in_bounds that)
  have "Exists d ty \<noteq> Fault" using find_field_in_bounds(1) [of d ty]
    by (simp add: Exists_def split: read_result.splits)
  moreover have "GetDataSet d ty \<noteq> Fault"
    by (simp add: GetDataSet_def data_set_from_no_fault)
  moreover have "Read1B d ty \<noteq> Fault" "ReadDouble d ty \<noteq> Fault" "ReadString d ty \<noteq> Fault" "ReadNBytes d ty \<noteq> Fault"
    unfolding Read1B_def ReadDouble_def ReadString_def ReadNBytes_def
    by (rule field, simp add: byte_at_def sub_bytes_def)+
  moreover have "Read2B d ty \<noteq> Fault" unfolding Read2B_def
    by (rule field) (auto split: option.splits dest: get16_field)
  moreover have "Read4B d ty \<noteq> Fault" "ReadFloat d ty \<noteq> Fault" unfolding Read4B_def ReadFloat_def
    by (rule field, (auto split: option.splits dest: get32_field)[1])+
  ultimately show ?thesis by (simp add: find_field_in_bounds(1) wide_no_fault)
qed

end
