(* ===== verification/PacketRoundtrip.thy ===== *)
theory PacketRoundtrip
  imports PacketReader
begin

text \<open>
  What the readers of \<open>PacketReader\<close> get back from a message the writers made. A \<open>Field\<close> is
  a field as the server writes it, with a data set holding records of fields; \<open>put\<close> is its
  bytes, made with the writers, and \<open>field_ok\<close> the shape the table of encodings asks of it.
\<close>

section \<open>Messages\<close>

datatype Field =
    F1 u16 u8
  | F2 u16 u16
  | F4 u16 u32
  | F8 u16 u64
  | FStr u16 bytes
  | FSet u16 "Field list list"

primrec tag :: "Field \<Rightarrow> u16" where
  "tag (F1 t v) = t"
| "tag (F2 t v) = t"
| "tag (F4 t v) = t"
| "tag (F8 t v) = t"
| "tag (FStr t v) = t"
| "tag (FSet t v) = t"

definition le16 :: "u16 \<Rightarrow> bytes" where
  "le16 t = [ucast (t AND 0xFF), ucast (drop_bit 8 t)]"

text \<open>A data set is its tag, the number of records, and for each the number of its fields and the fields.\<close>

fun put :: "Field \<Rightarrow> bytes" where
  "put (F1 t v) = Write1B [] t v"
| "put (F2 t v) = Write2B [] t v"
| "put (F4 t v) = Write4B [] t v"
| "put (F8 t v) = WriteDouble [] t v"
| "put (FStr t s) = WriteString [] t s"
| "put (FSet t rs) = WriteTLV [] t (le16 (word_of_nat (length rs))
     @ concat (map (\<lambda>fs. le16 (word_of_nat (length fs)) @ concat (map put fs)) rs))"

abbreviation put_all :: "Field list \<Rightarrow> bytes" where
  "put_all fs \<equiv> concat (map put fs)"

abbreviation put_record :: "Field list \<Rightarrow> bytes" where
  "put_record fs \<equiv> le16 (word_of_nat (length fs)) @ put_all fs"

fun field_ok :: "Field \<Rightarrow> bool" where
  "field_ok (F1 t v) = (encoding t = 5)"
| "field_ok (F2 t v) = (encoding t = 4)"
| "field_ok (F4 t v) = (encoding t = 3 \<or> encoding t = 1)"
| "field_ok (F8 t v) = (encoding t = 2 \<or> encoding t = 8)"
| "field_ok (FStr t s) = (encoding t = 0 \<and> length s < 256)"
| "field_ok (FSet t rs) = (encoding t = 6 \<and> length rs < 65536
     \<and> list_all (\<lambda>fs. length fs < 65536 \<and> list_all field_ok fs) rs)"

section \<open>Skipping what was written\<close>

lemma byte_at_append [simp]:
  "byte_at (pre @ b # post) (length pre) = Some b"
  "byte_at (pre @ a # b # post) (Suc (length pre)) = Some b"
  "byte_at (pre @ a # b # c # post) (length pre + 2) = Some c"
  "byte_at (pre @ a # b # c # e # post) (length pre + 3) = Some e"
  by (simp_all add: byte_at_def nth_append)

lemma get16_le16: "get16 (pre @ le16 t @ post) (length pre) = Some t"
  by (simp add: get16_def le16_def bit_le16)

lemma get16_le16_at: "p = length pre \<Longrightarrow> get16 (pre @ le16 t @ post) p = Some t"
  by (simp add: get16_le16)

lemma length_le16 [simp]: "length (le16 t) = 2"
  by (simp add: le16_def)

definition value_bytes :: "Field \<Rightarrow> bytes" where
  "value_bytes f = drop 2 (put f)"

lemma put_tag: "put f = le16 (tag f) @ value_bytes f"
  by (cases f) (simp_all add: value_bytes_def le16_def Write1B_def Write2B_def Write4B_def
      WriteDouble_def WriteString_def WriteTLV_def)

lemma length_put: "length (put f) = 2 + length (value_bytes f)"
  by (simp add: put_tag)

definition bytes_of_u64 :: "u64 \<Rightarrow> bytes" where
  "bytes_of_u64 y = map (\<lambda>k. ucast (drop_bit k y AND 0xFF)) [0, 8, 16, 24, 32, 40, 48, 56]"

lemma length_bytes_of_u64 [simp]: "length (bytes_of_u64 y) = 8"
  by (simp add: bytes_of_u64_def)

lemma value_bytes_simps:
  "value_bytes (F1 t v) = [v]"
  "value_bytes (F2 t w) = le16 w"
  "value_bytes (F4 t x) = [ucast (x AND 0xFF), ucast (drop_bit 8 x AND 0xFF),
     ucast (drop_bit 16 x AND 0xFF), ucast (drop_bit 24 x AND 0xFF)]"
  "value_bytes (F8 t y) = bytes_of_u64 y"
  "length s < 256 \<Longrightarrow> value_bytes (FStr t s) = le16 (word_of_nat (length s)) @ s"
  "value_bytes (FSet t rs) = le16 (word_of_nat (length rs)) @ concat (map put_record rs)"
proof -
  show "value_bytes (FStr t s) = le16 (word_of_nat (length s)) @ s" if "length s < 256"
  proof -
    have "(ucast (word_of_nat (length s) AND 0xFF :: u16) :: u8) = word_of_nat (length s)"
      unfolding ff_mask by (rule bit_word_eqI) (auto simp: bit_simps)
    moreover have "(ucast (drop_bit 8 (word_of_nat (length s) :: u16)) :: u8) = 0"
      using that by (simp add: word_eq_iff_unsigned drop_bit_eq_div unsigned_ucast_eq unsigned_of_nat
          take_bit_nat_eq_self word_arith_nat_div unat_of_nat)
    ultimately show ?thesis by (simp add: value_bytes_def WriteString_def le16_def)
  qed
qed (simp_all add: value_bytes_def le16_def Write1B_def Write2B_def Write4B_def WriteDouble_def bytes_of_u64_def WriteTLV_def)

definition skips_put :: "Field \<Rightarrow> bool" where
  "skips_put f = (\<forall>pre post. skip_value (pre @ put f @ post) (length pre + 2) (encoding (tag f))
     = Got (length pre + length (put f)))"

lemma skips_putD:
  "skips_put f \<Longrightarrow> skip_value (pre @ put f @ post) (length pre + 2) (encoding (tag f))
     = Got (length pre + length (put f))"
  by (simp add: skips_put_def)

declare add_2_eq_Suc [simp del] add_2_eq_Suc' [simp del]

lemma skip_fields_put:
  "(\<And>f. f \<in> set fs \<Longrightarrow> skips_put f) \<Longrightarrow>
     skip_fields (pre @ put_all fs @ post) (length pre) (length fs) = Got (length pre + length (put_all fs))"
proof (induction fs arbitrary: pre)
  case (Cons f fs)
  let ?d = "pre @ put f @ put_all fs @ post"
  have g: "get16 ?d (length pre) = Some (tag f)" by (simp add: put_tag get16_le16)
  have s: "skip_value ?d (length pre + 2) (encoding (tag f)) = Got (length pre + length (put f))"
    using skips_putD [of f pre "put_all fs @ post"] Cons.prems [of f] by simp
  have "skip_fields ((pre @ put f) @ put_all fs @ post) (length (pre @ put f)) (length fs)
      = Got (length (pre @ put f) + length (put_all fs))"
    by (rule Cons.IH) (use Cons.prems in simp)
  with g s show ?case by (simp add: length_put)
qed simp

lemma skip_records_put:
  "(\<And>fs. fs \<in> set rs \<Longrightarrow> length fs < 65536 \<and> (\<forall>f\<in>set fs. skips_put f)) \<Longrightarrow>
     skip_records (pre @ concat (map put_record rs) @ post) (length pre) (length rs)
       = Got (length pre + length (concat (map put_record rs)))"
proof (induction rs arbitrary: pre)
  case (Cons fs rs)
  let ?c = "le16 (word_of_nat (length fs))"
  let ?rest = "concat (map put_record rs)"
  let ?d = "pre @ ?c @ put_all fs @ ?rest @ post"
  have g: "get16 ?d (length pre) = Some (word_of_nat (length fs))" by (rule get16_le16)
  have n: "unat (word_of_nat (length fs) :: u16) = length fs"
    using Cons.prems [of fs] by (simp add: unat_of_nat)
  have f: "skip_fields ((pre @ ?c) @ put_all fs @ ?rest @ post) (length (pre @ ?c)) (length fs)
      = Got (length (pre @ ?c) + length (put_all fs))"
    by (rule skip_fields_put) (use Cons.prems [of fs] in simp)
  have r: "skip_records ((pre @ ?c @ put_all fs) @ ?rest @ post) (length (pre @ ?c @ put_all fs)) (length rs)
      = Got (length (pre @ ?c @ put_all fs) + length ?rest)"
    by (rule Cons.IH, rule Cons.prems) simp
  from f r show ?case using g n by (simp add: ac_simps)
qed simp

lemma skips_put: "field_ok f \<Longrightarrow> skips_put f"
proof (induction f)
  case (FStr t s)
  have "get16 ((pre @ le16 t) @ le16 (word_of_nat (length s)) @ s @ post) (length pre + 2)
      = Some (word_of_nat (length s))" for pre post
    by (rule get16_le16_at) simp
  with FStr show ?case
    by (auto simp: skips_put_def skip_value.simps put_tag value_bytes_simps unat_of_nat)
next
  case (FSet t rs)
  note IH = FSet.IH
  have ok: "encoding t = 6" "length rs < 65536"
    "\<And>fs. fs \<in> set rs \<Longrightarrow> length fs < 65536 \<and> (\<forall>f\<in>set fs. skips_put f)"
    using FSet.prems IH by (fastforce simp: list_all_iff)+
  have g: "get16 ((pre @ le16 t) @ le16 (word_of_nat (length rs)) @ concat (map put_record rs) @ post) (length pre + 2)
      = Some (word_of_nat (length rs))" for pre post
    by (rule get16_le16_at) simp
  have "skip_records ((pre @ le16 t @ le16 (word_of_nat (length rs))) @ concat (map put_record rs) @ post)
      (length (pre @ le16 t @ le16 (word_of_nat (length rs)))) (length rs)
    = Got (length (pre @ le16 t @ le16 (word_of_nat (length rs))) + length (concat (map put_record rs)))" for pre post
    by (rule skip_records_put) (rule ok(3))
  with g ok(1,2) show ?case
    by (simp add: skips_put_def skip_value.simps put_tag value_bytes_simps unat_of_nat ac_simps)
qed (auto simp: skips_put_def skip_value.simps advance_def put_tag value_bytes_simps)

section \<open>Reading what was written\<close>

lemma find_past_field:
  assumes "field_ok g" "tag g \<noteq> t"
  shows "find_from (pre @ put g @ post) t (length pre) = find_from (pre @ put g @ post) t (length pre + length (put g))"
  using assms skips_putD [OF skips_put, of g pre post] get16_le16 [of pre "tag g" "value_bytes g @ post"]
  by (subst find_from.simps) (simp add: put_tag)

lemma find_past_fields:
  "list_all field_ok gs \<Longrightarrow> t \<notin> tag ` set gs \<Longrightarrow>
     find_from (pre @ put_all gs @ post) t (length pre) = find_from (pre @ put_all gs @ post) t (length pre + length (put_all gs))"
proof (induction gs arbitrary: pre)
  case (Cons g gs)
  have "find_from ((pre @ put g) @ put_all gs @ post) t (length (pre @ put g))
      = find_from ((pre @ put g) @ put_all gs @ post) t (length (pre @ put g) + length (put_all gs))"
    by (rule Cons.IH) (use Cons.prems in auto)
  moreover have "tag g \<noteq> t" using Cons.prems by auto
  ultimately show ?case using Cons.prems(1) find_past_field [of g t pre "put_all gs @ post"] by (simp add: ac_simps)
qed simp

lemma data_set_past_field:
  assumes "field_ok g" "tag g \<noteq> t"
  shows "data_set_from (pre @ put g @ post) t (length pre) = data_set_from (pre @ put g @ post) t (length pre + length (put g))"
  using assms skips_putD [OF skips_put, of g pre post] get16_le16 [of pre "tag g" "value_bytes g @ post"]
  by (subst data_set_from.simps) (simp add: put_tag)

lemma data_set_past_fields:
  "list_all field_ok gs \<Longrightarrow> t \<notin> tag ` set gs \<Longrightarrow>
     data_set_from (pre @ put_all gs @ post) t (length pre) = data_set_from (pre @ put_all gs @ post) t (length pre + length (put_all gs))"
proof (induction gs arbitrary: pre)
  case (Cons g gs)
  have "data_set_from ((pre @ put g) @ put_all gs @ post) t (length (pre @ put g))
      = data_set_from ((pre @ put g) @ put_all gs @ post) t (length (pre @ put g) + length (put_all gs))"
    by (rule Cons.IH) (use Cons.prems in auto)
  moreover have "tag g \<noteq> t" using Cons.prems by auto
  ultimately show ?case using Cons.prems(1) data_set_past_field [of g t pre "put_all gs @ post"] by (simp add: ac_simps)
qed simp

lemma string_field: "field_ok f \<Longrightarrow> encoding (tag f) = 0 \<Longrightarrow> \<exists>s. f = FStr (tag f) s \<and> length s < 256"
  by (cases f) auto

lemma find_field_put:
  assumes "list_all field_ok gs" "tag f \<notin> tag ` set gs" "field_ok f"
  shows "find_field (put_all gs @ put f @ post) (tag f) =
    (if encoding (tag f) = 0 then Got (length (put_all gs) + 4, length (put f) - 4)
     else Got (length (put_all gs) + 2, length (put f) - 2))"
proof -
  let ?d = "put_all gs @ put f @ post"
  let ?p = "length (put_all gs)"
  have past: "find_field ?d (tag f) = find_from ?d (tag f) ?p"
    using find_past_fields [OF assms(1,2), of "[]" "put f @ post"] by (simp add: find_field_def)
  have here: "get16 ?d ?p = Some (tag f)" by (simp add: put_tag get16_le16)
  note skip = skips_putD [OF skips_put [OF assms(3)], of "put_all gs" post]
  show ?thesis
  proof (cases "encoding (tag f) = 0")
    case True
    then obtain s where s: "f = FStr (tag f) s" "length s < 256" using string_field assms(3) by blast
    then have v: "value_bytes f = le16 (word_of_nat (length s)) @ s"
      by (metis value_bytes_simps(5))
    have "get16 ((put_all gs @ le16 (tag f)) @ le16 (word_of_nat (length s)) @ s @ post) (?p + 2)
        = Some (word_of_nat (length s))" by (rule get16_le16_at) simp
    then have "get16 ?d (?p + 2) = Some (word_of_nat (length s))" by (simp add: put_tag v)
    then show ?thesis
      unfolding past by (subst find_from.simps) (use True here skip s(2) in \<open>simp add: length_put v unat_of_nat\<close>)
  next
    case False
    then show ?thesis
      unfolding past by (subst find_from.simps) (use here skip in \<open>simp add: length_put\<close>)
  qed
qed

lemma data_set_records_put:
  "list_all (\<lambda>fs. length fs < 65536 \<and> list_all field_ok fs) rs \<Longrightarrow>
     data_set_records (pre @ concat (map put_record rs) @ post) (length rs) (length pre) = Got (map put_all rs)"
proof (induction rs arbitrary: pre)
  case (Cons fs rs)
  let ?c = "le16 (word_of_nat (length fs))"
  let ?rest = "concat (map put_record rs)"
  let ?d = "pre @ ?c @ put_all fs @ ?rest @ post"
  have g: "get16 ?d (length pre) = Some (word_of_nat (length fs))" by (rule get16_le16)
  have n: "unat (word_of_nat (length fs) :: u16) = length fs"
    using Cons.prems by (simp add: unat_of_nat)
  have "skip_fields ((pre @ ?c) @ put_all fs @ ?rest @ post) (length (pre @ ?c)) (length fs)
      = Got (length (pre @ ?c) + length (put_all fs))"
    by (rule skip_fields_put) (use Cons.prems in \<open>auto simp: list_all_iff skips_put\<close>)
  then have f: "skip_fields ?d (length pre + 2) (length fs) = Got (length pre + 2 + length (put_all fs))"
    by simp
  have "data_set_records ((pre @ ?c @ put_all fs) @ ?rest @ post) (length rs) (length (pre @ ?c @ put_all fs))
      = Got (map put_all rs)"
    by (rule Cons.IH) (use Cons.prems in simp)
  then have "data_set_records ?d (length rs) (length pre + 2 + length (put_all fs)) = Got (map put_all rs)"
    by (simp add: ac_simps)
  with f g n show ?case by (simp add: sub_bytes_def)
qed simp

lemma get32_value: "get32 (pre @ [ucast (v AND 0xFF), ucast (drop_bit 8 v AND 0xFF),
     ucast (drop_bit 16 v AND 0xFF), ucast (drop_bit 24 v AND 0xFF)] @ post) (length pre) = Some v"
  by (simp add: get32_def bit_le32)

lemma take_drop_at: "p = length pre \<Longrightarrow> n = length v \<Longrightarrow> take n (drop p (pre @ v @ post)) = v"
  by simp

text \<open>What the client of a field gets from a message: the value written.\<close>

fun read_back :: "bytes \<Rightarrow> Field \<Rightarrow> bool" where
  "read_back d (F1 t v) = (Read1B d t = Got v)"
| "read_back d (F2 t v) = (Read2B d t = Got v)"
| "read_back d (F4 t v) = (Read4B d t = Got v \<and> ReadFloat d t = Got v)"
| "read_back d (F8 t v) = (ReadDouble d t = Got (bytes_of_u64 v))"
| "read_back d (FStr t s) = (ReadString d t = Got s \<and> ReadNBytes d t = Got s)"
| "read_back d (FSet t rs) = (GetDataSet d t = Got (map put_all rs))"

lemma read_back_put:
  assumes "list_all field_ok gs" "tag f \<notin> tag ` set gs" "field_ok f"
  shows "read_back (put_all gs @ put f @ post) f"
proof -
  let ?d = "put_all gs @ put f @ post"
  let ?p = "length (put_all gs)"
  note found = find_field_put [OF assms]
  show ?thesis
  proof (cases f)
    case (F1 t v)
    with found assms(3) byte_at_append(1) [of "put_all gs @ le16 t" v post] show ?thesis
      by (simp add: Read1B_def length_put value_bytes_simps put_tag)
  next
    case (F2 t v)
    with found assms(3) get16_le16 [of "put_all gs @ le16 t" v post] show ?thesis
      by (simp add: Read2B_def length_put value_bytes_simps put_tag)
  next
    case (F4 t v)
    with found assms(3) get32_value [of "put_all gs @ le16 t" v post] show ?thesis
      by (auto simp: Read4B_def ReadFloat_def length_put value_bytes_simps put_tag)
  next
    case (F8 t v)
    with found assms(3) take_drop_at [of "?p + 2" "put_all gs @ le16 t" 8 "bytes_of_u64 v" post] show ?thesis
      by (auto simp: ReadDouble_def length_put value_bytes_simps put_tag sub_bytes_def)
  next
    case (FStr t s)
    with found assms(3) take_drop_at [of "?p + 4" "put_all gs @ le16 t @ le16 (word_of_nat (length s))" "length s" s post]
    show ?thesis
      by (simp add: ReadString_def ReadNBytes_def length_put value_bytes_simps put_tag sub_bytes_def)
  next
    case (FSet t rs)
    let ?c = "le16 (word_of_nat (length rs))"
    have ok: "encoding t = 6" "length rs < 65536" "list_all (\<lambda>fs. length fs < 65536 \<and> list_all field_ok fs) rs"
      using FSet assms(3) by simp_all
    have past: "GetDataSet ?d t = data_set_from ?d t ?p"
      using data_set_past_fields [OF assms(1), of t "[]" "put f @ post"] assms(2) FSet by (simp add: GetDataSet_def)
    have "get16 ?d ?p = Some t" using FSet by (simp add: put_tag get16_le16)
    moreover have "get16 ((put_all gs @ le16 t) @ ?c @ concat (map put_record rs) @ post) (?p + 2) = Some (word_of_nat (length rs))"
      by (rule get16_le16_at) simp
    moreover have "data_set_records ((put_all gs @ le16 t @ ?c) @ concat (map put_record rs) @ post) (length rs)
        (length (put_all gs @ le16 t @ ?c)) = Got (map put_all rs)"
      by (rule data_set_records_put) (rule ok(3))
    ultimately have "data_set_from ?d t ?p = Got (map put_all rs)"
      using FSet ok(1,2)
      by (subst data_set_from.simps) (simp add: put_tag value_bytes_simps unat_of_nat)
    with past FSet show ?thesis by simp
  qed
qed



section \<open>Long strings\<close>

lemma long_string_put:
  "WriteString [] t s = put (FStr t (take (length s mod 256) s)) @ drop (length s mod 256) s"
proof -
  have "(word_of_nat (length s) :: u8) = word_of_nat (length s mod 256)"
    by (simp add: word_of_nat_eq_iff take_bit_eq_mod)
  moreover have "min (length s) (length s mod 256) = length s mod 256"
    by (rule min_absorb2) (rule mod_less_eq_dividend)
  ultimately show ?thesis by (simp add: WriteString_def del: of_nat_mod)
qed

text \<open>
  \<open>WriteString\<close> sends only the low byte of the length. Behind any well-formed fields a string of \<open>n\<close>
  bytes reads back as its first \<open>n mod 256\<close> bytes, whatever follows; a string of 256 bytes or more
  is cut and its rest is read as further fields.
\<close>

theorem write_string_truncates:
  assumes "list_all field_ok gs" "t \<notin> tag ` set gs" "encoding t = 0"
  shows "ReadString (put_all gs @ WriteString [] t s @ post) t = Got (take (length s mod 256) s)"
proof -
  let ?f = "FStr t (take (length s mod 256) s)"
  have "length s mod 256 < 256" by simp
  then have "field_ok ?f" using assms(3) by simp
  from read_back_put [OF assms(1) _ this] assms(2) show ?thesis by (simp add: long_string_put del: put.simps)
qed

theorem write_string_truncates_witness:
  "ReadString (put_all [F1 1 7] @ WriteString [] 0x04FF (replicate 300 65) @ []) 0x04FF
     = Got (take (length (replicate 300 (65 :: u8)) mod 256) (replicate 300 65))"
proof (rule write_string_truncates)
  have "encoding 1 = 5" "encoding 0x04FF = 0" by code_simp+
  then show "list_all field_ok [F1 1 7]" "encoding 0x04FF = 0" by simp_all
qed simp

section \<open>The text of a player command\<close>

text \<open>
  \<open>TcpSession::handle_player_command\<close>, the reading of the command. The wide text is narrowed to
  the low byte of every \<open>wchar_t\<close>. The command is a token and the rest of the line.
\<close>

fun narrow :: "nat \<Rightarrow> bytes \<Rightarrow> bytes" where
  "narrow wc bs = (if wc = 0 \<or> bs = [] then [] else hd bs # narrow wc (drop wc bs))"

declare narrow.simps [simp del]

definition value_or :: "'a read_result \<Rightarrow> 'a \<Rightarrow> 'a read_result" where
  "value_or r x = (case r of Fault \<Rightarrow> Fault | Absent \<Rightarrow> Got x | Got y \<Rightarrow> Got y)"

definition command_text :: "nat \<Rightarrow> bytes \<Rightarrow> bytes read_result" where
  "command_text wc pkt =
     read_bind (value_or (ReadString pkt 0x04FF) []) (\<lambda>raw.
       if raw = [] then
         (case ReadWideString wc pkt 0x04FF of Fault \<Rightarrow> Fault | Absent \<Rightarrow> Got raw
          | Got wide \<Rightarrow> Got (narrow wc wide))
       else Got raw)"

text \<open>
  The fall-back of \<open>handle_player_command\<close> to a wide string never supplies a text: the command is
  always the narrow string, or empty. The fall-back would be unsafe besides: where \<open>wchar_t\<close> has
  four bytes there is a packet on which the wide reader runs past the end of the buffer, as it
  checks for two bytes a character.
\<close>

theorem wide_fallback_dead:
  "command_text wc pkt = value_or (ReadString pkt 0x04FF) [] \<and>
   (\<exists>d. ReadString d 0x04FF \<noteq> Fault \<and> ReadWideString 4 d 0x04FF = Fault)"
proof (intro conjI exI)
  show "command_text wc pkt = value_or (ReadString pkt 0x04FF) []"
  proof (cases "find_field pkt 0x04FF")
    case (Got x)
    obtain p n where x: "x = (p, n)" by (cases x)
    have "p + n \<le> length pkt" using find_field_in_bounds(2) Got x by simp
    then show ?thesis
      by (simp add: command_text_def value_or_def ReadString_def ReadWideString_def Got x sub_bytes_def)
  qed (simp_all add: command_text_def value_or_def ReadString_def ReadWideString_def)
  show "ReadString [0xFF, 4, 4, 0, 1, 0, 65, 0] 0x04FF \<noteq> Fault"
    "ReadWideString 4 [0xFF, 4, 4, 0, 1, 0, 65, 0] 0x04FF = Fault"
    by code_simp+
qed

end
