(* ===== verification/TicketInfo.thy ===== *)
theory TicketInfo
  imports PacketRoundtrip PopGuarantees
begin

text \<open>
  The queue list a client gets: \<open>MatchmakingService/TicketInfoEncoder.cpp\<close>, the counters of
  \<open>RuntimeStats.cpp\<close> and \<open>TcpSession::send_get_ticket_info_response\<close>. The lemmas read the
  response with the field table of \<open>PacketReader\<close>, which is the table of the client's protocol.
\<close>

section \<open>The counters\<close>

record QueueRuntimeStats =
  rs_player_count :: u32
  rs_instance_count :: u32
  rs_assault :: u32
  rs_medic :: u32
  rs_recon :: u32
  rs_robotics :: u32

definition ForQueue :: "u32 \<Rightarrow> World \<Rightarrow> QueueRuntimeStats" where
  "ForQueue queue_id w =
     (let queued = GetQueuedProfileCounts queue_id w;
          queued_total = pc_assault queued + pc_medic queued + pc_recon queued + pc_robotics queued;
          in_mission_total = GetActivePlayerCountForQueue queue_id (w_registry w);
          in_mission = GetActiveProfileCountsForQueue queue_id (w_registry w)
      in \<lparr>rs_player_count = queued_total + word_of_nat in_mission_total,
          rs_instance_count = word_of_nat (GetActiveInstanceCountForQueue queue_id (w_registry w)),
          rs_assault = pc_assault queued + pc_assault in_mission,
          rs_medic = pc_medic queued + pc_medic in_mission,
          rs_recon = pc_recon queued + pc_recon in_mission,
          rs_robotics = pc_robotics queued + pc_robotics in_mission\<rparr>)"

section \<open>The encoder\<close>

definition Tag :: "bytes \<Rightarrow> u16 \<Rightarrow> bytes" where
  "Tag b t = b @ [ucast (t AND 0xFF), ucast (drop_bit 8 t)]"

definition W1B :: "bytes \<Rightarrow> u16 \<Rightarrow> u8 \<Rightarrow> bytes" where
  "W1B b t v = Tag b t @ [v]"

definition W4B :: "bytes \<Rightarrow> u16 \<Rightarrow> u32 \<Rightarrow> bytes" where
  "W4B b t v = Tag b t @ [ucast (v AND 0xFF), ucast (drop_bit 8 v AND 0xFF),
     ucast (drop_bit 16 v AND 0xFF), ucast (drop_bit 24 v AND 0xFF)]"

definition W8B :: "bytes \<Rightarrow> u16 \<Rightarrow> u64 \<Rightarrow> bytes" where
  "W8B b t v = Tag b t @ map (\<lambda>i. ucast (drop_bit (i * 8) v AND 0xFF)) [0, 1, 2, 3, 4, 5, 6, 7]"

definition WFloat :: "bytes \<Rightarrow> u16 \<Rightarrow> u32 \<Rightarrow> bytes" where
  "WFloat b t bits = W4B b t bits"

definition WFlag3 :: "bytes \<Rightarrow> u16 \<Rightarrow> bool \<Rightarrow> bytes" where
  "WFlag3 b t v = Tag b t @ [if v then 1 else 0, 0, 0x79]"

definition WBonusQueueFlag :: "bytes \<Rightarrow> u16 \<Rightarrow> bool \<Rightarrow> bytes" where
  "WBonusQueueFlag b t on = Tag b t @ [0, 8, 0, if on then 0x80 else 0] @ replicate 7 0"

text \<open>\<open>live\<close> is the answer of \<open>GetDelayedPopRemainingSeconds\<close> for the queue.\<close>

definition EncodeRecord :: "u32 option \<Rightarrow> bytes \<Rightarrow> QueueConfig \<Rightarrow> QueueRuntimeStats \<Rightarrow> bytes" where
  "EncodeRecord live out cfg stats =
     (let has_status_msg = qc_status_msg_id cfg \<noteq> 0;
          has_access = qc_access_flags cfg \<noteq> 0;
          has_db_remaining = (case qc_remaining_seconds cfg of None \<Rightarrow> False | Some r \<Rightarrow> r \<noteq> 0);
          has_remaining = live \<noteq> None \<or> has_db_remaining;
          actual_count = (27 :: u16) + (if has_status_msg then 1 else 0) + (if has_access then 1 else 0)
            + (if has_remaining then 1 else 0);
          field_count = actual_count + 1;
          o1 = out @ [ucast (field_count AND 0xFF), ucast (drop_bit 8 field_count)];
          o2 = W4B o1 0x0408 (qc_queue_type_value_id cfg);
          o3 = W4B o2 0x0337 (qc_queue_id cfg);
          o4 = (if has_status_msg then W4B o3 0x04BC (qc_status_msg_id cfg) else o3);
          o5 = W4B o4 0x0371 (qc_name_msg_id cfg);
          o6 = W4B o5 0x01F9 (qc_desc_msg_id cfg);
          o7 = W4B o6 0x02BF (qc_icon_id cfg);
          o8 = W4B o7 0x03C2 (rs_player_count stats);
          o9 = W4B o8 0x0346 (qc_max_players_per_side cfg);
          o10 = W4B o9 0x035C (qc_min_players_per_team cfg);
          o11 = W4B o10 0x0347 (qc_max_players_per_team cfg);
          o12 = W4B o11 0x02C5 (rs_instance_count stats);
          o13 = W4B o12 0x0306 (qc_level_min cfg);
          o14 = W4B o13 0x0305 (qc_level_max cfg);
          o15 = W4B o14 0x04DB (qc_tab cfg);
          o16 = WFloat o15 0x0331 (qc_map_x cfg);
          o17 = WFloat o16 0x0332 (qc_map_y cfg);
          o18 = WFlag3 o17 0x031F (qc_map_active_flag cfg);
          o19 = W4B o18 0x0323 (qc_map_icon_texture_res_id cfg);
          o20 = W4B o19 0x0543 (qc_video_res_id cfg);
          o21 = W4B o20 0x0310 (qc_location_value_id cfg);
          o22 = WFlag3 o21 0x021B (qc_double_agent_flag cfg);
          o23 = W4B o22 0x04DA (qc_sys_site_id cfg);
          o24 = W4B o23 0x048E (qc_sort_order cfg);
          o25 = WBonusQueueFlag o24 0x0081 (qc_bonus_queue_flag cfg);
          o26 = (if has_access then W8B o25 0x0008 (qc_access_flags cfg) else o25);
          o27 = W4B o26 0x0210 (case qc_marshal_difficulty_value_id cfg of
                  None \<Rightarrow> qc_difficulty_value_id cfg | Some m \<Rightarrow> m);
          o28 = WFlag3 o27 0x0016 (qc_active_flag cfg);
          o29 = (if has_remaining then W4B o28 0x0429 (case live of Some v \<Rightarrow> v
                  | None \<Rightarrow> (case qc_remaining_seconds cfg of Some v \<Rightarrow> v | None \<Rightarrow> 0)) else o28);
          rows = filter (\<lambda>(_, n). n \<noteq> 0) [(680 :: u32, rs_assault stats), (567, rs_medic stats),
                   (681, rs_recon stats), (679, rs_robotics stats)];
          inner_count = word_of_nat (length rows) :: u16;
          o30 = Tag o29 0x018B @ [ucast (inner_count AND 0xFF), ucast (drop_bit 8 inner_count)];
          o31 = fold (\<lambda>(pid, n) b. W4B (W4B (b @ [2, 0]) 0x03C7 pid) 0x03C6 n) rows o30
      in W1B o31 0x0312 (if qc_locked_flag cfg then 1 else 0))"

section \<open>The response\<close>

definition QueuePlayableWithDlc :: "QueueConfig \<Rightarrow> int list \<Rightarrow> bool" where
  "QueuePlayableWithDlc cfg installed =
     (qc_map_pool cfg = [] \<or>
      list_ex (\<lambda>m. case me_dlc_id m of None \<Rightarrow> True | Some d \<Rightarrow> d \<in> set installed) (qc_map_pool cfg))"

text \<open>
  The body that is handed to \<open>send_response\<close>. \<open>installed\<close> are the packs of the account,
  \<open>can_queue\<close> says whether the player is alone or leads the team.
\<close>

definition ticket_info_response ::
  "Env \<Rightarrow> int list \<Rightarrow> bool \<Rightarrow> u32 \<Rightarrow> World \<Rightarrow> bytes" where
  "ticket_info_response ev installed can_queue current_match_queue_id w =
     (let queues = filter (\<lambda>cfg. QueuePlayableWithDlc cfg installed) (GetEnabledQueueConfigs w);
          r1 = [0x06, 0x01, 3, 0];
          r2 = Write1B r1 0x04EE (if can_queue then 1 else 0);
          r3 = Write4B r2 0x00F7 current_match_queue_id;
          n = word_of_nat (length queues) :: u16;
          r4 = r3 @ [0x0C, 0x01] @ [ucast (n AND 0xFF), ucast (drop_bit 8 n)]
      in fold (\<lambda>cfg b. EncodeRecord (GetDelayedPopRemainingSeconds ev (qc_queue_id cfg) w) b cfg
                 (ForQueue (qc_queue_id cfg) w)) queues r4)"

section \<open>The record as fields\<close>

lemma ticket_encodings [simp]:
  "encoding 0x0408 = 3"
  "encoding 0x0337 = 3"
  "encoding 0x04BC = 3"
  "encoding 0x0371 = 3"
  "encoding 0x01F9 = 3"
  "encoding 0x02BF = 3"
  "encoding 0x03C2 = 3"
  "encoding 0x0346 = 3"
  "encoding 0x035C = 3"
  "encoding 0x0347 = 3"
  "encoding 0x02C5 = 3"
  "encoding 0x0306 = 3"
  "encoding 0x0305 = 3"
  "encoding 0x04DB = 3"
  "encoding 0x0331 = 1"
  "encoding 0x0332 = 1"
  "encoding 0x031F = 0"
  "encoding 0x0323 = 3"
  "encoding 0x0543 = 3"
  "encoding 0x0310 = 3"
  "encoding 0x021B = 0"
  "encoding 0x04DA = 3"
  "encoding 0x048E = 3"
  "encoding 0x0081 = 5"
  "encoding 0x0008 = 8"
  "encoding 0x0210 = 3"
  "encoding 0x0016 = 0"
  "encoding 0x0429 = 3"
  "encoding 0x018B = 6"
  "encoding 0x03C7 = 3"
  "encoding 0x03C6 = 3"
  "encoding 0x0312 = 5"
  "encoding 0x04EE = 5"
  "encoding 0x00F7 = 3"
  "encoding 0x010C = 6"
  by code_simp+

text \<open>The fields between the three string flags, and the optional ones.\<close>

definition head_fields :: "QueueConfig \<Rightarrow> QueueRuntimeStats \<Rightarrow> Field list" where
  "head_fields cfg stats =
     [F4 0x0408 (qc_queue_type_value_id cfg), F4 0x0337 (qc_queue_id cfg)]
     @ (if qc_status_msg_id cfg \<noteq> 0 then [F4 0x04BC (qc_status_msg_id cfg)] else [])
     @ [F4 0x0371 (qc_name_msg_id cfg), F4 0x01F9 (qc_desc_msg_id cfg), F4 0x02BF (qc_icon_id cfg),
        F4 0x03C2 (rs_player_count stats), F4 0x0346 (qc_max_players_per_side cfg),
        F4 0x035C (qc_min_players_per_team cfg), F4 0x0347 (qc_max_players_per_team cfg),
        F4 0x02C5 (rs_instance_count stats), F4 0x0306 (qc_level_min cfg), F4 0x0305 (qc_level_max cfg),
        F4 0x04DB (qc_tab cfg), F4 0x0331 (qc_map_x cfg), F4 0x0332 (qc_map_y cfg)]"

definition map_fields :: "QueueConfig \<Rightarrow> Field list" where
  "map_fields cfg = [F4 0x0323 (qc_map_icon_texture_res_id cfg), F4 0x0543 (qc_video_res_id cfg),
     F4 0x0310 (qc_location_value_id cfg)]"

definition site_fields :: "QueueConfig \<Rightarrow> Field list" where
  "site_fields cfg = [F4 0x04DA (qc_sys_site_id cfg), F4 0x048E (qc_sort_order cfg), F1 0x0081 0,
       F8 0x0008 (if qc_bonus_queue_flag cfg then 0x80 else 0)]
     @ (if qc_access_flags cfg \<noteq> 0 then [F8 0x0008 (qc_access_flags cfg)] else [])
     @ [F4 0x0210 (case qc_marshal_difficulty_value_id cfg of None \<Rightarrow> qc_difficulty_value_id cfg | Some m \<Rightarrow> m)]"

definition shown_remaining :: "u32 option \<Rightarrow> QueueConfig \<Rightarrow> bool" where
  "shown_remaining live cfg \<longleftrightarrow> live \<noteq> None
     \<or> (case qc_remaining_seconds cfg of None \<Rightarrow> False | Some r \<Rightarrow> r \<noteq> 0)"

definition profile_rows :: "QueueRuntimeStats \<Rightarrow> (u32 \<times> u32) list" where
  "profile_rows stats = filter (\<lambda>(_, n). n \<noteq> 0) [(680, rs_assault stats), (567, rs_medic stats),
     (681, rs_recon stats), (679, rs_robotics stats)]"

definition tail_fields :: "u32 option \<Rightarrow> QueueConfig \<Rightarrow> QueueRuntimeStats \<Rightarrow> Field list" where
  "tail_fields live cfg stats =
     (if shown_remaining live cfg then [F4 0x0429 (case live of Some v \<Rightarrow> v
        | None \<Rightarrow> (case qc_remaining_seconds cfg of Some v \<Rightarrow> v | None \<Rightarrow> 0))] else [])
     @ [FSet 0x018B (map (\<lambda>(pid, n). [F4 0x03C7 pid, F4 0x03C6 n]) (profile_rows stats)),
        F1 0x0312 (if qc_locked_flag cfg then 1 else 0)]"

definition yes :: "u16 \<Rightarrow> Field" where
  "yes t = FStr t [0x79]"

definition ticket_fields :: "u32 option \<Rightarrow> QueueConfig \<Rightarrow> QueueRuntimeStats \<Rightarrow> Field list" where
  "ticket_fields live cfg stats = head_fields cfg stats @ [yes 0x031F] @ map_fields cfg @ [yes 0x021B]
     @ site_fields cfg @ [yes 0x0016] @ tail_fields live cfg stats"

lemma fields_ok:
  "list_all field_ok (head_fields cfg stats)" "list_all field_ok (map_fields cfg)"
  "list_all field_ok (site_fields cfg)" "list_all field_ok (tail_fields live cfg stats)"
  "field_ok (yes 0x031F)" "field_ok (yes 0x021B)" "field_ok (yes 0x0016)"
proof -
  have "length (profile_rows stats) \<le> 4"
    unfolding profile_rows_def by (rule order_trans [OF length_filter_le]) simp
  then show "list_all field_ok (tail_fields live cfg stats)"
    by (auto simp: tail_fields_def list_all_iff)
qed (simp_all add: head_fields_def map_fields_def site_fields_def yes_def)

lemma W1B_put: "W1B b t v = b @ put (F1 t v)"
  by (simp add: W1B_def Tag_def Write1B_def)

lemma W4B_put: "W4B b t v = b @ put (F4 t v)"
  by (simp add: W4B_def Tag_def Write4B_def)

lemma W8B_put: "W8B b t v = b @ put (F8 t v)"
  by (simp add: W8B_def Tag_def WriteDouble_def)

lemma WFlag3_split: "WFlag3 b t v = b @ WFlag3 [] t v"
  by (simp add: WFlag3_def Tag_def)

lemma WFlag3_on: "WFlag3 [] t True = put (yes t)"
  by (simp add: WFlag3_def Tag_def yes_def WriteString_def)

lemma WFlag3_off: "WFlag3 [] t False = le16 t @ [0, 0, 0x79]"
  by (simp add: WFlag3_def Tag_def le16_def)

lemma WBonus_put: "WBonusQueueFlag b 0x0081 on = b @ put (F1 0x0081 0) @ put (F8 0x0008 (if on then 0x80 else 0))"
proof -
  have "WBonusQueueFlag [] 0x0081 True = put (F1 0x0081 0) @ put (F8 0x0008 0x80)"
    "WBonusQueueFlag [] 0x0081 False = put (F1 0x0081 0) @ put (F8 0x0008 0)"
    by code_simp+
  moreover have "WBonusQueueFlag b 0x0081 on = b @ WBonusQueueFlag [] 0x0081 on"
    by (simp add: WBonusQueueFlag_def Tag_def)
  ultimately show ?thesis by (cases on) simp_all
qed

lemma if_append: "(if c then b @ x else b) = b @ (if c then x else [])"
  by simp

lemma rows_put:
  "fold (\<lambda>(pid, n) b. W4B (W4B (b @ [2, 0]) 0x03C7 pid) 0x03C6 n) rows b
     = b @ concat (map put_record (map (\<lambda>(pid, n). [F4 0x03C7 pid, F4 0x03C6 n]) rows))"
proof (induction rows arbitrary: b)
  case (Cons r rows)
  have two: "le16 2 = [2, 0]" by code_simp
  obtain pid n where "r = (pid, n)" by (cases r)
  with Cons.IH show ?case by (simp add: W4B_put two del: put.simps)
qed simp

lemma Tag_put: "Tag b t = b @ le16 t"
  by (simp add: Tag_def le16_def)

lemma put_FSet: "put (FSet t rs) = le16 t @ le16 (word_of_nat (length rs)) @ concat (map put_record rs)"
  by (simp add: WriteTLV_def le16_def comp_def)

definition field_total :: "u32 option \<Rightarrow> QueueConfig \<Rightarrow> QueueRuntimeStats \<Rightarrow> nat" where
  "field_total live cfg stats = length (ticket_fields live cfg stats)"

lemma EncodeRecord_split:
  "EncodeRecord live out cfg stats = out @ le16 (word_of_nat (field_total live cfg stats))
     @ put_all (head_fields cfg stats) @ WFlag3 [] 0x031F (qc_map_active_flag cfg)
     @ put_all (map_fields cfg) @ WFlag3 [] 0x021B (qc_double_agent_flag cfg)
     @ put_all (site_fields cfg) @ WFlag3 [] 0x0016 (qc_active_flag cfg)
     @ put_all (tail_fields live cfg stats)"
proof -
  have n: "word_of_nat (field_total live cfg stats) = (27 :: u16) + (if qc_status_msg_id cfg \<noteq> 0 then 1 else 0)
      + (if qc_access_flags cfg \<noteq> 0 then 1 else 0) + (if shown_remaining live cfg then 1 else 0) + 1"
    by (simp add: field_total_def ticket_fields_def head_fields_def map_fields_def site_fields_def tail_fields_def)
  have ifs: "put_all (if c then [f] else []) = (if c then put f else [])" for c f by simp
  show ?thesis
    unfolding EncodeRecord_def Let_def rows_put
    unfolding n le16_def [symmetric] shown_remaining_def [symmetric] profile_rows_def [symmetric]
      W1B_put W4B_put W8B_put WFloat_def WBonus_put if_append Tag_put
    unfolding WFlag3_split [of "_ @ _"]
    unfolding head_fields_def map_fields_def site_fields_def tail_fields_def map_append concat_append ifs
    by (simp add: put_FSet del: put.simps)
qed

section \<open>Which records a reader can walk\<close>

definition flags_on :: "QueueConfig \<Rightarrow> bool" where
  "flags_on cfg \<longleftrightarrow> qc_map_active_flag cfg \<and> qc_double_agent_flag cfg \<and> qc_active_flag cfg"

lemma EncodeRecord_append: "EncodeRecord live out cfg stats = out @ EncodeRecord live [] cfg stats"
  by (simp add: EncodeRecord_split)

lemma EncodeRecord_on:
  "flags_on cfg \<Longrightarrow> EncodeRecord live [] cfg stats = put_record (ticket_fields live cfg stats)"
  by (simp add: EncodeRecord_split flags_on_def WFlag3_on ticket_fields_def field_total_def)

lemma ticket_fields_ok: "list_all field_ok (ticket_fields live cfg stats)"
  by (simp add: ticket_fields_def fields_ok)

lemma field_total_le: "4 \<le> field_total live cfg stats" "field_total live cfg stats < 65536"
  by (simp_all add: field_total_def ticket_fields_def head_fields_def map_fields_def site_fields_def tail_fields_def)

lemma skip_fields_add:
  "skip_fields d p (a + b) = (case skip_fields d p a of Fault \<Rightarrow> Fault | Absent \<Rightarrow> Absent | Got q \<Rightarrow> skip_fields d q b)"
  by (induction a arbitrary: p) (auto split: option.splits read_result.splits)

text \<open>
  A string flag that is off is a string of length zero and a byte that belongs to nothing: the
  reader takes that byte for the low half of the next tag.
\<close>

lemma stray_byte:
  assumes "list_all field_ok P" "encoding t = 0" "encoding (0x79 OR push_bit 8 (ucast lo)) > 10"
  shows "skip_fields (pre @ put_all P @ WFlag3 [] t False @ lo # post) (length pre) (length P + Suc (Suc m)) = Absent"
proof -
  let ?d = "pre @ put_all P @ WFlag3 [] t False @ lo # post"
  let ?q = "length pre + length (put_all P)"
  have d: "?d = (pre @ put_all P) @ put (FStr t []) @ [0x79, lo] @ post"
    by (simp add: WFlag3_off WriteString_def le16_def)
  have a: "skip_fields ?d (length pre) (length P) = Got ?q"
    by (rule skip_fields_put) (use assms(1) in \<open>simp add: list_all_iff skips_put\<close>)
  have t: "get16 ?d ?q = Some t"
    unfolding d put_tag [of "FStr t []"] using get16_le16 [of "pre @ put_all P" t "value_bytes (FStr t []) @ [0x79, lo] @ post"] by simp
  have v: "skip_value ?d (?q + 2) 0 = Got (?q + 4)"
    using skips_putD [OF skips_put, of "FStr t []" "pre @ put_all P" "[0x79, lo] @ post"] assms(2)
    unfolding d by (simp add: length_put value_bytes_simps del: put.simps)
  have l: "get16 ?d (?q + 4) = Some (0x79 OR push_bit 8 (ucast lo))"
  proof -
    have "get16 (xs @ 0x79 # lo # post) (length xs) = Some (0x79 OR push_bit 8 (ucast lo))" for xs
      by (simp add: get16_def)
    from this [of "pre @ put_all P @ put (FStr t [])"] show ?thesis
      unfolding d by (simp add: length_put value_bytes_simps add.assoc del: put.simps)
  qed
  have len: "\<not> ?q + 4 + 2 > length ?d" "\<not> ?q + 2 > length ?d"
    by (simp_all add: WFlag3_def Tag_def)
  have bad: "skip_value ?d (?q + 4 + 2) (encoding (0x79 OR push_bit 8 (ucast lo))) = Absent"
    using assms(3) by (simp add: skip_value.simps)
  have "skip_fields ?d (?q + 4) (Suc m) = Absent"
    by (simp only: skip_fields.simps len(1) l bad option.case read_result.case if_False)
  moreover have "skip_fields ?d ?q (Suc (Suc m)) = skip_fields ?d (?q + 4) (Suc m)"
    by (simp only: skip_fields.simps(2) [of _ _ "Suc m"] len(2) t v assms(2) option.case read_result.case if_False)
  ultimately have "skip_fields ?d ?q (Suc (Suc m)) = Absent" by (rule trans [rotated])
  then show ?thesis by (simp only: skip_fields_add a read_result.case)
qed

lemma unknown_tags [simp]:
  "encoding 0x2379 = 255" "encoding 0xDA79 = 255" "encoding 0x2979 = 255" "encoding 0x8B79 = 255"
  by (simp_all add: encoding_def)

lemma stray_tags [simp]:
  "0x79 OR push_bit 8 (ucast (0x23 :: u8)) = (0x2379 :: u16)" "0x79 OR push_bit 8 (ucast (0xDA :: u8)) = (0xDA79 :: u16)"
  "0x79 OR push_bit 8 (ucast (0x29 :: u8)) = (0x2979 :: u16)" "0x79 OR push_bit 8 (ucast (0x8B :: u8)) = (0x8B79 :: u16)"
  by code_simp+

lemma first_byte:
  "\<exists>r. put_all (map_fields cfg) = 0x23 # r" "\<exists>r. put_all (site_fields cfg) = 0xDA # r"
  "\<exists>lo r. put_all (tail_fields live cfg stats) = lo # r \<and> encoding (0x79 OR push_bit 8 (ucast lo)) = 255"
proof -
  have e: "ucast (0x0323 AND 0xFF :: u16) = (0x23 :: u8)" "ucast (0x04DA AND 0xFF :: u16) = (0xDA :: u8)"
    "ucast (0x0429 AND 0xFF :: u16) = (0x29 :: u8)" "ucast (0x018B AND 0xFF :: u16) = (0x8B :: u8)"
    by code_simp+
  show "\<exists>r. put_all (map_fields cfg) = 0x23 # r" "\<exists>r. put_all (site_fields cfg) = 0xDA # r"
    using e by (simp_all add: map_fields_def site_fields_def Write4B_def)
  show "\<exists>lo r. put_all (tail_fields live cfg stats) = lo # r \<and> encoding (0x79 OR push_bit 8 (ucast lo)) = 255"
    using e by (simp add: tail_fields_def Write4B_def WriteTLV_def)
qed

lemma EncodeRecord_off:
  assumes "\<not> flags_on cfg"
  shows "skip_fields (pre @ EncodeRecord live [] cfg stats @ post) (length pre + 2) (field_total live cfg stats) = Absent"
proof -
  let ?n = "field_total live cfg stats"
  let ?R = "EncodeRecord live [] cfg stats"
  have walk: "skip_fields (pre @ ?R @ post) (length pre + 2) ?n = Absent"
    if "?R = le16 (word_of_nat ?n) @ put_all P @ WFlag3 [] t False @ lo # r"
      "list_all field_ok P" "encoding t = 0" "encoding (0x79 OR push_bit 8 (ucast lo)) = 255" "length P + 2 \<le> ?n" for P t lo r
  proof -
    define m where "m = ?n - length P - 2"
    have n: "length P + Suc (Suc m) = ?n" using that(5) by (simp add: m_def)
    have "skip_fields ((pre @ le16 (word_of_nat ?n)) @ put_all P @ WFlag3 [] t False @ lo # r @ post)
        (length (pre @ le16 (word_of_nat ?n))) (length P + Suc (Suc m)) = Absent"
      by (rule stray_byte) (use that in simp_all)
    from this [unfolded n] show ?thesis by (simp add: that(1))
  qed
  obtain r1 r2 lo3 r3 where first: "put_all (map_fields cfg) = 0x23 # r1" "put_all (site_fields cfg) = 0xDA # r2"
    "put_all (tail_fields live cfg stats) = lo3 # r3" "encoding (0x79 OR push_bit 8 (ucast lo3)) = 255"
    using first_byte by blast
  note R = EncodeRecord_split [of live "[]" cfg stats]
  have n: "?n = length (head_fields cfg stats) + length (map_fields cfg) + length (site_fields cfg)
      + length (tail_fields live cfg stats) + 3" by (simp add: field_total_def ticket_fields_def)
  have pos: "1 \<le> length (map_fields cfg)" "1 \<le> length (site_fields cfg)" "1 \<le> length (tail_fields live cfg stats)"
    by (simp_all add: map_fields_def site_fields_def tail_fields_def)
  consider "\<not> qc_map_active_flag cfg" | "qc_map_active_flag cfg" "\<not> qc_double_agent_flag cfg"
    | "qc_map_active_flag cfg" "qc_double_agent_flag cfg" "\<not> qc_active_flag cfg"
    using assms by (auto simp: flags_on_def)
  then show ?thesis
  proof cases
    case 1
    show ?thesis
      by (rule walk [where P="head_fields cfg stats" and t="0x031F" and lo="0x23"]) (use 1 R n pos in \<open>simp_all add: first fields_ok WFlag3_on\<close>)
  next
    case 2
    show ?thesis
      by (rule walk [where P="head_fields cfg stats @ [yes 0x031F] @ map_fields cfg" and t="0x021B" and lo="0xDA"])
        (use 2 R n pos in \<open>simp_all add: first fields_ok WFlag3_on\<close>)
  next
    case 3
    show ?thesis
      by (rule walk [where P="head_fields cfg stats @ [yes 0x031F] @ map_fields cfg @ [yes 0x021B] @ site_fields cfg" and t="0x0016" and lo="lo3"])
        (use 3 R n pos in \<open>simp_all add: first fields_ok WFlag3_on\<close>)
  qed
qed

section \<open>What the client gets\<close>

lemma data_set_records_tickets:
  assumes "\<And>q. q \<in> set qs \<Longrightarrow> enc q = EncodeRecord (lv q) [] q (st q)"
  shows "data_set_records (pre @ concat (map enc qs) @ post) (length qs) (length pre)
     = Got (map (\<lambda>q. put_all (ticket_fields (lv q) q (st q))) (takeWhile flags_on qs))"
  using assms
proof (induction qs arbitrary: pre)
  case (Cons q qs)
  let ?n = "field_total (lv q) q (st q)"
  let ?d = "pre @ enc q @ concat (map enc qs) @ post"
  have enc: "enc q = EncodeRecord (lv q) [] q (st q)" by (rule Cons.prems) simp
  obtain r where r: "enc q = le16 (word_of_nat ?n) @ r" using EncodeRecord_split [of "lv q" "[]"] enc by simp
  have g: "get16 ?d (length pre) = Some (word_of_nat ?n)" unfolding r using get16_le16 by simp
  have n: "unat (word_of_nat ?n :: u16) = ?n" using field_total_le(2) by (simp add: unat_of_nat)
  have len: "\<not> length pre + 2 > length ?d" by (simp add: r)
  show ?case
  proof (cases "flags_on q")
    case True
    let ?F = "ticket_fields (lv q) q (st q)"
    have e: "enc q = le16 (word_of_nat ?n) @ put_all ?F" using enc EncodeRecord_on [OF True] by (simp add: field_total_def)
    have "skip_fields ((pre @ le16 (word_of_nat ?n)) @ put_all ?F @ concat (map enc qs) @ post)
        (length (pre @ le16 (word_of_nat ?n))) (length ?F) = Got (length (pre @ le16 (word_of_nat ?n)) + length (put_all ?F))"
      by (rule skip_fields_put) (use ticket_fields_ok in \<open>simp add: list_all_iff skips_put\<close>)
    then have s: "skip_fields ?d (length pre + 2) ?n = Got (length pre + 2 + length (put_all ?F))"
      by (simp add: e field_total_def)
    have "data_set_records ((pre @ enc q) @ concat (map enc qs) @ post) (length qs) (length (pre @ enc q))
        = Got (map (\<lambda>q. put_all (ticket_fields (lv q) q (st q))) (takeWhile flags_on qs))"
      by (rule Cons.IH) (simp add: Cons.prems)
    then have rest: "data_set_records ?d (length qs) (length pre + 2 + length (put_all ?F))
        = Got (map (\<lambda>q. put_all (ticket_fields (lv q) q (st q))) (takeWhile flags_on qs))"
      by (simp add: e ac_simps)
    have v: "sub_bytes ?d (length pre + 2) (length (put_all ?F)) = Got (put_all ?F)"
      by (simp add: e sub_bytes_def)
    have "data_set_records ?d (Suc (length qs)) (length pre)
        = Got (put_all ?F # map (\<lambda>q. put_all (ticket_fields (lv q) q (st q))) (takeWhile flags_on qs))"
      by (simp only: data_set_records.simps(2) len g n s rest v option.case read_result.case if_False read_bind.simps
          diff_add_inverse)
    then show ?thesis using True by simp
  next
    case False
    have "skip_fields ?d (length pre + 2) ?n = Absent"
      using EncodeRecord_off [OF False, of pre "lv q" "st q" "concat (map enc qs) @ post"] enc by simp
    then have "data_set_records ?d (Suc (length qs)) (length pre) = Got []"
      by (simp only: data_set_records.simps(2) len g n option.case read_result.case if_False)
    then show ?thesis using False by simp
  qed
qed simp

definition visible_queues :: "int list \<Rightarrow> World \<Rightarrow> QueueConfig list" where
  "visible_queues installed w = filter (\<lambda>cfg. QueuePlayableWithDlc cfg installed) (GetEnabledQueueConfigs w)"

definition ticket_view :: "Env \<Rightarrow> World \<Rightarrow> QueueConfig \<Rightarrow> bytes" where
  "ticket_view ev w cfg = put_all (ticket_fields (GetDelayedPopRemainingSeconds ev (qc_queue_id cfg) w) cfg
     (ForQueue (qc_queue_id cfg) w))"

lemma fold_encode:
  "fold (\<lambda>cfg b. EncodeRecord (lv cfg) b cfg (st cfg)) qs b = b @ concat (map (\<lambda>cfg. EncodeRecord (lv cfg) [] cfg (st cfg)) qs)"
  by (induction qs arbitrary: b) (simp, simp, subst EncodeRecord_append, simp)

text \<open>
  C36. Read with the protocol's field table, the queue list ends at the first queue with one of its
  string-typed flags off: the three bytes sent for it are an empty string and a stray byte, which
  becomes half a tag. The records before it decode to their fields, among them the queue id, but
  the bonus flag always reads as off: its bit arrives in the access flags.
\<close>

theorem ticket_info_cut_at_flag:
  assumes "length (visible_queues installed w) < 65536"
  shows "GetDataSet (drop 4 (ticket_info_response ev installed can_queue cur w)) 0x010C
      = Got (map (ticket_view ev w) (takeWhile flags_on (visible_queues installed w)))
    \<and> Read4B (ticket_view ev w cfg) 0x0337 = Got (qc_queue_id cfg)
    \<and> Read1B (ticket_view ev w cfg) 0x0081 = Got 0
    \<and> ReadDouble (ticket_view ev w cfg) 0x0008 = Got (bytes_of_u64 (if qc_bonus_queue_flag cfg then 0x80 else 0))"
proof (intro conjI)
  let ?qs = "visible_queues installed w"
  let ?lv = "\<lambda>cfg. GetDelayedPopRemainingSeconds ev (qc_queue_id cfg) w"
  let ?st = "\<lambda>cfg. ForQueue (qc_queue_id cfg) w"
  let ?enc = "\<lambda>cfg. EncodeRecord (?lv cfg) [] cfg (?st cfg)"
  let ?F1 = "F1 0x04EE (if can_queue then 1 else 0)"
  let ?F2 = "F4 0x00F7 cur"
  let ?c = "le16 (word_of_nat (length ?qs))"
  have tag: "le16 0x010C = [0x0C, 0x01]" by code_simp
  have resp: "drop 4 (ticket_info_response ev installed can_queue cur w)
      = put_all [?F1, ?F2] @ le16 0x010C @ ?c @ concat (map ?enc ?qs) @ []"
    by (simp add: ticket_info_response_def Let_def fold_encode visible_queues_def [symmetric] tag
        Write1B_def Write4B_def le16_def)
  let ?d = "put_all [?F1, ?F2] @ le16 0x010C @ ?c @ concat (map ?enc ?qs) @ []"
  let ?p = "length (put_all [?F1, ?F2])"
  have past: "data_set_from ?d 0x010C 0 = data_set_from ?d 0x010C ?p"
    using data_set_past_fields [of "[?F1, ?F2]" "0x010C" "[]" "le16 0x010C @ ?c @ concat (map ?enc ?qs) @ []"] by simp
  have g: "get16 ?d ?p = Some 0x010C" by (rule get16_le16)
  have c: "get16 ((put_all [?F1, ?F2] @ le16 0x010C) @ ?c @ concat (map ?enc ?qs) @ []) (?p + 2) = Some (word_of_nat (length ?qs))"
    by (rule get16_le16_at) simp
  have "data_set_records ((put_all [?F1, ?F2] @ le16 0x010C @ ?c) @ concat (map ?enc ?qs) @ []) (length ?qs)
      (length (put_all [?F1, ?F2] @ le16 0x010C @ ?c)) = Got (map (ticket_view ev w) (takeWhile flags_on ?qs))"
    unfolding ticket_view_def by (rule data_set_records_tickets) simp
  then have r: "data_set_records ?d (length ?qs) (?p + 4) = Got (map (ticket_view ev w) (takeWhile flags_on ?qs))"
    by (simp add: ac_simps)
  have n: "unat (word_of_nat (length ?qs) :: u16) = length ?qs" using assms by (simp add: unat_of_nat)
  have "data_set_from ?d 0x010C ?p = Got (map (ticket_view ev w) (takeWhile flags_on ?qs))"
    using g c r n by (subst data_set_from.simps) simp
  with past show "GetDataSet (drop 4 (ticket_info_response ev installed can_queue cur w)) 0x010C
      = Got (map (ticket_view ev w) (takeWhile flags_on ?qs))"
    unfolding resp GetDataSet_def by simp
next
  let ?t = "\<lambda>f. \<exists>gs hs. ticket_fields (GetDelayedPopRemainingSeconds ev (qc_queue_id cfg) w) cfg (ForQueue (qc_queue_id cfg) w)
      = gs @ f # hs \<and> tag f \<notin> tag ` set gs"
  have at: "read_back (ticket_view ev w cfg) f" if "?t f" for f
  proof -
    from that obtain gs hs where f: "ticket_fields (GetDelayedPopRemainingSeconds ev (qc_queue_id cfg) w) cfg
        (ForQueue (qc_queue_id cfg) w) = gs @ f # hs" "tag f \<notin> tag ` set gs" by blast
    from ticket_fields_ok have "list_all field_ok (gs @ f # hs)" unfolding f(1) [symmetric] .
    with read_back_put [of gs f "put_all hs"] f show ?thesis by (simp add: ticket_view_def)
  qed
  let ?h = "[F4 0x0408 (qc_queue_type_value_id cfg)]"
  have "?t (F4 0x0337 (qc_queue_id cfg))"
    by (rule exI [of _ ?h]) (simp add: ticket_fields_def head_fields_def)
  from at [OF this] show "Read4B (ticket_view ev w cfg) 0x0337 = Got (qc_queue_id cfg)" by simp
  let ?st = "ForQueue (qc_queue_id cfg) w"
  let ?u = "head_fields cfg ?st @ [yes 0x031F] @ map_fields cfg @ [yes 0x021B, F4 0x04DA (qc_sys_site_id cfg), F4 0x048E (qc_sort_order cfg)]"
  have "?t (F1 0x0081 0)"
    by (rule exI [of _ ?u]) (auto simp add: ticket_fields_def site_fields_def head_fields_def map_fields_def yes_def)
  from at [OF this] show "Read1B (ticket_view ev w cfg) 0x0081 = Got 0" by simp
  have "?t (F8 0x0008 (if qc_bonus_queue_flag cfg then 0x80 else 0))"
    by (rule exI [of _ "?u @ [F1 0x0081 0]"]) (auto simp add: ticket_fields_def site_fields_def head_fields_def map_fields_def yes_def)
  from at [OF this] show "ReadDouble (ticket_view ev w cfg) 0x0008 = Got (bytes_of_u64 (if qc_bonus_queue_flag cfg then 0x80 else 0))"
    by simp
qed

definition ex_ticket_world :: World where
  "ex_ticket_world = ex_world\<lparr>w_queues :=
     [(1, ex_queue\<lparr>qu_config := ex_cfg\<lparr>qc_double_agent_flag := True, qc_bonus_queue_flag := True\<rparr>\<rparr>),
      (2, ex_queue\<lparr>qu_config := ex_cfg\<lparr>qc_queue_id := 2\<rparr>\<rparr>)]\<rparr>"

theorem ticket_info_cut_at_flag_witness:
  "GetDataSet (drop 4 (ticket_info_response ex_env [] True 1 ex_ticket_world)) 0x010C
      = Got (map (ticket_view ex_env ex_ticket_world) (takeWhile flags_on (visible_queues [] ex_ticket_world)))
    \<and> Read4B (ticket_view ex_env ex_ticket_world ex_cfg) 0x0337 = Got (qc_queue_id ex_cfg)
    \<and> Read1B (ticket_view ex_env ex_ticket_world ex_cfg) 0x0081 = Got 0
    \<and> ReadDouble (ticket_view ex_env ex_ticket_world ex_cfg) 0x0008
        = Got (bytes_of_u64 (if qc_bonus_queue_flag ex_cfg then 0x80 else 0))"
  by (rule ticket_info_cut_at_flag) (simp add: visible_queues_def GetEnabledQueueConfigs_def ex_ticket_world_def
      ex_world_def QueuePlayableWithDlc_def ex_cfg_def config_before_def)

end
