(* ===== verification/StreamFraming.thy ===== *)
theory StreamFraming
  imports PacketReader
begin

text \<open>
  How messages travel over the byte streams: the framing of the game protocol
  (\<open>TcpSession::do_read\<close>, \<open>send_response\<close>), of the chat connection (\<open>ChatSession::do_read\<close>) and of
  the link to the game servers (\<open>Shared/IpcFraming.hpp\<close>, \<open>IpcSession::do_read_header\<close> and
  \<open>do_read_body\<close>), and the queue of outgoing frames of a client (\<open>enqueue_write\<close>, \<open>do_write\<close>,
  \<open>close_after_login_rejection\<close>).

  A receive buffer is a byte list; a read delivers any number of bytes. A \<open>drain\<close> function is the
  loop that runs after each read: the packets it hands to the handler, in order, and the bytes it
  keeps. What a handler does with a packet is in other theories.
\<close>

section \<open>The interface of a framer\<close>

definition on_read :: "(bytes \<Rightarrow> bytes list \<times> bytes) \<Rightarrow> bytes \<Rightarrow> bytes list \<times> bytes \<Rightarrow> bytes list \<times> bytes" where
  "on_read drain chunk st = (let (ps, r) = drain (snd st @ chunk) in (fst st @ ps, r))"

text \<open>
  The law every framer owes: draining what it kept together with new bytes gives what draining
  everything at once would have given.
\<close>

locale framer =
  fixes drain :: "bytes \<Rightarrow> bytes list \<times> bytes"
  assumes drain_Nil: "drain [] = ([], [])"
    and drain_append: "drain (buf @ more) =
      (fst (drain buf) @ fst (drain (snd (drain buf) @ more)), snd (drain (snd (drain buf) @ more)))"
begin

lemma drain_idem: "drain (snd (drain buf)) = ([], snd (drain buf))"
proof -
  have "drain buf = (fst (drain buf) @ fst (drain (snd (drain buf))), snd (drain (snd (drain buf))))"
    using drain_append [of buf "[]"] by simp
  then show ?thesis by (metis append_self_conv prod.exhaust_sel fst_conv snd_conv)
qed

lemma fold_on_read:
  "drain kept = ([], kept) \<Longrightarrow> fold (on_read drain) chunks (got, kept)
     = (got @ fst (drain (kept @ concat chunks)), snd (drain (kept @ concat chunks)))"
proof (induction chunks arbitrary: got kept)
  case (Cons c cs)
  have "on_read drain c (got, kept) = (got @ fst (drain (kept @ c)), snd (drain (kept @ c)))"
    by (simp add: on_read_def case_prod_beta Let_def)
  moreover note Cons.IH [OF drain_idem [of "kept @ c"], of "got @ fst (drain (kept @ c))"]
  moreover note drain_append [of "kept @ c" "concat cs"]
  ultimately show ?case by simp
qed simp

lemma drain_chunks: "fold (on_read drain) chunks ([], []) = drain (concat chunks)"
  using fold_on_read [of "[]" chunks "[]"] drain_Nil by simp

lemma frames_arrive:
  assumes whole: "\<And>f rest. f \<in> set frames \<Longrightarrow> drain (f @ rest) = (unframe f # fst (drain rest), snd (drain rest))"
    and "concat chunks = concat frames"
  shows "fold (on_read drain) chunks ([], []) = (map unframe frames, [])"
proof -
  have "drain (concat frames) = (map unframe frames, [])"
    using whole by (induction frames) (simp_all add: drain_Nil)
  then show ?thesis by (simp add: drain_chunks assms(2))
qed

end

section \<open>The game connection\<close>

text \<open>
  \<open>TcpSession::do_read\<close>: a two byte length, then as many bytes. A length of zero is skipped. The
  handler is given the frame with its length.
\<close>

function tcp_drain :: "bytes \<Rightarrow> bytes list \<times> bytes" where
  "tcp_drain rx =
     (if length rx \<ge> 2 then
        (let frame_len = unat (ucast (rx ! 0) OR push_bit 8 (ucast (rx ! 1)) :: u16)
         in if frame_len = 0 then tcp_drain (drop 2 rx)
            else if length rx < frame_len + 2 then ([], rx)
            else (let (ps, r) = tcp_drain (drop (frame_len + 2) rx)
                  in (take (frame_len + 2) rx # ps, r)))
      else ([], rx))"
  by pat_completeness auto

termination
  by (relation "measure length") auto

declare tcp_drain.simps [simp del]

section \<open>The chat connection\<close>

text \<open>\<open>ChatSession::do_read\<close> hands over frames of length zero as well.\<close>

function chat_drain :: "bytes \<Rightarrow> bytes list \<times> bytes" where
  "chat_drain acc =
     (if length acc \<ge> 2 then
        (let total = 2 + unat (ucast (acc ! 0) OR push_bit 8 (ucast (acc ! 1)) :: u16)
         in if length acc < total then ([], acc)
            else (let (ps, r) = chat_drain (drop total acc) in (take total acc # ps, r)))
      else ([], acc))"
  by pat_completeness auto

termination
  by (relation "measure length") auto

declare chat_drain.simps [simp del]

section \<open>The link to the game servers\<close>

definition IpcEncode :: "bytes \<Rightarrow> bytes" where
  "IpcEncode payload =
     (let len = word_of_nat (length payload) :: u32
      in [ucast (len AND 0xFF), ucast (drop_bit 8 len AND 0xFF), ucast (drop_bit 16 len AND 0xFF),
          ucast (drop_bit 24 len AND 0xFF)] @ payload)"

definition le32_at :: "bytes \<Rightarrow> u32" where
  "le32_at b = ucast (b ! 0) OR push_bit 8 (ucast (b ! 1)) OR push_bit 16 (ucast (b ! 2))
     OR push_bit 24 (ucast (b ! 3))"

definition IpcDecode :: "bytes \<Rightarrow> (u32 \<times> bytes) option" where
  "IpcDecode buf =
     (if length buf < 4 then None
      else (let payload_len = le32_at buf
            in if length buf < 4 + unat payload_len then None
               else Some (payload_len, take (unat payload_len) (drop 4 buf))))"

text \<open>
  \<open>IpcSession\<close> reads exactly four bytes, then exactly as many as they say, dispatches the body and
  starts again. The bytes of a read that is not complete stay with the socket.
\<close>

function ipc_drain :: "bytes \<Rightarrow> bytes list \<times> bytes" where
  "ipc_drain s =
     (if length s \<ge> 4 then
        (let len = unat (le32_at s)
         in if length s < 4 + len then ([], s)
            else (let (ps, r) = ipc_drain (drop (4 + len) s) in (take len (drop 4 s) # ps, r)))
      else ([], s))"
  by pat_completeness auto

termination
  by (relation "measure length") auto

declare ipc_drain.simps [simp del]

section \<open>Every connection is a framer\<close>

lemma nth_front [simp]: "2 \<le> length xs \<Longrightarrow> (xs @ ys) ! 0 = xs ! 0" "2 \<le> length xs \<Longrightarrow> (xs @ ys) ! Suc 0 = xs ! Suc 0"
  by (subst nth_append, force)+

lemma tcp_drain_append:
  "tcp_drain (buf @ more) = (fst (tcp_drain buf) @ fst (tcp_drain (snd (tcp_drain buf) @ more)),
     snd (tcp_drain (snd (tcp_drain buf) @ more)))"
proof (induction buf rule: tcp_drain.induct)
  case (1 rx)
  let ?n = "unat (ucast (rx ! 0) OR push_bit 8 (ucast (rx ! 1)) :: u16)"
  consider "length rx < 2" | "2 \<le> length rx" "?n = 0" | "2 \<le> length rx" "?n \<noteq> 0" "length rx < ?n + 2"
    | "?n \<noteq> 0" "?n + 2 \<le> length rx" by linarith
  then show ?case
  proof cases
    case 1
    then show ?thesis by (simp add: tcp_drain.simps [of rx] Let_def)
  next
    case 2
    then show ?thesis
      using "1.IH"(1) [OF _ refl] by (simp add: tcp_drain.simps [of rx] tcp_drain.simps [of "rx @ more"] Let_def)
  next
    case 3
    then show ?thesis by (simp add: tcp_drain.simps [of rx] Let_def)
  next
    case 4
    then show ?thesis
      using "1.IH"(2) [OF _ refl] by (simp add: tcp_drain.simps [of rx] tcp_drain.simps [of "rx @ more"] case_prod_beta Let_def)
  qed
qed

lemma chat_drain_append:
  "chat_drain (buf @ more) = (fst (chat_drain buf) @ fst (chat_drain (snd (chat_drain buf) @ more)),
     snd (chat_drain (snd (chat_drain buf) @ more)))"
proof (induction buf rule: chat_drain.induct)
  case (1 acc)
  let ?n = "2 + unat (ucast (acc ! 0) OR push_bit 8 (ucast (acc ! 1)) :: u16)"
  show ?case
  proof (cases "?n \<le> length acc")
    case True
    then show ?thesis
      using "1.IH" [OF _ refl] by (simp add: chat_drain.simps [of acc] chat_drain.simps [of "acc @ more"] case_prod_beta Let_def)
  qed (simp add: chat_drain.simps [of acc] Let_def)
qed

lemma le32_at_append [simp]: "4 \<le> length xs \<Longrightarrow> le32_at (xs @ ys) = le32_at xs"
  by (cases xs) (auto simp: le32_at_def nth_append)

lemma ipc_drain_append:
  "ipc_drain (buf @ more) = (fst (ipc_drain buf) @ fst (ipc_drain (snd (ipc_drain buf) @ more)),
     snd (ipc_drain (snd (ipc_drain buf) @ more)))"
proof (induction buf rule: ipc_drain.induct)
  case (1 s)
  let ?n = "unat (le32_at s)"
  show ?case
  proof (cases "4 + ?n \<le> length s")
    case True
    then show ?thesis
      using "1.IH" [OF _ refl] by (simp add: ipc_drain.simps [of s] ipc_drain.simps [of "s @ more"] case_prod_beta Let_def)
  qed (simp add: ipc_drain.simps [of s] Let_def)
qed

interpretation tcp: framer tcp_drain
  by unfold_locales (simp add: tcp_drain.simps, rule tcp_drain_append)

interpretation chat: framer chat_drain
  by unfold_locales (simp add: chat_drain.simps, rule chat_drain_append)

interpretation ipc: framer ipc_drain
  by unfold_locales (simp add: ipc_drain.simps, rule ipc_drain_append)

text \<open>
  C28. However the bytes of a connection are cut into reads, the packets handed on and the bytes left over
  are those of one read of all the bytes, for the client, the chat and the instance connection:
  coalesced packets are split and split packets are joined.
\<close>

theorem chunks_do_not_matter:
  "fold (on_read tcp_drain) chunks ([], []) = tcp_drain (concat chunks)
   \<and> fold (on_read chat_drain) chunks ([], []) = chat_drain (concat chunks)
   \<and> fold (on_read ipc_drain) chunks ([], []) = ipc_drain (concat chunks)"
  by (simp add: tcp.drain_chunks chat.drain_chunks ipc.drain_chunks)

lemma le32_Encode:
  "le32_at ([ucast (v AND 0xFF), ucast (drop_bit 8 v AND 0xFF), ucast (drop_bit 16 v AND 0xFF),
     ucast (drop_bit 24 v AND 0xFF)] @ rest) = v"
  by (simp add: le32_at_def bit_le32 numeral_3_eq_3 numeral_2_eq_2)

lemma IpcEncode_frame: "\<exists>h. length h = 4 \<and> (\<forall>rest. le32_at (h @ rest) = word_of_nat (length p)) \<and> IpcEncode p = h @ p"
  unfolding IpcEncode_def Let_def
  by (rule exI [of _ "[ucast (word_of_nat (length p) AND 0xFF :: u32), ucast (drop_bit 8 (word_of_nat (length p) :: u32) AND 0xFF),
      ucast (drop_bit 16 (word_of_nat (length p) :: u32) AND 0xFF), ucast (drop_bit 24 (word_of_nat (length p) :: u32) AND 0xFF)]"])
    (simp add: le32_Encode del: append.simps)

text \<open>
  C34. Messages framed by \<open>IpcFraming::Encode\<close> arrive as they were sent, in order and with nothing left
  over, however the stream is cut; \<open>Decode\<close> inverts \<open>Encode\<close> in front of any further bytes and
  rejects every proper prefix of a frame.
\<close>

theorem ipc_roundtrip:
  assumes "list_all (\<lambda>p. length p < 2 ^ 32) ps" "concat chunks = concat (map IpcEncode ps)"
  shows "fold (on_read ipc_drain) chunks ([], []) = (ps, [])
    \<and> list_all (\<lambda>p. IpcDecode (IpcEncode p @ rest) = Some (word_of_nat (length p), p)
        \<and> list_all (\<lambda>n. IpcDecode (take n (IpcEncode p)) = None) [0..<length p + 4]) ps"
proof -
  have whole: "ipc_drain (IpcEncode p @ rest) = (p # fst (ipc_drain rest), snd (ipc_drain rest))"
    "IpcDecode (IpcEncode p @ rest) = Some (word_of_nat (length p), p)"
    "n < length p + 4 \<Longrightarrow> IpcDecode (take n (IpcEncode p)) = None" if "length p < 2 ^ 32" for p rest n
  proof -
    from IpcEncode_frame [of p] obtain h where h: "length h = 4" "\<And>rest. le32_at (h @ rest) = word_of_nat (length p)"
      "IpcEncode p = h @ p" by blast
    have n: "unat (word_of_nat (length p) :: u32) = length p" using that by (simp add: unat_of_nat)
    show "ipc_drain (IpcEncode p @ rest) = (p # fst (ipc_drain rest), snd (ipc_drain rest))"
      by (simp add: ipc_drain.simps [of "h @ p @ rest"] h n case_prod_beta Let_def)
    show "IpcDecode (IpcEncode p @ rest) = Some (word_of_nat (length p), p)"
      by (simp add: IpcDecode_def h n)
    show "IpcDecode (take n (IpcEncode p)) = None" if "n < length p + 4"
      using that h(2) [of "take (n - 4) p"] by (simp add: IpcDecode_def h n)
  qed
  have "fold (on_read ipc_drain) chunks ([], []) = (map (\<lambda>f. drop 4 f) (map IpcEncode ps), [])"
  proof (rule ipc.frames_arrive [OF _ assms(2)])
    fix f rest assume "f \<in> set (map IpcEncode ps)"
    then obtain p where "p \<in> set ps" "f = IpcEncode p" by auto
    moreover from this(1) assms(1) have "length p < 2 ^ 32" by (simp add: list_all_iff)
    moreover have "drop 4 (IpcEncode p) = p" by (simp add: IpcEncode_def Let_def)
    ultimately show "ipc_drain (f @ rest) = (drop 4 f # fst (ipc_drain rest), snd (ipc_drain rest))"
      using whole(1) by simp
  qed
  moreover have "map (\<lambda>f. drop 4 f) (map IpcEncode ps) = ps"
    by (induction ps) (simp_all add: IpcEncode_def Let_def)
  ultimately show ?thesis using assms(1) whole(2,3) by (simp add: list_all_iff)
qed

theorem ipc_roundtrip_witness:
  "fold (on_read ipc_drain) [[2, 0], [0, 0, 7, 8, 0, 0], [0], [0]] ([], []) = ([[7, 8], []], [])
    \<and> list_all (\<lambda>p. IpcDecode (IpcEncode p @ [9]) = Some (word_of_nat (length p), p)
        \<and> list_all (\<lambda>n. IpcDecode (take n (IpcEncode p)) = None) [0..<length p + 4]) [[7, 8], []]"
  by (rule ipc_roundtrip) (simp, code_simp)

section \<open>Frames of the game protocol\<close>

definition le16_at :: "bytes \<Rightarrow> nat" where
  "le16_at s = unat (ucast (s ! 0) OR push_bit 8 (ucast (s ! 1)) :: u16)"

definition prefix16 :: "nat \<Rightarrow> bytes" where
  "prefix16 n = [ucast ((word_of_nat n :: u16) AND 0xFF), ucast (drop_bit 8 (word_of_nat n :: u16))]"

lemma length_prefix16 [simp]: "length (prefix16 n) = 2"
  by (simp add: prefix16_def)

lemma le16_at_prefix [simp]: "n < 65536 \<Longrightarrow> le16_at (prefix16 n @ rest) = n"
  by (simp add: le16_at_def prefix16_def bit_le16 unat_of_nat)

text \<open>\<open>TcpSession::send_response\<close>, the bytes it queues.\<close>

abbreviation "kChunkPayload \<equiv> (1456 :: nat)"

definition send_response :: "bytes \<Rightarrow> bytes" where
  "send_response buffer =
     (if length buffer \<le> kChunkPayload then prefix16 (length buffer) @ buffer
      else (let total = length buffer;
                n_full_chunks = total div kChunkPayload;
                final_chunk_len = total - n_full_chunks * kChunkPayload;
                continuation_chunks = (if final_chunk_len = 0 then n_full_chunks - 1 else n_full_chunks);
                last_chunk_size = (if final_chunk_len = 0 then kChunkPayload else final_chunk_len)
            in concat (map (\<lambda>i. [0, 0] @ take kChunkPayload (drop (i * kChunkPayload) buffer)) [0..<continuation_chunks])
               @ prefix16 last_chunk_size @ drop (continuation_chunks * kChunkPayload) buffer))"

text \<open>
  The receiving side, as the comment in \<open>send_response\<close> describes the client: a length of zero
  announces a full chunk that is to be continued, any other length ends the message. \<open>None\<close>:
  more bytes are needed.
\<close>

function reassemble :: "bytes \<Rightarrow> bytes \<Rightarrow> (bytes \<times> bytes) option" where
  "reassemble got s =
     (if length s < 2 then None
      else (let n = le16_at s
            in if n = 0 then
                 (if length s < 2 + kChunkPayload then None
                  else reassemble (got @ take kChunkPayload (drop 2 s)) (drop (2 + kChunkPayload) s))
               else if length s < 2 + n then None
               else Some (got @ take n (drop 2 s), drop (2 + n) s)))"
  by pat_completeness auto

termination
  by (relation "measure (\<lambda>(got, s). length s)") auto

declare reassemble.simps [simp del]

lemma reassemble_final:
  "0 < length b \<Longrightarrow> length b < 65536 \<Longrightarrow> reassemble got (prefix16 (length b) @ b @ rest) = Some (got @ b, rest)"
  by (simp add: reassemble.simps [of got "prefix16 (length b) @ b @ rest"] Let_def)

lemma reassemble_continuation:
  "length b = kChunkPayload \<Longrightarrow> reassemble got ([0, 0] @ b @ rest) = reassemble (got @ b) rest"
  by (subst reassemble.simps) (simp add: le16_at_def Let_def)

lemma reassemble_chunks:
  "k * kChunkPayload \<le> length buffer \<Longrightarrow>
     reassemble got (concat (map (\<lambda>i. [0, 0] @ take kChunkPayload (drop (i * kChunkPayload) buffer)) [0..<k]) @ rest)
       = reassemble (got @ take (k * kChunkPayload) buffer) rest"
proof (induction k arbitrary: rest)
  case (Suc k)
  let ?c = "take kChunkPayload (drop (k * kChunkPayload) buffer)"
  have len: "length ?c = kChunkPayload" using Suc.prems by simp
  have "take (k * kChunkPayload) buffer @ ?c = take (Suc k * kChunkPayload) buffer"
    by (simp add: take_add [symmetric] add.commute)
  then show ?case
    using Suc.IH [of "[0, 0] @ ?c @ rest"] Suc.prems reassemble_continuation [OF len]
    by (simp del: append.simps take_drop)
qed simp

text \<open>
  A response of any length that is not empty reaches the client whole: the chunks of \<open>send_response\<close>,
  joined as the protocol says (a zero prefix continues, any other ends), give the response and leave
  exactly the bytes behind it.
\<close>

theorem responses_reassemble:
  assumes "buffer \<noteq> []"
  shows "reassemble [] (send_response buffer @ rest) = Some (buffer, rest)"
proof (cases "length buffer \<le> kChunkPayload")
  case True
  then show ?thesis using assms reassemble_final [of buffer "[]" rest] by (simp add: send_response_def)
next
  case False
  let ?q = "length buffer div kChunkPayload"
  define k where "k = (if length buffer - ?q * kChunkPayload = 0 then ?q - 1 else ?q)"
  let ?b = "drop (k * kChunkPayload) buffer"
  have q: "?q * kChunkPayload \<le> length buffer" "length buffer < (?q + 1) * kChunkPayload" "1 \<le> ?q"
    using False by (simp_all add: div_le_dividend dividend_less_div_times ac_simps)
  have k: "k * kChunkPayload \<le> length buffer" "0 < length ?b" "length ?b \<le> kChunkPayload"
    "length ?b = (if length buffer - ?q * kChunkPayload = 0 then kChunkPayload else length buffer - ?q * kChunkPayload)"
    using q False by (auto simp: k_def algebra_simps)
  have "send_response buffer =
      concat (map (\<lambda>i. [0, 0] @ take kChunkPayload (drop (i * kChunkPayload) buffer)) [0..<k]) @ prefix16 (length ?b) @ ?b"
    using False k(4) by (simp add: send_response_def k_def Let_def del: length_drop)
  then show ?thesis
    using reassemble_chunks [OF k(1), of "[]" "prefix16 (length ?b) @ ?b @ rest"]
      reassemble_final [of ?b "take (k * kChunkPayload) buffer" rest] k(2,3)
    by (simp del: length_drop)
qed

theorem responses_reassemble_witness:
  "reassemble [] (send_response (replicate 3000 (7 :: u8)) @ [1]) = Some (replicate 3000 7, [1])"
  by (rule responses_reassemble) simp

abbreviation frame16 :: "bytes \<Rightarrow> bytes" where
  "frame16 p \<equiv> prefix16 (length p) @ p"

lemma drain_frame16:
  assumes "0 < length p" "length p < 65536"
  shows "tcp_drain (frame16 p @ rest) = (frame16 p # fst (tcp_drain rest), snd (tcp_drain rest))"
    and "chat_drain (frame16 p @ rest) = (frame16 p # fst (chat_drain rest), snd (chat_drain rest))"
proof -
  have n: "unat (ucast ((frame16 p @ rest) ! 0) OR push_bit 8 (ucast ((frame16 p @ rest) ! 1)) :: u16) = length p"
    using le16_at_prefix [OF assms(2), of "p @ rest"] by (simp add: le16_at_def)
  have d: "take (length p + 2) (frame16 p @ rest) = frame16 p" "drop (length p + 2) (frame16 p @ rest) = rest"
    "take (2 + length p) (frame16 p @ rest) = frame16 p" "drop (2 + length p) (frame16 p @ rest) = rest" by simp_all
  show "tcp_drain (frame16 p @ rest) = (frame16 p # fst (tcp_drain rest), snd (tcp_drain rest))"
    using assms(1) by (subst tcp_drain.simps) (simp only: n d Let_def length_append length_prefix16 case_prod_beta, simp)
  show "chat_drain (frame16 p @ rest) = (frame16 p # fst (chat_drain rest), snd (chat_drain rest))"
    using assms(1) by (subst chat_drain.simps) (simp only: n d Let_def length_append length_prefix16 case_prod_beta, simp)
qed

text \<open>
  Length-prefixed packets with a body of 1 to 65535 bytes arrive one by one and in order on the client
  and on the chat connection, however the stream is cut.
\<close>

theorem frames_survive_chunking:
  assumes "list_all (\<lambda>p. 0 < length p \<and> length p < 65536) ps" "concat chunks = concat (map frame16 ps)"
  shows "fold (on_read tcp_drain) chunks ([], []) = (map frame16 ps, [])
    \<and> fold (on_read chat_drain) chunks ([], []) = (map frame16 ps, [])"
proof -
  have "fold (on_read tcp_drain) chunks ([], []) = (map (\<lambda>f. f) (map frame16 ps), [])"
    by (rule tcp.frames_arrive [OF _ assms(2)]) (use assms(1) drain_frame16(1) in \<open>auto simp: list_all_iff\<close>)
  moreover have "fold (on_read chat_drain) chunks ([], []) = (map (\<lambda>f. f) (map frame16 ps), [])"
    by (rule chat.frames_arrive [OF _ assms(2)]) (use assms(1) drain_frame16(2) in \<open>auto simp: list_all_iff\<close>)
  ultimately show ?thesis by simp
qed

theorem frames_survive_chunking_witness:
  "fold (on_read tcp_drain) [[2], [0, 5, 6, 1], [], [0, 9]] ([], []) = (map frame16 [[5, 6], [9]], [])
    \<and> fold (on_read chat_drain) [[2], [0, 5, 6, 1], [], [0, 9]] ([], []) = (map frame16 [[5, 6], [9]], [])"
  by (rule frames_survive_chunking) (simp, code_simp)

section \<open>The outgoing queue of a client\<close>

text \<open>
  One \<open>async_write\<close> is in flight at a time (\<open>tw_busy\<close>), and it writes the front of the queue.
  \<open>tw_sent\<close> is what has been written, for the statements below. Closing the socket does not run
  the completion at once: it arrives later, with an error.
\<close>

record TcpWriter =
  tw_queue :: "bytes list"
  tw_bytes :: nat
  tw_close_when_drained :: bool
  tw_open :: bool
  tw_busy :: bool
  tw_sent :: "bytes list"

definition fresh_writer :: TcpWriter where
  "fresh_writer = \<lparr>tw_queue = [], tw_bytes = 0, tw_close_when_drained = False, tw_open = True,
     tw_busy = False, tw_sent = []\<rparr>"

abbreviation "kMaxWriteQueueBytes \<equiv> (2 * 1024 * 1024 :: nat)"

definition do_write :: "TcpWriter \<Rightarrow> TcpWriter" where
  "do_write w = w\<lparr>tw_busy := True\<rparr>"

definition enqueue_write :: "bytes \<Rightarrow> TcpWriter \<Rightarrow> TcpWriter" where
  "enqueue_write frame w =
     (if \<not> tw_open w \<or> tw_close_when_drained w then w
      else if tw_bytes w + length frame > kMaxWriteQueueBytes then w\<lparr>tw_open := False\<rparr>
      else (let idle = (tw_queue w = []);
                w1 = w\<lparr>tw_bytes := tw_bytes w + length frame, tw_queue := tw_queue w @ [frame]\<rparr>
            in if idle then do_write w1 else w1))"

definition write_completed :: "bool \<Rightarrow> TcpWriter \<Rightarrow> TcpWriter" where
  \<comment> \<open>the completion handler of \<open>do_write\<close>; \<open>ec\<close> says whether the write failed\<close>
  "write_completed ec w =
     (if ec then w\<lparr>tw_queue := [], tw_bytes := 0, tw_open := False, tw_busy := False\<rparr>
      else (let w1 = w\<lparr>tw_bytes := tw_bytes w - length (hd (tw_queue w)), tw_queue := tl (tw_queue w),
                       tw_sent := tw_sent w @ [hd (tw_queue w)], tw_busy := False\<rparr>
            in if tw_queue w1 \<noteq> [] then do_write w1
               else if tw_close_when_drained w1 then w1\<lparr>tw_open := False\<rparr> else w1))"

definition close_after_login_rejection :: "TcpWriter \<Rightarrow> TcpWriter" where
  "close_after_login_rejection w =
     (if tw_queue w \<noteq> [] then w\<lparr>tw_close_when_drained := True\<rparr> else w\<lparr>tw_open := False\<rparr>)"

definition writer_accepts :: "bytes \<Rightarrow> TcpWriter \<Rightarrow> bool" where
  "writer_accepts frame w \<longleftrightarrow> tw_open w \<and> \<not> tw_close_when_drained w
     \<and> tw_bytes w + length frame \<le> kMaxWriteQueueBytes"

text \<open>
  The histories of a client's writer, with the frames it took on, in order. A completion can only
  come while a write is in flight.
\<close>

inductive writer_run :: "bytes list \<Rightarrow> TcpWriter \<Rightarrow> bool" where
  start: "writer_run [] fresh_writer"
| enqueue: "writer_run acc w \<Longrightarrow>
    writer_run (if writer_accepts frame w then acc @ [frame] else acc) (enqueue_write frame w)"
| completed: "writer_run acc w \<Longrightarrow> tw_busy w \<Longrightarrow> writer_run acc (write_completed ec w)"
| reject_login: "writer_run acc w \<Longrightarrow> writer_run acc (close_after_login_rejection w)"
| closed_elsewhere: "writer_run acc w \<Longrightarrow> writer_run acc (w\<lparr>tw_open := False\<rparr>)"


definition writer_ok :: "bytes list \<Rightarrow> TcpWriter \<Rightarrow> bool" where
  "writer_ok acc w \<longleftrightarrow>
     tw_bytes w = sum_list (map length (tw_queue w)) \<and> tw_bytes w \<le> kMaxWriteQueueBytes
     \<and> (tw_busy w \<longleftrightarrow> tw_queue w \<noteq> [])
     \<and> (tw_open w \<and> tw_close_when_drained w \<longrightarrow> tw_queue w \<noteq> [])
     \<and> prefix (tw_sent w @ tw_queue w) acc \<and> (tw_open w \<longrightarrow> tw_sent w @ tw_queue w = acc)"

text \<open>
  C35. Along every history of a client's writer the byte count is that of the queue and within the limit,
  one write is in flight exactly while frames are queued, what was sent and what is queued is a
  prefix of the frames taken on, all of them while the socket is open, and an open socket that is to
  close once drained still has something to send.
\<close>

theorem writer_in_order:
  "writer_run acc w \<Longrightarrow> writer_ok acc w"
proof (induction rule: writer_run.induct)
  case start
  show ?case by (simp add: writer_ok_def fresh_writer_def)
next
  case (enqueue acc w frame)
  then show ?case
    by (auto simp: writer_ok_def enqueue_write_def writer_accepts_def do_write_def Let_def)
next
  case (completed acc w ec)
  then obtain f q where "tw_queue w = f # q" by (cases "tw_queue w") (auto simp: writer_ok_def)
  with completed.IH show ?case
    by (cases ec) (auto simp: writer_ok_def write_completed_def do_write_def Let_def elim: append_prefixD)
next
  case (reject_login acc w)
  then show ?case by (auto simp: writer_ok_def close_after_login_rejection_def)
next
  case (closed_elsewhere acc w)
  then show ?case by (auto simp: writer_ok_def)
qed

theorem writer_in_order_witness:
  "writer_ok [[1], [2, 3]] (write_completed False (enqueue_write [2, 3] (enqueue_write [1] fresh_writer)))"
proof (rule writer_in_order)
  have "writer_run [[1]] (enqueue_write [1] fresh_writer)"
    using writer_run.enqueue [OF writer_run.start, of "[1]"] by (simp add: writer_accepts_def fresh_writer_def)
  then have "writer_run [[1], [2, 3]] (enqueue_write [2, 3] (enqueue_write [1] fresh_writer))"
    using writer_run.enqueue [of "[[1]]" _ "[2, 3]"]
    by (force simp: writer_accepts_def fresh_writer_def enqueue_write_def do_write_def Let_def)
  then show "writer_run [[1], [2, 3]] (write_completed False (enqueue_write [2, 3] (enqueue_write [1] fresh_writer)))"
    by (rule writer_run.completed) (simp add: fresh_writer_def enqueue_write_def do_write_def Let_def)
qed

end
