(* ===== verification/MmrService.thy ===== *)
theory MmrService
  imports InstanceRegistry
begin

text \<open>
  The rating engines: \<open>MmrService/MmrService.cpp\<close>, and the tables they read, with the writers of
  those tables in \<open>Database.cpp\<close> (\<open>InsertMatchEvent\<close>, \<open>UpsertMatchPlayerStats\<close>,
  \<open>SetInstanceOutcomeIfNull\<close>).

  A table is the list of its rows in rowid order; a query without \<open>ORDER BY\<close> reads it in that
  order. The rows of \<open>ga_instances\<close> and \<open>ga_instance_players\<close> are those of \<open>InstanceRegistry\<close>;
  the column \<open>winning_task_force\<close>, which only this component reads, is kept beside them.
  \<open>std::pow(10, x)\<close> and \<open>std::sqrt\<close> are the parameters of \<open>Libm\<close>. The database answers every
  statement: the branches for a missing connection or a statement that does not prepare are left
  out.
\<close>

section \<open>The tables\<close>

record EventRecord =
  ev_instance_id :: int
  ev_ts :: int
  ev_game_time :: "rat option"
  ev_event_type :: string
  ev_actor_user_id :: "int option"
  ev_actor_character_id :: "int option"
  ev_actor_bot_id :: "int option"
  ev_actor_task_force :: "int option"
  ev_target_user_id :: "int option"
  ev_target_character_id :: "int option"
  ev_target_bot_id :: "int option"
  ev_target_task_force :: "int option"
  ev_owner_user_id :: "int option"
  ev_owner_character_id :: "int option"
  ev_device_id :: "int option"
  ev_detail :: "int option"
  ev_flags :: int

text \<open>The argument of \<open>InsertMatchEvent\<close>: 0 stands for NULL in the identity fields.\<close>

record MatchEventRow =
  ei_instance_id :: int
  ei_game_time :: rat
  ei_event_type :: string
  ei_actor_user_id :: int
  ei_actor_character_id :: int
  ei_actor_bot_id :: int
  ei_actor_task_force :: int
  ei_target_user_id :: int
  ei_target_character_id :: int
  ei_target_bot_id :: int
  ei_target_task_force :: int
  ei_owner_user_id :: int
  ei_owner_character_id :: int
  ei_device_id :: int
  ei_detail :: int
  ei_flags :: int

text \<open>
  \<open>ms_scores\<close> are the eleven counters in the order of the table: rep points, kills, assists,
  damage taken, damage dealt, buff value, healing, defense, deaths, objective points, bot kills.
\<close>

record MatchPlayerStatsRow =
  ms_instance_id :: int
  ms_user_id :: int
  ms_character_id :: int
  ms_task_force :: int
  ms_scores :: "int list"
  ms_capture_seconds :: rat
  ms_contest_seconds :: rat
  ms_objective_captures :: int
  ms_beacon_spawns_provided :: int
  ms_beacon_spawns_used :: int
  ms_beacons_destroyed :: int
  ms_time_played_seconds :: rat

record WlRow =
  wr_user_id :: int
  wr_class_name :: string
  wr_instance_id :: int
  wr_played_at :: int
  wr_before :: rat
  wr_after :: rat

record PerfRow = WlRow +
  pr_games_after :: int

record MatchDb =
  md_registry :: Registry
  md_winning_tf :: "(int, int) umap"
  md_pvp_maps :: "string list"
  md_events :: "EventRecord list"
  md_stats :: "MatchPlayerStatsRow list"
  md_wl_history :: "WlRow list"
  md_wl_processed :: "(int \<times> int) list"
  md_perf_history :: "PerfRow list"
  md_perf_processed :: "(int \<times> int) list"
  md_settings :: "(string, string) umap"

subsection \<open>The writers\<close>

definition or_null :: "int \<Rightarrow> int option" where
  \<comment> \<open>\<open>BindIdOrNull\<close>, \<open>BindIntOrNull\<close>\<close>
  "or_null v = (if v \<noteq> 0 then Some v else None)"

definition InsertMatchEvent :: "int \<Rightarrow> MatchEventRow \<Rightarrow> MatchDb \<Rightarrow> MatchDb" where
  \<comment> \<open>\<open>now\<close> is \<open>strftime('%s', 'now')\<close>\<close>
  "InsertMatchEvent now row db =
     db\<lparr>md_events := md_events db @
       [\<lparr>ev_instance_id = ei_instance_id row, ev_ts = now, ev_game_time = Some (ei_game_time row),
         ev_event_type = ei_event_type row,
         ev_actor_user_id = or_null (ei_actor_user_id row), ev_actor_character_id = or_null (ei_actor_character_id row),
         ev_actor_bot_id = or_null (ei_actor_bot_id row), ev_actor_task_force = or_null (ei_actor_task_force row),
         ev_target_user_id = or_null (ei_target_user_id row), ev_target_character_id = or_null (ei_target_character_id row),
         ev_target_bot_id = or_null (ei_target_bot_id row), ev_target_task_force = or_null (ei_target_task_force row),
         ev_owner_user_id = or_null (ei_owner_user_id row), ev_owner_character_id = or_null (ei_owner_character_id row),
         ev_device_id = or_null (ei_device_id row), ev_detail = or_null (ei_detail row),
         ev_flags = ei_flags row\<rparr>]\<rparr>"

definition UpsertMatchPlayerStats :: "MatchPlayerStatsRow \<Rightarrow> MatchDb \<Rightarrow> MatchDb" where
  "UpsertMatchPlayerStats row db =
     (let same = (\<lambda>r. ms_instance_id r = ms_instance_id row \<and> ms_character_id r = ms_character_id row
                      \<and> ms_task_force r = ms_task_force row)
      in if list_ex same (md_stats db)
         then db\<lparr>md_stats := map (\<lambda>r. if same r then row else r) (md_stats db)\<rparr>
         else db\<lparr>md_stats := md_stats db @ [row]\<rparr>)"

definition SetInstanceOutcomeIfNull :: "int \<Rightarrow> string \<Rightarrow> int \<Rightarrow> MatchDb \<Rightarrow> MatchDb" where
  "SetInstanceOutcomeIfNull instance_id outcome winning_task_force db =
     (let hit = (\<lambda>r. ir_instance_id r = instance_id \<and> ir_outcome r = None \<and> \<not> ir_is_home_map r);
          ids = map ir_id (filter hit (rg_instances (md_registry db)))
      in db\<lparr>md_registry := update_instances hit (\<lambda>r. r\<lparr>ir_outcome := Some outcome\<rparr>) (md_registry db),
            md_winning_tf := fold (\<lambda>i m. if winning_task_force \<noteq> 0 then umap_put i winning_task_force m
                                         else umap_erase i m) ids (md_winning_tf db)\<rparr>)"

section \<open>Constants and the expected score\<close>

record Libm =
  lm_pow10 :: "rat \<Rightarrow> rat"
  lm_sqrt :: "rat \<Rightarrow> rat"

abbreviation "kDefaultMmr \<equiv> (1000 :: rat)"
abbreviation "kMinPlaySeconds \<equiv> (180 :: rat)"
abbreviation "kWlK \<equiv> (32 :: rat)"
abbreviation "kPerfKBase \<equiv> (24 :: rat)"
abbreviation "kPerfKProvisional \<equiv> (48 :: rat)"
abbreviation "kPerfMinGames \<equiv> (5 :: int)"
abbreviation "kPerfBeta \<equiv> (35 / 100 :: rat)"
abbreviation "kPerfZClamp \<equiv> (3 :: rat)"
abbreviation "kEloPerPlayerGap \<equiv> (220 :: rat)"
abbreviation "kGapDeadzone \<equiv> (1 / 4 :: rat)"
abbreviation "kMaxGapCap \<equiv> (3 :: rat)"
abbreviation "kNumStats \<equiv> (7 :: nat)"

definition kStatSign :: "rat list" where
  "kStatSign = [1, 1, -1, 1, 1, 1, 1]"

type_synonym RatingKey = "int \<times> string"

definition ClassNameForProfile :: "int \<Rightarrow> string option" where
  "ClassNameForProfile profile_id =
     (if profile_id = 680 then Some ''Assault''
      else if profile_id = 567 then Some ''Medic''
      else if profile_id = 681 then Some ''Recon''
      else if profile_id = 679 then Some ''Robotic''
      else None)"

record Stint =
  sn_cls :: string
  sn_task_force :: int
  sn_time :: rat
  sn_stats :: "rat list"

record Participant =
  pa_user_id :: int
  pa_task_force :: int
  pa_cls :: string
  pa_class_time :: rat
  pa_stats :: "rat list"
  pa_perf :: rat

record PlayedMatch =
  mt_id :: int
  mt_started_at :: int
  mt_winning_tf :: int
  mt_players :: "Participant list"

definition ExpectedScore :: "Libm \<Rightarrow> rat \<Rightarrow> rat \<Rightarrow> rat" where
  "ExpectedScore lm rating opp_avg = 1 / (1 + lm_pow10 lm ((opp_avg - rating) / 400))"

section \<open>The head-count gap\<close>

record GapEvent =
  ge_type :: string
  ge_game_time :: rat
  ge_actor :: int
  ge_actor_tf :: int
  ge_target_tf :: int

definition gap_events :: "MatchDb \<Rightarrow> int \<Rightarrow> GapEvent list" where
  "gap_events db instance_id =
     map (\<lambda>r. \<lparr>ge_type = ev_event_type r, ge_game_time = the (ev_game_time r),
                ge_actor = coalesce0 (ev_actor_user_id r), ge_actor_tf = coalesce0 (ev_actor_task_force r),
                ge_target_tf = coalesce0 (ev_target_task_force r)\<rparr>)
       (stable_sort (\<lambda>a b. ev_ts a < ev_ts b)
         (filter (\<lambda>r. ev_instance_id r = instance_id \<and> ev_event_type r \<in> {''JOIN'', ''LEAVE'', ''TEAM_CHANGE''}
              \<and> ev_game_time r \<noteq> None) (md_events db)))"

definition apply_event :: "GapEvent \<Rightarrow> (int, int) umap \<Rightarrow> (int, int) umap" where
  "apply_event e state =
     (if ge_type e = ''JOIN'' then umap_put (ge_actor e) (ge_actor_tf e) state
      else if ge_type e = ''LEAVE'' then umap_erase (ge_actor e) state
      else umap_put (ge_actor e) (ge_target_tf e) state)"

definition heads :: "int \<Rightarrow> (int, int) umap \<Rightarrow> nat" where
  "heads tf state = length (filter (\<lambda>(u, t). t = tf) state)"

text \<open>
  The loop that weighs: state, the two weights and the time of the last event. The
  \<open>std::map\<close> sums \<open>dt\<close> once for every player on the side.
\<close>

definition weigh :: "GapEvent \<Rightarrow> (int, int) umap \<times> rat \<times> rat \<times> rat \<Rightarrow> (int, int) umap \<times> rat \<times> rat \<times> rat" where
  "weigh e = (\<lambda>(state, w1, w2, last_t).
     let dt = ge_game_time e - last_t
     in (apply_event e state, w1 + of_nat (heads 1 state) * dt, w2 + of_nat (heads 2 state) * dt, ge_game_time e))"

definition TeamSizeGap :: "GapEvent list \<Rightarrow> int \<times> rat" where
  "TeamSizeGap evs =
     (if length evs < 2 then (0, 0)
      else (let i = length (takeWhile (\<lambda>e. ge_type e = ''JOIN'') evs);
                settle_t = ge_game_time (evs ! (if i > 0 then i - 1 else 0));
                leaves = length (takeWhile (\<lambda>e. ge_type e = ''LEAVE'') (rev evs));
                teardown_t = (if leaves > 0 then ge_game_time (evs ! (length evs - leaves))
                              else ge_game_time (last evs))
            in if teardown_t \<le> settle_t then (0, 0)
               else (let state = fold apply_event (takeWhile (\<lambda>e. \<not> ge_game_time e > settle_t) evs) [];
                         window = filter (\<lambda>e. \<not> ge_game_time e \<le> settle_t)
                                    (takeWhile (\<lambda>e. ge_game_time e \<le> settle_t \<or> \<not> ge_game_time e > teardown_t) evs);
                         (_, weighted1, weighted2, _) = fold weigh window (state, 0, 0, settle_t);
                         dur = teardown_t - settle_t;
                         avg1 = weighted1 / dur;
                         avg2 = weighted2 / dur
                     in if dur \<le> 0 then (0, 0)
                        else (if avg1 > avg2 then 1 else 2, \<bar>avg1 - avg2\<bar>))))"

definition GetTeamSizeGap :: "MatchDb \<Rightarrow> int \<Rightarrow> int \<times> rat" where
  "GetTeamSizeGap db instance_id = TeamSizeGap (gap_events db instance_id)"

section \<open>Loading the matches\<close>

definition concluded_pvp :: "MatchDb \<Rightarrow> InstanceRow \<Rightarrow> bool" where
  "concluded_pvp db r \<longleftrightarrow>
     ir_outcome r \<in> {Some ''ATTACKERS_WIN'', Some ''DEFENDERS_WIN'', Some ''STALEMATE''}
     \<and> ir_map_name r \<in> set (md_pvp_maps db)"

definition concluded_at :: "InstanceRow \<Rightarrow> int" where
  \<comment> \<open>\<open>COALESCE(NULLIF(end_mission_at, 0), NULLIF(sealed_at, 0), started_at)\<close>\<close>
  "concluded_at r =
     (if ir_end_mission_at r \<noteq> None \<and> ir_end_mission_at r \<noteq> Some 0 then the (ir_end_mission_at r)
      else if ir_sealed_at r \<noteq> None \<and> ir_sealed_at r \<noteq> Some 0 then the (ir_sealed_at r)
      else ir_started_at r)"

definition concluded_before :: "InstanceRow \<Rightarrow> InstanceRow \<Rightarrow> bool" where
  "concluded_before a b \<longleftrightarrow> concluded_at a < concluded_at b \<or> concluded_at a = concluded_at b \<and> ir_id a < ir_id b"

definition LoadMatches :: "MatchDb \<Rightarrow> PlayedMatch list" where
  "LoadMatches db =
     map (\<lambda>r. \<lparr>mt_id = ir_id r, mt_started_at = ir_started_at r,
                mt_winning_tf = umap_get 0 (md_winning_tf db) (ir_id r), mt_players = []\<rparr>)
       (stable_sort concluded_before (filter (concluded_pvp db) (rg_instances (md_registry db))))"

text \<open>The roster sub-query: one class per character, the smallest profile id of its rows.\<close>

definition roster_profile :: "MatchDb \<Rightarrow> int \<Rightarrow> int \<Rightarrow> int option" where
  "roster_profile db iid character_id =
     (case filter (\<lambda>p. p \<in> {680, 567, 681, 679})
             (map (the \<circ> ip_profile_id) (filter (\<lambda>p. ip_instance_id p = iid \<and> ip_character_id p = character_id
                 \<and> ip_profile_id p \<noteq> None) (rg_players (md_registry db)))) of
        [] \<Rightarrow> None | x # xs \<Rightarrow> Some (fold min xs x))"

definition row_stats :: "MatchPlayerStatsRow \<Rightarrow> rat list" where
  \<comment> \<open>kills, assists, deaths, damage dealt, healing, objective points, bot kills\<close>
  "row_stats r = map (\<lambda>k. of_int (ms_scores r ! k)) [1, 2, 8, 4, 6, 9, 10]"

definition stint_of :: "MatchDb \<Rightarrow> MatchPlayerStatsRow \<Rightarrow> Stint option" where
  "stint_of db r =
     (if list_ex (\<lambda>i. ir_id i = ms_instance_id r \<and> concluded_pvp db i) (rg_instances (md_registry db))
         \<and> sum_list (row_stats r) > 0
      then (case Option.bind (roster_profile db (ms_instance_id r) (ms_character_id r)) ClassNameForProfile of
              None \<Rightarrow> None
            | Some cls \<Rightarrow> Some \<lparr>sn_cls = cls, sn_task_force = ms_task_force r,
                sn_time = ms_time_played_seconds r, sn_stats = row_stats r\<rparr>)
      else None)"

definition stints :: "MatchDb \<Rightarrow> ((int \<times> int) \<times> Stint) list" where
  "stints db = List.map_filter (\<lambda>r. map_option (Pair (ms_instance_id r, ms_user_id r)) (stint_of db r)) (md_stats db)"

definition participant :: "int \<Rightarrow> Stint list \<Rightarrow> Participant option" where
  "participant user_id group_stints =
     (let grp = stable_sort (\<lambda>a b. sn_time a > sn_time b) group_stints;
          fin = hd grp;
          same = filter (\<lambda>s. sn_cls s = sn_cls fin) grp;
          class_time = sum_list (map sn_time same)
      in if class_time < kMinPlaySeconds then None
         else Some \<lparr>pa_user_id = user_id, pa_task_force = sn_task_force fin, pa_cls = sn_cls fin,
                pa_class_time = class_time,
                pa_stats = map (\<lambda>k. sum_list (map (\<lambda>s. sn_stats s ! k) same)) [0..<kNumStats],
                pa_perf = 0\<rparr>)"

text \<open>
  The map of stints is visited in key order, so a match collects its players by ascending user
  id. Instance ids are the primary key of \<open>ga_instances\<close>: \<open>by_id\<close> names one match each.
\<close>

definition players_of :: "MatchDb \<Rightarrow> int \<Rightarrow> Participant list" where
  "players_of db iid =
     (let mine = filter (\<lambda>(k, s). fst k = iid) (stints db);
          users = sort (remdups (map (snd \<circ> fst) mine))
      in List.map_filter (\<lambda>u. participant u (map snd (filter (\<lambda>(k, s). snd k = u) mine))) users)"

definition BuildParticipants :: "MatchDb \<Rightarrow> PlayedMatch list \<Rightarrow> PlayedMatch list" where
  "BuildParticipants db matches = map (\<lambda>m. m\<lparr>mt_players := mt_players m @ players_of db (mt_id m)\<rparr>) matches"

section \<open>The performance index\<close>

definition rate :: "Participant \<Rightarrow> nat \<Rightarrow> rat" where
  "rate p k = pa_stats p ! k / (pa_class_time p / 60)"

definition class_rates :: "PlayedMatch list \<Rightarrow> string \<Rightarrow> nat \<Rightarrow> rat list" where
  \<comment> \<open>what \<open>acc[k][cls]\<close> adds up\<close>
  "class_rates matches cls k =
     map (\<lambda>p. rate p k) (filter (\<lambda>p. pa_cls p = cls) (concat (map mt_players matches)))"

definition z_score :: "Libm \<Rightarrow> PlayedMatch list \<Rightarrow> Participant \<Rightarrow> nat \<Rightarrow> rat option" where
  "z_score lm matches p k =
     (let rs = class_rates matches (pa_cls p) k;
          n = of_nat (length rs) :: rat;
          mean = sum_list rs / n;
          var0 = sum_list (map (\<lambda>r. r * r) rs) / n - mean * mean;
          var = (if var0 < 0 then 0 else var0);
          sd = lm_sqrt lm var;
          z = (rate p k - mean) / sd
      in if length rs < 2 then None
         else if sd = 0 then None
         else Some (max (- kPerfZClamp) (min kPerfZClamp z)))"

definition perf_index :: "Libm \<Rightarrow> PlayedMatch list \<Rightarrow> Participant \<Rightarrow> rat" where
  "perf_index lm matches p =
     (let zs = List.map_filter (\<lambda>k. map_option (\<lambda>z. kStatSign ! k * z) (z_score lm matches p k)) [0..<kNumStats]
      in if length zs \<noteq> 0 then sum_list zs / of_nat (length zs) else 0)"

definition ComputePerfIndices :: "Libm \<Rightarrow> PlayedMatch list \<Rightarrow> PlayedMatch list" where
  "ComputePerfIndices lm matches =
     map (\<lambda>m. m\<lparr>mt_players := map (\<lambda>p. p\<lparr>pa_perf := perf_index lm matches p\<rparr>) (mt_players m)\<rparr>) matches"

section \<open>The fold\<close>

definition LoadProcessed :: "(int \<times> int) list \<Rightarrow> int set" where
  "LoadProcessed tbl = set (map fst tbl)"

definition LoadWlState :: "'a WlRow_scheme list \<Rightarrow> (RatingKey, rat) umap" where
  "LoadWlState rows = fold (\<lambda>r. umap_put (wr_user_id r, wr_class_name r) (wr_after r)) rows []"

definition LoadPerfGames :: "PerfRow list \<Rightarrow> (RatingKey, int) umap" where
  "LoadPerfGames rows = fold (\<lambda>r. umap_put (wr_user_id r, wr_class_name r) (pr_games_after r)) rows []"

text \<open>\<open>INSERT OR IGNORE\<close>: a row whose primary key is taken is dropped.\<close>

definition insert_history :: "'a WlRow_scheme \<Rightarrow> 'a WlRow_scheme list \<Rightarrow> 'a WlRow_scheme list" where
  "insert_history row tbl =
     (if list_ex (\<lambda>r. wr_user_id r = wr_user_id row \<and> wr_class_name r = wr_class_name row
                      \<and> wr_instance_id r = wr_instance_id row) tbl
      then tbl else tbl @ [row])"

definition insert_proc :: "int \<Rightarrow> int \<Rightarrow> (int \<times> int) list \<Rightarrow> (int \<times> int) list" where
  "insert_proc iid played_at tbl = (if iid \<in> fst ` set tbl then tbl else tbl @ [(iid, played_at)])"

definition team_avg :: "PlayedMatch \<Rightarrow> (RatingKey, rat) umap \<Rightarrow> int \<Rightarrow> rat" where
  "team_avg m ratings tf =
     (let team = filter (\<lambda>p. pa_task_force p = tf) (mt_players m)
      in sum_list (map (\<lambda>p. umap_get kDefaultMmr ratings (pa_user_id p, pa_cls p)) team) / of_nat (length team))"

text \<open>What a match has to say about its sides: \<open>tf_a\<close>, \<open>tf_b\<close> and the head-count correction.\<close>

record Sides =
  sd_a :: int
  sd_b :: int
  sd_bigger :: int
  sd_gap :: rat
  sd_adjust :: bool

definition task_forces :: "PlayedMatch \<Rightarrow> int list" where
  "task_forces m = sort (remdups (map pa_task_force (mt_players m)))"

definition match_sides :: "PlayedMatch \<Rightarrow> int \<times> rat \<Rightarrow> Sides" where
  "match_sides m gap_res =
     (let tf_a = task_forces m ! 0;
          tf_b = task_forces m ! 1;
          bigger = fst gap_res;
          gap = min (snd gap_res) kMaxGapCap
      in \<lparr>sd_a = tf_a, sd_b = tf_b, sd_bigger = bigger, sd_gap = gap,
          sd_adjust = (bigger \<noteq> 0 \<and> (bigger = tf_a \<or> bigger = tf_b) \<and> gap > kGapDeadzone)\<rparr>)"

definition adjusted :: "Sides \<Rightarrow> (int \<Rightarrow> rat) \<Rightarrow> int \<Rightarrow> rat" where
  "adjusted sd avg =
     (if sd_adjust sd then
        (let smaller = (if sd_bigger sd = sd_a sd then sd_b sd else sd_a sd);
             half = sd_gap sd * kEloPerPlayerGap / 2;
             avg1 = avg(sd_bigger sd := avg (sd_bigger sd) + half)
         in avg1(smaller := avg1 smaller - half))
      else avg)"

definition opponent :: "Sides \<Rightarrow> Participant \<Rightarrow> int" where
  "opponent sd p = (if pa_task_force p = sd_a sd then sd_b sd else sd_a sd)"

definition actual_score :: "PlayedMatch \<Rightarrow> Participant \<Rightarrow> rat" where
  "actual_score m p = (if mt_winning_tf m = 0 then 1 / 2 else if pa_task_force p = mt_winning_tf m then 1 else 0)"

record WlEngine =
  we_rating :: "(RatingKey, rat) umap"
  we_history :: "WlRow list"
  we_rows :: nat

definition wl_player :: "Libm \<Rightarrow> PlayedMatch \<Rightarrow> Sides \<Rightarrow> (int \<Rightarrow> rat) \<Rightarrow> Participant \<Rightarrow> WlEngine \<Rightarrow> WlEngine" where
  "wl_player lm m sd adj p e =
     (let key = (pa_user_id p, pa_cls p);
          before = umap_get kDefaultMmr (we_rating e) key;
          expected = ExpectedScore lm before (adj (opponent sd p));
          actual = actual_score m p;
          after = before + kWlK * (actual - expected)
      in e\<lparr>we_rating := umap_put key after (we_rating e),
           we_history := insert_history \<lparr>wr_user_id = pa_user_id p, wr_class_name = pa_cls p,
             wr_instance_id = mt_id m, wr_played_at = mt_started_at m, wr_before = before, wr_after = after\<rparr>
             (we_history e),
           we_rows := we_rows e + 1\<rparr>)"

definition wl_rate :: "Libm \<Rightarrow> PlayedMatch \<Rightarrow> Sides \<Rightarrow> WlEngine \<Rightarrow> WlEngine" where
  "wl_rate lm m sd e = (let adj = adjusted sd (team_avg m (we_rating e)) in fold (wl_player lm m sd adj) (mt_players m) e)"

record PerfEngine =
  pe_rating :: "(RatingKey, rat) umap"
  pe_games :: "(RatingKey, int) umap"
  pe_history :: "PerfRow list"
  pe_rows :: nat

definition perf_player ::
  "Libm \<Rightarrow> PlayedMatch \<Rightarrow> Sides \<Rightarrow> (int \<Rightarrow> rat) \<Rightarrow> (int \<Rightarrow> rat) \<Rightarrow> Participant \<Rightarrow> PerfEngine \<Rightarrow> PerfEngine" where
  "perf_player lm m sd avg adj p e =
     (let key = (pa_user_id p, pa_cls p);
          before = umap_get kDefaultMmr (pe_rating e) key;
          expected = ExpectedScore lm (avg (pa_task_force p)) (adj (opponent sd p));
          actual = actual_score m p;
          games = umap_get 0 (pe_games e) key;
          k = (if games < kPerfMinGames then kPerfKProvisional else kPerfKBase);
          after = before + k * ((actual - expected) + kPerfBeta * pa_perf p)
      in e\<lparr>pe_rating := umap_put key after (pe_rating e),
           pe_games := umap_put key (games + 1) (pe_games e),
           pe_history := insert_history \<lparr>wr_user_id = pa_user_id p, wr_class_name = pa_cls p,
             wr_instance_id = mt_id m, wr_played_at = mt_started_at m, wr_before = before, wr_after = after,
             pr_games_after = games + 1\<rparr> (pe_history e),
           pe_rows := pe_rows e + 1\<rparr>)"

definition perf_rate :: "Libm \<Rightarrow> PlayedMatch \<Rightarrow> Sides \<Rightarrow> PerfEngine \<Rightarrow> PerfEngine" where
  "perf_rate lm m sd e =
     (let avg = team_avg m (pe_rating e); adj = adjusted sd avg
      in fold (perf_player lm m sd avg adj) (mt_players m) e)"

record FoldState =
  fs_wl :: WlEngine
  fs_perf :: PerfEngine
  fs_wl_processed :: "(int \<times> int) list"
  fs_perf_processed :: "(int \<times> int) list"
  fs_rated :: nat
  fs_skipped_one_sided :: nat
  fs_gap_adjusted :: nat

text \<open>
  One round of the loop. \<open>gap\<close> is \<open>GetTeamSizeGap\<close> on the database, whose event table the fold
  does not change.
\<close>

definition fold_match ::
  "Libm \<Rightarrow> (int \<Rightarrow> int \<times> rat) \<Rightarrow> int set \<Rightarrow> int set \<Rightarrow> PlayedMatch \<Rightarrow> FoldState \<Rightarrow> FoldState" where
  "fold_match lm gap wl_done perf_done m st =
     (let wl_new = mt_id m \<notin> wl_done;
          pf_new = mt_id m \<notin> perf_done
      in if \<not> wl_new \<and> \<not> pf_new then st
         else (let st1 = (if wl_new then st\<lparr>fs_wl_processed := insert_proc (mt_id m) (mt_started_at m) (fs_wl_processed st)\<rparr> else st);
                   st2 = (if pf_new then st1\<lparr>fs_perf_processed := insert_proc (mt_id m) (mt_started_at m) (fs_perf_processed st1)\<rparr> else st1)
               in if mt_players m = [] then st2
                  else if length (task_forces m) \<noteq> 2 then st2\<lparr>fs_skipped_one_sided := fs_skipped_one_sided st2 + 1\<rparr>
                  else (let sd = match_sides m (gap (mt_id m));
                            st3 = (if sd_adjust sd then st2\<lparr>fs_gap_adjusted := fs_gap_adjusted st2 + 1\<rparr> else st2);
                            st4 = (if wl_new then st3\<lparr>fs_wl := wl_rate lm m sd (fs_wl st3)\<rparr> else st3);
                            st5 = (if pf_new then st4\<lparr>fs_perf := perf_rate lm m sd (fs_perf st4)\<rparr> else st4)
                        in st5\<lparr>fs_rated := fs_rated st5 + 1\<rparr>)))"

datatype FoldResult = UpToDate | Folded nat nat nat nat nat

definition pending_count :: "MatchDb \<Rightarrow> nat" where
  "pending_count db =
     length (filter (\<lambda>r. concluded_pvp db r \<and> (ir_id r \<notin> fst ` set (md_wl_processed db)
        \<or> ir_id r \<notin> fst ` set (md_perf_processed db))) (rg_instances (md_registry db)))"

definition start_fold :: "MatchDb \<Rightarrow> FoldState" where
  "start_fold db =
     \<lparr>fs_wl = \<lparr>we_rating = LoadWlState (md_wl_history db), we_history = md_wl_history db, we_rows = 0\<rparr>,
      fs_perf = \<lparr>pe_rating = LoadWlState (md_perf_history db), pe_games = LoadPerfGames (md_perf_history db),
        pe_history = md_perf_history db, pe_rows = 0\<rparr>,
      fs_wl_processed = md_wl_processed db, fs_perf_processed = md_perf_processed db,
      fs_rated = 0, fs_skipped_one_sided = 0, fs_gap_adjusted = 0\<rparr>"

definition FoldLocked :: "Libm \<Rightarrow> MatchDb \<Rightarrow> FoldResult \<times> MatchDb" where
  "FoldLocked lm db =
     (if pending_count db = 0 then (UpToDate, db)
      else (let matches = ComputePerfIndices lm (BuildParticipants db (LoadMatches db));
                st = fold (fold_match lm (GetTeamSizeGap db) (LoadProcessed (md_wl_processed db))
                       (LoadProcessed (md_perf_processed db))) matches (start_fold db)
            in (Folded (fs_rated st) (fs_skipped_one_sided st) (fs_gap_adjusted st) (we_rows (fs_wl st)) (pe_rows (fs_perf st)),
                db\<lparr>md_wl_history := we_history (fs_wl st), md_wl_processed := fs_wl_processed st,
                   md_perf_history := pe_history (fs_perf st), md_perf_processed := fs_perf_processed st\<rparr>)))"

definition FoldUnprocessed :: "Libm \<Rightarrow> MatchDb \<Rightarrow> MatchDb" where
  "FoldUnprocessed lm db = snd (FoldLocked lm db)"

definition Reseed :: "Libm \<Rightarrow> MatchDb \<Rightarrow> FoldResult \<times> MatchDb" where
  "Reseed lm db = FoldLocked lm (db\<lparr>md_wl_history := [], md_wl_processed := [],
     md_perf_history := [], md_perf_processed := []\<rparr>)"

section \<open>The active engine and the rating matchmaking sees\<close>

definition GetActiveEngine :: "MatchDb \<Rightarrow> string" where
  "GetActiveEngine db = (case map_of (md_settings db) ''active_mmr_engine'' of
     Some v \<Rightarrow> if v \<noteq> [] then v else ''wl'' | None \<Rightarrow> ''wl'')"

definition last_rating :: "int \<Rightarrow> string \<Rightarrow> 'a WlRow_scheme list \<Rightarrow> rat" where
  \<comment> \<open>\<open>ORDER BY rowid DESC LIMIT 1\<close>\<close>
  "last_rating user_id cls rows =
     (case filter (\<lambda>r. wr_user_id r = user_id \<and> wr_class_name r = cls) rows of
        [] \<Rightarrow> kDefaultMmr | rs \<Rightarrow> wr_after (last rs))"

definition GetCurrentRating :: "int \<Rightarrow> u32 \<Rightarrow> MatchDb \<Rightarrow> rat" where
  "GetCurrentRating user_id profile_id db =
     (case ClassNameForProfile (sint profile_id) of
        None \<Rightarrow> kDefaultMmr
      | Some cls \<Rightarrow> (if GetActiveEngine db = ''perf'' then last_rating user_id cls (md_perf_history db)
                    else last_rating user_id cls (md_wl_history db)))"

definition SetActiveEngine :: "string \<Rightarrow> MatchDb \<Rightarrow> bool \<times> MatchDb" where
  "SetActiveEngine engine db =
     (if engine \<noteq> ''wl'' \<and> engine \<noteq> ''perf'' then (False, db)
      else (True, db\<lparr>md_settings := umap_put ''active_mmr_engine'' engine (md_settings db)\<rparr>))"

end
