(* ===== verification/MmrChain.thy ===== *)
theory MmrChain
  imports MmrService
begin

text \<open>
  What the rating engines of \<open>MmrService\<close> keep: the history of every player and class is a chain
  of bounded steps from the default rating, a match is rated once, and a reseed reproduces the
  win/loss chain of the live server.
\<close>

section \<open>Histories\<close>

definition seat :: "'a WlRow_scheme \<Rightarrow> int \<times> int" where
  "seat r = (wr_user_id r, wr_instance_id r)"

definition chained :: "'a WlRow_scheme list \<Rightarrow> bool" where
  "chained rows = list_all (\<lambda>i. wr_before (rows ! i) =
     last_rating (wr_user_id (rows ! i)) (wr_class_name (rows ! i)) (take i rows)) [0..<length rows]"

definition history_ok :: "rat \<Rightarrow> (int \<times> int) list \<Rightarrow> 'a WlRow_scheme list \<Rightarrow> bool" where
  "history_ok B proc rows \<longleftrightarrow> distinct (map seat rows) \<and> chained rows
     \<and> (\<forall>r\<in>set rows. wr_instance_id r \<in> fst ` set proc \<and> \<bar>wr_after r - wr_before r\<bar> \<le> B)"

lemma chained_Nil [simp]: "chained []"
  by (simp add: chained_def)

lemma chained_snoc [simp]:
  "chained (rows @ [r]) \<longleftrightarrow> chained rows \<and> wr_before r = last_rating (wr_user_id r) (wr_class_name r) rows"
  by (auto simp: chained_def nth_append list_all_iff)

lemma last_rating_Nil [simp]: "last_rating u c [] = 1000"
  by (simp add: last_rating_def)

lemma last_rating_alt:
  "last_rating u c rows = (let rs = filter (\<lambda>r. wr_user_id r = u \<and> wr_class_name r = c) rows
     in if rs = [] then 1000 else wr_after (last rs))"
  by (simp add: last_rating_def Let_def split: list.splits)

lemma last_rating_snoc [simp]:
  "last_rating u c (rows @ [r]) = (if wr_user_id r = u \<and> wr_class_name r = c then wr_after r else last_rating u c rows)"
  unfolding last_rating_alt by simp

lemma LoadWlState_snoc [simp]:
  "LoadWlState (rows @ [r]) = umap_put (wr_user_id r, wr_class_name r) (wr_after r) (LoadWlState rows)"
  by (simp add: LoadWlState_def)

lemma LoadWlState_last: "umap_get 1000 (LoadWlState rows) (u, c) = last_rating u c rows"
  by (induction rows rule: rev_induct) (auto simp: umap_get_def LoadWlState_def)

lemma LoadPerfGames_snoc [simp]:
  "LoadPerfGames (rows @ [r]) = umap_put (wr_user_id r, wr_class_name r) (pr_games_after r) (LoadPerfGames rows)"
  by (simp add: LoadPerfGames_def)

lemma history_ok_Nil [simp]: "history_ok B proc []"
  by (simp add: history_ok_def)

lemma history_ok_snoc:
  "history_ok B proc rows \<Longrightarrow> seat r \<notin> seat ` set rows \<Longrightarrow> wr_instance_id r \<in> fst ` set proc \<Longrightarrow>
     wr_before r = last_rating (wr_user_id r) (wr_class_name r) rows \<Longrightarrow> \<bar>wr_after r - wr_before r\<bar> \<le> B \<Longrightarrow>
     history_ok B proc (rows @ [r])"
  by (auto simp: history_ok_def)

lemma history_ok_proc: "history_ok B proc rows \<Longrightarrow> fst ` set proc \<subseteq> fst ` set proc' \<Longrightarrow> history_ok B proc' rows"
  by (auto simp: history_ok_def)

lemma insert_history_fresh: "seat row \<notin> seat ` set tbl \<Longrightarrow> insert_history row tbl = tbl @ [row]"
  by (force simp: insert_history_def list_ex_iff seat_def image_iff)

lemma insert_proc_ids [simp]: "fst ` set (insert_proc i t tbl) = insert i (fst ` set tbl)"
  by (auto simp: insert_proc_def)

section \<open>Bounds of one rating\<close>

definition libm_ok :: "Libm \<Rightarrow> bool" where
  \<comment> \<open>\<open>pow\<close> of a positive base is positive\<close>
  "libm_ok lm \<longleftrightarrow> (\<forall>x. 0 < lm_pow10 lm x)"

lemma expected_bounds: "libm_ok lm \<Longrightarrow> 0 < ExpectedScore lm a b \<and> ExpectedScore lm a b < 1"
proof -
  assume "libm_ok lm"
  then have "0 < lm_pow10 lm ((b - a) / 400)" by (simp add: libm_ok_def)
  then show ?thesis by (simp add: ExpectedScore_def)
qed

lemma surprise_bound: "libm_ok lm \<Longrightarrow> \<bar>actual_score m p - ExpectedScore lm a b\<bar> \<le> 1"
  using expected_bounds [of lm a b] by (auto simp: actual_score_def abs_le_iff)

lemma wl_delta: "libm_ok lm \<Longrightarrow> \<bar>(b + 32 * (actual_score m p - ExpectedScore lm a c)) - b\<bar> \<le> 32"
  using surprise_bound [of lm m p a c] by (simp add: abs_mult)

lemma z_bound: "z_score lm ms p k = Some z \<Longrightarrow> \<bar>z\<bar> \<le> 3"
  by (auto simp: z_score_def Let_def abs_le_iff split: if_splits)

lemma sum_list_abs_bound:
  fixes zs :: "rat list"
  assumes "\<And>z. z \<in> set zs \<Longrightarrow> \<bar>z\<bar> \<le> B"
  shows "\<bar>sum_list zs\<bar> \<le> of_nat (length zs) * B"
  using assms
proof (induction zs)
  case (Cons z zs)
  have "\<bar>sum_list zs\<bar> \<le> of_nat (length zs) * B" by (rule Cons.IH) (simp add: Cons.prems)
  moreover have "\<bar>z\<bar> \<le> B" by (simp add: Cons.prems)
  ultimately show ?case using abs_triangle_ineq [of z "sum_list zs"] by (simp add: algebra_simps)
qed simp

lemma stat_sign: "k < 7 \<Longrightarrow> \<bar>kStatSign ! k\<bar> = 1"
  by (auto simp: kStatSign_def less_Suc_eq numeral_eq_Suc)

lemma perf_index_bound: "\<bar>perf_index lm ms p\<bar> \<le> 3"
proof -
  define zs where "zs = List.map_filter (\<lambda>k. map_option (\<lambda>z. kStatSign ! k * z) (z_score lm ms p k)) [0..<7]"
  have "\<bar>z\<bar> \<le> 3" if "z \<in> set zs" for z
  proof -
    from that obtain k y where "k < 7" "z_score lm ms p k = Some y" "z = kStatSign ! k * y"
      by (auto simp: zs_def map_filter_def)
    then show ?thesis using z_bound [of lm ms p k y] stat_sign [of k] by (simp add: abs_mult)
  qed
  then have "\<bar>sum_list zs\<bar> \<le> of_nat (length zs) * 3" by (rule sum_list_abs_bound)
  then show ?thesis
    unfolding perf_index_def zs_def [symmetric] Let_def by (simp add: divide_le_eq abs_divide mult.commute)
qed

lemma perf_delta:
  assumes "libm_ok lm" "k = 48 \<or> k = 24" "\<bar>x\<bar> \<le> 3"
  shows "\<bar>(b + k * ((actual_score m p - ExpectedScore lm a c) + 35 / 100 * x)) - b\<bar> \<le> 492 / 5"
proof -
  have "\<bar>(actual_score m p - ExpectedScore lm a c) + 35 / 100 * x\<bar> \<le> 41 / 20"
    using surprise_bound [OF assms(1), of m p a c] assms(3) unfolding abs_le_iff by linarith
  then show ?thesis using assms(2) by (auto simp: abs_mult)
qed

section \<open>Rating one match\<close>

definition wl_ok :: "(int \<times> int) list \<Rightarrow> WlEngine \<Rightarrow> bool" where
  "wl_ok proc e \<longleftrightarrow> we_rating e = LoadWlState (we_history e) \<and> history_ok 32 proc (we_history e)"

definition perf_ok :: "(int \<times> int) list \<Rightarrow> PerfEngine \<Rightarrow> bool" where
  "perf_ok proc e \<longleftrightarrow> pe_rating e = LoadWlState (pe_history e) \<and> pe_games e = LoadPerfGames (pe_history e)
     \<and> history_ok (492 / 5) proc (pe_history e)"

text \<open>No row of match \<open>iid\<close> belongs to one of the users \<open>us\<close>.\<close>

definition unseated :: "int \<Rightarrow> int list \<Rightarrow> 'a WlRow_scheme list \<Rightarrow> bool" where
  "unseated iid us rows \<longleftrightarrow> (\<forall>u\<in>set us. (u, iid) \<notin> seat ` set rows)"

lemma wl_player_step:
  assumes lm: "libm_ok lm" and ok: "wl_ok proc e" and m: "mt_id m \<in> fst ` set proc"
    and free: "(pa_user_id p, mt_id m) \<notin> seat ` set (we_history e)"
  shows "wl_ok proc (wl_player lm m sd adj p e) \<and>
    seat ` set (we_history (wl_player lm m sd adj p e)) = insert (pa_user_id p, mt_id m) (seat ` set (we_history e))"
proof -
  define b where "b = last_rating (pa_user_id p) (pa_cls p) (we_history e)"
  define row :: WlRow where "row = \<lparr>wr_user_id = pa_user_id p, wr_class_name = pa_cls p, wr_instance_id = mt_id m,
     wr_played_at = mt_started_at m, wr_before = b,
     wr_after = b + 32 * (actual_score m p - ExpectedScore lm b (adj (opponent sd p)))\<rparr>"
  have seat: "seat row = (pa_user_id p, mt_id m)" by (simp add: row_def seat_def)
  have b: "umap_get 1000 (we_rating e) (pa_user_id p, pa_cls p) = b"
    using ok by (simp add: wl_ok_def LoadWlState_last b_def)
  have e': "wl_player lm m sd adj p e = e\<lparr>we_rating := umap_put (pa_user_id p, pa_cls p) (wr_after row) (we_rating e),
      we_history := we_history e @ [row], we_rows := we_rows e + 1\<rparr>"
    using insert_history_fresh [of row "we_history e"] free seat
    by (simp add: wl_player_def Let_def b row_def)
  have "history_ok 32 proc (we_history e @ [row])"
    by (rule history_ok_snoc) (use ok m free seat wl_delta [OF lm] in \<open>auto simp: wl_ok_def row_def b_def\<close>)
  with ok seat show ?thesis by (simp add: e' wl_ok_def row_def)
qed

lemma wl_players:
  "libm_ok lm \<Longrightarrow> wl_ok proc e \<Longrightarrow> mt_id m \<in> fst ` set proc \<Longrightarrow> distinct (map pa_user_id ps) \<Longrightarrow>
     unseated (mt_id m) (map pa_user_id ps) (we_history e) \<Longrightarrow>
     wl_ok proc (fold (wl_player lm m sd adj) ps e)"
proof (induction ps arbitrary: e)
  case (Cons p ps)
  have "(pa_user_id p, mt_id m) \<notin> seat ` set (we_history e)" using Cons.prems(5) by (simp add: unseated_def)
  note step = wl_player_step [OF Cons.prems(1-3) this, of sd adj]
  have "wl_ok proc (fold (wl_player lm m sd adj) ps (wl_player lm m sd adj p e))"
  proof (rule Cons.IH)
    show "unseated (mt_id m) (map pa_user_id ps) (we_history (wl_player lm m sd adj p e))"
      using step Cons.prems(4,5) by (auto simp: unseated_def image_iff)
  qed (use step Cons.prems in auto)
  then show ?case by simp
qed simp

lemma perf_player_step:
  assumes lm: "libm_ok lm" and ok: "perf_ok proc e" and m: "mt_id m \<in> fst ` set proc"
    and free: "(pa_user_id p, mt_id m) \<notin> seat ` set (pe_history e)" and z: "\<bar>pa_perf p\<bar> \<le> 3"
  shows "perf_ok proc (perf_player lm m sd avg adj p e) \<and>
    seat ` set (pe_history (perf_player lm m sd avg adj p e)) = insert (pa_user_id p, mt_id m) (seat ` set (pe_history e))"
proof -
  define b where "b = last_rating (pa_user_id p) (pa_cls p) (pe_history e)"
  define g where "g = umap_get 0 (pe_games e) (pa_user_id p, pa_cls p)"
  define k :: rat where "k = (if g < 5 then 48 else 24)"
  define row :: PerfRow where "row = \<lparr>wr_user_id = pa_user_id p, wr_class_name = pa_cls p, wr_instance_id = mt_id m,
     wr_played_at = mt_started_at m, wr_before = b,
     wr_after = b + k * ((actual_score m p - ExpectedScore lm (avg (pa_task_force p)) (adj (opponent sd p))) + 35 / 100 * pa_perf p),
     pr_games_after = g + 1\<rparr>"
  have seat: "seat row = (pa_user_id p, mt_id m)" by (simp add: row_def seat_def)
  have b: "umap_get 1000 (pe_rating e) (pa_user_id p, pa_cls p) = b"
    using ok by (simp add: perf_ok_def LoadWlState_last b_def)
  have e': "perf_player lm m sd avg adj p e = e\<lparr>pe_rating := umap_put (pa_user_id p, pa_cls p) (wr_after row) (pe_rating e),
      pe_games := umap_put (pa_user_id p, pa_cls p) (g + 1) (pe_games e),
      pe_history := pe_history e @ [row], pe_rows := pe_rows e + 1\<rparr>"
    using insert_history_fresh [of row "pe_history e"] free seat
    by (simp add: perf_player_def Let_def b row_def g_def [symmetric] k_def)
  have "history_ok (492 / 5) proc (pe_history e @ [row])"
    by (rule history_ok_snoc)
      (use ok m free seat perf_delta [OF lm _ z, of k] in \<open>auto simp: perf_ok_def row_def b_def k_def\<close>)
  with ok seat show ?thesis by (simp add: e' perf_ok_def row_def)
qed

lemma perf_players:
  "libm_ok lm \<Longrightarrow> perf_ok proc e \<Longrightarrow> mt_id m \<in> fst ` set proc \<Longrightarrow> distinct (map pa_user_id ps) \<Longrightarrow>
     unseated (mt_id m) (map pa_user_id ps) (pe_history e) \<Longrightarrow> list_all (\<lambda>p. \<bar>pa_perf p\<bar> \<le> 3) ps \<Longrightarrow>
     perf_ok proc (fold (perf_player lm m sd avg adj) ps e)"
proof (induction ps arbitrary: e)
  case (Cons p ps)
  have "(pa_user_id p, mt_id m) \<notin> seat ` set (pe_history e)" using Cons.prems(5) by (simp add: unseated_def)
  moreover have "\<bar>pa_perf p\<bar> \<le> 3" using Cons.prems(6) by simp
  ultimately have step: "perf_ok proc (perf_player lm m sd avg adj p e) \<and>
      seat ` set (pe_history (perf_player lm m sd avg adj p e)) = insert (pa_user_id p, mt_id m) (seat ` set (pe_history e))"
    by (rule perf_player_step [OF Cons.prems(1-3)])
  have "perf_ok proc (fold (perf_player lm m sd avg adj) ps (perf_player lm m sd avg adj p e))"
  proof (rule Cons.IH)
    show "unseated (mt_id m) (map pa_user_id ps) (pe_history (perf_player lm m sd avg adj p e))"
      using step Cons.prems(4,5) by (auto simp: unseated_def image_iff)
  qed (use step Cons.prems in auto)
  then show ?case by simp
qed simp

lemma unseated_new: "history_ok B proc rows \<Longrightarrow> iid \<notin> fst ` set proc \<Longrightarrow> unseated iid us rows"
  by (force simp: history_ok_def unseated_def seat_def)

lemma wl_ok_proc: "wl_ok proc e \<Longrightarrow> wl_ok (insert_proc i t proc) e"
  unfolding wl_ok_def by (metis history_ok_proc insert_proc_ids subset_insertI)

lemma perf_ok_proc: "perf_ok proc e \<Longrightarrow> perf_ok (insert_proc i t proc) e"
  unfolding perf_ok_def by (metis history_ok_proc insert_proc_ids subset_insertI)

lemma wl_rate_ok:
  assumes "libm_ok lm" "wl_ok proc e" "mt_id m \<notin> fst ` set proc" "distinct (map pa_user_id (mt_players m))"
  shows "wl_ok (insert_proc (mt_id m) t proc) (wl_rate lm m sd e)"
  unfolding wl_rate_def Let_def
  by (rule wl_players) (use assms wl_ok_proc unseated_new in \<open>auto simp: wl_ok_def\<close>)

lemma perf_rate_ok:
  assumes "libm_ok lm" "perf_ok proc e" "mt_id m \<notin> fst ` set proc" "distinct (map pa_user_id (mt_players m))"
    "list_all (\<lambda>p. \<bar>pa_perf p\<bar> \<le> 3) (mt_players m)"
  shows "perf_ok (insert_proc (mt_id m) t proc) (perf_rate lm m sd e)"
  unfolding perf_rate_def Let_def
  by (rule perf_players) (use assms perf_ok_proc unseated_new in \<open>auto simp: perf_ok_def\<close>)

section \<open>Folding the matches\<close>

text \<open>The matches a fold works on.\<close>

definition match_ok :: "PlayedMatch \<Rightarrow> bool" where
  "match_ok m \<longleftrightarrow> distinct (map pa_user_id (mt_players m)) \<and> list_all (\<lambda>p. \<bar>pa_perf p\<bar> \<le> 3) (mt_players m)"

definition fold_ok :: "FoldState \<Rightarrow> bool" where
  "fold_ok st \<longleftrightarrow> wl_ok (fs_wl_processed st) (fs_wl st) \<and> perf_ok (fs_perf_processed st) (fs_perf st)"

lemma fold_match_processed:
  "fst ` set (fs_wl_processed (fold_match lm gap wd pd m st)) =
     (if mt_id m \<in> wd then id else insert (mt_id m)) (fst ` set (fs_wl_processed st))"
  "fst ` set (fs_perf_processed (fold_match lm gap wd pd m st)) =
     (if mt_id m \<in> pd then id else insert (mt_id m)) (fst ` set (fs_perf_processed st))"
  by (auto simp: fold_match_def Let_def)

lemma fold_match_ok:
  assumes "libm_ok lm" "fold_ok st" "match_ok m"
    "mt_id m \<in> fst ` set (fs_wl_processed st) \<Longrightarrow> mt_id m \<in> wd"
    "mt_id m \<in> fst ` set (fs_perf_processed st) \<Longrightarrow> mt_id m \<in> pd"
  shows "fold_ok (fold_match lm gap wd pd m st)"
proof -
  let ?sd = "match_sides m (gap (mt_id m))"
  have d: "distinct (map pa_user_id (mt_players m))" "list_all (\<lambda>p. \<bar>pa_perf p\<bar> \<le> 3) (mt_players m)"
    using assms(3) by (simp_all add: match_ok_def)
  have w: "wl_ok (insert_proc (mt_id m) (mt_started_at m) (fs_wl_processed st)) (fs_wl st)"
    "mt_id m \<notin> wd \<Longrightarrow> wl_ok (insert_proc (mt_id m) (mt_started_at m) (fs_wl_processed st)) (wl_rate lm m ?sd (fs_wl st))"
    using assms(2,4) wl_ok_proc wl_rate_ok [OF assms(1) _ _ d(1)] unfolding fold_ok_def by blast+
  have p: "perf_ok (insert_proc (mt_id m) (mt_started_at m) (fs_perf_processed st)) (fs_perf st)"
    "mt_id m \<notin> pd \<Longrightarrow> perf_ok (insert_proc (mt_id m) (mt_started_at m) (fs_perf_processed st)) (perf_rate lm m ?sd (fs_perf st))"
    using assms(2,5) perf_ok_proc perf_rate_ok [OF assms(1) _ _ d] unfolding fold_ok_def by blast+
  from w p assms(2) show ?thesis
    by (auto simp: fold_match_def fold_ok_def Let_def)
qed

lemma fold_matches_ok:
  "libm_ok lm \<Longrightarrow> fold_ok st \<Longrightarrow> list_all match_ok ms \<Longrightarrow> distinct (map mt_id ms) \<Longrightarrow>
     (\<And>m. m \<in> set ms \<Longrightarrow> mt_id m \<in> fst ` set (fs_wl_processed st) \<Longrightarrow> mt_id m \<in> wd) \<Longrightarrow>
     (\<And>m. m \<in> set ms \<Longrightarrow> mt_id m \<in> fst ` set (fs_perf_processed st) \<Longrightarrow> mt_id m \<in> pd) \<Longrightarrow>
     fold_ok (fold (fold_match lm gap wd pd) ms st)"
proof (induction ms arbitrary: st)
  case (Cons m ms)
  have ne: "mt_id x \<noteq> mt_id m" if "x \<in> set ms" for x using that Cons.prems(4) by (auto simp: image_iff)
  have "fold_ok (fold (fold_match lm gap wd pd) ms (fold_match lm gap wd pd m st))"
  proof (rule Cons.IH)
    show "fold_ok (fold_match lm gap wd pd m st)"
      by (rule fold_match_ok) (use Cons.prems in auto)
    show "mt_id x \<in> wd" if "x \<in> set ms" "mt_id x \<in> fst ` set (fs_wl_processed (fold_match lm gap wd pd m st))" for x
      using that ne [OF that(1)] Cons.prems(5) [of x] unfolding fold_match_processed by (simp split: if_splits)
    show "mt_id x \<in> pd" if "x \<in> set ms" "mt_id x \<in> fst ` set (fs_perf_processed (fold_match lm gap wd pd m st))" for x
      using that ne [OF that(1)] Cons.prems(6) [of x] unfolding fold_match_processed by (simp split: if_splits)
  qed (use Cons.prems in auto)
  then show ?case by simp
qed simp

section \<open>The matches a database holds\<close>

definition played :: "MatchDb \<Rightarrow> PlayedMatch list" where
  "played db = BuildParticipants db (LoadMatches db)"

lemma mt_ids_played: "map mt_id (played db) = map mt_id (LoadMatches db)"
  by (simp add: played_def BuildParticipants_def comp_def)

lemma mt_ids_Compute: "map mt_id (ComputePerfIndices lm ms) = map mt_id ms"
  by (simp add: ComputePerfIndices_def comp_def)

lemma participant_user: "participant u ss = Some p \<Longrightarrow> pa_user_id p = u"
  by (auto simp: participant_def Let_def split: if_splits)

lemma map_filter_keys:
  "(\<And>x y. f x = Some y \<Longrightarrow> key y = x) \<Longrightarrow> subseq (map key (List.map_filter f xs)) xs"
  by (induction xs) (auto simp: map_filter_simps split: option.splits)

lemma distinct_users: "distinct (map pa_user_id (players_of db iid))"
proof -
  define mine where "mine = filter (\<lambda>(k, s). fst k = iid) (stints db)"
  have "subseq (map pa_user_id (players_of db iid)) (sort (remdups (map (snd \<circ> fst) mine)))"
    unfolding players_of_def Let_def mine_def by (rule map_filter_keys) (rule participant_user)
  moreover have "distinct (sort (remdups (map (snd \<circ> fst) mine)))" by simp
  ultimately show ?thesis using subseq_map_distinct [where f = "\<lambda>x. x"] by (metis map_ident)
qed

lemma matches_ok: "list_all match_ok (ComputePerfIndices lm (played db))"
  by (auto simp: list_all_iff match_ok_def ComputePerfIndices_def played_def BuildParticipants_def LoadMatches_def
      comp_def distinct_users perf_index_bound)

text \<open>Instance ids are a primary key.\<close>

definition ids_unique :: "MatchDb \<Rightarrow> bool" where
  "ids_unique db \<longleftrightarrow> distinct (map ir_id (rg_instances (md_registry db)))"

lemma distinct_matches: "ids_unique db \<Longrightarrow> distinct (map mt_id (LoadMatches db))"
proof -
  assume "ids_unique db"
  then have "distinct (map ir_id (filter (concluded_pvp db) (rg_instances (md_registry db))))"
    unfolding ids_unique_def by (rule subseq_map_distinct [rotated]) simp
  then have "distinct (map ir_id (stable_sort concluded_before (filter (concluded_pvp db) (rg_instances (md_registry db)))))"
    by (simp add: distinct_map)
  then show ?thesis by (simp add: LoadMatches_def comp_def)
qed

section \<open>The books of both engines\<close>

definition books_ok :: "MatchDb \<Rightarrow> bool" where
  "books_ok db \<longleftrightarrow> history_ok 32 (md_wl_processed db) (md_wl_history db)
     \<and> history_ok (492 / 5) (md_perf_processed db) (md_perf_history db)"

definition folded :: "Libm \<Rightarrow> MatchDb \<Rightarrow> FoldState" where
  "folded lm db = fold (fold_match lm (GetTeamSizeGap db) (LoadProcessed (md_wl_processed db))
     (LoadProcessed (md_perf_processed db))) (ComputePerfIndices lm (played db)) (start_fold db)"

lemma FoldLocked_folded:
  "pending_count db \<noteq> 0 \<Longrightarrow> snd (FoldLocked lm db) =
     db\<lparr>md_wl_history := we_history (fs_wl (folded lm db)), md_wl_processed := fs_wl_processed (folded lm db),
        md_perf_history := pe_history (fs_perf (folded lm db)), md_perf_processed := fs_perf_processed (folded lm db)\<rparr>"
  by (simp add: FoldLocked_def Let_def folded_def played_def)

lemma start_fold_ok: "books_ok db \<Longrightarrow> fold_ok (start_fold db)"
  by (simp add: books_ok_def fold_ok_def wl_ok_def perf_ok_def start_fold_def)

lemma folded_ok:
  assumes "libm_ok lm" "books_ok db" "ids_unique db"
  shows "fold_ok (folded lm db)"
  unfolding folded_def
proof (rule fold_matches_ok [OF assms(1) start_fold_ok [OF assms(2)] matches_ok])
  show "distinct (map mt_id (ComputePerfIndices lm (played db)))"
    by (simp add: mt_ids_Compute mt_ids_played distinct_matches assms(3))
qed (simp_all add: start_fold_def LoadProcessed_def)

lemma fold_keeps_books:
  assumes "libm_ok lm" "books_ok db" "ids_unique db"
  shows "books_ok (snd (FoldLocked lm db))"
proof (cases "pending_count db = 0")
  case True
  then show ?thesis by (simp add: FoldLocked_def assms(2))
next
  case False
  show ?thesis
    unfolding FoldLocked_folded [OF False]
    using folded_ok [OF assms] by (simp add: books_ok_def fold_ok_def wl_ok_def perf_ok_def)
qed

text \<open>
  The histories of the rating tables. Between two folds the other tables change in any way: rows
  of instances, players, statistics and events come and go; instance ids stay unique.
\<close>

inductive mmr_reach :: "Libm \<Rightarrow> MatchDb \<Rightarrow> bool" for lm where
  fresh: "md_wl_history db = [] \<Longrightarrow> md_perf_history db = [] \<Longrightarrow> ids_unique db \<Longrightarrow> mmr_reach lm db"
| other: "mmr_reach lm db \<Longrightarrow> ids_unique db' \<Longrightarrow>
    md_wl_history db' = md_wl_history db \<Longrightarrow> md_wl_processed db' = md_wl_processed db \<Longrightarrow>
    md_perf_history db' = md_perf_history db \<Longrightarrow> md_perf_processed db' = md_perf_processed db \<Longrightarrow> mmr_reach lm db'"
| conclude: "mmr_reach lm db \<Longrightarrow> mmr_reach lm (FoldUnprocessed lm db)"
| reseed: "mmr_reach lm db \<Longrightarrow> mmr_reach lm (snd (Reseed lm db))"

lemma FoldLocked_registry [simp]: "md_registry (snd (FoldLocked lm db)) = md_registry db"
  by (simp add: FoldLocked_def Let_def)

lemma mmr_reach_books: "mmr_reach lm db \<Longrightarrow> libm_ok lm \<Longrightarrow> books_ok db \<and> ids_unique db"
proof (induction rule: mmr_reach.induct)
  case (fresh db)
  then show ?case by (simp add: books_ok_def)
next
  case (other db db')
  then show ?case by (simp add: books_ok_def)
next
  case (conclude db)
  then show ?case using fold_keeps_books [of lm db] by (simp add: FoldUnprocessed_def ids_unique_def)
next
  case (reseed db)
  let ?d = "db\<lparr>md_wl_history := [], md_wl_processed := [], md_perf_history := [], md_perf_processed := []\<rparr>"
  have "books_ok ?d" "ids_unique ?d" using reseed by (simp_all add: books_ok_def ids_unique_def)
  then show ?case using fold_keeps_books [of lm ?d] reseed by (simp add: Reseed_def ids_unique_def)
qed

text \<open>The games of a player and class.\<close>

definition games_of :: "int \<Rightarrow> string \<Rightarrow> 'a WlRow_scheme list \<Rightarrow> 'a WlRow_scheme list" where
  "games_of u c rows = filter (\<lambda>r. wr_user_id r = u \<and> wr_class_name r = c) rows"

lemma chain_telescopes:
  "chained rows \<Longrightarrow> last_rating u c rows = 1000 + sum_list (map (\<lambda>r. wr_after r - wr_before r) (games_of u c rows))"
  by (induction rows rule: rev_induct) (auto simp: games_of_def)

lemma chain_bound:
  assumes "history_ok B proc rows"
  shows "\<bar>last_rating u c rows - 1000\<bar> \<le> of_nat (length (games_of u c rows)) * B"
proof -
  let ?ds = "map (\<lambda>r. wr_after r - wr_before r) (games_of u c rows)"
  have "\<bar>z\<bar> \<le> B" if "z \<in> set ?ds" for z using that assms by (auto simp: games_of_def history_ok_def)
  then have "\<bar>sum_list ?ds\<bar> \<le> of_nat (length ?ds) * B" by (rule sum_list_abs_bound)
  moreover have "chained rows" using assms by (simp add: history_ok_def)
  ultimately show ?thesis by (simp add: chain_telescopes)
qed

text \<open>
  C9. Along every history of the rating tables both engines keep chains: each row starts where the last
  row of the same player and class ended, nobody is rated twice for one match, and the current
  rating is 1000 plus the sum of the player's changes, at most 32 a game for win/loss and 98.4 a game
  for performance. The other tables may change in any way between folds.
\<close>

theorem ratings_are_chains:
  assumes "mmr_reach lm db" "libm_ok lm"
  shows "chained (md_wl_history db) \<and> chained (md_perf_history db)
    \<and> distinct (map seat (md_wl_history db)) \<and> distinct (map seat (md_perf_history db))
    \<and> last_rating u c (md_wl_history db)
        = 1000 + sum_list (map (\<lambda>r. wr_after r - wr_before r) (games_of u c (md_wl_history db)))
    \<and> \<bar>last_rating u c (md_wl_history db) - 1000\<bar> \<le> of_nat (length (games_of u c (md_wl_history db))) * 32
    \<and> \<bar>last_rating u c (md_perf_history db) - 1000\<bar> \<le> of_nat (length (games_of u c (md_perf_history db))) * (492 / 5)"
proof -
  have "books_ok db" using mmr_reach_books [OF assms] by simp
  then have w: "history_ok 32 (md_wl_processed db) (md_wl_history db)"
    and p: "history_ok (492 / 5) (md_perf_processed db) (md_perf_history db)" by (simp_all add: books_ok_def)
  then have "chained (md_wl_history db)" "chained (md_perf_history db)"
    "distinct (map seat (md_wl_history db))" "distinct (map seat (md_perf_history db))"
    by (simp_all only: history_ok_def)
  then show ?thesis
    using chain_bound [OF w, of u c] chain_bound [OF p, of u c] chain_telescopes [of "md_wl_history db" u c] by blast
qed

section \<open>A fold settles everything\<close>

lemma fold_processed:
  "fst ` set (fs_wl_processed (fold (fold_match lm gap wd pd) ms st)) = fst ` set (fs_wl_processed st) \<union> (mt_id ` set ms - wd)"
  "fst ` set (fs_perf_processed (fold (fold_match lm gap wd pd) ms st)) = fst ` set (fs_perf_processed st) \<union> (mt_id ` set ms - pd)"
  by (induction ms arbitrary: st) (auto simp: fold_match_processed)

lemma folded_processed:
  "fst ` set (fs_wl_processed (folded lm db)) = fst ` set (md_wl_processed db) \<union> mt_id ` set (played db)"
  "fst ` set (fs_perf_processed (folded lm db)) = fst ` set (md_perf_processed db) \<union> mt_id ` set (played db)"
proof -
  have "mt_id ` set (ComputePerfIndices lm (played db)) = mt_id ` set (played db)"
    using arg_cong [OF mt_ids_Compute [of lm "played db"], of set] by simp
  then show "fst ` set (fs_wl_processed (folded lm db)) = fst ` set (md_wl_processed db) \<union> mt_id ` set (played db)"
    "fst ` set (fs_perf_processed (folded lm db)) = fst ` set (md_perf_processed db) \<union> mt_id ` set (played db)"
    by (auto simp: folded_def fold_processed start_fold_def LoadProcessed_def)
qed

lemma played_ids: "mt_id ` set (played db) = ir_id ` {r \<in> set (rg_instances (md_registry db)). concluded_pvp db r}"
proof -
  have "mt_id ` set (played db) = set (map mt_id (LoadMatches db))" using mt_ids_played [of db] by (metis set_map)
  then show ?thesis by (simp add: LoadMatches_def image_image)
qed

lemma pending_zero:
  "pending_count db = 0 \<longleftrightarrow> mt_id ` set (played db) \<subseteq> fst ` set (md_wl_processed db) \<inter> fst ` set (md_perf_processed db)"
  unfolding pending_count_def length_0_conv filter_empty_conv played_ids by blast

lemma concluded_pvp_fold [simp]: "concluded_pvp (snd (FoldLocked lm db)) r = concluded_pvp db r"
  by (simp add: concluded_pvp_def FoldLocked_def Let_def)

lemma pending_after_fold: "pending_count (snd (FoldLocked lm db)) = 0"
proof (cases "pending_count db = 0")
  case False
  have "mt_id ` set (played (snd (FoldLocked lm db))) = mt_id ` set (played db)"
    by (simp add: played_ids)
  then show ?thesis
    unfolding pending_zero by (simp add: FoldLocked_folded [OF False] folded_processed)
qed (simp add: FoldLocked_def)

text \<open>
  After one fold every concluded PvP match carries the watermark of both engines, and a second fold
  is the fast path: it reports that all is up to date and leaves the database as it is.
\<close>

theorem fold_settles:
  "FoldLocked lm (snd (FoldLocked lm db)) = (UpToDate, snd (FoldLocked lm db))
   \<and> FoldUnprocessed lm (FoldUnprocessed lm db) = FoldUnprocessed lm db
   \<and> mt_id ` set (LoadMatches db) \<subseteq> fst ` set (md_wl_processed (FoldUnprocessed lm db))
       \<inter> fst ` set (md_perf_processed (FoldUnprocessed lm db))"
proof -
  have settled: "FoldLocked lm (snd (FoldLocked lm db)) = (UpToDate, snd (FoldLocked lm db))"
    using pending_after_fold [of lm db] by (simp add: FoldLocked_def)
  moreover have "mt_id ` set (LoadMatches db) = mt_id ` set (played (snd (FoldLocked lm db)))"
    unfolding played_ids concluded_pvp_fold FoldLocked_registry by (simp add: LoadMatches_def image_image)
  ultimately show ?thesis
    using pending_after_fold [of lm db] unfolding pending_zero FoldUnprocessed_def by simp
qed

section \<open>The win/loss chain as a function of the matches\<close>

definition two_sided :: "PlayedMatch \<Rightarrow> bool" where
  "two_sided m \<longleftrightarrow> mt_players m \<noteq> [] \<and> length (task_forces m) = 2"

definition wl_rows :: "Libm \<Rightarrow> (int \<Rightarrow> int \<times> rat) \<Rightarrow> PlayedMatch \<Rightarrow> WlRow list \<Rightarrow> WlRow list" where
  "wl_rows lm gap m h = we_history (wl_rate lm m (match_sides m (gap (mt_id m)))
     \<lparr>we_rating = LoadWlState h, we_history = h, we_rows = 0\<rparr>)"

definition wl_next ::
  "Libm \<Rightarrow> (int \<Rightarrow> int \<times> rat) \<Rightarrow> PlayedMatch \<Rightarrow> WlRow list \<times> (int \<times> int) list \<Rightarrow> WlRow list \<times> (int \<times> int) list" where
  "wl_next lm gap m = (\<lambda>(h, pr). (if two_sided m then wl_rows lm gap m h else h, insert_proc (mt_id m) (mt_started_at m) pr))"

lemma fold_wl_player_rows:
  "\<exists>n'. fold (wl_player lm m sd adj) ps (e\<lparr>we_rows := n\<rparr>) = (fold (wl_player lm m sd adj) ps e)\<lparr>we_rows := n'\<rparr>"
proof (induction ps arbitrary: e n)
  case (Cons p ps)
  have "wl_player lm m sd adj p (e\<lparr>we_rows := n\<rparr>) = (wl_player lm m sd adj p e)\<lparr>we_rows := n + 1\<rparr>"
    by (simp add: wl_player_def Let_def)
  with Cons.IH show ?case by simp
next
  case Nil
  then show ?case by simp (metis WlEngine.unfold_congs(3))
qed

lemma wl_rate_rows:
  assumes "we_rating e = LoadWlState (we_history e)"
  shows "we_history (wl_rate lm m (match_sides m (gap (mt_id m))) e) = wl_rows lm gap m (we_history e)"
proof -
  have e: "\<lparr>we_rating = LoadWlState (we_history e), we_history = we_history e, we_rows = 0\<rparr> = e\<lparr>we_rows := 0\<rparr>"
    using assms by simp
  let ?sd = "match_sides m (gap (mt_id m))"
  obtain n where "fold (wl_player lm m ?sd (adjusted ?sd (team_avg m (we_rating e)))) (mt_players m) (e\<lparr>we_rows := 0\<rparr>)
      = (fold (wl_player lm m ?sd (adjusted ?sd (team_avg m (we_rating e)))) (mt_players m) e)\<lparr>we_rows := n\<rparr>"
    using fold_wl_player_rows [of lm m ?sd "adjusted ?sd (team_avg m (we_rating e))" "mt_players m" 0 e] by blast
  then show ?thesis unfolding wl_rows_def e wl_rate_def Let_def by simp
qed

definition wl_view :: "FoldState \<Rightarrow> WlRow list \<times> (int \<times> int) list" where
  "wl_view st = (we_history (fs_wl st), fs_wl_processed st)"

lemma fold_match_wl:
  assumes "we_rating (fs_wl st) = LoadWlState (we_history (fs_wl st))"
  shows "wl_view (fold_match lm gap wd pd m st) = (if mt_id m \<in> wd then wl_view st else wl_next lm gap m (wl_view st))"
proof -
  have "we_history (wl_rate lm m (match_sides m (gap (mt_id m))) (fs_wl st)) = wl_rows lm gap m (we_history (fs_wl st))"
    using assms by (rule wl_rate_rows)
  then show ?thesis by (auto simp: fold_match_def wl_view_def wl_next_def two_sided_def Let_def)
qed

lemma fold_matches_wl:
  "libm_ok lm \<Longrightarrow> fold_ok st \<Longrightarrow> list_all match_ok ms \<Longrightarrow> distinct (map mt_id ms) \<Longrightarrow>
     (\<And>m. m \<in> set ms \<Longrightarrow> mt_id m \<in> fst ` set (fs_wl_processed st) \<Longrightarrow> mt_id m \<in> wd) \<Longrightarrow>
     (\<And>m. m \<in> set ms \<Longrightarrow> mt_id m \<in> fst ` set (fs_perf_processed st) \<Longrightarrow> mt_id m \<in> pd) \<Longrightarrow>
     wl_view (fold (fold_match lm gap wd pd) ms st) = fold (wl_next lm gap) (filter (\<lambda>m. mt_id m \<notin> wd) ms) (wl_view st)"
proof (induction ms rule: rev_induct)
  case (snoc m ms)
  have ok: "fold_ok (fold (fold_match lm gap wd pd) ms st)"
    by (rule fold_matches_ok) (use snoc.prems in auto)
  have "wl_view (fold (fold_match lm gap wd pd) ms st) = fold (wl_next lm gap) (filter (\<lambda>m. mt_id m \<notin> wd) ms) (wl_view st)"
    by (rule snoc.IH) (use snoc.prems in auto)
  moreover have "we_rating (fs_wl (fold (fold_match lm gap wd pd) ms st))
      = LoadWlState (we_history (fs_wl (fold (fold_match lm gap wd pd) ms st)))"
    using ok by (simp add: fold_ok_def wl_ok_def)
  ultimately show ?case by (simp add: fold_match_wl)
qed simp

text \<open>The win/loss engine does not look at the performance index.\<close>

definition same_but_perf :: "PlayedMatch \<Rightarrow> PlayedMatch \<Rightarrow> bool" where
  "same_but_perf m m' \<longleftrightarrow> (\<exists>f. m' = m\<lparr>mt_players := map (\<lambda>p. p\<lparr>pa_perf := f p\<rparr>) (mt_players m)\<rparr>)"

lemma wl_next_perf:
  assumes "same_but_perf m m'"
  shows "wl_next lm gap m' = wl_next lm gap m"
proof -
  obtain f where m': "m' = m\<lparr>mt_players := map (\<lambda>p. p\<lparr>pa_perf := f p\<rparr>) (mt_players m)\<rparr>"
    using assms by (auto simp: same_but_perf_def)
  have t: "task_forces m' = task_forces m" by (simp add: m' task_forces_def comp_def)
  then have s: "match_sides m' = match_sides m" by (intro ext) (simp add: match_sides_def)
  have a: "team_avg m' = team_avg m" by (intro ext) (simp add: m' team_avg_def filter_map comp_def Let_def)
  have p: "wl_player lm m' sd adj (x\<lparr>pa_perf := f x\<rparr>) = wl_player lm m sd adj x" for sd adj x
    by (intro ext) (simp add: m' wl_player_def opponent_def actual_score_def Let_def)
  have "wl_rate lm m' sd e = wl_rate lm m sd e" for sd e
    unfolding wl_rate_def a Let_def by (simp add: m' fold_map comp_def p [unfolded m'])
  moreover have i: "mt_id m' = mt_id m" "mt_started_at m' = mt_started_at m" "mt_players m' = [] \<longleftrightarrow> mt_players m = []"
    by (simp_all add: m')
  ultimately have "wl_rows lm gap m' h = wl_rows lm gap m h" for h by (simp add: wl_rows_def s)
  then show ?thesis using i by (simp add: wl_next_def two_sided_def t fun_eq_iff)
qed

lemma fold_wl_next_perf:
  "list_all2 same_but_perf ms ms' \<Longrightarrow> fold (wl_next lm gap) (filter (\<lambda>m. mt_id m \<notin> wd) ms') = fold (wl_next lm gap) (filter (\<lambda>m. mt_id m \<notin> wd) ms)"
proof (induction ms ms' rule: list_all2_induct)
  case (Cons m ms m' ms')
  from Cons(1) have "mt_id m' = mt_id m" by (auto simp: same_but_perf_def)
  with Cons(3) wl_next_perf [OF Cons(1), of lm gap] show ?case by simp
qed simp

lemma Compute_same_but_perf: "list_all2 same_but_perf ms (ComputePerfIndices lm ms)"
  by (auto simp: ComputePerfIndices_def list_all2_map2 same_but_perf_def intro!: list_all2_refl)

text \<open>What a fold makes of the win/loss tables, whether it had anything to do or not.\<close>

lemma FoldLocked_wl:
  assumes "libm_ok lm" "books_ok db" "ids_unique db"
  shows "(md_wl_history (snd (FoldLocked lm db)), md_wl_processed (snd (FoldLocked lm db)))
    = fold (wl_next lm (GetTeamSizeGap db)) (filter (\<lambda>m. mt_id m \<notin> fst ` set (md_wl_processed db)) (played db))
        (md_wl_history db, md_wl_processed db)"
proof (cases "pending_count db = 0")
  case True
  then have "filter (\<lambda>m. mt_id m \<notin> fst ` set (md_wl_processed db)) (played db) = []"
    unfolding pending_zero by (auto simp: filter_empty_conv)
  then show ?thesis using True by (simp add: FoldLocked_def)
next
  case False
  have "wl_view (folded lm db) = fold (wl_next lm (GetTeamSizeGap db))
      (filter (\<lambda>m. mt_id m \<notin> LoadProcessed (md_wl_processed db)) (ComputePerfIndices lm (played db))) (wl_view (start_fold db))"
    unfolding folded_def
  proof (rule fold_matches_wl [OF assms(1) start_fold_ok [OF assms(2)] matches_ok])
    show "distinct (map mt_id (ComputePerfIndices lm (played db)))"
      by (simp add: mt_ids_Compute mt_ids_played distinct_matches assms(3))
  qed (simp_all add: start_fold_def LoadProcessed_def)
  then show ?thesis
    by (simp add: FoldLocked_folded [OF False] fold_wl_next_perf [OF Compute_same_but_perf] wl_view_def start_fold_def LoadProcessed_def)
qed

section \<open>A reseed reproduces the live chain\<close>

text \<open>
  The live server: matches conclude one after the other, so a database that changed between two
  folds holds the matches already folded, in the order they had and with the players and the gap
  they had, and after them new ones.
\<close>

definition later :: "MatchDb \<Rightarrow> MatchDb \<Rightarrow> bool" where
  "later db db' \<longleftrightarrow> ids_unique db'
     \<and> md_wl_history db' = md_wl_history db \<and> md_wl_processed db' = md_wl_processed db
     \<and> md_perf_history db' = md_perf_history db \<and> md_perf_processed db' = md_perf_processed db
     \<and> prefix (filter (\<lambda>m. mt_id m \<in> fst ` set (md_wl_processed db)) (played db)) (played db')
     \<and> list_all (\<lambda>m. mt_id m \<in> fst ` set (md_wl_processed db) \<longrightarrow> GetTeamSizeGap db' (mt_id m) = GetTeamSizeGap db (mt_id m)) (played db)"

inductive live :: "Libm \<Rightarrow> MatchDb \<Rightarrow> bool" for lm where
  empty: "ids_unique db \<Longrightarrow> md_wl_history db = [] \<Longrightarrow> md_wl_processed db = [] \<Longrightarrow>
    md_perf_history db = [] \<Longrightarrow> md_perf_processed db = [] \<Longrightarrow> live lm db"
| played_on: "live lm db \<Longrightarrow> later db db' \<Longrightarrow> live lm db'"
| folded: "live lm db \<Longrightarrow> live lm (FoldUnprocessed lm db)"

text \<open>The tables are the chain of the first \<open>n\<close> matches, and those are the processed ones.\<close>

definition live_ok :: "Libm \<Rightarrow> MatchDb \<Rightarrow> bool" where
  "live_ok lm db \<longleftrightarrow> books_ok db \<and> ids_unique db \<and>
     (\<exists>old new. played db = old @ new \<and> fst ` set (md_wl_processed db) = mt_id ` set old
        \<and> (md_wl_history db, md_wl_processed db) = fold (wl_next lm (GetTeamSizeGap db)) old ([], []))"

lemma distinct_played: "ids_unique db \<Longrightarrow> distinct (map mt_id (played db))"
  by (simp add: mt_ids_played distinct_matches)

lemma filter_old:
  assumes "ids_unique db" "played db = old @ new" "fst ` set pr = mt_id ` set old"
  shows "filter (\<lambda>m. mt_id m \<in> fst ` set pr) (played db) = old" "filter (\<lambda>m. mt_id m \<notin> fst ` set pr) (played db) = new"
proof -
  have "mt_id ` set old \<inter> mt_id ` set new = {}"
    using distinct_played [OF assms(1)] assms(2) by auto
  then show "filter (\<lambda>m. mt_id m \<in> fst ` set pr) (played db) = old" "filter (\<lambda>m. mt_id m \<notin> fst ` set pr) (played db) = new"
    unfolding assms(2,3) by (auto simp: filter_empty_conv filter_id_conv)
qed

lemma wl_next_gap: "gap (mt_id m) = gap' (mt_id m) \<Longrightarrow> wl_next lm gap m = wl_next lm gap' m"
  by (simp add: wl_next_def wl_rows_def fun_eq_iff)

lemma gap_after_fold [simp]: "GetTeamSizeGap (snd (FoldLocked lm db)) = GetTeamSizeGap db"
  by (simp add: fun_eq_iff GetTeamSizeGap_def gap_events_def FoldLocked_def Let_def)

lemma played_congs:
  assumes "md_registry db' = md_registry db" "md_winning_tf db' = md_winning_tf db" "md_pvp_maps db' = md_pvp_maps db"
    "md_stats db' = md_stats db"
  shows "played db' = played db"
proof -
  have c: "concluded_pvp db' = concluded_pvp db" using assms by (simp add: fun_eq_iff concluded_pvp_def)
  have r: "roster_profile db' = roster_profile db" using assms by (simp add: fun_eq_iff roster_profile_def)
  have "stint_of db' = stint_of db" using assms c r by (simp add: fun_eq_iff stint_of_def)
  then have "stints db' = stints db" using assms by (simp add: stints_def)
  then have "players_of db' = players_of db" by (simp add: fun_eq_iff players_of_def)
  then show ?thesis using assms c by (simp add: played_def BuildParticipants_def LoadMatches_def)
qed

lemma played_after_fold [simp]: "played (snd (FoldLocked lm db)) = played db"
  by (rule played_congs) (simp_all add: FoldLocked_def Let_def)

lemma wl_processed_after_fold:
  "fst ` set (md_wl_processed (snd (FoldLocked lm db))) = fst ` set (md_wl_processed db) \<union> mt_id ` set (played db)"
proof (cases "pending_count db = 0")
  case True
  then show ?thesis using pending_zero [of db] by (auto simp: FoldLocked_def)
qed (simp add: FoldLocked_folded folded_processed)

lemma live_invariant: "live lm db \<Longrightarrow> libm_ok lm \<Longrightarrow> live_ok lm db"
proof (induction rule: live.induct)
  case (empty db)
  then show ?case by (auto simp: live_ok_def books_ok_def intro: exI [of _ "[]"])
next
  case (played_on db db')
  then obtain old new where o: "played db = old @ new" "fst ` set (md_wl_processed db) = mt_id ` set old"
    "(md_wl_history db, md_wl_processed db) = fold (wl_next lm (GetTeamSizeGap db)) old ([], [])"
    and b: "books_ok db" "ids_unique db" by (auto simp: live_ok_def)
  from played_on.hyps(2) have l: "ids_unique db'" "md_wl_history db' = md_wl_history db" "md_wl_processed db' = md_wl_processed db"
    "md_perf_history db' = md_perf_history db" "md_perf_processed db' = md_perf_processed db"
    "prefix old (played db')" "\<forall>m\<in>set old. GetTeamSizeGap db' (mt_id m) = GetTeamSizeGap db (mt_id m)"
    using filter_old(1) [OF b(2) o(1,2)] o(1,2) by (auto simp: later_def list_all_iff)
  obtain new' where n: "played db' = old @ new'" using l(6) by (auto elim: prefixE)
  have "fold (wl_next lm (GetTeamSizeGap db')) old ([], []) = fold (wl_next lm (GetTeamSizeGap db)) old ([], [])"
    by (rule fold_cong) (simp_all add: wl_next_gap [where gap = "GetTeamSizeGap db'" and gap' = "GetTeamSizeGap db"] l(7))
  then have "played db' = old @ new' \<and> fst ` set (md_wl_processed db') = mt_id ` set old
      \<and> (md_wl_history db', md_wl_processed db') = fold (wl_next lm (GetTeamSizeGap db')) old ([], [])"
    using n o(2,3) l(2,3) by simp
  moreover have "books_ok db'" using b(1) l(2-5) by (simp add: books_ok_def)
  ultimately show ?case unfolding live_ok_def using l(1) by blast
next
  case (folded db)
  then obtain old new where o: "played db = old @ new" "fst ` set (md_wl_processed db) = mt_id ` set old"
    "(md_wl_history db, md_wl_processed db) = fold (wl_next lm (GetTeamSizeGap db)) old ([], [])"
    and b: "books_ok db" "ids_unique db" by (auto simp: live_ok_def)
  let ?f = "snd (FoldLocked lm db)"
  have "(md_wl_history ?f, md_wl_processed ?f) = fold (wl_next lm (GetTeamSizeGap db)) (old @ new) ([], [])"
    using FoldLocked_wl [OF folded.prems b] o(3) unfolding filter_old(2) [OF b(2) o(1,2)] by simp
  moreover have "fst ` set (md_wl_processed ?f) = mt_id ` set (old @ new)"
    using wl_processed_after_fold [of lm db] o(1,2) by auto
  moreover have "books_ok ?f" by (rule fold_keeps_books [OF folded.prems b])
  moreover have "played ?f = (old @ new) @ []" "ids_unique ?f"
    using o(1) b(2) by (simp_all add: ids_unique_def)
  ultimately show ?case unfolding live_ok_def FoldUnprocessed_def gap_after_fold by blast
qed

text \<open>
  C22. On a database that grew as on the live server, where matches conclude one after the other and what
  was folded does not change, a reseed of the win/loss engine rebuilds exactly the history and the
  watermarks that the live folds left.
\<close>

theorem reseed_replays_live:
  assumes "live lm db" "libm_ok lm"
  shows "md_wl_history (snd (Reseed lm db)) = md_wl_history (FoldUnprocessed lm db)
    \<and> md_wl_processed (snd (Reseed lm db)) = md_wl_processed (FoldUnprocessed lm db)"
proof -
  from live_invariant [OF assms] obtain old new where o: "played db = old @ new"
    "fst ` set (md_wl_processed db) = mt_id ` set old"
    "(md_wl_history db, md_wl_processed db) = fold (wl_next lm (GetTeamSizeGap db)) old ([], [])"
    and b: "books_ok db" "ids_unique db" by (auto simp: live_ok_def)
  let ?d = "db\<lparr>md_wl_history := [], md_wl_processed := [], md_perf_history := [], md_perf_processed := []\<rparr>"
  have p: "played ?d = played db" by (rule played_congs) simp_all
  have g: "GetTeamSizeGap ?d = GetTeamSizeGap db" by (simp add: fun_eq_iff GetTeamSizeGap_def gap_events_def)
  have "books_ok ?d" "ids_unique ?d" using b by (simp_all add: books_ok_def ids_unique_def)
  from FoldLocked_wl [OF assms(2) this]
  have "(md_wl_history (snd (Reseed lm db)), md_wl_processed (snd (Reseed lm db)))
      = fold (wl_next lm (GetTeamSizeGap db)) (played db) ([], [])"
    by (simp add: Reseed_def p g)
  moreover have "(md_wl_history (FoldUnprocessed lm db), md_wl_processed (FoldUnprocessed lm db))
      = fold (wl_next lm (GetTeamSizeGap db)) (played db) ([], [])"
    using FoldLocked_wl [OF assms(2) b] o(1,3) unfolding filter_old(2) [OF b(2) o(1,2)] by (simp add: FoldUnprocessed_def)
  ultimately show ?thesis by (metis prod.inject)
qed

section \<open>A match between two players\<close>

definition ex_libm :: Libm where
  "ex_libm = \<lparr>lm_pow10 = (\<lambda>x. if 0 \<le> x then 1 + x else 1 / (1 - x)), lm_sqrt = (\<lambda>x. x)\<rparr>"

definition ex_stats :: "int \<Rightarrow> int \<Rightarrow> int \<Rightarrow> int list \<Rightarrow> MatchPlayerStatsRow" where
  "ex_stats u c tf scores = \<lparr>ms_instance_id = 7, ms_user_id = u, ms_character_id = c, ms_task_force = tf,
     ms_scores = scores, ms_capture_seconds = 0, ms_contest_seconds = 0, ms_objective_captures = 0,
     ms_beacon_spawns_provided = 0, ms_beacon_spawns_used = 0, ms_beacons_destroyed = 0,
     ms_time_played_seconds = 600\<rparr>"

definition ex_seat :: "int \<Rightarrow> int \<Rightarrow> int \<Rightarrow> int \<Rightarrow> InstancePlayerRow" where
  "ex_seat i c tf profile = \<lparr>ip_id = i, ip_instance_id = 7, ip_session_guid = ''s'', ip_character_id = c,
     ip_task_force = tf, ip_profile_id = Some profile, ip_joined_at = 110, ip_left_at = Some 900\<rparr>"

definition ex_match_db :: MatchDb where
  "ex_match_db = \<lparr>md_registry =
     \<lparr>rg_instances = [\<lparr>ir_id = 7, ir_map_name = ''Dome3_Arena_P'', ir_game_mode = ''PvP'', ir_state = STOPPED,
        ir_pid = 0, ir_udp_port = 9002, ir_player_count = 0, ir_started_at = 100, ir_sealed_at = None,
        ir_instance_id = 7, ir_is_home_map = False, ir_max_players = 20, ir_queue_id = Some 1,
        ir_predecessor = None, ir_end_mission_at = Some 900, ir_access_mode = ''public'',
        ir_owner_party_ids = '''', ir_last_empty_at = None, ir_outcome = Some ''ATTACKERS_WIN'',
        ir_victory_bonus_lives = 0\<rparr>],
      rg_players = [ex_seat 1 11 1 680, ex_seat 2 12 2 567], rg_next_instance = 8, rg_next_player = 3\<rparr>,
     md_winning_tf = [(7, 1)], md_pvp_maps = [''Dome3_Arena_P''], md_events = [],
     md_stats = [ex_stats 5 11 1 [0, 9, 2, 0, 4000, 0, 0, 0, 3, 1, 0], ex_stats 6 12 2 [0, 3, 8, 0, 900, 0, 6000, 0, 9, 0, 0]],
     md_wl_history = [], md_wl_processed = [], md_perf_history = [], md_perf_processed = [], md_settings = []\<rparr>"

lemma ex_libm_ok: "libm_ok ex_libm"
  by (simp add: libm_ok_def ex_libm_def)

lemma ex_rated:
  "map (\<lambda>r. (wr_user_id r, wr_class_name r, wr_after r)) (md_wl_history (FoldUnprocessed ex_libm ex_match_db))
    = [(5, ''Assault'', 1016), (6, ''Medic'', 984)]"
  by code_simp

lemma ex_ids: "ids_unique ex_match_db"
  by (simp add: ids_unique_def ex_match_db_def)

lemma ex_reach: "mmr_reach ex_libm (FoldUnprocessed ex_libm ex_match_db)"
  by (rule mmr_reach.conclude, rule mmr_reach.fresh) (simp_all add: ex_ids, simp_all add: ex_match_db_def)

lemma ex_live: "live ex_libm (FoldUnprocessed ex_libm ex_match_db)"
  by (rule live.folded, rule live.empty) (simp_all add: ex_ids, simp_all add: ex_match_db_def)

theorem ratings_are_chains_witness:
  "\<bar>last_rating 5 ''Assault'' (md_wl_history (FoldUnprocessed ex_libm ex_match_db)) - 1000\<bar> \<le> 32
   \<and> map (\<lambda>r. (wr_user_id r, wr_class_name r, wr_after r)) (md_wl_history (FoldUnprocessed ex_libm ex_match_db))
     = [(5, ''Assault'', 1016), (6, ''Medic'', 984)]"
proof -
  have one: "length (games_of 5 ''Assault'' (md_wl_history (FoldUnprocessed ex_libm ex_match_db))) = 1" by code_simp
  from ratings_are_chains [OF ex_reach ex_libm_ok, of 5 "''Assault''"]
  have "\<bar>last_rating 5 ''Assault'' (md_wl_history (FoldUnprocessed ex_libm ex_match_db)) - 1000\<bar>
      \<le> of_nat (length (games_of 5 ''Assault'' (md_wl_history (FoldUnprocessed ex_libm ex_match_db)))) * 32"
    by blast
  then show ?thesis unfolding one using ex_rated by simp
qed

theorem reseed_replays_live_witness:
  "md_wl_history (snd (Reseed ex_libm (FoldUnprocessed ex_libm ex_match_db)))
     = md_wl_history (FoldUnprocessed ex_libm (FoldUnprocessed ex_libm ex_match_db))
   \<and> length (md_wl_history (FoldUnprocessed ex_libm ex_match_db)) = 2"
  using reseed_replays_live [OF ex_live ex_libm_ok] arg_cong [OF ex_rated, of length] by simp

end
