(* ===== verification/ChatCommand.thy ===== *)
theory ChatCommand
  imports TeamService
begin

text \<open>
  The commands in chat lines: \<open>ChatSession/ChatCommand.cpp\<close>, from the text of a message to the
  parsed result. A character is a byte, \<open>isspace\<close> and \<open>tolower\<close> are those of the C locale. The
  switch \<open>kComponentsDebugEnabled\<close> is off in the code; the blocks under \<open>#if 0\<close> are not part of the
  program. \<open>std::stof\<close> is modelled without the rounding of its result.
\<close>

section \<open>Text\<close>

definition TrimAscii :: "string \<Rightarrow> string" where
  "TrimAscii s = trim s"

definition LowerAscii :: "string \<Rightarrow> string" where
  "LowerAscii s = map ascii_lower s"

text \<open>\<open>SplitWs\<close> skips a run of blanks, takes a run of others and starts again.\<close>

function SplitWs :: "string \<Rightarrow> string list" where
  "SplitWs s =
     (let t = dropWhile isspace s
      in if t = [] then [] else takeWhile (\<lambda>c. \<not> isspace c) t # SplitWs (dropWhile (\<lambda>c. \<not> isspace c) t))"
  by pat_completeness auto

termination
proof (relation "measure length", goal_cases)
  case (2 s t)
  then have "dropWhile isspace s \<noteq> []" "\<not> isspace (hd (dropWhile isspace s))"
    by (simp_all add: hd_dropWhile)
  then have "length (dropWhile (\<lambda>c. \<not> isspace c) (dropWhile isspace s)) < length (dropWhile isspace s)"
    by (cases "dropWhile isspace s") (simp_all add: length_dropWhile_le less_Suc_eq_le)
  also have "\<dots> \<le> length s" by (rule length_dropWhile_le)
  finally show ?case using 2 by simp
qed simp

declare SplitWs.simps [simp del]

abbreviation "INT_MAX \<equiv> (2147483647 :: int)"

text \<open>\<open>ParseInt\<close>: the check before each step keeps the accumulator an \<open>int\<close>.\<close>

fun parse_digits :: "int \<Rightarrow> string \<Rightarrow> int option" where
  "parse_digits v [] = Some v"
| "parse_digits v (c # s) =
     (if \<not> is_digit c then None
      else (let d = int (of_char c) - 48
            in if v > (INT_MAX - d) div 10 then None else parse_digits (v * 10 + d) s))"

definition ParseInt :: "string \<Rightarrow> int option" where
  "ParseInt s = (if s = [] then None else parse_digits 0 s)"

section \<open>\<open>std::stof\<close>\<close>

datatype single = Finite rat | Infinite bool | NaN

definition is_xdigit :: "char \<Rightarrow> bool" where
  "is_xdigit c \<longleftrightarrow> is_digit c \<or> ascii_lower c \<in> set ''abcdef''"

definition xdigit_value :: "char \<Rightarrow> int" where
  "xdigit_value c = (if is_digit c then int (of_char c) - 48 else int (of_char (ascii_lower c)) - 87)"

definition numeral_value :: "int \<Rightarrow> string \<Rightarrow> int" where
  "numeral_value base s = fold (\<lambda>c v. v * base + xdigit_value c) s 0"

text \<open>A sign, then digits; without digits there is no exponent.\<close>

definition exponent :: "string \<Rightarrow> int" where
  "exponent s =
     (let neg = (s \<noteq> [] \<and> hd s = CHR ''-'');
          u = (if s \<noteq> [] \<and> (hd s = CHR ''-'' \<or> hd s = CHR ''+'') then tl s else s);
          v = numeral_value 10 (takeWhile is_digit u)
      in if neg then - v else v)"

definition rat_power :: "rat \<Rightarrow> int \<Rightarrow> rat" where
  "rat_power b e = (if 0 \<le> e then b ^ nat e else 1 / b ^ nat (- e))"

text \<open>The longest numeral: digits, a point, digits, and an exponent behind \<open>mark\<close>.\<close>

definition positional :: "(char \<Rightarrow> bool) \<Rightarrow> int \<Rightarrow> char \<Rightarrow> int \<Rightarrow> string \<Rightarrow> rat option" where
  "positional digit base mark exp_base u =
     (let whole = takeWhile digit u;
          u1 = dropWhile digit u;
          point = (u1 \<noteq> [] \<and> hd u1 = CHR ''.'');
          frac = (if point then takeWhile digit (tl u1) else []);
          u2 = (if point then dropWhile digit (tl u1) else u1);
          e = (if u2 \<noteq> [] \<and> ascii_lower (hd u2) = mark then exponent (tl u2) else 0)
      in if whole = [] \<and> frac = [] then None
         else Some (of_int (numeral_value base (whole @ frac)) / of_int base ^ length frac
                      * rat_power (of_int exp_base) e))"

definition strtof :: "string \<Rightarrow> single option" where
  "strtof s =
     (let t = dropWhile isspace s;
          neg = (t \<noteq> [] \<and> hd t = CHR ''-'');
          u = (if t \<noteq> [] \<and> (hd t = CHR ''-'' \<or> hd t = CHR ''+'') then tl t else t);
          low = LowerAscii u;
          hex = positional is_xdigit 16 (CHR ''p'') 2 (drop 2 u);
          dec = positional is_digit 10 (CHR ''e'') 10 u;
          v = (if take 2 low = ''0x'' \<and> hex \<noteq> None then hex else dec)
      in if take 3 low = ''inf'' then Some (Infinite neg)
         else if take 3 low = ''nan'' then Some NaN
         else map_option (\<lambda>x. Finite (if neg then - x else x)) v)"

text \<open>
  \<open>std::stof\<close> throws when there is no number and when the number is outside the normal range of
  a float. Every caller catches both alike.
\<close>

definition FLT_MIN :: rat where "FLT_MIN = 1 / 2 ^ 126"
definition FLT_MAX :: rat where "FLT_MAX = (2 ^ 24 - 1) * 2 ^ 104"

definition stof :: "string \<Rightarrow> single option" where
  "stof s =
     (case strtof (c_str s) of
        Some (Finite x) \<Rightarrow> (if \<bar>x\<bar> > FLT_MAX \<or> (x \<noteq> 0 \<and> \<bar>x\<bar> < FLT_MIN) then None else Some (Finite x))
      | r \<Rightarrow> r)"

definition single_le :: "single \<Rightarrow> rat \<Rightarrow> bool" where
  "single_le f b = (case f of Finite x \<Rightarrow> x \<le> b | Infinite neg \<Rightarrow> neg | NaN \<Rightarrow> False)"

definition single_gt :: "single \<Rightarrow> rat \<Rightarrow> bool" where
  "single_gt f b = (case f of Finite x \<Rightarrow> x > b | Infinite neg \<Rightarrow> \<not> neg | NaN \<Rightarrow> False)"

section \<open>The parsed command\<close>

datatype ChangeTeamTarget = Toggle | Attackers | Defenders

datatype SpawnTargetTeam = Friend | Enemy

record SpawnTargetArgs =
  sa_bot_id :: int
  sa_team :: SpawnTargetTeam
  sa_difficulty_id :: int
  sa_henchman :: bool

record DeployTargetArgs =
  da_deployable_id :: int
  da_team :: SpawnTargetTeam

datatype SpectateTeam = NoTeam | SpectateAttackers | SpectateDefenders

record SpectateArgs =
  sp_instance_id :: int
  sp_team :: SpectateTeam

record ToggleBrokenSuitsArgs =
  tb_mode :: int
  tb_all :: bool

record SetDlcArgs =
  sd_identifier :: string
  sd_installed :: bool

record MarkersArgs =
  mk_mode :: string
  mk_min_distance_uu :: single

record FxBrowseArgs =
  fx_action :: string
  fx_index :: int

record SetSpawnTableArgs =
  st_map_object_id :: int
  st_spawn_table_id :: int

text \<open>
  The members \<open>cheat\<close>, \<open>override_diff\<close> and \<open>components\<close> are left out: only code that is compiled out
  or switched off sets them.
\<close>

record ParseResult =
  pr_recognized :: bool
  pr_suppress_broadcast :: bool
  pr_change_team :: "ChangeTeamTarget option"
  pr_spawn_target :: "SpawnTargetArgs option"
  pr_deploy_target :: "DeployTargetArgs option"
  pr_topdown :: "single option"
  pr_spectate :: "SpectateArgs option"
  pr_toggle_broken_suits :: "ToggleBrokenSuitsArgs option"
  pr_toggle_solo_mode :: "int option"
  pr_set_dlc :: "SetDlcArgs option"
  pr_markers :: "MarkersArgs option"
  pr_fx_browse :: "FxBrowseArgs option"
  pr_set_spawn_table :: "SetSpawnTableArgs option"
  pr_possess :: bool
  pr_unpossess :: bool
  pr_unspectate :: bool
  pr_coords :: bool
  pr_fullheal :: bool
  pr_class_counts :: bool
  pr_reload_queues :: bool
  pr_announce :: "string option"

definition no_command :: ParseResult where
  "no_command = \<lparr>pr_recognized = False, pr_suppress_broadcast = False, pr_change_team = None,
     pr_spawn_target = None, pr_deploy_target = None, pr_topdown = None, pr_spectate = None,
     pr_toggle_broken_suits = None, pr_toggle_solo_mode = None, pr_set_dlc = None, pr_markers = None,
     pr_fx_browse = None, pr_set_spawn_table = None, pr_possess = False, pr_unpossess = False,
     pr_unspectate = False, pr_coords = False, pr_fullheal = False, pr_class_counts = False,
     pr_reload_queues = False, pr_announce = None\<rparr>"

definition owned :: ParseResult where
  \<comment> \<open>\<open>recognized\<close> and \<open>suppress_broadcast\<close> set, nothing else\<close>
  "owned = no_command\<lparr>pr_recognized := True, pr_suppress_broadcast := True\<rparr>"

section \<open>The commands\<close>

text \<open>One definition per branch of \<open>TryParseChatCommand\<close>. An argument that does not parse gives \<open>owned\<close>.\<close>

definition positive_int :: "string \<Rightarrow> int option" where
  "positive_int s = (case ParseInt s of Some v \<Rightarrow> if v \<le> 0 then None else Some v | None \<Rightarrow> None)"

definition parse_changeteam :: "string \<Rightarrow> ParseResult" where
  "parse_changeteam rest =
     (let low = LowerAscii rest
      in if low = [] then owned\<lparr>pr_change_team := Some Toggle\<rparr>
         else if low = ''attackers'' then owned\<lparr>pr_change_team := Some Attackers\<rparr>
         else if low = ''defenders'' then owned\<lparr>pr_change_team := Some Defenders\<rparr>
         else owned)"

definition DifficultyIdFromToken :: "string \<Rightarrow> int" where
  "DifficultyIdFromToken tok =
     (if tok = ''low'' then 1028 else if tok = ''medium'' then 1029 else if tok = ''high'' then 1030
      else if tok = ''max'' then 1259 else if tok = ''umax'' then 1471 else if tok = ''mmax'' then 3000
      else if tok = ''gmax'' then 4000 else if tok = ''hc'' then 5000 else if tok = ''sa'' then 10000
      else 0)"

definition parse_spawn :: "string \<Rightarrow> string \<Rightarrow> ParseResult" where
  "parse_spawn cmd_name rest =
     (let team = (if cmd_name = ''-spawnenemy'' then Enemy else Friend);
          henchman = (cmd_name = ''-spawnhenchman'');
          spawn = (\<lambda>difficulty_id tok. case positive_int tok of
             None \<Rightarrow> owned
           | Some bot_id \<Rightarrow> owned\<lparr>pr_spawn_target := Some \<lparr>sa_bot_id = bot_id, sa_team = team,
               sa_difficulty_id = difficulty_id, sa_henchman = henchman\<rparr>\<rparr>)
      in (case SplitWs rest of
            [tok] \<Rightarrow> spawn 0 tok
          | [difficulty, tok] \<Rightarrow>
              (let difficulty_id = DifficultyIdFromToken (LowerAscii difficulty)
               in if difficulty_id = 0 then owned else spawn difficulty_id tok)
          | _ \<Rightarrow> owned))"

definition parse_deploy :: "string \<Rightarrow> string \<Rightarrow> ParseResult" where
  "parse_deploy cmd_name rest =
     (case SplitWs rest of
        [tok] \<Rightarrow> (case positive_int tok of
            None \<Rightarrow> owned
          | Some dep_id \<Rightarrow> owned\<lparr>pr_deploy_target := Some \<lparr>da_deployable_id = dep_id,
              da_team = (if cmd_name = ''-deployfriend'' then Friend else Enemy)\<rparr>\<rparr>)
      | _ \<Rightarrow> owned)"

definition parse_setspawntable :: "string \<Rightarrow> ParseResult" where
  "parse_setspawntable rest =
     (case SplitWs rest of
        [a, b] \<Rightarrow> (case positive_int a of
            None \<Rightarrow> owned
          | Some mid \<Rightarrow> (case positive_int b of
              None \<Rightarrow> owned
            | Some table \<Rightarrow> owned\<lparr>pr_set_spawn_table :=
                Some \<lparr>st_map_object_id = mid, st_spawn_table_id = table\<rparr>\<rparr>))
      | _ \<Rightarrow> owned)"

definition toggle_mode :: "string \<Rightarrow> int option" where
  "toggle_mode rest =
     (if rest = [] then Some (- 1) else if rest = ''0'' then Some 0 else if rest = ''1'' then Some 1 else None)"

definition parse_suits :: "string \<Rightarrow> string \<Rightarrow> ParseResult" where
  "parse_suits cmd_name rest =
     (case toggle_mode rest of
        None \<Rightarrow> owned
      | Some m \<Rightarrow> owned\<lparr>pr_toggle_broken_suits := Some \<lparr>tb_mode = m, tb_all = (cmd_name = ''-toggleallsuits'')\<rparr>\<rparr>)"

definition parse_solomode :: "string \<Rightarrow> ParseResult" where
  "parse_solomode rest =
     (case toggle_mode rest of None \<Rightarrow> owned | Some m \<Rightarrow> owned\<lparr>pr_toggle_solo_mode := Some m\<rparr>)"

definition parse_dlc :: "string \<Rightarrow> string \<Rightarrow> ParseResult" where
  "parse_dlc cmd_name rest =
     (let set_dlc = (\<lambda>ident. owned\<lparr>pr_set_dlc := Some \<lparr>sd_identifier = ident, sd_installed = (cmd_name = ''-enabledlc'')\<rparr>\<rparr>)
      in if rest = [] then set_dlc []
         else (case SplitWs rest of [tok] \<Rightarrow> set_dlc tok | _ \<Rightarrow> owned))"

definition parse_fx :: "string \<Rightarrow> ParseResult" where
  "parse_fx rest =
     (let fx = (\<lambda>a i. owned\<lparr>pr_fx_browse := Some \<lparr>fx_action = a, fx_index = i\<rparr>\<rparr>);
          tok = LowerAscii rest
      in if rest = [] then fx ''show'' 0
         else if tok = ''next'' \<or> tok = ''n'' then fx ''next'' 0
         else if tok = ''prev'' \<or> tok = ''p'' then fx ''prev'' 0
         else if tok = ''off'' then fx ''off'' 0
         else if tok = ''pawn'' then fx ''pawn'' 0
         else if tok = ''own'' then fx ''own'' 0
         else (case ParseInt tok of
                 None \<Rightarrow> owned
               | Some n \<Rightarrow> if n < 1 then owned else fx ''jump'' n))"

definition marker_mode :: "string \<Rightarrow> string option" where
  "marker_mode tok =
     (if tok \<in> {''off'', ''0''} then Some ''off''
      else if tok \<in> {''on'', ''1'', ''all''} then Some ''all''
      else if tok \<in> {''attack'', ''attackers''} then Some ''attackers''
      else if tok \<in> {''defense'', ''defence'', ''defenders''} then Some ''defenders''
      else if tok \<in> {''friendly'', ''friends'', ''mine'', ''own''} then Some ''friendly''
      else if tok \<in> {''enemy'', ''enemies'', ''them'', ''theirs''} then Some ''enemy''
      else if tok = ''glow'' then Some ''glow''
      else if tok = ''foreman'' then Some ''foreman''
      else None)"

definition parse_markers :: "string \<Rightarrow> ParseResult" where
  "parse_markers rest =
     (let markers = (\<lambda>m d. owned\<lparr>pr_markers := Some \<lparr>mk_mode = m, mk_min_distance_uu = d\<rparr>\<rparr>);
          tok = LowerAscii rest
      in if rest = [] then markers ''toggle'' (Finite 0)
         else (case marker_mode tok of
                 Some m \<Rightarrow> markers m (Finite 0)
               | None \<Rightarrow> (case stof tok of
                     None \<Rightarrow> owned
                   | Some uu \<Rightarrow> if single_le uu 0 \<or> single_gt uu 100000 then owned
                               else markers ''distance'' uu)))"

definition parse_topdown :: "string \<Rightarrow> ParseResult" where
  "parse_topdown rest =
     (if rest = [] then owned\<lparr>pr_topdown := Some (Finite 0)\<rparr>
      else (case stof rest of None \<Rightarrow> owned | Some z \<Rightarrow> owned\<lparr>pr_topdown := Some z\<rparr>))"

definition spectate_team :: "string \<Rightarrow> SpectateTeam option" where
  "spectate_team tok =
     (if tok \<in> {''attack'', ''attackers''} then Some SpectateAttackers
      else if tok \<in> {''defense'', ''defence'', ''defenders''} then Some SpectateDefenders else None)"

definition parse_spectate :: "string \<Rightarrow> ParseResult" where
  "parse_spectate rest =
     (let spectate = (\<lambda>i t. owned\<lparr>pr_spectate := Some \<lparr>sp_instance_id = i, sp_team = t\<rparr>\<rparr>)
      in if rest = [] then spectate 0 NoTeam
         else (case SplitWs rest of
                 [a] \<Rightarrow> (case positive_int a of None \<Rightarrow> owned | Some i \<Rightarrow> spectate i NoTeam)
               | [a, b] \<Rightarrow> (case positive_int a of
                     None \<Rightarrow> owned
                   | Some i \<Rightarrow> (case spectate_team (LowerAscii b) of
                         None \<Rightarrow> owned | Some t \<Rightarrow> spectate i t))
               | _ \<Rightarrow> owned))"

definition if_bare :: "string \<Rightarrow> ParseResult \<Rightarrow> ParseResult" where
  \<comment> \<open>commands without arguments\<close>
  "if_bare rest r = (if rest = [] then r else owned)"

definition parse_announce :: "string \<Rightarrow> ParseResult" where
  "parse_announce rest = (if rest \<noteq> [] then owned\<lparr>pr_announce := Some rest\<rparr> else owned)"

definition TryParseChatCommand :: "string \<Rightarrow> ParseResult" where
  "TryParseChatCommand message_text =
     (let trimmed = TrimAscii message_text
      in if trimmed = [] \<or> hd trimmed \<noteq> CHR ''-'' then no_command
         else (let cmd_name = LowerAscii (takeWhile (\<lambda>c. \<not> isspace c) trimmed);
                   rest = TrimAscii (dropWhile (\<lambda>c. \<not> isspace c) trimmed)
               in if cmd_name = ''-changeteam'' then parse_changeteam rest
                  else if cmd_name = ''-coords'' then owned\<lparr>pr_coords := True\<rparr>
                  else if cmd_name \<in> {''-spawnfriend'', ''-spawnenemy'', ''-spawnhenchman''} then parse_spawn cmd_name rest
                  else if cmd_name \<in> {''-deployfriend'', ''-deployenemy''} then parse_deploy cmd_name rest
                  else if cmd_name = ''-setspawntable'' then parse_setspawntable rest
                  else if cmd_name = ''-fullheal'' then if_bare rest (owned\<lparr>pr_fullheal := True\<rparr>)
                  else if cmd_name = ''-classes'' then if_bare rest (owned\<lparr>pr_class_counts := True\<rparr>)
                  else if cmd_name = ''-possess'' then if_bare rest (owned\<lparr>pr_possess := True\<rparr>)
                  else if cmd_name = ''-unpossess'' then if_bare rest (owned\<lparr>pr_unpossess := True\<rparr>)
                  else if cmd_name = ''-reload-queues'' then if_bare rest (owned\<lparr>pr_reload_queues := True\<rparr>)
                  else if cmd_name = ''-components'' then owned
                  else if cmd_name = ''-announce'' then parse_announce rest
                  else if cmd_name \<in> {''-togglebrokensuits'', ''-toggleallsuits''} then parse_suits cmd_name rest
                  else if cmd_name = ''-togglesolomode'' then parse_solomode rest
                  else if cmd_name \<in> {''-enabledlc'', ''-disabledlc''} then parse_dlc cmd_name rest
                  else if cmd_name = ''-fx'' then parse_fx rest
                  else if cmd_name = ''-markers'' then parse_markers rest
                  else if cmd_name = ''-topdown'' then parse_topdown rest
                  else if cmd_name = ''-spectate'' then parse_spectate rest
                  else if cmd_name = ''-unspectate'' then if_bare rest (owned\<lparr>pr_unspectate := True\<rparr>)
                  else no_command))"

definition ChannelForCommandToken :: "string \<Rightarrow> u32 option" where
  "ChannelForCommandToken token =
     (let t = LowerAscii token
      in if t \<in> {''l'', ''local''} then Some 4
         else if t \<in> {''a'', ''agency''} then Some 2
         else if t \<in> {''al'', ''alliance''} then Some 3
         else if t \<in> {''t'', ''team''} then Some 5
         else if t \<in> {''c'', ''city''} then Some 7
         else if t \<in> {''i'', ''instance''} then Some 1
         else if t \<in> {''tr'', ''trade''} then Some 12
         else if t = ''lfg'' then Some 13
         else None)"

text \<open>\<open>HasParsedCommandAction\<close>, as the list of its tests.\<close>

definition actions :: "ParseResult \<Rightarrow> bool list" where
  "actions r = [pr_change_team r \<noteq> None, pr_spawn_target r \<noteq> None, pr_deploy_target r \<noteq> None,
     pr_topdown r \<noteq> None, pr_markers r \<noteq> None, pr_fx_browse r \<noteq> None, pr_set_spawn_table r \<noteq> None,
     pr_spectate r \<noteq> None, pr_toggle_broken_suits r \<noteq> None, pr_toggle_solo_mode r \<noteq> None,
     pr_set_dlc r \<noteq> None, pr_possess r, pr_unpossess r, pr_unspectate r, pr_coords r, pr_fullheal r,
     pr_class_counts r, pr_reload_queues r, pr_announce r \<noteq> None]"

definition HasParsedCommandAction :: "ParseResult \<Rightarrow> bool" where
  "HasParsedCommandAction r = list_ex id (actions r)"


section \<open>What is parsed\<close>

lemma parse_digits_exact:
  "0 \<le> v \<Longrightarrow> v \<le> INT_MAX \<Longrightarrow> parse_digits v s =
     (let n = fold (\<lambda>c n. n * 10 + (of_char c - 48)) s (nat v)
      in if list_all is_digit s \<and> n \<le> nat INT_MAX then Some (int n) else None)"
proof (induction v s rule: parse_digits.induct)
  case (2 v c s)
  have grows: "m \<le> fold (\<lambda>c n. n * 10 + (of_char c - 48)) s m" for m :: nat
  proof (induction s arbitrary: m)
    case (Cons c s)
    have "m \<le> m * 10 + (of_char c - 48)" by simp
    also have "\<dots> \<le> fold (\<lambda>c n. n * 10 + (of_char c - 48)) s (m * 10 + (of_char c - 48))" by (rule Cons.IH)
    finally show ?case by simp
  qed simp
  show ?case
  proof (cases "is_digit c")
    case True
    define d where "d = int (of_char c) - 48"
    have d: "0 \<le> d" "d \<le> 9" "nat v * 10 + (of_char c - 48) = nat (v * 10 + d)"
      using True 2(2) by (auto simp: is_digit_def d_def nat_add_distrib nat_mult_distrib)
    have over: "v > (INT_MAX - d) div 10 \<longleftrightarrow> v * 10 + d > INT_MAX" by linarith
    show ?thesis
    proof (cases "v > (INT_MAX - d) div 10")
      case True
      then have "nat INT_MAX < nat (v * 10 + d)" using over by simp
      also have "\<dots> \<le> fold (\<lambda>c n. n * 10 + (of_char c - 48)) s (nat (v * 10 + d))" by (rule grows)
      finally show ?thesis using True \<open>is_digit c\<close> by (simp add: d(3) Let_def flip: d_def)
    next
      case False
      then have "parse_digits (v * 10 + d) s = (let n = fold (\<lambda>c n. n * 10 + (of_char c - 48)) s (nat (v * 10 + d))
          in if list_all is_digit s \<and> n \<le> nat INT_MAX then Some (int n) else None)"
        using 2(1) [OF _ d_def] True over d(1) 2(2) by simp
      then show ?thesis using True False by (simp add: d(3) flip: d_def)
    qed
  qed simp
qed (simp add: Let_def)

lemma ParseInt_exact:
  "ParseInt s = (if s \<noteq> [] \<and> list_all is_digit s \<and> digits_value s \<le> 2147483647 then Some (int (digits_value s)) else None)"
  using parse_digits_exact [of 0 s] by (simp add: ParseInt_def digits_value_def Let_def)

lemma positive_int_SomeD: "positive_int s = Some v \<Longrightarrow> 0 < v \<and> v \<le> INT_MAX"
  by (auto simp: positive_int_def ParseInt_exact split: if_splits)

definition fine :: "ParseResult \<Rightarrow> bool" where
  "fine r \<longleftrightarrow> pr_recognized r \<and> pr_suppress_broadcast r \<and> length (filter id (actions r)) \<le> 1"

lemmas result_defs = owned_def no_command_def fine_def actions_def

lemma fine_owned [simp]: "fine owned"
  by (simp add: result_defs)


lemma fine_one:
  "fine (owned\<lparr>pr_change_team := x\<rparr>)" "fine (owned\<lparr>pr_spawn_target := x1\<rparr>)"
  "fine (owned\<lparr>pr_deploy_target := x2\<rparr>)" "fine (owned\<lparr>pr_topdown := x3\<rparr>)"
  "fine (owned\<lparr>pr_spectate := x4\<rparr>)" "fine (owned\<lparr>pr_toggle_broken_suits := x5\<rparr>)"
  "fine (owned\<lparr>pr_toggle_solo_mode := x6\<rparr>)" "fine (owned\<lparr>pr_set_dlc := x7\<rparr>)"
  "fine (owned\<lparr>pr_markers := x8\<rparr>)" "fine (owned\<lparr>pr_fx_browse := x9\<rparr>)"
  "fine (owned\<lparr>pr_set_spawn_table := x10\<rparr>)" "fine (owned\<lparr>pr_announce := x11\<rparr>)"
  "fine (owned\<lparr>pr_possess := b\<rparr>)" "fine (owned\<lparr>pr_unpossess := b\<rparr>)" "fine (owned\<lparr>pr_unspectate := b\<rparr>)"
  "fine (owned\<lparr>pr_coords := b\<rparr>)" "fine (owned\<lparr>pr_fullheal := b\<rparr>)" "fine (owned\<lparr>pr_class_counts := b\<rparr>)"
  "fine (owned\<lparr>pr_reload_queues := b\<rparr>)"
  by (simp_all add: result_defs)

lemmas parse_branches = parse_changeteam_def parse_spawn_def parse_deploy_def parse_setspawntable_def
  parse_suits_def parse_solomode_def parse_dlc_def parse_fx_def parse_markers_def parse_topdown_def
  parse_spectate_def parse_announce_def if_bare_def

lemma fine_branches:
  "fine (parse_changeteam rest)" "fine (parse_spawn cmd rest)" "fine (parse_deploy cmd rest)"
  "fine (parse_setspawntable rest)" "fine (parse_suits cmd rest)" "fine (parse_solomode rest)"
  "fine (parse_dlc cmd rest)" "fine (parse_fx rest)" "fine (parse_markers rest)" "fine (parse_topdown rest)"
  "fine (parse_spectate rest)" "fine (parse_announce rest)" "fine r \<Longrightarrow> fine (if_bare rest r)"
  by (simp_all add: parse_branches Let_def fine_one split: list.splits option.splits)

text \<open>The dispatch on the command name, once for every property of the results.\<close>

lemma if_prop: "P a \<Longrightarrow> P b \<Longrightarrow> P (if c then a else b)"
  by simp

lemma TryParse_cases:
  assumes "\<And>cmd rest. P (parse_changeteam rest) \<and> P (parse_spawn cmd rest) \<and> P (parse_deploy cmd rest)
      \<and> P (parse_setspawntable rest) \<and> P (parse_suits cmd rest) \<and> P (parse_solomode rest) \<and> P (parse_dlc cmd rest)
      \<and> P (parse_fx rest) \<and> P (parse_markers rest) \<and> P (parse_topdown rest) \<and> P (parse_spectate rest)
      \<and> P (parse_announce rest)"
    and "\<And>b. P owned \<and> P (owned\<lparr>pr_possess := b\<rparr>) \<and> P (owned\<lparr>pr_unpossess := b\<rparr>) \<and> P (owned\<lparr>pr_unspectate := b\<rparr>)
      \<and> P (owned\<lparr>pr_coords := b\<rparr>) \<and> P (owned\<lparr>pr_fullheal := b\<rparr>) \<and> P (owned\<lparr>pr_class_counts := b\<rparr>)
      \<and> P (owned\<lparr>pr_reload_queues := b\<rparr>)"
  shows "TryParseChatCommand s = no_command \<or> take 1 (TrimAscii s) = ''-'' \<and> P (TryParseChatCommand s)"
proof (cases "TrimAscii s = [] \<or> hd (TrimAscii s) \<noteq> CHR ''-''")
  case False
  then have dash: "take 1 (TrimAscii s) = ''-''" by (cases "TrimAscii s") auto
  let ?Q = "\<lambda>r. r = no_command \<or> P r"
  have Q: "?Q (parse_changeteam rest)" "?Q (parse_spawn cmd rest)" "?Q (parse_deploy cmd rest)"
    "?Q (parse_setspawntable rest)" "?Q (parse_suits cmd rest)" "?Q (parse_solomode rest)" "?Q (parse_dlc cmd rest)"
    "?Q (parse_fx rest)" "?Q (parse_markers rest)" "?Q (parse_topdown rest)" "?Q (parse_spectate rest)"
    "?Q (parse_announce rest)" for cmd rest
    using assms(1) [of rest cmd] by blast+
  have B: "?Q owned" "?Q (owned\<lparr>pr_possess := b\<rparr>)" "?Q (owned\<lparr>pr_unpossess := b\<rparr>)"
    "?Q (owned\<lparr>pr_unspectate := b\<rparr>)" "?Q (owned\<lparr>pr_coords := b\<rparr>)" "?Q (owned\<lparr>pr_fullheal := b\<rparr>)"
    "?Q (owned\<lparr>pr_class_counts := b\<rparr>)" "?Q (owned\<lparr>pr_reload_queues := b\<rparr>)" for b
    using assms(2) [of b] by blast+
  have "?Q (TryParseChatCommand s)"
    unfolding TryParseChatCommand_def Let_def if_bare_def if_not_P [OF False]
    by (intro if_prop [where P = ?Q] Q B) simp
  then show ?thesis using dash by blast
qed (simp add: TryParseChatCommand_def Let_def)

lemma TryParse_fine: "TryParseChatCommand s = no_command \<or> take 1 (TrimAscii s) = ''-'' \<and> fine (TryParseChatCommand s)"
  by (rule TryParse_cases) (simp_all only: fine_branches fine_one fine_owned simp_thms)

text \<open>
  Every chat line is either ordinary chat, with an empty result, or a command that starts with
  a dash: then it is recognised, is kept from being broadcast, whatever its arguments, and asks for
  at most one action.
\<close>

theorem chat_command_shape:
  "TryParseChatCommand s = no_command
   \<or> take 1 (TrimAscii s) = ''-'' \<and> pr_recognized (TryParseChatCommand s)
     \<and> pr_suppress_broadcast (TryParseChatCommand s) \<and> length (filter id (actions (TryParseChatCommand s))) \<le> 1"
  using TryParse_fine [of s] unfolding fine_def .

text \<open>The ranges of the arguments that are handed on.\<close>

definition args_ok :: "ParseResult \<Rightarrow> bool" where
  "args_ok r \<longleftrightarrow>
     pred_option (\<lambda>a. sa_bot_id a \<in> {1..INT_MAX}
        \<and> sa_difficulty_id a \<in> {0, 1028, 1029, 1030, 1259, 1471, 3000, 4000, 5000, 10000}
        \<and> \<not> (sa_henchman a \<and> sa_team a = Enemy)) (pr_spawn_target r)
     \<and> pred_option (\<lambda>a. da_deployable_id a \<in> {1..INT_MAX}) (pr_deploy_target r)
     \<and> pred_option (\<lambda>a. st_map_object_id a \<in> {1..INT_MAX} \<and> st_spawn_table_id a \<in> {1..INT_MAX}) (pr_set_spawn_table r)
     \<and> pred_option (\<lambda>a. sp_instance_id a \<in> {0..INT_MAX}) (pr_spectate r)
     \<and> pred_option (\<lambda>a. tb_mode a \<in> {- 1, 0, 1}) (pr_toggle_broken_suits r)
     \<and> pred_option (\<lambda>m. m \<in> {- 1, 0, 1}) (pr_toggle_solo_mode r)
     \<and> pred_option (\<lambda>a. fx_index a \<in> {0..INT_MAX}) (pr_fx_browse r)
     \<and> pred_option (\<lambda>a. case mk_min_distance_uu a of Finite x \<Rightarrow> 0 \<le> x \<and> x \<le> 100000
          | Infinite _ \<Rightarrow> False | NaN \<Rightarrow> mk_mode a = ''distance'') (pr_markers r)
     \<and> pred_option (\<lambda>t. t \<noteq> []) (pr_announce r)"

lemma args_ok_owned: "args_ok owned"
  by (simp add: args_ok_def owned_def no_command_def)

lemma DifficultyId_values:
  "DifficultyIdFromToken t \<in> {0, 1028, 1029, 1030, 1259, 1471, 3000, 4000, 5000, 10000}"
  by (simp add: DifficultyIdFromToken_def)

lemma ParseInt_SomeD: "ParseInt s = Some v \<Longrightarrow> 0 \<le> v \<and> v \<le> INT_MAX"
  by (auto simp: ParseInt_exact split: if_splits)

lemma toggle_mode_SomeD: "toggle_mode s = Some m \<Longrightarrow> m \<in> {- 1, 0, 1}"
  by (auto simp: toggle_mode_def split: if_splits)


lemmas args_ok_simps = args_ok_def owned_def no_command_def

lemma args_ok_branches:
  "args_ok (parse_changeteam rest)" "args_ok (parse_setspawntable rest)" "args_ok (parse_solomode rest)"
  "args_ok (parse_suits cmd rest)" "args_ok (parse_dlc cmd rest)" "args_ok (parse_topdown rest)"
  "args_ok (parse_deploy cmd rest)" "args_ok (parse_announce rest)"
  by (simp_all add: parse_branches args_ok_simps Let_def split: list.splits option.splits)
    (auto dest!: positive_int_SomeD toggle_mode_SomeD)

lemma args_ok_fx: "args_ok (parse_fx rest)"
  unfolding parse_fx_def Let_def
  by (auto simp: args_ok_simps dest: ParseInt_SomeD split: option.splits)

lemma args_ok_spectate: "args_ok (parse_spectate rest)"
  unfolding parse_spectate_def Let_def
  by (auto simp: args_ok_simps dest!: positive_int_SomeD split: option.splits list.splits)

lemma args_ok_spawn: "args_ok (parse_spawn cmd rest)"
proof -
  have one: "args_ok (owned\<lparr>pr_spawn_target := Some \<lparr>sa_bot_id = b, sa_team = if cmd = ''-spawnenemy'' then Enemy else Friend,
      sa_difficulty_id = DifficultyIdFromToken t, sa_henchman = (cmd = ''-spawnhenchman'')\<rparr>\<rparr>)"
    if "positive_int tok = Some b" for b t tok
    using positive_int_SomeD [OF that] DifficultyId_values [of t] by (auto simp: args_ok_simps)
  have zero: "DifficultyIdFromToken [] = 0" by (simp add: DifficultyIdFromToken_def)
  show ?thesis
    unfolding parse_spawn_def Let_def
    using one one [where t = "[]", unfolded zero] args_ok_owned
    by (auto split: list.splits option.splits)
qed

lemma args_ok_markers: "args_ok (parse_markers rest)"
proof -
  have dist: "args_ok (owned\<lparr>pr_markers := Some \<lparr>mk_mode = ''distance'', mk_min_distance_uu = uu\<rparr>\<rparr>)"
    if "\<not> (single_le uu 0 \<or> single_gt uu 100000)" for uu
    using that by (cases uu) (auto simp: args_ok_simps single_le_def single_gt_def split: if_splits)
  have "args_ok (owned\<lparr>pr_markers := Some \<lparr>mk_mode = m, mk_min_distance_uu = Finite 0\<rparr>\<rparr>)" for m
    by (simp add: args_ok_simps)
  then show ?thesis
    unfolding parse_markers_def Let_def using dist args_ok_owned by (simp split: option.splits)
qed

text \<open>
  C40. The arguments of a recognised command are in range: identifiers of bots, deployables, map
  objects and tables are positive ints, difficulties are those of the table, a henchman is a friend,
  toggles have three values, and the cull radius of the markers lies between 0 and 100000. The one
  exception is that a radius of \<open>nan\<close> passes the check and is handed on.
\<close>

theorem chat_command_bounds:
  "(TryParseChatCommand s = no_command \<or> args_ok (TryParseChatCommand s))
   \<and> pr_markers (TryParseChatCommand ''-markers nan'') = Some \<lparr>mk_mode = ''distance'', mk_min_distance_uu = NaN\<rparr>"
proof
  have "TryParseChatCommand s = no_command \<or> take 1 (TrimAscii s) = ''-'' \<and> args_ok (TryParseChatCommand s)"
  proof (rule TryParse_cases, goal_cases)
    case (2 b)
    show ?case by (simp add: args_ok_simps)
  qed (simp add: args_ok_branches args_ok_fx args_ok_spectate args_ok_spawn args_ok_markers)
  then show "TryParseChatCommand s = no_command \<or> args_ok (TryParseChatCommand s)" by blast
  show "pr_markers (TryParseChatCommand ''-markers nan'') = Some \<lparr>mk_mode = ''distance'', mk_min_distance_uu = NaN\<rparr>"
    by code_simp
qed

text \<open>
  \<open>ParseInt\<close> reads exactly the non-empty strings of digits whose value is an \<open>int\<close>, and answers
  that value: its check before each step rejects no number that fits and lets none overflow.
\<close>

theorem parse_int_exact:
  "ParseInt s = (if s \<noteq> [] \<and> list_all is_digit s \<and> digits_value s \<le> 2147483647 then Some (int (digits_value s)) else None)"
  by (rule ParseInt_exact)

end
