(* ===== verification/ChatRooms.thy ===== *)
theory ChatRooms
  imports ChatCommand PacketRoundtrip StreamFraming
begin

text \<open>
  The chat server: \<open>ChatSession/ChatSession.cpp\<close>, with the commands of \<open>ChatCommand.cpp\<close> that act on
  the chat, the registry or a player's game server.

  A session object has a number. \<open>ch_peers\<close> are the objects that are alive; \<open>ch_order\<close> is the vector
  \<open>g_chat_sessions\<close> of weak references, in its order. A range-for over that vector keeps the end it
  started with: it visits the places of the vector as it was, and reads behind the end once entries
  have been erased meanwhile. Such a read is the outcome \<open>Dangling\<close>. Tearing a session down tells the
  others, which may tear down further sessions; \<open>OutOfFuel\<close> ends that recursion in the model.
\<close>

section \<open>State\<close>

record ChatPeer =
  cp_guid :: guid
  cp_name :: string
  cp_closed :: bool
  cp_announced :: bool
  cp_queue :: "bytes list"
  cp_retries :: nat
  cp_epoch :: u64
  cp_ignored :: "string list"

record ChatHall =
  ch_peers :: "(nat, ChatPeer) umap"
  ch_order :: "nat list"

text \<open>
  What the chat asks of the session store and the database: agencies and alliances are numbers, 0
  for none; \<open>ce_ignored\<close> are the lower-cased names a player ignores, \<open>ce_connected\<close> and
  \<open>ce_spectating\<close> tell of the player's main connection, \<open>ce_queue_configs\<close> is what a reload reads.
\<close>

record DlcRow =
  dr_dlc_id :: int
  dr_identifier :: string
  dr_name :: string

record ChatEnv =
  ce_session :: "guid \<Rightarrow> Session option"
  ce_agency_of :: "int \<Rightarrow> int"
  ce_agency_members :: "int \<Rightarrow> int list"
  ce_alliance_of :: "int \<Rightarrow> int"
  ce_alliance_members :: "int \<Rightarrow> int list"
  ce_epoch :: u64
  ce_ignored :: "string \<Rightarrow> string list"
  ce_announcers :: "string list"
  ce_characters :: "int \<Rightarrow> (int \<times> int) option"
  ce_has_role :: "int \<Rightarrow> string \<Rightarrow> bool"
  ce_dlc_catalog :: "DlcRow list"
  ce_connected :: "guid \<Rightarrow> bool"
  ce_spectating :: "guid \<Rightarrow> bool"
  ce_queue_configs :: "QueueConfig list"
  ce_match :: Env

datatype 'a chat_run = OutOfFuel | Dangling | Done 'a

primrec run_bind :: "'a chat_run \<Rightarrow> ('a \<Rightarrow> 'b chat_run) \<Rightarrow> 'b chat_run" where
  "run_bind OutOfFuel f = OutOfFuel"
| "run_bind Dangling f = Dangling"
| "run_bind (Done x) f = f x"

abbreviation "kInstanceChannelId \<equiv> (1 :: u32)"
abbreviation "kAgencyChannelId \<equiv> (2 :: u32)"
abbreviation "kAllianceChannelId \<equiv> (3 :: u32)"
abbreviation "kLocalChannelId \<equiv> (4 :: u32)"
abbreviation "kTeamChannelId \<equiv> (5 :: u32)"
abbreviation "kCityChannelId \<equiv> (7 :: u32)"
abbreviation "kWhisperChannelId \<equiv> (8 :: u32)"
abbreviation "kSystemChannelId \<equiv> (11 :: u32)"
abbreviation "kTradeChannelId \<equiv> (12 :: u32)"
abbreviation "kLfgChannelId \<equiv> (13 :: u32)"
abbreviation "kAnnounceChannelId \<equiv> (20 :: u32)"

abbreviation "kMaxWriteQueueDepth \<equiv> (256 :: nat)"
abbreviation "kBindRetryMaxAttempts \<equiv> (50 :: nat)"

section \<open>Frames\<close>

definition chars :: "string \<Rightarrow> bytes" where
  "chars s = map (\<lambda>c. word_of_nat (of_char c)) s"

definition text_of :: "bytes read_result \<Rightarrow> string" where
  \<comment> \<open>\<open>value_or("")\<close>; a fault does not happen\<close>
  "text_of r = (case r of Got b \<Rightarrow> map (\<lambda>x. char_of (unat x)) b | _ \<Rightarrow> [])"

text \<open>\<open>ChatSession::WriteString\<close> has a length of two bytes, unlike that of \<open>TcpSession\<close>.\<close>

definition ChatWriteString :: "bytes \<Rightarrow> u16 \<Rightarrow> string \<Rightarrow> bytes" where
  "ChatWriteString buffer ty s = buffer @ [ucast (ty AND 0xFF), ucast (drop_bit 8 ty)] @ prefix16 (length s) @ chars s"

definition framed :: "bytes \<Rightarrow> bytes" where
  "framed body = prefix16 (length body) @ body"

definition chat_body :: "u32 \<Rightarrow> string \<Rightarrow> bytes" where
  "chat_body channel message = ChatWriteString (Write4B [0x73, 0, 2, 0] 0x00BE channel) 0x0355 message"

text \<open>
  \<open>BuildChatFrame\<close> and the frame built by \<open>SendOnChannel\<close> have the same bytes. The whisper frame
  carries four fields.
\<close>

definition BuildChatFrame :: "u32 \<Rightarrow> string \<Rightarrow> bytes" where
  "BuildChatFrame channel message_text = framed (chat_body channel message_text)"

definition makeWhisperFrame :: "string \<Rightarrow> string \<Rightarrow> string \<Rightarrow> bytes" where
  "makeWhisperFrame displayName msgText replyToName =
     framed (ChatWriteString (ChatWriteString (ChatWriteString (Write4B [0x73, 0, 4, 0] 0x00BE kWhisperChannelId)
       0x0370 displayName) 0x0355 msgText) 0x03C5 replyToName)"

definition BuildChatConfigFrame :: "u32 list \<Rightarrow> bytes" where
  "BuildChatConfigFrame channels =
     framed ([0x72, 0, 1, 0, 0x0C, 0x01] @ prefix16 (length channels)
       @ concat (map (\<lambda>ch. [2, 0] @ Write4B (Write4B [] 0x00BE ch) 0x00BD ch) channels))"

section \<open>The list of sessions\<close>

definition PruneExpiredSessions :: "ChatHall \<Rightarrow> ChatHall" where
  "PruneExpiredSessions h = h\<lparr>ch_order := filter (\<lambda>i. map_of (ch_peers h) i \<noteq> None) (ch_order h)\<rparr>"

definition set_peer :: "nat \<Rightarrow> ChatPeer \<Rightarrow> ChatHall \<Rightarrow> ChatHall" where
  "set_peer i p h = h\<lparr>ch_peers := umap_put i p (ch_peers h)\<rparr>"

fun visit :: "(nat \<Rightarrow> ChatPeer \<Rightarrow> ChatHall \<Rightarrow> ChatHall chat_run) \<Rightarrow> nat list \<Rightarrow> ChatHall \<Rightarrow> ChatHall chat_run" where
  "visit body [] h = Done h"
| "visit body (k # ks) h =
     (if length (ch_order h) \<le> k then Dangling
      else run_bind (case map_of (ch_peers h) (ch_order h ! k) of None \<Rightarrow> Done h | Some p \<Rightarrow> body (ch_order h ! k) p h)
             (visit body ks))"

definition for_each_peer :: "(nat \<Rightarrow> ChatPeer \<Rightarrow> ChatHall \<Rightarrow> ChatHall chat_run) \<Rightarrow> ChatHall \<Rightarrow> ChatHall chat_run" where
  "for_each_peer body h = visit body [0..<length (ch_order h)] h"

text \<open>\<open>ChatSession::deliver\<close>; \<open>td\<close> is the tear-down. The front of the queue is being written.\<close>

definition deliver_with ::
  "(nat \<Rightarrow> ChatHall \<Rightarrow> ChatHall chat_run) \<Rightarrow> bytes \<Rightarrow> nat \<Rightarrow> ChatPeer \<Rightarrow> ChatHall \<Rightarrow> ChatHall chat_run" where
  "deliver_with td frame i p h =
     (if cp_closed p then Done h
      else if length (cp_queue p) \<ge> kMaxWriteQueueDepth then td i h
      else Done (set_peer i (p\<lparr>cp_queue := cp_queue p @ [frame]\<rparr>) h))"

definition BroadcastSystemMessage ::
  "(nat \<Rightarrow> ChatHall \<Rightarrow> ChatHall chat_run) \<Rightarrow> string \<Rightarrow> u32 \<Rightarrow> nat option \<Rightarrow> ChatHall \<Rightarrow> ChatHall chat_run" where
  "BroadcastSystemMessage td message_text channel exclude h =
     (let frame = BuildChatFrame channel message_text
      in for_each_peer (\<lambda>i p h. if Some i = exclude then Done h else deliver_with td frame i p h)
           (PruneExpiredSessions h))"

definition drop_session :: "nat \<Rightarrow> ChatHall \<Rightarrow> ChatHall" where
  "drop_session i h =
     (let h1 = (case map_of (ch_peers h) i of None \<Rightarrow> h | Some p \<Rightarrow> set_peer i (p\<lparr>cp_queue := []\<rparr>) h)
      in h1\<lparr>ch_order := filter (\<lambda>j. map_of (ch_peers h1) j \<noteq> None \<and> j \<noteq> i) (ch_order h1)\<rparr>)"

primrec TearDown :: "nat \<Rightarrow> nat \<Rightarrow> ChatHall \<Rightarrow> ChatHall chat_run" where
  "TearDown 0 i h = OutOfFuel"
| "TearDown (Suc n) i h =
     (case map_of (ch_peers h) i of
        None \<Rightarrow> Done h
      | Some p \<Rightarrow>
          if cp_closed p then Done h
          else (let h1 = set_peer i (p\<lparr>cp_closed := True\<rparr>) h
                in run_bind
                     (if cp_announced p \<and> cp_name p \<noteq> []
                      then BroadcastSystemMessage (TearDown n)
                             (''*** '' @ cp_name p @ '' has left the chat ***'') kSystemChannelId (Some i) h1
                      else Done h1)
                     (\<lambda>h2. Done (drop_session i h2))))"

definition deliver :: "nat \<Rightarrow> bytes \<Rightarrow> nat \<Rightarrow> ChatHall \<Rightarrow> ChatHall chat_run" where
  "deliver n frame i h =
     (case map_of (ch_peers h) i of None \<Rightarrow> Done h | Some p \<Rightarrow> deliver_with (TearDown n) frame i p h)"

text \<open>The completion of the write in flight.\<close>

definition chat_write_completed :: "nat \<Rightarrow> bool \<Rightarrow> nat \<Rightarrow> ChatHall \<Rightarrow> ChatHall chat_run" where
  "chat_write_completed n ec i h =
     (case map_of (ch_peers h) i of
        None \<Rightarrow> Done h
      | Some p \<Rightarrow> if cp_closed p then Done h
                 else if ec then TearDown n i h
                 else Done (set_peer i (p\<lparr>cp_queue := tl (cp_queue p)\<rparr>) h))"

definition start_session :: "nat \<Rightarrow> ChatHall \<Rightarrow> ChatHall" where
  "start_session i h = h\<lparr>ch_peers := umap_put i \<lparr>cp_guid = [], cp_name = [], cp_closed = False, cp_announced = False,
       cp_queue = [], cp_retries = 0, cp_epoch = 0, cp_ignored = []\<rparr> (ch_peers h),
     ch_order := ch_order h @ [i]\<rparr>"

section \<open>Binding a session to a player\<close>

definition AnnounceJoinIfNeeded :: "nat \<Rightarrow> nat \<Rightarrow> ChatHall \<Rightarrow> ChatHall chat_run" where
  "AnnounceJoinIfNeeded n i h =
     (case map_of (ch_peers h) i of
        None \<Rightarrow> Done h
      | Some p \<Rightarrow>
          if cp_announced p \<or> cp_name p = [] then Done h
          else run_bind
                 (deliver n (BuildChatConfigFrame [kCityChannelId, kLocalChannelId, kInstanceChannelId, kTeamChannelId,
                     kWhisperChannelId, kTradeChannelId, kLfgChannelId, kAgencyChannelId, kAllianceChannelId]) i
                   (set_peer i (p\<lparr>cp_announced := True\<rparr>) h))
                 (BroadcastSystemMessage (TearDown n) (''*** '' @ cp_name p @ '' has joined the chat ***'')
                    kSystemChannelId None))"

definition BindPlayerFromRegistry :: "nat \<Rightarrow> ChatEnv \<Rightarrow> nat \<Rightarrow> ChatHall \<Rightarrow> (bool \<times> ChatHall) chat_run" where
  "BindPlayerFromRegistry n ev i h =
     (case map_of (ch_peers h) i of
        None \<Rightarrow> Done (False, h)
      | Some p \<Rightarrow>
          if cp_closed p \<or> cp_guid p = [] then Done (False, h)
          else (case ce_session ev (cp_guid p) of
                  None \<Rightarrow> Done (False, h)
                | Some info \<Rightarrow>
                    run_bind (AnnounceJoinIfNeeded n i (set_peer i (p\<lparr>cp_name := se_player_name info\<rparr>) h))
                      (\<lambda>h'. Done (True, h'))))"

text \<open>The answer says whether the retry timer was armed; it fires as \<open>bind_retry\<close>.\<close>

definition ScheduleBindRetry :: "nat \<Rightarrow> ChatHall \<Rightarrow> bool \<times> ChatHall" where
  "ScheduleBindRetry i h =
     (case map_of (ch_peers h) i of
        None \<Rightarrow> (False, h)
      | Some p \<Rightarrow>
          if cp_closed p \<or> cp_guid p = [] \<or> cp_name p \<noteq> [] \<or> cp_retries p \<ge> kBindRetryMaxAttempts then (False, h)
          else (True, set_peer i (p\<lparr>cp_retries := cp_retries p + 1\<rparr>) h))"

definition bind_retry :: "nat \<Rightarrow> ChatEnv \<Rightarrow> nat \<Rightarrow> ChatHall \<Rightarrow> ChatHall chat_run" where
  "bind_retry n ev i h =
     (case map_of (ch_peers h) i of
        None \<Rightarrow> Done h
      | Some p \<Rightarrow> if cp_closed p then Done h
                 else run_bind (BindPlayerFromRegistry n ev i h)
                        (\<lambda>(ok, h'). Done (if ok then h' else snd (ScheduleBindRetry i h'))))"

section \<open>Who hears a line\<close>

definition is_ignoring :: "ChatEnv \<Rightarrow> string \<Rightarrow> ChatPeer \<Rightarrow> bool \<times> ChatPeer" where
  "is_ignoring ev sender_name p =
     (let p1 = (if ce_epoch ev \<noteq> cp_epoch p
                then p\<lparr>cp_ignored := ce_ignored ev (cp_name p), cp_epoch := ce_epoch ev\<rparr> else p)
      in (LowerAscii sender_name \<in> set (cp_ignored p1), p1))"

definition member_sessions :: "ChatEnv \<Rightarrow> int list \<Rightarrow> ChatHall \<Rightarrow> guid list" where
  "member_sessions ev ids h =
     filter (\<lambda>g. g \<noteq> [] \<and> (case ce_session ev g of None \<Rightarrow> False | Some info \<Rightarrow> se_user_id info \<in> set ids))
       (List.map_filter (\<lambda>i. map_option cp_guid (map_of (ch_peers h) i)) (ch_order h))"

text \<open>\<open>None\<close>: every session. The set of the code is a list here; only membership counts.\<close>

definition RecipientsFor :: "ChatEnv \<Rightarrow> TeamWorld \<Rightarrow> ChatHall \<Rightarrow> u32 \<Rightarrow> guid \<Rightarrow> guid list option \<times> ChatHall" where
  "RecipientsFor ev tw h channel sender_guid =
     (if channel = kTeamChannelId then (Some (GetTeamMemberGuids sender_guid tw), h)
      else if channel = kAgencyChannelId \<or> channel = kAllianceChannelId then
        (case ce_session ev sender_guid of
           None \<Rightarrow> (Some [], h)
         | Some sender \<Rightarrow>
             if se_user_id sender = 0 then (Some [], h)
             else (let agency_id = ce_agency_of ev (se_user_id sender);
                       alliance_id = ce_alliance_of ev agency_id;
                       h1 = PruneExpiredSessions h
                   in if agency_id = 0 then (Some [], h)
                      else if channel = kAgencyChannelId then (Some (member_sessions ev (ce_agency_members ev agency_id) h1), h1)
                      else if alliance_id = 0 then (Some [], h)
                      else (Some (member_sessions ev (ce_alliance_members ev alliance_id) h1), h1)))
      else if channel = kInstanceChannelId \<or> channel = kLocalChannelId then
        (case GetInstancePlayerTaskForce sender_guid (w_registry (ts_world tw)) of
           None \<Rightarrow> (Some [], h)
         | Some (instance_id, sender_tf) \<Rightarrow>
             (let side_scoped = (channel = kLocalChannelId \<and> sender_tf > 0);
                  roster = GetActivePlayersForInstance (ce_characters ev) instance_id (w_registry (ts_world tw))
              in (Some (map ap_guid (filter (\<lambda>row. (side_scoped \<longrightarrow> ap_task_force row = sender_tf) \<and> ap_guid row \<noteq> []) roster)), h)))
      else (None, h))"

definition UnavailableChannelText :: "u32 \<Rightarrow> string" where
  "UnavailableChannelText channel =
     (if channel = kTeamChannelId then ''*** You are not in a team ***''
      else if channel = kAgencyChannelId then ''*** You are not in an agency ***''
      else if channel = kAllianceChannelId then ''*** Your agency is not in an alliance ***''
      else ''*** You are not in an instance ***'')"

definition say_to :: "nat \<Rightarrow> ChatEnv \<Rightarrow> guid list option \<Rightarrow> string \<Rightarrow> bytes \<Rightarrow> nat \<Rightarrow> nat \<Rightarrow> ChatPeer \<Rightarrow> ChatHall \<Rightarrow> ChatHall chat_run" where
  \<comment> \<open>the body of the loop of \<open>SendOnChannel\<close>\<close>
  "say_to n ev recipients sender_name frame self i p h =
     (if (case recipients of None \<Rightarrow> False | Some gs \<Rightarrow> cp_guid p \<notin> set gs) then Done h
      else if i \<noteq> self then
        (let (ignoring, p1) = is_ignoring ev sender_name p; h1 = set_peer i p1 h
         in if ignoring then Done h1 else deliver_with (TearDown n) frame i p1 h1)
      else deliver_with (TearDown n) frame i p h)"

definition SendOnChannel :: "nat \<Rightarrow> ChatEnv \<Rightarrow> TeamWorld \<Rightarrow> nat \<Rightarrow> u32 \<Rightarrow> string \<Rightarrow> ChatHall \<Rightarrow> ChatHall chat_run" where
  "SendOnChannel n ev tw i channel message h =
     (case map_of (ch_peers h) i of
        None \<Rightarrow> Done h
      | Some me \<Rightarrow>
          (let (recipients, h1) = RecipientsFor ev tw h channel (cp_guid me)
           in if recipients = Some [] then deliver n (BuildChatFrame kSystemChannelId (UnavailableChannelText channel)) i h1
              else for_each_peer (say_to n ev recipients (cp_name me) (BuildChatFrame channel message) i)
                     (PruneExpiredSessions h1)))"

definition SendChannelMessageFrom ::
  "nat \<Rightarrow> ChatEnv \<Rightarrow> TeamWorld \<Rightarrow> guid \<Rightarrow> u32 \<Rightarrow> string \<Rightarrow> ChatHall \<Rightarrow> (bool \<times> ChatHall) chat_run" where
  "SendChannelMessageFrom n ev tw g channel txt h =
     (if g = [] \<or> txt = [] then Done (False, h)
      else (let h1 = PruneExpiredSessions h
            in case find (\<lambda>i. case map_of (ch_peers h1) i of None \<Rightarrow> False | Some p \<Rightarrow> cp_guid p = g) (ch_order h1) of
                 None \<Rightarrow> Done (False, h1)
               | Some i \<Rightarrow>
                   (let name = cp_name (the (map_of (ch_peers h1) i))
                    in if name = [] then Done (False, h1)
                       else run_bind (SendOnChannel n ev tw i channel (name @ '': '' @ txt) h1) (\<lambda>h2. Done (True, h2)))))"

definition AgencyMessage :: "nat \<Rightarrow> ChatEnv \<Rightarrow> int \<Rightarrow> string \<Rightarrow> ChatHall \<Rightarrow> ChatHall chat_run" where
  "AgencyMessage n ev agency_id txt h =
     (if agency_id = 0 \<or> txt = [] then Done h
      else for_each_peer (\<lambda>i p h.
             if cp_guid p \<noteq> [] \<and> (case ce_session ev (cp_guid p) of None \<Rightarrow> False
                  | Some info \<Rightarrow> se_user_id info \<in> set (ce_agency_members ev agency_id))
             then deliver_with (TearDown n) (BuildChatFrame kAgencyChannelId txt) i p h else Done h)
           (PruneExpiredSessions h))"

definition SystemMessageWhere :: "nat \<Rightarrow> (ChatPeer \<Rightarrow> bool) \<Rightarrow> string \<Rightarrow> ChatHall \<Rightarrow> ChatHall chat_run" where
  "SystemMessageWhere n P txt h =
     (case find (\<lambda>i. case map_of (ch_peers h) i of None \<Rightarrow> False | Some p \<Rightarrow> P p) (ch_order h) of
        None \<Rightarrow> Done h | Some i \<Rightarrow> deliver n (BuildChatFrame kSystemChannelId txt) i h)"

definition SystemMessageToGuid :: "nat \<Rightarrow> guid \<Rightarrow> string \<Rightarrow> ChatHall \<Rightarrow> ChatHall chat_run" where
  "SystemMessageToGuid n g txt h = (if g = [] then Done h else SystemMessageWhere n (\<lambda>p. cp_guid p = g) txt h)"

definition SystemMessageTo :: "nat \<Rightarrow> string \<Rightarrow> string \<Rightarrow> ChatHall \<Rightarrow> ChatHall chat_run" where
  "SystemMessageTo n name txt h = (if name = [] then Done h else SystemMessageWhere n (\<lambda>p. cp_name p = name) txt h)"

definition SetAnnouncers :: "string list \<Rightarrow> string list" where
  "SetAnnouncers names = map LowerAscii (filter (\<lambda>s. s \<noteq> []) names)"

definition IsAnnouncer :: "ChatEnv \<Rightarrow> ChatPeer \<Rightarrow> bool" where
  "IsAnnouncer ev p \<longleftrightarrow> ce_announcers ev \<noteq> [] \<and> cp_name p \<noteq> [] \<and> LowerAscii (cp_name p) \<in> set (ce_announcers ev)"

section \<open>Commands\<close>

text \<open>
  What a command asks of the player's game server (\<open>PLAYER_ACTION\<close>) or of his main connection.
\<close>

datatype PlayerAction =
    ChangeTeam guid string bool
  | SpawnTarget guid SpawnTargetArgs
  | DeployTarget guid DeployTargetArgs
  | SimpleAction guid string
  | TopDown guid single
  | Markers guid MarkersArgs
  | FxBrowse guid FxBrowseArgs
  | SetSpawnTable guid SetSpawnTableArgs
  | ToggleSuits guid ToggleBrokenSuitsArgs
  | RegisterForSpectate guid int int
  | ExitSpectate guid

text \<open>\<open>ga_user_preferences\<close> and \<open>ga_user_dlc\<close> have one row per key.\<close>

record ChatWorld =
  cw_hall :: ChatHall
  cw_team :: TeamWorld
  cw_actions :: "PlayerAction list"
  cw_preferences :: "(int \<times> string, string) umap"
  cw_user_dlc :: "(int \<times> int, bool) umap"

abbreviation chat_registry :: "ChatWorld \<Rightarrow> Registry" where
  "chat_registry w \<equiv> w_registry (ts_world (cw_team w))"

definition in_hall :: "(ChatHall \<Rightarrow> ChatHall chat_run) \<Rightarrow> ChatWorld \<Rightarrow> ChatWorld chat_run" where
  "in_hall f w = run_bind (f (cw_hall w)) (\<lambda>h. Done (w\<lparr>cw_hall := h\<rparr>))"

definition act :: "PlayerAction \<Rightarrow> ChatWorld \<Rightarrow> ChatWorld" where
  "act a w = w\<lparr>cw_actions := cw_actions w @ [a]\<rparr>"

definition act_for :: "guid \<Rightarrow> PlayerAction \<Rightarrow> ChatWorld \<Rightarrow> ChatWorld" where
  \<comment> \<open>every dispatcher drops an empty guid\<close>
  "act_for g a w = (if g = [] then w else act a w)"

definition DispatchTeamMove :: "int \<Rightarrow> guid \<Rightarrow> int \<Rightarrow> bool \<Rightarrow> ChatWorld \<Rightarrow> ChatWorld" where
  "DispatchTeamMove iid g new_tf is_autobalance w =
     act (ChangeTeam g (if new_tf = 1 then ''attackers'' else ''defenders'') is_autobalance)
       (w\<lparr>cw_team := (cw_team w)\<lparr>ts_world := (ts_world (cw_team w))\<lparr>w_registry :=
          UpdateInstancePlayerTaskForce iid g new_tf (chat_registry w)\<rparr>\<rparr>\<rparr>)"

definition in_merc_match :: "int \<Rightarrow> ChatWorld \<Rightarrow> bool" where
  "in_merc_match iid w =
     (case GetInstanceById iid (chat_registry w) of
        None \<Rightarrow> False
      | Some inst \<Rightarrow> ii_queue_id inst \<noteq> 0 \<and>
          (case GetQueueConfig (ii_queue_id inst) (ts_world (cw_team w)) of
             None \<Rightarrow> False | Some cfg \<Rightarrow> qc_name cfg = ''merc''))"

definition DispatchChangeTeam :: "nat \<Rightarrow> ChangeTeamTarget \<Rightarrow> guid \<Rightarrow> ChatWorld \<Rightarrow> ChatWorld chat_run" where
  "DispatchChangeTeam n target g w =
     (if g = [] then Done w
      else (case GetInstancePlayerTaskForce g (chat_registry w) of
              None \<Rightarrow> Done w
            | Some (iid, old_tf) \<Rightarrow>
                if in_merc_match iid w
                then in_hall (SystemMessageToGuid n g ''*** -changeteam is disabled in Mercenary matches ***'') w
                else (let new_tf = (case target of Toggle \<Rightarrow> if old_tf = 1 then 2 else 1 | Attackers \<Rightarrow> 1 | Defenders \<Rightarrow> 2)
                      in if new_tf = old_tf then Done w else Done (DispatchTeamMove iid g new_tf False w))))"

definition class_index :: "u32 \<Rightarrow> nat option" where
  "class_index profile_id =
     (if profile_id = 680 then Some 0 else if profile_id = 567 then Some 1
      else if profile_id = 681 then Some 2 else if profile_id = 679 then Some 3 else None)"

definition class_line :: "string \<Rightarrow> ActivePlayerRow list \<Rightarrow> string" where
  "class_line label rows =
     (let cnt = (\<lambda>k. to_string (length (filter (\<lambda>r. class_index (ap_profile_id r) = Some k) rows)))
      in label @ cnt 0 @ ''/'' @ cnt 1 @ ''/'' @ cnt 2 @ ''/'' @ cnt 3)"

definition ExecuteClassCounts :: "nat \<Rightarrow> ChatEnv \<Rightarrow> guid \<Rightarrow> ChatWorld \<Rightarrow> ChatWorld chat_run" where
  "ExecuteClassCounts n ev g w =
     (if g = [] then Done w
      else (case GetInstancePlayerTaskForce g (chat_registry w) of
              None \<Rightarrow> in_hall (SystemMessageToGuid n g ''*** You are not in an instance ***'') w
            | Some (iid, own_tf) \<Rightarrow>
                (let rows = GetActivePlayersForInstance (ce_characters ev) iid (chat_registry w)
                 in run_bind (in_hall (SystemMessageToGuid n g (class_line ''Your team: ''
                        (filter (\<lambda>r. ap_task_force r = own_tf) rows))) w)
                      (in_hall (SystemMessageToGuid n g (class_line ''Enemy team: ''
                        (filter (\<lambda>r. ap_task_force r \<noteq> own_tf) rows)))))))"

definition announce :: "nat \<Rightarrow> ChatEnv \<Rightarrow> nat \<Rightarrow> string \<Rightarrow> ChatHall \<Rightarrow> ChatHall chat_run" where
  "announce n ev i txt h =
     (case map_of (ch_peers h) i of
        None \<Rightarrow> Done h
      | Some p \<Rightarrow>
          if \<not> IsAnnouncer ev p then deliver n (BuildChatFrame kSystemChannelId ''*** You are not permitted to use -announce ***'') i h
          else for_each_peer (deliver_with (TearDown n) (BuildChatFrame kAnnounceChannelId txt)) (PruneExpiredSessions h))"

subsection \<open>Preferences, packs, queues\<close>

definition with_world :: "World option \<Rightarrow> ChatWorld \<Rightarrow> ChatWorld chat_run" where
  "with_world r w = (case r of None \<Rightarrow> OutOfFuel | Some mw \<Rightarrow> Done (w\<lparr>cw_team := (cw_team w)\<lparr>ts_world := mw\<rparr>\<rparr>))"

definition GetUserPreference :: "int \<Rightarrow> string \<Rightarrow> ChatWorld \<Rightarrow> string" where
  "GetUserPreference user_id key w =
     (if user_id \<le> 0 then [] else (case map_of (cw_preferences w) (user_id, key) of None \<Rightarrow> [] | Some v \<Rightarrow> v))"

definition SetUserPreference :: "int \<Rightarrow> string \<Rightarrow> string \<Rightarrow> ChatWorld \<Rightarrow> ChatWorld" where
  "SetUserPreference user_id key v w =
     (if user_id \<le> 0 then w else w\<lparr>cw_preferences := umap_put (user_id, key) v (cw_preferences w)\<rparr>)"

definition user_of :: "ChatEnv \<Rightarrow> guid \<Rightarrow> int" where
  "user_of ev g = (case ce_session ev g of None \<Rightarrow> 0 | Some info \<Rightarrow> se_user_id info)"

definition ExecuteToggleSoloMode :: "nat \<Rightarrow> ChatEnv \<Rightarrow> int \<Rightarrow> guid \<Rightarrow> ChatWorld \<Rightarrow> ChatWorld chat_run" where
  "ExecuteToggleSoloMode n ev mode g w =
     (if g = [] \<or> user_of ev g \<le> 0 then Done w
      else (let user_id = user_of ev g;
                enable = (if mode = - 1 then GetUserPreference user_id ''solo_mode'' w \<noteq> ''1'' else mode = 1);
                w1 = SetUserPreference user_id ''solo_mode'' (if enable then ''1'' else ''0'') w
            in run_bind (with_world (SetSoloLockForQueuedPlayer n (ce_match ev) g enable (ts_world (cw_team w1))) w1)
                 (in_hall (SystemMessageToGuid n g
                    (if enable then ''*** Solo mode enabled - missions you enter will be locked to you. Type -togglesolomode to turn it off. ***''
                     else ''*** Solo mode disabled. ***'')))))"

definition GetInstalledDlcIds :: "int \<Rightarrow> ChatWorld \<Rightarrow> int list" where
  "GetInstalledDlcIds user_id w =
     (if user_id \<le> 0 then [] else map (snd \<circ> fst) (filter (\<lambda>((u, _), b). u = user_id \<and> b) (cw_user_dlc w)))"

definition SetUserDlc :: "ChatEnv \<Rightarrow> int \<Rightarrow> string \<Rightarrow> bool \<Rightarrow> ChatWorld \<Rightarrow> bool \<times> ChatWorld" where
  "SetUserDlc ev user_id identifier installed w =
     (if user_id \<le> 0 \<or> identifier = [] then (False, w)
      else (case find (\<lambda>c. dr_identifier c = identifier) (ce_dlc_catalog ev) of
              None \<Rightarrow> (False, w)
            | Some c \<Rightarrow> if dr_dlc_id c = 0 then (False, w)
                       else (True, w\<lparr>cw_user_dlc := umap_put (user_id, dr_dlc_id c) installed (cw_user_dlc w)\<rparr>)))"

fun comma_list :: "string list \<Rightarrow> string" where
  "comma_list [] = []"
| "comma_list [x] = x"
| "comma_list (x # y # xs) = x @ '', '' @ comma_list (y # xs)"

definition list_catalog :: "ChatEnv \<Rightarrow> int \<Rightarrow> string \<Rightarrow> ChatWorld \<Rightarrow> string" where
  "list_catalog ev user_id lead w =
     (if ce_dlc_catalog ev = [] then lead @ '' (no DLC packs configured on this server)''
      else lead @ comma_list (map (\<lambda>c. dr_identifier c @
             (if dr_dlc_id c \<in> set (GetInstalledDlcIds user_id w) then '' (enabled)'' else [])) (ce_dlc_catalog ev)))
       @ '' ***''"

definition ExecuteSetDlc :: "nat \<Rightarrow> ChatEnv \<Rightarrow> SetDlcArgs \<Rightarrow> guid \<Rightarrow> ChatWorld \<Rightarrow> ChatWorld chat_run" where
  "ExecuteSetDlc n ev args g w =
     (if g = [] \<or> user_of ev g \<le> 0 then Done w
      else (let user_id = user_of ev g; ident = sd_identifier args
            in if ident = []
               then in_hall (SystemMessageToGuid n g (list_catalog ev user_id
                      ''*** Usage: -enabledlc <identifier> / -disabledlc <identifier>. Available:'' w)) w
               else (case find (\<lambda>c. dr_identifier c = ident) (ce_dlc_catalog ev) of
                       None \<Rightarrow> in_hall (SystemMessageToGuid n g (list_catalog ev user_id
                                 (''*** Unknown DLC '' @ [CHR 0x27] @ ident @ [CHR 0x27] @ ''. Available:'') w)) w
                     | Some row \<Rightarrow>
                         (let (ok, w1) = SetUserDlc ev user_id ident (sd_installed args) w
                          in if \<not> ok
                             then in_hall (SystemMessageToGuid n g (list_catalog ev user_id
                                    (''*** Unknown DLC '' @ [CHR 0x27] @ ident @ [CHR 0x27] @ ''. Available:'') w1)) w1
                             else in_hall (SystemMessageToGuid n g
                                    (if sd_installed args
                                     then ''*** DLC '' @ [CHR 0x27] @ dr_name row @ [CHR 0x27] @ '' enabled - its queues will appear in your queue list. Make sure the map files are actually installed (launcher DLC section), or those maps will fail to load. Type -disabledlc ''
                                            @ dr_identifier row @ '' to turn it off. ***''
                                     else ''*** DLC '' @ [CHR 0x27] @ dr_name row @ [CHR 0x27] @ '' disabled - its queues will be hidden again. ***'')) w1))))"

subsection \<open>Spectators\<close>

definition int_string :: "int \<Rightarrow> string" where
  "int_string i = (if i < 0 then CHR ''-'' # to_string (nat (- i)) else to_string (nat i))"

text \<open>What \<open>DeliverSpectateJoin\<close> and \<open>DeliverSpectateExit\<close> answer and hand to the main connection.\<close>

definition SpectateJoinAnswer :: "ChatEnv \<Rightarrow> guid \<Rightarrow> int \<Rightarrow> int \<Rightarrow> ChatWorld \<Rightarrow> string \<times> ChatWorld" where
  "SpectateJoinAnswer ev g iid tf w =
     (case GetInstanceById iid (chat_registry w) of
        None \<Rightarrow> (''That instance is not available to spectate.'', w)
      | Some target \<Rightarrow>
          if ii_state target \<noteq> READY \<or> ii_is_home_map target then (''That instance is not available to spectate.'', w)
          else if \<not> ce_connected ev g then (''Your session was not found.'', w)
          else (''Connecting you to instance '' @ int_string iid @ '' as a spectator''
                  @ (if tf = 1 then '' (attackers)'' else if tf = 2 then '' (defenders)'' else []) @ ''...'',
                act (RegisterForSpectate g iid tf) w))"

definition SpectateExitAnswer :: "ChatEnv \<Rightarrow> guid \<Rightarrow> ChatWorld \<Rightarrow> string \<times> ChatWorld" where
  "SpectateExitAnswer ev g w =
     (if \<not> ce_connected ev g then (''Your session was not found.'', w)
      else if \<not> ce_spectating ev g then (''You'' @ [CHR 0x27] @ ''re not currently spectating.'', w)
      else (''Leaving spectator mode, returning you to the home map...'', act (ExitSpectate g) w))"

definition spectate_line :: "Registry \<Rightarrow> InstanceInfo \<Rightarrow> string" where
  "spectate_line rg inst =
     ''  ['' @ int_string (ii_instance_id inst) @ ''] '' @ ii_map_name inst @ '' ('' @ ii_game_mode inst @ '') players=''
       @ to_string (GetActivePlayerCount (ii_instance_id inst) rg) @ ''/'' @ int_string (ii_max_players inst)"

fun deliver_lines :: "nat \<Rightarrow> string list \<Rightarrow> nat \<Rightarrow> ChatHall \<Rightarrow> ChatHall chat_run" where
  "deliver_lines n [] i h = Done h"
| "deliver_lines n (l # ls) i h = run_bind (deliver n (BuildChatFrame kSystemChannelId l) i h) (deliver_lines n ls i)"

definition spectate_list :: "Registry \<Rightarrow> string list" where
  "spectate_list rg =
     (case filter (\<lambda>inst. \<not> ii_is_home_map inst \<and> ii_state inst = READY) (GetAllRunningInstances rg) of
        [] \<Rightarrow> [''No running instances available to spectate right now.'']
      | insts \<Rightarrow> ''Instances available to spectate (join with -spectate <id>):'' # map (spectate_line rg) insts)"

definition HandleSpectateCommand :: "nat \<Rightarrow> ChatEnv \<Rightarrow> nat \<Rightarrow> guid \<Rightarrow> SpectateArgs \<Rightarrow> ChatWorld \<Rightarrow> ChatWorld chat_run" where
  "HandleSpectateCommand n ev i g args w =
     (if user_of ev g \<le> 0 \<or> \<not> ce_has_role ev (user_of ev g) ''spectator''
      then in_hall (deliver_lines n [''You don'' @ [CHR 0x27] @ ''t have permission to use spectator mode.''] i) w
      else if sp_instance_id args = 0 then in_hall (deliver_lines n (spectate_list (chat_registry w)) i) w
      else (let tf = (case sp_team args of SpectateAttackers \<Rightarrow> 1 | SpectateDefenders \<Rightarrow> 2 | NoTeam \<Rightarrow> 0);
                (message, w1) = SpectateJoinAnswer ev g (sp_instance_id args) tf w
            in in_hall (deliver_lines n [message] i) w1))"

definition HandleUnspectateCommand :: "nat \<Rightarrow> ChatEnv \<Rightarrow> nat \<Rightarrow> guid \<Rightarrow> ChatWorld \<Rightarrow> ChatWorld chat_run" where
  "HandleUnspectateCommand n ev i g w =
     (let (message, w1) = SpectateExitAnswer ev g w in in_hall (deliver_lines n [message] i) w1)"

subsection \<open>The actions of a packet\<close>

text \<open>The actions of \<open>handle_packet\<close> on a parsed command, in its order; at most one is set.\<close>

definition on_some :: "'a option \<Rightarrow> ('a \<Rightarrow> ChatWorld \<Rightarrow> ChatWorld) \<Rightarrow> ChatWorld \<Rightarrow> ChatWorld" where
  "on_some x f w = (case x of None \<Rightarrow> w | Some a \<Rightarrow> f a w)"

definition body_actions :: "guid \<Rightarrow> ParseResult \<Rightarrow> ChatWorld \<Rightarrow> ChatWorld" where
  "body_actions g r w =
     (let w1 = on_some (pr_spawn_target r) (\<lambda>a. act_for g (SpawnTarget g a)) w;
          w2 = on_some (pr_deploy_target r) (\<lambda>a. act_for g (DeployTarget g a)) w1;
          w3 = (if pr_possess r then act_for g (SimpleAction g ''possess'') w2 else w2);
          w4 = (if pr_unpossess r then act_for g (SimpleAction g ''unpossess'') w3 else w3);
          w5 = (if pr_coords r then act_for g (SimpleAction g ''coords'') w4 else w4)
      in if pr_fullheal r then act_for g (SimpleAction g ''fullheal'') w5 else w5)"

definition view_actions :: "guid \<Rightarrow> ParseResult \<Rightarrow> ChatWorld \<Rightarrow> ChatWorld" where
  "view_actions g r w =
     (let w1 = on_some (pr_topdown r) (\<lambda>z. act_for g (TopDown g z)) w;
          w2 = on_some (pr_markers r) (\<lambda>a. act_for g (Markers g a)) w1;
          w3 = on_some (pr_fx_browse r) (\<lambda>a. act_for g (FxBrowse g a)) w2
      in on_some (pr_set_spawn_table r) (\<lambda>a. act_for g (SetSpawnTable g a)) w3)"

definition then_some :: "'a option \<Rightarrow> ('a \<Rightarrow> ChatWorld \<Rightarrow> ChatWorld chat_run) \<Rightarrow> ChatWorld \<Rightarrow> ChatWorld chat_run" where
  "then_some x f w = (case x of None \<Rightarrow> Done w | Some a \<Rightarrow> f a w)"

definition then_if :: "bool \<Rightarrow> (ChatWorld \<Rightarrow> ChatWorld chat_run) \<Rightarrow> ChatWorld \<Rightarrow> ChatWorld chat_run" where
  "then_if b f w = (if b then f w else Done w)"

primrec in_turn :: "(ChatWorld \<Rightarrow> ChatWorld chat_run) list \<Rightarrow> ChatWorld \<Rightarrow> ChatWorld chat_run" where
  "in_turn [] w = Done w"
| "in_turn (f # fs) w = run_bind (f w) (in_turn fs)"

definition command_steps :: "nat \<Rightarrow> ChatEnv \<Rightarrow> nat \<Rightarrow> guid \<Rightarrow> ParseResult \<Rightarrow> (ChatWorld \<Rightarrow> ChatWorld chat_run) list" where
  "command_steps n ev i g r =
     [then_some (pr_change_team r) (\<lambda>t. DispatchChangeTeam n t g),
      (\<lambda>w. Done (body_actions g r w)),
      then_if (pr_class_counts r) (ExecuteClassCounts n ev g),
      (\<lambda>w. Done (view_actions g r w)),
      then_some (pr_spectate r) (HandleSpectateCommand n ev i g),
      then_if (pr_unspectate r) (HandleUnspectateCommand n ev i g),
      (\<lambda>w. Done (on_some (pr_toggle_broken_suits r) (\<lambda>a. act_for g (ToggleSuits g a)) w)),
      then_some (pr_toggle_solo_mode r) (\<lambda>m. ExecuteToggleSoloMode n ev m g),
      then_some (pr_set_dlc r) (\<lambda>a. ExecuteSetDlc n ev a g),
      then_some (pr_announce r) (\<lambda>line. in_hall (announce n ev i line)),
      then_if (pr_reload_queues r)
        (\<lambda>w. with_world (ReloadQueues n (ce_match ev) (ce_queue_configs ev) (ts_world (cw_team w))) w)]"

definition run_command :: "nat \<Rightarrow> ChatEnv \<Rightarrow> nat \<Rightarrow> guid \<Rightarrow> ParseResult \<Rightarrow> ChatWorld \<Rightarrow> ChatWorld chat_run" where
  "run_command n ev i g r w = in_turn (command_steps n ev i g r) w"

section \<open>Packets\<close>

definition hex_digit :: "nat \<Rightarrow> char" where
  "hex_digit d = char_of (if d < 10 then 48 + d else 87 + d)"

definition guid_hex :: "bytes \<Rightarrow> guid" where
  "guid_hex bs = concat (map (\<lambda>b. [hex_digit (unat b div 16), hex_digit (unat b mod 16)]) bs)"

definition whisper :: "nat \<Rightarrow> ChatEnv \<Rightarrow> nat \<Rightarrow> string \<Rightarrow> string \<Rightarrow> ChatHall \<Rightarrow> ChatHall chat_run" where
  "whisper n ev i recipient txt h =
     (case map_of (ch_peers h) i of
        None \<Rightarrow> Done h
      | Some me \<Rightarrow>
          if NamesEqualCi recipient (cp_name me)
          then deliver n (BuildChatFrame kSystemChannelId ''*** You cannot whisper yourself ***'') i h
          else (let h1 = PruneExpiredSessions h
                in case find (\<lambda>j. case map_of (ch_peers h1) j of None \<Rightarrow> False | Some p \<Rightarrow> NamesEqualCi (cp_name p) recipient) (ch_order h1) of
                     None \<Rightarrow> deliver n (BuildChatFrame kSystemChannelId (''*** '' @ recipient @ '' is not online ***'')) i h1
                   | Some j \<Rightarrow>
                       (let (ignoring, p1) = is_ignoring ev (cp_name me) (the (map_of (ch_peers h1) j));
                            h2 = set_peer j p1 h1
                        in if ignoring
                           then deliver n (BuildChatFrame kSystemChannelId (''*** '' @ cp_name p1 @ '' is ignoring you ***'')) i h2
                           else run_bind (deliver n (makeWhisperFrame (cp_name me) txt (cp_name me)) j h2)
                                  (deliver n (makeWhisperFrame (cp_name me) txt (cp_name p1)) i))))"

definition broadcast :: "nat \<Rightarrow> ChatEnv \<Rightarrow> nat \<Rightarrow> bytes \<Rightarrow> ChatWorld \<Rightarrow> ChatWorld chat_run" where
  "broadcast n ev i pkt w =
     (case map_of (ch_peers (cw_hall w)) i of
        None \<Rightarrow> Done w
      | Some me \<Rightarrow>
          (let channel = (case Read4B pkt 0x00BE of Got c \<Rightarrow> c | _ \<Rightarrow> kCityChannelId);
               txt = text_of (ReadString pkt 0x0355)
           in if channel = kWhisperChannelId then in_hall (whisper n ev i (text_of (ReadString pkt 0x03C5)) txt) w
              else in_hall (SendOnChannel n ev (cw_team w) i channel (cp_name me @ '': '' @ txt)) w))"

definition handshake :: "nat \<Rightarrow> ChatEnv \<Rightarrow> nat \<Rightarrow> bytes \<Rightarrow> ChatHall \<Rightarrow> ChatHall chat_run" where
  "handshake n ev i data h =
     (case map_of (ch_peers h) i of
        None \<Rightarrow> Done h
      | Some p \<Rightarrow>
          run_bind (BindPlayerFromRegistry n ev i
              (set_peer i (p\<lparr>cp_guid := guid_hex (take 16 (drop 8 data)), cp_retries := 0\<rparr>) h))
            (\<lambda>(ok, h1). Done (if ok then h1 else snd (ScheduleBindRetry i h1))))"

definition handle_packet :: "nat \<Rightarrow> ChatEnv \<Rightarrow> nat \<Rightarrow> bytes \<Rightarrow> ChatWorld \<Rightarrow> ChatWorld chat_run" where
  "handle_packet n ev i data w =
     (if length data < 6 \<or> le16_at (drop 2 data) \<noteq> 0x0073 then Done w
      else if length data \<ge> 8 \<and> le16_at (drop 6 data) = 0x0473 then
        (if length data \<ge> 8 + 16 then in_hall (handshake n ev i data) w else Done w)
      else run_bind
        (case map_of (ch_peers (cw_hall w)) i of
           Some p \<Rightarrow> if cp_name p = [] \<and> cp_guid p \<noteq> []
                     then in_hall (\<lambda>h. run_bind (BindPlayerFromRegistry n ev i h) (\<lambda>(_, h'). Done h')) w else Done w
         | None \<Rightarrow> Done w)
        (\<lambda>w1. case map_of (ch_peers (cw_hall w1)) i of
           None \<Rightarrow> Done w1
         | Some me \<Rightarrow>
             if cp_name me = [] then Done w1
             else (let parsed = TryParseChatCommand (text_of (ReadString (drop 6 data) 0x0355))
                   in run_bind (if pr_recognized parsed then run_command n ev i (cp_guid me) parsed w1 else Done w1)
                        (\<lambda>w2. if pr_suppress_broadcast parsed then Done w2 else broadcast n ev i (drop 6 data) w2))))"

end
