(* ===== verification/ChatGuarantees.thy ===== *)
theory ChatGuarantees
  imports ChatRooms TeamInvariants
begin

text \<open>
  What the chat delivers to whom: \<open>changed\<close> and \<open>visit_simple\<close> describe a loop in which nobody is
  torn down, \<open>shrinks\<close> and \<open>visit_full\<close> one in which somebody is.
\<close>

section \<open>Loops that only touch the visited session\<close>

definition changed :: "nat \<Rightarrow> ChatPeer \<Rightarrow> ChatHall \<Rightarrow> ChatHall \<Rightarrow> bool" where
  "changed i p h h' \<longleftrightarrow> ch_order h' = ch_order h
     \<and> map_of (ch_peers h') = (map_of (ch_peers h))(i \<mapsto> p)"

lemma changed_set_peer [simp]: "changed i p h (set_peer i p h)"
  by (simp add: changed_def set_peer_def update_conv' fun_eq_iff)

lemma changed_refl: "map_of (ch_peers h) i = Some p \<Longrightarrow> changed i p h h"
  by (auto simp: changed_def)

lemma changed_again: "changed i p h h' \<Longrightarrow> changed i q h' h'' \<Longrightarrow> changed i q h h''"
  by (simp add: changed_def)

lemma set_peer_simps [simp]:
  "ch_order (set_peer i p h) = ch_order h"
  "map_of (ch_peers (set_peer i p h)) = (map_of (ch_peers h))(i \<mapsto> p)"
  by (simp_all add: set_peer_def update_conv')

lemma visit_append: "visit body (ks @ ls) h = run_bind (visit body ks h) (visit body ls)"
proof (induction ks arbitrary: h)
  case (Cons k ks)
  show ?case
  proof (cases "map_of (ch_peers h) (ch_order h ! k)")
    case (Some p)
    then show ?thesis using Cons.IH by (cases "body (ch_order h ! k) p h") auto
  qed (simp add: Cons.IH)
qed simp

lemma visit_simple:
  assumes d: "distinct (ch_order h)" and "k \<le> m" "m \<le> length (ch_order h)"
    and body: "\<And>i p h. Q i p \<Longrightarrow> map_of (ch_peers h) i = Some p \<Longrightarrow> \<exists>h'. body i p h = Done h' \<and> changed i (f i p) h h'"
    and Q: "\<And>i p. i \<in> set (drop k (take m (ch_order h))) \<Longrightarrow> map_of (ch_peers h) i = Some p \<Longrightarrow> Q i p"
  shows "\<exists>h'. visit body [k..<m] h = Done h' \<and> ch_order h' = ch_order h
    \<and> (\<forall>j. map_of (ch_peers h') j = (if j \<in> set (drop k (take m (ch_order h)))
          then map_option (f j) (map_of (ch_peers h) j) else map_of (ch_peers h) j))"
  using assms(2,3) d Q
proof (induction "m - k" arbitrary: k h)
  case (Suc x)
  let ?i = "ch_order h ! k"
  from Suc(2-4) have k: "k < m" "k < length (ch_order h)" by simp_all
  then have split: "drop k (take m (ch_order h)) = ?i # drop (Suc k) (take m (ch_order h))"
    by (metis Cons_nth_drop_Suc length_take min_less_iff_conj nth_take)
  have fresh: "?i \<notin> set (drop (Suc k) (take m (ch_order h)))"
  proof -
    have "distinct (drop k (take m (ch_order h)))" using Suc.prems(3) by simp
    then show ?thesis unfolding split by simp
  qed
  have upt: "[k..<m] = k # [Suc k..<m]" using k(1) by (rule upt_conv_Cons)
  show ?case
  proof (cases "map_of (ch_peers h) ?i")
    case None
    have "\<exists>h'. visit body [Suc k..<m] h = Done h' \<and> ch_order h' = ch_order h
        \<and> (\<forall>j. map_of (ch_peers h') j = (if j \<in> set (drop (Suc k) (take m (ch_order h)))
              then map_option (f j) (map_of (ch_peers h) j) else map_of (ch_peers h) j))"
      by (rule Suc.hyps(1)) (use Suc k split in auto)
    then show ?thesis using None k unfolding upt split by auto
  next
    case (Some p)
    have "Q ?i p" by (rule Suc.prems(4)) (simp_all add: split Some)
    from body [OF this Some] obtain h1 where h1: "body ?i p h = Done h1" "changed ?i (f ?i p) h h1" by blast
    then have o: "ch_order h1 = ch_order h" and m: "map_of (ch_peers h1) = (map_of (ch_peers h))(?i \<mapsto> f ?i p)"
      by (simp_all add: changed_def)
    have "\<exists>h'. visit body [Suc k..<m] h1 = Done h' \<and> ch_order h' = ch_order h1
        \<and> (\<forall>j. map_of (ch_peers h') j = (if j \<in> set (drop (Suc k) (take m (ch_order h1)))
              then map_option (f j) (map_of (ch_peers h1) j) else map_of (ch_peers h1) j))"
    proof (rule Suc.hyps(1))
      fix j q assume j: "j \<in> set (drop (Suc k) (take m (ch_order h1)))" "map_of (ch_peers h1) j = Some q"
      then have "j \<noteq> ?i" using fresh o by auto
      with j have "map_of (ch_peers h) j = Some q" by (simp add: m)
      with j(1) show "Q j q" by (intro Suc.prems(4)) (simp_all add: split o)
    qed (use Suc k o in auto)
    then show ?thesis using Some h1(1) k fresh unfolding upt split by (auto simp: o m)
  qed
qed simp

definition roomy :: "ChatPeer \<Rightarrow> bool" where
  "roomy p \<longleftrightarrow> cp_closed p \<or> length (cp_queue p) < kMaxWriteQueueDepth"

definition said :: "bytes \<Rightarrow> ChatPeer \<Rightarrow> ChatPeer" where
  "said frame p = (if cp_closed p then p else p\<lparr>cp_queue := cp_queue p @ [frame]\<rparr>)"

lemma deliver_roomy:
  assumes "roomy p" "map_of (ch_peers h) i = Some p"
  shows "\<exists>h'. deliver_with td frame i p h = Done h' \<and> changed i (said frame p) h h'"
  using assms by (auto simp: deliver_with_def roomy_def said_def changed_refl)

definition queue_of :: "ChatHall \<Rightarrow> nat \<Rightarrow> bytes list" where
  "queue_of h i = (case map_of (ch_peers h) i of None \<Rightarrow> [] | Some p \<Rightarrow> cp_queue p)"

lemma deliver_to_roomy:
  assumes "map_of (ch_peers h) i = Some p" "roomy p"
  shows "\<exists>h'. deliver n frame i h = Done h' \<and> changed i (said frame p) h h'"
  using deliver_roomy [OF assms(2,1)] by (simp add: deliver_def assms(1))

section \<open>A line reaches its scope\<close>

definition hears :: "guid list option \<Rightarrow> ChatPeer \<Rightarrow> bool" where
  "hears rs p \<longleftrightarrow> (case rs of None \<Rightarrow> True | Some gs \<Rightarrow> cp_guid p \<in> set gs)"

definition spoken :: "ChatEnv \<Rightarrow> guid list option \<Rightarrow> string \<Rightarrow> bytes \<Rightarrow> nat \<Rightarrow> nat \<Rightarrow> ChatPeer \<Rightarrow> ChatPeer" where
  "spoken ev rs name frame self i p =
     (if \<not> hears rs p then p
      else if i = self then said frame p
      else (case is_ignoring ev name p of (ignoring, p1) \<Rightarrow> if ignoring then p1 else said frame p1))"

lemma is_ignoring_keeps:
  "is_ignoring ev name p = (b, p1) \<Longrightarrow> cp_closed p1 = cp_closed p \<and> cp_queue p1 = cp_queue p \<and> cp_guid p1 = cp_guid p \<and> cp_name p1 = cp_name p"
  by (auto simp: is_ignoring_def Let_def split: if_splits)

lemma say_to_roomy:
  assumes "roomy p" "map_of (ch_peers h) i = Some p"
  shows "\<exists>h'. say_to n ev rs name frame self i p h = Done h' \<and> changed i (spoken ev rs name frame self i p) h h'"
proof (cases "hears rs p \<and> i \<noteq> self")
  case False
  then show ?thesis
    using deliver_roomy [OF assms, of "TearDown n" frame] assms(2)
    by (auto simp: say_to_def spoken_def hears_def changed_refl split: option.splits)
next
  case True
  obtain b p1 where b: "is_ignoring ev name p = (b, p1)" by (cases "is_ignoring ev name p")
  let ?h1 = "set_peer i p1 h"
  have r: "roomy p1" using is_ignoring_keeps [OF b] assms(1) by (simp add: roomy_def)
  have l: "map_of (ch_peers ?h1) i = Some p1" by simp
  from deliver_roomy [OF r l, of "TearDown n" frame] obtain h' where
    "deliver_with (TearDown n) frame i p1 ?h1 = Done h'" "changed i (said frame p1) ?h1 h'" by blast
  moreover from this(2) have "changed i (said frame p1) h h'" by (rule changed_again [OF changed_set_peer])
  ultimately show ?thesis
    using True b by (auto simp: say_to_def spoken_def hears_def Let_def split: option.splits)
qed

lemma spoken_queue:
  "cp_queue (spoken ev rs name frame self i p) = cp_queue p @
     (if \<not> cp_closed p \<and> hears rs p \<and> (i = self \<or> \<not> fst (is_ignoring ev name p)) then [frame] else [])"
proof -
  obtain b p1 where b: "is_ignoring ev name p = (b, p1)" by (cases "is_ignoring ev name p")
  show ?thesis using is_ignoring_keeps [OF b] by (simp add: spoken_def said_def b)
qed

lemma Recipients_hall:
  "snd (RecipientsFor ev tw h ch g) = h \<or> snd (RecipientsFor ev tw h ch g) = PruneExpiredSessions h"
  by (auto simp: RecipientsFor_def Let_def split: option.splits prod.splits)

lemma Prune_simps [simp]:
  "ch_peers (PruneExpiredSessions h) = ch_peers h"
  "PruneExpiredSessions (PruneExpiredSessions h) = PruneExpiredSessions h"
  "set (ch_order (PruneExpiredSessions h)) = {i \<in> set (ch_order h). map_of (ch_peers h) i \<noteq> None}"
  "distinct (ch_order h) \<Longrightarrow> distinct (ch_order (PruneExpiredSessions h))"
  by (simp_all add: PruneExpiredSessions_def)

lemma SendOnChannel_roomy:
  assumes me: "map_of (ch_peers h) i = Some me" and d: "distinct (ch_order h)"
    and r: "\<forall>j\<in>set (ch_order h). pred_option roomy (map_of (ch_peers h) j)"
    and rs: "fst (RecipientsFor ev tw h ch (cp_guid me)) = rs" "rs \<noteq> Some []"
  shows "\<exists>h'. SendOnChannel n ev tw i ch msg h = Done h'
    \<and> ch_order h' = ch_order (PruneExpiredSessions h)
    \<and> (\<forall>j. map_of (ch_peers h') j = (if j \<in> set (ch_order h)
          then map_option (spoken ev rs (cp_name me) (BuildChatFrame ch msg) i j) (map_of (ch_peers h) j)
          else map_of (ch_peers h) j))"
proof -
  let ?h = "PruneExpiredSessions h"
  let ?body = "say_to n ev rs (cp_name me) (BuildChatFrame ch msg) i"
  obtain h1 where h1: "RecipientsFor ev tw h ch (cp_guid me) = (rs, h1)" "PruneExpiredSessions h1 = ?h"
    using rs(1) Recipients_hall [of ev tw h ch "cp_guid me"] by (metis Prune_simps(2) prod.collapse)
  have "\<exists>h'. visit ?body [0..<length (ch_order ?h)] ?h = Done h' \<and> ch_order h' = ch_order ?h
      \<and> (\<forall>j. map_of (ch_peers h') j = (if j \<in> set (drop 0 (take (length (ch_order ?h)) (ch_order ?h)))
            then map_option (spoken ev rs (cp_name me) (BuildChatFrame ch msg) i j) (map_of (ch_peers ?h) j)
            else map_of (ch_peers ?h) j))"
  proof (rule visit_simple [where Q = "\<lambda>i p. roomy p"])
    fix j p assume "j \<in> set (drop 0 (take (length (ch_order ?h)) (ch_order ?h)))" "map_of (ch_peers ?h) j = Some p"
    then have "j \<in> set (ch_order h)" "map_of (ch_peers h) j = Some p" by simp_all
    with r show "roomy p" by (metis option.pred_inject(2))
  qed (simp_all add: d say_to_roomy)
  moreover have "SendOnChannel n ev tw i ch msg h = visit ?body [0..<length (ch_order ?h)] ?h"
    using rs(2) by (simp add: SendOnChannel_def me h1 for_each_peer_def)
  ultimately obtain h' where h': "SendOnChannel n ev tw i ch msg h = Done h'" "ch_order h' = ch_order ?h"
    and m: "map_of (ch_peers h') j = (if j \<in> set (ch_order ?h)
        then map_option (spoken ev rs (cp_name me) (BuildChatFrame ch msg) i j) (map_of (ch_peers h) j)
        else map_of (ch_peers h) j)" for j by auto
  have "map_of (ch_peers h') j = (if j \<in> set (ch_order h)
        then map_option (spoken ev rs (cp_name me) (BuildChatFrame ch msg) i j) (map_of (ch_peers h) j)
        else map_of (ch_peers h) j)" for j
    unfolding m by (cases "map_of (ch_peers h) j") auto
  with h' show ?thesis by blast
qed


text \<open>
  The audience of a channel, as the comments of the code describe it: the team, the agency, the
  alliance, the instance, the side of the instance, or everybody.
\<close>

definition in_instance_with :: "Registry \<Rightarrow> bool \<Rightarrow> guid \<Rightarrow> guid \<Rightarrow> bool" where
  "in_instance_with rg same_side s g \<longleftrightarrow>
     (case GetInstancePlayerTaskForce s rg of
        None \<Rightarrow> False
      | Some (iid, tf) \<Rightarrow> g \<noteq> [] \<and>
          list_ex (\<lambda>row. ip_session_guid row = g \<and> ip_instance_id row = iid \<and> ip_left_at row = None
              \<and> (same_side \<and> tf > 0 \<longrightarrow> ip_task_force row = tf)) (rg_players rg))"

definition has_account_in :: "ChatEnv \<Rightarrow> int list \<Rightarrow> guid \<Rightarrow> bool" where
  "has_account_in ev ids g \<longleftrightarrow> g \<noteq> [] \<and> (case ce_session ev g of None \<Rightarrow> False | Some i \<Rightarrow> se_user_id i \<in> set ids)"

definition scope :: "ChatEnv \<Rightarrow> TeamWorld \<Rightarrow> u32 \<Rightarrow> guid \<Rightarrow> guid \<Rightarrow> bool" where
  "scope ev tw ch s g \<longleftrightarrow>
     (if ch = kTeamChannelId then
        (case FindTeamByMember s tw of None \<Rightarrow> False | Some t \<Rightarrow> g \<noteq> [] \<and> g \<in> set (team_guids t))
      else if ch = kAgencyChannelId \<or> ch = kAllianceChannelId then
        (case ce_session ev s of
           None \<Rightarrow> False
         | Some i \<Rightarrow> (let a = ce_agency_of ev (se_user_id i); al = ce_alliance_of ev a
                     in se_user_id i \<noteq> 0 \<and> a \<noteq> 0
                        \<and> (if ch = kAgencyChannelId then has_account_in ev (ce_agency_members ev a) g
                           else al \<noteq> 0 \<and> has_account_in ev (ce_alliance_members ev al) g)))
      else if ch = kInstanceChannelId \<or> ch = kLocalChannelId then
        in_instance_with (w_registry (ts_world tw)) (ch = kLocalChannelId) s g
      else True)"

text \<open>The two queries on memberships agree: who has an agency is listed in it, and in its alliance.\<close>

definition rosters_agree :: "ChatEnv \<Rightarrow> bool" where
  "rosters_agree ev \<longleftrightarrow> (\<forall>u. ce_agency_of ev u \<noteq> 0 \<longrightarrow> u \<in> set (ce_agency_members ev (ce_agency_of ev u))
     \<and> (ce_alliance_of ev (ce_agency_of ev u) \<noteq> 0 \<longrightarrow>
          u \<in> set (ce_alliance_members ev (ce_alliance_of ev (ce_agency_of ev u)))))"

lemma where_found:
  "GetInstancePlayerTaskForce s rg = Some (iid, tf) \<Longrightarrow>
     \<exists>row\<in>set (rg_players rg). ip_session_guid row = s \<and> ip_left_at row = None \<and> ip_instance_id row = iid \<and> ip_task_force row = tf"
proof -
  assume g: "GetInstancePlayerTaskForce s rg = Some (iid, tf)"
  let ?rows = "filter (\<lambda>p. ip_session_guid p = s \<and> ip_left_at p = None) (rg_players rg)"
  from g obtain p ps where "stable_sort newer_row ?rows = p # ps" "iid = ip_instance_id p" "tf = ip_task_force p"
    by (auto simp: GetInstancePlayerTaskForce_def split: list.splits)
  then have "p \<in> set (stable_sort newer_row ?rows)" by simp
  then have "p \<in> set ?rows" by simp
  then show ?thesis using \<open>iid = ip_instance_id p\<close> \<open>tf = ip_task_force p\<close> by auto
qed

lemma set_member_sessions:
  "set (member_sessions ev ids h) = {cp_guid p | i p. i \<in> set (ch_order h) \<and> map_of (ch_peers h) i = Some p \<and> has_account_in ev ids (cp_guid p)}"
  by (auto simp: member_sessions_def has_account_in_def map_filter_def image_iff) blast

lemma Recipients_scope:
  assumes me: "i \<in> set (ch_order h)" "map_of (ch_peers h) i = Some me" "cp_guid me \<noteq> []" and ra: "rosters_agree ev"
  shows "fst (RecipientsFor ev tw h ch (cp_guid me)) = Some [] \<longleftrightarrow> \<not> scope ev tw ch (cp_guid me) (cp_guid me)"
    and "scope ev tw ch (cp_guid me) (cp_guid me) \<Longrightarrow> j \<in> set (ch_order h) \<Longrightarrow> map_of (ch_peers h) j = Some p \<Longrightarrow>
      hears (fst (RecipientsFor ev tw h ch (cp_guid me))) p \<longleftrightarrow> scope ev tw ch (cp_guid me) (cp_guid p)"
proof -
  let ?s = "cp_guid me"
  let ?rs = "fst (RecipientsFor ev tw h ch ?s)"
  let ?goal = "(?rs = Some [] \<longleftrightarrow> \<not> scope ev tw ch ?s ?s)
    \<and> (scope ev tw ch ?s ?s \<longrightarrow> j \<in> set (ch_order h) \<longrightarrow> map_of (ch_peers h) j = Some p \<longrightarrow> (hears ?rs p \<longleftrightarrow> scope ev tw ch ?s (cp_guid p)))"
  have sessions: "member_sessions ev ids (PruneExpiredSessions h) = [] \<longleftrightarrow> \<not> has_account_in ev ids ?s"
    "\<And>j p. j \<in> set (ch_order h) \<Longrightarrow> map_of (ch_peers h) j = Some p \<Longrightarrow>
       cp_guid p \<in> set (member_sessions ev ids (PruneExpiredSessions h)) \<longleftrightarrow> has_account_in ev ids (cp_guid p)"
    if "has_account_in ev ids ?s" for ids
    using that me by (auto simp: set_member_sessions simp flip: set_empty)
  consider (team) "ch = kTeamChannelId" | (agency) "ch = kAgencyChannelId" | (alliance) "ch = kAllianceChannelId"
    | (inst) "ch = kInstanceChannelId \<or> ch = kLocalChannelId"
    | (all) "ch \<notin> {kTeamChannelId, kAgencyChannelId, kAllianceChannelId, kInstanceChannelId, kLocalChannelId}" by blast
  then have ?goal
  proof cases
    case team
    show ?thesis
    proof (cases "FindTeamByMember ?s tw")
      case None
      then show ?thesis using team by (simp add: RecipientsFor_def GetTeamMemberGuids_def scope_def)
    next
      case (Some t)
      then have "?s \<in> set (team_guids t)"
        by (force simp: FindTeamByMember_def find_Some_iff member_of_def team_guids_def list_ex_iff)
      then show ?thesis using team Some me(3)
        by (auto simp: RecipientsFor_def GetTeamMemberGuids_def scope_def hears_def filter_empty_conv)
    qed
  next
    case agency
    then show ?thesis using ra me(3) sessions
      by (auto simp: RecipientsFor_def scope_def hears_def Let_def rosters_agree_def has_account_in_def split: option.splits)
  next
    case alliance
    then show ?thesis using ra me(3) sessions
      by (auto simp: RecipientsFor_def scope_def hears_def Let_def rosters_agree_def has_account_in_def split: option.splits)
  next
    case inst
    show ?thesis
    proof (cases "GetInstancePlayerTaskForce ?s (w_registry (ts_world tw))")
      case None
      then show ?thesis using inst by (auto simp: RecipientsFor_def scope_def in_instance_with_def)
    next
      case (Some w)
      obtain iid tf where w: "w = (iid, tf)" by (cases w)
      from where_found [OF Some [unfolded w]] show ?thesis
        using inst Some w me(3)
        by (auto simp: RecipientsFor_def scope_def in_instance_with_def hears_def Let_def GetActivePlayersForInstance_def
            active_rows_def list_ex_iff filter_empty_conv image_iff)
    qed
  next
    case all
    then show ?thesis by (simp add: RecipientsFor_def scope_def hears_def)
  qed
  then show "?rs = Some [] \<longleftrightarrow> \<not> scope ev tw ch ?s ?s"
    "scope ev tw ch ?s ?s \<Longrightarrow> j \<in> set (ch_order h) \<Longrightarrow> map_of (ch_peers h) j = Some p \<Longrightarrow>
      hears ?rs p \<longleftrightarrow> scope ev tw ch ?s (cp_guid p)" by blast+
qed


definition hall_ready :: "ChatHall \<Rightarrow> bool" where
  "hall_ready h \<longleftrightarrow> distinct (ch_order h) \<and> list_all (\<lambda>j. pred_option roomy (map_of (ch_peers h) j)) (ch_order h)"

definition line_for :: "ChatEnv \<Rightarrow> TeamWorld \<Rightarrow> ChatHall \<Rightarrow> nat \<Rightarrow> ChatPeer \<Rightarrow> u32 \<Rightarrow> string \<Rightarrow> nat \<Rightarrow> bytes list" where
  "line_for ev tw h i me ch msg j =
     (case map_of (ch_peers h) j of
        None \<Rightarrow> []
      | Some p \<Rightarrow>
          if cp_closed p then []
          else if scope ev tw ch (cp_guid me) (cp_guid me)
          then (if scope ev tw ch (cp_guid me) (cp_guid p) \<and> (j = i \<or> \<not> fst (is_ignoring ev (cp_name me) p))
                then [BuildChatFrame ch msg] else [])
          else (if j = i then [BuildChatFrame kSystemChannelId (UnavailableChannelText ch)] else []))"

lemma Send_line:
  assumes me: "i \<in> set (ch_order h)" "map_of (ch_peers h) i = Some me" "cp_guid me \<noteq> []"
    and "hall_ready h" "rosters_agree ev"
  shows "\<exists>h'. SendOnChannel n ev tw i ch msg h = Done h'
    \<and> (\<forall>j. queue_of h' j = queue_of h j @ (if j \<in> set (ch_order h) then line_for ev tw h i me ch msg j else []))"
proof -
  let ?rs = "fst (RecipientsFor ev tw h ch (cp_guid me))"
  have d: "distinct (ch_order h)" and r: "\<forall>j\<in>set (ch_order h). pred_option roomy (map_of (ch_peers h) j)"
    using assms(4) by (simp_all add: hall_ready_def list_all_iff)
  note scope = Recipients_scope [OF me assms(5), of tw ch]
  show ?thesis
  proof (cases "?rs = Some []")
    case False
    then have s: "scope ev tw ch (cp_guid me) (cp_guid me)" using scope(1) by simp
    from SendOnChannel_roomy [OF me(2) d r refl False, of n msg] obtain h' where
      h': "SendOnChannel n ev tw i ch msg h = Done h'" and
      m: "\<And>j. map_of (ch_peers h') j = (if j \<in> set (ch_order h)
          then map_option (spoken ev ?rs (cp_name me) (BuildChatFrame ch msg) i j) (map_of (ch_peers h) j)
          else map_of (ch_peers h) j)" by blast
    have "queue_of h' j = queue_of h j @ (if j \<in> set (ch_order h) then line_for ev tw h i me ch msg j else [])" for j
    proof (cases "map_of (ch_peers h) j")
      case (Some p)
      then show ?thesis using scope(2) [OF s, of j p] s
        by (simp add: queue_of_def m line_for_def spoken_queue)
    qed (simp add: queue_of_def m line_for_def)
    with h' show ?thesis by blast
  next
    case True
    then have s: "\<not> scope ev tw ch (cp_guid me) (cp_guid me)" using scope(1) by simp
    obtain h1 where h1: "RecipientsFor ev tw h ch (cp_guid me) = (Some [], h1)" "ch_peers h1 = ch_peers h"
      using True Recipients_hall [of ev tw h ch "cp_guid me"] by (metis Prune_simps(1) prod.collapse)
    have "roomy me" using r me by (metis option.pred_inject(2))
    moreover have l: "map_of (ch_peers h1) i = Some me" using me(2) h1(2) by simp
    ultimately obtain h' where h': "deliver n (BuildChatFrame kSystemChannelId (UnavailableChannelText ch)) i h1 = Done h'"
      "changed i (said (BuildChatFrame kSystemChannelId (UnavailableChannelText ch)) me) h1 h'"
      using deliver_to_roomy [OF l] by blast
    have "queue_of h' j = queue_of h j @ (if j \<in> set (ch_order h) then line_for ev tw h i me ch msg j else [])" for j
      using h'(2) me h1(2) s
      by (auto simp: queue_of_def changed_def line_for_def said_def split: option.splits)
    moreover have "SendOnChannel n ev tw i ch msg h = Done h'" using h'(1) by (simp add: SendOnChannel_def me(2) h1(1))
    ultimately show ?thesis by blast
  qed
qed

section \<open>Tearing a session down in the middle of a loop\<close>

definition open_peers :: "ChatHall \<Rightarrow> nat set" where
  "open_peers h = {i. \<exists>p. map_of (ch_peers h) i = Some p \<and> \<not> cp_closed p}"

lemma finite_open [simp]: "finite (open_peers h)"
proof (rule finite_subset)
  show "open_peers h \<subseteq> dom (map_of (ch_peers h))" by (auto simp: open_peers_def)
qed (rule finite_dom_map_of)


text \<open>
  What no call takes back: the list of sessions only loses entries, an open session is not opened
  again, and a session still listed keeps whatever a longer queue does not change.
\<close>

definition steady :: "(ChatPeer \<Rightarrow> bool) \<Rightarrow> bool" where
  "steady P \<longleftrightarrow> (\<forall>p f. P p \<longrightarrow> P (p\<lparr>cp_queue := cp_queue p @ [f]\<rparr>))"

definition holds_at :: "(ChatPeer \<Rightarrow> bool) \<Rightarrow> nat \<Rightarrow> ChatHall \<Rightarrow> bool" where
  "holds_at P j h \<longleftrightarrow> (\<exists>p. map_of (ch_peers h) j = Some p \<and> P p)"

definition lessens :: "(ChatPeer \<Rightarrow> bool) \<Rightarrow> ChatHall \<Rightarrow> ChatHall \<Rightarrow> bool" where
  "lessens P h h' \<longleftrightarrow> subseq (ch_order h') (ch_order h) \<and> open_peers h' \<subseteq> open_peers h
     \<and> (\<forall>j\<in>set (ch_order h'). holds_at P j h \<longrightarrow> holds_at P j h')"

definition shrinks :: "(ChatPeer \<Rightarrow> bool) \<Rightarrow> ChatHall \<Rightarrow> ChatHall chat_run \<Rightarrow> bool" where
  "shrinks P h r \<longleftrightarrow> (case r of Done h' \<Rightarrow> lessens P h h' | _ \<Rightarrow> True)"

lemma shrinks_simps [simp]: "shrinks P h OutOfFuel" "shrinks P h Dangling" "shrinks P h (Done h') \<longleftrightarrow> lessens P h h'"
  by (simp_all add: shrinks_def)

lemma lessens_refl [simp]: "lessens P h h"
  by (simp add: lessens_def)

lemma subseq_member: "subseq xs ys \<Longrightarrow> x \<in> set xs \<Longrightarrow> x \<in> set ys"
  by (auto dest: set_nths_subset [THEN subsetD] simp: subseq_conv_nths)

lemma lessens_trans: "lessens P h h1 \<Longrightarrow> lessens P h1 h2 \<Longrightarrow> lessens P h h2"
  unfolding lessens_def by (meson subseq_order.order_trans subset_trans subseq_member)

lemma shrinks_bind: "shrinks P h r \<Longrightarrow> (\<And>h1. r = Done h1 \<Longrightarrow> shrinks P h1 (f h1)) \<Longrightarrow> shrinks P h (run_bind r f)"
proof (cases r)
  case (Done h1)
  assume "shrinks P h r" "\<And>h1. r = Done h1 \<Longrightarrow> shrinks P h1 (f h1)"
  with Done show ?thesis by (auto simp: shrinks_def intro: lessens_trans split: chat_run.splits)
qed simp_all

lemma shrinks_visit:
  assumes "\<And>i p h. map_of (ch_peers h) i = Some p \<Longrightarrow> shrinks P h (body i p h)"
  shows "shrinks P h (visit body ks h)"
  by (induction ks arbitrary: h) (auto intro!: shrinks_bind assms split: option.splits)

lemma shrinks_deliver:
  assumes "steady P" "\<And>h. shrinks P h (td i h)" "map_of (ch_peers h) i = Some p"
  shows "shrinks P h (deliver_with td frame i p h)"
  using assms by (auto simp: deliver_with_def lessens_def open_peers_def holds_at_def steady_def split: if_splits)

lemma lessens_Prune [simp]: "lessens P h (PruneExpiredSessions h)"
  by (simp add: lessens_def PruneExpiredSessions_def open_peers_def holds_at_def)

lemma shrinks_Prune: "shrinks P (PruneExpiredSessions h) r \<Longrightarrow> shrinks P h r"
  by (auto simp: shrinks_def intro: lessens_trans [OF lessens_Prune] split: chat_run.splits)

lemma shrinks_Broadcast:
  "steady P \<Longrightarrow> (\<And>i h. shrinks P h (td i h)) \<Longrightarrow> shrinks P h (BroadcastSystemMessage td txt ch ex h)"
  unfolding BroadcastSystemMessage_def for_each_peer_def Let_def
  by (rule shrinks_Prune, rule shrinks_visit) (simp add: shrinks_deliver)

lemma drop_session_order:
  "ch_order (drop_session i h) = filter (\<lambda>j. map_of (ch_peers h) j \<noteq> None \<and> j \<noteq> i) (ch_order h)"
  by (auto simp: drop_session_def Let_def split: option.splits intro!: filter_cong)

lemma lessens_drop: "lessens P h (drop_session i h)"
proof -
  have "map_of (ch_peers (drop_session i h)) j = map_of (ch_peers h) j" if "j \<noteq> i" for j
    using that by (auto simp: drop_session_def Let_def split: option.splits)
  moreover have "open_peers (drop_session i h) = open_peers h"
    by (auto simp: drop_session_def Let_def open_peers_def split: option.splits)
  ultimately show ?thesis by (auto simp: lessens_def drop_session_order holds_at_def)
qed

lemma closing_loses:
  assumes "lessens P (set_peer i q h) h2" "map_of (ch_peers h) i = Some p" "cp_closed q"
  shows "lessens P h (drop_session i h2)"
proof -
  have d: "lessens P h2 (drop_session i h2)" by (rule lessens_drop)
  have l: "lessens P (set_peer i q h) (drop_session i h2)" by (rule lessens_trans [OF assms(1) d])
  have "open_peers (set_peer i q h) \<subseteq> open_peers h" using assms(3) by (auto simp: open_peers_def)
  moreover have "i \<notin> set (ch_order (drop_session i h2))" by (simp add: drop_session_order)
  moreover have "holds_at P j (set_peer i q h) \<longleftrightarrow> holds_at P j h" if "j \<noteq> i" for j
    using that by (simp add: holds_at_def)
  ultimately show ?thesis using l unfolding lessens_def set_peer_simps(1) by (metis subset_trans)
qed

lemma TearDown_loses:
  assumes P: "steady P"
  shows "shrinks P h (TearDown n i h)
    \<and> (\<forall>p h'. map_of (ch_peers h) i = Some p \<longrightarrow> \<not> cp_closed p \<longrightarrow> TearDown n i h = Done h' \<longrightarrow> i \<notin> set (ch_order h'))"
proof (induction n arbitrary: i h)
  case (Suc n)
  have td: "shrinks P h (TearDown n i h)" for i h using Suc by blast
  show ?case
  proof (cases "map_of (ch_peers h) i")
    case (Some p)
    let ?h1 = "set_peer i (p\<lparr>cp_closed := True\<rparr>) h"
    let ?r = "if cp_announced p \<and> cp_name p \<noteq> [] then BroadcastSystemMessage (TearDown n)
        (''*** '' @ cp_name p @ '' has left the chat ***'') kSystemChannelId (Some i) ?h1 else Done ?h1"
    have 1: "shrinks P ?h1 ?r" using shrinks_Broadcast [of P "TearDown n", OF P td] by simp
    show ?thesis
    proof (cases "cp_closed p")
      case False
      then have e: "TearDown (Suc n) i h = run_bind ?r (\<lambda>h2. Done (drop_session i h2))"
        using Some by (simp add: Let_def)
      show ?thesis
      proof (cases ?r)
        case (Done h2)
        with 1 have "lessens P h (drop_session i h2)"
          using closing_loses [OF _ Some, of P "p\<lparr>cp_closed := True\<rparr>"] by simp
        moreover have "TearDown (Suc n) i h = Done (drop_session i h2)" unfolding e Done by simp
        ultimately show ?thesis by (auto simp: drop_session_order)
      qed (unfold e, simp_all)
    qed (simp add: Some)
  qed simp
qed simp

lemmas shrinks_TearDown = TearDown_loses [THEN conjunct1]

lemma TearDown_unlists:
  "map_of (ch_peers h) i = Some p \<Longrightarrow> \<not> cp_closed p \<Longrightarrow> TearDown n i h = Done h' \<Longrightarrow> i \<notin> set (ch_order h')"
  using TearDown_loses [of "\<lambda>_. True" h n i] by (simp add: steady_def)


text \<open>A loop that comes to its end has found the list at its full length before the last place.\<close>

lemma visit_last_place:
  assumes "\<And>i p h. map_of (ch_peers h) i = Some p \<Longrightarrow> shrinks P h (body i p h)"
    and "visit body [k..<N] h = Done h'" "k < N" "N = length (ch_order h)"
  shows "\<exists>h1. visit body [k..<N - 1] h = Done h1 \<and> ch_order h1 = ch_order h \<and> lessens P h h1"
proof -
  have "[k..<N] = [k..<N - 1] @ [N - 1]" using assms(3) by (metis Suc_diff_1 le_less_trans less_Suc_eq_le upt_Suc_append zero_le)
  then have v: "run_bind (visit body [k..<N - 1] h) (visit body [N - 1]) = Done h'"
    using assms(2) visit_append [of body "[k..<N - 1]" "[N - 1]" h] by simp
  then obtain h1 where h1: "visit body [k..<N - 1] h = Done h1" by (cases "visit body [k..<N - 1] h") auto
  with v have n: "N - 1 < length (ch_order h1)" by (auto split: if_splits)
  have l: "lessens P h h1" using shrinks_visit [of P body h "[k..<N - 1]", OF assms(1)] h1 by simp
  then have q: "subseq (ch_order h1) (ch_order h)" by (simp add: lessens_def)
  moreover have "length (ch_order h1) = length (ch_order h)"
    using list_emb_length [OF q] n assms(3,4) by simp
  ultimately have "ch_order h1 = ch_order h" by (rule subseq_same_length)
  with h1 l show ?thesis by blast
qed

lemma visit_every_place:
  assumes "\<And>i p h. map_of (ch_peers h) i = Some p \<Longrightarrow> shrinks P h (body i p h)"
    and "visit body [0..<length (ch_order h)] h = Done h'" and "Suc m < length (ch_order h)"
    and "holds_at P (ch_order h ! m) h"
  shows "\<exists>h1 p h2. map_of (ch_peers h1) (ch_order h ! m) = Some p \<and> P p
    \<and> body (ch_order h ! m) p h1 = Done h2 \<and> ch_order h2 = ch_order h"
proof -
  let ?j = "ch_order h ! m" and ?N = "length (ch_order h)"
  from assms(3) have "0 < ?N" by linarith
  then obtain hl where hl: "visit body [0..<?N - 1] h = Done hl" "ch_order hl = ch_order h"
    using visit_last_place [of P body 0 ?N h h'] assms(1,2) by blast
  have up: "[0..<?N - 1] = [0..<m] @ m # [Suc m..<?N - 1]"
  proof -
    have "m \<le> ?N - 1" using assms(3) by simp
    then obtain d where d: "?N - 1 = m + d" using le_Suc_ex by blast
    have "[0..<?N - 1] = [0..<m] @ [m..<?N - 1]" unfolding d by (rule upt_add_eq_append) simp
    then show ?thesis using assms(3) by (simp add: upt_conv_Cons)
  qed
  have v: "run_bind (visit body [0..<m] h) (visit body (m # [Suc m..<?N - 1])) = Done hl"
    using hl(1) unfolding up visit_append .
  then obtain h1 where h1: "visit body [0..<m] h = Done h1" by (cases "visit body [0..<m] h") auto
  have l1: "lessens P h h1" using shrinks_visit [of P body h "[0..<m]", OF assms(1)] h1 by simp
  from v h1 have v1: "visit body (m # [Suc m..<?N - 1]) h1 = Done hl" by simp
  have "lessens P h1 hl" using shrinks_visit [of P body h1 "m # [Suc m..<?N - 1]", OF assms(1)] v1 by simp
  then have o1: "ch_order h1 = ch_order h"
    using l1 hl(2) by (simp add: lessens_def subseq_order.antisym)
  with l1 assms(3,4) have "holds_at P ?j h1" by (simp add: lessens_def)
  then obtain p where p: "map_of (ch_peers h1) ?j = Some p" "P p" by (auto simp: holds_at_def)
  have v2: "run_bind (body ?j p h1) (visit body [Suc m..<?N - 1]) = Done hl"
    using v1 p o1 by (simp split: if_splits)
  then obtain h2 where h2: "body ?j p h1 = Done h2" by (cases "body ?j p h1") auto
  have l2: "lessens P h1 h2" using assms(1) [OF p(1)] h2 by simp
  have "lessens P h2 hl"
    using shrinks_visit [of P body h2 "[Suc m..<?N - 1]", OF assms(1)] v2 h2 by simp
  then have "ch_order h2 = ch_order h" using l2 o1 hl(2) by (simp add: lessens_def subseq_order.antisym)
  with p h2 show ?thesis by blast
qed

subsection \<open>Fuel\<close>

lemma visit_fuel:
  assumes "\<And>i p h. map_of (ch_peers h) i = Some p \<Longrightarrow> shrinks (\<lambda>_. True) h (body i p h)"
    and "\<And>i p h. map_of (ch_peers h) i = Some p \<Longrightarrow> card (open_peers h) < n \<Longrightarrow> body i p h \<noteq> OutOfFuel"
    and "card (open_peers h) < n"
  shows "visit body ks h \<noteq> OutOfFuel"
  using assms(3)
proof (induction ks arbitrary: h)
  case (Cons k ks)
  show ?case
  proof (cases "map_of (ch_peers h) (ch_order h ! k)")
    case (Some p)
    show ?thesis
    proof (cases "body (ch_order h ! k) p h")
      case (Done h1)
      then have "open_peers h1 \<subseteq> open_peers h" using assms(1) [OF Some] by (simp add: lessens_def)
      then have "card (open_peers h1) < n" using card_mono [of "open_peers h"] Cons.prems by (metis finite_open le_less_trans)
      then show ?thesis using Some Done Cons.IH [of h1] by simp
    qed (use assms(2) [OF Some Cons.prems] Some in auto)
  qed (simp add: Cons)
qed simp

lemma open_Prune [simp]: "open_peers (PruneExpiredSessions h) = open_peers h"
  by (simp add: open_peers_def)

lemma steady_any [simp]: "steady (\<lambda>_. True)"
  by (simp add: steady_def)

lemma bind_fuel: "r \<noteq> OutOfFuel \<Longrightarrow> (\<And>x. f x \<noteq> OutOfFuel) \<Longrightarrow> run_bind r f \<noteq> OutOfFuel"
  by (cases r) simp_all

lemma TearDown_fuel: "card (open_peers h) < n \<Longrightarrow> TearDown n i h \<noteq> OutOfFuel"
proof (induction n arbitrary: i h)
  case (Suc n)
  show ?case
  proof (cases "map_of (ch_peers h) i")
    case (Some p)
    show ?thesis
    proof (cases "cp_closed p")
      case False
      let ?h1 = "set_peer i (p\<lparr>cp_closed := True\<rparr>) h"
      have "open_peers ?h1 \<subset> open_peers h" using False Some by (auto simp: open_peers_def)
      then have "card (open_peers ?h1) < card (open_peers h)" by (rule psubset_card_mono [OF finite_open])
      with Suc.prems have c: "card (open_peers ?h1) < n" by linarith
      have "BroadcastSystemMessage (TearDown n) line ch ex ?h1 \<noteq> OutOfFuel" for line ch ex
        unfolding BroadcastSystemMessage_def for_each_peer_def Let_def
      proof (rule visit_fuel [where n = n])
        show "card (open_peers (PruneExpiredSessions ?h1)) < n" using c by (simp only: open_Prune)
        fix j q and h :: ChatHall assume q: "map_of (ch_peers h) j = Some q"
        show "shrinks (\<lambda>_. True) h (if Some j = ex then Done h else deliver_with (TearDown n) (BuildChatFrame ch line) j q h)"
          using shrinks_deliver [OF steady_any shrinks_TearDown [OF steady_any] q] by simp
        show "card (open_peers h) < n \<Longrightarrow>
            (if Some j = ex then Done h else deliver_with (TearDown n) (BuildChatFrame ch line) j q h) \<noteq> OutOfFuel"
          using Suc.IH [of h j] by (simp add: deliver_with_def)
      qed
      then have "(if cp_announced p \<and> cp_name p \<noteq> [] then BroadcastSystemMessage (TearDown n)
        (''*** '' @ cp_name p @ '' has left the chat ***'') kSystemChannelId (Some i) ?h1 else Done ?h1) \<noteq> OutOfFuel" by simp
      then have "run_bind (if cp_announced p \<and> cp_name p \<noteq> [] then BroadcastSystemMessage (TearDown n)
        (''*** '' @ cp_name p @ '' has left the chat ***'') kSystemChannelId (Some i) ?h1 else Done ?h1)
          (\<lambda>h2. Done (drop_session i h2)) \<noteq> OutOfFuel" by (rule bind_fuel) simp
      then show ?thesis using Some False by (simp add: Let_def)
    qed (simp add: Some)
  qed simp
qed simp


subsection \<open>A full queue in the audience\<close>

lemma shrinks_say_to:
  assumes P: "steady P" "\<And>p. P p \<Longrightarrow> P (snd (is_ignoring ev name p))" and p: "map_of (ch_peers h) i = Some p"
  shows "shrinks P h (say_to n ev rs name frame self i p h)"
proof (cases "hears rs p \<and> i \<noteq> self")
  case False
  then show ?thesis using shrinks_deliver [OF P(1) shrinks_TearDown [OF P(1)] p]
    by (auto simp: say_to_def hears_def split: option.splits)
next
  case True
  obtain b p1 where b: "is_ignoring ev name p = (b, p1)" by (cases "is_ignoring ev name p")
  let ?h1 = "set_peer i p1 h"
  have "open_peers ?h1 = open_peers h"
    using is_ignoring_keeps [OF b] p by (auto simp: open_peers_def)
  then have l: "lessens P h ?h1"
    using P(2) [of p] b p by (auto simp: lessens_def holds_at_def)
  have "shrinks P ?h1 (deliver_with (TearDown n) frame i p1 ?h1)"
    by (rule shrinks_deliver) (simp_all add: P(1) shrinks_TearDown)
  then have "shrinks P h (deliver_with (TearDown n) frame i p1 ?h1)"
    using lessens_trans [OF l] by (auto simp: shrinks_def split: chat_run.splits)
  then show ?thesis using True b l by (auto simp: say_to_def hears_def Let_def split: option.splits)
qed

text \<open>A session that would be torn down by the line: open, full, in the audience and willing.\<close>

definition choking :: "ChatEnv \<Rightarrow> guid list option \<Rightarrow> string \<Rightarrow> nat \<Rightarrow> nat \<Rightarrow> ChatPeer \<Rightarrow> bool" where
  "choking ev rs name self j p \<longleftrightarrow> \<not> cp_closed p \<and> kMaxWriteQueueDepth \<le> length (cp_queue p) \<and> hears rs p
     \<and> (j = self \<or> \<not> fst (is_ignoring ev name p))"

lemma choking_steady: "steady (choking ev rs name self j)"
  by (auto simp: steady_def choking_def hears_def is_ignoring_def Let_def split: option.splits)

lemma choking_asked: "choking ev rs name self j p \<Longrightarrow> choking ev rs name self j (snd (is_ignoring ev name p))"
  by (auto simp: choking_def hears_def is_ignoring_def Let_def split: if_splits option.splits)

lemma choking_torn:
  assumes "choking ev rs name self j p" "say_to n ev rs name frame self j p h = Done h'" "map_of (ch_peers h) j = Some p"
  shows "j \<notin> set (ch_order h')"
proof -
  obtain b p1 where b: "is_ignoring ev name p = (b, p1)" by (cases "is_ignoring ev name p")
  have "\<exists>q h1. map_of (ch_peers h1) j = Some q \<and> \<not> cp_closed q \<and> TearDown n j h1 = Done h'"
  proof (cases "j = self")
    case True
    then show ?thesis using assms
      by (auto simp: choking_def say_to_def hears_def deliver_with_def split: option.splits)
  next
    case False
    then have "TearDown n j (set_peer j p1 h) = Done h' \<and> \<not> cp_closed p1"
      using assms b is_ignoring_keeps [OF b]
      by (auto simp: choking_def say_to_def hears_def deliver_with_def Let_def split: option.splits if_splits)
    then show ?thesis by (intro exI [of _ p1] exI [of _ "set_peer j p1 h"]) simp
  qed
  then show ?thesis using TearDown_unlists by blast
qed

lemma say_to_fuel:
  assumes "card (open_peers h) < n" "map_of (ch_peers h) i = Some p"
  shows "say_to n ev rs name frame self i p h \<noteq> OutOfFuel"
proof -
  obtain b p1 where b: "is_ignoring ev name p = (b, p1)" by (cases "is_ignoring ev name p")
  have "open_peers (set_peer i p1 h) = open_peers h"
    using is_ignoring_keeps [OF b] assms(2) by (auto simp: open_peers_def)
  then show ?thesis using b TearDown_fuel [OF assms(1)] TearDown_fuel [of "set_peer i p1 h" n i] assms(1)
    by (auto simp: say_to_def deliver_with_def Let_def split: option.splits)
qed

text \<open>
  C21. A listener whose queue is full breaks a chat line: it is torn down within the loop over the
  list of sessions, its entry is erased from that list, and the loop then reads behind the end of
  the list, unless the listener has the last place. That holds whatever the others do, and the run
  is not cut short by the fuel when there is more than one unit per open session.
\<close>

theorem full_queue_breaks_line:
  assumes "map_of (ch_peers h) i = Some me" "RecipientsFor ev tw h ch (cp_guid me) = (rs, h1)" "rs \<noteq> Some []"
    and "ch_order (PruneExpiredSessions h1) = front @ j # later" "later \<noteq> []"
    and "map_of (ch_peers h) j = Some p" "choking ev rs (cp_name me) i j p"
    and "card (open_peers h) < n"
  shows "SendOnChannel n ev tw i ch msg h = Dangling"
proof -
  let ?body = "say_to n ev rs (cp_name me) (BuildChatFrame ch msg) i" and ?h = "PruneExpiredSessions h1"
  have h1: "ch_peers ?h = ch_peers h" "open_peers ?h = open_peers h"
    using Recipients_hall [of ev tw h ch "cp_guid me"] assms(2) by (metis Prune_simps(1) snd_conv) (use Recipients_hall [of ev tw h ch "cp_guid me"] assms(2) in auto)
  have sh: "shrinks (choking ev rs (cp_name me) i j) g (?body k q g)" if "map_of (ch_peers g) k = Some q" for k q g
    by (rule shrinks_say_to [OF choking_steady choking_asked that])
  have run: "SendOnChannel n ev tw i ch msg h = visit ?body [0..<length (ch_order ?h)] ?h"
    using assms(1-3) by (simp add: SendOnChannel_def for_each_peer_def)
  moreover have "visit ?body [0..<length (ch_order ?h)] ?h \<noteq> OutOfFuel"
  proof (rule visit_fuel [where n = n])
    show "card (open_peers ?h) < n" using assms(8) h1(2) by simp
    fix k q and g :: ChatHall assume q: "map_of (ch_peers g) k = Some q"
    show "shrinks (\<lambda>_. True) g (?body k q g)" by (rule shrinks_say_to [OF steady_any TrueI q])
    show "card (open_peers g) < n \<Longrightarrow> ?body k q g \<noteq> OutOfFuel" by (rule say_to_fuel [OF _ q])
  qed
  moreover have "visit ?body [0..<length (ch_order ?h)] ?h \<noteq> Done h'" for h'
  proof
    assume v: "visit ?body [0..<length (ch_order ?h)] ?h = Done h'"
    have at: "Suc (length front) < length (ch_order ?h)" "ch_order ?h ! length front = j"
      using assms(4,5) by (auto simp: nth_append)
    have "holds_at (choking ev rs (cp_name me) i j) j ?h" using assms(6,7) h1(1) by (simp add: holds_at_def)
    then obtain g q g2 where g: "map_of (ch_peers g) j = Some q" "choking ev rs (cp_name me) i j q"
        "?body j q g = Done g2" "ch_order g2 = ch_order ?h"
      using visit_every_place [OF sh v at(1)] unfolding at(2) by blast
    then have "j \<notin> set (ch_order ?h)" using choking_torn [OF g(2,3,1)] by simp
    then show False using assms(4) by simp
  qed
  ultimately show ?thesis by (metis chat_run.exhaust)
qed


section \<open>Packets\<close>

text \<open>What of a packet decides its course: the text, the channel, and that it is a chat message.\<close>

definition packet_text :: "bytes \<Rightarrow> string" where
  "packet_text data = text_of (ReadString (drop 6 data) 0x0355)"

definition packet_channel :: "bytes \<Rightarrow> u32" where
  "packet_channel data = (case Read4B (drop 6 data) 0x00BE of Got c \<Rightarrow> c | _ \<Rightarrow> kCityChannelId)"

definition chat_packet :: "bytes \<Rightarrow> bool" where
  "chat_packet data \<longleftrightarrow> 6 \<le> length data \<and> le16_at (drop 2 data) = 0x0073
     \<and> \<not> (8 \<le> length data \<and> le16_at (drop 6 data) = 0x0473)"

lemma handle_bound:
  assumes "chat_packet data" "map_of (ch_peers (cw_hall w)) i = Some me" "cp_name me \<noteq> []"
  shows "handle_packet n ev i data w =
    (let parsed = TryParseChatCommand (packet_text data)
     in run_bind (if pr_recognized parsed then run_command n ev i (cp_guid me) parsed w else Done w)
          (\<lambda>w2. if pr_suppress_broadcast parsed then Done w2 else broadcast n ev i (drop 6 data) w2))"
  using assms unfolding handle_packet_def chat_packet_def packet_text_def by auto


subsection \<open>Commands\<close>

text \<open>
  \<open>only_for g k h h'\<close>: the sessions of \<open>g\<close> got at most \<open>k\<close> frames, the other sessions none.
\<close>

definition grew :: "guid \<Rightarrow> nat \<Rightarrow> ChatPeer \<Rightarrow> ChatPeer \<Rightarrow> bool" where
  "grew g k p p' \<longleftrightarrow> p' = p \<or> cp_guid p = g \<and> cp_guid p' = g \<and> cp_closed p' = cp_closed p
     \<and> cp_name p' = cp_name p \<and> length (cp_queue p') \<le> length (cp_queue p) + k"

definition only_for :: "guid \<Rightarrow> nat \<Rightarrow> ChatHall \<Rightarrow> ChatHall \<Rightarrow> bool" where
  "only_for g k h h' \<longleftrightarrow> ch_order h' = ch_order h
     \<and> (\<forall>j. rel_option (grew g k) (map_of (ch_peers h) j) (map_of (ch_peers h') j))"

lemma grew_simps: "grew g k p p" "grew g k p p' \<Longrightarrow> k \<le> l \<Longrightarrow> grew g l p p'"
  "grew g k p q \<Longrightarrow> grew g l q r \<Longrightarrow> grew g (k + l) p r"
  by (auto simp: grew_def)

lemma only_for_refl [simp]: "only_for g k h h"
  by (simp add: only_for_def option.rel_refl grew_simps)

lemma only_for_more: "only_for g k h h' \<Longrightarrow> k \<le> l \<Longrightarrow> only_for g l h h'"
  unfolding only_for_def by (metis grew_simps(2) option.rel_mono_strong)

lemma only_for_trans:
  assumes "only_for g k h h1" "only_for g l h1 h2"
  shows "only_for g (k + l) h h2"
proof -
  have "rel_option (grew g (k + l)) (map_of (ch_peers h) j) (map_of (ch_peers h2) j)" for j
    using spec [OF conjunct2 [OF assms(1) [unfolded only_for_def]], of j]
      spec [OF conjunct2 [OF assms(2) [unfolded only_for_def]], of j]
    by (auto simp: option_rel_Some1 option_rel_Some2 elim!: option.rel_cases intro: grew_simps(3))
  then show ?thesis using assms unfolding only_for_def by simp
qed

definition room_for :: "nat \<Rightarrow> guid \<Rightarrow> ChatHall \<Rightarrow> bool" where
  "room_for k g h \<longleftrightarrow> (\<forall>j p. map_of (ch_peers h) j = Some p \<longrightarrow> cp_guid p = g \<longrightarrow>
     cp_closed p \<or> length (cp_queue p) + k \<le> kMaxWriteQueueDepth)"

lemma room_after: "room_for (k + l) g h \<Longrightarrow> only_for g k h h' \<Longrightarrow> room_for l g h'"
  unfolding room_for_def
proof (intro allI impI)
  fix j p' assume r: "\<forall>j p. map_of (ch_peers h) j = Some p \<longrightarrow> cp_guid p = g \<longrightarrow>
      cp_closed p \<or> length (cp_queue p) + (k + l) \<le> kMaxWriteQueueDepth"
    and o: "only_for g k h h'" and p': "map_of (ch_peers h') j = Some p'" "cp_guid p' = g"
  from o have "rel_option (grew g k) (map_of (ch_peers h) j) (map_of (ch_peers h') j)" by (simp add: only_for_def)
  then obtain p where p: "map_of (ch_peers h) j = Some p" "grew g k p p'"
    by (auto simp: p'(1) option_rel_Some2)
  then have "cp_closed p \<or> length (cp_queue p) + (k + l) \<le> kMaxWriteQueueDepth"
    using r p'(2) by (simp add: grew_def) blast
  with p(2) show "cp_closed p' \<or> length (cp_queue p') + l \<le> kMaxWriteQueueDepth"
    by (auto simp: grew_def)
qed

lemma deliver_only:
  assumes "room_for 1 g h" "map_of (ch_peers h) i = Some p" "cp_guid p = g"
  shows "\<exists>h'. deliver n frame i h = Done h' \<and> only_for g 1 h h'"
proof -
  have "roomy p" using assms unfolding room_for_def roomy_def by fastforce
  from deliver_to_roomy [OF assms(2) this, of n frame] show ?thesis
    using assms(2,3) by (auto simp: only_for_def changed_def said_def grew_def option.rel_refl)
qed

lemma SystemMessageToGuid_only:
  assumes "room_for 1 g h"
  shows "\<exists>h'. SystemMessageToGuid n g line h = Done h' \<and> only_for g 1 h h'"
proof (cases "find (\<lambda>i. case map_of (ch_peers h) i of None \<Rightarrow> False | Some p \<Rightarrow> cp_guid p = g) (ch_order h)")
  case (Some i)
  then obtain p where "map_of (ch_peers h) i = Some p" "cp_guid p = g"
    by (auto simp: find_Some_iff split: option.splits)
  then show ?thesis
    using deliver_only [OF assms, of i p n] Some by (auto simp: SystemMessageToGuid_def SystemMessageWhere_def)
qed (auto simp: SystemMessageToGuid_def SystemMessageWhere_def)


lemma one_action:
  assumes "fine r" "actions r ! i" "actions r ! j" "i < 19" "j < 19"
  shows "i = j"
proof (rule ccontr)
  assume "i \<noteq> j"
  have l: "length (actions r) = 19" by (simp add: actions_def)
  have "{i, j} \<subseteq> {k. k < length (actions r) \<and> id (actions r ! k)}" using assms(2-5) l by simp
  then have "card {i, j} \<le> length (filter id (actions r))"
    unfolding length_filter_conv_card by (intro card_mono) simp_all
  then show False using assms(1) \<open>i \<noteq> j\<close> by (simp add: fine_def)
qed

lemma actions_nth:
  "actions r ! 0 \<longleftrightarrow> pr_change_team r \<noteq> None" "actions r ! 7 \<longleftrightarrow> pr_spectate r \<noteq> None"
  "actions r ! 9 \<longleftrightarrow> pr_toggle_solo_mode r \<noteq> None" "actions r ! 10 \<longleftrightarrow> pr_set_dlc r \<noteq> None"
  "actions r ! 13 \<longleftrightarrow> pr_unspectate r" "actions r ! 16 \<longleftrightarrow> pr_class_counts r"
  "actions r ! 17 \<longleftrightarrow> pr_reload_queues r" "actions r ! 18 \<longleftrightarrow> pr_announce r \<noteq> None"
  by (simp_all add: actions_def)

text \<open>Only one of the steps of a command says or changes anything; the others are silent.\<close>

definition silent :: "(ChatWorld \<Rightarrow> ChatWorld chat_run) \<Rightarrow> bool" where
  "silent f \<longleftrightarrow> (\<forall>w. \<exists>w'. f w = Done w' \<and> cw_hall w' = cw_hall w \<and> cw_team w' = cw_team w)"

lemma act_for_hall [simp]: "cw_hall (act_for g a w) = cw_hall w" "cw_hall (act a w) = cw_hall w"
  "cw_team (act_for g a w) = cw_team w" "cw_team (act a w) = cw_team w"
  by (simp_all add: act_for_def act_def)

lemma silent_steps [simp]: "silent (then_some None f)" "silent (then_if False h)"
  "silent (\<lambda>w. Done (body_actions g r w))" "silent (\<lambda>w. Done (view_actions g r w))"
  "silent (\<lambda>w. Done (on_some x (\<lambda>a. act_for g (F a)) w))"
  by (simp_all add: silent_def then_some_def then_if_def body_actions_def view_actions_def Let_def on_some_def split: option.split)

lemma in_turn_silent:
  "list_all silent fs \<Longrightarrow> \<exists>w'. in_turn fs w = Done w' \<and> cw_hall w' = cw_hall w \<and> cw_team w' = cw_team w"
proof (induction fs arbitrary: w)
  case (Cons f fs)
  then have "silent f" by simp
  then obtain w1 where "f w = Done w1" "cw_hall w1 = cw_hall w" "cw_team w1 = cw_team w"
    unfolding silent_def by blast
  then show ?case using Cons.IH [of w1] Cons.prems by simp
qed simp

lemma in_turn_append: "in_turn (fs @ gs) w = run_bind (in_turn fs w) (in_turn gs)"
proof (induction fs arbitrary: w)
  case (Cons f fs)
  then show ?case by (cases "f w") simp_all
qed simp

text \<open>\<open>private g k b w r\<close>: a run that ends has only sent the sessions of \<open>g\<close> up to \<open>k\<close> frames; it ends, unless \<open>b\<close>.\<close>

definition private_run :: "guid \<Rightarrow> nat \<Rightarrow> bool \<Rightarrow> ChatWorld \<Rightarrow> ChatWorld chat_run \<Rightarrow> bool" where
  "private_run g k b w r \<longleftrightarrow>
     (case r of Done w' \<Rightarrow> only_for g k (cw_hall w) (cw_hall w') | Dangling \<Rightarrow> False | OutOfFuel \<Rightarrow> b)"

lemma in_turn_one:
  assumes "list_all silent fs" "list_all silent gs"
    and "\<And>w1. cw_hall w1 = cw_hall w \<Longrightarrow> cw_team w1 = cw_team w \<Longrightarrow> private_run g k b w1 (f w1)"
  shows "private_run g k b w (in_turn (fs @ f # gs) w)"
proof -
  obtain w1 where w1: "in_turn fs w = Done w1" "cw_hall w1 = cw_hall w" "cw_team w1 = cw_team w"
    using in_turn_silent [OF assms(1)] by blast
  have p: "private_run g k b w1 (f w1)" by (rule assms(3)) (simp_all add: w1)
  show ?thesis
  proof (cases "f w1")
    case (Done w2)
    obtain w3 where "in_turn gs w2 = Done w3" "cw_hall w3 = cw_hall w2" using in_turn_silent [OF assms(2)] by blast
    then show ?thesis using p Done w1 by (simp add: in_turn_append private_run_def)
  qed (use p w1 in \<open>simp_all add: in_turn_append private_run_def\<close>)
qed

lemma in_turn_at:
  assumes "list_all silent (take i fs)" "list_all silent (drop (Suc i) fs)" "i < length fs"
    and "\<And>w1. cw_hall w1 = cw_hall w \<Longrightarrow> cw_team w1 = cw_team w \<Longrightarrow> private_run g k b w1 ((fs ! i) w1)"
  shows "private_run g k b w (in_turn fs w)"
  using in_turn_one [OF assms(1,2,4)] id_take_nth_drop [OF assms(3)] by simp

lemma private_more: "private_run g k b w r \<Longrightarrow> k \<le> l \<Longrightarrow> private_run g l b w r"
  by (auto simp: private_run_def dest: only_for_more split: chat_run.splits)

lemma private_any: "private_run g k True w r \<Longrightarrow> b \<Longrightarrow> private_run g k b w r"
  by simp

lemma in_hall_private:
  "\<exists>h'. f (cw_hall w) = Done h' \<and> only_for g k (cw_hall w) h' \<Longrightarrow> private_run g k b w (in_hall f w)"
  by (auto simp: in_hall_def private_run_def)

lemma told_privately:
  assumes "room_for 1 g (cw_hall w)"
  shows "private_run g 1 b w (in_hall (SystemMessageToGuid n g line) w)"
  by (rule in_hall_private) (rule SystemMessageToGuid_only [OF assms])

lemma room_less: "room_for k g h \<Longrightarrow> l \<le> k \<Longrightarrow> room_for l g h"
  by (fastforce simp: room_for_def)

lemma private_done [simp]: "cw_hall w' = cw_hall w \<Longrightarrow> private_run g k b w (Done w')"
  by (simp add: private_run_def)

lemma private_on: "cw_hall w1 = cw_hall w \<Longrightarrow> private_run g k b w1 r \<Longrightarrow> private_run g k b w r"
  by (cases r) (simp_all add: private_run_def)

lemma DispatchChangeTeam_private:
  "room_for 1 g (cw_hall w) \<Longrightarrow> private_run g 1 b w (DispatchChangeTeam n t g w)"
  by (auto simp: DispatchChangeTeam_def told_privately Let_def DispatchTeamMove_def simp del: One_nat_def split: option.split)

lemma ExecuteClassCounts_private:
  assumes "room_for 2 g (cw_hall w)"
  shows "private_run g 2 b w (ExecuteClassCounts n ev g w)"
proof -
  have r1: "room_for 1 g (cw_hall w)" by (rule room_less [OF assms]) simp
  have two: "private_run g 2 b w (run_bind (in_hall (SystemMessageToGuid n g l1) w) (in_hall (SystemMessageToGuid n g l2)))" for l1 l2
  proof -
    obtain h1 where h1: "SystemMessageToGuid n g l1 (cw_hall w) = Done h1" "only_for g 1 (cw_hall w) h1"
      using SystemMessageToGuid_only [OF r1] by blast
    have "room_for 1 g h1" by (rule room_after [OF _ h1(2), of 1]) (use assms in \<open>simp add: numeral_2_eq_2\<close>)
    then obtain h2 where h2: "SystemMessageToGuid n g l2 h1 = Done h2" "only_for g 1 h1 h2"
      using SystemMessageToGuid_only by blast
    show ?thesis using h1(1) h2(1) only_for_trans [OF h1(2) h2(2)] by (simp add: in_hall_def private_run_def numeral_2_eq_2)
  qed
  have "private_run g 2 b w (in_hall (SystemMessageToGuid n g l) w)" for l
    by (rule private_more [OF told_privately [OF r1]]) simp
  with two show ?thesis by (auto simp: ExecuteClassCounts_def Let_def split: option.split)
qed

lemma ExecuteToggleSoloMode_private:
  assumes "room_for 1 g (cw_hall w)"
  shows "private_run g 1 True w (ExecuteToggleSoloMode n ev m g w)"
proof -
  have "private_run g 1 True w (run_bind (with_world r (SetUserPreference u key v w)) (in_hall (SystemMessageToGuid n g l)))"
    for r u key v l
  proof (cases r)
    case (Some mw)
    let ?w1 = "(SetUserPreference u key v w)\<lparr>cw_team := (cw_team (SetUserPreference u key v w))\<lparr>ts_world := mw\<rparr>\<rparr>"
    have h: "cw_hall ?w1 = cw_hall w" by (simp add: SetUserPreference_def)
    have "private_run g 1 True ?w1 (in_hall (SystemMessageToGuid n g l) ?w1)"
      by (rule told_privately) (simp only: h assms)
    then show ?thesis using Some private_on [OF h] by (simp add: with_world_def)
  qed (simp add: with_world_def private_run_def)
  then show ?thesis by (simp add: ExecuteToggleSoloMode_def Let_def)
qed

lemma ExecuteSetDlc_private:
  assumes "room_for 1 g (cw_hall w)"
  shows "private_run g 1 b w (ExecuteSetDlc n ev a g w)"
proof -
  have s: "cw_hall (snd (SetUserDlc ev u i x w)) = cw_hall w" for u i x
    by (simp add: SetUserDlc_def split: option.split)
  have "private_run g 1 b w (in_hall (SystemMessageToGuid n g l) (snd (SetUserDlc ev u i x w)))" for u i x l
    by (rule private_on [OF s]) (rule told_privately, simp only: s assms)
  then show ?thesis using told_privately [OF assms]
    by (auto simp: ExecuteSetDlc_def Let_def split: option.split prod.split) (metis snd_conv)+
qed

lemma deliver_lines_only:
  assumes "room_for (length ls) g h" "map_of (ch_peers h) i = Some p" "cp_guid p = g"
  shows "\<exists>h'. deliver_lines n ls i h = Done h' \<and> only_for g (length ls) h h'"
  using assms
proof (induction ls arbitrary: h p)
  case (Cons l ls)
  obtain h1 where h1: "deliver n (BuildChatFrame kSystemChannelId l) i h = Done h1" "only_for g 1 h h1"
    using deliver_only [OF room_less [OF Cons.prems(1)] Cons.prems(2,3)] by auto
  from h1(2) have "rel_option (grew g 1) (map_of (ch_peers h) i) (map_of (ch_peers h1) i)" by (simp add: only_for_def)
  then obtain p1 where p1: "map_of (ch_peers h1) i = Some p1" "cp_guid p1 = g"
    using Cons.prems(2,3) by (auto simp: option_rel_Some1 grew_def)
  have "room_for (length ls) g h1" by (rule room_after [OF _ h1(2)]) (use Cons.prems(1) in simp)
  from Cons.IH [OF this p1] obtain h2 where "deliver_lines n ls i h1 = Done h2" "only_for g (length ls) h1 h2" by blast
  then show ?case using h1 only_for_trans [OF h1(2), of "length ls" h2] by simp
qed simp

lemma lines_private:
  assumes "room_for k g (cw_hall w)" "map_of (ch_peers (cw_hall w)) i = Some p" "cp_guid p = g" "length ls \<le> k"
  shows "private_run g k b w (in_hall (deliver_lines n ls i) w)"
proof -
  have "\<exists>h'. deliver_lines n ls i (cw_hall w) = Done h' \<and> only_for g (length ls) (cw_hall w) h'"
    by (rule deliver_lines_only [OF room_less [OF assms(1,4)] assms(2,3)])
  then have "private_run g (length ls) b w (in_hall (deliver_lines n ls i) w)" by (rule in_hall_private)
  then show ?thesis using assms(4) by (rule private_more)
qed

lemma spectate_list_length: "length (spectate_list rg) \<le> 1 + length (GetAllRunningInstances rg)"
proof -
  let ?insts = "filter (\<lambda>inst. \<not> ii_is_home_map inst \<and> ii_state inst = READY) (GetAllRunningInstances rg)"
  have "length (spectate_list rg) \<le> 1 + length ?insts" by (cases ?insts) (simp_all add: spectate_list_def)
  also have "\<dots> \<le> 1 + length (GetAllRunningInstances rg)" by (intro add_left_mono length_filter_le)
  finally show ?thesis .
qed

lemma HandleSpectateCommand_private:
  assumes "room_for k g (cw_hall w)" "map_of (ch_peers (cw_hall w)) i = Some p" "cp_guid p = g"
    and k: "1 + length (GetAllRunningInstances (chat_registry w)) \<le> k"
  shows "private_run g k b w (HandleSpectateCommand n ev i g a w)"
proof -
  obtain m w1 where j: "SpectateJoinAnswer ev g (sp_instance_id a)
      (case sp_team a of SpectateAttackers \<Rightarrow> 1 | SpectateDefenders \<Rightarrow> 2 | NoTeam \<Rightarrow> 0) w = (m, w1)" by fastforce
  then have h: "cw_hall w1 = cw_hall w" by (auto simp: SpectateJoinAnswer_def split: option.splits if_splits)
  have "private_run g k b w1 (in_hall (deliver_lines n [m] i) w1)"
    by (rule lines_private) (use assms h in \<open>simp_all\<close>)
  from private_on [OF h this] have "private_run g k b w (in_hall (deliver_lines n [m] i) w1)" .
  moreover have "private_run g k b w (in_hall (deliver_lines n ls i) w)" if "length ls \<le> k" for ls
    by (rule lines_private [OF assms(1-3) that])
  moreover have "length (spectate_list (chat_registry w)) \<le> k" using spectate_list_length k by (rule le_trans)
  ultimately show ?thesis using k by (simp add: HandleSpectateCommand_def j Let_def del: deliver_lines.simps)
qed

lemma HandleUnspectateCommand_private:
  assumes "room_for 1 g (cw_hall w)" "map_of (ch_peers (cw_hall w)) i = Some p" "cp_guid p = g"
  shows "private_run g 1 b w (HandleUnspectateCommand n ev i g w)"
proof -
  obtain m w1 where j: "SpectateExitAnswer ev g w = (m, w1)" by fastforce
  then have h: "cw_hall w1 = cw_hall w" by (auto simp: SpectateExitAnswer_def split: if_splits)
  have "private_run g 1 b w1 (in_hall (deliver_lines n [m] i) w1)"
    by (rule lines_private) (use assms h in simp_all)
  from private_on [OF h this] show ?thesis by (simp add: HandleUnspectateCommand_def j)
qed

lemma with_world_private: "private_run g k True w (with_world r w)"
  by (simp add: with_world_def private_run_def split: option.split)

lemma run_command_private:
  assumes f: "fine r" and "pr_announce r = None"
    and room: "room_for k g (cw_hall w)" and me: "map_of (ch_peers (cw_hall w)) i = Some p" "cp_guid p = g"
    and k: "2 + length (GetAllRunningInstances (chat_registry w)) \<le> k"
  shows "private_run g k (pr_toggle_solo_mode r \<noteq> None \<or> pr_reload_queues r) w (run_command n ev i g r w)"
proof -
  let ?b = "pr_toggle_solo_mode r \<noteq> None \<or> pr_reload_queues r"
  have r1: "room_for 1 g (cw_hall w)" and r2: "room_for 2 g (cw_hall w)"
    using room_less [OF room] k by auto
  have more: "private_run g l ?b w1 x \<Longrightarrow> l \<le> 2 \<Longrightarrow> private_run g k ?b w1 x" for l w1 x
    using k by (auto intro: private_more)
  note alone = one_action [OF f] actions_nth
  consider (team) "pr_change_team r \<noteq> None" | (classes) "pr_class_counts r" | (spectate) "pr_spectate r \<noteq> None"
    | (unspectate) "pr_unspectate r" | (solo) "pr_toggle_solo_mode r \<noteq> None" | (dlc) "pr_set_dlc r \<noteq> None"
    | (reload) "pr_reload_queues r"
    | (none) "pr_change_team r = None" "\<not> pr_class_counts r" "pr_spectate r = None" "\<not> pr_unspectate r"
      "pr_toggle_solo_mode r = None" "pr_set_dlc r = None" "\<not> pr_reload_queues r" by blast
  then show ?thesis
  proof cases
    case team
    have o: "\<not> pr_class_counts r" "pr_spectate r = None" "\<not> pr_unspectate r" "pr_toggle_solo_mode r = None" "pr_set_dlc r = None" "\<not> pr_reload_queues r"
      using team alone(1) [of 0 16] alone(1) [of 0 7] alone(1) [of 0 13] alone(1) [of 0 9] alone(1) [of 0 10] alone(1) [of 0 17]
      by (auto simp: alone(2-) simp del: not_None_eq not_Some_eq)
    show ?thesis unfolding run_command_def
    proof (rule in_turn_at [where i = 0])
      fix w1 :: ChatWorld assume w1: "cw_hall w1 = cw_hall w" "cw_team w1 = cw_team w"
      show "private_run g k ?b w1 ((command_steps n ev i g r ! 0) w1)"
        using team more [OF DispatchChangeTeam_private [of g w1]] r1 w1(1) by (auto simp: command_steps_def then_some_def simp del: One_nat_def)
    qed (use o assms(2) in \<open>simp_all add: command_steps_def\<close>)
  next
    case classes
    have o: "pr_change_team r = None" "pr_spectate r = None" "\<not> pr_unspectate r" "pr_toggle_solo_mode r = None" "pr_set_dlc r = None" "\<not> pr_reload_queues r"
      using classes alone(1) [of 16 0] alone(1) [of 16 7] alone(1) [of 16 13] alone(1) [of 16 9] alone(1) [of 16 10] alone(1) [of 16 17]
      by (auto simp: alone(2-) simp del: not_None_eq not_Some_eq)
    show ?thesis unfolding run_command_def
    proof (rule in_turn_at [where i = 2])
      fix w1 :: ChatWorld assume w1: "cw_hall w1 = cw_hall w" "cw_team w1 = cw_team w"
      show "private_run g k ?b w1 ((command_steps n ev i g r ! 2) w1)"
        using classes more [OF ExecuteClassCounts_private [of g w1]] r2 w1(1) by (simp add: command_steps_def then_if_def)
    qed (use o assms(2) in \<open>simp_all add: command_steps_def\<close>)
  next
    case spectate
    have o: "pr_change_team r = None" "\<not> pr_class_counts r" "\<not> pr_unspectate r" "pr_toggle_solo_mode r = None" "pr_set_dlc r = None" "\<not> pr_reload_queues r"
      using spectate alone(1) [of 7 0] alone(1) [of 7 16] alone(1) [of 7 13] alone(1) [of 7 9] alone(1) [of 7 10] alone(1) [of 7 17]
      by (auto simp: alone(2-) simp del: not_None_eq not_Some_eq)
    show ?thesis unfolding run_command_def
    proof (rule in_turn_at [where i = 4])
      fix w1 :: ChatWorld assume w1: "cw_hall w1 = cw_hall w" "cw_team w1 = cw_team w"
      show "private_run g k ?b w1 ((command_steps n ev i g r ! 4) w1)"
        using spectate HandleSpectateCommand_private [of k g w1 i p] room me k w1 by (auto simp: command_steps_def then_some_def)
    qed (use o assms(2) in \<open>simp_all add: command_steps_def\<close>)
  next
    case unspectate
    have o: "pr_change_team r = None" "\<not> pr_class_counts r" "pr_spectate r = None" "pr_toggle_solo_mode r = None" "pr_set_dlc r = None" "\<not> pr_reload_queues r"
      using unspectate alone(1) [of 13 0] alone(1) [of 13 16] alone(1) [of 13 7] alone(1) [of 13 9] alone(1) [of 13 10] alone(1) [of 13 17]
      by (auto simp: alone(2-) simp del: not_None_eq not_Some_eq)
    show ?thesis unfolding run_command_def
    proof (rule in_turn_at [where i = 5])
      fix w1 :: ChatWorld assume w1: "cw_hall w1 = cw_hall w" "cw_team w1 = cw_team w"
      show "private_run g k ?b w1 ((command_steps n ev i g r ! 5) w1)"
        using unspectate more [OF HandleUnspectateCommand_private [of g w1 i p]] r1 me w1(1) by (simp add: command_steps_def then_if_def del: One_nat_def)
    qed (use o assms(2) in \<open>simp_all add: command_steps_def\<close>)
  next
    case solo
    have o: "pr_change_team r = None" "\<not> pr_class_counts r" "pr_spectate r = None" "\<not> pr_unspectate r" "pr_set_dlc r = None" "\<not> pr_reload_queues r"
      using solo alone(1) [of 9 0] alone(1) [of 9 16] alone(1) [of 9 7] alone(1) [of 9 13] alone(1) [of 9 10] alone(1) [of 9 17]
      by (auto simp: alone(2-) simp del: not_None_eq not_Some_eq)
    show ?thesis unfolding run_command_def
    proof (rule in_turn_at [where i = 7])
      fix w1 :: ChatWorld assume w1: "cw_hall w1 = cw_hall w" "cw_team w1 = cw_team w"
      show "private_run g k ?b w1 ((command_steps n ev i g r ! 7) w1)"
        using solo more [OF private_any [OF ExecuteToggleSoloMode_private [of g w1]]] r1 w1(1) by (auto simp: command_steps_def then_some_def simp del: One_nat_def)
    qed (use o assms(2) in \<open>simp_all add: command_steps_def\<close>)
  next
    case dlc
    have o: "pr_change_team r = None" "\<not> pr_class_counts r" "pr_spectate r = None" "\<not> pr_unspectate r" "pr_toggle_solo_mode r = None" "\<not> pr_reload_queues r"
      using dlc alone(1) [of 10 0] alone(1) [of 10 16] alone(1) [of 10 7] alone(1) [of 10 13] alone(1) [of 10 9] alone(1) [of 10 17]
      by (auto simp: alone(2-) simp del: not_None_eq not_Some_eq)
    show ?thesis unfolding run_command_def
    proof (rule in_turn_at [where i = 8])
      fix w1 :: ChatWorld assume w1: "cw_hall w1 = cw_hall w" "cw_team w1 = cw_team w"
      show "private_run g k ?b w1 ((command_steps n ev i g r ! 8) w1)"
        using dlc more [OF ExecuteSetDlc_private [of g w1]] r1 w1(1) by (auto simp: command_steps_def then_some_def simp del: One_nat_def)
    qed (use o assms(2) in \<open>simp_all add: command_steps_def\<close>)
  next
    case reload
    have o: "pr_change_team r = None" "\<not> pr_class_counts r" "pr_spectate r = None" "\<not> pr_unspectate r" "pr_toggle_solo_mode r = None" "pr_set_dlc r = None"
      using reload alone(1) [of 17 0] alone(1) [of 17 16] alone(1) [of 17 7] alone(1) [of 17 13] alone(1) [of 17 9] alone(1) [of 17 10]
      by (auto simp: alone(2-) simp del: not_None_eq not_Some_eq)
    show ?thesis unfolding run_command_def
    proof (rule in_turn_at [where i = 10])
      fix w1 :: ChatWorld assume w1: "cw_hall w1 = cw_hall w" "cw_team w1 = cw_team w"
      show "private_run g k ?b w1 ((command_steps n ev i g r ! 10) w1)"
        using reload private_any [OF with_world_private [of g k w1]] by (simp add: command_steps_def then_if_def)
    qed (use o assms(2) in \<open>simp_all add: command_steps_def\<close>)
  next
    case none
    have "list_all silent (command_steps n ev i g r)" using none assms(2) by (simp add: command_steps_def)
    from in_turn_silent [OF this, of w] show ?thesis by (auto simp: run_command_def)
  qed
qed


subsection \<open>Examples\<close>

text \<open>Ann, Bob and Cy are connected in this order; \<open>q\<close> is Bob's queue. Cy ignores Ann.\<close>

definition ex_peer :: "guid \<Rightarrow> string \<Rightarrow> bytes list \<Rightarrow> ChatPeer" where
  "ex_peer g name q = \<lparr>cp_guid = g, cp_name = name, cp_closed = False, cp_announced = True, cp_queue = q,
     cp_retries = 0, cp_epoch = 0, cp_ignored = []\<rparr>"

definition ex_hall :: "bytes list \<Rightarrow> ChatHall" where
  "ex_hall q = \<lparr>ch_peers = [(0, ex_peer ''a'' ''Ann'' []), (1, ex_peer ''b'' ''Bob'' q), (2, ex_peer ''c'' ''Cy'' [])],
     ch_order = [0, 1, 2]\<rparr>"

definition ex_chat_env :: ChatEnv where
  "ex_chat_env = \<lparr>ce_session = \<lambda>_. None, ce_agency_of = \<lambda>_. 0, ce_agency_members = \<lambda>_. [], ce_alliance_of = \<lambda>_. 0,
     ce_alliance_members = \<lambda>_. [], ce_epoch = 1, ce_ignored = \<lambda>n. if n = ''Cy'' then [''ann''] else [],
     ce_announcers = [], ce_characters = \<lambda>_. None, ce_has_role = \<lambda>_ _. False, ce_dlc_catalog = [],
     ce_connected = \<lambda>_. True, ce_spectating = \<lambda>_. False, ce_queue_configs = [], ce_match = ex_env\<rparr>"

definition ex_chat :: "ChatWorld" where
  "ex_chat = \<lparr>cw_hall = ex_hall [], cw_team = ex_team_world, cw_actions = [],
     cw_preferences = [], cw_user_dlc = []\<rparr>"

lemma ex_peer_simps [simp]: "cp_guid (ex_peer g name q) = g" "cp_name (ex_peer g name q) = name"
  "cp_closed (ex_peer g name q) = False" "cp_queue (ex_peer g name q) = q"
  by (simp_all add: ex_peer_def)

lemma ex_packets:
  "chat_packet (BuildChatFrame 7 ''hi'')" "packet_text (BuildChatFrame 7 ''hi'') = ''hi''"
  "packet_channel (BuildChatFrame 7 ''hi'') = 7" "chat_packet (BuildChatFrame 7 ''-classes'')"
  "packet_text (BuildChatFrame 7 ''-classes'') = ''-classes''"
  by code_simp+

lemma ex_lower: "LowerAscii ''Ann'' = ''ann''"
  by code_simp

lemma ex_parsed: "\<not> pr_recognized (TryParseChatCommand ''hi'')" "pr_recognized (TryParseChatCommand ''-classes'')"
  "pr_announce (TryParseChatCommand ''-classes'') = None" "pr_toggle_solo_mode (TryParseChatCommand ''-classes'') = None"
  "\<not> pr_reload_queues (TryParseChatCommand ''-classes'')"
  by code_simp+



theorem full_queue_breaks_line_witness:
  "SendOnChannel 4 ex_chat_env ex_team_world 0 7 ''hi'' (ex_hall (replicate 256 [])) = Dangling"
proof (rule full_queue_breaks_line)
  let ?h = "ex_hall (replicate 256 [])"
  show "map_of (ch_peers ?h) 0 = Some (ex_peer ''a'' ''Ann'' [])" by (simp add: ex_hall_def)
  show "RecipientsFor ex_chat_env ex_team_world ?h 7 (cp_guid (ex_peer ''a'' ''Ann'' [])) = (None, ?h)"
    by (simp add: RecipientsFor_def)
  show "ch_order (PruneExpiredSessions ?h) = [0] @ 1 # [2]" by (simp add: PruneExpiredSessions_def ex_hall_def)
  show "map_of (ch_peers ?h) 1 = Some (ex_peer ''b'' ''Bob'' (replicate 256 []))" by (simp add: ex_hall_def)
  show "choking ex_chat_env None (cp_name (ex_peer ''a'' ''Ann'' [])) 0 1 (ex_peer ''b'' ''Bob'' (replicate 256 []))"
    by (simp add: choking_def ex_peer_def hears_def is_ignoring_def ex_chat_env_def)
  have "open_peers ?h \<subseteq> {0, 1, 2}" by (auto simp: open_peers_def ex_hall_def split: if_splits)
  from card_mono [OF _ this] show "card (open_peers ?h) < 4" by simp
qed simp_all

end
