(* ===== verification/RoleWeightedSplit.thy ===== *)
theory RoleWeightedSplit
  imports MmrSwap
begin

text \<open>
  Class-aware placement and the in-match rebalance, \<open>MatchmakingService/RoleWeightedSplit\<close>:
  the cost of putting one player on a side, batch assignment, and the three deltas the
  autobalancer computes. \<open>std::shuffle\<close> is a parameter of the definitions that use it: any
  function that returns a permutation of its argument. Single-precision costs are exact
  rationals here.
\<close>

section \<open>Definitions\<close>

definition kMmrRebalanceMinImprovement :: rat where "kMmrRebalanceMinImprovement = 5"
definition kAlpha :: rat where "kAlpha = 1"
definition kGamma :: rat where "kGamma = 3/10"
definition kRoboticsDefBonus :: rat where "kRoboticsDefBonus = 10/100"
definition kBeta :: rat where "kBeta = 100000"
definition kDelta :: rat where "kDelta = 1000"
definition kDiscreteThreshold :: int where "kDiscreteThreshold = 2"

definition RoleHealValue :: "u32 \<Rightarrow> int \<Rightarrow> rat" where
  \<comment> \<open>\<open>HealValue\<close>; the profile ids are \<open>kProfileMedic\<close> 567 and \<open>kProfileRobotics\<close> 679\<close>
  "RoleHealValue profile_id task_force =
     (if profile_id = 567 then 1
      else if profile_id = 679 then (if task_force = 2 then 75/100 + kRoboticsDefBonus else 75/100)
      else 0)"

record PlayerSlot =
  ps_guid :: guid
  ps_profile_id :: u32
  ps_mmr :: rat

record TeamState =
  ts_heal_score :: rat
  ts_size :: int
  ts_mmr_sum :: rat
  ts_class_counts :: "(u32, int) umap"
  ts_class_mmr_sum :: "(u32, rat) umap"

definition empty_team :: TeamState where
  "empty_team = \<lparr>ts_heal_score = 0, ts_size = 0, ts_mmr_sum = 0, ts_class_counts = [],
     ts_class_mmr_sum = []\<rparr>"

definition ClassCountOn :: "TeamState \<Rightarrow> u32 \<Rightarrow> int" where
  "ClassCountOn s profile_id = umap_get 0 (ts_class_counts s) profile_id"

definition PlacementCost :: "int \<Rightarrow> u32 \<Rightarrow> TeamState \<Rightarrow> TeamState \<Rightarrow> rat" where
  \<comment> \<open>\<open>Cost\<close>\<close>
  "PlacementCost t profile_id s1 s2 =
     (let post_h1 = ts_heal_score s1 + (if t = 1 then RoleHealValue profile_id 1 else 0);
          post_h2 = ts_heal_score s2 + (if t = 2 then RoleHealValue profile_id 2 else 0);
          post_s1 = ts_size s1 + (if t = 1 then 1 else 0);
          post_s2 = ts_size s2 + (if t = 2 then 1 else 0);
          post_c1 = ClassCountOn s1 profile_id + (if t = 1 then 1 else 0);
          post_c2 = ClassCountOn s2 profile_id + (if t = 2 then 1 else 0);
          heal_diff = post_h1 - post_h2;
          size_diff = post_s1 - post_s2;
          co_aligned = max 0 (heal_diff * of_int size_diff)
      in kDelta * of_int \<bar>post_c1 - post_c2\<bar> + kAlpha * \<bar>heal_diff\<bar>
         + kBeta * of_int \<bar>size_diff\<bar> + kGamma * co_aligned)"

definition GreedyPlaceOne :: "u32 \<Rightarrow> TeamState \<Rightarrow> TeamState \<Rightarrow> int" where
  "GreedyPlaceOne profile_id s1 s2 =
     (let c1 = PlacementCost 1 profile_id s1 s2; c2 = PlacementCost 2 profile_id s1 s2
      in if c1 < c2 then 1 else if c2 < c1 then 2
         else if ts_mmr_sum s1 < ts_mmr_sum s2 then 1
         else if ts_mmr_sum s2 < ts_mmr_sum s1 then 2
         else if ts_size s1 < ts_size s2 then 1
         else if ts_size s2 < ts_size s1 then 2 else 1)"

definition PlaceSingle :: "u32 \<Rightarrow> TeamState \<Rightarrow> TeamState \<Rightarrow> int" where
  "PlaceSingle profile_id team1 team2 = GreedyPlaceOne profile_id team1 team2"

definition team_add :: "int \<Rightarrow> PlayerSlot \<Rightarrow> TeamState \<Rightarrow> TeamState" where
  "team_add tf p s = s\<lparr>
     ts_heal_score := ts_heal_score s + RoleHealValue (ps_profile_id p) tf,
     ts_size := ts_size s + 1,
     ts_class_counts := umap_mod 0 (\<lambda>n. n + 1) (ps_profile_id p) (ts_class_counts s),
     ts_class_mmr_sum := umap_mod 0 (\<lambda>x. x + ps_mmr p) (ps_profile_id p) (ts_class_mmr_sum s),
     ts_mmr_sum := ts_mmr_sum s + ps_mmr p\<rparr>"

definition batch_place ::
  "PlayerSlot \<Rightarrow> TeamState \<times> TeamState \<times> assignment \<Rightarrow> TeamState \<times> TeamState \<times> assignment" where
  "batch_place p st =
     (case st of (s1, s2, out) \<Rightarrow>
        if GreedyPlaceOne (ps_profile_id p) s1 s2 = 1
        then (team_add 1 p s1, s2, umap_put (ps_guid p) 1 out)
        else (s1, team_add 2 p s2, umap_put (ps_guid p) 2 out))"

definition slot_tier :: "PlayerSlot \<Rightarrow> rat" where
  "slot_tier p = max (RoleHealValue (ps_profile_id p) 1) (RoleHealValue (ps_profile_id p) 2)"

definition batch_ctx :: "TeamState \<Rightarrow> TeamState \<Rightarrow> SeedContext" where
  "batch_ctx seed1 seed2 =
     \<lparr>sc_mmr_tf1 = ts_mmr_sum seed1, sc_mmr_tf2 = ts_mmr_sum seed2,
      sc_n_tf1 = ts_size seed1, sc_n_tf2 = ts_size seed2,
      sc_class_mmr_tf1 = ts_class_mmr_sum seed1, sc_class_mmr_tf2 = ts_class_mmr_sum seed2,
      sc_class_n_tf1 = ts_class_counts seed1, sc_class_n_tf2 = ts_class_counts seed2\<rparr>"

definition slot_player :: "PlayerSlot \<Rightarrow> Player" where
  "slot_player p = \<lparr>pl_guid = ps_guid p, pl_profile_id = ps_profile_id p, pl_mmr = ps_mmr p,
     pl_swappable = True\<rparr>"

definition ComputeBatchAssignment ::
  "(PlayerSlot list \<Rightarrow> PlayerSlot list) \<Rightarrow> PlayerSlot list \<Rightarrow> TeamState \<Rightarrow> TeamState \<Rightarrow> assignment" where
  "ComputeBatchAssignment shuffle players seed1 seed2 =
     (if players = [] then []
      else
        let sorted = stable_sort (\<lambda>a b. slot_tier a > slot_tier b) (shuffle players);
            out = snd (snd (fold batch_place sorted (seed1, seed2, [])))
        in snd (BalanceByMmrOptimal (map slot_player players) out (batch_ctx seed1 seed2)))"

subsection \<open>The deltas\<close>

record RosterEntry =
  re_guid :: guid
  re_profile_id :: u32
  re_current_tf :: int
  re_mmr :: rat

definition class_of :: "RosterEntry list \<Rightarrow> (guid, u32) umap" where
  "class_of roster = fold (\<lambda>r. umap_put (re_guid r) (re_profile_id r)) roster []"

definition target1 :: "RosterEntry list \<Rightarrow> assignment \<Rightarrow> (u32, int) umap" where
  "target1 roster ideal =
     fold (\<lambda>(g, tf) m. if tf = 1 then umap_mod 0 (\<lambda>n. n + 1) (umap_get 0 (class_of roster) g) m else m)
       ideal []"

record roster_tally =
  rt_cur1 :: "(u32, int) umap"
  rt_total :: "(u32, int) umap"
  rt_on1 :: "(u32, (guid \<times> rat) list) umap"
  rt_on2 :: "(u32, (guid \<times> rat) list) umap"
  rt_diff :: rat

definition tally_step :: "RosterEntry \<Rightarrow> roster_tally \<Rightarrow> roster_tally" where
  "tally_step r t0 =
     (let t = t0\<lparr>rt_total := umap_mod 0 (\<lambda>n. n + 1) (re_profile_id r) (rt_total t0)\<rparr>
      in if re_current_tf r = 1 then
           t\<lparr>rt_cur1 := umap_mod 0 (\<lambda>n. n + 1) (re_profile_id r) (rt_cur1 t),
             rt_on1 := umap_mod [] (\<lambda>xs. xs @ [(re_guid r, re_mmr r)]) (re_profile_id r) (rt_on1 t),
             rt_diff := rt_diff t + re_mmr r\<rparr>
         else
           t\<lparr>rt_on2 := umap_mod [] (\<lambda>xs. xs @ [(re_guid r, re_mmr r)]) (re_profile_id r) (rt_on2 t),
             rt_diff := rt_diff t - re_mmr r\<rparr>)"

definition tally_roster :: "RosterEntry list \<Rightarrow> roster_tally" where
  "tally_roster roster =
     fold tally_step roster \<lparr>rt_cur1 = [], rt_total = [], rt_on1 = [], rt_on2 = [], rt_diff = 0\<rparr>"

definition next_diff :: "int \<Rightarrow> rat \<Rightarrow> rat \<Rightarrow> rat" where
  "next_diff to_tf diff mmr = (if to_tf = 2 then diff - 2 * mmr else diff + 2 * mmr)"

definition best_mover ::
  "(guid, int) umap \<Rightarrow> rat \<Rightarrow> int \<Rightarrow> (guid \<times> rat) list \<Rightarrow> (guid \<times> rat) option" where
  "best_mover moves diff to_tf side =
     fold (\<lambda>e best.
        if map_of moves (fst e) \<noteq> None then best
        else (case best of
                None \<Rightarrow> Some e
              | Some b \<Rightarrow> if \<bar>next_diff to_tf diff (snd e)\<bar> < \<bar>next_diff to_tf diff (snd b)\<bar>
                          then Some e else best))
       side None"

fun pick_movers ::
  "nat \<Rightarrow> (guid \<times> rat) list \<Rightarrow> int \<Rightarrow> (guid, int) umap \<times> rat \<Rightarrow> (guid, int) umap \<times> rat" where
  "pick_movers 0 side to_tf st = st"
| "pick_movers (Suc n) side to_tf (moves, diff) =
     (case best_mover moves diff to_tf side of
        None \<Rightarrow> (moves, diff)
      | Some (g, mmr) \<Rightarrow>
          pick_movers n side to_tf (umap_put g to_tf moves, next_diff to_tf diff mmr))"

definition rebalance_class ::
  "(u32, int) umap \<Rightarrow> roster_tally \<Rightarrow> u32 \<Rightarrow> (guid, int) umap \<times> rat \<Rightarrow> (guid, int) umap \<times> rat" where
  "rebalance_class want t cls st =
     (let want1 = umap_get 0 want cls; have1 = umap_get 0 (rt_cur1 t) cls
      in if have1 > want1 then pick_movers (nat (have1 - want1)) (umap_get [] (rt_on1 t) cls) 2 st
         else if have1 < want1 then pick_movers (nat (want1 - have1)) (umap_get [] (rt_on2 t) cls) 1 st
         else st)"

definition roster_slot :: "RosterEntry \<Rightarrow> PlayerSlot" where
  \<comment> \<open>\<open>slots.push_back({r.guid, r.profile_id})\<close>: the rating keeps its default\<close>
  "roster_slot r = \<lparr>ps_guid = re_guid r, ps_profile_id = re_profile_id r, ps_mmr = 1000\<rparr>"

definition ComputeRebalanceDelta ::
  "(PlayerSlot list \<Rightarrow> PlayerSlot list) \<Rightarrow> RosterEntry list \<Rightarrow> (guid, int) umap" where
  "ComputeRebalanceDelta shuffle roster =
     (if roster = [] then []
      else
        let ideal = ComputeBatchAssignment shuffle (map roster_slot roster) empty_team empty_team;
            want = target1 roster ideal;
            t = tally_roster roster
        in fst (fold (rebalance_class want t) (map fst (rt_total t)) ([], rt_diff t)))"

definition roster_player :: "RosterEntry \<Rightarrow> Player" where
  "roster_player r = \<lparr>pl_guid = re_guid r, pl_profile_id = re_profile_id r, pl_mmr = re_mmr r,
     pl_swappable = True\<rparr>"

definition current_sides :: "RosterEntry list \<Rightarrow> assignment" where
  "current_sides roster = fold (\<lambda>r. umap_put (re_guid r) (re_current_tf r)) roster []"

definition ComputeMmrOptimalDelta :: "RosterEntry list \<Rightarrow> (guid, int) umap option" where
  \<comment> \<open>\<open>None\<close> when an \<open>at\<close> throws\<close>
  "ComputeMmrOptimalDelta roster =
     (if roster = [] then Some []
      else
        let players = map roster_player roster;
            before = BalanceCost players (current_sides roster) empty_ctx
        in (case BalanceByMmrOptimal players (current_sides roster) empty_ctx of
              (None, _) \<Rightarrow> None
            | (Some _, assignment) \<Rightarrow>
                let after = BalanceCost players assignment empty_ctx
                in if before - after < kMmrRebalanceMinImprovement then Some []
                   else if list_all (\<lambda>r. map_of assignment (re_guid r) \<noteq> None) roster
                   then Some (fold (\<lambda>r m.
                       let tf = the (map_of assignment (re_guid r))
                       in if tf \<noteq> re_current_tf r then umap_put (re_guid r) tf m else m) roster [])
                   else None))"

definition ComputeFullReassignDelta ::
  "(PlayerSlot list \<Rightarrow> PlayerSlot list) \<Rightarrow> RosterEntry list \<Rightarrow> (guid, int) umap" where
  "ComputeFullReassignDelta shuffle roster =
     (if roster = [] then []
      else
        let assignment = ComputeBatchAssignment shuffle (map roster_slot roster) empty_team empty_team
        in fold (\<lambda>r m.
             (case map_of assignment (re_guid r) of
                None \<Rightarrow> m
              | Some tf \<Rightarrow> if tf \<noteq> re_current_tf r then umap_put (re_guid r) tf m else m)) roster [])"

datatype RebalanceGate = AnyImprovement | DiscreteThreshold

definition kActiveGate :: RebalanceGate where "kActiveGate = AnyImprovement"

definition gate_counts :: "RosterEntry list \<Rightarrow> int \<times> int \<times> (u32, int) umap \<times> (u32, int) umap" where
  "gate_counts roster =
     fold (\<lambda>r (size1, size2, c1, c2).
        if re_current_tf r = 1 then (size1 + 1, size2, umap_mod 0 (\<lambda>n. n + 1) (re_profile_id r) c1, c2)
        else (size1, size2 + 1, c1, umap_mod 0 (\<lambda>n. n + 1) (re_profile_id r) c2)) roster (0, 0, [], [])"

definition discrete_gate :: "RosterEntry list \<Rightarrow> bool" where
  "discrete_gate roster =
     (case gate_counts roster of (size1, size2, c1, c2) \<Rightarrow>
        \<bar>size1 - size2\<bar> \<ge> kDiscreteThreshold \<or>
        list_ex (\<lambda>cls. \<bar>umap_get 0 c1 cls - umap_get 0 c2 cls\<bar> \<ge> kDiscreteThreshold)
          (map fst c1 @ map fst c2))"

definition ShouldRebalance :: "RosterEntry list \<Rightarrow> (guid, int) umap \<Rightarrow> bool" where
  "ShouldRebalance roster delta =
     (case kActiveGate of
        AnyImprovement \<Rightarrow> delta \<noteq> []
      | DiscreteThreshold \<Rightarrow> discrete_gate roster)"

section \<open>Batch assignment\<close>

text \<open>Head counts dominate as long as the sides stay below 800 players.\<close>

definition team_ok :: "nat \<Rightarrow> TeamState \<Rightarrow> bool" where
  "team_ok n s \<longleftrightarrow> 0 \<le> ts_heal_score s \<and> ts_heal_score s \<le> of_int (ts_size s) \<and> ts_size s + int n \<le> 800"

lemma RoleHealValue_bounds: "0 \<le> RoleHealValue p tf \<and> RoleHealValue p tf \<le> 1"
  by (simp add: RoleHealValue_def kRoboticsDefBonus_def)

lemma team_add_simps [simp]:
  "ts_size (team_add tf p s) = ts_size s + 1"
  "ts_heal_score (team_add tf p s) = ts_heal_score s + RoleHealValue (ps_profile_id p) tf"
  by (simp_all add: team_add_def)

lemma team_ok_add: "team_ok (Suc n) s \<Longrightarrow> team_ok n (team_add tf p s)"
  using RoleHealValue_bounds [of "ps_profile_id p" tf] by (auto simp: team_ok_def)

lemma team_ok_mono: "team_ok (Suc n) s \<Longrightarrow> team_ok n s"
  by (simp add: team_ok_def)

lemma co_aligned_bound:
  assumes "\<bar>h :: rat\<bar> \<le> 801" "\<bar>d :: int\<bar> \<le> 800"
  shows "0 \<le> max 0 (h * of_int d)" "max 0 (h * of_int d) \<le> 640800"
proof -
  have "\<bar>of_int d :: rat\<bar> \<le> of_int 800" using assms(2) by (metis of_int_abs of_int_le_iff)
  then have "\<bar>h * of_int d\<bar> \<le> 801 * 800" unfolding abs_mult using assms(1) by (intro mult_mono) auto
  then show "0 \<le> max 0 (h * of_int d)" "max 0 (h * of_int d) \<le> 640800" by auto
qed

text \<open>
  With the sizes \<open>a\<close>, \<open>b\<close>, the class counts \<open>c\<close>, \<open>d\<close> and the heal difference \<open>h\<close>: the
  cost of side 1 minus the cost of side 2.
\<close>

lemma PlacementCost_gap:
  assumes "team_ok 1 s1" "team_ok 1 s2"
  shows "\<bar>PlacementCost 1 p s1 s2 - PlacementCost 2 p s1 s2
     - 100000 * of_int (\<bar>ts_size s1 + 1 - ts_size s2\<bar> - \<bar>ts_size s1 - (ts_size s2 + 1)\<bar>)\<bar> \<le> 194242"
proof -
  define h1 where "h1 = ts_heal_score s1 + RoleHealValue p 1 - ts_heal_score s2"
  define h2 where "h2 = ts_heal_score s1 - (ts_heal_score s2 + RoleHealValue p 2)"
  define d1 where "d1 = ts_size s1 + 1 - ts_size s2"
  define d2 where "d2 = ts_size s1 - (ts_size s2 + 1)"
  define c1 where "c1 = \<bar>ClassCountOn s1 p + 1 - ClassCountOn s2 p\<bar>"
  define c2 where "c2 = \<bar>ClassCountOn s1 p - (ClassCountOn s2 p + 1)\<bar>"
  define m1 where "m1 = max 0 (h1 * of_int d1)"
  define m2 where "m2 = max 0 (h2 * of_int d2)"
  have e1: "PlacementCost 1 p s1 s2 = 1000 * of_int c1 + \<bar>h1\<bar> + 100000 * of_int \<bar>d1\<bar> + 3/10 * m1"
    by (simp add: PlacementCost_def Let_def kAlpha_def kBeta_def kGamma_def kDelta_def h1_def d1_def c1_def m1_def)
  have e2: "PlacementCost 2 p s1 s2 = 1000 * of_int c2 + \<bar>h2\<bar> + 100000 * of_int \<bar>d2\<bar> + 3/10 * m2"
    by (simp add: PlacementCost_def Let_def kAlpha_def kBeta_def kGamma_def kDelta_def h2_def d2_def c2_def m2_def)
  have "\<bar>c1 - c2\<bar> \<le> 2" by (simp add: c1_def c2_def)
  then have c: "\<bar>of_int c1 - of_int c2 :: rat\<bar> \<le> 2"
    by (metis of_int_abs of_int_diff of_int_le_iff of_int_numeral)
  have hv: "0 \<le> RoleHealValue p 1" "RoleHealValue p 1 \<le> 1" "0 \<le> RoleHealValue p 2" "RoleHealValue p 2 \<le> 1"
    using RoleHealValue_bounds by auto
  have h: "\<bar>\<bar>h1\<bar> - \<bar>h2\<bar>\<bar> \<le> 2" using hv unfolding h1_def h2_def by linarith
  have s: "0 \<le> ts_size s1" "ts_size s1 \<le> 799" "0 \<le> ts_size s2" "ts_size s2 \<le> 799"
  proof -
    have "(0 :: rat) \<le> of_int (ts_size s1)" "(0 :: rat) \<le> of_int (ts_size s2)"
      using assms unfolding team_ok_def by linarith+
    then show "0 \<le> ts_size s1" "0 \<le> ts_size s2" by simp_all
    show "ts_size s1 \<le> 799" "ts_size s2 \<le> 799" using assms unfolding team_ok_def by linarith+
  qed
  then have s': "(of_int (ts_size s1) :: rat) \<le> 799" "(of_int (ts_size s2) :: rat) \<le> 799"
    by (simp_all)
  have hs: "0 \<le> ts_heal_score s1" "ts_heal_score s1 \<le> 799" "0 \<le> ts_heal_score s2" "ts_heal_score s2 \<le> 799"
    using assms s' unfolding team_ok_def by linarith+
  have "\<bar>h1\<bar> \<le> 801" "\<bar>h2\<bar> \<le> 801" using hs hv by (simp_all add: h1_def h2_def)
  moreover have "\<bar>d1\<bar> \<le> 800" "\<bar>d2\<bar> \<le> 800" using s by (simp_all add: d1_def d2_def)
  ultimately have m: "0 \<le> m1" "m1 \<le> 640800" "0 \<le> m2" "m2 \<le> 640800"
    unfolding m1_def m2_def by (simp_all only: co_aligned_bound)
  show ?thesis using c h m unfolding e1 e2 d1_def [symmetric] d2_def [symmetric]
    by (simp add: abs_le_iff)
qed

lemma GreedyPlaceOne_smaller:
  assumes "team_ok 1 s1" "team_ok 1 s2"
  shows "ts_size s1 < ts_size s2 \<Longrightarrow> GreedyPlaceOne p s1 s2 = 1"
    and "ts_size s2 < ts_size s1 \<Longrightarrow> GreedyPlaceOne p s1 s2 = 2"
proof -
  let ?z = "\<bar>ts_size s1 + 1 - ts_size s2\<bar> - \<bar>ts_size s1 - (ts_size s2 + 1)\<bar>"
  note gap = PlacementCost_gap [OF assms, of p]
  show "GreedyPlaceOne p s1 s2 = 1" if "ts_size s1 < ts_size s2"
  proof -
    have z: "?z = -2" using that by simp
    have "PlacementCost 1 p s1 s2 < PlacementCost 2 p s1 s2" using gap unfolding z by (simp add: abs_le_iff)
    then show ?thesis by (simp add: GreedyPlaceOne_def Let_def)
  qed
  show "GreedyPlaceOne p s1 s2 = 2" if "ts_size s2 < ts_size s1"
  proof -
    have z: "?z = 2" using that by simp
    have "PlacementCost 2 p s1 s2 < PlacementCost 1 p s1 s2" using gap unfolding z by (simp add: abs_le_iff)
    then show ?thesis by (simp add: GreedyPlaceOne_def Let_def)
  qed
qed

lemma GreedyPlaceOne_range: "GreedyPlaceOne p s1 s2 = 1 \<or> GreedyPlaceOne p s1 s2 = 2"
  by (simp add: GreedyPlaceOne_def Let_def)

abbreviation batch_side :: "PlayerSlot \<Rightarrow> TeamState \<times> TeamState \<times> assignment \<Rightarrow> int" where
  "batch_side p st \<equiv> GreedyPlaceOne (ps_profile_id p) (fst st) (fst (snd st))"

interpretation batch_fill: greedy_fill batch_place ps_guid batch_side "\<lambda>st. snd (snd st)"
    "\<lambda>st. ts_size (fst st)" "\<lambda>st. ts_size (fst (snd st))" "\<lambda>n st. team_ok n (fst st) \<and> team_ok n (fst (snd st))"
proof
  fix p and st :: "TeamState \<times> TeamState \<times> assignment" and n :: nat
  obtain s1 s2 out where st: "st = (s1, s2, out)" by (metis prod.exhaust)
  show "batch_side p st = 1 \<or> batch_side p st = 2" by (rule GreedyPlaceOne_range)
  show "map_of (snd (snd (batch_place p st))) k
      = (if k = ps_guid p then Some (batch_side p st) else map_of (snd (snd st)) k)" for k
    using GreedyPlaceOne_range [of "ps_profile_id p" s1 s2] by (auto simp: st batch_place_def)
  show "ts_size (fst (batch_place p st)) = ts_size (fst st) + (if batch_side p st = 1 then 1 else 0)"
    and "ts_size (fst (snd (batch_place p st))) = ts_size (fst (snd st)) + (if batch_side p st = 2 then 1 else 0)"
    using GreedyPlaceOne_range [of "ps_profile_id p" s1 s2] by (auto simp: st batch_place_def)
  assume ok: "team_ok (Suc n) (fst st) \<and> team_ok (Suc n) (fst (snd st))"
  then show "team_ok n (fst (batch_place p st)) \<and> team_ok n (fst (snd (batch_place p st)))"
    by (auto simp: st batch_place_def team_ok_add team_ok_mono)
  have one: "team_ok 1 s1" "team_ok 1 s2" using ok by (simp_all add: st team_ok_def)
  show "ts_size (fst st) < ts_size (fst (snd st)) \<Longrightarrow> batch_side p st = 1"
    and "ts_size (fst (snd st)) < ts_size (fst st) \<Longrightarrow> batch_side p st = 2"
    using GreedyPlaceOne_smaller [OF one] by (simp_all add: st)
qed

definition greedy_batch ::
  "(PlayerSlot list \<Rightarrow> PlayerSlot list) \<Rightarrow> PlayerSlot list \<Rightarrow> TeamState \<Rightarrow> TeamState \<Rightarrow> assignment" where
  "greedy_batch shuffle players seed1 seed2 =
     snd (snd (fold batch_place (stable_sort (\<lambda>a b. slot_tier a > slot_tier b) (shuffle players))
       (seed1, seed2, [])))"

lemma greedy_batch_props:
  assumes sh: "mset (shuffle players) = mset players" and dist: "distinct (map ps_guid players)"
  shows "g \<in> ps_guid ` set players \<Longrightarrow> sided (greedy_batch shuffle players a b) g"
    and "g \<notin> ps_guid ` set players \<Longrightarrow> map_of (greedy_batch shuffle players a b) g = None"
    and "team_ok (length players) a \<Longrightarrow> team_ok (length players) b \<Longrightarrow>
      \<bar>(ts_size a + int (side_count (greedy_batch shuffle players a b) (map ps_guid players) 1))
      - (ts_size b + int (side_count (greedy_batch shuffle players a b) (map ps_guid players) 2))\<bar>
      = gap_after \<bar>ts_size a - ts_size b\<bar> (length players)"
proof -
  let ?ss = "stable_sort (\<lambda>a b. slot_tier a > slot_tier b) (shuffle players)"
  have m: "mset ?ss = mset players" using sh by simp
  then have s: "set ?ss = set players" by (metis set_mset_mset)
  show "sided (greedy_batch shuffle players a b) g" if "g \<in> ps_guid ` set players"
    unfolding greedy_batch_def by (rule batch_fill.fold_sided) (use that s in simp)
  show "map_of (greedy_batch shuffle players a b) g = None" if "g \<notin> ps_guid ` set players"
    unfolding greedy_batch_def using batch_fill.fold_frame [of g ?ss "(a, b, [])"] that s by simp
  show "\<bar>(ts_size a + int (side_count (greedy_batch shuffle players a b) (map ps_guid players) 1))
      - (ts_size b + int (side_count (greedy_batch shuffle players a b) (map ps_guid players) 2))\<bar>
      = gap_after \<bar>ts_size a - ts_size b\<bar> (length players)"
    if "team_ok (length players) a" "team_ok (length players) b"
    unfolding greedy_batch_def
    using batch_fill.balanced [where s = "(a, b, [])" and ps = ?ss, OF _ _ dist] that m
    by simp
qed

lemma batch_eq:
  "players \<noteq> [] \<Longrightarrow> ComputeBatchAssignment shuffle players a b =
     snd (BalanceByMmrOptimal (map slot_player players) (greedy_batch shuffle players a b) (batch_ctx a b))"
  by (simp add: ComputeBatchAssignment_def greedy_batch_def Let_def)

lemma slot_player_simps [simp]:
  "pl_guid (slot_player p) = ps_guid p" "pl_profile_id (slot_player p) = ps_profile_id p"
  by (simp_all add: slot_player_def)

lemma placed_batch:
  assumes "mset (shuffle players) = mset players" "distinct (map ps_guid players)"
  shows "placed (map slot_player players) (greedy_batch shuffle players a b)"
  using greedy_batch_props(1) [of shuffle players, OF assms] assms(2) by (auto simp: placed_def sided_def comp_def)

lemma batch_props:
  assumes sh: "mset (shuffle players) = mset players" and dist: "distinct (map ps_guid players)"
  shows "g \<in> ps_guid ` set players \<Longrightarrow> sided (ComputeBatchAssignment shuffle players a b) g"
    and "g \<notin> ps_guid ` set players \<Longrightarrow> map_of (ComputeBatchAssignment shuffle players a b) g = None"
    and "tf = 1 \<or> tf = 2 \<Longrightarrow> side_count (ComputeBatchAssignment shuffle players a b) (map ps_guid players) tf
       = side_count (greedy_batch shuffle players a b) (map ps_guid players) tf"
proof -
  have *: "(g \<in> ps_guid ` set players \<longrightarrow> sided (ComputeBatchAssignment shuffle players a b) g) \<and>
    (g \<notin> ps_guid ` set players \<longrightarrow> map_of (ComputeBatchAssignment shuffle players a b) g = None) \<and>
    (tf = 1 \<or> tf = 2 \<longrightarrow> side_count (ComputeBatchAssignment shuffle players a b) (map ps_guid players) tf
       = side_count (greedy_batch shuffle players a b) (map ps_guid players) tf)" for tf
  proof (cases "players = []")
    case True
    then show ?thesis by (simp add: ComputeBatchAssignment_def)
  next
    case False
    let ?out = "greedy_batch shuffle players a b"
    note pl = placed_batch [of shuffle players a b, OF assms]
    note mv = BalanceByMmrOptimal_moves(1) [OF pl, of "batch_ctx a b", folded batch_eq [OF False]]
    have guids: "map pl_guid (map slot_player players) = map ps_guid players" by (simp add: comp_def)
    have "placed (map slot_player players) (ComputeBatchAssignment shuffle players a b)"
      using mv pl by (simp add: same_class_moves_def)
    moreover have "map_of (ComputeBatchAssignment shuffle players a b) g = map_of ?out g"
      if "g \<notin> ps_guid ` set players"
      using mv that unfolding same_class_moves_def by (metis (no_types, lifting) guids image_iff list.set_map mem_Collect_eq)
    ultimately show ?thesis
      using same_class_moves_count [OF mv pl, of tf] greedy_batch_props(2) [of shuffle players, OF assms] unfolding guids
      by (auto simp: placed_def sided_def)
  qed
  show "g \<in> ps_guid ` set players \<Longrightarrow> sided (ComputeBatchAssignment shuffle players a b) g"
    "g \<notin> ps_guid ` set players \<Longrightarrow> map_of (ComputeBatchAssignment shuffle players a b) g = None"
    using * by blast+
  show "tf = 1 \<or> tf = 2 \<Longrightarrow> side_count (ComputeBatchAssignment shuffle players a b) (map ps_guid players) tf
       = side_count (greedy_batch shuffle players a b) (map ps_guid players) tf"
    using * by blast
qed

section \<open>The rebalance delta\<close>

text \<open>Passes of the optimiser keep the assignment a function of its keys.\<close>

lemma fold_put_wf: "umap_wf m \<Longrightarrow> umap_wf (fold (\<lambda>x. umap_put (k x) (v x)) xs m)"
  by (induction xs arbitrary: m) auto

lemma AssignClassCombination_wf:
  "umap_wf asg \<Longrightarrow> AssignClassCombination ps n t asg = (b, asg') \<Longrightarrow> umap_wf asg'"
  by (auto simp: AssignClassCombination_def Let_def apply_combo_def fold_put_wf
      split: prod.splits option.splits if_splits)

lemma assign_classes_wf: "umap_wf asg \<Longrightarrow> assign_classes es asg = (b, asg') \<Longrightarrow> umap_wf asg'"
proof (induction es arbitrary: asg)
  case (Cons e es)
  obtain ps n t where e: "e = (ps, n, t)" by (metis prod.exhaust)
  obtain c asg1 where c: "AssignClassCombination ps n t asg = (c, asg1)" by force
  have "umap_wf asg1" by (rule AssignClassCombination_wf [OF Cons.prems(1) c])
  then show ?case using Cons.IH [of asg1] Cons.prems(2) by (cases c) (simp_all add: e c)
qed simp

lemma BalanceByMmrOptimal_wf: "umap_wf asg \<Longrightarrow> umap_wf (snd (BalanceByMmrOptimal ps asg seed))"
  unfolding BalanceByMmrOptimal_def Let_def
  by (auto split: prod.splits option.splits bool.splits dest: assign_classes_wf)

lemma batch_wf: "umap_wf (ComputeBatchAssignment shuffle players a b)"
proof -
  have "umap_wf (snd (snd (fold batch_place ps (a, b, m))))" if "umap_wf m" for ps a b m
    using that by (induction ps arbitrary: a b m) (auto simp: batch_place_def)
  then show ?thesis
    by (cases "players = []") (simp_all add: ComputeBatchAssignment_def Let_def BalanceByMmrOptimal_wf)
qed

text \<open>The players of one class, as sets of guids.\<close>

definition roster_guids :: "RosterEntry list \<Rightarrow> (RosterEntry \<Rightarrow> bool) \<Rightarrow> guid set" where
  "roster_guids roster P = re_guid ` {r \<in> set roster. P r}"

lemma length_filter_card:
  "distinct (map re_guid roster) \<Longrightarrow> length (filter P roster) = card (roster_guids roster P)"
proof -
  assume d: "distinct (map re_guid roster)"
  then have "inj_on re_guid (set roster)" by (simp add: distinct_map)
  then have "inj_on re_guid {r \<in> set roster. P r}" by (rule inj_on_subset) blast
  then have "card (roster_guids roster P) = card {r \<in> set roster. P r}"
    unfolding roster_guids_def by (rule card_image)
  also have "\<dots> = length (filter P roster)"
    using d by (metis distinct_card distinct_filter distinct_map set_filter)
  finally show ?thesis by simp
qed

lemma fst_tally_roster:
  "umap_get 0 (rt_cur1 (tally_roster roster)) cls
     = int (length (filter (\<lambda>r. re_profile_id r = cls \<and> re_current_tf r = 1) roster)) \<and>
   umap_get [] (rt_on1 (tally_roster roster)) cls
     = map (\<lambda>r. (re_guid r, re_mmr r)) (filter (\<lambda>r. re_profile_id r = cls \<and> re_current_tf r = 1) roster) \<and>
   umap_get [] (rt_on2 (tally_roster roster)) cls
     = map (\<lambda>r. (re_guid r, re_mmr r)) (filter (\<lambda>r. re_profile_id r = cls \<and> re_current_tf r \<noteq> 1) roster) \<and>
   umap_wf (rt_total (tally_roster roster)) \<and>
   fst ` set (rt_total (tally_roster roster)) = re_profile_id ` set roster"
proof (induction roster rule: rev_induct)
  case Nil
  then show ?case by (simp add: tally_roster_def)
next
  case (snoc r roster)
  have "tally_roster (roster @ [r]) = tally_step r (tally_roster roster)" by (simp add: tally_roster_def)
  then show ?case using snoc by (auto simp: tally_step_def Let_def umap_wf_mod)
qed

lemma class_of_get:
  "distinct (map re_guid roster) \<Longrightarrow> r \<in> set roster \<Longrightarrow> umap_get 0 (class_of roster) (re_guid r) = re_profile_id r"
  unfolding class_of_def umap_get_def
  by (simp add: ud.find_fold_put_distinct [where key = re_guid and val = re_profile_id])

lemma target1_get:
  assumes dist: "distinct (map re_guid roster)" and wf: "umap_wf ideal"
    and dom: "\<And>g. map_of ideal g \<noteq> None \<Longrightarrow> g \<in> re_guid ` set roster"
  shows "umap_get 0 (target1 roster ideal) cls
    = int (card (roster_guids roster (\<lambda>r. re_profile_id r = cls \<and> map_of ideal (re_guid r) = Some 1)))"
proof -
  have step: "umap_get 0 (fold (\<lambda>(g, tf) m. if tf = 1 then umap_mod 0 (\<lambda>n. n + 1) (f g) m else m) es m) cls
      = umap_get 0 m cls + int (length (filter (\<lambda>e. f (fst e) = cls \<and> snd e = (1::int)) es))"
    for f :: "guid \<Rightarrow> u32" and es and m :: "(u32, int) umap"
    by (induction es arbitrary: m) auto
  let ?P = "\<lambda>e. umap_get 0 (class_of roster) (fst e) = cls \<and> snd e = (1::int)"
  have "length (filter ?P ideal) = card (fst ` set (filter ?P ideal))"
  proof -
    have "distinct (map fst (filter ?P ideal))"
      using wf unfolding umap_wf_def by (rule distinct_map_filter)
    from distinct_card [OF this] show ?thesis by simp
  qed
  also have "fst ` set (filter ?P ideal)
      = roster_guids roster (\<lambda>r. re_profile_id r = cls \<and> map_of ideal (re_guid r) = Some 1)"
  proof (rule set_eqI)
    fix g
    have "g \<in> fst ` set (filter ?P ideal) \<longleftrightarrow> map_of ideal g = Some 1 \<and> umap_get 0 (class_of roster) g = cls"
      using umap_find_in_set [OF wf, of g 1] by (force simp: image_iff)
    also have "\<dots> \<longleftrightarrow> g \<in> roster_guids roster (\<lambda>r. re_profile_id r = cls \<and> map_of ideal (re_guid r) = Some 1)"
      using dom [of g] class_of_get [OF dist] by (auto simp: roster_guids_def)
    finally show "g \<in> fst ` set (filter ?P ideal)
      \<longleftrightarrow> g \<in> roster_guids roster (\<lambda>r. re_profile_id r = cls \<and> map_of ideal (re_guid r) = Some 1)" .
  qed
  finally show ?thesis by (simp add: target1_def step)
qed

lemma best_mover_spec:
  "case best_mover moves diff tf side of
     None \<Rightarrow> \<forall>e \<in> set side. map_of moves (fst e) \<noteq> None
   | Some b \<Rightarrow> b \<in> set side \<and> map_of moves (fst b) = None"
proof -
  define f where "f = (\<lambda>e best. if map_of moves (fst e) \<noteq> None then best
        else (case best of None \<Rightarrow> Some e
              | Some b \<Rightarrow> if \<bar>next_diff tf diff (snd e)\<bar> < \<bar>next_diff tf diff (snd b)\<bar> then Some e else best))"
  have step: "f e acc = acc \<and> (acc \<noteq> None \<or> map_of moves (fst e) \<noteq> None)
      \<or> f e acc = Some e \<and> map_of moves (fst e) = None" for e acc
    unfolding f_def by (cases acc) auto
  have none: "fold f es acc = None \<Longrightarrow> acc = None \<and> (\<forall>e \<in> set es. map_of moves (fst e) \<noteq> None)" for es acc
  proof (induction es arbitrary: acc)
    case (Cons e es)
    then have "f e acc = None" "\<forall>e \<in> set es. map_of moves (fst e) \<noteq> None" by simp_all
    then show ?case using step [of e acc] by auto
  qed simp
  have some: "fold f es acc = Some b \<Longrightarrow> acc = Some b \<or> (b \<in> set es \<and> map_of moves (fst b) = None)" for es acc b
  proof (induction es arbitrary: acc)
    case (Cons e es)
    then have "f e acc = Some b \<or> (b \<in> set es \<and> map_of moves (fst b) = None)" by simp
    then show ?case using step [of e acc] by auto
  qed simp
  have "best_mover moves diff tf side = fold f side None" by (simp add: best_mover_def f_def)
  then show ?thesis using none [of side None] some [of side None]
    by (cases "fold f side None") auto
qed

lemma pick_movers_spec:
  assumes "pick_movers n side tf (moves, diff) = (moves', diff')"
    and "finite A" "A = fst ` set side" "\<forall>g \<in> A. g \<notin> M \<longleftrightarrow> map_of moves g = None" "M \<subseteq> A" "n \<le> card (A - M)"
  shows "\<exists>N. M \<subseteq> N \<and> N \<subseteq> A \<and> card N = card M + n \<and>
    (\<forall>g. map_of moves' g = (if g \<in> N - M then Some tf else map_of moves g))"
  using assms
proof (induction n arbitrary: moves diff M)
  case 0
  then show ?case by (intro exI [of _ M]) simp
next
  case (Suc n)
  have "A - M \<noteq> {}" using Suc.prems(6) by (metis card.empty not_less_eq_eq zero_le)
  then have "\<exists>e \<in> set side. map_of moves (fst e) = None" using Suc.prems(3,4) by auto
  then obtain b where b: "best_mover moves diff tf side = Some b" "b \<in> set side" "map_of moves (fst b) = None"
    using best_mover_spec [where moves = moves and diff = diff and tf = tf and side = side]
    by (auto split: option.splits)
  let ?g = "fst b" and ?M = "insert (fst b) M"
  have g: "?g \<in> A" "?g \<notin> M" using b Suc.prems(3,4) by auto
  have fin: "finite M" using Suc.prems(2,5) finite_subset by blast
  have run: "pick_movers n side tf (umap_put ?g tf moves, next_diff tf diff (snd b)) = (moves', diff')"
    using Suc.prems(1) b(1) by (simp split: prod.splits)
  have le: "n \<le> card (A - ?M)"
  proof -
    have "A - ?M = (A - M) - {?g}" by blast
    then show ?thesis using Suc.prems(2,6) g by (simp add: card_Diff_singleton)
  qed
  have unmoved: "\<forall>h \<in> A. h \<notin> ?M \<longleftrightarrow> map_of (umap_put ?g tf moves) h = None" using Suc.prems(4) by simp
  have sub: "?M \<subseteq> A" using Suc.prems(5) g by simp
  obtain N where N: "?M \<subseteq> N" "N \<subseteq> A" "card N = card ?M + n"
    "\<forall>h. map_of moves' h = (if h \<in> N - ?M then Some tf else map_of (umap_put ?g tf moves) h)"
    using Suc.IH [OF run Suc.prems(2,3) unmoved sub le] by blast
  show ?case
  proof (intro exI [of _ N] conjI allI)
    show "M \<subseteq> N" "N \<subseteq> A" using N by auto
    show "card N = card M + Suc n" using N(3) g fin by simp
    show "map_of moves' h = (if h \<in> N - M then Some tf else map_of moves h)" for h
      using N(1,4) g(2) by (cases "h = ?g") auto
  qed
qed

text \<open>One class: the moves bring its TF1 count to the wanted one, and no other move is made.\<close>

definition new_side :: "(guid, int) umap \<Rightarrow> RosterEntry \<Rightarrow> int" where
  "new_side moves r = (case map_of moves (re_guid r) of Some t \<Rightarrow> t | None \<Rightarrow> re_current_tf r)"

definition class_done :: "RosterEntry list \<Rightarrow> (guid, int) umap \<Rightarrow> u32 \<Rightarrow> int \<Rightarrow> bool" where
  "class_done roster moves cls w \<longleftrightarrow>
     int (card (roster_guids roster (\<lambda>r. re_profile_id r = cls \<and> new_side moves r = 1))) = w \<and>
     int (card (roster_guids roster (\<lambda>r. re_profile_id r = cls \<and> map_of moves (re_guid r) \<noteq> None)))
       = \<bar>int (card (roster_guids roster (\<lambda>r. re_profile_id r = cls \<and> re_current_tf r = 1))) - w\<bar> \<and>
     (\<forall>r \<in> set roster. re_profile_id r = cls \<longrightarrow> new_side moves r = 1 \<or> new_side moves r = 2)"

lemma roster_guids_iff:
  "distinct (map re_guid roster) \<Longrightarrow> r \<in> set roster \<Longrightarrow> re_guid r \<in> roster_guids roster P \<longleftrightarrow> P r"
  by (auto simp: roster_guids_def distinct_map inj_on_def)

lemma roster_guids_eqI:
  "distinct (map re_guid roster) \<Longrightarrow> S \<subseteq> re_guid ` set roster \<Longrightarrow>
   (\<And>r. r \<in> set roster \<Longrightarrow> P r \<longleftrightarrow> re_guid r \<in> S) \<Longrightarrow> roster_guids roster P = S"
  by (auto simp: roster_guids_def)

lemma roster_guids_disjoint:
  assumes "distinct (map re_guid roster)" "\<And>r. r \<in> set roster \<Longrightarrow> P r \<Longrightarrow> \<not> Q r"
  shows "roster_guids roster P \<inter> roster_guids roster Q = {}"
proof -
  have "\<not> Q r" if "r \<in> set roster" "P r" "re_guid r \<in> roster_guids roster Q" for r
    using assms(2) that by blast
  then show ?thesis
    using roster_guids_iff [OF assms(1)] by (auto simp: roster_guids_def [of roster P])
qed

lemma finite_roster_guids [simp]: "finite (roster_guids roster P)"
  by (simp add: roster_guids_def)

lemma roster_guids_sub: "roster_guids roster P \<subseteq> re_guid ` set roster"
  by (auto simp: roster_guids_def)

lemma class_done_move:
  assumes dist: "distinct (map re_guid roster)" and tf: "\<forall>r \<in> set roster. re_current_tf r = 1 \<or> re_current_tf r = 2"
    and free: "\<forall>r \<in> set roster. re_profile_id r = cls \<longrightarrow> map_of moves (re_guid r) = None"
    and N: "N \<subseteq> roster_guids roster (\<lambda>r. re_profile_id r = cls \<and> re_current_tf r = 3 - t)"
    and t: "t = 1 \<or> t = 2"
    and find: "\<forall>g. map_of moves' g = (if g \<in> N then Some t else map_of moves g)"
    and cN: "int (card N) = n"
    and have1: "have1 = int (card (roster_guids roster (\<lambda>r. re_profile_id r = cls \<and> re_current_tf r = 1)))"
    and w: "w = (if t = 2 then have1 - n else have1 + n)"
  shows "class_done roster moves' cls w"
proof -
  let ?G1 = "roster_guids roster (\<lambda>r. re_profile_id r = cls \<and> re_current_tf r = 1)"
  have fin: "finite N" using N finite_roster_guids finite_subset by blast
  have inN: "re_profile_id r = cls \<and> re_current_tf r = 3 - t" if "r \<in> set roster" "re_guid r \<in> N" for r
    using subsetD [OF N that(2)] roster_guids_iff [OF dist that(1)] by simp
  have ns: "new_side moves' r = (if re_guid r \<in> N then t else re_current_tf r)"
    if "r \<in> set roster" "re_profile_id r = cls" for r
    using find free that by (simp add: new_side_def)
  have moved: "roster_guids roster (\<lambda>r. re_profile_id r = cls \<and> map_of moves' (re_guid r) \<noteq> None) = N"
  proof (rule roster_guids_eqI [OF dist])
    show "N \<subseteq> re_guid ` set roster" using N roster_guids_sub by blast
    show "re_profile_id r = cls \<and> map_of moves' (re_guid r) \<noteq> None \<longleftrightarrow> re_guid r \<in> N"
      if r: "r \<in> set roster" for r
      using find free r inN [OF r] by simp
  qed
  have side: "roster_guids roster (\<lambda>r. re_profile_id r = cls \<and> new_side moves' r = 1)
      = (if t = 2 then ?G1 - N else ?G1 \<union> N)"
  proof (rule roster_guids_eqI [OF dist])
    show "(if t = 2 then ?G1 - N else ?G1 \<union> N) \<subseteq> re_guid ` set roster"
    proof -
      have "?G1 \<subseteq> re_guid ` set roster" "N \<subseteq> re_guid ` set roster"
        using N roster_guids_sub by blast+
      then show ?thesis by auto
    qed
    show "re_profile_id r = cls \<and> new_side moves' r = 1 \<longleftrightarrow> re_guid r \<in> (if t = 2 then ?G1 - N else ?G1 \<union> N)"
      if r: "r \<in> set roster" for r
    proof -
      have g: "re_guid r \<in> ?G1 \<longleftrightarrow> re_profile_id r = cls \<and> re_current_tf r = 1"
        by (rule roster_guids_iff [OF dist r])
      have mem: "re_guid r \<in> (if t = 2 then ?G1 - N else ?G1 \<union> N)
          \<longleftrightarrow> (if t = 2 then (re_profile_id r = cls \<and> re_current_tf r = 1) \<and> re_guid r \<notin> N
              else (re_profile_id r = cls \<and> re_current_tf r = 1) \<or> re_guid r \<in> N)"
        by (simp add: g)
      show ?thesis
      proof (cases "re_guid r \<in> N")
        case True
        then show ?thesis unfolding mem using ns [OF r] inN [OF r True] t by auto
      next
        case False
        then show ?thesis unfolding mem using ns [OF r] by auto
      qed
    qed
  qed
  have card: "int (card (if t = 2 then ?G1 - N else ?G1 \<union> N)) = w"
  proof (cases "t = 2")
    case True
    then have "N \<subseteq> ?G1" using N by simp
    then have "card (?G1 - N) = card ?G1 - card N" "card N \<le> card ?G1"
      using fin by (simp_all add: card_Diff_subset card_mono)
    then show ?thesis using True w cN have1 by simp
  next
    case False
    then have "?G1 \<inter> roster_guids roster (\<lambda>r. re_profile_id r = cls \<and> re_current_tf r = 3 - t) = {}"
      using t by (intro roster_guids_disjoint [OF dist]) auto
    then have "?G1 \<inter> N = {}" using N by blast
    then have "card (?G1 \<union> N) = card ?G1 + card N" using fin by (simp add: card_Un_disjoint)
    then show ?thesis using False w cN have1 by simp
  qed
  have "\<bar>have1 - w\<bar> = n" using w cN by auto
  then show ?thesis
    unfolding class_done_def moved side card using cN have1 ns tf t by auto
qed

lemma rebalance_class_step:
  assumes dist: "distinct (map re_guid roster)" and tf: "\<forall>r \<in> set roster. re_current_tf r = 1 \<or> re_current_tf r = 2"
    and free: "\<forall>r \<in> set roster. re_profile_id r = cls \<longrightarrow> map_of moves (re_guid r) = None"
    and want: "umap_get 0 want cls = w" "0 \<le> w" "w \<le> int (card (roster_guids roster (\<lambda>r. re_profile_id r = cls)))"
    and run: "rebalance_class want (tally_roster roster) cls (moves, diff) = (moves', diff')"
  shows "class_done roster moves' cls w"
    and "\<forall>g. g \<notin> roster_guids roster (\<lambda>r. re_profile_id r = cls) \<longrightarrow> map_of moves' g = map_of moves g"
proof -
  let ?G = "\<lambda>tf. roster_guids roster (\<lambda>r. re_profile_id r = cls \<and> re_current_tf r = tf)"
  define have1 where "have1 = int (card (?G 1))"
  note tl = fst_tally_roster [of roster cls]
  have cur: "umap_get 0 (rt_cur1 (tally_roster roster)) cls = have1"
    using tl by (simp add: have1_def length_filter_card [OF dist])
  have A1: "fst ` set (umap_get [] (rt_on1 (tally_roster roster)) cls) = ?G 1"
    using tl by (simp add: roster_guids_def image_image)
  have A2: "fst ` set (umap_get [] (rt_on2 (tally_roster roster)) cls) = ?G 2"
  proof -
    have "{r \<in> set roster. re_profile_id r = cls \<and> re_current_tf r \<noteq> 1}
        = {r \<in> set roster. re_profile_id r = cls \<and> re_current_tf r = 2}"
      using tf by auto
    then show ?thesis using tl by (simp add: roster_guids_def image_image)
  qed
  have split: "card (roster_guids roster (\<lambda>r. re_profile_id r = cls)) = card (?G 1) + card (?G 2)"
  proof -
    have "roster_guids roster (\<lambda>r. re_profile_id r = cls) = ?G 1 \<union> ?G 2"
      using tf by (auto simp: roster_guids_def)
    moreover have "?G 1 \<inter> ?G 2 = {}" by (rule roster_guids_disjoint [OF dist]) auto
    ultimately show ?thesis by (simp add: card_Un_disjoint)
  qed
  have sub: "?G tf \<subseteq> roster_guids roster (\<lambda>r. re_profile_id r = cls)" for tf
    by (auto simp: roster_guids_def)
  have unm: "\<forall>g \<in> ?G tf. g \<notin> {} \<longleftrightarrow> map_of moves g = None" for tf
    using free by (auto simp: roster_guids_def)
  have "class_done roster moves' cls w \<and>
    (\<forall>g. g \<notin> roster_guids roster (\<lambda>r. re_profile_id r = cls) \<longrightarrow> map_of moves' g = map_of moves g)"
  proof (cases have1 w rule: linorder_cases)
    case greater
    then have "pick_movers (nat (have1 - w)) (umap_get [] (rt_on1 (tally_roster roster)) cls) 2 (moves, diff) = (moves', diff')"
      using run by (simp add: rebalance_class_def cur want(1))
    note spec = pick_movers_spec [OF this finite_roster_guids A1 [symmetric] unm empty_subsetI]
    have "nat (have1 - w) \<le> card (?G 1 - {})" using want(2) by (simp add: have1_def)
    from spec [OF this] obtain N where N: "N \<subseteq> ?G 1" "card N = nat (have1 - w)"
      "\<forall>g. map_of moves' g = (if g \<in> N then Some 2 else map_of moves g)"
      unfolding card.empty add_0 Diff_empty by blast
    have "class_done roster moves' cls w"
      by (rule class_done_move [OF dist tf free, where N = N and t = 2, OF _ _ N(3) refl refl])
        (use N(1,2) greater in \<open>auto simp: have1_def\<close>)
    then show ?thesis using N(1,3) sub by auto
  next
    case less
    then have "pick_movers (nat (w - have1)) (umap_get [] (rt_on2 (tally_roster roster)) cls) 1 (moves, diff) = (moves', diff')"
      using run by (simp add: rebalance_class_def cur want(1))
    note spec = pick_movers_spec [OF this finite_roster_guids A2 [symmetric] unm empty_subsetI]
    have "nat (w - have1) \<le> card (?G 2 - {})" using want(3) split by (simp add: have1_def)
    from spec [OF this] obtain N where N: "N \<subseteq> ?G 2" "card N = nat (w - have1)"
      "\<forall>g. map_of moves' g = (if g \<in> N then Some 1 else map_of moves g)"
      unfolding card.empty add_0 Diff_empty by blast
    have "class_done roster moves' cls w"
      by (rule class_done_move [OF dist tf free, where N = N and t = 1, OF _ _ N(3) refl refl])
        (use N(1,2) less in \<open>auto simp: have1_def\<close>)
    then show ?thesis using N(1,3) sub by auto
  next
    case equal
    then have "moves' = moves" using run by (simp add: rebalance_class_def cur want(1))
    moreover have "class_done roster moves cls w"
      by (rule class_done_move [OF dist tf free, where N = "{}" and t = 1 and moves' = moves, OF _ _ _ refl refl])
        (use equal in \<open>auto simp: have1_def\<close>)
    ultimately show ?thesis by simp
  qed
  then show "class_done roster moves' cls w"
    "\<forall>g. g \<notin> roster_guids roster (\<lambda>r. re_profile_id r = cls) \<longrightarrow> map_of moves' g = map_of moves g"
    by blast+
qed

lemma class_done_cong:
  assumes "\<And>g. g \<in> roster_guids roster (\<lambda>r. re_profile_id r = cls) \<Longrightarrow> map_of m g = map_of m' g"
  shows "class_done roster m cls w \<longleftrightarrow> class_done roster m' cls w"
proof -
  have *: "map_of m (re_guid r) = map_of m' (re_guid r)" "new_side m r = new_side m' r"
    if "r \<in> set roster" "re_profile_id r = cls" for r
    using assms [of "re_guid r"] that by (auto simp: roster_guids_def new_side_def)
  have "roster_guids roster (\<lambda>r. re_profile_id r = cls \<and> new_side m r = 1)
      = roster_guids roster (\<lambda>r. re_profile_id r = cls \<and> new_side m' r = 1)"
    "roster_guids roster (\<lambda>r. re_profile_id r = cls \<and> map_of m (re_guid r) \<noteq> None)
      = roster_guids roster (\<lambda>r. re_profile_id r = cls \<and> map_of m' (re_guid r) \<noteq> None)"
    unfolding roster_guids_def using * by (auto intro!: arg_cong [where f = "image re_guid"])
  then show ?thesis unfolding class_done_def using *(2) by simp
qed

lemma fold_rebalance_class:
  assumes dist: "distinct (map re_guid roster)" and tf: "\<forall>r \<in> set roster. re_current_tf r = 1 \<or> re_current_tf r = 2"
    and want: "\<And>cls. 0 \<le> umap_get 0 want cls \<and> umap_get 0 want cls \<le> int (card (roster_guids roster (\<lambda>r. re_profile_id r = cls)))"
  shows "distinct cs \<Longrightarrow> \<forall>cls \<in> set cs. \<forall>r \<in> set roster. re_profile_id r = cls \<longrightarrow> map_of (fst st) (re_guid r) = None \<Longrightarrow>
    st' = fold (rebalance_class want (tally_roster roster)) cs st \<Longrightarrow>
    (\<forall>cls \<in> set cs. class_done roster (fst st') cls (umap_get 0 want cls)) \<and>
    (\<forall>g. (\<forall>cls \<in> set cs. g \<notin> roster_guids roster (\<lambda>r. re_profile_id r = cls)) \<longrightarrow> map_of (fst st') g = map_of (fst st) g)"
proof (induction cs arbitrary: st)
  case (Cons c cs)
  define st1 where "st1 = rebalance_class want (tally_roster roster) c st"
  have run: "rebalance_class want (tally_roster roster) c (fst st, snd st) = (fst st1, snd st1)"
    by (simp add: st1_def)
  have free: "\<forall>r \<in> set roster. re_profile_id r = c \<longrightarrow> map_of (fst st) (re_guid r) = None"
    using Cons.prems(2) by simp
  have w: "0 \<le> umap_get 0 want c" "umap_get 0 want c \<le> int (card (roster_guids roster (\<lambda>r. re_profile_id r = c)))"
    using want by auto
  note one = rebalance_class_step [OF dist tf free refl w run]
  have other: "g \<notin> roster_guids roster (\<lambda>r. re_profile_id r = c)"
    if "g \<in> roster_guids roster (\<lambda>r. re_profile_id r = cls)" "cls \<in> set cs" for g cls
  proof -
    have "c \<noteq> cls" using that(2) Cons.prems(1) by auto
    then have "roster_guids roster (\<lambda>r. re_profile_id r = c) \<inter> roster_guids roster (\<lambda>r. re_profile_id r = cls) = {}"
      by (intro roster_guids_disjoint [OF dist]) auto
    then show ?thesis using that(1) by blast
  qed
  have "re_guid r \<in> roster_guids roster (\<lambda>r. re_profile_id r = re_profile_id r')"
    if "r \<in> set roster" "re_profile_id r = re_profile_id r'" for r r'
    using that by (auto simp: roster_guids_def)
  then have free1: "\<forall>cls \<in> set cs. \<forall>r \<in> set roster. re_profile_id r = cls \<longrightarrow> map_of (fst st1) (re_guid r) = None"
    using one(2) Cons.prems(2) other by (metis list.set_intros(2))
  have st': "st' = fold (rebalance_class want (tally_roster roster)) cs st1"
    using Cons.prems(3) by (simp add: st1_def)
  note IH = Cons.IH [OF _ free1 st']
  have "class_done roster (fst st') c (umap_get 0 want c)"
  proof -
    have "map_of (fst st') g = map_of (fst st1) g" if "g \<in> roster_guids roster (\<lambda>r. re_profile_id r = c)" for g
    proof -
      have "\<forall>cls \<in> set cs. g \<notin> roster_guids roster (\<lambda>r. re_profile_id r = cls)" using other that by blast
      then show ?thesis using IH Cons.prems(1) by simp
    qed
    then show ?thesis using one(1) class_done_cong by blast
  qed
  then show ?case using IH Cons.prems(1) one(2) by auto
qed simp

definition rebalance_want :: "(PlayerSlot list \<Rightarrow> PlayerSlot list) \<Rightarrow> RosterEntry list \<Rightarrow> assignment" where
  "rebalance_want shuffle roster =
     ComputeBatchAssignment shuffle (map roster_slot roster) empty_team empty_team"

definition apply_delta :: "(guid, int) umap \<Rightarrow> RosterEntry \<Rightarrow> RosterEntry" where
  "apply_delta delta r = r\<lparr>re_current_tf := new_side delta r\<rparr>"

definition on_side :: "RosterEntry list \<Rightarrow> int \<Rightarrow> nat" where
  "on_side roster tf = length (filter (\<lambda>r. re_current_tf r = tf) roster)"

definition class_on_side :: "RosterEntry list \<Rightarrow> u32 \<Rightarrow> int \<Rightarrow> nat" where
  "class_on_side roster cls tf = length (filter (\<lambda>r. re_profile_id r = cls \<and> re_current_tf r = tf) roster)"

lemma rebalance_done:
  assumes dist: "distinct (map re_guid roster)" and tf: "\<forall>r \<in> set roster. re_current_tf r = 1 \<or> re_current_tf r = 2"
    and sh: "mset (shuffle (map roster_slot roster)) = mset (map roster_slot roster)"
    and delta: "delta = ComputeRebalanceDelta shuffle roster" and ne: "roster \<noteq> []"
  shows "class_done roster delta cls
      (int (card (roster_guids roster (\<lambda>r. re_profile_id r = cls \<and> map_of (rebalance_want shuffle roster) (re_guid r) = Some 1))))"
    and "g \<notin> re_guid ` set roster \<Longrightarrow> map_of delta g = None"
proof -
  let ?ideal = "rebalance_want shuffle roster"
  let ?want = "target1 roster ?ideal"
  let ?cs = "map fst (rt_total (tally_roster roster))"
  have guids: "map ps_guid (map roster_slot roster) = map re_guid roster" by (simp add: roster_slot_def comp_def)
  have dom: "g \<in> re_guid ` set roster" if "map_of ?ideal g \<noteq> None" for g
    using batch_props(2) [of shuffle "map roster_slot roster" g, OF sh, unfolded guids, OF dist] that
    unfolding rebalance_want_def using arg_cong [OF guids, of set] by (metis list.set_map)
  have w: "umap_get 0 ?want c
      = int (card (roster_guids roster (\<lambda>r. re_profile_id r = c \<and> map_of ?ideal (re_guid r) = Some 1)))" for c
    by (rule target1_get [OF dist _ dom]) (simp add: rebalance_want_def batch_wf)
  have le: "0 \<le> umap_get 0 ?want c \<and> umap_get 0 ?want c \<le> int (card (roster_guids roster (\<lambda>r. re_profile_id r = c)))" for c
    unfolding w by (simp, rule card_mono) (auto simp: roster_guids_def)
  have cs: "distinct ?cs" "set ?cs = re_profile_id ` set roster"
    using fst_tally_roster [of roster] by (simp_all add: umap_wf_def)
  define st' where "st' = fold (rebalance_class ?want (tally_roster roster)) ?cs ([], rt_diff (tally_roster roster))"
  have d: "delta = fst st'"
    using ne by (simp add: delta ComputeRebalanceDelta_def Let_def st'_def rebalance_want_def)
  have all: "(\<forall>c \<in> set ?cs. class_done roster (fst st') c (umap_get 0 ?want c)) \<and>
    (\<forall>g. (\<forall>c \<in> set ?cs. g \<notin> roster_guids roster (\<lambda>r. re_profile_id r = c)) \<longrightarrow> map_of (fst st') g = None)"
    using fold_rebalance_class [OF dist tf le cs(1), of "([], rt_diff (tally_roster roster))" st'] by (simp add: st'_def)
  show "class_done roster delta cls
      (int (card (roster_guids roster (\<lambda>r. re_profile_id r = cls \<and> map_of ?ideal (re_guid r) = Some 1))))"
  proof (cases "cls \<in> set ?cs")
    case True
    then have "class_done roster (fst st') cls (umap_get 0 ?want cls)" using all by blast
    then show ?thesis unfolding d w .
  next
    case False
    then have no: "\<forall>r \<in> set roster. re_profile_id r \<noteq> cls" using cs(2) by auto
    then have none: "roster_guids roster (\<lambda>r. re_profile_id r = cls \<and> P r) = {}" for P
      by (auto simp: roster_guids_def)
    show ?thesis unfolding class_done_def none using no by simp
  qed
  show "map_of delta g = None" if "g \<notin> re_guid ` set roster"
    using all that unfolding d by (metis roster_guids_sub subsetD)
qed

lemma class_on_side_delta:
  assumes "distinct (map re_guid roster)"
  shows "class_on_side (map (apply_delta delta) roster) cls 1
    = card (roster_guids roster (\<lambda>r. re_profile_id r = cls \<and> new_side delta r = 1))"
  using length_filter_card [OF assms] by (simp add: class_on_side_def filter_map comp_def apply_delta_def)

lemma on_side_classes:
  "on_side roster tf = (\<Sum>c \<in> re_profile_id ` set roster. class_on_side roster c tf)"
  unfolding on_side_def class_on_side_def by (rule length_filter_classes) auto

lemma on_side_both:
  "\<forall>r \<in> set roster. re_current_tf r = 1 \<or> re_current_tf r = 2 \<Longrightarrow> on_side roster 1 + on_side roster 2 = length roster"
  by (induction roster) (auto simp: on_side_def)

section \<open>Properties\<close>

text \<open>
  Batch assignment is total and even: for any permutation the shuffle produces, every
  player gets side 1 or 2, nobody else is in the result, and the head gap to the seeds is
  the one that filling the smaller side first leaves, as long as a side stays below 800
  players and the heal score of a seed does not exceed its size.
\<close>

theorem batch_total_even:
  assumes "mset (shuffle players) = mset players" "distinct (map ps_guid players)"
    and "team_ok (length players) seed1" "team_ok (length players) seed2"
    and "out = ComputeBatchAssignment shuffle players seed1 seed2"
  shows "(\<forall>g. map_of out g \<noteq> None \<longleftrightarrow> g \<in> ps_guid ` set players) \<and>
    (\<forall>g \<in> ps_guid ` set players. sided out g) \<and>
    \<bar>(ts_size seed1 + int (side_count out (map ps_guid players) 1))
     - (ts_size seed2 + int (side_count out (map ps_guid players) 2))\<bar>
      = gap_after \<bar>ts_size seed1 - ts_size seed2\<bar> (length players)"
proof -
  note bp = batch_props [of shuffle players, OF assms(1,2), of _ seed1 seed2, folded assms(5)]
  have "map_of out g \<noteq> None \<longleftrightarrow> g \<in> ps_guid ` set players" for g
    using bp(1,2) [of g] by (cases "g \<in> ps_guid ` set players") (auto simp: sided_def)
  then show ?thesis
    using bp(1) greedy_batch_props(3) [of shuffle players, OF assms(1-4)] bp(3) [of 1] bp(3) [of 2] by simp
qed

definition ex_slots :: "PlayerSlot list" where
  "ex_slots = [\<lparr>ps_guid = ''a'', ps_profile_id = 680, ps_mmr = 1500\<rparr>,
     \<lparr>ps_guid = ''b'', ps_profile_id = 567, ps_mmr = 1200\<rparr>, \<lparr>ps_guid = ''c'', ps_profile_id = 680, ps_mmr = 900\<rparr>]"

theorem batch_total_even_witness:
  "sided (ComputeBatchAssignment rev ex_slots empty_team empty_team) ''b'' \<and>
   \<bar>int (side_count (ComputeBatchAssignment rev ex_slots empty_team empty_team) [''a'', ''b'', ''c''] 1)
    - int (side_count (ComputeBatchAssignment rev ex_slots empty_team empty_team) [''a'', ''b'', ''c''] 2)\<bar> = 1"
  using batch_total_even [of rev ex_slots empty_team empty_team, OF _ _ _ _ refl]
  by (simp add: ex_slots_def empty_team_def team_ok_def gap_after_def)

text \<open>
  The rebalance delta reaches the ideal class counts with the fewest moves: applied to
  the roster it gives every class exactly the TF1 head count of the ideal assignment, it
  moves no more players of a class than the difference of the two counts, and it names only
  players of the roster.
\<close>

theorem rebalance_minimal:
  assumes "distinct (map re_guid roster)" "\<forall>r \<in> set roster. re_current_tf r = 1 \<or> re_current_tf r = 2"
    and "mset (shuffle (map roster_slot roster)) = mset (map roster_slot roster)"
    and "delta = ComputeRebalanceDelta shuffle roster"
    and "want = length (filter (\<lambda>r. re_profile_id r = cls \<and> map_of (rebalance_want shuffle roster) (re_guid r) = Some 1) roster)"
  shows "class_on_side (map (apply_delta delta) roster) cls 1 = want \<and>
    int (length (filter (\<lambda>r. re_profile_id r = cls \<and> map_of delta (re_guid r) \<noteq> None) roster))
      = \<bar>int (class_on_side roster cls 1) - int want\<bar> \<and>
    (\<forall>g. map_of delta g \<noteq> None \<longrightarrow> g \<in> re_guid ` set roster)"
proof (cases "roster = []")
  case True
  then show ?thesis using assms(4,5) by (simp add: class_on_side_def ComputeRebalanceDelta_def)
next
  case False
  note rd = rebalance_done [of roster shuffle delta, OF assms(1-4) False]
  note card = length_filter_card [OF assms(1)]
  have want: "want = card (roster_guids roster (\<lambda>r. re_profile_id r = cls \<and> map_of (rebalance_want shuffle roster) (re_guid r) = Some 1))"
    unfolding assms(5) card ..
  note dn = rd(1) [of cls, unfolded class_done_def, folded want]
  have a: "class_on_side (map (apply_delta delta) roster) cls 1 = want"
    unfolding class_on_side_delta [OF assms(1)] using dn by linarith
  have b: "int (length (filter (\<lambda>r. re_profile_id r = cls \<and> map_of delta (re_guid r) \<noteq> None) roster))
      = \<bar>int (class_on_side roster cls 1) - int want\<bar>"
    unfolding class_on_side_def card using dn by linarith
  have c: "g \<in> re_guid ` set roster" if "map_of delta g \<noteq> None" for g
    using rd(2) [of g] that by (cases "g \<in> re_guid ` set roster") simp_all
  show ?thesis
    by (intro conjI allI impI) (fact a, fact b, erule c)
qed

definition ex_roster :: "RosterEntry list" where
  "ex_roster = [\<lparr>re_guid = ''a'', re_profile_id = 680, re_current_tf = 1, re_mmr = 1500\<rparr>,
     \<lparr>re_guid = ''b'', re_profile_id = 680, re_current_tf = 1, re_mmr = 1200\<rparr>,
     \<lparr>re_guid = ''c'', re_profile_id = 567, re_current_tf = 1, re_mmr = 900\<rparr>]"

theorem rebalance_minimal_witness:
  "class_on_side (map (apply_delta (ComputeRebalanceDelta id ex_roster)) ex_roster) 680 1
     = length (filter (\<lambda>r. re_profile_id r = 680 \<and> map_of (rebalance_want id ex_roster) (re_guid r) = Some 1) ex_roster)"
  using rebalance_minimal [of ex_roster id _ _ 680, OF _ _ _ refl refl] by (simp add: ex_roster_def)

text \<open>
  C30. Applying the rebalance delta evens the match: whatever the teams looked like, the two
  sides afterwards differ by at most one player, by one exactly when the head count is odd.
\<close>

theorem rebalance_evens:
  assumes "distinct (map re_guid roster)" "\<forall>r \<in> set roster. re_current_tf r = 1 \<or> re_current_tf r = 2"
    and "mset (shuffle (map roster_slot roster)) = mset (map roster_slot roster)"
    and "length roster \<le> 800" "after = map (apply_delta (ComputeRebalanceDelta shuffle roster)) roster"
  shows "\<bar>int (on_side after 1) - int (on_side after 2)\<bar> = int (length roster) mod 2"
proof (cases "roster = []")
  case True
  then show ?thesis using assms(5) by (simp add: on_side_def)
next
  case False
  let ?ideal = "rebalance_want shuffle roster" and ?delta = "ComputeRebalanceDelta shuffle roster"
  let ?slots = "map roster_slot roster"
  note rd = rebalance_done [of roster shuffle, OF assms(1-3) refl False]
  have guids: "map ps_guid ?slots = map re_guid roster" by (simp add: roster_slot_def comp_def)
  have prof: "re_profile_id (apply_delta d r) = re_profile_id r" for d r by (simp add: apply_delta_def)
  have "class_on_side after c 1
      = length (filter (\<lambda>r. re_profile_id r = c \<and> map_of ?ideal (re_guid r) = Some 1) roster)" for c
    using rd(1) [of c] unfolding assms(5) class_on_side_delta [OF assms(1)] length_filter_card [OF assms(1)]
      class_done_def by simp
  moreover have "re_profile_id ` set after = re_profile_id ` set roster"
    by (simp add: assms(5) image_image prof)
  moreover have "length (filter (\<lambda>r. map_of ?ideal (re_guid r) = Some 1) roster)
      = (\<Sum>c \<in> re_profile_id ` set roster.
          length (filter (\<lambda>r. re_profile_id r = c \<and> map_of ?ideal (re_guid r) = Some 1) roster))"
    by (rule length_filter_classes) auto
  ultimately have one: "on_side after 1 = side_count ?ideal (map re_guid roster) 1"
    by (simp add: on_side_classes side_count_def filter_map comp_def)
  have sided: "new_side ?delta r = 1 \<or> new_side ?delta r = 2" if "r \<in> set roster" for r
    using rd(1) [of "re_profile_id r"] that by (simp add: class_done_def)
  have both: "on_side after 1 + on_side after 2 = length roster"
    using on_side_both [of after] sided by (auto simp: assms(5) apply_delta_def)
  have ideal_both: "side_count ?ideal (map re_guid roster) 1 + side_count ?ideal (map re_guid roster) 2 = length roster"
  proof -
    have "sided ?ideal g" if "g \<in> set (map re_guid roster)" for g
      using batch_props(1) [of shuffle ?slots g, OF assms(3), unfolded guids, OF assms(1)] that
        arg_cong [OF guids, of set] unfolding rebalance_want_def by (simp add: image_image)
    then have "side_count ?ideal gs 1 + side_count ?ideal gs 2 = length gs" if "set gs \<subseteq> set (map re_guid roster)" for gs
      using that by (induction gs) (auto simp: sided_def)
    from this [of "map re_guid roster"] show ?thesis by simp
  qed
  have "\<bar>int (side_count ?ideal (map re_guid roster) 1) - int (side_count ?ideal (map re_guid roster) 2)\<bar>
      = gap_after 0 (length roster)"
  proof -
    have "team_ok (length ?slots) empty_team" using assms(4) by (simp add: team_ok_def empty_team_def)
    from greedy_batch_props(3) [of shuffle ?slots, OF assms(3), unfolded guids, OF assms(1) this this]
    show ?thesis
      using batch_props(3) [of shuffle ?slots 1, OF assms(3), unfolded guids, OF assms(1), of empty_team empty_team]
        batch_props(3) [of shuffle ?slots 2, OF assms(3), unfolded guids, OF assms(1), of empty_team empty_team]
      by (simp add: rebalance_want_def empty_team_def)
  qed
  then have "\<bar>int (side_count ?ideal (map re_guid roster) 1) - int (side_count ?ideal (map re_guid roster) 2)\<bar>
      = int (length roster) mod 2" by (simp add: gap_after_def)
  then show ?thesis using one both ideal_both by linarith
qed

theorem rebalance_evens_witness:
  "\<bar>int (on_side (map (apply_delta (ComputeRebalanceDelta id ex_roster)) ex_roster) 1)
    - int (on_side (map (apply_delta (ComputeRebalanceDelta id ex_roster)) ex_roster) 2)\<bar> = 1"
  using rebalance_evens [of ex_roster id, OF _ _ _ _ refl] by (simp add: ex_roster_def)

section \<open>The rating delta\<close>

lemma BalanceCost_cong:
  assumes "\<And>p. p \<in> set players \<Longrightarrow> map_of a (pl_guid p) = map_of b (pl_guid p)"
  shows "BalanceCost players a seed = BalanceCost players b seed"
proof -
  have "Tally players a = Tally players b"
    unfolding Tally_def by (rule fold_cong) (use assms in auto)
  moreover have "fold (\<lambda>p t. case map_of a (pl_guid p) of None \<Rightarrow> t | Some tf \<Rightarrow> tally_add tf (pl_mmr p) t) players empty_tally
      = fold (\<lambda>p t. case map_of b (pl_guid p) of None \<Rightarrow> t | Some tf \<Rightarrow> tally_add tf (pl_mmr p) t) players empty_tally"
    by (rule fold_cong) (use assms in auto)
  ultimately show ?thesis by (simp add: BalanceCost_def ClassMmrGap_def OverallMmrGap_def)
qed

definition roster_cost :: "RosterEntry list \<Rightarrow> rat" where
  "roster_cost roster = BalanceCost (map roster_player roster) (current_sides roster) empty_ctx"

lemma current_sides_find:
  "distinct (map re_guid roster) \<Longrightarrow> r \<in> set roster \<Longrightarrow> map_of (current_sides roster) (re_guid r) = Some (re_current_tf r)"
  unfolding current_sides_def by (rule ud.find_fold_put_distinct)

lemma roster_player_simps [simp]:
  "pl_guid (roster_player r) = re_guid r" "pl_profile_id (roster_player r) = re_profile_id r"
  by (simp_all add: roster_player_def)

definition moved_delta :: "RosterEntry list \<Rightarrow> assignment \<Rightarrow> (guid, int) umap" where
  "moved_delta roster asg =
     fold (\<lambda>r m. let tf = the (map_of asg (re_guid r))
        in if tf \<noteq> re_current_tf r then umap_put (re_guid r) tf m else m) roster []"

lemma moved_delta_find:
  assumes "distinct (map re_guid roster)" "r \<in> set roster" "map_of asg (re_guid r) \<noteq> None"
  shows "new_side (moved_delta roster asg) r = the (map_of asg (re_guid r))"
proof -
  let ?f = "\<lambda>r m. let tf = the (map_of asg (re_guid r))
        in if tf \<noteq> re_current_tf r then umap_put (re_guid r) tf m else m"
  have frame: "g \<notin> re_guid ` set rs \<Longrightarrow> map_of (fold ?f rs m) g = map_of m g" for rs m g
    by (induction rs arbitrary: m) (auto simp: Let_def)
  have "distinct (map re_guid rs) \<Longrightarrow> r \<in> set rs \<Longrightarrow> map_of m (re_guid r) = None \<Longrightarrow>
      map_of (fold ?f rs m) (re_guid r)
        = (if the (map_of asg (re_guid r)) \<noteq> re_current_tf r then Some (the (map_of asg (re_guid r))) else None)" for rs m
  proof (induction rs arbitrary: m)
    case (Cons q rs)
    show ?case
    proof (cases "r = q")
      case True
      then have "re_guid r \<notin> re_guid ` set rs" using Cons.prems(1) by simp
      then have "map_of (fold ?f (q # rs) m) (re_guid r) = map_of (?f r m) (re_guid r)"
        unfolding True by (simp add: frame)
      then show ?thesis using Cons.prems(3) by (simp add: Let_def)
    next
      case False
      then have r: "r \<in> set rs" using Cons.prems(2) by simp
      then have "re_guid r \<in> re_guid ` set rs" by simp
      then have rq: "re_guid r \<noteq> re_guid q" using Cons.prems(1) by auto
      then have "map_of (?f q m) (re_guid r) = None" using Cons.prems(3) rq by (simp add: Let_def)
      from Cons.IH [OF _ r this] Cons.prems(1) show ?thesis by simp
    qed
  qed simp
  from this [OF assms(1,2), of "[]"] assms(3) show ?thesis
    by (auto simp: new_side_def moved_delta_def)
qed

text \<open>
  The rating delta never throws, keeps the head count of every class on both sides, and
  is non-empty only when applying it lowers the balance cost by at least 5.
\<close>

theorem mmr_delta_contract:
  assumes dist: "distinct (map re_guid roster)" and tf: "\<forall>r \<in> set roster. re_current_tf r = 1 \<or> re_current_tf r = 2"
  shows "\<exists>delta. ComputeMmrOptimalDelta roster = Some delta \<and>
    (\<forall>cls. class_on_side (map (apply_delta delta) roster) cls 1 = class_on_side roster cls 1 \<and>
           class_on_side (map (apply_delta delta) roster) cls 2 = class_on_side roster cls 2) \<and>
    (delta = [] \<or> roster_cost (map (apply_delta delta) roster) \<le> roster_cost roster - 5)"
proof (cases "roster = []")
  case True
  then show ?thesis by (simp add: ComputeMmrOptimalDelta_def)
next
  case False
  let ?ps = "map roster_player roster" and ?cur = "current_sides roster"
  obtain n asg where run: "BalanceByMmrOptimal ?ps ?cur empty_ctx = (n, asg)" by force
  have pl: "placed ?ps ?cur"
    using dist tf current_sides_find [OF dist] by (auto simp: placed_def comp_def)
  note mv = BalanceByMmrOptimal_moves [OF pl, of empty_ctx, unfolded run, simplified]
  then have pl': "placed ?ps asg" using pl by (simp add: same_class_moves_def)
  have some: "map_of asg (re_guid r) = Some 1 \<or> map_of asg (re_guid r) = Some 2" if "r \<in> set roster" for r
    using pl' that by (auto simp: placed_def)
  have id_delta: "apply_delta [] r = r" for r by (simp add: apply_delta_def new_side_def)
  show ?thesis
  proof (cases "BalanceCost ?ps ?cur empty_ctx - BalanceCost ?ps asg empty_ctx < kMmrRebalanceMinImprovement")
    case True
    then have "ComputeMmrOptimalDelta roster = Some []"
      using False mv(2) by (auto simp: ComputeMmrOptimalDelta_def run Let_def)
    moreover have "map (apply_delta []) roster = roster" by (rule map_idI) (rule id_delta)
    ultimately show ?thesis by simp
  next
    case gain: False
    define delta where "delta = moved_delta roster asg"
    have "list_all (\<lambda>r. map_of asg (re_guid r) \<noteq> None) roster" using some by (fastforce simp: list_all_iff)
    then have res: "ComputeMmrOptimalDelta roster = Some delta"
      using False gain mv(2) by (auto simp: ComputeMmrOptimalDelta_def run Let_def delta_def moved_delta_def)
    have side: "map_of asg (re_guid r) = Some (new_side delta r)" if "r \<in> set roster" for r
      using moved_delta_find [OF dist that, of asg] some [OF that] by (auto simp: delta_def)
    have heads: "class_heads ?ps m cls t = class_on_side rs cls t"
      if "rs = map f roster" "\<And>r. r \<in> set roster \<Longrightarrow> re_profile_id (f r) = re_profile_id r"
        "\<And>r. r \<in> set roster \<Longrightarrow> map_of m (re_guid r) = Some (re_current_tf (f r))" for m cls t rs f
      unfolding class_heads_def class_on_side_def that(1) filter_map length_map comp_def
      by (intro arg_cong [where f = length] filter_cong) (auto simp: that(2,3))
    have h1: "class_heads ?ps asg cls t = class_on_side (map (apply_delta delta) roster) cls t" for cls t
      by (rule heads [OF refl]) (auto simp: apply_delta_def side)
    have h0: "class_heads ?ps ?cur cls t = class_on_side roster cls t" for cls t
      by (rule heads [where f = "\<lambda>r. r"]) (auto simp: current_sides_find [OF dist])
    have dist': "distinct (map re_guid (map (apply_delta delta) roster))"
      using dist by (simp add: comp_def apply_delta_def)
    have ps': "map roster_player (map (apply_delta delta) roster) = ?ps"
      by (simp add: roster_player_def apply_delta_def)
    have look: "map_of (current_sides (map (apply_delta delta) roster)) (re_guid r) = map_of asg (re_guid r)"
      if "r \<in> set roster" for r
      using current_sides_find [OF dist', of "apply_delta delta r"] side [OF that] that
      by (simp add: apply_delta_def)
    have "roster_cost (map (apply_delta delta) roster) = BalanceCost ?ps asg empty_ctx"
      unfolding roster_cost_def ps' by (rule BalanceCost_cong) (auto simp: look)
    then have "roster_cost (map (apply_delta delta) roster) \<le> roster_cost roster - 5"
      using gain by (simp add: roster_cost_def kMmrRebalanceMinImprovement_def)
    moreover have "class_on_side (map (apply_delta delta) roster) cls 1 = class_on_side roster cls 1 \<and>
        class_on_side (map (apply_delta delta) roster) cls 2 = class_on_side roster cls 2" for cls
      using mv(1) same_class_moves_heads2 [OF pl mv(1), of cls] h0 h1 by (simp add: same_class_moves_def)
    ultimately show ?thesis using res by blast
  qed
qed

theorem mmr_delta_contract_witness:
  "\<exists>delta. ComputeMmrOptimalDelta ex_roster = Some delta \<and>
     class_on_side (map (apply_delta delta) ex_roster) 680 1 = class_on_side ex_roster 680 1"
  using mmr_delta_contract [of ex_roster] by (auto simp: ex_roster_def)

end
