(* ===== verification/JsonValue.thy ===== *)
theory JsonValue
  imports Prelude
begin

text \<open>
  JSON values as \<open>nlohmann::json\<close> holds them (\<open>lib/nlohmann/json.hpp\<close>), and the reads the server
  makes of them: \<open>value(key, default)\<close>, \<open>contains\<close>, and \<open>get<T>\<close> for the types it asks for. A read
  that throws \<open>type_error\<close> is \<open>None\<close>. An object is a map from keys, here an association list; both
  integer kinds of the library are \<open>JInt\<close>; a floating-point number is an exact rational.
\<close>

datatype json =
    JNull
  | JBool bool
  | JInt int
  | JFloat rat
  | JString string
  | JArray "json list"
  | JObject "(string \<times> json) list"

section \<open>Narrowing conversions\<close>

definition trunc_rat :: "rat \<Rightarrow> int" where
  \<comment> \<open>the conversion of a floating-point value to an integer drops the fraction\<close>
  "trunc_rat x = (if x \<ge> 0 then \<lfloor>x\<rfloor> else \<lceil>x\<rceil>)"

definition as_i32 :: "int \<Rightarrow> int" where
  "as_i32 n = sint (word_of_int n :: u32)"

definition as_i64 :: "int \<Rightarrow> int" where
  "as_i64 n = sint (word_of_int n :: u64)"

section \<open>\<open>get<T>\<close>\<close>

text \<open>
  \<open>from_json\<close> for \<open>int\<close> and \<open>float\<close> takes a boolean as well; the one for \<open>int64_t\<close> and \<open>double\<close>, which
  are the library's own number types, does not.
\<close>

fun get_int :: "json \<Rightarrow> int option" where
  "get_int (JInt n) = Some (as_i32 n)"
| "get_int (JFloat x) = Some (as_i32 (trunc_rat x))"
| "get_int (JBool b) = Some (of_bool b)"
| "get_int _ = None"

fun get_int64 :: "json \<Rightarrow> int option" where
  "get_int64 (JInt n) = Some (as_i64 n)"
| "get_int64 (JFloat x) = Some (as_i64 (trunc_rat x))"
| "get_int64 _ = None"

fun get_float :: "json \<Rightarrow> rat option" where
  "get_float (JInt n) = Some (of_int n)"
| "get_float (JFloat x) = Some x"
| "get_float (JBool b) = Some (of_bool b)"
| "get_float _ = None"

fun get_double :: "json \<Rightarrow> rat option" where
  "get_double (JInt n) = Some (of_int n)"
| "get_double (JFloat x) = Some x"
| "get_double _ = None"

fun get_bool :: "json \<Rightarrow> bool option" where
  "get_bool (JBool b) = Some b"
| "get_bool _ = None"

fun get_string :: "json \<Rightarrow> string option" where
  "get_string (JString s) = Some s"
| "get_string _ = None"

section \<open>\<open>value\<close>, \<open>contains\<close>\<close>

fun json_value :: "(json \<Rightarrow> 'a option) \<Rightarrow> json \<Rightarrow> string \<Rightarrow> 'a \<Rightarrow> 'a option" where
  "json_value get (JObject fields) key d =
     (case map_of fields key of None \<Rightarrow> Some d | Some v \<Rightarrow> get v)"
| "json_value get _ key d = None"

abbreviation "int_at \<equiv> json_value get_int"
abbreviation "int64_at \<equiv> json_value get_int64"
abbreviation "float_at \<equiv> json_value get_float"
abbreviation "double_at \<equiv> json_value get_double"
abbreviation "bool_at \<equiv> json_value get_bool"
abbreviation "string_at \<equiv> json_value get_string"

fun array_at :: "json \<Rightarrow> string \<Rightarrow> json list option" where
  \<comment> \<open>\<open>j.contains(key) && j[key].is_array()\<close> and then the elements\<close>
  "array_at (JObject fields) key = (case map_of fields key of Some (JArray xs) \<Rightarrow> Some xs | _ \<Rightarrow> None)"
| "array_at _ key = None"

fun is_object :: "json \<Rightarrow> bool" where
  "is_object (JObject _) = True"
| "is_object _ = False"

fun is_integer :: "json \<Rightarrow> bool" where
  "is_integer (JInt _) = True"
| "is_integer _ = False"

fun is_number :: "json \<Rightarrow> bool" where
  "is_number (JInt _) = True"
| "is_number (JFloat _) = True"
| "is_number _ = False"

lemma value_needs_object: "json_value get j key d \<noteq> None \<Longrightarrow> is_object j"
  by (cases j) simp_all

lemma value_default: "is_object j \<Longrightarrow> (\<forall>fields. j = JObject fields \<longrightarrow> map_of fields key = None) \<Longrightarrow> json_value get j key d = Some d"
  by (cases j) simp_all

lemma as_i32_small: "- (2 ^ 31) \<le> n \<Longrightarrow> n < 2 ^ 31 \<Longrightarrow> as_i32 n = n"
  by (simp add: as_i32_def signed_of_int signed_take_bit_int_eq_self)

lemma as_i64_small: "- (2 ^ 63) \<le> n \<Longrightarrow> n < 2 ^ 63 \<Longrightarrow> as_i64 n = n"
  by (simp add: as_i64_def signed_of_int signed_take_bit_int_eq_self)

end
