(* ===== verification/ServerState.thy ===== *)
theory ServerState
  imports MmrService RoleWeightedSplit TeamService JsonValue
begin

text \<open>
  The state the control server keeps beside matchmaking, teams and ratings, and the services that
  both the player sessions (\<open>TcpSession\<close>) and the game-server connections (\<open>IpcServer\<close>) call: messages
  to instances, acknowledgements, timers, device statistics, the spectator overlay, the spawners of
  \<open>main.cpp\<close> and the stop of an empty instance.

  A session object and a connection are numbers; \<open>sv_sessions\<close> and \<open>sv_links\<close> are the maps
  \<open>TcpSession::g_sessions_\<close> and \<open>IpcSession::g_sessions\<close>. What is sent or done outside is appended to
  \<open>sv_out\<close>. A timer is an entry of \<open>sv_timers\<close>: it is there from \<open>async_wait\<close> until it fires or is
  cancelled, and a cancelled timer does not fire.
\<close>

section \<open>Messages\<close>

record RegisterMsg =
  rm_guid :: guid
  rm_token :: "u64 option"
  rm_profile_id :: u32
  rm_player_name :: string
  rm_user_id :: int
  rm_character_id :: int
  rm_task_force :: int
  rm_head_asm_id :: u32
  rm_gender_type :: u32
  rm_morph :: "8 word list"
  rm_skills :: "(int \<times> (int \<times> int \<times> int) list \<times> int) option"
  rm_spectator :: bool

datatype InstanceMsg =
    HelloAck bool bool bool
  | Pong
  | AdminActionAck string bool
  | RegisterPlayer RegisterMsg
  | ClosePlayer guid u64
  | LeavePlayer guid u64
  | ChangeTeamAction guid string "bool option"
  | ReturnHomeArea guid
  | AlertText guid string rat
  | EmitMatchEvent string int

record GoPlayFrame =
  gp_player_name :: string
  gp_udp_port :: u16
  gp_guid :: guid
  gp_map_name :: string
  gp_game_mode :: string
  gp_friendly_name :: u32
  gp_map_game_id :: u32
  gp_instance_id :: u32
  gp_background :: u32
  gp_task_force :: u32
  gp_class_type :: u32
  gp_class_msg :: u32

datatype ClientMsg =
    GoPlay GoPlayFrame
  | MatchInvitationFrame u32 u32
  | MatchQueueStatusFrame u32 u32
  | TeamSystemMessageFrame u32 string
  | TeamFrame TeamEffect
  | GameEventFor json
  | SelectCharacterResponse
  | LoginResponse

datatype Sent =
    ToInstance nat InstanceMsg
  | ToClient nat ClientMsg
  | StopProcess int int string
  | Spawned int string string u16 Difficulty
  | CloseSocket nat
  | CloseConnection nat
  | FinalizeSession int

section \<open>State\<close>

record IpcConn =
  ic_instance_id :: int
  ic_validated :: bool
  ic_is_home_map :: bool

record Client =
  cl_guid :: guid
  cl_player_name :: string
  cl_user_id :: int
  cl_character_id :: int
  cl_profile_id :: u32
  cl_current_queue :: u32
  cl_pending_instance :: int
  cl_pending_mode :: string
  cl_pending_tf :: int
  cl_next_token :: u64
  cl_token :: u64
  cl_ack_timer :: "nat option"
  cl_assigned :: int
  cl_home_tf :: int
  cl_spectating :: bool
  cl_session_row :: int
  cl_travelling :: bool

definition new_client :: Client where
  \<comment> \<open>the member initialisers of \<open>TcpSession\<close>\<close>
  "new_client = \<lparr>cl_guid = [], cl_player_name = [], cl_user_id = 0, cl_character_id = 0, cl_profile_id = 0,
     cl_current_queue = 0, cl_pending_instance = 0, cl_pending_mode = [], cl_pending_tf = 1,
     cl_next_token = 1, cl_token = 0, cl_ack_timer = None, cl_assigned = 0, cl_home_tf = 1,
     cl_spectating = False, cl_session_row = 0, cl_travelling = False\<rparr>"

text \<open>
  What a callback waiting for \<open>PLAYER_REGISTER_ACK\<close> captures: the target instance and the task force.
\<close>

datatype AckKind =
    HomeAck int int
  | TargetAck int int
  | SpectateAck int
  | AcceptAck int int

record PendingAck =
  pk_client :: nat
  pk_timer :: nat
  pk_kind :: AckKind

datatype TimerJob =
    HomePoll nat int
  | TravelPoll nat string int int
  | AckTimeout nat AckKind
  | ForceExit int

record DeviceStatsRow =
  dv_instance_id :: int
  dv_user_id :: int
  dv_character_id :: int
  dv_task_force :: int
  dv_device_id :: int
  dv_counters :: "int list"

record PawnSnapshot =
  sn_guid :: guid
  sn_task_force :: int
  sn_health :: int
  sn_health_max :: int
  sn_power :: rat
  sn_power_max :: rat
  sn_effect_ids :: "int list"
  sn_skill_ids :: "int list"
  sn_updated_at :: int

record Objective =
  ob_id :: int
  ob_name :: string
  ob_priority :: int
  ob_locked :: bool
  ob_active :: bool
  ob_owner_taskforce :: int
  ob_capture_pct :: rat

record MissionSnapshot =
  mn_mode :: string
  mn_remaining_seconds :: rat
  mn_timer_state :: int
  mn_attacker_points :: int
  mn_defender_points :: int
  mn_points_to_win :: int
  mn_round_current :: int
  mn_round_max :: int
  mn_boss_health :: int
  mn_boss_health_max :: int
  mn_boss_name :: string
  mn_friendly_health :: int
  mn_friendly_health_max :: int
  mn_friendly_name :: string
  mn_objectives :: "Objective list"
  mn_updated_at :: int

record Server =
  sv_team :: TeamWorld
  sv_db :: MatchDb
  sv_death_counts :: "(int, int \<times> int) umap"
  sv_device_stats :: "DeviceStatsRow list"
  sv_device_buffer :: "DeviceStatsRow list"
  sv_flush_scheduled :: bool
  sv_conns :: "(nat, IpcConn) umap"
  sv_next_conn :: nat
  sv_links :: "(int, nat) umap"
  sv_clients :: "(nat, Client) umap"
  sv_next_client :: nat
  sv_sessions :: "(guid, nat) umap"
  sv_store :: "(guid, Session) umap"
  sv_acks :: "(guid, PendingAck) umap"
  sv_timers :: "(nat, TimerJob) umap"
  sv_next_timer :: nat
  sv_overlay :: "(int, (guid, PawnSnapshot) umap) umap"
  sv_missions :: "(int, MissionSnapshot) umap"
  sv_spawning :: "string list"
  sv_out :: "Sent list"

section \<open>The environment\<close>

record MapGameRecord =
  mg_map_game_id :: u32
  mg_map_name :: string
  mg_game_class :: string
  mg_gameplay_type :: u32
  mg_friendly_name :: u32
  mg_background :: u32
  mg_share_home_core :: bool

record CharacterInfo =
  ci_id :: int
  ci_user_id :: int
  ci_profile_id :: u32
  ci_head_asm_id :: u32
  ci_gender_type :: u32
  ci_morph :: "8 word list"
  ci_deleted_at :: int

datatype Address = V4 "8 word" "8 word" "8 word" "8 word" | V6 "8 word list"

text \<open>
  Configuration, the parts of the database other components own, and the peers' addresses. The
  fields of \<open>ne_team\<close> that the state determines (sessions and ratings) are replaced on every use.
\<close>

record ServerEnv =
  ne_team :: TeamEnv
  ne_libm :: Libm
  ne_shuffle :: "PlayerSlot list \<Rightarrow> PlayerSlot list"
  ne_maps :: "(string \<times> MapGameRecord) list"
  ne_queue_toggles :: "u32 \<Rightarrow> (bool \<times> bool) option"
  ne_device_enabled :: bool
  ne_effectiveness_enabled :: bool
  ne_admin_token :: string
  ne_admin_handler :: bool
  ne_other_action :: "string \<Rightarrow> json \<Rightarrow> bool"
  ne_queue_rows :: "QueueConfig list"
  ne_remote :: "nat \<Rightarrow> Address option"
  ne_home_map :: string
  ne_home_mode :: string
  ne_home_spawner :: bool
  ne_successor_spawner :: bool
  ne_travel_spawner :: bool
  ne_character :: "int \<Rightarrow> CharacterInfo option"
  ne_item_profile :: "int \<Rightarrow> int"
  ne_skills :: "int \<Rightarrow> int \<Rightarrow> (int \<times> int \<times> int) list"
  ne_last_respec :: "int \<Rightarrow> int"
  ne_class_type :: "u32 \<Rightarrow> u32"
  ne_class_msg :: "u32 \<Rightarrow> u32"
  ne_allow_duplicate_logins :: bool

section \<open>Access to the parts\<close>

abbreviation sv_world :: "Server \<Rightarrow> World" where
  "sv_world s \<equiv> ts_world (sv_team s)"

abbreviation sv_registry :: "Server \<Rightarrow> Registry" where
  "sv_registry s \<equiv> w_registry (sv_world s)"

definition put_world :: "World \<Rightarrow> Server \<Rightarrow> Server" where
  "put_world w s = s\<lparr>sv_team := (sv_team s)\<lparr>ts_world := w\<rparr>\<rparr>"

definition on_registry :: "(Registry \<Rightarrow> Registry) \<Rightarrow> Server \<Rightarrow> Server" where
  "on_registry f s = put_world ((sv_world s)\<lparr>w_registry := f (sv_registry s)\<rparr>) s"

definition db_of :: "Server \<Rightarrow> MatchDb" where
  \<comment> \<open>one database: its instance tables are those of the registry\<close>
  "db_of s = (sv_db s)\<lparr>md_registry := sv_registry s\<rparr>"

definition on_db :: "(MatchDb \<Rightarrow> MatchDb) \<Rightarrow> Server \<Rightarrow> Server" where
  "on_db f s = (let db = f (db_of s) in on_registry (\<lambda>_. md_registry db) (s\<lparr>sv_db := db\<rparr>))"

definition emit :: "Sent \<Rightarrow> Server \<Rightarrow> Server" where
  "emit x s = s\<lparr>sv_out := sv_out s @ [x]\<rparr>"

definition on_client :: "nat \<Rightarrow> (Client \<Rightarrow> Client) \<Rightarrow> Server \<Rightarrow> Server" where
  "on_client c f s =
     (case map_of (sv_clients s) c of None \<Rightarrow> s
      | Some cl \<Rightarrow> s\<lparr>sv_clients := umap_put c (f cl) (sv_clients s)\<rparr>)"

definition match_env :: "ServerEnv \<Rightarrow> Server \<Rightarrow> Env" where
  \<comment> \<open>matchmaking asks the session store for accounts and \<open>MmrService\<close> for ratings\<close>
  "match_env ne s = (en_match (ne_team ne))
     \<lparr>ev_session_user := (\<lambda>g. map_option se_user_id (map_of (sv_store s) g)),
      ev_rating := (\<lambda>user profile. GetCurrentRating user profile (db_of s))\<rparr>"

definition team_env :: "ServerEnv \<Rightarrow> Server \<Rightarrow> TeamEnv" where
  "team_env ne s = (ne_team ne)
     \<lparr>en_session := map_of (sv_store s),
      en_session_by_name := (\<lambda>n. map_option snd (find (\<lambda>(_, i). NamesEqualCi (se_player_name i) n) (sv_store s))),
      en_match := match_env ne s\<rparr>"

abbreviation unix_now :: "ServerEnv \<Rightarrow> int" where
  "unix_now ne \<equiv> ev_time (en_match (ne_team ne))"

abbreviation characters :: "ServerEnv \<Rightarrow> int \<Rightarrow> (int \<times> int) option" where
  "characters ne \<equiv> ev_characters (en_match (ne_team ne))"

section \<open>Operations that return, throw or hang\<close>

text \<open>
  \<open>Threw s\<close>: an exception left the handler with the state \<open>s\<close>; nothing catches it on the way to
  \<open>io.run()\<close>, so the process ends. \<open>Hung\<close>: the call does not return, or the fuel of a pop ran out.
\<close>

datatype 'a served = Served 'a | Threw 'a | Hung

fun and_then :: "'a served \<Rightarrow> ('a \<Rightarrow> 'a served) \<Rightarrow> 'a served" where
  "and_then (Served s) f = f s"
| "and_then (Threw s) f = Threw s"
| "and_then Hung f = Hung"

definition or_throw :: "'a \<Rightarrow> 'v option \<Rightarrow> ('v \<Rightarrow> 'a served) \<Rightarrow> 'a served" where
  \<comment> \<open>a read of the message that may throw; \<open>s\<close> is the state reached by then\<close>
  "or_throw s v f = (case v of None \<Rightarrow> Threw s | Some x \<Rightarrow> f x)"

definition run_world :: "(World \<Rightarrow> World option) \<Rightarrow> Server \<Rightarrow> Server served" where
  "run_world f s = (case f (sv_world s) of None \<Rightarrow> Hung | Some w \<Rightarrow> Served (put_world w s))"

section \<open>\<open>IpcServer\<close>: messages to an instance, acknowledgements\<close>

definition SendToInstance :: "int \<Rightarrow> InstanceMsg \<Rightarrow> Server \<Rightarrow> bool \<times> Server" where
  \<comment> \<open>a closed connection is gone from \<open>sv_conns\<close>, so its weak pointer does not lock\<close>
  "SendToInstance instance_id msg s =
     (case map_of (sv_links s) instance_id of
        None \<Rightarrow> (False, s)
      | Some c \<Rightarrow>
          (case map_of (sv_conns s) c of
             None \<Rightarrow> (False, s\<lparr>sv_links := umap_erase instance_id (sv_links s)\<rparr>)
           | Some _ \<Rightarrow> (True, emit (ToInstance c msg) s)))"

definition RegisterPendingAck :: "guid \<Rightarrow> PendingAck \<Rightarrow> Server \<Rightarrow> Server" where
  "RegisterPendingAck g pk s = s\<lparr>sv_acks := umap_put g pk (sv_acks s)\<rparr>"

definition ClearPendingAck :: "guid \<Rightarrow> Server \<Rightarrow> Server" where
  "ClearPendingAck g s = s\<lparr>sv_acks := umap_erase g (sv_acks s)\<rparr>"

definition new_timer :: "Server \<Rightarrow> nat \<times> Server" where
  \<comment> \<open>\<open>make_shared<steady_timer>\<close>; it is armed by \<open>arm\<close>\<close>
  "new_timer s = (sv_next_timer s, s\<lparr>sv_next_timer := sv_next_timer s + 1\<rparr>)"

definition arm :: "nat \<Rightarrow> TimerJob \<Rightarrow> Server \<Rightarrow> Server" where
  "arm t job s = s\<lparr>sv_timers := umap_put t job (sv_timers s)\<rparr>"

definition cancel :: "nat \<Rightarrow> Server \<Rightarrow> Server" where
  "cancel t s = s\<lparr>sv_timers := umap_erase t (sv_timers s)\<rparr>"

definition arm_new :: "TimerJob \<Rightarrow> Server \<Rightarrow> Server" where
  "arm_new job s = (case new_timer s of (t, s1) \<Rightarrow> arm t job s1)"

section \<open>Device statistics\<close>

definition UpsertMatchDeviceStats :: "DeviceStatsRow \<Rightarrow> DeviceStatsRow list \<Rightarrow> DeviceStatsRow list" where
  "UpsertMatchDeviceStats row tbl =
     (let same = (\<lambda>r. dv_instance_id r = dv_instance_id row \<and> dv_character_id r = dv_character_id row
                      \<and> dv_task_force r = dv_task_force row \<and> dv_device_id r = dv_device_id row)
      in if list_ex same tbl then map (\<lambda>r. if same r then row else r) tbl else tbl @ [row])"

definition UpsertMatchDeviceStatsBatch :: "DeviceStatsRow list \<Rightarrow> DeviceStatsRow list \<Rightarrow> DeviceStatsRow list" where
  "UpsertMatchDeviceStatsBatch rows tbl = fold UpsertMatchDeviceStats rows tbl"

definition QueueDeviceStatsRow :: "DeviceStatsRow \<Rightarrow> Server \<Rightarrow> Server" where
  \<comment> \<open>the server exists, so \<open>g_ipcIo\<close> is set\<close>
  "QueueDeviceStatsRow row s =
     s\<lparr>sv_device_buffer := sv_device_buffer s @ [row], sv_flush_scheduled := True\<rparr>"

definition FlushDeviceStats :: "Server \<Rightarrow> Server" where
  \<comment> \<open>the posted handler\<close>
  "FlushDeviceStats s =
     (let s1 = s\<lparr>sv_flush_scheduled := False\<rparr>
      in if sv_device_buffer s1 = [] then s1
         else s1\<lparr>sv_device_stats := UpsertMatchDeviceStatsBatch (sv_device_buffer s1) (sv_device_stats s1),
                 sv_device_buffer := []\<rparr>)"

definition SetInstanceDeathCounts :: "int \<Rightarrow> int \<Rightarrow> int \<Rightarrow> Server \<Rightarrow> Server" where
  "SetInstanceDeathCounts instance_id attackers defenders s =
     s\<lparr>sv_death_counts := fold (\<lambda>r. umap_put (ir_id r) (attackers, defenders))
        (filter (\<lambda>r. ir_instance_id r = instance_id \<and> \<not> ir_is_home_map r) (rg_instances (sv_registry s)))
        (sv_death_counts s)\<rparr>"

definition GetQueueStatsToggles :: "ServerEnv \<Rightarrow> u32 \<Rightarrow> bool \<times> bool" where
  "GetQueueStatsToggles ne queue_id =
     (case ne_queue_toggles ne queue_id of None \<Rightarrow> (False, False) | Some toggles \<Rightarrow> toggles)"

section \<open>The spectator overlay\<close>

text \<open>
  \<open>SpectatorOverlayState\<close> and \<open>MissionProgressState\<close>; \<open>now\<close> is \<open>std::time(nullptr)\<close>. The maps are
  \<open>std::map\<close>: the code lists entries by key, the model in the order of their insertion.
\<close>

definition kStaleSeconds :: int where "kStaleSeconds = 15"

definition overlay_fresh :: "int \<Rightarrow> int \<Rightarrow> bool" where
  "overlay_fresh now updated_at \<longleftrightarrow> \<not> (now - updated_at > kStaleSeconds)"

text \<open>\<open>OverlayIdCatalog\<close>: the ids shown as a tile, and those passed on without one.\<close>

definition kEffectIds :: "int list" where
  "kEffectIds = [
     2654, 5810, 5818, 5835, 5848, 5861, 5873, 5969, 6014, 6020, 6821, 6951, 6980, 7026,
     7312, 7342, 7351, 7380, 7777, 8690, 8964, 8976, 9074, 9076, 9129, 9133, 9185, 9260,
     9315, 9579, 9603, 10277, 10538, 10740, 10746, 10758, 10817, 10818, 10832, 10847, 10858, 12655,
     12658, 12659, 12884, 13000, 13024, 13026, 13029, 13050, 13086, 13087, 13091, 13092, 13108, 16631,
     16647, 16668, 16908, 16909, 16921, 18771, 18773, 18777, 18947, 18951, 18971, 18975, 21289, 21290,
     21291, 21292, 22271, 22272, 22273, 22316, 22335, 22341, 22344, 22348, 22351, 22357, 22358, 22368,
     22379, 22381, 22384, 22387, 22394, 22408, 22409, 22411, 23966, 23967, 23970, 23971, 23983, 24240,
     24371, 24380, 24383, 24408, 25346, 25348, 25372, 25373, 25397, 25398, 25721, 25724, 25735, 25740,
     25803, 25809, 25811, 25817, 25861, 25862, 25865, 25869, 25876, 25877, 25878, 25880, 25882, 25883,
     25884, 25886, 25888, 25889, 25890, 25892, 25893, 25896, 25902, 25904, 25987, 25988, 25990, 25993,
     25995, 25997, 26009, 26011, 26012, 26056, 26095, 26098, 26181, 26182, 26183, 26185, 26193, 26254,
     26256, 26269, 26271, 26272, 26513, 26514, 26520, 26521, 26523, 26525, 26617, 26638, 26640, 26641,
     26646, 26651, 26668, 26702, 27432, 27434, 27435, 27437, 27438, 27477, 27479, 27480, 27498, 27499,
     27501, 27504, 27505, 27507, 27525, 27526, 27528, 27529, 27532, 27534, 27536, 27537, 27538, 27540,
     27542, 27543, 27544, 27546, 27548, 27549, 27550, 27552, 27582, 27584, 27585, 27587, 27588, 27593,
     27617, 27646, 27710, 27731, 27732, 27761]"

definition kSkillIds :: "int list" where
  "kSkillIds = [
     15452, 15453, 15456, 15457, 15458, 15459, 15460, 15461, 15462, 15463, 15479, 15480, 15481, 15482,
     15483, 16255, 16259, 16263, 16273, 16278, 16283, 16297, 16301, 16308, 16309, 16314, 16317, 16329,
     16330, 16333, 16334, 16336, 16339, 16355, 16365, 16366, 16367, 16371, 16376, 16381, 16386, 16407,
     16413, 16421, 16425, 16429, 16434, 16437, 16438, 16443, 16446, 16449, 16460, 16478, 16482, 16499,
     16502, 16505, 16508, 16514, 16518, 16533, 16534, 16536, 16538, 16557, 16558, 16586, 16587, 16596,
     16603, 16606, 16607, 16612, 16621, 16683, 16684, 16697, 16733, 16736, 16739, 16742, 16745, 16756,
     16757, 16758, 16760, 16761, 16767, 16768, 16769, 16776, 16795, 16884, 16885, 16886, 17244, 17541,
     17713, 17715, 17717, 17719, 17720, 17724, 18784, 18785, 20605, 20607, 20608, 20609, 20611, 20617,
     20619, 20621, 20623, 21501, 24044, 24045, 26466, 26471, 26472, 26474, 26475, 26476, 26477, 26478,
     26479, 26480, 26481, 26635, 26642, 26655, 26656, 26657, 26658, 26660, 26661, 26662, 26663, 26664,
     26665, 26666, 26669, 26670, 26671, 26672, 26674, 26675, 26676, 26681, 26682, 26683, 26684, 26688,
     26689, 26690, 26691, 26692, 26693, 26694, 26696, 26698, 26699]"

definition IsEffectId :: "int \<Rightarrow> bool" where
  "IsEffectId i \<longleftrightarrow> i \<in> set kEffectIds"

definition IsSkillId :: "int \<Rightarrow> bool" where
  "IsSkillId i \<longleftrightarrow> i \<in> set kSkillIds"

definition OverlayUpdate :: "int \<Rightarrow> PawnSnapshot \<Rightarrow> Server \<Rightarrow> Server" where
  "OverlayUpdate instance_id snap s =
     s\<lparr>sv_overlay := umap_mod [] (umap_put (sn_guid snap) snap) instance_id (sv_overlay s)\<rparr>"

definition prune_snapshots :: "int \<Rightarrow> (guid, PawnSnapshot) umap \<Rightarrow> (guid, PawnSnapshot) umap" where
  "prune_snapshots now by_guid = filter (\<lambda>(_, snap). overlay_fresh now (sn_updated_at snap)) by_guid"

definition OverlayGetForInstance :: "int \<Rightarrow> int \<Rightarrow> Server \<Rightarrow> PawnSnapshot list \<times> Server" where
  "OverlayGetForInstance now instance_id s =
     (case map_of (sv_overlay s) instance_id of
        None \<Rightarrow> ([], s)
      | Some by_guid \<Rightarrow>
          let kept = prune_snapshots now by_guid
          in (map snd kept, s\<lparr>sv_overlay := umap_put instance_id kept (sv_overlay s)\<rparr>))"

definition OverlayListActiveInstances :: "int \<Rightarrow> Server \<Rightarrow> int list" where
  "OverlayListActiveInstances now s =
     map fst (filter (\<lambda>(_, by_guid). list_ex (\<lambda>(_, snap). overlay_fresh now (sn_updated_at snap)) by_guid) (sv_overlay s))"

definition MissionUpdate :: "int \<Rightarrow> MissionSnapshot \<Rightarrow> Server \<Rightarrow> Server" where
  "MissionUpdate instance_id snap s = s\<lparr>sv_missions := umap_put instance_id snap (sv_missions s)\<rparr>"

definition MissionGetForInstance :: "int \<Rightarrow> int \<Rightarrow> Server \<Rightarrow> MissionSnapshot option \<times> Server" where
  "MissionGetForInstance now instance_id s =
     (case map_of (sv_missions s) instance_id of
        None \<Rightarrow> (None, s)
      | Some snap \<Rightarrow> if overlay_fresh now (mn_updated_at snap) then (Some snap, s)
                     else (None, s\<lparr>sv_missions := umap_erase instance_id (sv_missions s)\<rparr>))"

definition ClearInstance :: "int \<Rightarrow> Server \<Rightarrow> Server" where
  \<comment> \<open>both stores; the code always clears them together\<close>
  "ClearInstance instance_id s =
     s\<lparr>sv_overlay := umap_erase instance_id (sv_overlay s), sv_missions := umap_erase instance_id (sv_missions s)\<rparr>"

definition SweepOverlay :: "int \<Rightarrow> Server \<Rightarrow> Server" where
  "SweepOverlay now s =
     s\<lparr>sv_overlay := filter (\<lambda>(_, by_guid). by_guid \<noteq> [])
          (map (\<lambda>(iid, by_guid). (iid, prune_snapshots now by_guid)) (sv_overlay s)),
       sv_missions := filter (\<lambda>(_, snap). overlay_fresh now (mn_updated_at snap)) (sv_missions s)\<rparr>"

section \<open>\<open>MapGameInfo\<close>\<close>

definition StripReservedSuffix :: "string \<Rightarrow> string" where
  "StripReservedSuffix n =
     (if length n \<ge> 9 \<and> drop (length n - 9) n = ''_reserved'' then take (length n - 9) n else n)"

definition emplace :: "'k \<Rightarrow> 'v \<Rightarrow> ('k \<times> 'v) list \<Rightarrow> ('k \<times> 'v) list" where
  \<comment> \<open>a present key keeps its value\<close>
  "emplace k v m = (case map_of m k of None \<Rightarrow> m @ [(k, v)] | Some _ \<Rightarrow> m)"

definition MapGameInfoInit :: "MapGameRecord list \<Rightarrow> (string \<times> MapGameRecord) list" where
  "MapGameInfoInit rows =
     fold (\<lambda>r m. let key = map ascii_lower (mg_map_name r)
                 in if mg_map_name r = [] then m else emplace (StripReservedSuffix key) r (emplace key r m)) rows []"

definition LookupByName :: "ServerEnv \<Rightarrow> string \<Rightarrow> MapGameRecord option" where
  "LookupByName ne map_name = map_of (ne_maps ne) (map ascii_lower map_name)"

definition LookupByMapGameId :: "ServerEnv \<Rightarrow> u32 \<Rightarrow> MapGameRecord option" where
  "LookupByMapGameId ne map_game_id =
     (if map_game_id = 0 then None
      else map_option snd (find (\<lambda>(_, r). mg_map_game_id r = map_game_id) (ne_maps ne)))"

definition SharesHomeCore :: "ServerEnv \<Rightarrow> string \<Rightarrow> bool" where
  "SharesHomeCore ne map_name =
     (case map_of (ne_maps ne) (map ascii_lower map_name) of None \<Rightarrow> False | Some r \<Rightarrow> mg_share_home_core r)"

definition kGameplayTypeOpenZone :: u32 where "kGameplayTypeOpenZone = 1554"

section \<open>Starting and stopping instances\<close>

definition MarkInstanceStopped :: "ServerEnv \<Rightarrow> int \<Rightarrow> Server \<Rightarrow> Server" where
  "MarkInstanceStopped ne instance_id s = put_world (MarkStopped (unix_now ne) instance_id (sv_world s)) s"

definition StopInstanceProcess :: "InstanceInfo \<Rightarrow> string \<Rightarrow> Server \<Rightarrow> Server" where
  "StopInstanceProcess inst reason s =
     (if ii_pid inst \<le> 0 then s else emit (StopProcess (ii_instance_id inst) (ii_pid inst) reason) s)"

definition StopNonHomeInstanceIfEmpty :: "ServerEnv \<Rightarrow> int \<Rightarrow> string \<Rightarrow> Server \<Rightarrow> bool \<times> Server" where
  "StopNonHomeInstanceIfEmpty ne instance_id reason s =
     (if instance_id = 0 then (False, s)
      else (case GetInstanceById instance_id (sv_registry s) of
          None \<Rightarrow> (False, s)
        | Some inst \<Rightarrow>
            if ii_is_home_map inst \<or> ii_state inst = STOPPED then (False, s)
            else if GetActivePlayerCount instance_id (sv_registry s) \<noteq> 0 then (False, s)
            else (True, ClearInstance instance_id (MarkInstanceStopped ne instance_id
                          (StopInstanceProcess inst reason s)))))"

text \<open>
  What the spawners of \<open>main.cpp\<close> share: a row in \<open>STARTING\<close> on a free port, the process, and its
  pid or the end of the row. The result is the instance id, 0 when there is none.
\<close>

definition start_instance ::
  "ServerEnv \<Rightarrow> string \<Rightarrow> string \<Rightarrow> bool \<Rightarrow> u32 \<Rightarrow> int \<Rightarrow> Difficulty \<Rightarrow> u16 \<Rightarrow> Server \<Rightarrow> int \<times> Server" where
  "start_instance ne map_name game_mode is_home queue_id predecessor difficulty port s =
     (case InsertStarting (ev_bonus_lives (en_match (ne_team ne))) (unix_now ne) map_name game_mode port 0 is_home
             queue_id predecessor ''OPEN'' [] (sv_registry s) of
        (iid, rg) \<Rightarrow>
          let s1 = emit (Spawned iid map_name game_mode port difficulty) (on_registry (\<lambda>_. rg) s);
              pid = ev_spawn_pid (en_match (ne_team ne)) iid
          in if pid < 0 then (0, MarkInstanceStopped ne iid s1)
             else (iid, on_registry (UpdatePid iid pid) s1))"

definition with_port ::
  "ServerEnv \<Rightarrow> Server \<Rightarrow> (u16 \<Rightarrow> Server served) \<Rightarrow> Server served" where
  \<comment> \<open>no free port: the spawner logs and gives up\<close>
  "with_port ne s f =
     (case AllocatePort (ev_port_lo (en_match (ne_team ne))) (ev_port_hi (en_match (ne_team ne))) (sv_registry s) of
        None \<Rightarrow> Hung | Some None \<Rightarrow> Served s | Some (Some port) \<Rightarrow> f port)"

definition SpawnHomeMap :: "ServerEnv \<Rightarrow> Server \<Rightarrow> Server served" where
  "SpawnHomeMap ne s =
     (case GetHomeInstance (sv_registry s) of
        Some _ \<Rightarrow> Served s
      | None \<Rightarrow> with_port ne s (\<lambda>port.
          Served (snd (start_instance ne (ne_home_map ne) (ne_home_mode ne) True 0 0 DefaultDifficulty port s))))"

definition EnsureHomeMapWarm :: "ServerEnv \<Rightarrow> Server \<Rightarrow> Server served" where
  "EnsureHomeMapWarm ne s =
     (if \<not> ne_home_spawner ne then Served s
      else (case GetHomeInstance (sv_registry s) of Some _ \<Rightarrow> Served s | None \<Rightarrow> SpawnHomeMap ne s))"

definition continuing_packs :: "ServerEnv \<Rightarrow> QueueConfig option \<Rightarrow> ActivePlayerRow list \<Rightarrow> int list list" where
  "continuing_packs ne cfg active =
     (case cfg of None \<Rightarrow> []
      | Some c \<Rightarrow> if PoolHasDlcMaps c then map (\<lambda>p. ev_dlcs (en_match (ne_team ne)) (ap_user_id p)) active else [])"

definition SpawnSuccessor :: "ServerEnv \<Rightarrow> int \<Rightarrow> Server \<Rightarrow> Server served" where
  "SpawnSuccessor ne parent_id s =
     (case GetInstanceById parent_id (sv_registry s) of
        None \<Rightarrow> Served s
      | Some parent \<Rightarrow>
          if ii_queue_id parent = 0 \<or> \<not> GetContinueInQueue (ii_queue_id parent) (sv_world s) then Served s
          else
            let active = GetActivePlayersForInstance (characters ne) parent_id (sv_registry s);
                packs = continuing_packs ne (GetQueueConfig (ii_queue_id parent) (sv_world s)) active
            in (case PickRandomMapPoolEntryForCount (match_env ne s) (ii_queue_id parent) (int (length active))
                       (if packs = [] then None else Some packs) (sv_world s) of
                  (None, w) \<Rightarrow> Served (put_world w s)
                | (Some picked, w) \<Rightarrow>
                    let s1 = put_world w s;
                        difficulty = DifficultyId (case GetQueueConfig (ii_queue_id parent) w of
                           None \<Rightarrow> 0 | Some cfg \<Rightarrow> qc_difficulty_value_id cfg)
                    in with_port ne s1 (\<lambda>port.
                         Served (snd (start_instance ne (ms_map_name picked) (ms_game_mode picked) False
                           (ii_queue_id parent) parent_id difficulty port s1)))))"

definition TriggerSuccessor :: "ServerEnv \<Rightarrow> int \<Rightarrow> Server \<Rightarrow> Server served" where
  "TriggerSuccessor ne parent_id s =
     (if ne_successor_spawner ne then SpawnSuccessor ne parent_id s else Served s)"

definition SpawnAdminInstance :: "ServerEnv \<Rightarrow> string \<Rightarrow> string \<Rightarrow> int \<Rightarrow> Server \<Rightarrow> (bool \<times> Server) served" where
  "SpawnAdminInstance ne map_name game_mode max_players s =
     (if map_name = [] \<or> game_mode = [] \<or> max_players \<le> 0 \<or> max_players > 1000 then Served (False, s)
      else (case AllocatePort (ev_port_lo (en_match (ne_team ne))) (ev_port_hi (en_match (ne_team ne))) (sv_registry s) of
          None \<Rightarrow> Hung
        | Some None \<Rightarrow> Served (False, s)
        | Some (Some port) \<Rightarrow>
            (case InsertStarting (ev_bonus_lives (en_match (ne_team ne))) (unix_now ne) map_name game_mode port 0 False
                    0 0 ''OPEN'' [] (sv_registry s) of
               (iid, rg) \<Rightarrow>
                 let s1 = emit (Spawned iid map_name game_mode port DefaultDifficulty)
                            (on_registry (\<lambda>_. SetMaxPlayers iid max_players rg) s);
                     pid = ev_spawn_pid (en_match (ne_team ne)) iid
                 in if pid < 0 then Served (False, MarkInstanceStopped ne iid s1)
                    else Served (True, on_registry (UpdatePid iid pid) s1))))"

end
