(* ===== verification/PlayerRouting.thy ===== *)
theory PlayerRouting
  imports ServerState
begin

text \<open>
  How a player gets from one game instance to another (\<open>TcpSession/TcpSession.cpp\<close>): log in, wait for
  the home map, register with an instance and wait for its acknowledgement, accept a match, leave a
  mission for its successor or for home, travel to an open-world zone, spectate, disconnect.

  \<open>c\<close> is the session object, \<open>cl\<close> its members. The handlers that start after the packet has been read
  are functions of the fields they use. Of \<open>GSC_USER_LOGIN\<close> the parts modelled are the replacement of
  a session on the same socket and what follows a successful verification. A registered session
  object exists: every path that drops it unregisters it, so the \<open>lock()\<close> of its weak pointer
  succeeds.
\<close>

section \<open>Delivery to sessions\<close>

definition session_of :: "guid \<Rightarrow> Server \<Rightarrow> (nat \<times> Client) option" where
  "session_of g s =
     (case map_of (sv_sessions s) g of None \<Rightarrow> None
      | Some c \<Rightarrow> map_option (Pair c) (map_of (sv_clients s) c))"

definition HasLiveSession :: "guid \<Rightarrow> Server \<Rightarrow> bool" where
  "HasLiveSession g s \<longleftrightarrow> session_of g s \<noteq> None"

definition send_match_invitation :: "nat \<Rightarrow> int \<Rightarrow> string \<Rightarrow> int \<Rightarrow> Server \<Rightarrow> Server" where
  "send_match_invitation c instance_id game_mode task_force s =
     (case map_of (sv_clients s) c of
        None \<Rightarrow> s
      | Some cl \<Rightarrow>
          emit (ToClient c (MatchInvitationFrame (cl_current_queue cl)
                 (case GetQueueConfig (cl_current_queue cl) (sv_world s) of None \<Rightarrow> 0 | Some cfg \<Rightarrow> qc_name_msg_id cfg)))
            (on_client c (\<lambda>cl. cl\<lparr>cl_pending_instance := instance_id, cl_pending_mode := game_mode,
                                   cl_pending_tf := task_force\<rparr>) s))"

definition deliver_invitation :: "guid \<Rightarrow> int \<Rightarrow> string \<Rightarrow> int \<Rightarrow> Server \<Rightarrow> Server" where
  "deliver_invitation g instance_id game_mode task_force s =
     (case session_of g s of None \<Rightarrow> s
      | Some (c, _) \<Rightarrow> send_match_invitation c instance_id game_mode task_force s)"

definition clear_match :: "Client \<Rightarrow> Client" where
  "clear_match cl = cl\<lparr>cl_current_queue := 0, cl_pending_instance := 0, cl_pending_mode := [], cl_pending_tf := 1\<rparr>"

definition deliver_cancelled :: "guid \<Rightarrow> Server \<Rightarrow> Server" where
  "deliver_cancelled g s =
     (case session_of g s of None \<Rightarrow> s
      | Some (c, _) \<Rightarrow>
          emit (ToClient c (MatchQueueStatusFrame 0 0))
            (on_client c clear_match (put_world (RemoveReadyMatchReservationAny g (sv_world s)) s)))"

definition deliver_queue_status :: "guid \<Rightarrow> u32 \<Rightarrow> u32 \<Rightarrow> Server \<Rightarrow> Server" where
  "deliver_queue_status g queue_id name_msg s =
     (case session_of g s of None \<Rightarrow> s
      | Some (c, _) \<Rightarrow> emit (ToClient c (MatchQueueStatusFrame queue_id name_msg))
          (on_client c (\<lambda>cl. cl\<lparr>cl_current_queue := queue_id\<rparr>) s))"

definition deliver_frame :: "guid \<Rightarrow> ClientMsg \<Rightarrow> Server \<Rightarrow> Server" where
  "deliver_frame g msg s = (case session_of g s of None \<Rightarrow> s | Some (c, _) \<Rightarrow> emit (ToClient c msg) s)"

text \<open>What matchmaking and teams hand over is delivered when their operation has returned.\<close>

fun deliver_effect :: "Effect \<Rightarrow> Server \<Rightarrow> Server" where
  "deliver_effect (DeliverMatchInvitation g iid game_mode tf) s = deliver_invitation g iid game_mode tf s"
| "deliver_effect (DeliverMatchCancelled g reason) s = deliver_cancelled g s"
| "deliver_effect (SpawnInstance iid map_name game_mode port difficulty) s =
     emit (Spawned iid map_name game_mode port difficulty) s"

fun deliver_team :: "TeamEffect \<Rightarrow> Server \<Rightarrow> Server" where
  "deliver_team (DeliverTeamSystemMessage g msg_id name) s = deliver_frame g (TeamSystemMessageFrame msg_id name) s"
| "deliver_team (DeliverTeamInvitation g name) s = deliver_frame g (TeamFrame (DeliverTeamInvitation g name)) s"
| "deliver_team (DeliverTeamInviteExpired g) s = deliver_frame g (TeamFrame (DeliverTeamInviteExpired g)) s"
| "deliver_team (DeliverTeamUpdate g roster) s = deliver_frame g (TeamFrame (DeliverTeamUpdate g roster)) s"
| "deliver_team (DeliverMatchQueueStatus g queue_id name_msg) s = deliver_queue_status g queue_id name_msg s"
| "deliver_team (DeliverTeamMatchInvitation g iid game_mode tf) s = deliver_invitation g iid game_mode tf s"

definition settle :: "Server \<Rightarrow> Server" where
  "settle s =
     (let s1 = s\<lparr>sv_team := (sv_team s)\<lparr>ts_out := [], ts_world := (sv_world s)\<lparr>w_out := []\<rparr>\<rparr>\<rparr>
      in fold deliver_team (ts_out (sv_team s)) (fold deliver_effect (w_out (sv_world s)) s1))"

definition on_team :: "(TeamWorld \<Rightarrow> TeamWorld) \<Rightarrow> Server \<Rightarrow> Server" where
  "on_team f s = settle (s\<lparr>sv_team := f (sv_team s)\<rparr>)"

definition on_world :: "(World \<Rightarrow> World) \<Rightarrow> Server \<Rightarrow> Server" where
  "on_world f s = settle (put_world (f (sv_world s)) s)"

definition DeliverPlayerAction :: "guid \<Rightarrow> InstanceMsg \<Rightarrow> Server \<Rightarrow> bool \<times> Server" where
  "DeliverPlayerAction g action s =
     (case session_of g s of
        None \<Rightarrow> (False, s)
      | Some (_, cl) \<Rightarrow> if cl_assigned cl = 0 then (False, s) else SendToInstance (cl_assigned cl) action s)"

section \<open>\<open>GSC_GO_PLAY\<close>\<close>

definition go_play_frame :: "ServerEnv \<Rightarrow> Client \<Rightarrow> InstanceInfo \<Rightarrow> int \<Rightarrow> GoPlayFrame" where
  "go_play_frame ne cl inst task_force =
     (let info = LookupByName ne (ii_map_name inst);
          profile_id = (if cl_profile_id cl \<noteq> 0 then cl_profile_id cl else 680)
      in \<lparr>gp_player_name = cl_player_name cl, gp_udp_port = ii_udp_port inst, gp_guid = cl_guid cl,
          gp_map_name = ii_map_name inst, gp_game_mode = ''?Game='' @ ii_game_mode inst,
          gp_friendly_name = (case info of None \<Rightarrow> 22845 | Some r \<Rightarrow> mg_friendly_name r),
          gp_map_game_id = (case info of None \<Rightarrow> 0x050B | Some r \<Rightarrow> mg_map_game_id r),
          gp_instance_id = word_of_int (ii_instance_id inst),
          gp_background = (case info of None \<Rightarrow> 5716 | Some r \<Rightarrow> mg_background r),
          gp_task_force = word_of_int task_force,
          gp_class_type = ne_class_type ne profile_id, gp_class_msg = ne_class_msg ne profile_id\<rparr>)"

definition send_go_play_to_instance :: "ServerEnv \<Rightarrow> nat \<Rightarrow> InstanceInfo \<Rightarrow> int \<Rightarrow> Server \<Rightarrow> Server" where
  "send_go_play_to_instance ne c inst task_force s =
     (case map_of (sv_clients s) c of None \<Rightarrow> s
      | Some cl \<Rightarrow> emit (ToClient c (GoPlay (go_play_frame ne cl inst task_force))) s)"

definition send_go_play_response :: "ServerEnv \<Rightarrow> nat \<Rightarrow> Server \<Rightarrow> Server" where
  "send_go_play_response ne c s =
     (case (GetReadyHomeInstance (sv_registry s), map_of (sv_clients s) c) of
        (Some inst, Some cl) \<Rightarrow> send_go_play_to_instance ne c inst (cl_home_tf cl) s
      | _ \<Rightarrow> s)"

section \<open>\<open>PLAYER_REGISTER\<close>\<close>

definition ChooseVrHomeTaskForce :: "ServerEnv \<Rightarrow> InstanceInfo \<Rightarrow> u32 \<Rightarrow> guid \<Rightarrow> Registry \<Rightarrow> int" where
  "ChooseVrHomeTaskForce ne home profile_id g rg =
     (if ii_map_name home \<noteq> ''Dome3_VR_Arena_P'' then 1
      else
        let rows = filter (\<lambda>r. ap_guid r \<noteq> g) (GetActivePlayersForInstance (characters ne) (ii_instance_id home) rg);
            team = (\<lambda>two. filter (\<lambda>r. (ap_task_force r = 2) = two) rows);
            same = (\<lambda>two. length (filter (\<lambda>r. profile_id \<noteq> 0 \<and> ap_profile_id r = profile_id) (team two)))
        in if length (team True) < length (team False) then 2
           else if length (team False) = length (team True) \<and> same True < same False then 2 else 1)"

definition register_msg :: "ServerEnv \<Rightarrow> Client \<Rightarrow> u64 option \<Rightarrow> int \<Rightarrow> bool \<Rightarrow> RegisterMsg" where
  \<comment> \<open>a spectator's message carries no skills\<close>
  "register_msg ne cl token task_force spectator =
     (let info = ne_character ne (cl_character_id cl); prof = ne_item_profile ne (cl_character_id cl)
      in \<lparr>rm_guid = cl_guid cl, rm_token = token, rm_profile_id = cl_profile_id cl,
          rm_player_name = cl_player_name cl, rm_user_id = cl_user_id cl,
          rm_character_id = cl_character_id cl, rm_task_force = task_force,
          rm_head_asm_id = (case info of None \<Rightarrow> 0 | Some i \<Rightarrow> ci_head_asm_id i),
          rm_gender_type = (case info of None \<Rightarrow> 0 | Some i \<Rightarrow> ci_gender_type i),
          rm_morph = (case info of None \<Rightarrow> [] | Some i \<Rightarrow> ci_morph i),
          rm_skills = (if spectator then None
             else Some (prof, ne_skills ne (cl_character_id cl) prof, ne_last_respec ne (cl_character_id cl))),
          rm_spectator = spectator\<rparr>)"

definition take_token :: "Client \<Rightarrow> Client" where
  "take_token cl = cl\<lparr>cl_token := cl_next_token cl, cl_next_token := cl_next_token cl + 1\<rparr>"

text \<open>
  The part the register flows share: a new acknowledgement timer that replaces the old one without
  cancelling it, the callback under the session's guid, the message. When there is no connection to
  the instance, the callback and the timer are dropped again; else the timer is armed.
\<close>

definition await_ack :: "nat \<Rightarrow> guid \<Rightarrow> AckKind \<Rightarrow> int \<Rightarrow> InstanceMsg \<Rightarrow> Server \<Rightarrow> bool \<times> Server" where
  "await_ack c g kind instance_id msg s =
     (case new_timer s of (t, s1) \<Rightarrow>
        let s2 = RegisterPendingAck g \<lparr>pk_client = c, pk_timer = t, pk_kind = kind\<rparr>
                   (on_client c (\<lambda>cl. cl\<lparr>cl_ack_timer := Some t\<rparr>) s1)
        in (case SendToInstance instance_id msg s2 of
              (True, s3) \<Rightarrow> (True, arm t (AckTimeout c kind) s3)
            | (False, s3) \<Rightarrow> (False, on_client c (\<lambda>cl. cl\<lparr>cl_ack_timer := None\<rparr>) (ClearPendingAck g (cancel t s3)))))"

definition initiate_player_register_and_go_play :: "ServerEnv \<Rightarrow> nat \<Rightarrow> Server \<Rightarrow> Server" where
  "initiate_player_register_and_go_play ne c s =
     (case map_of (sv_clients s) c of
        None \<Rightarrow> s
      | Some cl \<Rightarrow>
          if map_of (sv_store s) (cl_guid cl) = None then s
          else (case GetReadyHomeInstance (sv_registry s) of
              None \<Rightarrow> s
            | Some home \<Rightarrow>
                let tf = ChooseVrHomeTaskForce ne home (cl_profile_id cl) (cl_guid cl) (sv_registry s);
                    cl' = (take_token cl)\<lparr>cl_home_tf := tf\<rparr>
                in snd (await_ack c (cl_guid cl) (HomeAck (ii_instance_id home) tf) (ii_instance_id home)
                     (RegisterPlayer (register_msg ne cl' (Some (cl_token cl')) tf False))
                     (on_client c (\<lambda>_. cl') s))))"

definition wait_for_home_map_then_register :: "ServerEnv \<Rightarrow> nat \<Rightarrow> int \<Rightarrow> Server \<Rightarrow> Server served" where
  "wait_for_home_map_then_register ne c secs s =
     (if secs \<le> 0 then Served s
      else (case GetReadyHomeInstance (sv_registry s) of
          Some ready \<Rightarrow> Served (initiate_player_register_and_go_play ne c
             (on_client c (\<lambda>cl. cl\<lparr>cl_assigned := ii_instance_id ready\<rparr>) s))
        | None \<Rightarrow>
            and_then (if GetHomeInstance (sv_registry s) = None \<and> ne_home_spawner ne then SpawnHomeMap ne s else Served s)
              (\<lambda>s1. Served (arm_new (HomePoll c secs) s1))))"

definition initiate_player_register_for_target :: "ServerEnv \<Rightarrow> nat \<Rightarrow> int \<Rightarrow> int \<Rightarrow> Server \<Rightarrow> Server served" where
  "initiate_player_register_for_target ne c target_id task_force s =
     (case map_of (sv_clients s) c of
        None \<Rightarrow> Served s
      | Some cl \<Rightarrow>
          if map_of (sv_store s) (cl_guid cl) = None then Served s
          else
            let cl' = take_token cl
            in (case await_ack c (cl_guid cl) (TargetAck target_id task_force) target_id
                       (RegisterPlayer (register_msg ne cl' (Some (cl_token cl')) task_force False))
                       (on_client c (\<lambda>_. cl') s) of
                  (True, s1) \<Rightarrow> Served s1
                | (False, s1) \<Rightarrow> wait_for_home_map_then_register ne c 120 s1))"

definition initiate_player_register_for_spectate :: "ServerEnv \<Rightarrow> nat \<Rightarrow> int \<Rightarrow> int \<Rightarrow> Server \<Rightarrow> Server" where
  "initiate_player_register_for_spectate ne c target_id task_force s =
     (case map_of (sv_clients s) c of
        None \<Rightarrow> s
      | Some cl \<Rightarrow>
          if map_of (sv_store s) (cl_guid cl) = None then s
          else
            let cl' = take_token cl
            in snd (await_ack c (cl_guid cl) (SpectateAck target_id) target_id
                 (RegisterPlayer (register_msg ne cl' (Some (cl_token cl')) task_force True))
                 (on_client c (\<lambda>_. cl') s)))"

section \<open>The acknowledgement and its timeout\<close>

definition join_instance :: "ServerEnv \<Rightarrow> nat \<Rightarrow> int \<Rightarrow> int \<Rightarrow> Server \<Rightarrow> Server" where
  \<comment> \<open>\<open>InstanceRegistry::InsertInstancePlayer\<close> with the members of the session\<close>
  "join_instance ne c instance_id task_force s =
     (case map_of (sv_clients s) c of
        None \<Rightarrow> s
      | Some cl \<Rightarrow> on_registry (InsertInstancePlayer (unix_now ne) instance_id (cl_guid cl) (cl_character_id cl)
                                task_force (cl_profile_id cl)) s)"

definition drop_reservation :: "int \<Rightarrow> nat \<Rightarrow> Server \<Rightarrow> Server" where
  "drop_reservation instance_id c s =
     (case map_of (sv_clients s) c of None \<Rightarrow> s
      | Some cl \<Rightarrow> put_world (RemoveReadyMatchReservation instance_id (cl_guid cl) (sv_world s)) s)"

definition go_home :: "ServerEnv \<Rightarrow> nat \<Rightarrow> Server \<Rightarrow> Server served" where
  "go_home ne c s = wait_for_home_map_then_register ne c 120 (on_client c (\<lambda>cl. cl\<lparr>cl_assigned := 0\<rparr>) s)"

definition is_ready :: "int \<Rightarrow> Server \<Rightarrow> InstanceInfo option" where
  "is_ready instance_id s =
     (case GetInstanceById instance_id (sv_registry s) of
        None \<Rightarrow> None | Some inst \<Rightarrow> if ii_state inst = READY then Some inst else None)"

definition forget_invitation :: "Client \<Rightarrow> Client" where
  "forget_invitation cl = cl\<lparr>cl_pending_instance := 0, cl_pending_mode := []\<rparr>"

definition home_ack :: "ServerEnv \<Rightarrow> nat \<Rightarrow> int \<Rightarrow> int \<Rightarrow> bool \<Rightarrow> Server \<Rightarrow> Server served" where
  "home_ack ne c home_id task_force success s =
     (if \<not> success then Served s
      else
        let s1 = (case GetReadyHomeInstance (sv_registry s) of
                    None \<Rightarrow> s
                  | Some home \<Rightarrow> if ii_instance_id home = home_id then join_instance ne c home_id task_force s else s)
        in Served (send_go_play_response ne c s1))"

definition target_ack :: "ServerEnv \<Rightarrow> nat \<Rightarrow> int \<Rightarrow> int \<Rightarrow> bool \<Rightarrow> Server \<Rightarrow> Server served" where
  "target_ack ne c target_id task_force success s =
     (if \<not> success then go_home ne c s
      else
        let s1 = join_instance ne c target_id task_force (on_client c (\<lambda>cl. cl\<lparr>cl_assigned := target_id\<rparr>) s)
        in (case is_ready target_id s1 of
              Some fresh \<Rightarrow> Served (send_go_play_to_instance ne c fresh task_force s1)
            | None \<Rightarrow> go_home ne c s1))"

definition spectate_ack :: "ServerEnv \<Rightarrow> nat \<Rightarrow> int \<Rightarrow> bool \<Rightarrow> Server \<Rightarrow> Server served" where
  "spectate_ack ne c target_id success s =
     (if \<not> success then Served s
      else
        let s1 = on_client c (\<lambda>cl. cl\<lparr>cl_assigned := target_id, cl_spectating := True\<rparr>) s
        in Served (case is_ready target_id s1 of
             Some fresh \<Rightarrow> send_go_play_to_instance ne c fresh 0 s1
           | None \<Rightarrow> on_client c (\<lambda>cl. cl\<lparr>cl_assigned := 0, cl_spectating := False\<rparr>) s1))"

definition accept_ack :: "ServerEnv \<Rightarrow> nat \<Rightarrow> int \<Rightarrow> int \<Rightarrow> bool \<Rightarrow> Server \<Rightarrow> Server served" where
  "accept_ack ne c target_id task_force success s =
     (if \<not> success then Served (on_client c forget_invitation (drop_reservation target_id c s))
      else
        let s1 = drop_reservation target_id c
                   (join_instance ne c target_id task_force (on_client c (\<lambda>cl. cl\<lparr>cl_assigned := target_id\<rparr>) s))
        in Served (case is_ready target_id s1 of
             None \<Rightarrow> on_client c forget_invitation s1
           | Some inst \<Rightarrow> emit (ToClient c (MatchQueueStatusFrame 0 0))
               (on_client c clear_match (send_go_play_to_instance ne c inst task_force s1))))"

fun ack_callback :: "ServerEnv \<Rightarrow> nat \<Rightarrow> AckKind \<Rightarrow> bool \<Rightarrow> Server \<Rightarrow> Server served" where
  "ack_callback ne c (HomeAck home_id tf) success s = home_ack ne c home_id tf success s"
| "ack_callback ne c (TargetAck target_id tf) success s = target_ack ne c target_id tf success s"
| "ack_callback ne c (SpectateAck target_id) success s = spectate_ack ne c target_id success s"
| "ack_callback ne c (AcceptAck target_id tf) success s = accept_ack ne c target_id tf success s"

definition DeliverAck :: "ServerEnv \<Rightarrow> guid \<Rightarrow> bool \<Rightarrow> Server \<Rightarrow> Server served" where
  "DeliverAck ne g success s =
     (case map_of (sv_acks s) g of
        None \<Rightarrow> Served s
      | Some pk \<Rightarrow> ack_callback ne (pk_client pk) (pk_kind pk) success (cancel (pk_timer pk) (ClearPendingAck g s)))"

fun ack_timeout :: "ServerEnv \<Rightarrow> nat \<Rightarrow> AckKind \<Rightarrow> Server \<Rightarrow> Server served" where
  \<comment> \<open>the guid is read when the timer fires\<close>
  "ack_timeout ne c kind s =
     (case map_of (sv_clients s) c of
        None \<Rightarrow> Served s
      | Some cl \<Rightarrow>
          let s1 = ClearPendingAck (cl_guid cl) s
          in (case kind of
                HomeAck _ _ \<Rightarrow> Served s1
              | SpectateAck _ \<Rightarrow> Served s1
              | TargetAck _ _ \<Rightarrow> wait_for_home_map_then_register ne c 120 s1
              | AcceptAck _ _ \<Rightarrow> Served (on_client c forget_invitation (drop_reservation (cl_pending_instance cl) c s1))))"

section \<open>Accepting and leaving a match\<close>

definition send_match_accept_response :: "ServerEnv \<Rightarrow> nat \<Rightarrow> Server \<Rightarrow> Server" where
  "send_match_accept_response ne c s =
     (case map_of (sv_clients s) c of
        None \<Rightarrow> s
      | Some cl \<Rightarrow>
          if cl_pending_instance cl = 0 then s
          else (case is_ready (cl_pending_instance cl) s of
              None \<Rightarrow> on_client c (\<lambda>cl. cl\<lparr>cl_pending_instance := 0\<rparr>) (drop_reservation (cl_pending_instance cl) c s)
            | Some _ \<Rightarrow>
                let target = cl_pending_instance cl; tf = cl_pending_tf cl
                in (case SendToInstance target (RegisterPlayer (register_msg ne cl None tf False)) s of
                      (False, s1) \<Rightarrow> on_client c forget_invitation (drop_reservation target c s1)
                    | (True, s1) \<Rightarrow>
                        (case new_timer s1 of (t, s2) \<Rightarrow>
                           arm t (AckTimeout c (AcceptAck target tf))
                             (RegisterPendingAck (cl_guid cl)
                                \<lparr>pk_client = c, pk_timer = t, pk_kind = AcceptAck target tf\<rparr>
                                (on_client c (\<lambda>cl. cl\<lparr>cl_ack_timer := Some t\<rparr>) s2))))))"

definition send_match_leave_response :: "ServerEnv \<Rightarrow> nat \<Rightarrow> Server \<Rightarrow> Server" where
  "send_match_leave_response ne c s =
     (case map_of (sv_clients s) c of
        None \<Rightarrow> s
      | Some cl \<Rightarrow>
          let s1 = emit (ToClient c (MatchQueueStatusFrame 0 0))
                     (on_world (RemovePlayer (match_env ne s) (cl_guid cl)) s);
              s2 = (if cl_current_queue cl \<noteq> 0 then emit (ToClient c (TeamSystemMessageFrame 18308 [])) s1 else s1)
          in on_client c clear_match s2)"

section \<open>Leaving an instance\<close>

definition fallback_side :: "ServerEnv \<Rightarrow> u32 \<Rightarrow> u32 \<Rightarrow> int \<Rightarrow> Server \<Rightarrow> int" where
  \<comment> \<open>the side on the successor when no team was assigned before\<close>
  "fallback_side ne profile_id queue_id successor s =
     (case GetQueueConfig queue_id (sv_world s) of
        None \<Rightarrow> 1
      | Some cfg \<Rightarrow>
          (case qc_taskforce_policy cfg of
             Pinned1 \<Rightarrow> 1
           | Pinned2 \<Rightarrow> 2
           | Balanced \<Rightarrow> (case GetTeamCounts successor (sv_registry s) of (n1, n2) \<Rightarrow> if n1 \<le> n2 then 1 else 2)
           | BalancedPvp \<Rightarrow>
               let seat = (\<lambda>r. \<lparr>ps_guid = ap_guid r, ps_profile_id = ap_profile_id r,
                                ps_mmr = GetCurrentRating (ap_user_id r) (ap_profile_id r) (db_of s)\<rparr>);
                   add = (\<lambda>r (t1, t2). if ap_task_force r = 1 then (team_add 1 (seat r) t1, t2)
                                       else (t1, team_add (ap_task_force r) (seat r) t2))
               in (case fold add (GetActivePlayersForInstance (characters ne) successor (sv_registry s))
                          (empty_team, empty_team) of
                     (t1, t2) \<Rightarrow> PlaceSingle profile_id t1 t2)))"

definition continuation :: "int \<Rightarrow> Server \<Rightarrow> InstanceInfo option" where
  \<comment> \<open>the successor with a seat, when the mission has ended and its queue continues\<close>
  "continuation parent_id s =
     (case (if parent_id = 0 then None else GetInstanceById parent_id (sv_registry s)) of
        None \<Rightarrow> None
      | Some parent \<Rightarrow>
          if ii_end_mission_at parent \<noteq> 0 \<and> ii_queue_id parent \<noteq> 0 \<and>
             GetContinueInQueue (ii_queue_id parent) (sv_world s)
          then (case GetSuccessor parent_id (sv_registry s) of
                  None \<Rightarrow> None
                | Some succ \<Rightarrow>
                    if ii_state succ = READY \<and> (ii_max_players succ = 0 \<or> ii_player_count succ < ii_max_players succ)
                    then Some succ else None)
          else None)"

definition reset_routing :: "nat \<Rightarrow> Server \<Rightarrow> Server" where
  \<comment> \<open>drops the acknowledgement in flight and the assignment\<close>
  "reset_routing c s =
     (case map_of (sv_clients s) c of
        None \<Rightarrow> s
      | Some cl \<Rightarrow>
          let s1 = (case cl_ack_timer cl of None \<Rightarrow> s | Some t \<Rightarrow> ClearPendingAck (cl_guid cl) (cancel t s))
          in on_client c (\<lambda>cl. cl\<lparr>cl_ack_timer := None, cl_assigned := 0, cl_pending_instance := 0, cl_pending_mode := []\<rparr>) s1)"

definition instance_queue :: "int \<Rightarrow> Server \<Rightarrow> u32" where
  "instance_queue instance_id s =
     (case GetInstanceById instance_id (sv_registry s) of None \<Rightarrow> 0 | Some i \<Rightarrow> ii_queue_id i)"

definition route_from_mission_instance :: "ServerEnv \<Rightarrow> nat \<Rightarrow> int \<Rightarrow> Server \<Rightarrow> Server served" where
  "route_from_mission_instance ne c parent_id s =
     (case map_of (sv_clients s) c of
        None \<Rightarrow> Served s
      | Some cl \<Rightarrow>
          if parent_id \<noteq> 0 \<and> (case GetInstanceById parent_id (sv_registry s) of None \<Rightarrow> False | Some p \<Rightarrow> ii_is_home_map p)
          then Served s
          else
            let target = continuation parent_id s; queue_id = instance_queue parent_id s;
                s1 = (if parent_id \<noteq> 0 \<and> cl_guid cl \<noteq> []
                      then on_registry (MarkInstancePlayerLeft (unix_now ne) parent_id (cl_guid cl)) s else s);
                s2 = reset_routing c s1
            in (case target of
                  None \<Rightarrow> wait_for_home_map_then_register ne c 120 s2
                | Some succ \<Rightarrow>
                    (case ConsumePreAssignedTeam (ii_instance_id succ) (cl_guid cl) (sv_world s2) of
                       (cached, w) \<Rightarrow>
                         let s3 = put_world w s2;
                             tf = (case cached of Some tf \<Rightarrow> tf
                                   | None \<Rightarrow> fallback_side ne (cl_profile_id cl) queue_id (ii_instance_id succ) s3)
                         in initiate_player_register_for_target ne c (ii_instance_id succ) tf s3)))"

definition ForceMissionExit :: "ServerEnv \<Rightarrow> guid \<Rightarrow> int \<Rightarrow> Server \<Rightarrow> Server served" where
  "ForceMissionExit ne g parent_id s =
     (if g = [] \<or> parent_id = 0 then Served s
      else (case session_of g s of
          None \<Rightarrow> Served (on_registry (MarkInstancePlayerLeft (unix_now ne) parent_id g) s)
        | Some (c, cl) \<Rightarrow>
            if cl_assigned cl \<noteq> parent_id
            then Served (on_registry (MarkInstancePlayerLeft (unix_now ne) parent_id g) s)
            else route_from_mission_instance ne c parent_id s))"

definition change_instance :: "ServerEnv \<Rightarrow> nat \<Rightarrow> u32 \<Rightarrow> u32 \<Rightarrow> Server \<Rightarrow> Server served" where
  \<comment> \<open>\<open>GSC_CHANGE_INSTANCE\<close> with its two fields\<close>
  "change_instance ne c target_map target_instance s =
     (case map_of (sv_clients s) c of
        None \<Rightarrow> Served s
      | Some cl \<Rightarrow>
          if target_map \<noteq> 0 \<or> target_instance \<noteq> 0 then Served s
          else (case (if cl_assigned cl = 0 then None else GetInstanceById (cl_assigned cl) (sv_registry s)) of
              Some parent \<Rightarrow>
                if ii_is_home_map parent \<and> ii_state parent = READY
                then
                  let s1 = on_client c forget_invitation s
                  in Served (if ii_map_name parent = ''Dome3_VR_Arena_P''
                             then snd (SendToInstance (cl_assigned cl) (ReturnHomeArea (cl_guid cl)) s1) else s1)
                else route_from_mission_instance ne c (cl_assigned cl) s
            | None \<Rightarrow> route_from_mission_instance ne c (cl_assigned cl) s))"

definition leave_game :: "ServerEnv \<Rightarrow> nat \<Rightarrow> Server \<Rightarrow> Server" where
  \<comment> \<open>\<open>PLAYER_LEAVE_GAME\<close>\<close>
  "leave_game ne c s =
     (case map_of (sv_clients s) c of
        None \<Rightarrow> s
      | Some cl \<Rightarrow>
          let s1 = (if cl_guid cl = [] then s else on_team (HandleVoluntaryExit (team_env ne s) (cl_guid cl)) s);
              s2 = (if cl_assigned cl \<noteq> 0 \<and> cl_guid cl \<noteq> []
                    then snd (SendToInstance (cl_assigned cl) (LeavePlayer (cl_guid cl) (cl_token cl)) s1) else s1)
          in on_client c (\<lambda>cl. cl\<lparr>cl_assigned := 0, cl_token := 0, cl_pending_instance := 0, cl_pending_mode := []\<rparr>) s2)"

definition logoff :: "ServerEnv \<Rightarrow> nat \<Rightarrow> Server \<Rightarrow> Server" where
  \<comment> \<open>\<open>PLAYER_LOGOFF\<close>\<close>
  "logoff ne c s =
     (case map_of (sv_clients s) c of
        None \<Rightarrow> s
      | Some cl \<Rightarrow> if cl_guid cl = [] then s else on_team (HandleVoluntaryExit (team_env ne s) (cl_guid cl)) s)"

section \<open>Moves, spectators, open-world travel\<close>

definition AdminMovePlayerToInstance ::
  "ServerEnv \<Rightarrow> guid \<Rightarrow> int \<Rightarrow> int \<Rightarrow> int \<Rightarrow> int \<Rightarrow> Server \<Rightarrow> (bool \<times> Server) served" where
  "AdminMovePlayerToInstance ne g target_id target_tf source_id source_tf s =
     (if target_id = 0 \<or> target_tf \<noteq> 1 \<and> target_tf \<noteq> 2 then Served (False, s)
      else (case (session_of g s, is_ready target_id s) of
          (Some (c, cl), Some _) \<Rightarrow>
            let current = (if cl_assigned cl = 0 \<and> source_id \<noteq> 0 then source_id else cl_assigned cl)
            in if current = target_id
               then (if source_tf = target_tf then Served (True, s)
                     else (case SendToInstance current
                              (ChangeTeamAction g (if target_tf = 1 then ''attackers'' else ''defenders'') None) s of
                             (False, s1) \<Rightarrow> Served (False, s1)
                           | (True, s1) \<Rightarrow>
                               Served (True, on_registry (UpdateInstancePlayerTaskForce current g target_tf) s1)))
               else
                 let s1 = (if current \<noteq> 0 then on_registry (MarkInstancePlayerLeft (unix_now ne) current g) s else s)
                 in (case initiate_player_register_for_target ne c target_id target_tf s1 of
                       Served s2 \<Rightarrow> Served (True, s2) | Threw s2 \<Rightarrow> Threw (True, s2) | Hung \<Rightarrow> Hung)
        | _ \<Rightarrow> Served (False, s)))"

definition DeliverSpectateJoin :: "ServerEnv \<Rightarrow> guid \<Rightarrow> int \<Rightarrow> int \<Rightarrow> Server \<Rightarrow> bool \<times> Server" where
  "DeliverSpectateJoin ne g target_id team_tf s =
     (case is_ready target_id s of
        None \<Rightarrow> (False, s)
      | Some target \<Rightarrow>
          if ii_is_home_map target then (False, s)
          else (case session_of g s of
              None \<Rightarrow> (False, s)
            | Some (c, _) \<Rightarrow> (True, initiate_player_register_for_spectate ne c target_id team_tf s)))"

definition exit_spectate :: "ServerEnv \<Rightarrow> nat \<Rightarrow> Server \<Rightarrow> Server served" where
  "exit_spectate ne c s =
     (case map_of (sv_clients s) c of
        None \<Rightarrow> Served s
      | Some cl \<Rightarrow>
          let s1 = on_client c (\<lambda>cl. cl\<lparr>cl_spectating := False\<rparr>) s;
              s2 = (if cl_assigned cl = 0 then s1
                    else on_client c (\<lambda>cl. cl\<lparr>cl_assigned := 0, cl_token := 0\<rparr>)
                           (snd (SendToInstance (cl_assigned cl) (ClosePlayer (cl_guid cl) (cl_token cl)) s1)))
          in wait_for_home_map_then_register ne c 120 s2)"

definition DeliverSpectateExit :: "ServerEnv \<Rightarrow> guid \<Rightarrow> Server \<Rightarrow> Server served" where
  "DeliverSpectateExit ne g s =
     (case session_of g s of
        None \<Rightarrow> Served s
      | Some (c, cl) \<Rightarrow> if cl_spectating cl then exit_spectate ne c s else Served s)"

definition travel_to_map_when_ready :: "ServerEnv \<Rightarrow> nat \<Rightarrow> string \<Rightarrow> int \<Rightarrow> int \<Rightarrow> Server \<Rightarrow> Server served" where
  "travel_to_map_when_ready ne c map_name task_force secs s =
     (let arrived = on_client c (\<lambda>cl. cl\<lparr>cl_travelling := False\<rparr>)
      in if secs \<le> 0 then Served (arrived s)
         else (case GetReadyInstance map_name (sv_registry s) of
             None \<Rightarrow> Served (arm_new (TravelPoll c map_name task_force secs) s)
           | Some ready \<Rightarrow>
               (case map_of (sv_clients s) c of
                  None \<Rightarrow> Served s
                | Some cl \<Rightarrow>
                    if cl_assigned cl = ii_instance_id ready then Served (arrived s)
                    else
                      let s1 = (if cl_assigned cl \<noteq> 0
                                then on_registry (MarkInstancePlayerLeft (unix_now ne) (cl_assigned cl) (cl_guid cl)) s
                                else s)
                      in initiate_player_register_for_target ne c (ii_instance_id ready) task_force (arrived s1))))"

definition DeliverOpenWorldTravel :: "ServerEnv \<Rightarrow> guid \<Rightarrow> string \<Rightarrow> int \<Rightarrow> Server \<Rightarrow> Server served" where
  "DeliverOpenWorldTravel ne g map_name task_force s =
     (case session_of g s of
        None \<Rightarrow> Served s
      | Some (c, cl) \<Rightarrow>
          if cl_travelling cl then Served s
          else travel_to_map_when_ready ne c map_name task_force 120
                 (on_client c (\<lambda>cl. cl\<lparr>cl_travelling := True\<rparr>) s))"

definition kTaskForce :: int where "kTaskForce = 2"
definition kDifficultyValueId :: u32 where "kDifficultyValueId = 1471"

definition travel_alert :: "guid \<Rightarrow> string \<Rightarrow> rat \<Rightarrow> Server \<Rightarrow> Server" where
  \<comment> \<open>\<open>SendTravelAlert\<close>\<close>
  "travel_alert g text duration s = snd (DeliverPlayerAction g (AlertText g text duration) s)"

definition OpenWorldDestination :: "ServerEnv \<Rightarrow> u32 \<Rightarrow> MapGameRecord option" where
  \<comment> \<open>the three checks that end in the alert\<close>
  "OpenWorldDestination ne map_game_id =
     (case LookupByMapGameId ne map_game_id of
        None \<Rightarrow> None
      | Some row \<Rightarrow> if mg_gameplay_type row \<noteq> kGameplayTypeOpenZone \<or> mg_map_name row = [] \<or> mg_game_class row = []
                    then None else Some row)"

definition OpenWorldSpawn :: "ServerEnv \<Rightarrow> MapGameRecord \<Rightarrow> Server \<Rightarrow> (int \<times> Server) served" where
  \<comment> \<open>the spawner of \<open>main.cpp\<close>\<close>
  "OpenWorldSpawn ne row s =
     (case AllocatePort (ev_port_lo (en_match (ne_team ne))) (ev_port_hi (en_match (ne_team ne))) (sv_registry s) of
        None \<Rightarrow> Hung
      | Some None \<Rightarrow> Served (0, s)
      | Some (Some port) \<Rightarrow> Served (start_instance ne (mg_map_name row) (mg_game_class row) False 0 0
                                      (DifficultyId kDifficultyValueId) port s))"

definition OpenWorldTravelRequest :: "ServerEnv \<Rightarrow> guid \<Rightarrow> u32 \<Rightarrow> Server \<Rightarrow> Server served" where
  "OpenWorldTravelRequest ne g map_game_id s =
     (if g = [] \<or> map_game_id = 0 then Served s
      else (case OpenWorldDestination ne map_game_id of
          None \<Rightarrow> Served (travel_alert g ''Under construction, please come back later.'' 6 s)
        | Some row \<Rightarrow>
            let arrive = (\<lambda>warm s. DeliverOpenWorldTravel ne g (mg_map_name row) kTaskForce
                   (if warm then s else travel_alert g ''Instance is starting, please wait...'' 10 s))
            in (case GetLiveInstanceByMapName (mg_map_name row) (sv_registry s) of
                  Some live \<Rightarrow> arrive (ii_state live = READY) s
                | None \<Rightarrow>
                    if mg_map_name row \<in> set (sv_spawning s) then arrive False s
                    else if \<not> ne_travel_spawner ne then Served s
                    else (case OpenWorldSpawn ne row (s\<lparr>sv_spawning := mg_map_name row # sv_spawning s\<rparr>) of
                        Hung \<Rightarrow> Hung
                      | Threw (_, s1) \<Rightarrow> Threw s1
                      | Served (iid, s1) \<Rightarrow>
                          let s2 = s1\<lparr>sv_spawning := removeAll (mg_map_name row) (sv_spawning s1)\<rparr>
                          in if iid = 0 then Served s2 else arrive False s2))))"

section \<open>Connecting and disconnecting\<close>

definition UnregisterSession :: "guid \<Rightarrow> Server \<Rightarrow> Server" where
  "UnregisterSession g s = s\<lparr>sv_sessions := umap_erase g (sv_sessions s)\<rparr>"

definition StoreUnregister :: "guid \<Rightarrow> Server \<Rightarrow> Server" where
  \<comment> \<open>\<open>PlayerSessionStore::Unregister\<close>\<close>
  "StoreUnregister g s = s\<lparr>sv_store := umap_erase g (sv_store s)\<rparr>"

definition forget_session :: "ServerEnv \<Rightarrow> guid \<Rightarrow> Server \<Rightarrow> Server" where
  \<comment> \<open>the five calls every teardown makes\<close>
  "forget_session ne g s =
     (let s1 = on_world (RemovePlayer (match_env ne s) g) s;
          s2 = on_team (HandleDisconnect (team_env ne s1) g) s1
      in StoreUnregister g (ClearPendingAck g (UnregisterSession g s2)))"

definition finalize_row :: "nat \<Rightarrow> Client \<Rightarrow> Server \<Rightarrow> Server" where
  "finalize_row c cl s =
     (if cl_session_row cl \<noteq> 0
      then emit (FinalizeSession (cl_session_row cl)) (on_client c (\<lambda>cl. cl\<lparr>cl_session_row := 0\<rparr>) s) else s)"

definition close_instance_side :: "ServerEnv \<Rightarrow> nat \<Rightarrow> Client \<Rightarrow> Server \<Rightarrow> Server" where
  "close_instance_side ne c cl s =
     (if cl_assigned cl = 0 then s
      else
        let r = SendToInstance (cl_assigned cl) (ClosePlayer (cl_guid cl) (cl_token cl)) s;
            s1 = (if fst r then snd r
                  else on_registry (MarkInstancePlayerLeft (unix_now ne) (cl_assigned cl) (cl_guid cl)) (snd r))
        in on_client c (\<lambda>cl. cl\<lparr>cl_assigned := 0, cl_token := 0\<rparr>) s1)"

definition handle_socket_disconnect :: "ServerEnv \<Rightarrow> nat \<Rightarrow> Server \<Rightarrow> Server" where
  "handle_socket_disconnect ne c s =
     (case map_of (sv_clients s) c of
        None \<Rightarrow> s
      | Some cl \<Rightarrow>
          let s1 = finalize_row c cl s;
              s2 = (case cl_ack_timer cl of None \<Rightarrow> s1
                    | Some t \<Rightarrow> on_client c (\<lambda>cl. cl\<lparr>cl_ack_timer := None\<rparr>) (cancel t s1))
          in if cl_guid cl = [] then s2
             else on_client c (\<lambda>cl. cl\<lparr>cl_guid := []\<rparr>)
                    (forget_session ne (cl_guid cl) (close_instance_side ne c cl s2)))"

definition EvictStaleSession :: "ServerEnv \<Rightarrow> guid \<Rightarrow> Server \<Rightarrow> Server" where
  "EvictStaleSession ne g s =
     StoreUnregister g
       (case session_of g s of
          Some (c, _) \<Rightarrow> emit (CloseSocket c) (handle_socket_disconnect ne c s)
        | None \<Rightarrow>
            let s1 = on_world (RemovePlayer (match_env ne s) g) s;
                s2 = on_team (HandleDisconnect (team_env ne s1) g) s1
            in ClearPendingAck g (UnregisterSession g s2))"

definition GetByPlayerName :: "string \<Rightarrow> Server \<Rightarrow> (guid \<times> Session) option" where
  \<comment> \<open>with the key, which is the \<open>session_guid\<close> of the value\<close>
  "GetByPlayerName name s = find (\<lambda>(_, i). NamesEqualCi (se_player_name i) name) (sv_store s)"

subsection \<open>The session store under deliveries\<close>

lemma put_world_store [simp]: "sv_store (put_world w s) = sv_store s"
  by (simp add: put_world_def)

lemma on_registry_store [simp]: "sv_store (on_registry f s) = sv_store s"
  by (simp add: on_registry_def)

lemma emit_store [simp]: "sv_store (emit x s) = sv_store s"
  by (simp add: emit_def)

lemma on_client_store [simp]: "sv_store (on_client c f s) = sv_store s"
  by (simp add: on_client_def split: option.split)

lemma cancel_store [simp]: "sv_store (cancel t s) = sv_store s"
  by (simp add: cancel_def)

lemma SendToInstance_store [simp]: "sv_store (snd (SendToInstance i m s)) = sv_store s"
  by (simp add: SendToInstance_def split: option.split)

lemma deliver_store [simp]:
  "sv_store (deliver_invitation g i gm tf s) = sv_store s"
  "sv_store (deliver_cancelled g s) = sv_store s"
  "sv_store (deliver_queue_status g q n s) = sv_store s"
  "sv_store (deliver_frame g msg s) = sv_store s"
  by (simp_all add: deliver_invitation_def send_match_invitation_def deliver_cancelled_def deliver_queue_status_def
        deliver_frame_def split: option.split)

lemma deliver_effect_store [simp]: "sv_store (deliver_effect e s) = sv_store s"
  by (cases e) simp_all

lemma deliver_team_store [simp]: "sv_store (deliver_team e s) = sv_store s"
  by (cases e) simp_all

lemma settle_store [simp]: "sv_store (settle s) = sv_store s"
  by (simp add: settle_def Let_def fold_keeps [where F = sv_store])

lemma on_world_store [simp]: "sv_store (on_world f s) = sv_store s"
  by (simp add: on_world_def)

lemma on_team_store [simp]: "sv_store (on_team f s) = sv_store s"
  by (simp add: on_team_def)

lemma close_instance_side_store [simp]: "sv_store (close_instance_side ne c cl s) = sv_store s"
  by (simp add: close_instance_side_def Let_def)

lemma length_delete_le: "length (AList.delete k m) \<le> length m"
  by (simp add: AList.delete_eq)

lemma forget_session_store [simp]: "sv_store (forget_session ne g s) = umap_erase g (sv_store s)"
  by (simp add: forget_session_def StoreUnregister_def ClearPendingAck_def UnregisterSession_def Let_def)

lemma finalize_row_store [simp]: "sv_store (finalize_row c cl s) = sv_store s"
  by (simp add: finalize_row_def)

lemma disconnect_store:
  "sv_store (handle_socket_disconnect ne c s) = sv_store s \<or>
   (\<exists>g. sv_store (handle_socket_disconnect ne c s) = umap_erase g (sv_store s))"
  by (auto simp: handle_socket_disconnect_def Let_def split: option.split)

lemma delete_shrinks: "map_of m k \<noteq> None \<Longrightarrow> length (umap_erase k m) < length m"
  by (induction m) (auto simp: AList.delete_eq less_Suc_eq_le)

lemma EvictStaleSession_shrinks:
  assumes "map_of (sv_store s) g \<noteq> None"
  shows "length (sv_store (EvictStaleSession ne g s)) < length (sv_store s)"
proof -
  have same: "length (umap_erase g (sv_store s)) < length (sv_store s)"
    by (rule delete_shrinks [OF assms])
  have twice: "length (umap_erase g (umap_erase g' (sv_store s))) < length (sv_store s)" for g'
    using same length_delete_le [of g' "umap_erase g (sv_store s)"]
    by (simp add: AList.delete_twist [of g g'])
  show ?thesis
    using same twice disconnect_store [of ne _ s]
    by (auto simp: EvictStaleSession_def StoreUnregister_def ClearPendingAck_def UnregisterSession_def Let_def
          split: option.split prod.split) metis
qed

lemma GetByPlayerName_known: "GetByPlayerName name s = Some (g, i) \<Longrightarrow> map_of (sv_store s) g \<noteq> None"
  unfolding GetByPlayerName_def find_Some_iff
  by (metis nth_mem not_None_eq weak_map_of_SomeI)

function takeover :: "ServerEnv \<Rightarrow> string \<Rightarrow> Server \<Rightarrow> Server" where
  \<comment> \<open>\<open>while (auto existing = GetByPlayerName(player_name))\<close>\<close>
  "takeover ne name s =
     (case GetByPlayerName name s of
        None \<Rightarrow> s
      | Some (g, _) \<Rightarrow> takeover ne name (EvictStaleSession ne g s))"
  by pat_completeness auto
termination
  by (relation "measure (\<lambda>(_, _, s). length (sv_store s))")
     (simp, metis EvictStaleSession_shrinks GetByPlayerName_known in_measure case_prod_conv)

declare takeover.simps [simp del]

subsection \<open>Log in, select a character\<close>

definition OpenClient :: "Server \<Rightarrow> Server" where
  \<comment> \<open>a connection is accepted\<close>
  "OpenClient s = s\<lparr>sv_clients := umap_put (sv_next_client s) new_client (sv_clients s), sv_next_client := sv_next_client s + 1\<rparr>"

definition ReplacePriorSession :: "ServerEnv \<Rightarrow> nat \<Rightarrow> Server \<Rightarrow> Server" where
  \<comment> \<open>a second login on the same socket\<close>
  "ReplacePriorSession ne c s =
     (case map_of (sv_clients s) c of
        None \<Rightarrow> s
      | Some cl \<Rightarrow>
          if cl_guid cl = [] then s
          else
            let s1 = on_world (RemovePlayer (match_env ne s) (cl_guid cl)) (finalize_row c cl s);
                s2 = on_team (HandleVoluntaryExit (team_env ne s1) (cl_guid cl)) s1
            in on_client c (\<lambda>cl. cl\<lparr>cl_guid := [], cl_user_id := 0, cl_character_id := 0, cl_profile_id := 0,
                              cl_assigned := 0, cl_current_queue := 0, cl_pending_instance := 0,
                              cl_pending_mode := [], cl_pending_tf := 1\<rparr>)
                 (StoreUnregister (cl_guid cl) (ClearPendingAck (cl_guid cl) (UnregisterSession (cl_guid cl) s2))))"

definition CompleteLogin :: "ServerEnv \<Rightarrow> nat \<Rightarrow> string \<Rightarrow> int \<Rightarrow> guid \<Rightarrow> int \<Rightarrow> Server \<Rightarrow> Server served" where
  \<comment> \<open>after the password was verified; \<open>g\<close> is the generated guid, \<open>row\<close> the inserted session row\<close>
  "CompleteLogin ne c name user_id g row s =
     (let s1 = (if ne_allow_duplicate_logins ne then s else takeover ne name s);
          s2 = s1\<lparr>sv_sessions := umap_put g c (sv_sessions s1)\<rparr>;
          s3 = on_client c (\<lambda>cl. cl\<lparr>cl_guid := g, cl_player_name := name, cl_user_id := user_id, cl_session_row := row\<rparr>) s2;
          s4 = s3\<lparr>sv_store := umap_put g \<lparr>se_guid = g, se_player_name = name, se_user_id = user_id,
                     se_character_id = 0, se_profile_id = 0\<rparr> (sv_store s3)\<rparr>
      in and_then (EnsureHomeMapWarm ne s4) (\<lambda>s5. Served (emit (ToClient c LoginResponse) s5)))"

definition select_character :: "ServerEnv \<Rightarrow> nat \<Rightarrow> int \<Rightarrow> Server \<Rightarrow> Server served" where
  \<comment> \<open>\<open>GSC_SELECT_CHARACTER\<close>\<close>
  "select_character ne c character_id s =
     (case map_of (sv_clients s) c of
        None \<Rightarrow> Served s
      | Some cl \<Rightarrow>
          let chosen = (if character_id = 0 then None else
                 (case ne_character ne character_id of None \<Rightarrow> None
                  | Some i \<Rightarrow> if ci_user_id i = cl_user_id cl \<and> ci_deleted_at i = 0 then Some i else None));
              s1 = (case chosen of
                      None \<Rightarrow> s
                    | Some i \<Rightarrow>
                        let s' = on_client c (\<lambda>cl. cl\<lparr>cl_character_id := ci_id i, cl_profile_id := ci_profile_id i\<rparr>) s
                        in (case map_of (sv_store s') (cl_guid cl) of
                              None \<Rightarrow> s'
                            | Some info \<Rightarrow> s'\<lparr>sv_store := umap_put (cl_guid cl)
                                (info\<lparr>se_character_id := ci_id i, se_profile_id := ci_profile_id i\<rparr>) (sv_store s')\<rparr>))
          in wait_for_home_map_then_register ne c 120 (emit (ToClient c SelectCharacterResponse) s1))"

section \<open>Timers\<close>

fun exit_all :: "ServerEnv \<Rightarrow> int \<Rightarrow> guid list \<Rightarrow> Server \<Rightarrow> Server served" where
  "exit_all ne parent_id [] s = Served s"
| "exit_all ne parent_id (g # gs) s = and_then (ForceMissionExit ne g parent_id s) (exit_all ne parent_id gs)"

definition ForceExitFired :: "ServerEnv \<Rightarrow> int \<Rightarrow> Server \<Rightarrow> Server served" where
  \<comment> \<open>the timer of \<open>schedule_mission_end_force_exit\<close>\<close>
  "ForceExitFired ne instance_id s =
     (case GetInstanceById instance_id (sv_registry s) of
        None \<Rightarrow> Served s
      | Some inst \<Rightarrow>
          if ii_state inst = STOPPED \<or> ii_is_home_map inst \<or> ii_end_mission_at inst = 0 then Served s
          else and_then (exit_all ne instance_id
                   (map ap_guid (GetActivePlayersForInstance (characters ne) instance_id (sv_registry s))) s)
                 (\<lambda>s1. Served (snd (StopNonHomeInstanceIfEmpty ne instance_id ''mission ended force-exit'' s1))))"

definition FireTimer :: "ServerEnv \<Rightarrow> nat \<Rightarrow> Server \<Rightarrow> Server served" where
  "FireTimer ne t s =
     (case map_of (sv_timers s) t of
        None \<Rightarrow> Served s
      | Some job \<Rightarrow>
          let s1 = cancel t s
          in (case job of
                HomePoll c secs \<Rightarrow> wait_for_home_map_then_register ne c (secs - 2) s1
              | TravelPoll c map_name tf secs \<Rightarrow> travel_to_map_when_ready ne c map_name tf (secs - 2) s1
              | AckTimeout c kind \<Rightarrow> ack_timeout ne c kind s1
              | ForceExit instance_id \<Rightarrow> ForceExitFired ne instance_id s1))"

end
