(* ===== verification/IpcDispatch.thy ===== *)
theory IpcDispatch
  imports PlayerRouting "HOL-Library.Monad_Syntax"
begin

text \<open>
  The connections of the game servers, \<open>IpcServer/IpcServer.cpp\<close>: what each message does, the
  disconnect, and the 60-second maintenance of \<open>main.cpp\<close>. A message arrives as the result of the
  JSON parser: \<open>None\<close> is text that does not parse. \<open>c\<close> is the connection; it has an entry in
  \<open>sv_conns\<close> from \<open>start()\<close> to \<open>on_disconnect()\<close>.
\<close>

section \<open>Connections\<close>

definition OpenConn :: "Server \<Rightarrow> Server" where
  \<comment> \<open>\<open>IpcServer::do_accept\<close>\<close>
  "OpenConn s = s\<lparr>sv_conns := umap_put (sv_next_conn s)
       \<lparr>ic_instance_id = 0, ic_validated = False, ic_is_home_map = False\<rparr> (sv_conns s),
     sv_next_conn := sv_next_conn s + 1\<rparr>"

definition conn_instance :: "nat \<Rightarrow> Server \<Rightarrow> int" where
  "conn_instance c s = (case map_of (sv_conns s) c of None \<Rightarrow> 0 | Some ic \<Rightarrow> ic_instance_id ic)"

definition conn_is_home :: "nat \<Rightarrow> Server \<Rightarrow> bool" where
  "conn_is_home c s = (case map_of (sv_conns s) c of None \<Rightarrow> False | Some ic \<Rightarrow> ic_is_home_map ic)"

definition on_conn :: "nat \<Rightarrow> (IpcConn \<Rightarrow> IpcConn) \<Rightarrow> Server \<Rightarrow> Server" where
  "on_conn c f s =
     (case map_of (sv_conns s) c of None \<Rightarrow> s | Some ic \<Rightarrow> s\<lparr>sv_conns := umap_put c (f ic) (sv_conns s)\<rparr>)"

definition on_disconnect :: "ServerEnv \<Rightarrow> nat \<Rightarrow> Server \<Rightarrow> Server" where
  "on_disconnect ne c s =
     (let iid = conn_instance c s; s0 = s\<lparr>sv_conns := umap_erase c (sv_conns s)\<rparr>
      in if iid = 0 then s0
         else
           let s1 = s0\<lparr>sv_links := umap_erase iid (sv_links s0)\<rparr>;
               s2 = on_registry (snd \<circ> PromoteSuccessor (unix_now ne) iid) s1;
               s3 = on_world (DiscardPendingMatchForDeadInstance iid ''instance disconnected before INSTANCE_READY'') s2
           in ClearInstance iid (MarkInstanceStopped ne iid s3))"

section \<open>Life of an instance\<close>

definition handle_hello :: "ServerEnv \<Rightarrow> nat \<Rightarrow> json \<Rightarrow> Server \<Rightarrow> Server served" where
  "handle_hello ne c j s =
     or_throw s (int64_at j ''instance_id'' 0) (\<lambda>iid.
       if iid = 0 then Served (emit (CloseConnection c) s)
       else
         let info = GetInstanceById iid (sv_registry s);
             home = (case info of None \<Rightarrow> False | Some i \<Rightarrow> ii_is_home_map i);
             toggles = (case info of None \<Rightarrow> (True, True)
                | Some i \<Rightarrow> if ii_queue_id i \<noteq> 0 then GetQueueStatsToggles ne (ii_queue_id i) else (True, True));
             s1 = on_conn c (\<lambda>ic. ic\<lparr>ic_instance_id := iid, ic_validated := True, ic_is_home_map := home\<rparr>) s
         in Served (emit (ToInstance c (HelloAck (\<not> home) (ne_device_enabled ne \<and> fst toggles)
                                          (ne_effectiveness_enabled ne \<and> snd toggles)))
                (s1\<lparr>sv_links := umap_put iid c (sv_links s1)\<rparr>)))"

definition invite_pending :: "ServerEnv \<Rightarrow> int \<Rightarrow> PendingMatch \<Rightarrow> Server \<Rightarrow> Server" where
  \<comment> \<open>the reservations and invitations of a match whose instance is ready\<close>
  "invite_pending ne iid pm s =
     fold (\<lambda>g. deliver_invitation g iid (pm_game_mode pm) (umap_get 1 (pm_task_force_assignments pm) g))
       (pm_session_guids pm)
       (put_world (TrackReadyMatchReservations (match_env ne s) iid (pm_queue_id pm) (pm_game_mode pm)
          (pm_session_guids pm) (pm_task_force_assignments pm) (pm_profile_ids pm) (pm_mmrs pm) (pm_cap pm)
          (sv_world s)) s)"

definition instance_ready :: "ServerEnv \<Rightarrow> int \<Rightarrow> int \<Rightarrow> Server \<Rightarrow> Server" where
  "instance_ready ne iid max_players s =
     (let s1 = on_registry (MarkReady (unix_now ne) iid max_players) s
      in (case ConsumePendingMatch (match_env ne s1) iid (sv_world s1) of
            (None, w) \<Rightarrow> put_world w s1
          | (Some pm, w) \<Rightarrow> invite_pending ne iid pm (put_world w s1)))"

definition handle_ready :: "ServerEnv \<Rightarrow> json \<Rightarrow> Server \<Rightarrow> Server served" where
  "handle_ready ne j s =
     or_throw s (int64_at j ''instance_id'' 0) (\<lambda>iid.
     or_throw s (int_at j ''max_players'' 0) (\<lambda>max_players.
       Served (instance_ready ne iid max_players s)))"

definition handle_instance_empty :: "ServerEnv \<Rightarrow> json \<Rightarrow> Server \<Rightarrow> Server served" where
  "handle_instance_empty ne j s =
     or_throw s (int64_at j ''instance_id'' 0) (\<lambda>iid.
       (case StopNonHomeInstanceIfEmpty ne iid ''instance empty'' s of
          (True, s1) \<Rightarrow> Served s1
        | (False, s1) \<Rightarrow> Served (on_registry (SetLastEmptyAtIfEmpty (unix_now ne) iid) s1)))"

section \<open>Players\<close>

definition handle_register_ack :: "ServerEnv \<Rightarrow> json \<Rightarrow> Server \<Rightarrow> Server served" where
  "handle_register_ack ne j s =
     or_throw s (string_at j ''session_guid'' []) (\<lambda>g.
     or_throw s (bool_at j ''success'' False) (\<lambda>success.
     or_throw s (int_at j ''pawn_id'' 0) (\<lambda>_. DeliverAck ne g success s)))"

definition handle_game_event :: "nat \<Rightarrow> json \<Rightarrow> Server \<Rightarrow> Server served" where
  \<comment> \<open>an audit line is only logged, but its fields are read\<close>
  "handle_game_event c j s =
     or_throw s (string_at j ''subtype'' []) (\<lambda>subtype.
     or_throw s (string_at j ''session_guid'' []) (\<lambda>g.
       if subtype = ''chat_command_audit''
       then or_throw s (do { _ \<leftarrow> string_at j ''player_name'' []; _ \<leftarrow> string_at j ''command'' [];
                             _ \<leftarrow> string_at j ''outcome'' []; _ \<leftarrow> string_at j ''details'' [];
                             int64_at j ''instance_id'' (conn_instance c s) }) (\<lambda>_. Served s)
       else if g = [] then Served s
       else Served (deliver_frame g (GameEventFor j) s)))"

definition handle_player_joined :: "json \<Rightarrow> Server \<Rightarrow> Server served" where
  "handle_player_joined j s =
     or_throw s (int64_at j ''instance_id'' 0) (\<lambda>iid.
     or_throw s (string_at j ''session_guid'' []) (\<lambda>g.
     or_throw s (int_at j ''task_force'' 1) (\<lambda>tf.
       Served (if iid \<noteq> 0 \<and> g \<noteq> [] then on_registry (UpdateInstancePlayerTaskForce iid g tf) s else s))))"

definition backfills :: "int \<Rightarrow> Server \<Rightarrow> u32 option" where
  \<comment> \<open>the queue of the instance, when a vacancy is offered to waiting players\<close>
  "backfills iid s =
     (case GetInstanceById iid (sv_registry s) of
        None \<Rightarrow> None
      | Some inst \<Rightarrow>
          if ii_queue_id inst = 0 then None
          else (case GetQueueConfig (ii_queue_id inst) (sv_world s) of
              None \<Rightarrow> None
            | Some cfg \<Rightarrow> if qc_late_join_policy cfg = BackfillOnly then Some (ii_queue_id inst) else None))"

definition player_left :: "nat \<Rightarrow> ServerEnv \<Rightarrow> int \<Rightarrow> guid \<Rightarrow> Server \<Rightarrow> Server served" where
  "player_left n ne iid g s =
     (let s1 = on_registry (MarkInstancePlayerLeft (unix_now ne) iid g) s;
          s2 = snd (StopNonHomeInstanceIfEmpty ne iid ''last player left'' s1)
      in (case backfills iid s2 of
            None \<Rightarrow> Served s2
          | Some queue_id \<Rightarrow>
              and_then (run_world (EvaluateQueue n (match_env ne s2) queue_id) s2) (\<lambda>s3. Served (settle s3))))"

definition handle_player_left :: "nat \<Rightarrow> ServerEnv \<Rightarrow> json \<Rightarrow> Server \<Rightarrow> Server served" where
  "handle_player_left n ne j s =
     or_throw s (int64_at j ''instance_id'' 0) (\<lambda>iid.
     or_throw s (string_at j ''session_guid'' []) (\<lambda>g. player_left n ne iid g s))"

section \<open>The spectator overlay\<close>

fun split_effect_ids :: "json list \<Rightarrow> int list \<Rightarrow> int list \<times> int list" where
  \<comment> \<open>the second argument is the set \<open>seen\<close>\<close>
  "split_effect_ids [] seen = ([], [])"
| "split_effect_ids (raw # rest) seen =
     (case (if is_integer raw then get_int raw else None) of
        None \<Rightarrow> split_effect_ids rest seen
      | Some i \<Rightarrow>
          if i \<in> set seen then split_effect_ids rest seen
          else (case split_effect_ids rest (i # seen) of
              (effects, skills) \<Rightarrow>
                if IsEffectId i then (i # effects, skills)
                else if IsSkillId i then (effects, i # skills) else (effects, skills)))"

definition read_pawn_snapshot :: "int \<Rightarrow> guid \<Rightarrow> json \<Rightarrow> PawnSnapshot option" where
  "read_pawn_snapshot now g j = do {
     tf \<leftarrow> int_at j ''task_force'' 0;
     health \<leftarrow> int_at j ''health'' 0;
     health_max \<leftarrow> int_at j ''health_max'' 0;
     power \<leftarrow> float_at j ''power'' 0;
     power_max \<leftarrow> float_at j ''power_max'' 0;
     let ids = (case array_at j ''effect_ids'' of None \<Rightarrow> ([], []) | Some raws \<Rightarrow> split_effect_ids raws []);
     Some \<lparr>sn_guid = g, sn_task_force = tf, sn_health = health, sn_health_max = health_max, sn_power = power,
           sn_power_max = power_max, sn_effect_ids = fst ids, sn_skill_ids = snd ids, sn_updated_at = now\<rparr> }"

definition handle_pawn_health :: "ServerEnv \<Rightarrow> json \<Rightarrow> Server \<Rightarrow> Server served" where
  "handle_pawn_health ne j s =
     or_throw s (int64_at j ''instance_id'' 0) (\<lambda>iid.
     or_throw s (string_at j ''session_guid'' []) (\<lambda>g.
       if iid = 0 \<or> g = [] then Served s
       else or_throw s (read_pawn_snapshot (unix_now ne) g j) (\<lambda>snap. Served (OverlayUpdate iid snap s))))"

definition read_objective :: "json \<Rightarrow> Objective option" where
  "read_objective raw = do {
     i \<leftarrow> int_at raw ''id'' 0;
     name \<leftarrow> string_at raw ''name'' [];
     priority \<leftarrow> int_at raw ''priority'' 0;
     locked \<leftarrow> bool_at raw ''locked'' False;
     active \<leftarrow> bool_at raw ''active'' False;
     owner \<leftarrow> int_at raw ''owner_taskforce'' 0;
     pct \<leftarrow> float_at raw ''capture_pct'' 0;
     Some \<lparr>ob_id = i, ob_name = name, ob_priority = priority, ob_locked = locked, ob_active = active,
           ob_owner_taskforce = owner, ob_capture_pct = pct\<rparr> }"

fun read_all :: "('a \<Rightarrow> 'b option) \<Rightarrow> 'a list \<Rightarrow> 'b list option" where
  "read_all f [] = Some []"
| "read_all f (x # xs) = do { y \<leftarrow> f x; ys \<leftarrow> read_all f xs; Some (y # ys) }"

definition empty_mission :: "string \<Rightarrow> int \<Rightarrow> MissionSnapshot" where
  "empty_mission mode now = \<lparr>mn_mode = mode, mn_remaining_seconds = 0, mn_timer_state = 0, mn_attacker_points = 0,
     mn_defender_points = 0, mn_points_to_win = 0, mn_round_current = 0, mn_round_max = 0, mn_boss_health = 0,
     mn_boss_health_max = 0, mn_boss_name = [], mn_friendly_health = 0, mn_friendly_health_max = 0,
     mn_friendly_name = [], mn_objectives = [], mn_updated_at = now\<rparr>"

definition read_points :: "json \<Rightarrow> MissionSnapshot \<Rightarrow> MissionSnapshot option" where
  "read_points j snap =
     (if mn_mode snap = ''ticket'' \<or> mn_mode snap = ''koth'' then do {
        a \<leftarrow> int_at j ''attacker_points'' 0; d \<leftarrow> int_at j ''defender_points'' 0; w \<leftarrow> int_at j ''points_to_win'' 0;
        Some (snap\<lparr>mn_attacker_points := a, mn_defender_points := d, mn_points_to_win := w\<rparr>) }
      else Some snap)"

definition read_raid :: "json \<Rightarrow> MissionSnapshot \<Rightarrow> MissionSnapshot option" where
  "read_raid j snap =
     (if mn_mode snap = ''raid'' then do {
        rc \<leftarrow> int_at j ''round_current'' 0; rm \<leftarrow> int_at j ''round_max'' 0;
        fh \<leftarrow> int_at j ''friendly_health'' 0; fm \<leftarrow> int_at j ''friendly_health_max'' 0;
        fn \<leftarrow> string_at j ''friendly_name'' [];
        Some (snap\<lparr>mn_round_current := rc, mn_round_max := rm, mn_friendly_health := fh,
                mn_friendly_health_max := fm, mn_friendly_name := fn\<rparr>) }
      else Some snap)"

definition read_boss :: "json \<Rightarrow> MissionSnapshot \<Rightarrow> MissionSnapshot option" where
  "read_boss j snap =
     (if mn_mode snap = ''raid'' \<or> mn_mode snap = ''pve'' \<or> mn_mode snap = ''superagent'' then do {
        h \<leftarrow> int_at j ''boss_health'' 0; m \<leftarrow> int_at j ''boss_health_max'' 0; n \<leftarrow> string_at j ''boss_name'' [];
        Some (snap\<lparr>mn_boss_health := h, mn_boss_health_max := m, mn_boss_name := n\<rparr>) }
      else Some snap)"

definition read_mission :: "int \<Rightarrow> string \<Rightarrow> json \<Rightarrow> MissionSnapshot option" where
  "read_mission now mode j = do {
     secs \<leftarrow> float_at j ''mission_remaining_seconds'' 0;
     st \<leftarrow> int_at j ''mission_timer_state'' 0;
     s1 \<leftarrow> read_points j ((empty_mission mode now)\<lparr>mn_remaining_seconds := secs, mn_timer_state := st\<rparr>);
     s2 \<leftarrow> read_raid j s1;
     s3 \<leftarrow> read_boss j s2;
     obs \<leftarrow> (case array_at j ''objectives'' of None \<Rightarrow> Some [] | Some raws \<Rightarrow> read_all read_objective raws);
     Some (s3\<lparr>mn_objectives := obs\<rparr>) }"

definition handle_mission_progress :: "ServerEnv \<Rightarrow> json \<Rightarrow> Server \<Rightarrow> Server served" where
  "handle_mission_progress ne j s =
     or_throw s (int64_at j ''instance_id'' 0) (\<lambda>iid.
       if iid = 0 then Served s
       else or_throw s (string_at j ''mode'' []) (\<lambda>mode.
         if mode = [] then Served s
         else or_throw s (read_mission (unix_now ne) mode j) (\<lambda>snap. Served (MissionUpdate iid snap s))))"

section \<open>Match events and statistics\<close>

definition read_match_event :: "int \<Rightarrow> json \<Rightarrow> MatchEventRow option" where
  \<comment> \<open>the reads after \<open>instance_id\<close>\<close>
  "read_match_event iid j = do {
     game_time \<leftarrow> double_at j ''game_time'' 0;
     event_type \<leftarrow> string_at j ''event_type'' [];
     actor_user \<leftarrow> int64_at j ''actor_user_id'' 0;
     actor_char \<leftarrow> int64_at j ''actor_character_id'' 0;
     actor_bot \<leftarrow> int_at j ''actor_bot_id'' 0;
     actor_tf \<leftarrow> int_at j ''actor_task_force'' 0;
     target_user \<leftarrow> int64_at j ''target_user_id'' 0;
     target_char \<leftarrow> int64_at j ''target_character_id'' 0;
     target_bot \<leftarrow> int_at j ''target_bot_id'' 0;
     target_tf \<leftarrow> int_at j ''target_task_force'' 0;
     owner_user \<leftarrow> int64_at j ''owner_user_id'' 0;
     owner_char \<leftarrow> int64_at j ''owner_character_id'' 0;
     device \<leftarrow> int_at j ''device_id'' 0;
     detail \<leftarrow> int64_at j ''detail'' 0;
     flags \<leftarrow> int_at j ''flags'' 0;
     Some \<lparr>ei_instance_id = iid, ei_game_time = game_time, ei_event_type = event_type,
       ei_actor_user_id = actor_user, ei_actor_character_id = actor_char, ei_actor_bot_id = actor_bot,
       ei_actor_task_force = actor_tf, ei_target_user_id = target_user, ei_target_character_id = target_char,
       ei_target_bot_id = target_bot, ei_target_task_force = target_tf, ei_owner_user_id = owner_user,
       ei_owner_character_id = owner_char, ei_device_id = device, ei_detail = detail, ei_flags = flags\<rparr> }"

definition read_assist :: "MatchEventRow \<Rightarrow> int \<Rightarrow> json \<Rightarrow> MatchEventRow option" where
  \<comment> \<open>the kill's target and row id, the assistant as the actor\<close>
  "read_assist kill event_id a = do {
     user \<leftarrow> int64_at a ''user_id'' 0;
     char \<leftarrow> int64_at a ''character_id'' 0;
     tf \<leftarrow> int_at a ''task_force'' 0;
     Some \<lparr>ei_instance_id = ei_instance_id kill, ei_game_time = ei_game_time kill, ei_event_type = ''ASSIST'',
       ei_actor_user_id = user, ei_actor_character_id = char, ei_actor_bot_id = 0, ei_actor_task_force = tf,
       ei_target_user_id = ei_target_user_id kill, ei_target_character_id = ei_target_character_id kill,
       ei_target_bot_id = ei_target_bot_id kill, ei_target_task_force = ei_target_task_force kill,
       ei_owner_user_id = 0, ei_owner_character_id = 0, ei_device_id = 0, ei_detail = event_id, ei_flags = 0\<rparr> }"

definition last_event_id :: "Server \<Rightarrow> int" where
  \<comment> \<open>rows are never deleted, so the row id of the last one is their number\<close>
  "last_event_id s = int (length (md_events (db_of s)))"

fun insert_assists :: "ServerEnv \<Rightarrow> MatchEventRow \<Rightarrow> int \<Rightarrow> json list \<Rightarrow> Server \<Rightarrow> Server served" where
  "insert_assists ne kill event_id [] s = Served s"
| "insert_assists ne kill event_id (a # rest) s =
     or_throw s (read_assist kill event_id a) (\<lambda>row.
       insert_assists ne kill event_id rest (on_db (InsertMatchEvent (unix_now ne) row) s))"

definition handle_match_event :: "ServerEnv \<Rightarrow> nat \<Rightarrow> json \<Rightarrow> Server \<Rightarrow> Server served" where
  "handle_match_event ne c j s =
     (if conn_is_home c s then Served s
      else or_throw s (int64_at j ''instance_id'' (conn_instance c s)) (\<lambda>iid.
        or_throw s (read_match_event iid j) (\<lambda>row.
          if ei_event_type row = [] then Served s
          else
            let s1 = on_db (InsertMatchEvent (unix_now ne) row) s
            in (case array_at j ''assists'' of
                  None \<Rightarrow> Served s1
                | Some as \<Rightarrow> insert_assists ne row (last_event_id s1) as s1))))"

definition read_scores :: "json \<Rightarrow> int list" where
  \<comment> \<open>eleven counters; what is missing or not a number is 0\<close>
  "read_scores j =
     (let given = (case array_at j ''scores'' of None \<Rightarrow> []
         | Some xs \<Rightarrow> map (\<lambda>x. if is_number x then (case get_int x of None \<Rightarrow> 0 | Some i \<Rightarrow> i) else 0) (take 11 xs))
      in given @ replicate (11 - length given) 0)"

definition read_player_stats :: "int \<Rightarrow> int \<Rightarrow> int \<Rightarrow> int \<Rightarrow> json \<Rightarrow> MatchPlayerStatsRow option" where
  "read_player_stats iid user char tf j = do {
     capture \<leftarrow> double_at j ''capture_seconds'' 0;
     contest \<leftarrow> double_at j ''contest_seconds'' 0;
     captures \<leftarrow> int_at j ''objective_captures'' 0;
     provided \<leftarrow> int_at j ''beacon_spawns_provided'' 0;
     used \<leftarrow> int_at j ''beacon_spawns_used'' 0;
     destroyed \<leftarrow> int_at j ''beacons_destroyed'' 0;
     played \<leftarrow> double_at j ''time_played_seconds'' 0;
     Some \<lparr>ms_instance_id = iid, ms_user_id = user, ms_character_id = char, ms_task_force = tf,
       ms_scores = read_scores j, ms_capture_seconds = capture, ms_contest_seconds = contest,
       ms_objective_captures = captures, ms_beacon_spawns_provided = provided, ms_beacon_spawns_used = used,
       ms_beacons_destroyed = destroyed, ms_time_played_seconds = played\<rparr> }"

definition read_row_key :: "int \<Rightarrow> json \<Rightarrow> (int \<times> int \<times> int \<times> int) option" where
  \<comment> \<open>\<open>instance_id\<close>, \<open>user_id\<close>, \<open>character_id\<close>, \<open>task_force\<close>\<close>
  "read_row_key default_id j = do {
     iid \<leftarrow> int64_at j ''instance_id'' default_id;
     user \<leftarrow> int64_at j ''user_id'' 0;
     char \<leftarrow> int64_at j ''character_id'' 0;
     tf \<leftarrow> int_at j ''task_force'' 0;
     Some (iid, user, char, tf) }"

definition handle_match_stats :: "ServerEnv \<Rightarrow> nat \<Rightarrow> json \<Rightarrow> Server \<Rightarrow> Server served" where
  "handle_match_stats ne c j s =
     (if conn_is_home c s then Served s
      else or_throw s (read_row_key (conn_instance c s) j) (\<lambda>(iid, user, char, tf).
        if char = 0 then Served s
        else or_throw s (read_player_stats iid user char tf j) (\<lambda>row. Served (on_db (UpsertMatchPlayerStats row) s))))"

definition device_counters :: "string list" where
  "device_counters = [''damage'', ''healing'', ''player_kills'', ''bot_kills'', ''debuffs_removed'', ''overheal'',
     ''uses'', ''power_restored'', ''power_wasted'', ''buffed_damage_dealt'', ''protected_damage_taken'',
     ''rescues'', ''boost_targets'', ''boost_overwrites'', ''boost_wasted_secs'']"

definition handle_device_stats :: "ServerEnv \<Rightarrow> nat \<Rightarrow> json \<Rightarrow> Server \<Rightarrow> Server served" where
  "handle_device_stats ne c j s =
     (if conn_is_home c s then Served s
      else or_throw s (read_row_key (conn_instance c s) j) (\<lambda>(iid, user, char, tf).
        or_throw s (int_at j ''device_id'' 0) (\<lambda>device.
          if char = 0 \<or> device = 0 then Served s
          else or_throw s (read_all (\<lambda>key. int_at j key 0) device_counters) (\<lambda>counters.
            Served (QueueDeviceStatsRow \<lparr>dv_instance_id = iid, dv_user_id = user, dv_character_id = char,
              dv_task_force = tf, dv_device_id = device, dv_counters = counters\<rparr> s)))))"

section \<open>The end of a mission, its successor, rebalancing\<close>

definition balanced_policy :: "QueueConfig \<Rightarrow> bool" where
  "balanced_policy cfg \<longleftrightarrow> qc_taskforce_policy cfg = Balanced \<or> qc_taskforce_policy cfg = BalancedPvp"

definition balanced_queue :: "int \<Rightarrow> Server \<Rightarrow> QueueConfig option" where
  \<comment> \<open>the configuration of the instance's queue, when its policy balances sides\<close>
  "balanced_queue iid s =
     (case GetInstanceById iid (sv_registry s) of
        None \<Rightarrow> None
      | Some inst \<Rightarrow>
          if ii_queue_id inst = 0 then None
          else (case GetQueueConfig (ii_queue_id inst) (sv_world s) of
              None \<Rightarrow> None | Some cfg \<Rightarrow> if balanced_policy cfg then Some cfg else None))"

definition roster_rating :: "QueueConfig \<Rightarrow> Server \<Rightarrow> ActivePlayerRow \<Rightarrow> rat" where
  "roster_rating cfg s r =
     (if qc_taskforce_policy cfg = BalancedPvp then GetCurrentRating (ap_user_id r) (ap_profile_id r) (db_of s) else 1000)"

definition assign_successor_teams :: "ServerEnv \<Rightarrow> int \<Rightarrow> int \<Rightarrow> Server \<Rightarrow> Server" where
  "assign_successor_teams ne iid successor s =
     (if successor = 0 then s
      else (case balanced_queue iid s of
          None \<Rightarrow> s
        | Some cfg \<Rightarrow>
            let roster = GetActivePlayersForInstance (characters ne) iid (sv_registry s);
                slots = map (\<lambda>r. \<lparr>ps_guid = ap_guid r, ps_profile_id = ap_profile_id r, ps_mmr = roster_rating cfg s r\<rparr>) roster;
                sides = ComputeBatchAssignment (ne_shuffle ne) slots empty_team empty_team
            in put_world (fold (\<lambda>(g, tf). SetPreAssignedTeam successor g tf) sides (sv_world s)) s))"

definition stamp_outcome :: "ServerEnv \<Rightarrow> int \<Rightarrow> string \<Rightarrow> int \<Rightarrow> Server \<Rightarrow> Server" where
  "stamp_outcome ne iid outcome winner s =
     on_db (FoldUnprocessed (ne_libm ne) \<circ> SetInstanceOutcomeIfNull iid outcome winner) s"

definition finish_mission :: "ServerEnv \<Rightarrow> int \<Rightarrow> int \<Rightarrow> Server \<Rightarrow> Server" where
  \<comment> \<open>what follows the outcome\<close>
  "finish_mission ne iid successor s =
     (let s1 = assign_successor_teams ne iid successor s
      in if iid = 0 then s1 else arm_new (ForceExit iid) s1)"

definition handle_mission_ended :: "ServerEnv \<Rightarrow> nat \<Rightarrow> json \<Rightarrow> Server \<Rightarrow> Server served" where
  "handle_mission_ended ne c j s =
     or_throw s (int64_at j ''instance_id'' 0) (\<lambda>iid0.
       let iid = (if iid0 = 0 then conn_instance c s else iid0)
       in (case MarkMissionEnded (unix_now ne) iid (sv_registry s) of
             (successor, rg) \<Rightarrow>
               let s1 = on_registry (\<lambda>_. rg) s
               in or_throw s1 (int_at j ''count_deaths_attackers'' 0) (\<lambda>attackers.
                  or_throw s1 (int_at j ''count_deaths_defenders'' 0) (\<lambda>defenders.
                    let s2 = SetInstanceDeathCounts iid attackers defenders s1
                    in or_throw s2 (string_at j ''outcome'' []) (\<lambda>outcome.
                         if outcome = [] then Served (finish_mission ne iid successor s2)
                         else or_throw s2 (int_at j ''winning_task_force'' 0) (\<lambda>winner.
                           Served (finish_mission ne iid successor (stamp_outcome ne iid outcome winner s2))))))))"

definition handle_request_successor :: "ServerEnv \<Rightarrow> nat \<Rightarrow> json \<Rightarrow> Server \<Rightarrow> Server served" where
  "handle_request_successor ne c j s =
     or_throw s (int64_at j ''instance_id'' 0) (\<lambda>iid.
       let parent = (if iid = 0 then conn_instance c s else iid)
       in (case GetSuccessor parent (sv_registry s) of
             Some _ \<Rightarrow> Served s | None \<Rightarrow> TriggerSuccessor ne parent s))"

definition handle_request_travel :: "ServerEnv \<Rightarrow> json \<Rightarrow> Server \<Rightarrow> Server served" where
  "handle_request_travel ne j s =
     or_throw s (string_at j ''session_guid'' []) (\<lambda>g.
     or_throw s (int_at j ''map_game_id'' 0) (\<lambda>m. OpenWorldTravelRequest ne g (word_of_int m) s))"

definition autobalance_move :: "int \<Rightarrow> guid \<Rightarrow> int \<Rightarrow> Server \<Rightarrow> Server" where
  \<comment> \<open>\<open>ChatCommand::DispatchTeamMove\<close> with \<open>is_autobalance\<close>\<close>
  "autobalance_move iid g tf s =
     snd (DeliverPlayerAction g (ChangeTeamAction g (if tf = 1 then ''attackers'' else ''defenders'') (Some True))
            (on_registry (UpdateInstancePlayerTaskForce iid g tf) s))"

definition rebalance_roster :: "ServerEnv \<Rightarrow> QueueConfig \<Rightarrow> int \<Rightarrow> Server \<Rightarrow> RosterEntry list" where
  "rebalance_roster ne cfg iid s =
     map (\<lambda>r. \<lparr>re_guid = ap_guid r, re_profile_id = ap_profile_id r, re_current_tf = ap_task_force r,
               re_mmr = roster_rating cfg s r\<rparr>)
       (GetActivePlayersForInstance (characters ne) iid (sv_registry s))"

definition move_roster :: "(guid, int) umap \<Rightarrow> RosterEntry list \<Rightarrow> RosterEntry list" where
  "move_roster delta roster =
     map (\<lambda>r. case map_of delta (re_guid r) of None \<Rightarrow> r | Some tf \<Rightarrow> r\<lparr>re_current_tf := tf\<rparr>) roster"

definition rebalance_delta :: "ServerEnv \<Rightarrow> RosterEntry list \<Rightarrow> (guid, int) umap option" where
  "rebalance_delta ne roster =
     (let class_delta = ComputeRebalanceDelta (ne_shuffle ne) roster
      in map_option (\<lambda>mmr_delta. fold (\<lambda>(g, tf). umap_put g tf) mmr_delta class_delta)
           (ComputeMmrOptimalDelta (move_roster class_delta roster)))"

definition rebalance_instance :: "ServerEnv \<Rightarrow> int \<Rightarrow> QueueConfig \<Rightarrow> Server \<Rightarrow> Server served" where
  "rebalance_instance ne iid cfg s =
     (let roster = rebalance_roster ne cfg iid s
      in or_throw s (rebalance_delta ne roster) (\<lambda>delta.
           if \<not> ShouldRebalance roster delta then Served s
           else
             let marker = (\<lambda>name. snd \<circ> SendToInstance iid (EmitMatchEvent name (int (length delta))))
             in Served (marker ''AUTOBALANCE_END''
                  (fold (\<lambda>(g, tf). autobalance_move iid g tf) delta (marker ''AUTOBALANCE_START'' s)))))"

definition handle_request_rebalance :: "ServerEnv \<Rightarrow> nat \<Rightarrow> json \<Rightarrow> Server \<Rightarrow> Server served" where
  "handle_request_rebalance ne c j s =
     or_throw s (int64_at j ''instance_id'' 0) (\<lambda>iid0.
       let iid = (if iid0 = 0 then conn_instance c s else iid0)
       in (case balanced_queue iid s of
             None \<Rightarrow> Served s
           | Some cfg \<Rightarrow> if qc_setup_rebalance cfg then rebalance_instance ne iid cfg s else Served s))"

section \<open>Admin actions\<close>

fun IsPrivateOrLocalAddress :: "Address \<Rightarrow> bool" where
  "IsPrivateOrLocalAddress (V4 a b c d) \<longleftrightarrow>
     a = 127 \<or> a = 10 \<or> a = 172 \<and> 16 \<le> b \<and> b \<le> 31 \<or> a = 192 \<and> b = 168 \<or> a = 169 \<and> b = 254"
| "IsPrivateOrLocalAddress (V6 bytes) \<longleftrightarrow>
     bytes = replicate 15 0 @ [1] \<or> and (bytes ! 0) 0xfe = 0xfc \<or> bytes ! 0 = 0xfe \<and> and (bytes ! 1) 0xc0 = 0x80"

fun move_players :: "ServerEnv \<Rightarrow> int \<Rightarrow> int \<Rightarrow> json list \<Rightarrow> nat \<times> nat \<Rightarrow> Server \<Rightarrow> (bool \<times> Server) served" where
  \<comment> \<open>the counters are the moves requested and those that failed\<close>
  "move_players ne target_id target_tf [] (requested, failed) s = Served (requested > 0 \<and> failed = 0, s)"
| "move_players ne target_id target_tf (p # rest) (requested, failed) s =
     or_throw (False, s) (string_at p ''session_guid'' []) (\<lambda>g.
       if g = [] then move_players ne target_id target_tf rest (requested, failed) s
       else or_throw (False, s) (int64_at p ''source_instance_id'' 0) (\<lambda>source_id.
         or_throw (False, s) (int_at p ''source_task_force'' 0) (\<lambda>source_tf.
           (case AdminMovePlayerToInstance ne g target_id target_tf source_id source_tf s of
              Served (True, s1) \<Rightarrow> move_players ne target_id target_tf rest (requested + 1, failed) s1
            | Served (False, s1) \<Rightarrow> move_players ne target_id target_tf rest (requested, failed + 1) s1
            | Threw r \<Rightarrow> Threw r
            | Hung \<Rightarrow> Hung))))"

definition stop_instance_action :: "ServerEnv \<Rightarrow> int \<Rightarrow> Server \<Rightarrow> bool \<times> Server" where
  "stop_instance_action ne iid s =
     (if iid = 0 then (False, s)
      else (case GetInstanceById iid (sv_registry s) of
          None \<Rightarrow> (False, s)
        | Some inst \<Rightarrow>
            if ii_state inst = STOPPED then (False, s)
            else (True, MarkInstanceStopped ne (ii_instance_id inst) (StopInstanceProcess inst ''admin stop-instance'' s))))"

definition json_array_at :: "json \<Rightarrow> string \<Rightarrow> json option" where
  \<comment> \<open>\<open>value(key, json::array())\<close> returns whatever value is there\<close>
  "json_array_at j key = json_value Some j key (JArray [])"

definition admin_action :: "nat \<Rightarrow> ServerEnv \<Rightarrow> string \<Rightarrow> json \<Rightarrow> Server \<Rightarrow> (bool \<times> Server) served" where
  \<comment> \<open>the handler of \<open>main.cpp\<close>; actions on tables of other components are \<open>ne_other_action\<close>\<close>
  "admin_action n ne subtype j s =
     (if subtype = ''stop-instance''
      then or_throw (False, s) (int64_at j ''instance_id'' 0) (\<lambda>iid. Served (stop_instance_action ne iid s))
      else if subtype = ''move-players''
      then or_throw (False, s) (int64_at j ''target_instance_id'' 0) (\<lambda>target_id.
           or_throw (False, s) (int_at j ''target_task_force'' 0) (\<lambda>target_tf.
           or_throw (False, s) (json_array_at j ''players'') (\<lambda>players.
             if target_id = 0 \<or> target_tf \<noteq> 1 \<and> target_tf \<noteq> 2 then Served (False, s)
             else (case players of
                 JArray ps \<Rightarrow> if ps = [] then Served (False, s) else move_players ne target_id target_tf ps (0, 0) s
               | _ \<Rightarrow> Served (False, s)))))
      else if subtype = ''reload-queues''
      then (case ReloadQueues n (match_env ne s) (ne_queue_rows ne) (sv_world s) of
              None \<Rightarrow> Hung | Some w \<Rightarrow> Served (True, settle (put_world w s)))
      else if subtype = ''create-instance''
      then or_throw (False, s) (string_at j ''map_name'' []) (\<lambda>map_name.
           or_throw (False, s) (string_at j ''game_mode'' []) (\<lambda>game_mode.
           or_throw (False, s) (int_at j ''max_players'' 0) (\<lambda>max_players.
             SpawnAdminInstance ne map_name game_mode max_players s)))
      else if subtype = ''mmr-reseed''
      then Served (True, on_db (snd \<circ> Reseed (ne_libm ne)) s)
      else if subtype = ''set-mmr-engine''
      then or_throw (False, s) (string_at j ''engine'' []) (\<lambda>engine.
             Served (fst (SetActiveEngine engine (db_of s)), on_db (snd \<circ> SetActiveEngine engine) s))
      else Served (ne_other_action ne subtype j, s))"

definition admin_allowed :: "ServerEnv \<Rightarrow> nat \<Rightarrow> string \<Rightarrow> bool" where
  \<comment> \<open>a peer in a local or private network, a configured token, the same token\<close>
  "admin_allowed ne c token \<longleftrightarrow>
     (case ne_remote ne c of None \<Rightarrow> False | Some a \<Rightarrow> IsPrivateOrLocalAddress a) \<and>
     ne_admin_token ne \<noteq> [] \<and> token = ne_admin_token ne \<and> ne_admin_handler ne"

definition handle_admin_action :: "nat \<Rightarrow> ServerEnv \<Rightarrow> nat \<Rightarrow> json \<Rightarrow> Server \<Rightarrow> Server served" where
  "handle_admin_action n ne c j s =
     or_throw s (string_at j ''subtype'' []) (\<lambda>subtype.
       let refuse = Served (emit (ToInstance c (AdminActionAck subtype False)) s)
       in if (case ne_remote ne c of None \<Rightarrow> True | Some a \<Rightarrow> \<not> IsPrivateOrLocalAddress a) then refuse
          else if ne_admin_token ne = [] then refuse
          else or_throw s (string_at j ''token'' []) (\<lambda>token.
            if token \<noteq> ne_admin_token ne then refuse
            else if \<not> ne_admin_handler ne then refuse
            else (case admin_action n ne subtype j s of
                Served (ok, s1) \<Rightarrow> Served (emit (ToInstance c (AdminActionAck subtype ok)) s1)
              | Threw (_, s1) \<Rightarrow> Threw s1
              | Hung \<Rightarrow> Hung)))"

section \<open>Dispatch\<close>

definition dispatch_json :: "nat \<Rightarrow> ServerEnv \<Rightarrow> nat \<Rightarrow> json \<Rightarrow> Server \<Rightarrow> Server served" where
  "dispatch_json n ne c j s =
     or_throw s (string_at j ''type'' []) (\<lambda>type.
       if type = ''INSTANCE_HELLO'' then handle_hello ne c j s
       else if type = ''ADMIN_ACTION'' then handle_admin_action n ne c j s
       else if type = ''INSTANCE_READY'' then handle_ready ne j s
       else if type = ''PING'' then Served (emit (ToInstance c Pong) s)
       else if type = ''PLAYER_REGISTER_ACK'' then handle_register_ack ne j s
       else if type = ''GAME_EVENT'' then handle_game_event c j s
       else if type = ''PLAYER_JOINED'' then handle_player_joined j s
       else if type = ''PLAYER_LEFT'' then handle_player_left n ne j s
       else if type = ''PAWN_HEALTH_SNAPSHOT'' then handle_pawn_health ne j s
       else if type = ''MISSION_PROGRESS_SNAPSHOT'' then handle_mission_progress ne j s
       else if type = ''INSTANCE_EMPTY'' then handle_instance_empty ne j s
       else if type = ''NEED_HOME_MAP'' then EnsureHomeMapWarm ne s
       else if type = ''MATCH_EVENT'' then handle_match_event ne c j s
       else if type = ''MATCH_STATS'' then handle_match_stats ne c j s
       else if type = ''MATCH_DEVICE_STATS'' then handle_device_stats ne c j s
       else if type = ''MISSION_ENDED'' then handle_mission_ended ne c j s
       else if type = ''REQUEST_SUCCESSOR'' then handle_request_successor ne c j s
       else if type = ''REQUEST_TRAVEL'' then handle_request_travel ne j s
       else if type = ''REQUEST_REBALANCE'' then handle_request_rebalance ne c j s
       else Served s)"

definition dispatch :: "nat \<Rightarrow> ServerEnv \<Rightarrow> nat \<Rightarrow> json option \<Rightarrow> Server \<Rightarrow> Server served" where
  "dispatch n ne c msg s = (case msg of None \<Rightarrow> Served s | Some j \<Rightarrow> dispatch_json n ne c j s)"

section \<open>Maintenance\<close>

definition stop_idle :: "ServerEnv \<Rightarrow> InstanceInfo \<Rightarrow> Server \<Rightarrow> Server" where
  "stop_idle ne inst s = MarkInstanceStopped ne (ii_instance_id inst) (StopInstanceProcess inst ''idle cleanup'' s)"

definition clear_ghost :: "ServerEnv \<Rightarrow> int \<times> guid \<Rightarrow> Server \<Rightarrow> Server" where
  "clear_ghost ne ref s =
     (case ref of (iid, g) \<Rightarrow>
        if HasLiveSession g s then s
        else on_registry (MarkInstancePlayerLeft (unix_now ne) iid g) (snd (SendToInstance iid (ClosePlayer g 0) s)))"

definition maintenance :: "ServerEnv \<Rightarrow> Server \<Rightarrow> Server" where
  "maintenance ne s =
     (let s1 = fold (stop_idle ne) (GetIdleInstances (unix_now ne) 300 (sv_registry s)) s;
          s2 = fold (clear_ghost ne) (GetAllActiveInstancePlayers (sv_registry s1)) s1
      in SweepOverlay (unix_now ne) s2)"

end
