(* ===== verification/ServerFrames.thy ===== *)
theory ServerFrames
  imports IpcDispatch PopGuarantees TeamInvariants MmrChain
begin

text \<open>
  What the operations of the server leave alone. \<open>registry_grows\<close> relates two states of the instance
  tables of which the second keeps the registry's invariant and every instance of the first. \<open>keeps\<close>
  relates two server states with the same sessions, acknowledgements and timers whose tables are so
  related. Both are reflexive and transitive, and folds and sequences inherit them: that much is the
  locale \<open>frame_relation\<close>.
\<close>

section \<open>Frame relations\<close>

locale frame_relation =
  fixes R :: "'s \<Rightarrow> 's \<Rightarrow> bool"
  assumes frame_refl: "R s s"
    and frame_trans: "R a b \<Longrightarrow> R b c \<Longrightarrow> R a c"
begin

lemma frame_fold: "(\<And>x s. R s (f x s)) \<Longrightarrow> R s (fold f xs s)"
proof (induction xs arbitrary: s)
  case Nil
  show ?case by (simp add: frame_refl)
next
  case (Cons x xs)
  then show ?case using frame_trans [of s "f x s" "fold f xs (f x s)"] by simp
qed

lemma frame_fold_on: "(\<And>x s. x \<in> set xs \<Longrightarrow> R s (f x s)) \<Longrightarrow> R s (fold f xs s)"
proof (induction xs arbitrary: s)
  case Nil
  show ?case by (simp add: frame_refl)
next
  case (Cons x xs)
  then show ?case using frame_trans [of s "f x s" "fold f xs (f x s)"] by simp
qed

end

section \<open>The instance tables\<close>

definition instance_ids :: "Registry \<Rightarrow> int set" where
  "instance_ids rg = ir_instance_id ` set (rg_instances rg)"

definition registry_grows :: "Registry \<Rightarrow> Registry \<Rightarrow> bool" where
  "registry_grows rg rg' \<longleftrightarrow> (registry_ok rg \<longrightarrow> registry_ok rg' \<and> instance_ids rg \<subseteq> instance_ids rg')"

interpretation tables: frame_relation registry_grows
  by unfold_locales (auto simp: registry_grows_def)

lemma registry_grows_refl [simp]: "registry_grows rg rg"
  by (rule tables.frame_refl)

lemma instance_ids_keys: "registry_ok rg \<Longrightarrow> instance_ids rg = ir_id ` set (rg_instances rg)"
  unfolding registry_ok_def keys_ok_def instance_ids_def by (intro image_cong) simp_all

lemma ids_evolve: "rows_evolve rows rows' \<Longrightarrow> ir_id ` set rows \<subseteq> ir_id ` set rows'"
proof (rule image_subsetI)
  fix r assume "rows_evolve rows rows'" "r \<in> set rows"
  then obtain r' where "r' \<in> set rows'" "evolves r r'" unfolding rows_evolve_def by blast
  then show "ir_id r \<in> ir_id ` set rows'"
    by (intro image_eqI [of _ ir_id r']) (simp_all add: evolves_def)
qed

lemma reg_step_grows: "reg_step rg rg' \<Longrightarrow> registry_grows rg rg'"
  unfolding registry_grows_def
proof (intro impI)
  assume "reg_step rg rg'" "registry_ok rg"
  then have "registry_ok rg'" by (rule reg_steps_ok [OF r_into_rtranclp])
  moreover have "ir_id ` set (rg_instances rg) \<subseteq> ir_id ` set (rg_instances rg')"
    by (rule ids_evolve [OF reg_step_evolve [OF \<open>reg_step rg rg'\<close>]])
  ultimately show "registry_ok rg' \<and> instance_ids rg \<subseteq> instance_ids rg'"
    using \<open>registry_ok rg\<close> by (simp add: instance_ids_keys)
qed

lemmas table_steps =
  reg_step.pid [THEN reg_step_grows] reg_step.ready [THEN reg_step_grows] reg_step.ended [THEN reg_step_grows]
  reg_step.promote [THEN reg_step_grows] reg_step.maxp [THEN reg_step_grows] reg_step.stopped [THEN reg_step_grows]
  reg_step.stale [THEN reg_step_grows] reg_step.force [THEN reg_step_grows] reg_step.left [THEN reg_step_grows]
  reg_step.all_left [THEN reg_step_grows] reg_step.empty [THEN reg_step_grows]

lemma join_grows:
  "iid \<in> instance_ids rg \<Longrightarrow> registry_grows rg (InsertInstancePlayer now iid g character tf profile rg)"
  by (rule reg_step_grows, rule reg_step.join) (simp add: instance_ids_def)

lemma spawn_grows:
  "AllocatePort lo hi rg = Some (Some port) \<Longrightarrow>
   InsertStarting bonus now map_name game_mode port pid home queue_id pre access owners rg = (iid, rg') \<Longrightarrow>
   registry_grows rg rg'"
  using reg_step_grows [OF reg_step.spawn [of lo hi rg port bonus now map_name game_mode pid home queue_id pre access owners]]
  by simp

lemma outcome_grows: "registry_grows (md_registry db) (md_registry (SetInstanceOutcomeIfNull iid outcome tf db))"
proof -
  have "instance_ids (update_instances P (\<lambda>r. r\<lparr>ir_outcome := x\<rparr>) rg) = instance_ids rg" for P x rg
    by (simp add: instance_ids_def set_map [symmetric] map_update_where del: set_map)
  moreover have "registry_ok (update_instances P (\<lambda>r. r\<lparr>ir_outcome := x\<rparr>) rg)" if "registry_ok rg" for P x rg
    by (rule registry_ok_update [OF that]) auto
  ultimately show ?thesis by (simp add: SetInstanceOutcomeIfNull_def Let_def registry_grows_def)
qed

section \<open>Pops\<close>

lemma put_queue_registry [simp]: "w_registry (put_queue qid q w) = w_registry w"
  by (simp add: put_queue_def)

lemma Discard_registry [simp]: "w_registry (DiscardPendingMatchForDeadInstance i why w) = w_registry w"
  by (simp add: DiscardPendingMatchForDeadInstance_def split: option.split)

lemma MarkStopped_registry [simp]: "w_registry (MarkStopped now i w) = MarkStoppedRows now i (w_registry w)"
  by (simp add: MarkStopped_def DropPreAssignedTeams_def)

lemma spawn_match_grows:
  assumes "AllocatePort lo hi (w_registry w) = Some (Some port)"
  shows "registry_grows (w_registry w) (w_registry (spawn_match ev qid port r w))"
proof -
  obtain iid rg where ins: "InsertStarting (ev_bonus_lives ev) (ev_time ev) (mr_map_name r) (mr_game_mode r) port 0 False
      qid 0 (AccessModeToString (mr_access_mode r)) (owner_csv (mr_owner_party_ids r)) (w_registry w) = (iid, rg)" by force
  show ?thesis
    using tables.frame_trans [OF spawn_grows [OF assms ins] table_steps(1)]
      tables.frame_trans [OF spawn_grows [OF assms ins] table_steps(6)]
    by (simp add: spawn_match_def ins Let_def AddPendingMatch_def)
qed

lemma MatchPop_grows: "MatchPop ev qid r w = Some w' \<Longrightarrow> registry_grows (w_registry w) (w_registry w')"
  by (auto simp: MatchPop_def dest: spawn_match_grows split: option.splits)

lemma commit_grows: "commit ev qid cfg el r w = Some (again, w') \<Longrightarrow> registry_grows (w_registry w) (w_registry w')"
  by (auto simp: commit_def Let_def dest!: MatchPop_grows split: option.splits prod.splits if_splits)

lemma pop_once_grows:
  assumes "pop_once ev qid d w = Some (again, w')"
  shows "registry_grows (w_registry w) (w_registry w')"
proof (cases "map_of (w_queues w) qid")
  case None
  then show ?thesis using assms by (simp add: pop_once_def)
next
  case (Some q)
  show ?thesis
  proof (cases "qu_parties q = []")
    case True
    then show ?thesis using assms Some by (simp add: pop_once_def)
  next
    case False
    obtain el f where el: "eligible_parties ev (qu_config q) (qu_parties q) (w_fairness w) = (el, f)" by force
    define w1 where "w1 = w\<lparr>w_fairness := f\<rparr>"
    define p where "p = (if w_has_provider w1 then InstanceProvider ev qid w1 else ([], w1))"
    obtain insts w2 where p: "p = (insts, w2)" by force
    have f2: "w_registry w2 = w_registry w" "w_queues w2 = w_queues w"
      using arg_cong [OF p, of snd] by (auto simp: p_def w1_def split: if_splits)
    obtain x w3 where e: "evaluate_queue ev q el insts w2 = (x, w3)" by force
    have f3: "w_registry w3 = w_registry w" "map_of (w_queues w3) qid = Some q"
      using evaluate_queue_draws [OF e] f2 Some by (auto simp: only_draws_def)
    have f4: "w_registry w4 = w_registry w" if "fill_map ev qid q r m w3 = (y, w4)" for r m y w4
      using fill_map_frame [OF that f3(2)] f3(1) by simp
    have arm: "w_registry (arm_timer ev qid q w3) = w_registry w" using f3(1) by (simp add: arm_timer_def Let_def)
    have unf: "(if el = [] then Some (False, w1)
        else case x of None \<Rightarrow> Some (False, w3)
          | Some (r, m) \<Rightarrow>
              if mr_existing_instance_id r = None \<and>
                 length (mr_session_guids r) < unat (qc_min_players_to_pop (qu_config q)) then Some (False, w3)
              else if \<not> d \<and> mr_existing_instance_id r = None \<and> mr_access_mode r \<noteq> PartyLocked \<and>
                   qc_pop_delay_seconds (qu_config q) > 0 \<and> w_has_io w3
              then Some (False, if qu_delayed_pop q \<noteq> None then w3 else arm_timer ev qid q w3)
              else (case fill_map ev qid q r m w3 of
                  (None, w4) \<Rightarrow> Some (False, w4)
                | (Some r', w4) \<Rightarrow> commit ev qid (qu_config q) el r' w4)) = Some (again, w')"
      using assms
      by (simp only: pop_once_def Some option.case Let_def False if_False el prod.case
          w1_def [symmetric] p_def [symmetric] p e)
    show ?thesis
    proof (cases "w' = w1 \<or> w' = w3 \<or> w' = arm_timer ev qid q w3")
      case True
      then show ?thesis using f3(1) arm by (auto simp: w1_def)
    next
      case False
      then obtain r m where x: "x = Some (r, m)" using unf by (auto split: if_splits option.splits)
      obtain y w4 where y: "fill_map ev qid q r m w3 = (y, w4)" by force
      have "(case y of None \<Rightarrow> Some (False, w4) | Some r' \<Rightarrow> commit ev qid (qu_config q) el r' w4) = Some (again, w')"
        using unf False x y by (auto split: if_splits)
      then show ?thesis using f4 [OF y] commit_grows by (cases y) fastforce+
    qed
  qed
qed

lemma TryPop_grows: "TryPop n ev qid d w = Some w' \<Longrightarrow> registry_grows (w_registry w) (w_registry w')"
proof (induction n ev qid d w rule: TryPop.induct)
  case (2 n ev qid d w)
  then obtain again w1 where p: "pop_once ev qid d w = Some (again, w1)" by (auto split: option.splits)
  show ?case using 2 p pop_once_grows [OF p] tables.frame_trans by (cases again) auto
qed simp

lemma pop_all_grows: "pop_all n ev qids w = Some w' \<Longrightarrow> registry_grows (w_registry w) (w_registry w')"
  by (induction qids arbitrary: w) (auto dest!: TryPop_grows intro: tables.frame_trans split: option.splits)

lemma ReloadQueues_grows: "ReloadQueues n ev cfgs w = Some w' \<Longrightarrow> registry_grows (w_registry w) (w_registry w')"
  by (auto simp: ReloadQueues_def Let_def dest!: pop_all_grows)

lemma EvaluateQueue_grows: "EvaluateQueue n ev qid w = Some w' \<Longrightarrow> registry_grows (w_registry w) (w_registry w')"
  by (simp add: EvaluateQueue_def TryPop_grows)

lemma OnQueueChanged_grows:
  "OnQueueChanged n ev qid trigger w = Some w' \<Longrightarrow> registry_grows (w_registry w) (w_registry w')"
  by (auto simp: OnQueueChanged_def Let_def dest!: TryPop_grows split: option.splits if_splits)

lemma AddParty_grows: "AddParty n ev qid party w = Some w' \<Longrightarrow> registry_grows (w_registry w) (w_registry w')"
  by (auto simp: AddParty_def Let_def dest!: OnQueueChanged_grows split: option.splits if_splits)

lemma TimerFired_grows: "TimerFired n ev qid t w = Some w' \<Longrightarrow> registry_grows (w_registry w) (w_registry w')"
  by (auto simp: TimerFired_def dest!: TryPop_grows split: option.splits if_splits)

section \<open>Sessions, acknowledgements and timers stay\<close>

definition client_key :: "Server \<Rightarrow> nat \<Rightarrow> (guid \<times> nat option) option" where
  "client_key s = (\<lambda>c. map_option (\<lambda>cl. (cl_guid cl, cl_ack_timer cl)) (map_of (sv_clients s) c))"

definition keeps :: "Server \<Rightarrow> Server \<Rightarrow> bool" where
  "keeps s s' \<longleftrightarrow> client_key s' = client_key s \<and> map_of (sv_sessions s') = map_of (sv_sessions s) \<and>
     dom (map_of (sv_store s')) = dom (map_of (sv_store s)) \<and> sv_acks s' = sv_acks s \<and>
     sv_timers s' = sv_timers s \<and> sv_next_timer s' = sv_next_timer s \<and> sv_next_client s' = sv_next_client s \<and>
     registry_grows (sv_registry s) (sv_registry s') \<and> (team_world_ok (sv_team s) \<longrightarrow> team_world_ok (sv_team s'))"

interpretation calm: frame_relation keeps
  by unfold_locales (auto simp: keeps_def intro: tables.frame_trans)

lemma keeps_refl [simp]: "keeps s s"
  by (rule calm.frame_refl)

text \<open>The rules have the form \<open>keeps a s \<Longrightarrow> keeps a (op s)\<close>, so that a sequence of operations is taken apart from the end.\<close>

named_theorems kept

lemma keeps_put_world [kept]:
  "keeps a s \<Longrightarrow> registry_grows (sv_registry s) (w_registry w) \<Longrightarrow> keeps a (put_world w s)"
  by (erule calm.frame_trans) (auto simp: keeps_def put_world_def client_key_def world_ok)

lemma keeps_on_registry [kept]:
  "keeps a s \<Longrightarrow> registry_grows (sv_registry s) (f (sv_registry s)) \<Longrightarrow> keeps a (on_registry f s)"
  unfolding on_registry_def by (rule keeps_put_world) simp_all

lemma put_world_parts [simp]:
  "sv_world (put_world w s) = w"
  "sv_db (put_world w s) = sv_db s"
  "sv_clients (put_world w s) = sv_clients s"
  "sv_sessions (put_world w s) = sv_sessions s"
  "sv_acks (put_world w s) = sv_acks s"
  "sv_timers (put_world w s) = sv_timers s"
  "sv_next_timer (put_world w s) = sv_next_timer s"
  by (simp_all add: put_world_def)

lemma on_registry_parts [simp]:
  "sv_registry (on_registry f s) = f (sv_registry s)"
  "sv_clients (on_registry f s) = sv_clients s"
  "sv_sessions (on_registry f s) = sv_sessions s"
  "sv_acks (on_registry f s) = sv_acks s"
  "sv_timers (on_registry f s) = sv_timers s"
  "sv_next_timer (on_registry f s) = sv_next_timer s"
  by (simp_all add: on_registry_def)

lemma keeps_other [kept]:
  "keeps a s \<Longrightarrow> keeps a (emit x s)"
  "keeps a s \<Longrightarrow> keeps a (s\<lparr>sv_db := db\<rparr>)"
  "keeps a s \<Longrightarrow> keeps a (s\<lparr>sv_links := links\<rparr>)"
  "keeps a s \<Longrightarrow> keeps a (s\<lparr>sv_conns := conns\<rparr>)"
  "keeps a s \<Longrightarrow> keeps a (s\<lparr>sv_spawning := maps\<rparr>)"
  "keeps a s \<Longrightarrow> keeps a (s\<lparr>sv_death_counts := dc\<rparr>)"
  "keeps a s \<Longrightarrow> keeps a (ClearInstance i s)"
  "keeps a s \<Longrightarrow> keeps a (OverlayUpdate i snap s)"
  "keeps a s \<Longrightarrow> keeps a (MissionUpdate i mission s)"
  "keeps a s \<Longrightarrow> keeps a (SweepOverlay now s)"
  "keeps a s \<Longrightarrow> keeps a (QueueDeviceStatsRow row s)"
  "keeps a s \<Longrightarrow> keeps a (FlushDeviceStats s)"
  by (simp_all add: keeps_def client_key_def emit_def ClearInstance_def OverlayUpdate_def MissionUpdate_def
        SweepOverlay_def QueueDeviceStatsRow_def FlushDeviceStats_def Let_def)

lemma keeps_on_db [kept]:
  "keeps a s \<Longrightarrow> registry_grows (sv_registry s) (md_registry (f (db_of s))) \<Longrightarrow> keeps a (on_db f s)"
  unfolding on_db_def Let_def by (intro kept) (simp_all add: db_of_def)

lemma keeps_on_client [kept]:
  "keeps a s \<Longrightarrow> (\<And>cl. cl_guid (f cl) = cl_guid cl) \<Longrightarrow> (\<And>cl. cl_ack_timer (f cl) = cl_ack_timer cl) \<Longrightarrow>
   keeps a (on_client c f s)"
  by (erule calm.frame_trans) (auto simp: keeps_def on_client_def client_key_def fun_eq_iff split: option.split)

lemma keeps_Send [kept]: "keeps a s \<Longrightarrow> keeps a (snd (SendToInstance i msg s))"
  by (auto simp: SendToInstance_def split: option.split intro: kept)

lemma Send_registry [simp]: "sv_registry (snd (SendToInstance i msg s)) = sv_registry s"
  by (simp add: SendToInstance_def emit_def split: option.split)

lemma keeps_stopped [kept]: "keeps a s \<Longrightarrow> keeps a (MarkInstanceStopped ne i s)"
  unfolding MarkInstanceStopped_def by (intro kept) (simp_all add: table_steps)

lemma keeps_StopProcess [kept]: "keeps a s \<Longrightarrow> keeps a (StopInstanceProcess inst why s)"
  by (simp add: StopInstanceProcess_def kept)

lemma keeps_stop_empty [kept]: "keeps a s \<Longrightarrow> keeps a (snd (StopNonHomeInstanceIfEmpty ne i why s))"
  by (auto simp: StopNonHomeInstanceIfEmpty_def split: option.split intro!: kept)

section \<open>Deliveries\<close>

lemma RemoveReady_registry [simp]:
  "w_registry (RemoveReadyMatchReservation i g w) = w_registry w"
  "w_registry (RemoveReadyMatchReservationAny g w) = w_registry w"
  by (simp_all add: RemoveReadyMatchReservationAny_def RemoveReadyMatchReservation_def Let_def split: option.split)

lemma keeps_deliver [kept]:
  "keeps a s \<Longrightarrow> keeps a (deliver_invitation g i mode tf s)"
  "keeps a s \<Longrightarrow> keeps a (deliver_cancelled g s)"
  "keeps a s \<Longrightarrow> keeps a (deliver_queue_status g q n s)"
  "keeps a s \<Longrightarrow> keeps a (deliver_frame g msg s)"
  by (auto simp: deliver_invitation_def send_match_invitation_def deliver_cancelled_def clear_match_def
        deliver_queue_status_def deliver_frame_def split: option.split intro!: kept)

lemma keeps_deliver_effect [kept]: "keeps a s \<Longrightarrow> keeps a (deliver_effect e s)"
  by (cases e) (simp_all add: kept)

lemma keeps_deliver_team [kept]: "keeps a s \<Longrightarrow> keeps a (deliver_team e s)"
  by (cases e) (simp_all add: kept)

lemma keeps_fold [kept]: "keeps a s \<Longrightarrow> (\<And>x s. keeps s (f x s)) \<Longrightarrow> keeps a (fold f xs s)"
  using calm.frame_trans calm.frame_fold by blast

lemma team_quiet: "team_world_ok (tw\<lparr>ts_out := es, ts_world := w\<rparr>) = team_world_ok tw"
  by (simp add: team_world_ok_def)

lemma keeps_settle [kept]: "keeps a s \<Longrightarrow> keeps a (settle s)"
  unfolding settle_def Let_def
proof (intro kept)
  show "keeps a s \<Longrightarrow> keeps a (s\<lparr>sv_team := (sv_team s)\<lparr>ts_out := [], ts_world := (sv_world s)\<lparr>w_out := []\<rparr>\<rparr>\<rparr>)"
    by (erule calm.frame_trans) (simp_all add: keeps_def client_key_def team_quiet)
qed simp_all

lemma keeps_on_world [kept]:
  "keeps a s \<Longrightarrow> registry_grows (sv_registry s) (w_registry (f (sv_world s))) \<Longrightarrow> keeps a (on_world f s)"
  unfolding on_world_def by (intro kept)

lemma keeps_on_team [kept]:
  "keeps a s \<Longrightarrow> registry_grows (sv_registry s) (w_registry (ts_world (f (sv_team s)))) \<Longrightarrow>
   (team_world_ok (sv_team s) \<Longrightarrow> team_world_ok (f (sv_team s))) \<Longrightarrow> keeps a (on_team f s)"
  unfolding on_team_def
  by (intro keeps_settle, erule calm.frame_trans) (simp_all add: keeps_def client_key_def)

section \<open>Outcomes\<close>

definition after :: "'a served \<Rightarrow> ('a \<Rightarrow> bool) \<Rightarrow> bool" where
  "after r P \<longleftrightarrow> (case r of Served s \<Rightarrow> P s | Threw _ \<Rightarrow> True | Hung \<Rightarrow> True)"

lemma after_simps [simp]: "after (Served s) P = P s" "after (Threw s) P" "after Hung P"
  by (simp_all add: after_def)

lemma after_mono: "after r P \<Longrightarrow> (\<And>s. P s \<Longrightarrow> Q s) \<Longrightarrow> after r Q"
  by (cases r) simp_all

lemma after_and_then: "after r (\<lambda>s. after (f s) P) \<Longrightarrow> after (and_then r f) P"
  by (cases r) simp_all

lemma after_or_throw: "(\<And>x. v = Some x \<Longrightarrow> after (f x) P) \<Longrightarrow> after (or_throw s v f) P"
  by (simp add: or_throw_def split: option.split)

lemma after_run_world:
  "(\<And>w. f (sv_world s) = Some w \<Longrightarrow> P (put_world w s)) \<Longrightarrow> after (run_world f s) P"
  by (simp add: run_world_def split: option.split)

section \<open>Queues and teams leave the tables alone\<close>

lemma leave_queue_registry [simp]: "w_registry (snd (leave_queue ev P w)) = w_registry w"
  by (simp add: leave_queue_def split: option.split prod.split)

lemma RemovePlayer_registry [simp]: "w_registry (RemovePlayer ev g w) = w_registry w"
  by (simp add: RemovePlayer_def scrub_pending_def split: option.split prod.split)

lemma Dequeue_registry [simp]: "w_registry (ts_world (DequeueForCompositionChange env g tw)) = w_registry (ts_world tw)"
proof -
  have "w_registry w' = w_registry w" if "RemoveParty ev p w = (b, w')" for ev p w b w'
    using leave_queue_registry [of ev _ w] that by (metis RemoveParty_def snd_conv)
  then show ?thesis by (auto simp: DequeueForCompositionChange_def say_def Let_def split: prod.split)
qed

lemma say_world [simp]: "ts_world (say es tw) = ts_world tw"
  by (simp add: say_def)

lemma BroadcastRoster_world [simp]: "ts_world (BroadcastRoster env i tw) = ts_world tw"
  by (simp add: BroadcastRoster_def split: option.split)

lemma exit_registry [simp]:
  "w_registry (ts_world (HandleVoluntaryExit env g tw)) = w_registry (ts_world tw)"
  "w_registry (ts_world (HandleDisconnect env g tw)) = w_registry (ts_world tw)"
  by (simp_all add: HandleDisconnect_def HandleVoluntaryExit_def LeaveCurrentTeam_def CancelInvitesFor_def
        update_team_def Let_def split: option.split)

lemma keeps_exit [kept]:
  "keeps a s \<Longrightarrow> keeps a (on_team (HandleVoluntaryExit env g) s)"
  "keeps a s \<Longrightarrow> keeps a (on_team (HandleDisconnect env g) s)"
  by (simp_all add: kept team_inv HandleDisconnect_def)

lemma keeps_RemovePlayer [kept]: "keeps a s \<Longrightarrow> keeps a (on_world (RemovePlayer ev g) s)"
  by (simp add: kept)

section \<open>Spawning\<close>

lemma start_keeps:
  assumes "keeps a s" "AllocatePort lo hi (sv_registry s) = Some (Some port)"
  shows "keeps a (snd (start_instance ne map_name mode home qid pre difficulty port s))"
proof -
  obtain iid rg where ins: "InsertStarting (ev_bonus_lives (en_match (ne_team ne))) (unix_now ne) map_name mode port 0 home
      qid pre ''OPEN'' [] (sv_registry s) = (iid, rg)" by force
  have "keeps a (emit x (on_registry (\<lambda>_. rg) s))" for x
    by (intro kept assms(1) spawn_grows [OF assms(2) ins])
  then show ?thesis
    by (simp add: start_instance_def ins Let_def kept table_steps)
qed

lemma with_port_keeps:
  assumes "keeps a s"
    and "\<And>port. AllocatePort (ev_port_lo (en_match (ne_team ne))) (ev_port_hi (en_match (ne_team ne))) (sv_registry s)
           = Some (Some port) \<Longrightarrow> after (f port) (keeps a)"
  shows "after (with_port ne s f) (keeps a)"
  using assms by (auto simp: with_port_def split: option.split)

lemma SpawnHomeMap_keeps: "keeps a s \<Longrightarrow> after (SpawnHomeMap ne s) (keeps a)"
  by (auto simp: SpawnHomeMap_def split: option.split intro!: with_port_keeps start_keeps)

lemma EnsureHomeMapWarm_keeps: "keeps a s \<Longrightarrow> after (EnsureHomeMapWarm ne s) (keeps a)"
  by (simp add: EnsureHomeMapWarm_def SpawnHomeMap_keeps split: option.split)

lemma Pick_registry: "PickRandomMapPoolEntryForCount ev qid n sets w = (x, w') \<Longrightarrow> w_registry w' = w_registry w"
  using Pick_frame by blast

lemma SpawnSuccessor_keeps:
  assumes "keeps a s"
  shows "after (SpawnSuccessor ne parent s) (keeps a)"
proof -
  have "keeps a (put_world w s)" if "PickRandomMapPoolEntryForCount ev qid n sets (sv_world s) = (x, w)" for ev qid n sets x w
    by (intro kept assms) (simp add: Pick_registry [OF that])
  then show ?thesis
    by (auto simp: SpawnSuccessor_def Let_def assms split: option.split prod.split intro!: with_port_keeps start_keeps)
qed

lemma TriggerSuccessor_keeps: "keeps a s \<Longrightarrow> after (TriggerSuccessor ne parent s) (keeps a)"
  by (simp add: TriggerSuccessor_def SpawnSuccessor_keeps)

lemma OpenWorldSpawn_keeps: "keeps a s \<Longrightarrow> after (OpenWorldSpawn ne row s) (keeps a \<circ> snd)"
  by (auto simp: OpenWorldSpawn_def split: option.split intro!: start_keeps)

lemma SpawnAdminInstance_keeps:
  assumes "keeps a s"
  shows "after (SpawnAdminInstance ne map_name mode n s) (keeps a \<circ> snd)"
proof -
  have "keeps a (emit x (on_registry (\<lambda>_. SetMaxPlayers iid n rg) s))"
    if "AllocatePort lo hi (sv_registry s) = Some (Some port)"
      "InsertStarting b t map_name mode port 0 False 0 0 ''OPEN'' [] (sv_registry s) = (iid, rg)" for lo hi port b t iid rg x
    by (intro kept assms, rule tables.frame_trans [OF spawn_grows [OF that] table_steps(5)])
  then show ?thesis
    by (auto simp: SpawnAdminInstance_def Let_def assms kept table_steps split: option.split prod.split)
qed

end
