(* ===== verification/RoutingInvariant.thy ===== *)
theory RoutingInvariant
  imports ServerFrames
begin

text \<open>
  The invariant of the sessions: a registration that waits for an acknowledgement belongs to the one
  live session of its player and has its deadline armed, the register of sessions, the sessions'
  own guids and the session store agree, and the registry and the teams keep their invariants.
\<close>

section \<open>The invariant\<close>

fun ack_instance :: "AckKind \<Rightarrow> int" where
  "ack_instance (HomeAck i _) = i"
| "ack_instance (TargetAck i _) = i"
| "ack_instance (SpectateAck i) = i"
| "ack_instance (AcceptAck i _) = i"

definition ack_ok :: "Server \<Rightarrow> guid \<Rightarrow> PendingAck \<Rightarrow> bool" where
  "ack_ok s g pk \<longleftrightarrow>
     g \<noteq> [] \<and> client_key s (pk_client pk) = Some (g, Some (pk_timer pk)) \<and>
     map_of (sv_timers s) (pk_timer pk) = Some (AckTimeout (pk_client pk) (pk_kind pk)) \<and>
     ack_instance (pk_kind pk) \<in> instance_ids (sv_registry s)"

definition acks_ok :: "Server \<Rightarrow> bool" where
  "acks_ok s \<longleftrightarrow> (\<forall>g pk. map_of (sv_acks s) g = Some pk \<longrightarrow> ack_ok s g pk)"

definition timers_ok :: "Server \<Rightarrow> bool" where
  "timers_ok s \<longleftrightarrow> (\<forall>t job. map_of (sv_timers s) t = Some job \<longrightarrow> t < sv_next_timer s) \<and>
     (\<forall>c g t. client_key s c = Some (g, Some t) \<longrightarrow> t < sv_next_timer s \<and>
        (\<forall>job. map_of (sv_timers s) t = Some job \<longrightarrow> (\<exists>kind. job = AckTimeout c kind)))"

definition sessions_ok :: "Server \<Rightarrow> bool" where
  "sessions_ok s \<longleftrightarrow>
     (\<forall>g c. map_of (sv_sessions s) g = Some c \<longleftrightarrow> g \<noteq> [] \<and> (\<exists>t. client_key s c = Some (g, t))) \<and>
     dom (map_of (sv_store s)) = dom (map_of (sv_sessions s)) \<and>
     (\<forall>c. client_key s c \<noteq> None \<longrightarrow> c < sv_next_client s)"

definition routing_ok :: "Server \<Rightarrow> bool" where
  "routing_ok s \<longleftrightarrow> registry_ok (sv_registry s) \<and> team_world_ok (sv_team s) \<and> acks_ok s \<and> timers_ok s \<and> sessions_ok s"

lemma routing_okI:
  "registry_ok (sv_registry s) \<Longrightarrow> team_world_ok (sv_team s) \<Longrightarrow> acks_ok s \<Longrightarrow> timers_ok s \<Longrightarrow> sessions_ok s \<Longrightarrow> routing_ok s"
  by (simp add: routing_ok_def)

lemma routing_keeps:
  assumes "keeps s s'" "routing_ok s"
  shows "routing_ok s'"
proof -
  have k: "client_key s' = client_key s" "map_of (sv_sessions s') = map_of (sv_sessions s)"
    "dom (map_of (sv_store s')) = dom (map_of (sv_store s))" "sv_acks s' = sv_acks s" "sv_timers s' = sv_timers s"
    "sv_next_timer s' = sv_next_timer s" "sv_next_client s' = sv_next_client s"
    "registry_grows (sv_registry s) (sv_registry s')" "team_world_ok (sv_team s) \<longrightarrow> team_world_ok (sv_team s')"
    using assms(1) by (simp_all add: keeps_def)
  have "instance_ids (sv_registry s) \<subseteq> instance_ids (sv_registry s')" "registry_ok (sv_registry s')"
    using k(8) assms(2) by (simp_all add: registry_grows_def routing_ok_def)
  then show ?thesis
    using assms(2) k by (auto simp: routing_ok_def acks_ok_def ack_ok_def timers_ok_def sessions_ok_def)
qed

lemma after_keeps: "after r (keeps s) \<Longrightarrow> routing_ok s \<Longrightarrow> after r routing_ok"
  by (erule after_mono) (rule routing_keeps)

section \<open>Acknowledgements and timers\<close>

lemma client_key_on_client:
  "client_key (on_client c f s) = (case map_of (sv_clients s) c of None \<Rightarrow> client_key s
     | Some cl \<Rightarrow> (client_key s)(c \<mapsto> (cl_guid (f cl), cl_ack_timer (f cl))))"
  by (auto simp: on_client_def client_key_def fun_eq_iff split: option.split)

lemma on_client_parts [simp]:
  "sv_team (on_client c f s) = sv_team s"
  "sv_sessions (on_client c f s) = sv_sessions s"
  "sv_acks (on_client c f s) = sv_acks s"
  "sv_timers (on_client c f s) = sv_timers s"
  "sv_next_timer (on_client c f s) = sv_next_timer s"
  "sv_next_client (on_client c f s) = sv_next_client s"
  by (simp_all add: on_client_def split: option.split)

lemma emit_parts [simp]:
  "sv_team (emit x s) = sv_team s" "sv_sessions (emit x s) = sv_sessions s" "sv_acks (emit x s) = sv_acks s"
  "sv_timers (emit x s) = sv_timers s" "sv_next_timer (emit x s) = sv_next_timer s" "client_key (emit x s) = client_key s"
  "sv_next_client (emit x s) = sv_next_client s" "sv_clients (emit x s) = sv_clients s"
  by (simp_all add: emit_def client_key_def)

text \<open>Deleting an acknowledgement, and with it possibly its timer.\<close>

lemma drop_ack_ok:
  assumes "routing_ok s"
    and "\<And>g' pk. g' \<noteq> g \<Longrightarrow> map_of (sv_acks s) g' = Some pk \<Longrightarrow> pk_timer pk \<notin> ts"
    and "s' = s\<lparr>sv_acks := umap_erase g (sv_acks s), sv_timers := filter (\<lambda>(t, _). t \<notin> ts) (sv_timers s)\<rparr>"
  shows "routing_ok s'"
proof -
  have m: "map_of (filter (\<lambda>(t, _). t \<notin> ts) xs) t = (if t \<in> ts then None else map_of xs t)" for t and xs :: "(nat \<times> TimerJob) list"
    by (induction xs) auto
  have k: "client_key s' = client_key s" and p: "sv_team s' = sv_team s" "sv_sessions s' = sv_sessions s"
    "sv_store s' = sv_store s" "sv_next_timer s' = sv_next_timer s" "sv_next_client s' = sv_next_client s"
    and t: "map_of (sv_timers s') t = (if t \<in> ts then None else map_of (sv_timers s) t)"
    and a: "map_of (sv_acks s') h = (if h = g then None else map_of (sv_acks s) h)" for t h
    by (simp_all add: assms(3) client_key_def m)
  have "ack_ok s' h pk" if "map_of (sv_acks s') h = Some pk" for h pk
  proof -
    have h: "h \<noteq> g" "map_of (sv_acks s) h = Some pk" using that by (auto simp: a split: if_splits)
    then have "ack_ok s h pk" "pk_timer pk \<notin> ts" using assms(1,2) by (auto simp: routing_ok_def acks_ok_def)
    then show ?thesis by (simp add: ack_ok_def k p t)
  qed
  moreover have "timers_ok s'" using assms(1) by (auto simp: routing_ok_def timers_ok_def k p t)
  moreover have "sessions_ok s'" using assms(1) by (simp add: routing_ok_def sessions_ok_def k p)
  ultimately show ?thesis using assms(1) by (simp add: routing_ok_def acks_ok_def p)
qed

lemma ack_owner:
  "routing_ok s \<Longrightarrow> map_of (sv_acks s) g = Some pk \<Longrightarrow> ack_ok s g pk"
  by (simp add: routing_ok_def acks_ok_def)

lemma clear_ok: "routing_ok s \<Longrightarrow> routing_ok (ClearPendingAck g s)"
  by (rule drop_ack_ok [of s g "{}"]) (simp_all add: ClearPendingAck_def)

lemma cancel_clear_ok:
  assumes "routing_ok s" "\<And>g' pk. g' \<noteq> g \<Longrightarrow> map_of (sv_acks s) g' = Some pk \<Longrightarrow> pk_timer pk \<noteq> t"
  shows "routing_ok (ClearPendingAck g (cancel t s))"
proof (rule drop_ack_ok [OF assms(1), of g "{t}"])
  have "(\<lambda>(k' :: nat, _ :: TimerJob). t \<noteq> k') = (\<lambda>(k', _). k' \<notin> {t})" by auto
  then show "ClearPendingAck g (cancel t s) = s\<lparr>sv_acks := umap_erase g (sv_acks s),
      sv_timers := filter (\<lambda>(t', _). t' \<notin> {t}) (sv_timers s)\<rparr>"
    by (simp add: ClearPendingAck_def cancel_def AList.delete_eq)
qed (use assms(2) in simp)

lemma cancel_own_ok:
  assumes "routing_ok s" "client_key s c = Some (g, Some t)"
  shows "routing_ok (ClearPendingAck g (cancel t s))"
proof (rule cancel_clear_ok [OF assms(1)], rule notI)
  fix h pk assume h: "h \<noteq> g" "map_of (sv_acks s) h = Some pk" "pk_timer pk = t"
  have "ack_ok s h pk" by (rule ack_owner [OF assms(1) h(2)])
  then have o: "client_key s (pk_client pk) = Some (h, Some t)"
    "map_of (sv_timers s) t = Some (AckTimeout (pk_client pk) (pk_kind pk))" using h(3) by (simp_all add: ack_ok_def)
  have "pk_client pk = c" using assms o(2) unfolding routing_ok_def timers_ok_def by blast
  then show False using o(1) assms(2) h(1) by simp
qed

lemma cancel_fired_ok:
  assumes "routing_ok s" "map_of (sv_timers s) t = Some (AckTimeout c kind)" "client_key s c = Some (g, a)"
  shows "routing_ok (ClearPendingAck g (cancel t s))"
proof (rule cancel_clear_ok [OF assms(1)], rule notI)
  fix h pk assume h: "h \<noteq> g" "map_of (sv_acks s) h = Some pk" "pk_timer pk = t"
  have "ack_ok s h pk" by (rule ack_owner [OF assms(1) h(2)])
  then show False using h assms(2,3) by (simp add: ack_ok_def)
qed

lemma cancel_delivered_ok:
  assumes "routing_ok s" "map_of (sv_acks s) g = Some pk"
  shows "routing_ok (ClearPendingAck g (cancel (pk_timer pk) s))"
  by (rule cancel_own_ok [OF assms(1), of "pk_client pk"]) (use ack_owner [OF assms] in \<open>simp add: ack_ok_def\<close>)

lemma cancel_orphan_ok:
  assumes "routing_ok s" "map_of (sv_timers s) t = Some job" "\<And>c kind. job = AckTimeout c kind \<Longrightarrow> client_key s c = None"
  shows "routing_ok (cancel t s)"
proof -
  have "pk_timer pk \<noteq> t" if "map_of (sv_acks s) h = Some pk" for h pk
    using ack_owner [OF assms(1) that] assms(2,3) by (auto simp: ack_ok_def)
  moreover have "map_of (sv_acks s) [] = None"
    using ack_owner [OF assms(1), of "[]"] by (cases "map_of (sv_acks s) []") (simp_all add: ack_ok_def)
  then have "umap_erase [] (sv_acks s) = sv_acks s" by (simp add: delete_id map_of_eq_None_iff)
  ultimately have "routing_ok (ClearPendingAck [] (cancel t s))" and "ClearPendingAck [] (cancel t s) = cancel t s"
    using cancel_clear_ok [OF assms(1), of "[]" t] by (auto simp: ClearPendingAck_def cancel_def)
  then show ?thesis by simp
qed

lemma set_ack_ok:
  assumes ok: "routing_ok s" and c: "client_key s c = Some (g, a)" "g \<noteq> []"
    and same: "sv_team s' = sv_team s" "sv_sessions s' = sv_sessions s" "sv_store s' = sv_store s" "sv_next_client s' = sv_next_client s"
    and t: "t = sv_next_timer s" "sv_next_timer s' = Suc t"
    and k: "client_key s' = (client_key s)(c \<mapsto> (g, a'))"
    and x: "map_of (sv_acks s') = (map_of (sv_acks s))(g := x)" "map_of (sv_timers s') = (map_of (sv_timers s))(t := j)"
    and new: "a' = Some t \<and> x = Some \<lparr>pk_client = c, pk_timer = t, pk_kind = kind\<rparr> \<and> j = Some (AckTimeout c kind) \<and>
       ack_instance kind \<in> instance_ids (sv_registry s) \<or> a' = None \<and> x = None \<and> j = None"
  shows "routing_ok s'"
proof -
  note ok' = ok [unfolded routing_ok_def]
  have fresh: "t' < t" if "map_of (sv_timers s) t' = Some job \<or> client_key s d = Some (h, Some t')" for t' job d h
    using ok' that unfolding timers_ok_def t(1) by blast
  have "ack_ok s' h pk" if h: "map_of (sv_acks s') h = Some pk" for h pk
  proof (cases "h = g")
    case True
    then show ?thesis using new h by (auto simp: x ack_ok_def c(2) k same)
  next
    case False
    then have h: "ack_ok s h pk" using h ack_owner [OF ok] by (simp add: x)
    then have "pk_client pk \<noteq> c" "pk_timer pk \<noteq> t" using c False fresh [of "pk_timer pk"] by (auto simp: ack_ok_def)
    then show ?thesis using h by (simp add: ack_ok_def k x same)
  qed
  moreover have "timers_ok s'"
    unfolding timers_ok_def
  proof (intro conjI allI impI)
    show "t' < sv_next_timer s'" if "map_of (sv_timers s') t' = Some job" for t' job
      using that fresh [of t' job] by (auto simp: x t(2) less_Suc_eq split: if_splits)
    fix d h t' assume d: "client_key s' d = Some (h, Some t')"
    have "a' = Some t \<or> a' = None" using new by blast
    then consider (new) "d = c" "t' = t" "a' = Some t" | (old) "client_key s d = Some (h, Some t')"
      using d by (cases "d = c") (auto simp: k)
    note cases = this
    show "t' < sv_next_timer s'"
      using cases fresh [of t' _ d h] by cases (auto simp: t(2) less_Suc_eq)
    show "\<exists>kind. job = AckTimeout d kind" if job: "map_of (sv_timers s') t' = Some job" for job
      using cases
    proof cases
      case new': new
      then show ?thesis using job new by (simp add: x)
    next
      case old
      then have "map_of (sv_timers s) t' = Some job" using job fresh [of t' job d h] by (simp add: x)
      then show ?thesis using old ok' unfolding timers_ok_def by blast
    qed
  qed
  moreover have "sessions_ok s'"
    using ok' c unfolding sessions_ok_def by (auto simp: k same)
  ultimately show ?thesis using ok' by (simp add: routing_ok_def acks_ok_def same)
qed

lemma arm_new_ok:
  assumes "routing_ok s" "\<And>c kind. job \<noteq> AckTimeout c kind"
  shows "routing_ok (arm_new job s)"
proof -
  let ?s' = "arm_new job s"
  have k: "client_key ?s' = client_key s" "sv_team ?s' = sv_team s" "sv_sessions ?s' = sv_sessions s" "sv_store ?s' = sv_store s"
    "sv_acks ?s' = sv_acks s" "sv_next_client ?s' = sv_next_client s" "sv_next_timer ?s' = Suc (sv_next_timer s)"
    "map_of (sv_timers ?s') = (map_of (sv_timers s))(sv_next_timer s \<mapsto> job)"
    by (simp_all add: arm_new_def new_timer_def arm_def client_key_def update_conv')
  have "ack_ok ?s' g pk" if "map_of (sv_acks s) g = Some pk" for g pk
  proof -
    have "ack_ok s g pk" by (rule ack_owner [OF assms(1) that])
    then show ?thesis using assms(1) by (auto simp: ack_ok_def k routing_ok_def timers_ok_def)
  qed
  moreover have "timers_ok ?s'" using assms(1) by (fastforce simp: routing_ok_def timers_ok_def k less_Suc_eq)
  moreover have "sessions_ok ?s'" using assms(1) by (simp add: routing_ok_def sessions_ok_def k)
  ultimately show ?thesis using assms(1) by (simp add: routing_ok_def acks_ok_def k)
qed

section \<open>Registering with an instance\<close>

lemma Send_parts [simp]:
  "sv_team (snd (SendToInstance i m s)) = sv_team s"
  "sv_sessions (snd (SendToInstance i m s)) = sv_sessions s"
  "sv_clients (snd (SendToInstance i m s)) = sv_clients s"
  "sv_acks (snd (SendToInstance i m s)) = sv_acks s"
  "sv_timers (snd (SendToInstance i m s)) = sv_timers s"
  "sv_next_timer (snd (SendToInstance i m s)) = sv_next_timer s"
  "sv_next_client (snd (SendToInstance i m s)) = sv_next_client s"
  by (simp_all add: SendToInstance_def split: option.split)

lemma await_ack_ok:
  assumes ok: "routing_ok s" and c: "client_key s c = Some (g, a)" "g \<noteq> []"
    and i: "ack_instance kind \<in> instance_ids (sv_registry s)"
  shows "routing_ok (snd (await_ack c g kind i msg s))"
proof -
  define t where "t = sv_next_timer s"
  define s2 where "s2 = RegisterPendingAck g \<lparr>pk_client = c, pk_timer = t, pk_kind = kind\<rparr>
    (on_client c (\<lambda>cl. cl\<lparr>cl_ack_timer := Some t\<rparr>) (s\<lparr>sv_next_timer := Suc t\<rparr>))"
  obtain ok' s3 where s3: "SendToInstance i msg s2 = (ok', s3)" by force
  obtain cl where cl: "map_of (sv_clients s) c = Some cl" "cl_guid cl = g"
    using c(1) by (auto simp: client_key_def)
  have r: "await_ack c g kind i msg s = (if ok' then (True, arm t (AckTimeout c kind) s3)
      else (False, on_client c (\<lambda>cl. cl\<lparr>cl_ack_timer := None\<rparr>) (ClearPendingAck g (cancel t s3))))"
    by (simp add: await_ack_def new_timer_def t_def [symmetric] s2_def [symmetric] s3)
  have p2: "sv_team s2 = sv_team s" "sv_sessions s2 = sv_sessions s" "sv_store s2 = sv_store s"
    "sv_next_client s2 = sv_next_client s" "sv_next_timer s2 = Suc t" "sv_timers s2 = sv_timers s"
    "map_of (sv_acks s2) = (map_of (sv_acks s))(g \<mapsto> \<lparr>pk_client = c, pk_timer = t, pk_kind = kind\<rparr>)"
    "sv_clients s2 = umap_put c (cl\<lparr>cl_ack_timer := Some t\<rparr>) (sv_clients s)"
    by (simp_all add: s2_def RegisterPendingAck_def update_conv') (simp_all add: on_client_def cl)
  have p3: "sv_team s3 = sv_team s" "sv_sessions s3 = sv_sessions s" "sv_store s3 = sv_store s"
    "sv_next_client s3 = sv_next_client s" "sv_next_timer s3 = Suc t" "sv_timers s3 = sv_timers s"
    "sv_acks s3 = sv_acks s2" "sv_clients s3 = sv_clients s2"
    using Send_parts [of i msg s2] SendToInstance_store [of i msg s2] p2 by (simp_all add: s3)
  have nt: "map_of (sv_timers s) t = None"
    using ok by (cases "map_of (sv_timers s) t") (auto simp: t_def routing_ok_def timers_ok_def)
  show ?thesis
  proof (cases ok')
    case True
    have "routing_ok (arm t (AckTimeout c kind) s3)"
      by (rule set_ack_ok [OF ok c, where t = t and a' = "Some t" and kind = kind])
        (simp_all add: arm_def p3 p2 t_def [symmetric] client_key_def fun_eq_iff cl update_conv' i)
    then show ?thesis by (simp add: r True)
  next
    case False
    have "routing_ok (on_client c (\<lambda>cl. cl\<lparr>cl_ack_timer := None\<rparr>) (ClearPendingAck g (cancel t s3)))"
      by (rule set_ack_ok [OF ok c, where t = t and a' = None and kind = kind])
        (simp_all add: cancel_def ClearPendingAck_def p3 p2 t_def [symmetric] client_key_def fun_eq_iff cl
          delete_conv' on_client_def nt)
    then show ?thesis by (simp add: r False)
  qed
qed

lemma instance_known: "GetInstanceById i rg = Some inst \<Longrightarrow> i \<in> instance_ids rg"
  unfolding GetInstanceById_def instance_ids_def
  by (auto dest: find_Some_in_set split: if_splits)

lemma found_known:
  "GetReadyHomeInstance rg = Some inst \<Longrightarrow> ii_instance_id inst \<in> instance_ids rg"
  "GetSuccessor parent rg = Some inst \<Longrightarrow> ii_instance_id inst \<in> instance_ids rg"
  "GetReadyInstance map_name rg = Some inst \<Longrightarrow> ii_instance_id inst \<in> instance_ids rg"
  by (auto simp: GetReadyHomeInstance_def GetSuccessor_def GetReadyInstance_def read_info_def instance_ids_def
        dest!: find_Some_in_set)

lemma is_ready_known: "is_ready i s = Some inst \<Longrightarrow> i \<in> instance_ids (sv_registry s)"
  by (auto simp: is_ready_def intro: instance_known split: option.splits if_splits)

lemma keeps_set_client:
  "keeps a s \<Longrightarrow> map_of (sv_clients s) c = Some cl \<Longrightarrow> cl_guid cl' = cl_guid cl \<Longrightarrow> cl_ack_timer cl' = cl_ack_timer cl \<Longrightarrow>
   keeps a (on_client c (\<lambda>_. cl') s)"
  by (erule calm.frame_trans) (simp add: keeps_def client_key_on_client, simp add: client_key_def fun_eq_iff)

lemma stored_guid:
  assumes "routing_ok s" "map_of (sv_store s) g \<noteq> None"
  shows "g \<noteq> []"
proof -
  have "dom (map_of (sv_store s)) = dom (map_of (sv_sessions s))" using assms(1) by (simp add: routing_ok_def sessions_ok_def)
  then have "map_of (sv_sessions s) g \<noteq> None" using assms(2) by (auto simp: domIff)
  then show ?thesis using assms(1) by (auto simp: routing_ok_def sessions_ok_def)
qed

lemma take_token_key [simp]: "cl_guid (take_token cl) = cl_guid cl" "cl_ack_timer (take_token cl) = cl_ack_timer cl"
  by (simp_all add: take_token_def)

lemma register_ok:
  assumes "routing_ok s" "map_of (sv_clients s) c = Some cl" "map_of (sv_store s) (cl_guid cl) \<noteq> None"
    and "cl_guid cl' = cl_guid cl" "cl_ack_timer cl' = cl_ack_timer cl" "ack_instance kind \<in> instance_ids (sv_registry s)"
  shows "routing_ok (snd (await_ack c (cl_guid cl) kind i msg (on_client c (\<lambda>_. cl') s)))"
proof (rule await_ack_ok)
  show "routing_ok (on_client c (\<lambda>_. cl') s)"
    by (rule routing_keeps [OF keeps_set_client [OF keeps_refl assms(2,4,5)] assms(1)])
  show "client_key (on_client c (\<lambda>_. cl') s) c = Some (cl_guid cl, cl_ack_timer cl)"
    using assms(2,4,5) by (simp add: client_key_on_client)
qed (use assms(6) stored_guid [OF assms(1,3)] in simp_all)

lemma go_play_ok: "routing_ok s \<Longrightarrow> routing_ok (initiate_player_register_and_go_play ne c s)"
  unfolding initiate_player_register_and_go_play_def
  by (auto simp: Let_def split: option.split intro!: register_ok found_known(1))

lemma wait_home_ok:
  assumes "routing_ok s"
  shows "after (wait_for_home_map_then_register ne c secs s) routing_ok"
proof -
  have spawn: "after (if b then SpawnHomeMap ne s else Served s) (keeps s)" for b
    by (simp add: SpawnHomeMap_keeps)
  have poll: "after (and_then (if b then SpawnHomeMap ne s else Served s)
      (\<lambda>s1. Served (arm_new (HomePoll c secs) s1))) routing_ok" for b
    by (rule after_and_then, rule after_mono [OF spawn]) (simp add: arm_new_ok routing_keeps [OF _ assms])
  have assign: "routing_ok (on_client c (\<lambda>cl. cl\<lparr>cl_assigned := i\<rparr>) s)" for i
    by (rule routing_keeps [OF _ assms]) (simp add: kept)
  show ?thesis
    unfolding wait_for_home_map_then_register_def
    using poll [of True] poll [of False]
    by (simp only: if_True if_False split: option.split if_split) (simp only: after_simps assms go_play_ok assign simp_thms)
qed

lemma target_ok:
  assumes "routing_ok s" "i \<in> instance_ids (sv_registry s)"
  shows "after (initiate_player_register_for_target ne c i tf s) routing_ok"
proof (cases "map_of (sv_clients s) c")
  case None
  then show ?thesis using assms by (simp add: initiate_player_register_for_target_def)
next
  case (Some cl)
  show ?thesis
  proof (cases "map_of (sv_store s) (cl_guid cl)")
    case None
    then show ?thesis using assms Some by (simp add: initiate_player_register_for_target_def)
  next
    case stored: (Some info)
    let ?cl = "take_token cl"
    obtain b s1 where a: "await_ack c (cl_guid cl) (TargetAck i tf) i
        (RegisterPlayer (register_msg ne ?cl (Some (cl_token ?cl)) tf False)) (on_client c (\<lambda>_. ?cl) s) = (b, s1)" by force
    have "routing_ok (snd (await_ack c (cl_guid cl) (TargetAck i tf) i
        (RegisterPlayer (register_msg ne ?cl (Some (cl_token ?cl)) tf False)) (on_client c (\<lambda>_. ?cl) s)))"
      by (rule register_ok [OF assms(1) Some]) (use stored assms(2) in simp_all)
    then have "routing_ok s1" by (simp add: a)
    then show ?thesis
      by (cases b) (simp_all add: initiate_player_register_for_target_def Some stored Let_def a wait_home_ok)
  qed
qed

lemma spectate_ok:
  assumes "routing_ok s" "i \<in> instance_ids (sv_registry s)"
  shows "routing_ok (initiate_player_register_for_spectate ne c i tf s)"
  unfolding initiate_player_register_for_spectate_def
  using assms by (auto simp: Let_def split: option.split intro!: register_ok)

section \<open>Acknowledged, timed out\<close>

lemma keeps_join [kept]:
  "keeps a s \<Longrightarrow> i \<in> instance_ids (sv_registry s) \<Longrightarrow> keeps a (join_instance ne c i tf s)"
  by (simp add: join_instance_def kept join_grows split: option.split)

lemma keeps_drop_reservation [kept]: "keeps a s \<Longrightarrow> keeps a (drop_reservation i c s)"
  by (simp add: drop_reservation_def kept split: option.split)

lemma keeps_send_go_play [kept]:
  "keeps a s \<Longrightarrow> keeps a (send_go_play_to_instance ne c inst tf s)"
  "keeps a s \<Longrightarrow> keeps a (send_go_play_response ne c s)"
  by (simp_all add: send_go_play_to_instance_def send_go_play_response_def kept split: option.split)

lemma on_client_registry [simp]: "sv_registry (on_client c f s) = sv_registry s"
  by simp

lemma forget_key [simp]:
  "cl_guid (forget_invitation cl) = cl_guid cl" "cl_ack_timer (forget_invitation cl) = cl_ack_timer cl"
  "cl_guid (clear_match cl) = cl_guid cl" "cl_ack_timer (clear_match cl) = cl_ack_timer cl"
  by (simp_all add: forget_invitation_def clear_match_def)

lemma go_home_ok: "routing_ok s \<Longrightarrow> after (go_home ne c s) routing_ok"
  unfolding go_home_def by (rule wait_home_ok, erule routing_keeps [rotated]) (simp add: kept)

lemma home_ack_ok:
  assumes "routing_ok s" "i \<in> instance_ids (sv_registry s)"
  shows "after (home_ack ne c i tf success s) routing_ok"
  using assms by (auto simp: home_ack_def Let_def kept elim!: routing_keeps [rotated] split: option.split)

lemma target_ack_ok:
  assumes "routing_ok s" "i \<in> instance_ids (sv_registry s)"
  shows "after (target_ack ne c i tf success s) routing_ok"
proof -
  let ?s1 = "join_instance ne c i tf (on_client c (\<lambda>cl. cl\<lparr>cl_assigned := i\<rparr>) s)"
  have j: "routing_ok ?s1" by (rule routing_keeps [OF _ assms(1)], intro kept) (simp_all add: assms(2))
  then have "routing_ok (send_go_play_to_instance ne c inst tf ?s1)" for inst
    by (rule routing_keeps [rotated]) (simp add: kept)
  then show ?thesis using j by (simp add: target_ack_def Let_def go_home_ok assms(1) split: option.split)
qed

lemma spectate_ack_ok: "routing_ok s \<Longrightarrow> after (spectate_ack ne c i success s) routing_ok"
  by (auto simp: spectate_ack_def Let_def kept elim!: routing_keeps [rotated] split: option.split)

lemma accept_ack_ok:
  assumes "routing_ok s" "i \<in> instance_ids (sv_registry s)"
  shows "after (accept_ack ne c i tf success s) routing_ok"
proof -
  let ?s1 = "drop_reservation i c (join_instance ne c i tf (on_client c (\<lambda>cl. cl\<lparr>cl_assigned := i\<rparr>) s))"
  have "keeps s ?s1" by (intro kept) (simp_all add: assms(2))
  then have "keeps s (on_client c forget_invitation ?s1)"
    "keeps s (emit (ToClient c x) (on_client c clear_match (send_go_play_to_instance ne c inst tf ?s1)))" for x inst
    by (simp_all add: kept)
  then show ?thesis
    using assms(1) by (auto simp: accept_ack_def Let_def kept elim!: routing_keeps [rotated] split: option.split)
qed

lemma ack_callback_ok:
  "routing_ok s \<Longrightarrow> ack_instance kind \<in> instance_ids (sv_registry s) \<Longrightarrow> after (ack_callback ne c kind success s) routing_ok"
  by (cases kind) (simp_all add: home_ack_ok target_ack_ok spectate_ack_ok accept_ack_ok)

lemma cancel_clear_parts [simp]:
  "sv_team (ClearPendingAck g s) = sv_team s" "sv_team (cancel t s) = sv_team s"
  "sv_clients (ClearPendingAck g s) = sv_clients s" "sv_clients (cancel t s) = sv_clients s"
  "client_key (ClearPendingAck g s) = client_key s" "client_key (cancel t s) = client_key s"
  "sv_store (ClearPendingAck g s) = sv_store s" "sv_sessions (ClearPendingAck g s) = sv_sessions s"
  "sv_sessions (cancel t s) = sv_sessions s"
  by (simp_all add: ClearPendingAck_def cancel_def client_key_def)

lemma cancel_clear_swap: "cancel t (ClearPendingAck g s) = ClearPendingAck g (cancel t s)"
  by (simp add: ClearPendingAck_def cancel_def)

lemma DeliverAck_ok:
  assumes "routing_ok s"
  shows "after (DeliverAck ne g success s) routing_ok"
proof (cases "map_of (sv_acks s) g")
  case None
  then show ?thesis using assms by (simp add: DeliverAck_def)
next
  case (Some pk)
  have "ack_instance (pk_kind pk) \<in> instance_ids (sv_registry s)"
    using ack_owner [OF assms Some] by (simp add: ack_ok_def)
  then show ?thesis using cancel_delivered_ok [OF assms Some]
    by (simp add: DeliverAck_def Some cancel_clear_swap ack_callback_ok)
qed

lemma ack_timeout_ok:
  assumes "routing_ok s" "map_of (sv_timers s) t = Some (AckTimeout c kind)"
  shows "after (ack_timeout ne c kind (cancel t s)) routing_ok"
proof (cases "map_of (sv_clients s) c")
  case None
  then have "client_key s c = None" by (simp add: client_key_def)
  then show ?thesis using None cancel_orphan_ok [OF assms] assms(2) by simp
next
  case (Some cl)
  let ?s1 = "ClearPendingAck (cl_guid cl) (cancel t s)"
  have ok: "routing_ok ?s1"
    by (rule cancel_fired_ok [OF assms]) (simp add: client_key_def Some)
  then have "routing_ok (on_client c forget_invitation (drop_reservation i c ?s1))" for i
    by (rule routing_keeps [rotated]) (simp add: kept)
  then show ?thesis using ok Some by (cases kind) (simp_all add: Let_def wait_home_ok)
qed

section \<open>Matches and missions\<close>

lemma accept_match_ok:
  assumes ok: "routing_ok s" and logged_in: "\<And>cl. map_of (sv_clients s) c = Some cl \<Longrightarrow> cl_guid cl \<noteq> []"
  shows "routing_ok (send_match_accept_response ne c s)"
proof (cases "map_of (sv_clients s) c")
  case None
  then show ?thesis using ok by (simp add: send_match_accept_response_def)
next
  case (Some cl)
  have quiet: "routing_ok s'" if "keeps s s'" for s' by (rule routing_keeps [OF that ok])
  let ?i = "cl_pending_instance cl"
  let ?kind = "AcceptAck ?i (cl_pending_tf cl)"
  obtain b s1 where send: "SendToInstance ?i (RegisterPlayer (register_msg ne cl None (cl_pending_tf cl) False)) s = (b, s1)"
    by force
  have s1: "keeps s s1" "sv_clients s1 = sv_clients s" "sv_team s1 = sv_team s"
    using keeps_Send [OF keeps_refl, of s ?i] Send_parts [of ?i _ s] by (metis send snd_conv)+
  have known: "?i \<in> instance_ids (sv_registry s)" if "is_ready ?i s \<noteq> None"
    using that is_ready_known by fastforce
  define t where "t = sv_next_timer s1"
  have "routing_ok (arm t (AckTimeout c ?kind) (RegisterPendingAck (cl_guid cl)
      \<lparr>pk_client = c, pk_timer = t, pk_kind = ?kind\<rparr>
      (on_client c (\<lambda>cl. cl\<lparr>cl_ack_timer := Some t\<rparr>) (s1\<lparr>sv_next_timer := Suc t\<rparr>))))"
    if "is_ready ?i s \<noteq> None"
    by (rule set_ack_ok [OF quiet [OF s1(1)], where t = t and a' = "Some t" and kind = ?kind and c = c and g = "cl_guid cl"])
      (use Some s1 known [OF that] logged_in [OF Some] in
        \<open>simp_all add: arm_def RegisterPendingAck_def t_def [symmetric] client_key_def fun_eq_iff update_conv' on_client_def\<close>)
  moreover have "keeps s (on_client c (\<lambda>cl. cl\<lparr>cl_pending_instance := 0\<rparr>) (drop_reservation ?i c s))"
    "keeps s (on_client c forget_invitation (drop_reservation ?i c s1))"
    by (simp_all add: kept s1)
  ultimately show ?thesis
    using ok quiet
    by (auto simp: send_match_accept_response_def Some Let_def send new_timer_def t_def [symmetric]
        split: option.split bool.split)
qed

lemma keeps_leave_response [kept]: "keeps a s \<Longrightarrow> keeps a (send_match_leave_response ne c s)"
  unfolding send_match_leave_response_def Let_def by (simp add: kept split: option.split)

lemma keeps_leave_game [kept]: "keeps a s \<Longrightarrow> keeps a (leave_game ne c s)"
  unfolding leave_game_def Let_def by (simp add: kept split: option.split)

lemma keeps_logoff [kept]: "keeps a s \<Longrightarrow> keeps a (logoff ne c s)"
  unfolding logoff_def by (simp add: kept split: option.split)

text \<open>A session without a timer has no acknowledgement in flight.\<close>

lemma no_timer_no_ack:
  assumes "routing_ok s" "client_key s c = Some (g, None)"
  shows "map_of (sv_acks s) g = None"
proof (rule ccontr)
  assume "map_of (sv_acks s) g \<noteq> None"
  then obtain pk where pk: "map_of (sv_acks s) g = Some pk" by blast
  have o: "ack_ok s g pk" by (rule ack_owner [OF assms(1) pk])
  then have "g \<noteq> []" and k: "client_key s (pk_client pk) = Some (g, Some (pk_timer pk))" by (simp_all add: ack_ok_def)
  then have "map_of (sv_sessions s) g = Some c" "map_of (sv_sessions s) g = Some (pk_client pk)"
    using assms unfolding routing_ok_def sessions_ok_def by blast+
  then show False using k assms(2) by simp
qed

lemma drop_timer_ok:
  assumes ok: "routing_ok s" and c: "client_key s c = Some (g, a)" and a: "map_of (sv_acks s) g = None"
    and k: "client_key s' = (client_key s)(c \<mapsto> (g, None))"
    and p: "sv_team s' = sv_team s" "sv_sessions s' = sv_sessions s" "sv_store s' = sv_store s" "sv_acks s' = sv_acks s"
      "sv_timers s' = sv_timers s" "sv_next_timer s' = sv_next_timer s" "sv_next_client s' = sv_next_client s"
  shows "routing_ok s'"
proof -
  have "ack_ok s' h pk" if "map_of (sv_acks s) h = Some pk" for h pk
  proof -
    have h: "ack_ok s h pk" by (rule ack_owner [OF ok that])
    then have "pk_client pk \<noteq> c" using c a that by (auto simp: ack_ok_def)
    then show ?thesis using h by (simp add: ack_ok_def k p)
  qed
  moreover have "timers_ok s'" using ok unfolding routing_ok_def timers_ok_def
    by (simp add: k p)
  moreover have "sessions_ok s'" using ok c unfolding routing_ok_def sessions_ok_def by (auto simp: k p)
  ultimately show ?thesis using ok by (simp add: routing_ok_def acks_ok_def p)
qed

lemma reset_routing_ok:
  assumes "routing_ok s"
  shows "routing_ok (reset_routing c s)"
proof (cases "map_of (sv_clients s) c")
  case None
  then show ?thesis using assms by (simp add: reset_routing_def)
next
  case (Some cl)
  let ?s1 = "case cl_ack_timer cl of None \<Rightarrow> s | Some t \<Rightarrow> ClearPendingAck (cl_guid cl) (cancel t s)"
  have c: "client_key s c = Some (cl_guid cl, cl_ack_timer cl)" by (simp add: client_key_def Some)
  have ok: "routing_ok ?s1" and none: "map_of (sv_acks ?s1) (cl_guid cl) = None"
    and k: "client_key ?s1 = client_key s" "sv_clients ?s1 = sv_clients s"
    using c assms cancel_own_ok [OF assms, of c "cl_guid cl"] no_timer_no_ack [OF assms, of c "cl_guid cl"]
    by (auto simp: ClearPendingAck_def cancel_def client_key_def split: option.split)
  show ?thesis
    unfolding reset_routing_def Some option.case Let_def
    by (rule drop_timer_ok [OF ok, of c "cl_guid cl" "cl_ack_timer cl"])
      (use c none k Some in \<open>simp_all add: client_key_on_client\<close>)
qed

lemma reset_registry [simp]: "sv_registry (reset_routing c s) = sv_registry s"
  by (simp add: reset_routing_def Let_def split: option.split)

lemma ConsumePre_registry [simp]: "w_registry (snd (ConsumePreAssignedTeam i g w)) = w_registry w"
  by (simp add: ConsumePreAssignedTeam_def Let_def split: option.split)

lemma continuation_known: "continuation parent s = Some succ \<Longrightarrow> ii_instance_id succ \<in> instance_ids (sv_registry s)"
  by (auto simp: continuation_def dest: found_known(2) split: option.splits if_splits)

lemma left_known [simp]: "instance_ids (MarkInstancePlayerLeft now i g rg) = instance_ids rg"
  by (simp add: MarkInstancePlayerLeft_def Let_def recount_def instance_ids_def set_map [symmetric] map_update_where
      del: set_map)

lemma route_ok:
  assumes ok: "routing_ok s"
  shows "after (route_from_mission_instance ne c parent s) routing_ok"
proof (cases "map_of (sv_clients s) c")
  case None
  then show ?thesis using ok by (simp add: route_from_mission_instance_def)
next
  case (Some cl)
  define s1 where "s1 = (if parent \<noteq> 0 \<and> cl_guid cl \<noteq> []
    then on_registry (MarkInstancePlayerLeft (unix_now ne) parent (cl_guid cl)) s else s)"
  define s2 where "s2 = reset_routing c s1"
  have "keeps s s1" by (simp add: s1_def kept table_steps)
  then have s2: "routing_ok s2" using ok by (simp add: s2_def reset_routing_ok routing_keeps)
  have ids: "instance_ids (sv_registry s2) = instance_ids (sv_registry s)" by (simp add: s2_def s1_def)
  have target: "after (initiate_player_register_for_target ne c (ii_instance_id succ) tf (put_world w s2)) routing_ok"
    if "continuation parent s = Some succ" "ConsumePreAssignedTeam (ii_instance_id succ) (cl_guid cl) (sv_world s2) = (cached, w)"
    for succ cached w tf
  proof (rule target_ok)
    have w: "w_registry w = sv_registry s2" using ConsumePre_registry [of "ii_instance_id succ" "cl_guid cl" "sv_world s2"] that(2) by simp
    then show "routing_ok (put_world w s2)" by (intro routing_keeps [OF _ s2] kept) simp_all
    show "ii_instance_id succ \<in> instance_ids (sv_registry (put_world w s2))"
      using continuation_known [OF that(1)] by (simp add: w ids)
  qed
  show ?thesis
    unfolding route_from_mission_instance_def Some option.case Let_def s1_def [symmetric] s2_def [symmetric]
    using ok target wait_home_ok [OF s2] by (auto split: option.split prod.split)
qed

lemma ForceMissionExit_ok: "routing_ok s \<Longrightarrow> after (ForceMissionExit ne g parent s) routing_ok"
  by (auto simp: ForceMissionExit_def route_ok kept table_steps elim!: routing_keeps [rotated] split: option.split)

lemma exit_all_ok: "routing_ok s \<Longrightarrow> after (exit_all ne parent gs s) routing_ok"
  by (induction gs arbitrary: s)
    (auto intro!: after_and_then after_mono [OF ForceMissionExit_ok])

lemma ForceExitFired_ok: "routing_ok s \<Longrightarrow> after (ForceExitFired ne i s) routing_ok"
  by (auto simp: ForceExitFired_def split: option.split
      intro!: after_and_then after_mono [OF exit_all_ok] routing_keeps [OF keeps_stop_empty [OF keeps_refl]])

lemma change_instance_ok: "routing_ok s \<Longrightarrow> after (change_instance ne c m i s) routing_ok"
  by (auto simp: change_instance_def Let_def route_ok kept elim!: routing_keeps [rotated] split: option.split)

section \<open>Moves, spectators, travel\<close>

lemma AdminMove_ok:
  assumes "routing_ok s"
  shows "after (AdminMovePlayerToInstance ne g i tf source_id source_tf s) (routing_ok \<circ> snd)"
proof -
  have move: "after (case initiate_player_register_for_target ne c i tf' s1 of
      Served s2 \<Rightarrow> Served (True, s2) | Threw s2 \<Rightarrow> Threw (True, s2) | Hung \<Rightarrow> Hung) (routing_ok \<circ> snd)"
    if "routing_ok s1" "i \<in> instance_ids (sv_registry s1)" for c s1 tf'
    using target_ok [OF that, of ne c tf'] by (cases "initiate_player_register_for_target ne c i tf' s1") simp_all
  have side: "after (case SendToInstance k m s of (False, s1) \<Rightarrow> Served (False, s1)
      | (True, s1) \<Rightarrow> Served (True, on_registry (UpdateInstancePlayerTaskForce k g tf') s1)) (routing_ok \<circ> snd)" for k m tf'
  proof -
    obtain b s1 where e: "SendToInstance k m s = (b, s1)" by force
    then have "keeps s s1" using keeps_Send [OF keeps_refl, of s k m] by simp
    then have "keeps s (on_registry (UpdateInstancePlayerTaskForce k g tf') s1)" "keeps s s1"
      by (simp_all add: kept table_steps)
    then show ?thesis using assms by (cases b) (simp_all add: e routing_keeps)
  qed
  have left: "routing_ok (on_registry (MarkInstancePlayerLeft now k g) s)" for now k
    by (rule routing_keeps [OF keeps_on_registry [OF keeps_refl] assms]) (rule table_steps)
  show ?thesis
    using assms
    by (auto simp: AdminMovePlayerToInstance_def Let_def split: option.split simp del: o_apply
        intro!: move left side dest!: is_ready_known) simp_all
qed

lemma SpectateJoin_ok: "routing_ok s \<Longrightarrow> routing_ok (snd (DeliverSpectateJoin ne g i tf s))"
  by (auto simp: DeliverSpectateJoin_def intro!: spectate_ok is_ready_known split: option.split)

lemma exit_spectate_ok: "routing_ok s \<Longrightarrow> after (exit_spectate ne c s) routing_ok"
  by (auto simp: exit_spectate_def Let_def kept intro!: wait_home_ok elim!: routing_keeps [rotated] split: option.split)

lemma SpectateExit_ok: "routing_ok s \<Longrightarrow> after (DeliverSpectateExit ne g s) routing_ok"
  by (auto simp: DeliverSpectateExit_def exit_spectate_ok split: option.split)

lemma travel_ok:
  assumes "routing_ok s"
  shows "after (travel_to_map_when_ready ne c m tf secs s) routing_ok"
proof -
  let ?arrived = "on_client c (\<lambda>cl. cl\<lparr>cl_travelling := False\<rparr>)"
  have arrived: "routing_ok (?arrived s')" if "routing_ok s'" for s' using that by (rule routing_keeps [rotated]) (simp add: kept)
  show ?thesis
    using assms
    by (auto simp: travel_to_map_when_ready_def Let_def arrived arm_new_ok split: option.split
        intro!: target_ok arrived routing_keeps [OF keeps_on_registry [OF keeps_refl]] dest: found_known(3) simp: table_steps)
qed

lemma DeliverTravel_ok: "routing_ok s \<Longrightarrow> after (DeliverOpenWorldTravel ne g m tf s) routing_ok"
  by (auto simp: DeliverOpenWorldTravel_def kept intro!: travel_ok elim!: routing_keeps [rotated] split: option.split)

lemma keeps_action [kept]: "keeps a s \<Longrightarrow> keeps a (snd (DeliverPlayerAction g x s))"
  by (auto simp: DeliverPlayerAction_def kept split: option.split)

lemma keeps_alert [kept]: "keeps a s \<Longrightarrow> keeps a (travel_alert g msg dur s)"
  by (simp add: travel_alert_def kept)

lemma TravelRequest_ok:
  assumes ok: "routing_ok s"
  shows "after (OpenWorldTravelRequest ne g m s) routing_ok"
proof -
  have arrive: "after (DeliverOpenWorldTravel ne g nm tf (if warm then s' else travel_alert g msg dur s')) routing_ok"
    if "keeps s s'" for s' nm tf warm msg dur
    using that by (intro DeliverTravel_ok routing_keeps [OF _ ok]) (simp add: kept)
  have spawn: "after (case OpenWorldSpawn ne row s0 of Hung \<Rightarrow> Hung | Threw (_, s1) \<Rightarrow> Threw s1
      | Served (iid, s1) \<Rightarrow>
          let s2 = s1\<lparr>sv_spawning := removeAll nm (sv_spawning s1)\<rparr>
          in if iid = 0 then Served s2 else DeliverOpenWorldTravel ne g nm tf (if False then s2 else travel_alert g msg dur s2)) routing_ok"
    if "keeps s s0" for row s0 nm tf msg dur
  proof (cases "OpenWorldSpawn ne row s0")
    case (Served r)
    then obtain iid s1 where r: "OpenWorldSpawn ne row s0 = Served (iid, s1)" by (cases r) auto
    then have "keeps s s1" using OpenWorldSpawn_keeps [OF that, of ne row] by simp
    then have "keeps s (s1\<lparr>sv_spawning := removeAll nm (sv_spawning s1)\<rparr>)" by (simp add: kept)
    then show ?thesis using arrive [of _ nm tf False] routing_keeps [OF _ ok] by (simp add: r Let_def)
  qed (auto split: prod.split)
  show ?thesis
    unfolding OpenWorldTravelRequest_def Let_def
    using ok arrive [OF keeps_refl] arrive [OF keeps_refl, where warm = False, simplified] spawn [unfolded Let_def, OF keeps_other(5) [OF keeps_refl]]
    by (auto simp: kept intro: routing_keeps [OF _ ok] split: option.split)
qed

section \<open>Disconnecting and logging in\<close>

text \<open>
  A session is forgotten: its guid leaves the register, the store and the acknowledgements, and the
  session object loses it. The object may keep its timer, or lose it with the timer cancelled.
\<close>

lemma forgotten_ok:
  assumes ok: "routing_ok s" and c: "client_key s c = Some (g, a)" "g \<noteq> []"
    and k: "client_key s' = (client_key s)(c \<mapsto> ([], a'))" "a' = None \<or> a' = a"
    and m: "map_of (sv_acks s') = (map_of (sv_acks s))(g := None)" "map_of (sv_sessions s') = (map_of (sv_sessions s))(g := None)"
      "dom (map_of (sv_store s')) = dom (map_of (sv_store s)) - {g}"
    and t: "map_of (sv_timers s') = map_of (sv_timers s) \<or>
      (\<exists>t. a = Some t \<and> map_of (sv_timers s') = (map_of (sv_timers s))(t := None))"
    and p: "sv_next_timer s' = sv_next_timer s" "sv_next_client s' = sv_next_client s"
      "registry_grows (sv_registry s) (sv_registry s')" "team_world_ok (sv_team s')"
  shows "routing_ok s'"
proof -
  note ok' = ok [unfolded routing_ok_def]
  have ids: "registry_ok (sv_registry s')" "instance_ids (sv_registry s) \<subseteq> instance_ids (sv_registry s')"
    using p(3) ok' by (simp_all add: registry_grows_def)
  have "ack_ok s' h pk" if "map_of (sv_acks s') h = Some pk" for h pk
  proof -
    have h: "h \<noteq> g" "map_of (sv_acks s) h = Some pk" using that by (auto simp: m split: if_splits)
    have o: "ack_ok s h pk" by (rule ack_owner [OF ok h(2)])
    have d: "pk_client pk \<noteq> c" using o c h(1) by (auto simp: ack_ok_def)
    have "pk_timer pk \<noteq> t" if "a = Some t" for t
    proof
      assume e: "pk_timer pk = t"
      have "\<exists>kind. AckTimeout (pk_client pk) (pk_kind pk) = AckTimeout c kind"
        using o c(1) ok' that e unfolding timers_ok_def ack_ok_def by blast
      then show False using d by simp
    qed
    then show ?thesis using o d t ids(2) by (auto simp: ack_ok_def k)
  qed
  moreover have "timers_ok s'"
  proof -
    have t': "map_of (sv_timers s) t' = Some job" if "map_of (sv_timers s') t' = Some job" for t' job
      using t that by (auto split: if_splits)
    have k': "\<exists>h'. client_key s d = Some (h', Some t')" if "client_key s' d = Some (h, Some t')" for d h t'
      using that k c(1) by (cases "d = c") auto
    show ?thesis
      using ok' t' k' p(1) unfolding timers_ok_def by metis
  qed
  moreover have "sessions_ok s'"
    unfolding sessions_ok_def
  proof (intro conjI allI)
    fix h d
    have old: "map_of (sv_sessions s) h = Some d \<longleftrightarrow> h \<noteq> [] \<and> (\<exists>t. client_key s d = Some (h, t))"
      using ok' by (simp add: sessions_ok_def)
    have g: "map_of (sv_sessions s) g = Some c" using ok' c unfolding sessions_ok_def by blast
    show "map_of (sv_sessions s') h = Some d \<longleftrightarrow> h \<noteq> [] \<and> (\<exists>t. client_key s' d = Some (h, t))"
      using old g c(1) by (cases "d = c"; cases "h = g") (auto simp: m k)
  qed (use ok' c(1) in \<open>auto simp: sessions_ok_def m k p\<close>)
  ultimately show ?thesis using ids(1) p(4) by (simp add: routing_ok_def acks_ok_def)
qed

lemma keeps_finalize [kept]: "keeps a s \<Longrightarrow> keeps a (finalize_row c cl s)"
  by (simp add: finalize_row_def kept)

lemma keeps_close_side [kept]: "keeps a s \<Longrightarrow> keeps a (close_instance_side ne c cl s)"
  by (simp add: close_instance_side_def Let_def kept table_steps)

lemma no_empty_ack: "routing_ok s \<Longrightarrow> map_of (sv_acks s) [] = None"
  using ack_owner [of s "[]"] by (cases "map_of (sv_acks s) []") (auto simp: ack_ok_def)

lemma clear_empty: "routing_ok s \<Longrightarrow> ClearPendingAck [] (cancel t s) = cancel t s"
  using no_empty_ack [of s] by (simp add: ClearPendingAck_def cancel_def delete_id map_of_eq_None_iff)

lemma disconnect_ok:
  assumes ok: "routing_ok s"
  shows "routing_ok (handle_socket_disconnect ne c s)"
    and "client_key (handle_socket_disconnect ne c s) =
      (case client_key s c of None \<Rightarrow> client_key s | Some _ \<Rightarrow> (client_key s)(c \<mapsto> ([], None)))"
proof -
  have "routing_ok (handle_socket_disconnect ne c s) \<and> client_key (handle_socket_disconnect ne c s) =
      (case client_key s c of None \<Rightarrow> client_key s | Some _ \<Rightarrow> (client_key s)(c \<mapsto> ([], None)))"
proof (cases "map_of (sv_clients s) c")
  case None
  then show ?thesis using ok by (simp add: handle_socket_disconnect_def client_key_def)
next
  case (Some cl)
  have c0: "client_key s c = Some (cl_guid cl, cl_ack_timer cl)" by (simp add: client_key_def Some)
  define s1 where "s1 = finalize_row c cl s"
  define s2 where "s2 = (case cl_ack_timer cl of None \<Rightarrow> s1
    | Some t \<Rightarrow> on_client c (\<lambda>cl. cl\<lparr>cl_ack_timer := None\<rparr>) (cancel t s1))"
  have k1: "keeps s s1" by (simp add: s1_def kept)
  have ok1: "routing_ok s1" by (rule routing_keeps [OF k1 ok])
  have c1: "client_key s1 c = Some (cl_guid cl, cl_ack_timer cl)"
    using k1 by (simp add: keeps_def) (simp add: client_key_def Some)
  then obtain cl1 where cl1: "map_of (sv_clients s1) c = Some cl1" "cl_guid cl1 = cl_guid cl" "cl_ack_timer cl1 = cl_ack_timer cl"
    by (auto simp: client_key_def)
  have k2: "client_key s2 = (client_key s1)(c \<mapsto> (cl_guid cl, None))"
    "map_of (sv_timers s2) = (case cl_ack_timer cl of None \<Rightarrow> map_of (sv_timers s1) | Some t \<Rightarrow> (map_of (sv_timers s1))(t := None))"
    "sv_acks s2 = sv_acks s1" "sv_sessions s2 = sv_sessions s1" "sv_store s2 = sv_store s1" "sv_team s2 = sv_team s1"
    "sv_next_timer s2 = sv_next_timer s1" "sv_next_client s2 = sv_next_client s1"
    using cl1 c1
    by (auto simp: s2_def client_key_on_client cancel_def delete_conv' fun_eq_iff split: option.split)
      (simp_all add: client_key_def)
  show ?thesis
  proof (cases "cl_guid cl = []")
    case True
    have "routing_ok s2"
    proof (cases "cl_ack_timer cl")
      case None
      then show ?thesis using ok1 by (simp add: s2_def)
    next
      case (Some t)
      have "routing_ok (cancel t s1)"
        using cancel_own_ok [OF ok1, of c "[]" t] c1 True Some clear_empty [OF ok1] by simp
      then have "routing_ok (on_client c (\<lambda>cl. cl\<lparr>cl_ack_timer := None\<rparr>) (cancel t s1))"
        by (rule drop_timer_ok [of _ c "[]" "Some t"])
          (use c1 True Some cl1 no_empty_ack [OF ok1] in \<open>simp_all add: client_key_on_client, simp add: cancel_def\<close>)
      then show ?thesis by (simp add: s2_def Some)
    qed
    moreover have "client_key s2 = (client_key s)(c \<mapsto> ([], None))" using k1 k2(1) True by (simp add: keeps_def)
    ultimately show ?thesis
      using True c0 by (simp add: handle_socket_disconnect_def Some s1_def [symmetric] s2_def [symmetric] Let_def)
  next
    case False
    let ?g = "cl_guid cl"
    define s3 where "s3 = close_instance_side ne c cl s2"
    define s4 where "s4 = on_world (RemovePlayer (match_env ne s3) ?g) s3"
    define s5 where "s5 = on_team (HandleDisconnect (team_env ne s4) ?g) s4"
    have k5: "keeps s2 s5" by (simp add: s5_def s4_def s3_def kept)
    let ?f = "on_client c (\<lambda>cl. cl\<lparr>cl_guid := []\<rparr>) (StoreUnregister ?g (ClearPendingAck ?g (UnregisterSession ?g s5)))"
    have e: "handle_socket_disconnect ne c s = ?f"
      using False by (simp add: handle_socket_disconnect_def Some s1_def [symmetric] s2_def [symmetric] Let_def
          forget_session_def s3_def [symmetric] s4_def [symmetric] s5_def [symmetric])
    have q: "client_key s5 = client_key s2" "map_of (sv_sessions s5) = map_of (sv_sessions s2)"
      "dom (map_of (sv_store s5)) = dom (map_of (sv_store s2))" "sv_acks s5 = sv_acks s2" "sv_timers s5 = sv_timers s2"
      "sv_next_timer s5 = sv_next_timer s2" "sv_next_client s5 = sv_next_client s2"
      "registry_grows (sv_registry s2) (sv_registry s5)" "team_world_ok (sv_team s2) \<longrightarrow> team_world_ok (sv_team s5)"
      using k5 by (simp_all add: keeps_def)
    obtain cl5 where cl5: "map_of (sv_clients s5) c = Some cl5" "cl_guid cl5 = ?g" "cl_ack_timer cl5 = None"
    proof -
      have "client_key s5 c = Some (?g, None)" by (simp add: q k2)
      then show thesis using that by (auto simp: client_key_def)
    qed
    let ?s' = "StoreUnregister ?g (ClearPendingAck ?g (UnregisterSession ?g s5))"
    have r: "sv_team ?s' = sv_team s5" "sv_clients ?s' = sv_clients s5" "client_key ?s' = client_key s5"
      "map_of (sv_acks ?s') = (map_of (sv_acks s5))(?g := None)" "map_of (sv_sessions ?s') = (map_of (sv_sessions s5))(?g := None)"
      "dom (map_of (sv_store ?s')) = dom (map_of (sv_store s5)) - {?g}" "sv_timers ?s' = sv_timers s5"
      "sv_next_timer ?s' = sv_next_timer s5" "sv_next_client ?s' = sv_next_client s5"
      by (simp_all add: StoreUnregister_def ClearPendingAck_def UnregisterSession_def client_key_def delete_conv')
    have f: "client_key ?f = (client_key s1)(c \<mapsto> ([], None))"
      using cl5 by (simp add: client_key_on_client r q k2)
    have "routing_ok ?f"
    proof (rule forgotten_ok [OF ok1 c1 False f])
      show "dom (map_of (sv_store ?f)) = dom (map_of (sv_store s1)) - {?g}"
        by (simp only: on_client_store r q k2)
      show "map_of (sv_timers ?f) = map_of (sv_timers s1) \<or>
          (\<exists>t. cl_ack_timer cl = Some t \<and> map_of (sv_timers ?f) = (map_of (sv_timers s1))(t := None))"
        by (cases "cl_ack_timer cl") (simp_all add: r q k2)
    qed (use ok1 q(8) [unfolded k2] in \<open>simp_all add: r q k2 routing_ok_def\<close>)
    moreover have "client_key s1 = client_key s" using k1 by (simp add: keeps_def)
    ultimately show ?thesis using f c0 by (simp add: e)
  qed
qed
  then show "routing_ok (handle_socket_disconnect ne c s)" "client_key (handle_socket_disconnect ne c s) =
      (case client_key s c of None \<Rightarrow> client_key s | Some _ \<Rightarrow> (client_key s)(c \<mapsto> ([], None)))" by simp_all
qed

lemma session_key:
  assumes "routing_ok s" "session_of g s = Some (c, cl)"
  shows "map_of (sv_clients s) c = Some cl" "cl_guid cl = g" "g \<noteq> []" "map_of (sv_sessions s) g = Some c"
proof -
  show 1: "map_of (sv_clients s) c = Some cl" "map_of (sv_sessions s) g = Some c"
    using assms(2) by (auto simp: session_of_def split: option.splits)
  then have "g \<noteq> [] \<and> (\<exists>t. client_key s c = Some (g, t))" using assms(1) unfolding routing_ok_def sessions_ok_def by blast
  then show "cl_guid cl = g" "g \<noteq> []" using 1 by (auto simp: client_key_def)
qed

lemma no_session:
  assumes "routing_ok s" "session_of g s = None"
  shows "map_of (sv_sessions s) g = None" "map_of (sv_store s) g = None"
proof -
  show 1: "map_of (sv_sessions s) g = None"
  proof (rule ccontr)
    assume "map_of (sv_sessions s) g \<noteq> None"
    then obtain c where c: "map_of (sv_sessions s) g = Some c" by blast
    then obtain t where "client_key s c = Some (g, t)" using assms(1) unfolding routing_ok_def sessions_ok_def by blast
    then show False using assms(2) c by (auto simp: session_of_def client_key_def)
  qed
  moreover have "dom (map_of (sv_store s)) = dom (map_of (sv_sessions s))"
    using assms(1) by (simp add: routing_ok_def sessions_ok_def)
  ultimately show "map_of (sv_store s) g = None" by (metis domIff)
qed

lemma keeps_unregister:
  "keeps a s \<Longrightarrow> map_of (sv_sessions s) g = None \<Longrightarrow> keeps a (UnregisterSession g s)"
  "keeps a s \<Longrightarrow> map_of (sv_store s) g = None \<Longrightarrow> keeps a (StoreUnregister g s)"
  by (auto elim!: calm.frame_trans simp: keeps_def UnregisterSession_def StoreUnregister_def client_key_def delete_conv' fun_upd_idem)

lemma disconnect_store_of:
  assumes "map_of (sv_clients s) c = Some cl" "cl_guid cl \<noteq> []"
  shows "sv_store (handle_socket_disconnect ne c s) = umap_erase (cl_guid cl) (sv_store s)"
  using assms by (simp add: handle_socket_disconnect_def Let_def split: option.split)

text \<open>No client gets a guid.\<close>

definition guids_shrink :: "Server \<Rightarrow> Server \<Rightarrow> bool" where
  "guids_shrink s s' \<longleftrightarrow> (\<forall>c. client_key s' c = client_key s c \<or> (\<exists>g t. client_key s c = Some (g, t) \<and> g \<noteq> []) \<and> client_key s' c = Some ([], None))"

lemma guids_shrink_trans: "guids_shrink a b \<Longrightarrow> guids_shrink b c \<Longrightarrow> guids_shrink a c"
  unfolding guids_shrink_def by (metis option.inject prod.inject)

lemma evict_ok:
  assumes ok: "routing_ok s"
  shows "routing_ok (EvictStaleSession ne g s)" "guids_shrink s (EvictStaleSession ne g s)"
proof -
  have "routing_ok (EvictStaleSession ne g s) \<and> guids_shrink s (EvictStaleSession ne g s)"
  proof (cases "session_of g s")
    case None
    define s1 where "s1 = on_world (RemovePlayer (match_env ne s) g) s"
    define s2 where "s2 = on_team (HandleDisconnect (team_env ne s1) g) s1"
    have k2: "keeps s s2" by (simp add: s2_def s1_def kept)
    then have ok2: "routing_ok s2" by (rule routing_keeps [OF _ ok])
    note n = no_session [OF ok None]
    have n2: "map_of (sv_sessions s2) g = None" "map_of (sv_store s2) g = None"
      using k2 n unfolding keeps_def by (simp, metis domIff)
    have u: "keeps s2 (UnregisterSession g s2)" by (rule keeps_unregister(1) [OF keeps_refl n2(1)])
    let ?s3 = "ClearPendingAck g (UnregisterSession g s2)"
    have ok3: "routing_ok ?s3" by (rule clear_ok [OF routing_keeps [OF u ok2]])
    have k3: "keeps ?s3 (StoreUnregister g ?s3)"
      using n2(2) by (intro keeps_unregister(2) keeps_refl) (simp add: UnregisterSession_def)
    have "client_key (StoreUnregister g ?s3) = client_key s"
      using k2 u k3 by (simp add: keeps_def)
    then show ?thesis
      using routing_keeps [OF k3 ok3] None
      by (simp add: EvictStaleSession_def s1_def [symmetric] s2_def [symmetric] Let_def guids_shrink_def)
  next
    case (Some x)
    obtain c cl where x: "x = (c, cl)" by force
    note k = session_key [OF ok Some [unfolded x]]
    let ?s1 = "handle_socket_disconnect ne c s"
    have ok1: "routing_ok ?s1" by (rule disconnect_ok(1) [OF ok])
    have "map_of (sv_store ?s1) g = None" using disconnect_store_of [OF k(1)] k(2,3) by simp
    then have k1: "keeps ?s1 (StoreUnregister g (emit (CloseSocket c) ?s1))"
      by (intro keeps_unregister(2) kept) simp_all
    have "client_key (StoreUnregister g (emit (CloseSocket c) ?s1)) = (client_key s)(c \<mapsto> ([], None))"
      using k1 disconnect_ok(2) [OF ok, of ne c] k(1) by (simp add: keeps_def client_key_def)
    then have "guids_shrink s (StoreUnregister g (emit (CloseSocket c) ?s1))"
      using k(1-3) by (auto simp: guids_shrink_def client_key_def)
    then show ?thesis
      using routing_keeps [OF k1 ok1] Some x by (simp add: EvictStaleSession_def)
  qed
  then show "routing_ok (EvictStaleSession ne g s)" "guids_shrink s (EvictStaleSession ne g s)" by simp_all
qed

lemma takeover_ok: "routing_ok s \<Longrightarrow> routing_ok (takeover ne name s) \<and> guids_shrink s (takeover ne name s)"
proof (induction ne name s rule: takeover.induct)
  case (1 ne name s)
  show ?case
  proof (cases "GetByPlayerName name s")
    case None
    then show ?thesis using 1 by (simp add: takeover.simps [of ne name s] guids_shrink_def)
  next
    case (Some x)
    obtain g i where x: "x = (g, i)" by force
    let ?s1 = "EvictStaleSession ne g s"
    have "routing_ok (takeover ne name ?s1) \<and> guids_shrink ?s1 (takeover ne name ?s1)"
      using 1 Some x evict_ok(1) by blast
    then show ?thesis
      using Some x guids_shrink_trans [OF evict_ok(2) [OF 1(2)]] by (subst (1 2) takeover.simps) (simp, blast)
  qed
qed

lemma logged_in_ok:
  assumes ok: "routing_ok s" and c: "client_key s c = Some ([], a)" and g: "g \<noteq> []" "\<And>d t. client_key s d \<noteq> Some (g, t)"
    and k: "client_key s' = (client_key s)(c \<mapsto> (g, a))"
    and m: "sv_acks s' = sv_acks s" "map_of (sv_sessions s') = (map_of (sv_sessions s))(g \<mapsto> c)"
      "dom (map_of (sv_store s')) = insert g (dom (map_of (sv_store s)))" "sv_timers s' = sv_timers s"
    and p: "sv_next_timer s' = sv_next_timer s" "sv_next_client s' = sv_next_client s" "sv_team s' = sv_team s"
  shows "routing_ok s'"
proof -
  note ok' = ok [unfolded routing_ok_def]
  have "ack_ok s' h pk" if "map_of (sv_acks s) h = Some pk" for h pk
  proof -
    have o: "ack_ok s h pk" by (rule ack_owner [OF ok that])
    then have "pk_client pk \<noteq> c" using c by (auto simp: ack_ok_def)
    then show ?thesis using o by (simp add: ack_ok_def k m p)
  qed
  moreover have "timers_ok s'"
  proof -
    have "\<exists>h'. client_key s d = Some (h', Some t)" if "client_key s' d = Some (h, Some t)" for d h t
      using that k c by (cases "d = c") auto
    then show ?thesis using ok' p m(4) unfolding timers_ok_def by metis
  qed
  moreover have "sessions_ok s'"
    unfolding sessions_ok_def
  proof (intro conjI allI)
    fix h d
    have "map_of (sv_sessions s) h = Some d \<longleftrightarrow> h \<noteq> [] \<and> (\<exists>t. client_key s d = Some (h, t))"
      using ok' by (simp add: sessions_ok_def)
    then show "map_of (sv_sessions s') h = Some d \<longleftrightarrow> h \<noteq> [] \<and> (\<exists>t. client_key s' d = Some (h, t))"
      using g c by (cases "d = c"; cases "h = g") (auto simp: m k)
  qed (use ok' c in \<open>auto simp: sessions_ok_def m k p\<close>)
  ultimately show ?thesis using ok' by (simp add: routing_ok_def acks_ok_def m p)
qed

lemma CompleteLogin_ok:
  assumes ok: "routing_ok s" and c: "client_key s c = Some ([], a)" and g: "g \<noteq> []" "map_of (sv_sessions s) g = None"
  shows "after (CompleteLogin ne c name user_id g row s) routing_ok"
proof -
  define s1 where "s1 = (if ne_allow_duplicate_logins ne then s else takeover ne name s)"
  have t: "routing_ok s1" "guids_shrink s s1"
    using takeover_ok [OF ok, of ne name] ok by (auto simp: s1_def guids_shrink_def)
  have c1: "client_key s1 c = Some ([], a)" using t(2) c unfolding guids_shrink_def by (auto dest: spec [of _ c])
  have "client_key s d \<noteq> Some (g, t)" for d t
  proof
    assume "client_key s d = Some (g, t)"
    then have "map_of (sv_sessions s) g = Some d" using ok g(1) unfolding routing_ok_def sessions_ok_def by blast
    then show False using g(2) by simp
  qed
  then have g1: "client_key s1 d \<noteq> Some (g, t)" for d t
    using t(2) g(1) unfolding guids_shrink_def by (auto dest: spec [of _ d])
  define s4 where "s4 = (let s3 = on_client c (\<lambda>cl. cl\<lparr>cl_guid := g, cl_player_name := name, cl_user_id := user_id, cl_session_row := row\<rparr>)
      (s1\<lparr>sv_sessions := umap_put g c (sv_sessions s1)\<rparr>)
    in s3\<lparr>sv_store := umap_put g \<lparr>se_guid = g, se_player_name = name, se_user_id = user_id,
         se_character_id = 0, se_profile_id = 0\<rparr> (sv_store s3)\<rparr>)"
  obtain cl where cl: "map_of (sv_clients s1) c = Some cl" "cl_guid cl = []" "cl_ack_timer cl = a"
    using c1 by (auto simp: client_key_def)
  have "routing_ok s4"
    by (rule logged_in_ok [OF t(1) c1 g(1) g1])
      (simp_all add: s4_def Let_def client_key_def on_client_def cl fun_eq_iff update_conv')
  then have "after (EnsureHomeMapWarm ne s4) routing_ok"
    by (rule after_keeps [OF EnsureHomeMapWarm_keeps [OF keeps_refl]])
  then have "after (EnsureHomeMapWarm ne s4) (\<lambda>s5. after (Served (emit (ToClient c LoginResponse) s5)) routing_ok)"
    by (rule after_mono) (simp add: routing_keeps [OF keeps_other(1) [OF keeps_refl]])
  then show ?thesis
    by (simp add: CompleteLogin_def s1_def [symmetric] Let_def s4_def after_and_then)
qed

lemma ReplacePrior_ok:
  assumes ok: "routing_ok s"
  shows "routing_ok (ReplacePriorSession ne c s)"
    and "client_key s c \<noteq> None \<Longrightarrow> \<exists>a. client_key (ReplacePriorSession ne c s) c = Some ([], a)"
    and "map_of (sv_sessions s) g = None \<Longrightarrow> map_of (sv_sessions (ReplacePriorSession ne c s)) g = None"
proof -
  have "routing_ok (ReplacePriorSession ne c s) \<and>
    (client_key s c \<noteq> None \<longrightarrow> (\<exists>a. client_key (ReplacePriorSession ne c s) c = Some ([], a))) \<and>
    (map_of (sv_sessions s) g = None \<longrightarrow> map_of (sv_sessions (ReplacePriorSession ne c s)) g = None)"
  proof (cases "map_of (sv_clients s) c")
    case None
    then show ?thesis using ok by (simp add: ReplacePriorSession_def client_key_def)
  next
    case (Some cl)
    show ?thesis
    proof (cases "cl_guid cl = []")
      case True
      then show ?thesis using ok Some by (simp add: ReplacePriorSession_def client_key_def)
    next
      case False
      let ?g = "cl_guid cl"
      define s1 where "s1 = on_world (RemovePlayer (match_env ne s) ?g) (finalize_row c cl s)"
      define s2 where "s2 = on_team (HandleVoluntaryExit (team_env ne s1) ?g) s1"
      have k2: "keeps s s2" by (simp add: s2_def s1_def kept)
      have ok2: "routing_ok s2" by (rule routing_keeps [OF k2 ok])
      have c2: "client_key s2 c = Some (?g, cl_ack_timer cl)"
        using k2 by (simp add: keeps_def) (simp add: client_key_def Some)
      then obtain cl2 where cl2: "map_of (sv_clients s2) c = Some cl2" "cl_ack_timer cl2 = cl_ack_timer cl"
        by (auto simp: client_key_def)
      define s3 where "s3 = on_client c (\<lambda>cl. cl\<lparr>cl_guid := [], cl_user_id := 0, cl_character_id := 0, cl_profile_id := 0,
          cl_assigned := 0, cl_current_queue := 0, cl_pending_instance := 0, cl_pending_mode := [], cl_pending_tf := 1\<rparr>)
        (StoreUnregister ?g (ClearPendingAck ?g (UnregisterSession ?g s2)))"
      have e: "ReplacePriorSession ne c s = s3"
        using False by (simp add: ReplacePriorSession_def Some Let_def s1_def [symmetric] s2_def [symmetric] s3_def [symmetric])
      have k3: "client_key s3 = (client_key s2)(c \<mapsto> ([], cl_ack_timer cl))"
        using cl2 by (simp add: s3_def client_key_on_client StoreUnregister_def ClearPendingAck_def UnregisterSession_def)
          (simp add: client_key_def)
      have "routing_ok s3"
        by (rule forgotten_ok [OF ok2 c2 False k3])
          (use ok2 in \<open>simp_all add: s3_def StoreUnregister_def ClearPendingAck_def UnregisterSession_def delete_conv' routing_ok_def\<close>)
      moreover have "map_of (sv_sessions s3) g = None" if "map_of (sv_sessions s) g = None"
        using that k2 by (simp add: s3_def StoreUnregister_def ClearPendingAck_def UnregisterSession_def keeps_def)
      ultimately show ?thesis by (simp add: e k3)
    qed
  qed
  then show "routing_ok (ReplacePriorSession ne c s)"
    "client_key s c \<noteq> None \<Longrightarrow> \<exists>a. client_key (ReplacePriorSession ne c s) c = Some ([], a)"
    "map_of (sv_sessions s) g = None \<Longrightarrow> map_of (sv_sessions (ReplacePriorSession ne c s)) g = None" by simp_all
qed

lemma OpenClient_ok:
  assumes "routing_ok s"
  shows "routing_ok (OpenClient s)"
proof -
  let ?c = "sv_next_client s"
  have none: "client_key s ?c = None"
    using assms unfolding routing_ok_def sessions_ok_def by (cases "client_key s ?c") blast+
  have k: "client_key (OpenClient s) = (client_key s)(?c \<mapsto> ([], None))"
    and p: "sv_team (OpenClient s) = sv_team s" "sv_sessions (OpenClient s) = sv_sessions s" "sv_store (OpenClient s) = sv_store s"
      "sv_acks (OpenClient s) = sv_acks s" "sv_timers (OpenClient s) = sv_timers s"
      "sv_next_timer (OpenClient s) = sv_next_timer s" "sv_next_client (OpenClient s) = Suc ?c"
    by (simp_all add: OpenClient_def client_key_def new_client_def fun_eq_iff)
  have "ack_ok (OpenClient s) g pk" if "map_of (sv_acks s) g = Some pk" for g pk
    using ack_owner [OF assms that] none by (auto simp: ack_ok_def k p)
  moreover have "timers_ok (OpenClient s)" using assms by (auto simp: routing_ok_def timers_ok_def k p split: if_splits)
  moreover have "sessions_ok (OpenClient s)"
    unfolding sessions_ok_def
  proof (intro conjI allI impI)
    fix h d
    show "map_of (sv_sessions (OpenClient s)) h = Some d \<longleftrightarrow> h \<noteq> [] \<and> (\<exists>t. client_key (OpenClient s) d = Some (h, t))"
      using assms none by (cases "d = ?c") (auto simp: routing_ok_def sessions_ok_def k p)
    show "d < sv_next_client (OpenClient s)" if "client_key (OpenClient s) d \<noteq> None"
      using that assms by (cases "d = ?c") (auto simp: routing_ok_def sessions_ok_def k p less_Suc_eq)
  qed (use assms in \<open>simp add: routing_ok_def sessions_ok_def p\<close>)
  ultimately show ?thesis using assms by (simp add: routing_ok_def acks_ok_def p)
qed

lemma keeps_store_put:
  "keeps a s \<Longrightarrow> map_of (sv_store s) g \<noteq> None \<Longrightarrow> keeps a (s\<lparr>sv_store := umap_put g x (sv_store s)\<rparr>)"
  by (erule calm.frame_trans) (auto simp: keeps_def client_key_def update_conv')

definition pick_character :: "nat \<Rightarrow> Client \<Rightarrow> CharacterInfo option \<Rightarrow> Server \<Rightarrow> Server" where
  "pick_character c cl chosen s = (case chosen of None \<Rightarrow> s
     | Some i \<Rightarrow>
         let s' = on_client c (\<lambda>cl. cl\<lparr>cl_character_id := ci_id i, cl_profile_id := ci_profile_id i\<rparr>) s
         in (case map_of (sv_store s') (cl_guid cl) of
               None \<Rightarrow> s'
             | Some info \<Rightarrow> s'\<lparr>sv_store := umap_put (cl_guid cl)
                 (info\<lparr>se_character_id := ci_id i, se_profile_id := ci_profile_id i\<rparr>) (sv_store s')\<rparr>))"

lemma keeps_pick [kept]: "keeps a s \<Longrightarrow> keeps a (pick_character c cl chosen s)"
proof (cases chosen)
  case (Some i)
  define s' where "s' = on_client c (\<lambda>cl. cl\<lparr>cl_character_id := ci_id i, cl_profile_id := ci_profile_id i\<rparr>) s"
  assume "keeps a s"
  then have "keeps a s'" by (simp add: s'_def kept)
  then show ?thesis
    unfolding Some pick_character_def Let_def option.case s'_def [symmetric]
    by (auto split: option.split intro: keeps_store_put)
qed (simp add: pick_character_def)

lemma select_ok:
  assumes "routing_ok s"
  shows "after (select_character ne c i s) routing_ok"
proof (cases "map_of (sv_clients s) c")
  case (Some cl)
  have "select_character ne c i s = wait_for_home_map_then_register ne c 120 (emit (ToClient c SelectCharacterResponse)
     (pick_character c cl (if i = 0 then None else (case ne_character ne i of None \<Rightarrow> None
       | Some x \<Rightarrow> if ci_user_id x = cl_user_id cl \<and> ci_deleted_at x = 0 then Some x else None)) s))"
    by (simp add: select_character_def Some pick_character_def Let_def)
  moreover have "routing_ok (emit x (pick_character c cl chosen s))" for x chosen
    by (rule routing_keeps [OF _ assms]) (simp add: kept)
  ultimately show ?thesis by (simp add: wait_home_ok)
qed (simp add: select_character_def assms)

section \<open>Timers\<close>

lemma cancel_other_ok:
  assumes "routing_ok s" "map_of (sv_timers s) t = Some job" "\<And>c kind. job \<noteq> AckTimeout c kind"
  shows "routing_ok (cancel t s)"
  by (rule cancel_orphan_ok [OF assms(1,2)]) (use assms(3) in blast)

lemma FireTimer_ok:
  assumes "routing_ok s"
  shows "after (FireTimer ne t s) routing_ok"
proof (cases "map_of (sv_timers s) t")
  case None
  then show ?thesis using assms by (simp add: FireTimer_def)
next
  case (Some job)
  have other: "routing_ok (cancel t s)" if "\<And>c kind. job \<noteq> AckTimeout c kind"
    by (rule cancel_other_ok [OF assms Some that])
  show ?thesis
    by (cases job)
      (use other ack_timeout_ok [OF assms] Some in
        \<open>simp_all add: FireTimer_def wait_home_ok travel_ok ForceExitFired_ok del: ack_timeout.simps\<close>)
qed

end
