(* ===== verification/QueueSession.thy ===== *)
theory QueueSession
  imports PlayerRouting TicketInfo
begin

text \<open>
  The match queue as a session sees it (\<open>TcpSession/TcpSession.cpp\<close>): \<open>MATCH_JOIN\<close> alone or as the
  leader of a team, \<open>MATCH_LEAVE\<close>. The handlers start after the packet has been read. The
  difficulty override the session store hands over and zeroes, and the account's solo-mode preference,
  are arguments; the notices to the chat connection are not part of the state.
\<close>

definition MSG_QUEUE_LEADER_ONLY :: u32 where "MSG_QUEUE_LEADER_ONLY = 18305"
definition MSG_TEAM_TOO_LARGE :: u32 where "MSG_TEAM_TOO_LARGE = 22972"

section \<open>Joining\<close>

definition queue_name_msg :: "QueueConfig option \<Rightarrow> u32" where
  "queue_name_msg cfg = (case cfg of None \<Rightarrow> 0 | Some q \<Rightarrow> qc_name_msg_id q)"

definition joining_player :: "ServerEnv \<Rightarrow> Client \<Rightarrow> DifficultyScalar \<Rightarrow> bool \<Rightarrow> QueuedPlayer" where
  \<comment> \<open>the fields that are not set keep their initialisers\<close>
  "joining_player ne cl override solo =
     \<lparr>qp_session_guid = cl_guid cl, qp_profile_id = cl_profile_id cl, qp_user_id = cl_user_id cl, qp_mmr = 1000,
      qp_solo_lock = solo, qp_fairness = fresh_FairnessStats, qp_installed_dlcs = [],
      qp_joined_at = ev_steady_now (en_match (ne_team ne)), qp_difficulty_override = override\<rparr>"

definition send_match_join_response ::
  "nat \<Rightarrow> ServerEnv \<Rightarrow> nat \<Rightarrow> u32 \<Rightarrow> DifficultyScalar \<Rightarrow> bool \<Rightarrow> Server \<Rightarrow> Server served" where
  "send_match_join_response n ne c queue_id override solo s =
     (case map_of (sv_clients s) c of
        None \<Rightarrow> Served s
      | Some cl \<Rightarrow>
          let cfg = GetQueueConfig queue_id (sv_world s)
          in if (case cfg of None \<Rightarrow> False
                 | Some q \<Rightarrow> \<not> QueuePlayableWithDlc q (ev_dlcs (en_match (ne_team ne)) (cl_user_id cl)))
             then Served s
             else
               let s1 = on_client c (\<lambda>cl. cl\<lparr>cl_current_queue := queue_id\<rparr>) s
               in and_then (run_world (\<lambda>w. fst (AddPlayer (en_hash (ne_team ne)) n (match_env ne s1) queue_id
                                                  (joining_player ne cl override solo) w)) s1)
                    (\<lambda>s2. Served (emit (ToClient c (TeamSystemMessageFrame MSG_JOINED_QUEUE []))
                                    (emit (ToClient c (MatchQueueStatusFrame queue_id (queue_name_msg cfg))) (settle s2)))))"

definition team_dlc_locked :: "ServerEnv \<Rightarrow> QueueConfig \<Rightarrow> QueuedParty \<Rightarrow> bool" where
  \<comment> \<open>no map of the pool that every member owns\<close>
  "team_dlc_locked ne cfg party \<longleftrightarrow>
     qc_map_pool cfg \<noteq> [] \<and>
     \<not> list_ex (\<lambda>e. list_all (\<lambda>m. EntryPlayableWith e (ev_dlcs (en_match (ne_team ne)) (qp_user_id m))) (pt_members party))
         (qc_map_pool cfg)"

definition team_join :: "nat \<Rightarrow> ServerEnv \<Rightarrow> nat \<Rightarrow> u32 \<Rightarrow> QueuedParty \<Rightarrow> Server \<Rightarrow> Server served" where
  \<comment> \<open>the checks on the party, then the queue and the notice to the team\<close>
  "team_join n ne c queue_id party s =
     (let cfg = GetQueueConfig queue_id (sv_world s)
      in if (case cfg of None \<Rightarrow> False | Some q \<Rightarrow> team_dlc_locked ne q party \<or> qc_team_policy q = Block) then Served s
         else if (case cfg of None \<Rightarrow> False | Some q \<Rightarrow> length (pt_members party) > unat (MaxTeamSize q))
         then Served (emit (ToClient c (TeamSystemMessageFrame MSG_TEAM_TOO_LARGE [])) s)
         else and_then (run_world (AddParty n (match_env ne s) queue_id party) s)
                (\<lambda>s1. Served (on_team (NotifyTeamQueued (pt_party_id party) queue_id (queue_name_msg cfg)) (settle s1))))"

definition match_join ::
  "nat \<Rightarrow> ServerEnv \<Rightarrow> nat \<Rightarrow> u32 \<Rightarrow> DifficultyScalar \<Rightarrow> bool \<Rightarrow> Server \<Rightarrow> Server served" where
  "match_join n ne c queue_id override solo s =
     (case map_of (sv_clients s) c of
        None \<Rightarrow> Served s
      | Some cl \<Rightarrow>
          if \<not> IsTeamed (cl_guid cl) (sv_team s) then send_match_join_response n ne c queue_id override solo s
          else if \<not> IsLeader (cl_guid cl) (sv_team s)
          then Served (emit (ToClient c (TeamSystemMessageFrame MSG_QUEUE_LEADER_ONLY [])) s)
          else (case BuildParty (team_env ne s) (cl_guid cl) (sv_team s) of
                  (None, tw) \<Rightarrow> Served (s\<lparr>sv_team := tw\<rparr>)
                | (Some party, tw) \<Rightarrow> team_join n ne c queue_id party (s\<lparr>sv_team := tw\<rparr>)))"

section \<open>Leaving\<close>

definition match_leave :: "ServerEnv \<Rightarrow> nat \<Rightarrow> Server \<Rightarrow> Server" where
  "match_leave ne c s =
     (case map_of (sv_clients s) c of
        None \<Rightarrow> s
      | Some cl \<Rightarrow>
          if \<not> IsTeamed (cl_guid cl) (sv_team s) then send_match_leave_response ne c s
          else if \<not> IsLeader (cl_guid cl) (sv_team s)
          then emit (ToClient c (TeamSystemMessageFrame MSG_QUEUE_LEADER_ONLY [])) s
          else on_team (DequeueForCompositionChange (team_env ne s) (cl_guid cl)) s)"

end
