(* ===== verification/ServerInvariant.thy ===== *)
theory ServerInvariant
  imports RoutingInvariant QueueSession
begin

text \<open>
  Every message of a game server, every handler of a player session, every timer and the maintenance
  keep \<open>routing_ok\<close>. Most of them only are \<open>keeps\<close> steps; the others are in \<open>RoutingInvariant\<close>.
\<close>

section \<open>Frames of the handlers of a connection\<close>

lemma after_if: "(b \<Longrightarrow> after x P) \<Longrightarrow> (\<not> b \<Longrightarrow> after y P) \<Longrightarrow> after (if b then x else y) P"
  by simp

lemma after_step: "after r (keeps s') \<Longrightarrow> keeps s s' \<Longrightarrow> after r (keeps s)"
  by (erule after_mono) (rule calm.frame_trans)

lemma keeps_on_conn [kept]: "keeps a s \<Longrightarrow> keeps a (on_conn c f s)"
  by (simp add: on_conn_def kept split: option.split)

lemma keeps_OpenConn [kept]: "keeps a s \<Longrightarrow> keeps a (OpenConn s)"
  by (erule calm.frame_trans) (simp add: keeps_def OpenConn_def client_key_def)

lemma keeps_death_counts [kept]: "keeps a s \<Longrightarrow> keeps a (SetInstanceDeathCounts i x y s)"
  by (erule calm.frame_trans) (simp add: SetInstanceDeathCounts_def keeps_def client_key_def)

lemma keeps_on_disconnect: "keeps s (on_disconnect ne c s)"
  unfolding on_disconnect_def Let_def by (auto intro!: kept simp: table_steps)

lemma hello_keeps: "after (handle_hello ne c j s) (keeps s)"
  unfolding handle_hello_def Let_def by (auto intro!: after_or_throw kept)

lemma Track_registry [simp]:
  "w_registry (TrackReadyMatchReservations ev i q gm gs tfs ps ms cap w) = w_registry w"
  by (simp add: TrackReadyMatchReservations_def Let_def split: option.split)

lemma Consume_registry [simp]: "w_registry (snd (ConsumePendingMatch ev i w)) = w_registry w"
  by (simp add: ConsumePendingMatch_def split: option.split)

lemma invite_keeps [kept]: "keeps a s \<Longrightarrow> keeps a (invite_pending ne i pm s)"
  unfolding invite_pending_def by (intro kept) simp_all

lemma instance_ready_alt:
  "instance_ready ne i m s =
     (let s1 = on_registry (MarkReady (unix_now ne) i m) s; r = ConsumePendingMatch (match_env ne s1) i (sv_world s1);
          s2 = put_world (snd r) s1
      in (case fst r of None \<Rightarrow> s2 | Some pm \<Rightarrow> invite_pending ne i pm s2))"
  by (simp add: instance_ready_def Let_def split: prod.split option.split)

lemma instance_ready_keeps: "keeps s (instance_ready ne i m s)"
proof -
  define s1 where "s1 = on_registry (MarkReady (unix_now ne) i m) s"
  have "keeps s s1" by (simp add: s1_def kept table_steps)
  then have "keeps s (put_world (snd (ConsumePendingMatch (match_env ne s1) i (sv_world s1))) s1)"
    by (rule keeps_put_world) simp
  then show ?thesis
    unfolding instance_ready_alt Let_def s1_def [symmetric] by (auto split: option.split intro: invite_keeps)
qed

lemma player_left_keeps: "after (player_left n ne i g s) (keeps s)"
proof -
  define s1 where "s1 = on_registry (MarkInstancePlayerLeft (unix_now ne) i g) s"
  define s2 where "s2 = snd (StopNonHomeInstanceIfEmpty ne i ''last player left'' s1)"
  have k: "keeps s s2" by (simp add: s2_def s1_def kept table_steps)
  have "after (run_world (EvaluateQueue n (match_env ne s2) q) s2) (keeps s)" for q
    by (rule after_run_world) (rule keeps_put_world [OF k], erule EvaluateQueue_grows)
  then have "after (and_then (run_world (EvaluateQueue n (match_env ne s2) q) s2) (\<lambda>s3. Served (settle s3))) (keeps s)" for q
    by (rule after_and_then [OF after_mono]) (simp add: keeps_settle)
  then show ?thesis
    by (simp add: player_left_def s1_def [symmetric] s2_def [symmetric] Let_def k split: option.split)
qed

lemma insert_assists_keeps: "after (insert_assists ne kill e as s) (keeps s)"
proof (induction as arbitrary: s)
  case (Cons a as)
  have "keeps s (on_db (InsertMatchEvent (unix_now ne) row) s)" for row
    by (rule keeps_on_db) (simp_all add: InsertMatchEvent_def db_of_def)
  then show ?case
    by (auto intro!: after_or_throw intro: after_step [OF Cons])
qed simp

lemma match_event_keeps: "after (handle_match_event ne c j s) (keeps s)"
proof -
  have k: "keeps s (on_db (InsertMatchEvent (unix_now ne) row) s)" for row
    by (rule keeps_on_db) (simp_all add: InsertMatchEvent_def db_of_def)
  then show ?thesis
    unfolding handle_match_event_def Let_def
    by (auto intro!: after_or_throw after_step [OF insert_assists_keeps] split: option.split)
qed

lemma match_stats_keeps: "after (handle_match_stats ne c j s) (keeps s)"
proof -
  have k: "keeps s (on_db (UpsertMatchPlayerStats row) s)" for row
    by (rule keeps_on_db) (simp_all add: UpsertMatchPlayerStats_def db_of_def Let_def)
  then show ?thesis
    unfolding handle_match_stats_def by (auto intro!: after_or_throw)
qed

lemma device_stats_keeps: "after (handle_device_stats ne c j s) (keeps s)"
  unfolding handle_device_stats_def by (auto intro!: after_or_throw kept)

lemma overlay_keeps:
  "after (handle_pawn_health ne j s) (keeps s)"
  "after (handle_mission_progress ne j s) (keeps s)"
  unfolding handle_pawn_health_def handle_mission_progress_def by (auto intro!: after_or_throw kept)

lemma game_event_keeps: "after (handle_game_event c j s) (keeps s)"
  unfolding handle_game_event_def by (auto intro!: after_or_throw kept)

lemma joined_keeps: "after (handle_player_joined j s) (keeps s)"
  unfolding handle_player_joined_def by (auto intro!: after_or_throw kept simp: table_steps)

lemma left_keeps: "after (handle_player_left n ne j s) (keeps s)"
  unfolding handle_player_left_def by (auto intro!: after_or_throw player_left_keeps)

lemma ready_keeps: "after (handle_ready ne j s) (keeps s)"
  unfolding handle_ready_def by (auto intro!: after_or_throw simp: instance_ready_keeps)

lemma empty_keeps: "after (handle_instance_empty ne j s) (keeps s)"
proof -
  have "keeps s (snd (StopNonHomeInstanceIfEmpty ne i why s))" for i why by (simp add: kept)
  then show ?thesis
    unfolding handle_instance_empty_def
    by (auto intro!: after_or_throw keeps_on_registry simp: table_steps split: prod.split bool.split) (metis snd_conv)+
qed

lemma successor_keeps: "after (handle_request_successor ne c j s) (keeps s)"
  unfolding handle_request_successor_def Let_def
  by (auto intro!: after_or_throw TriggerSuccessor_keeps split: option.split)

section \<open>The end of a mission, rebalancing\<close>

lemma SetPre_registry [simp]: "w_registry (SetPreAssignedTeam i g tf w) = w_registry w"
  by (simp add: SetPreAssignedTeam_def)

lemma assign_teams_keeps [kept]: "keeps a s \<Longrightarrow> keeps a (assign_successor_teams ne i j s)"
proof -
  have "w_registry (fold (\<lambda>(g, tf). SetPreAssignedTeam j g tf) xs w) = w_registry w" for xs w
    by (rule fold_keeps) (simp add: case_prod_beta)
  then show "keeps a s \<Longrightarrow> keeps a (assign_successor_teams ne i j s)"
    by (simp add: assign_successor_teams_def Let_def keeps_put_world split: option.split)
qed

lemma stamp_outcome_keeps [kept]: "keeps a s \<Longrightarrow> keeps a (stamp_outcome ne i outcome w s)"
proof (unfold stamp_outcome_def, erule keeps_on_db)
  have "md_registry (db_of s) = sv_registry s" by (simp add: db_of_def)
  then show "registry_grows (sv_registry s)
      (md_registry ((FoldUnprocessed (ne_libm ne) \<circ> SetInstanceOutcomeIfNull i outcome w) (db_of s)))"
    using outcome_grows [of "db_of s" i outcome w] by (simp add: FoldUnprocessed_def)
qed

lemma finish_ok:
  assumes "routing_ok s"
  shows "routing_ok (finish_mission ne i j s)"
proof -
  have "routing_ok (assign_successor_teams ne i j s)" by (rule routing_keeps [OF assign_teams_keeps [OF keeps_refl] assms])
  then show ?thesis by (auto simp: finish_mission_def Let_def arm_new_ok)
qed

lemma mission_ended_ok:
  assumes "routing_ok s"
  shows "after (handle_mission_ended ne c j s) routing_ok"
proof -
  let ?ended = "\<lambda>i. MarkMissionEnded (unix_now ne) i (sv_registry s)"
  have ended: "keeps s (on_registry (\<lambda>_. snd (?ended i)) s)" for i
    by (intro kept keeps_refl) (simp add: table_steps)
  have deaths: "keeps s (SetInstanceDeathCounts i x y (on_registry (\<lambda>_. snd (?ended i)) s))" for i x y
    by (rule keeps_death_counts [OF ended])
  have fin: "routing_ok (finish_mission ne i k s')" if "keeps s s'" for s' i k
    by (rule finish_ok [OF routing_keeps [OF that assms]])
  show ?thesis
    unfolding handle_mission_ended_def Let_def case_prod_beta
    by (auto intro!: after_or_throw fin stamp_outcome_keeps deaths)
qed

lemma autobalance_keeps [kept]: "keeps a s \<Longrightarrow> keeps a (autobalance_move i g tf s)"
  unfolding autobalance_move_def by (intro kept) (simp_all add: table_steps)

lemma rebalance_instance_keeps: "after (rebalance_instance ne i cfg s) (keeps s)"
proof -
  have "keeps s (snd (SendToInstance i y (fold (\<lambda>(g, tf). autobalance_move i g tf) delta (snd (SendToInstance i x s)))))"
    for x y delta
    by (auto intro!: kept)
  then show ?thesis
    unfolding rebalance_instance_def Let_def by (auto intro!: after_or_throw)
qed

lemma rebalance_keeps: "after (handle_request_rebalance ne c j s) (keeps s)"
  unfolding handle_request_rebalance_def Let_def
  by (auto intro!: after_or_throw rebalance_instance_keeps split: option.split)

section \<open>Admin actions\<close>

lemma move_players_ok: "routing_ok s \<Longrightarrow> after (move_players ne i tf ps rf s) (\<lambda>r. routing_ok (snd r))"
proof (induction ps arbitrary: rf s)
  case Nil
  then show ?case by (cases rf) simp
next
  case (Cons p ps)
  obtain req failed where rf: "rf = (req, failed)" by force
  have move: "after (case r of Served (True, s1) \<Rightarrow> move_players ne i tf ps x s1
        | Served (False, s1) \<Rightarrow> move_players ne i tf ps y s1 | Threw z \<Rightarrow> Threw z | Hung \<Rightarrow> Hung) (\<lambda>r. routing_ok (snd r))"
    if "after r (\<lambda>r. routing_ok (snd r))" for r x y
    using that by (auto split: served.split prod.split bool.split intro: Cons.IH)
  show ?case
    unfolding rf move_players.simps
    using Cons.prems by (auto intro!: after_or_throw Cons.IH move AdminMove_ok [unfolded comp_def])
qed

lemma stop_action_keeps: "keeps s (snd (stop_instance_action ne i s))"
  by (auto simp: stop_instance_action_def intro!: kept split: option.split)

lemma reload_keeps:
  "ReloadQueues n ev cfgs (sv_world s) = Some w \<Longrightarrow> keeps s (settle (put_world w s))"
  by (intro kept keeps_refl) (erule ReloadQueues_grows)

lemma reseed_keeps: "keeps s (on_db (snd \<circ> Reseed lm) s)" "keeps s (on_db (snd \<circ> SetActiveEngine e) s)"
  by (rule keeps_on_db, simp, simp add: Reseed_def SetActiveEngine_def db_of_def)+

lemma admin_ok:
  assumes "routing_ok s"
  shows "after (admin_action n ne subtype j s) (\<lambda>r. routing_ok (snd r))"
proof -
  note k = routing_keeps [OF stop_action_keeps assms] routing_keeps [OF reseed_keeps(1) assms]
    routing_keeps [OF reseed_keeps(2) assms] routing_keeps [OF reload_keeps assms]
  have "after (SpawnAdminInstance ne m gm x s) (\<lambda>r. routing_ok (snd r))" for m gm x
    by (rule after_mono [OF SpawnAdminInstance_keeps [OF keeps_refl]]) (simp add: routing_keeps [OF _ assms])
  then show ?thesis
    unfolding admin_action_def
    by (intro after_if after_or_throw)
      (auto intro!: move_players_ok assms k split: option.split json.split simp del: char.simps)
qed

lemma admin_message_ok:
  assumes "routing_ok s"
  shows "after (handle_admin_action n ne c j s) routing_ok"
proof -
  have ack: "routing_ok (emit x s')" if "routing_ok s'" for x s'
    by (rule routing_keeps [OF keeps_other(1) [OF keeps_refl] that])
  have "after (case admin_action n ne subtype j s of Served (ok, s1) \<Rightarrow> Served (emit (f ok) s1)
      | Threw (_, s1) \<Rightarrow> Threw s1 | Hung \<Rightarrow> Hung) routing_ok" for subtype f
    using admin_ok [OF assms, of n ne subtype j] by (auto split: served.split prod.split simp: ack)
  then show ?thesis
    unfolding handle_admin_action_def Let_def using assms by (auto intro!: after_or_throw ack)
qed

section \<open>Dispatch, disconnect, maintenance\<close>

lemma register_ack_ok: "routing_ok s \<Longrightarrow> after (handle_register_ack ne j s) routing_ok"
  unfolding handle_register_ack_def by (auto intro!: after_or_throw DeliverAck_ok)

lemma dispatch_ok:
  assumes "routing_ok s"
  shows "after (dispatch n ne c msg s) routing_ok"
proof -
  note frames = hello_keeps ready_keeps game_event_keeps joined_keeps left_keeps overlay_keeps empty_keeps
    EnsureHomeMapWarm_keeps [OF keeps_refl] match_event_keeps match_stats_keeps device_stats_keeps successor_keeps
    rebalance_keeps
  note framed = frames [THEN after_keeps, OF assms]
  have pong: "routing_ok (emit x s)" for x by (rule routing_keeps [OF keeps_other(1) [OF keeps_refl] assms])
  have travel: "after (handle_request_travel ne j s) routing_ok" for j
    unfolding handle_request_travel_def using assms by (auto intro!: after_or_throw TravelRequest_ok)
  have "after (dispatch_json n ne c j s) routing_ok" for j
    unfolding dispatch_json_def
    by (rule after_or_throw) (simp add: framed pong travel assms admin_message_ok register_ack_ok mission_ended_ok)
  then show ?thesis by (simp add: dispatch_def assms split: option.split)
qed

lemma maintenance_keeps: "keeps s (maintenance ne s)"
proof -
  have "keeps s (stop_idle ne i s)" "keeps s (clear_ghost ne r s)" for s i r
    by (auto simp: stop_idle_def clear_ghost_def kept table_steps split: prod.split)
  then show ?thesis unfolding maintenance_def Let_def by (intro kept) simp_all
qed

section \<open>The queue and the teams\<close>

lemma build_registry [simp]: "ts_world (snd (BuildParty env g tw)) = ts_world tw"
  by (simp add: BuildParty_def update_team_def Let_def split: option.split)

lemma notify_registry [simp]: "ts_world (NotifyTeamQueued i q m tw) = ts_world tw"
  by (simp add: NotifyTeamQueued_def say_def Let_def split: option.split)

lemma keeps_team [kept]: "keeps a s \<Longrightarrow> w_registry (ts_world tw) = sv_registry s \<Longrightarrow> team_world_ok tw \<or> \<not> team_world_ok (sv_team s)
    \<Longrightarrow> keeps a (s\<lparr>sv_team := tw\<rparr>)"
  by (erule calm.frame_trans) (auto simp: keeps_def client_key_def)

lemma join_alone_keeps: "after (send_match_join_response n ne c q override solo s) (keeps s)"
proof (cases "map_of (sv_clients s) c")
  case (Some cl)
  let ?s1 = "on_client c (\<lambda>cl. cl\<lparr>cl_current_queue := q\<rparr>) s"
  have k: "keeps s ?s1" by (simp add: kept)
  have "after (run_world (\<lambda>w. fst (AddPlayer h n ev q p w)) ?s1) (keeps s)" for h ev p
    by (rule after_run_world) (rule keeps_put_world [OF k], auto simp: AddPlayer_def dest: AddParty_grows)
  then have "after (and_then (run_world (\<lambda>w. fst (AddPlayer h n ev q p w)) ?s1)
      (\<lambda>s2. Served (emit x (emit y (settle s2))))) (keeps s)" for h ev p x y
    by (rule after_and_then [OF after_mono]) (simp add: kept)
  then show ?thesis by (simp add: send_match_join_response_def Some Let_def)
qed (simp add: send_match_join_response_def)

lemma team_join_keeps: "after (team_join n ne c q party s) (keeps s)"
proof -
  have "after (run_world (AddParty n ev q party) s) (keeps s)" for ev
    by (rule after_run_world) (rule keeps_put_world [OF keeps_refl], erule AddParty_grows)
  then have "after (and_then (run_world (AddParty n ev q party) s)
      (\<lambda>s1. Served (on_team (NotifyTeamQueued i q m) (settle s1)))) (keeps s)" for ev i m
    by (rule after_and_then [OF after_mono]) (auto intro!: kept notify_ok)
  then show ?thesis by (simp add: team_join_def Let_def kept)
qed

lemma match_join_keeps: "after (match_join n ne c q override solo s) (keeps s)"
proof -
  have k: "keeps s (s\<lparr>sv_team := snd (BuildParty env g (sv_team s))\<rparr>)" for env g
    using build_party_ok [of "sv_team s" env g] by (auto intro!: kept)
  then have built: "keeps s (s\<lparr>sv_team := tw\<rparr>)" if "BuildParty env g (sv_team s) = (p, tw)" for env g p tw
    by (metis that snd_conv)
  show ?thesis
    unfolding match_join_def
    by (auto simp: kept split: option.split prod.split intro!: join_alone_keeps intro: built after_step [OF team_join_keeps])
qed

lemma match_leave_keeps: "keeps s (match_leave ne c s)"
proof -
  have "team_world_ok (DequeueForCompositionChange env g tw) = team_world_ok tw" for env g tw
    by (rule team_world_ok_core) simp
  then show ?thesis
    by (auto simp: match_leave_def intro!: kept split: option.split)
qed

lemma team_registry:
  assumes "team_step env tw tw'"
  shows "(\<exists>w. tw' = tw\<lparr>ts_world := w\<rparr>) \<or> w_registry (ts_world tw') = w_registry (ts_world tw)"
proof -
  have leave: "w_registry (ts_world (snd (LeaveCurrentTeam env g tw))) = w_registry (ts_world tw)" for g tw
    by (simp add: LeaveCurrentTeam_def update_team_def Let_def split: option.split)
  then have left: "w_registry (ts_world tw') = w_registry (ts_world tw)" if "LeaveCurrentTeam env g tw = (b, tw')" for g tw b tw'
    by (metis that snd_conv)
  from assms show ?thesis
    by cases
      (auto simp: RequestInvite_def AcceptInvite_def HandleLeave_def PromoteLeader_def KickMember_def ExpireInvite_def
        SetDifficultyOverride_def announce_join_def MaybeRouteInviteeIntoTeamMatch_def SetPreAssignedTeam_def join_team_def
        update_team_def leave left Let_def split: option.split prod.split bool.split)
qed

section \<open>The server as a whole\<close>

text \<open>
  One step: a message, a handler, a timer. The environment may change from step to step. A handler
  that throws ends the process and one that hangs ends the history, so only \<open>Served\<close> results are
  steps. A login hands in a guid that is not in use; \<open>MATCH_ACCEPT\<close> comes from a logged-in session.
\<close>

inductive server_step :: "nat \<Rightarrow> ServerEnv \<Rightarrow> Server \<Rightarrow> Server \<Rightarrow> bool" for n ne where
  connection: "server_step n ne s (OpenConn s)"
| message: "dispatch n ne c msg s = Served s' \<Longrightarrow> server_step n ne s s'"
| connection_lost: "server_step n ne s (on_disconnect ne c s)"
| client: "server_step n ne s (OpenClient s)"
| login_failed: "server_step n ne s (ReplacePriorSession ne c s)"
| login: "map_of (sv_clients s) c \<noteq> None \<Longrightarrow> g \<noteq> [] \<Longrightarrow> map_of (sv_sessions s) g = None \<Longrightarrow>
     CompleteLogin ne c name user_id g row (ReplacePriorSession ne c s) = Served s' \<Longrightarrow> server_step n ne s s'"
| select: "select_character ne c i s = Served s' \<Longrightarrow> server_step n ne s s'"
| queue_join: "match_join n ne c q override solo s = Served s' \<Longrightarrow> server_step n ne s s'"
| queue_leave: "server_step n ne s (match_leave ne c s)"
| accept: "map_of (sv_clients s) c = Some cl \<Longrightarrow> cl_guid cl \<noteq> [] \<Longrightarrow> server_step n ne s (send_match_accept_response ne c s)"
| instance_change: "change_instance ne c m i s = Served s' \<Longrightarrow> server_step n ne s s'"
| game_leave: "server_step n ne s (leave_game ne c s)"
| player_logoff: "server_step n ne s (logoff ne c s)"
| spectate: "server_step n ne s (snd (DeliverSpectateJoin ne g i tf s))"
| unspectate: "DeliverSpectateExit ne g s = Served s' \<Longrightarrow> server_step n ne s s'"
| team: "team_step (team_env ne s) (sv_team s) tw \<Longrightarrow> w_registry (ts_world tw) = sv_registry s \<Longrightarrow>
     server_step n ne s (on_team (\<lambda>_. tw) s)"
| client_lost: "server_step n ne s (handle_socket_disconnect ne c s)"
| timer: "FireTimer ne t s = Served s' \<Longrightarrow> server_step n ne s s'"
| pop_timer: "run_world (TimerFired n (match_env ne s) q t) s = Served s' \<Longrightarrow> server_step n ne s (settle s')"
| flush: "server_step n ne s (FlushDeviceStats s)"
| minute: "server_step n ne s (maintenance ne s)"

inductive_cases server_stepE: "server_step n ne s s'"

abbreviation server_run :: "nat \<Rightarrow> Server \<Rightarrow> Server \<Rightarrow> bool" where
  "server_run n \<equiv> (\<lambda>s s'. \<exists>ne. server_step n ne s s')\<^sup>*\<^sup>*"

lemma after_Served: "after r P \<Longrightarrow> r = Served s \<Longrightarrow> P s"
  by simp

lemma keeps_leave [kept]: "keeps s (leave_game ne c s)" "keeps s (logoff ne c s)"
  by (simp_all add: keeps_leave_game keeps_logoff)

lemma login_ok:
  assumes "routing_ok s" "map_of (sv_clients s) c \<noteq> None" "g \<noteq> []" "map_of (sv_sessions s) g = None"
  shows "after (CompleteLogin ne c name user_id g row (ReplacePriorSession ne c s)) routing_ok"
proof -
  have "client_key s c \<noteq> None" using assms(2) by (auto simp: client_key_def)
  then obtain a where "client_key (ReplacePriorSession ne c s) c = Some ([], a)"
    using ReplacePrior_ok(2) [OF assms(1)] by blast
  then show ?thesis
    by (rule CompleteLogin_ok [OF ReplacePrior_ok(1) [OF assms(1)] _ assms(3) ReplacePrior_ok(3) [OF assms(1,4)]])
qed

lemma server_step_ok:
  assumes "server_step n ne s s'" "routing_ok s"
  shows "routing_ok s'"
  using assms(1)
proof cases
  case connection
  show ?thesis unfolding connection by (rule routing_keeps [OF keeps_OpenConn [OF keeps_refl] assms(2)])
next
  case message
  then show ?thesis by (rule after_Served [OF dispatch_ok [OF assms(2)]])
next
  case connection_lost
  show ?thesis unfolding connection_lost by (rule routing_keeps [OF keeps_on_disconnect assms(2)])
next
  case client
  show ?thesis unfolding client by (rule OpenClient_ok [OF assms(2)])
next
  case login_failed
  show ?thesis unfolding login_failed by (rule ReplacePrior_ok(1) [OF assms(2)])
next
  case login
  show ?thesis by (rule after_Served [OF login_ok [OF assms(2) login(1-3)] login(4)])
next
  case select
  then show ?thesis by (rule after_Served [OF select_ok [OF assms(2)]])
next
  case queue_join
  then show ?thesis by (rule after_Served [OF after_keeps [OF match_join_keeps assms(2)]])
next
  case queue_leave
  show ?thesis unfolding queue_leave by (rule routing_keeps [OF match_leave_keeps assms(2)])
next
  case accept
  show ?thesis unfolding accept(1) by (rule accept_match_ok [OF assms(2)]) (use accept(2,3) in auto)
next
  case instance_change
  then show ?thesis by (rule after_Served [OF change_instance_ok [OF assms(2)]])
next
  case game_leave
  show ?thesis unfolding game_leave by (rule routing_keeps [OF keeps_leave(1) assms(2)])
next
  case player_logoff
  show ?thesis unfolding player_logoff by (rule routing_keeps [OF keeps_leave(2) assms(2)])
next
  case spectate
  show ?thesis unfolding spectate by (rule SpectateJoin_ok [OF assms(2)])
next
  case unspectate
  then show ?thesis by (rule after_Served [OF SpectateExit_ok [OF assms(2)]])
next
  case (team tw)
  have "keeps s (on_team (\<lambda>_. tw) s)"
    by (rule keeps_on_team) (use team team_step_ok in auto)
  then show ?thesis unfolding team(1) by (rule routing_keeps [OF _ assms(2)])
next
  case client_lost
  show ?thesis unfolding client_lost by (rule disconnect_ok(1) [OF assms(2)])
next
  case timer
  then show ?thesis by (rule after_Served [OF FireTimer_ok [OF assms(2)]])
next
  case (pop_timer q t s1)
  have "after (run_world (TimerFired n (match_env ne s) q t) s) (keeps s)"
    by (rule after_run_world) (rule keeps_put_world [OF keeps_refl], erule TimerFired_grows)
  then have "keeps s s1" by (rule after_Served [OF _ pop_timer(2)])
  then show ?thesis unfolding pop_timer(1) by (intro routing_keeps [OF keeps_settle assms(2)])
next
  case flush
  show ?thesis unfolding flush by (rule routing_keeps [OF _ assms(2)]) (simp add: kept)
next
  case minute
  show ?thesis unfolding minute by (rule routing_keeps [OF maintenance_keeps assms(2)])
qed

lemma server_run_ok: "server_run n s s' \<Longrightarrow> routing_ok s \<Longrightarrow> routing_ok s'"
  by (induction rule: rtranclp_induct) (auto intro: server_step_ok)

end
