(* ===== verification/ServerExample.thy ===== *)
theory ServerExample
  imports ServerInvariant
begin

text \<open>A server without connections and its environment, for the concrete runs.\<close>

definition ex_server_env :: ServerEnv where
  "ex_server_env = \<lparr>ne_team = ex_team_env, ne_libm = ex_libm, ne_shuffle = (\<lambda>xs. xs),
     ne_maps = MapGameInfoInit [\<lparr>mg_map_game_id = 7, mg_map_name = ''Zone'', mg_game_class = ''OpenWorld'',
       mg_gameplay_type = 1554, mg_friendly_name = 1, mg_background = 2, mg_share_home_core = False\<rparr>],
     ne_queue_toggles = (\<lambda>_. None), ne_device_enabled = True, ne_effectiveness_enabled = True,
     ne_admin_token = ''secret'', ne_admin_handler = True, ne_other_action = (\<lambda>_ _. False), ne_queue_rows = [],
     ne_remote = (\<lambda>c. Some (V4 127 0 0 1)), ne_home_map = ''Dome'', ne_home_mode = ''Home'',
     ne_home_spawner = True, ne_successor_spawner = True, ne_travel_spawner = True,
     ne_character = (\<lambda>i. Some \<lparr>ci_id = i, ci_user_id = 1, ci_profile_id = 680, ci_head_asm_id = 0, ci_gender_type = 0,
       ci_morph = [], ci_deleted_at = 0\<rparr>), ne_item_profile = (\<lambda>_. 0), ne_skills = (\<lambda>_ _. []), ne_last_respec = (\<lambda>_. 0),
     ne_class_type = (\<lambda>_. 0), ne_class_msg = (\<lambda>_. 0), ne_allow_duplicate_logins = False\<rparr>"

definition ex_server :: Server where
  "ex_server = \<lparr>sv_team = ex_team_world, sv_db = ex_match_db, sv_death_counts = [], sv_device_stats = [],
     sv_device_buffer = [], sv_flush_scheduled = False, sv_conns = [], sv_next_conn = 0, sv_links = [],
     sv_clients = [], sv_next_client = 0, sv_sessions = [], sv_store = [], sv_acks = [], sv_timers = [],
     sv_next_timer = 0, sv_overlay = [], sv_missions = [], sv_spawning = [], sv_out = []\<rparr>"

text \<open>The same server with one player logged in, who waits in queue 1 and sits in a pending match.\<close>

definition ex_waiting :: PendingMatch where
  "ex_waiting = empty_pending\<lparr>pm_instance_id := 1, pm_queue_id := 1, pm_game_mode := ''Merc'', pm_session_guids := [''g'', ''x''],
     pm_task_force_assignments := [(''g'', 2)], pm_cap := 4\<rparr>"

definition ex_matched :: Server where
  "ex_matched = ex_server\<lparr>sv_team := ex_team_world\<lparr>ts_world := ex_full_world\<lparr>w_pending := [(1, ex_waiting)]\<rparr>\<rparr>,
     sv_clients := [(0, new_client\<lparr>cl_guid := ''g'', cl_player_name := ''ann'', cl_user_id := 1, cl_current_queue := 1\<rparr>)],
     sv_next_client := 1, sv_sessions := [(''g'', 0)],
     sv_store := [(''g'', (ex_session ''g'')\<lparr>se_player_name := ''ann''\<rparr>)],
     sv_conns := [(0, \<lparr>ic_instance_id = 1, ic_validated = True, ic_is_home_map = False\<rparr>)], sv_next_conn := 1,
     sv_links := [(1, 0)]\<rparr>"

lemma ex_matched_ok: "routing_ok ex_matched"
proof -
  have "reg_step empty_registry (ex_starting 0 9000 empty_registry)"
    unfolding ex_starting_def by (rule reg_step.spawn [OF ex_ports(1)])
  then have "registry_ok (ex_starting 0 9000 empty_registry)" by (rule reg_step_ok [OF _ empty_registry_ok])
  then have "registry_ok (w_registry ex_full_world)" by (simp add: ex_full_world_def)
  moreover have "team_world_ok (ex_team_world\<lparr>ts_world := w\<rparr>)" for w using ex_team_start by (simp add: team_world_ok_def)
  ultimately show ?thesis
    by (auto simp: routing_ok_def ex_matched_def ex_server_def acks_ok_def timers_ok_def sessions_ok_def client_key_def new_client_def)
qed

end
