(* ===== verification/ServerGuarantees.thy ===== *)
theory ServerGuarantees
  imports ServerExample
begin

text \<open>
  What the control server promises along every history: the invariant of the sessions, and that every
  registration in flight has a deadline. The example at the start is a log-in that ends in the home map.
\<close>

section \<open>An example\<close>

definition ex_message :: "nat \<Rightarrow> (string \<times> json) list \<Rightarrow> Server \<Rightarrow> Server served" where
  "ex_message c kvs = dispatch 3 ex_server_env c (Some (JObject kvs))"

text \<open>
  A client logs in and the home map is started, reports in and is ready; the client picks a
  character. In \<open>ex_twice\<close> it picks again before the home map has answered, in \<open>ex_playing\<close> the home
  map has answered.
\<close>

definition ex_hello :: "Server \<Rightarrow> Server served" where
  "ex_hello s = ex_message 0 [(''type'', JString ''INSTANCE_HELLO''), (''instance_id'', JInt 1)] (OpenConn s)"

definition ex_ready :: "Server \<Rightarrow> Server served" where
  "ex_ready s = ex_message 0 [(''type'', JString ''INSTANCE_READY''), (''instance_id'', JInt 1), (''max_players'', JInt 64)] s"

definition ex_pick :: "Server \<Rightarrow> Server served" where
  "ex_pick = select_character ex_server_env 0 5"

definition ex_answer :: "Server \<Rightarrow> Server served" where
  "ex_answer s = ex_message 0 [(''type'', JString ''PLAYER_REGISTER_ACK''), (''session_guid'', JString ''g''),
     (''success'', JBool True), (''pawn_id'', JInt 1)] s"

definition ex_login :: "Server served" where
  "ex_login = CompleteLogin ex_server_env 0 ''ann'' 1 ''g'' 11 (ReplacePriorSession ex_server_env 0 (OpenClient ex_server))"

definition ack_view :: "Server \<Rightarrow> (guid \<times> nat \<times> nat \<times> AckKind) list \<times> (nat \<times> TimerJob) list \<times> (guid \<times> nat option) option" where
  "ack_view s = (map (\<lambda>(g, pk). (g, pk_client pk, pk_timer pk, pk_kind pk)) (sv_acks s), sv_timers s, client_key s 0)"

definition joined :: "Server \<Rightarrow> (int \<times> guid) list" where
  "joined s = map (\<lambda>p. (ip_instance_id p, ip_session_guid p)) (rg_players (sv_registry s))"

definition ex_story :: "_ option" where
  "ex_story =
     (case ex_login of Served s1 \<Rightarrow>
        (case ex_hello s1 of Served s2 \<Rightarrow>
          (case ex_ready s2 of Served s3 \<Rightarrow>
            (case ex_pick s3 of Served s4 \<Rightarrow>
              (case ex_pick s4 of Served s5 \<Rightarrow>
                (case ex_answer s4 of Served s6 \<Rightarrow> Some (ack_view s4, ack_view s5, joined s6) | _ \<Rightarrow> None)
              | _ \<Rightarrow> None)
            | _ \<Rightarrow> None)
          | _ \<Rightarrow> None)
        | _ \<Rightarrow> None)
      | _ \<Rightarrow> None)"

lemma ex_story_ends:
  "ex_story = Some (([(''g'', 0, 0, HomeAck 1 1)], [(0, AckTimeout 0 (HomeAck 1 1))], Some (''g'', Some 0)),
       ([(''g'', 0, 1, HomeAck 1 1)], [(0, AckTimeout 0 (HomeAck 1 1)), (1, AckTimeout 0 (HomeAck 1 1))], Some (''g'', Some 1)),
       [(1, ''g'')])"
  by code_simp

lemma ex_start: "routing_ok ex_server"
proof -
  have "team_world_ok ex_team_world" "registry_ok (w_registry (ts_world ex_team_world))"
    by (simp_all add: ex_team_start, simp add: ex_team_world_def ex_world_def empty_registry_ok)
  then show ?thesis
    by (auto simp: routing_ok_def ex_server_def acks_ok_def timers_ok_def sessions_ok_def client_key_def)
qed

lemma run_step: "server_run n s s' \<Longrightarrow> server_step n ne s' s'' \<Longrightarrow> server_run n s s''"
  by (rule rtranclp.rtrancl_into_rtrancl) auto

text \<open>The three states, all reached from the empty server.\<close>

lemma ex_states:
  "\<exists>registering twice playing. server_run 3 ex_server registering \<and> server_run 3 ex_server playing \<and>
     ack_view registering = ([(''g'', 0, 0, HomeAck 1 1)], [(0, AckTimeout 0 (HomeAck 1 1))], Some (''g'', Some 0)) \<and>
     ack_view twice = ([(''g'', 0, 1, HomeAck 1 1)], [(0, AckTimeout 0 (HomeAck 1 1)), (1, AckTimeout 0 (HomeAck 1 1))], Some (''g'', Some 1)) \<and>
     joined playing = [(1, ''g'')]"
proof -
  from ex_story_ends obtain s1 s2 s3 s4 s5 s6 where
    r: "ex_login = Served s1" "ex_hello s1 = Served s2" "ex_ready s2 = Served s3" "ex_pick s3 = Served s4"
      "ex_answer s4 = Served s6" and
    views: "ack_view s4 = ([(''g'', 0, 0, HomeAck 1 1)], [(0, AckTimeout 0 (HomeAck 1 1))], Some (''g'', Some 0))"
      "ack_view s5 = ([(''g'', 0, 1, HomeAck 1 1)], [(0, AckTimeout 0 (HomeAck 1 1)), (1, AckTimeout 0 (HomeAck 1 1))], Some (''g'', Some 1))"
      "joined s6 = [(1, ''g'')]"
    unfolding ex_story_def by (auto split: served.splits)
  have "server_run 3 ex_server (OpenClient ex_server)" by (rule run_step [OF rtranclp.rtrancl_refl server_step.client])
  then have "server_run 3 ex_server s1"
    by (rule run_step [OF _ server_step.login [OF _ _ _ r(1) [unfolded ex_login_def]]]) (simp_all add: OpenClient_def ex_server_def)
  then have "server_run 3 ex_server (OpenConn s1)" by (rule run_step [OF _ server_step.connection])
  then have "server_run 3 ex_server s2"
    by (rule run_step [OF _ server_step.message [OF r(2) [unfolded ex_hello_def ex_message_def]]])
  then have "server_run 3 ex_server s3"
    by (rule run_step [OF _ server_step.message [OF r(3) [unfolded ex_ready_def ex_message_def]]])
  then have s4: "server_run 3 ex_server s4"
    by (rule run_step [OF _ server_step.select [OF r(4) [unfolded ex_pick_def]]])
  then have "server_run 3 ex_server s6"
    by (rule run_step [OF _ server_step.message [OF r(5) [unfolded ex_answer_def ex_message_def]]])
  with s4 show ?thesis using views by blast
qed

section \<open>Timers that are already there\<close>

definition timers_from :: "Server \<Rightarrow> Server \<Rightarrow> bool" where
  "timers_from s s' \<longleftrightarrow> sv_next_timer s \<le> sv_next_timer s' \<and>
     (\<forall>t j. t < sv_next_timer s \<longrightarrow> map_of (sv_timers s') t = Some j \<longrightarrow> map_of (sv_timers s) t = Some j)"

interpretation deadlines: frame_relation timers_from
  by unfold_locales (auto simp: timers_from_def)

lemma timers_from_refl [simp]: "timers_from s s"
  by (rule deadlines.frame_refl)

lemma timers_keeps: "keeps s s' \<Longrightarrow> timers_from s s'"
  by (simp add: keeps_def timers_from_def)

lemma timers_same: "sv_timers s' = sv_timers s \<Longrightarrow> sv_next_timer s' = sv_next_timer s \<Longrightarrow> timers_from s s'"
  by (simp add: timers_from_def)

lemma timers_arm_new: "timers_from s (arm_new job s)"
  by (simp add: timers_from_def arm_new_def new_timer_def arm_def update_conv')

lemma timers_await: "timers_from s (snd (await_ack c g kind i msg s))"
proof -
  define s2 where "s2 = RegisterPendingAck g \<lparr>pk_client = c, pk_timer = sv_next_timer s, pk_kind = kind\<rparr>
    (on_client c (\<lambda>cl. cl\<lparr>cl_ack_timer := Some (sv_next_timer s)\<rparr>) (s\<lparr>sv_next_timer := Suc (sv_next_timer s)\<rparr>))"
  obtain b s3 where s3: "SendToInstance i msg s2 = (b, s3)" by force
  have p: "sv_timers s3 = sv_timers s" "sv_next_timer s3 = Suc (sv_next_timer s)"
    using Send_parts(5,6) [of i msg s2] by (simp_all add: s3) (simp_all add: s2_def RegisterPendingAck_def)
  show ?thesis
    by (cases b) (simp_all add: await_ack_def new_timer_def s2_def [symmetric] s3 timers_from_def arm_def cancel_def
      ClearPendingAck_def p update_conv' delete_conv')
qed

lemma timers_register: "timers_from s (snd (await_ack c g kind i msg (on_client c f s)))"
  by (rule deadlines.frame_trans [OF timers_same timers_await]) simp_all

lemma timers_wait: "after (wait_for_home_map_then_register ne c secs s) (timers_from s)"
proof -
  have go: "timers_from s (initiate_player_register_and_go_play ne c (on_client c f s))" for f
  proof -
    have g: "timers_from s' (initiate_player_register_and_go_play ne c s')" for s'
      by (simp add: initiate_player_register_and_go_play_def Let_def timers_register split: option.split)
    show ?thesis by (rule deadlines.frame_trans [OF timers_same g]) simp_all
  qed
  have spawn: "after (if b then SpawnHomeMap ne s else Served s) (timers_from s)" for b
    by (simp add: after_mono [OF SpawnHomeMap_keeps [OF keeps_refl]] timers_keeps)
  have poll: "after (and_then (if b then SpawnHomeMap ne s else Served s)
      (\<lambda>s1. Served (arm_new (HomePoll c secs) s1))) (timers_from s)" for b
    by (rule after_and_then, rule after_mono [OF spawn]) (auto intro: deadlines.frame_trans timers_arm_new)
  show ?thesis
    unfolding wait_for_home_map_then_register_def
    using poll [of True] poll [of False]
    by (simp only: if_True if_False split: option.split if_split) (simp only: after_simps timers_from_refl go simp_thms)
qed

lemma after_timers: "after (f s') (timers_from s') \<Longrightarrow> timers_from s s' \<Longrightarrow> after (f s') (timers_from s)"
  by (erule after_mono) (rule deadlines.frame_trans)

lemma join_timers [simp]:
  "sv_timers (join_instance ne c i tf s) = sv_timers s" "sv_next_timer (join_instance ne c i tf s) = sv_next_timer s"
  "sv_timers (drop_reservation i c s) = sv_timers s" "sv_next_timer (drop_reservation i c s) = sv_next_timer s"
  "sv_timers (send_go_play_to_instance ne c inst tf s) = sv_timers s"
  "sv_next_timer (send_go_play_to_instance ne c inst tf s) = sv_next_timer s"
  "sv_timers (send_go_play_response ne c s) = sv_timers s" "sv_next_timer (send_go_play_response ne c s) = sv_next_timer s"
  by (simp_all add: join_instance_def drop_reservation_def send_go_play_to_instance_def send_go_play_response_def
        split: option.split)

lemma callback_timers: "after (ack_callback ne c kind b s) (timers_from s)"
proof -
  have home: "after (go_home ne c s') (timers_from s)" if "timers_from s s'" for s'
    unfolding go_home_def
    by (rule after_timers [OF timers_wait], rule deadlines.frame_trans [OF that timers_same]) simp_all
  have "timers_from s (join_instance ne c i tf (on_client c f s))" for i tf f by (rule timers_same) simp_all
  then show ?thesis
    by (cases kind) (auto simp: home_ack_def target_ack_def spectate_ack_def accept_ack_def Let_def home
      intro!: timers_same home split: option.split)
qed

lemma timeout_timers: "after (ack_timeout ne c kind s) (timers_from s)"
proof -
  have "after (wait_for_home_map_then_register ne c 120 (ClearPendingAck g s)) (timers_from s)" for g
    by (rule after_timers [OF timers_wait timers_same]) (simp_all add: ClearPendingAck_def)
  then show ?thesis
    by (cases kind) (auto simp: Let_def ClearPendingAck_def intro!: timers_same split: option.split)
qed

section \<open>Deadlines\<close>

lemma registration_ends:
  assumes ok: "routing_ok s" and pk: "map_of (sv_acks s) g = Some pk"
    and r: "after r routing_ok" "after r (timers_from (cancel (pk_timer pk) s'))"
    and same: "sv_timers s' = sv_timers s" "sv_next_timer s' = sv_next_timer s"
  shows "after r (\<lambda>s'. map_of (sv_timers s') (pk_timer pk) = None \<and> map_of (sv_acks s') g \<noteq> Some pk)"
proof (cases r)
  case (Served s1)
  have "pk_timer pk < sv_next_timer s"
    using ack_owner [OF ok pk] ok unfolding ack_ok_def routing_ok_def timers_ok_def by blast
  then have gone: "map_of (sv_timers s1) (pk_timer pk) = None"
    using r(2) Served by (cases "map_of (sv_timers s1) (pk_timer pk)")
      (auto simp: timers_from_def cancel_def same delete_conv')
  then have "map_of (sv_acks s1) g \<noteq> Some pk"
    using r(1) Served by (auto simp: ack_ok_def dest: ack_owner)
  then show ?thesis using gone Served by simp
qed simp_all

text \<open>
  C7. Every registration in flight has its session and its deadline. Along every history, a guid that
  waits for an instance's acknowledgement is that of a live session, which holds the registration's
  timer, and the timer is armed with that session and target. The acknowledgement and the deadline
  each end the registration: afterwards its timer is gone and the guid waits for nothing, or for a
  new registration.
\<close>

theorem registration_has_deadline:
  assumes "server_run n s0 s" "routing_ok s0" "map_of (sv_acks s) g = Some pk"
  shows "(\<exists>cl. session_of g s = Some (pk_client pk, cl) \<and> cl_ack_timer cl = Some (pk_timer pk)) \<and>
    map_of (sv_timers s) (pk_timer pk) = Some (AckTimeout (pk_client pk) (pk_kind pk)) \<and>
    after (FireTimer ne (pk_timer pk) s) (\<lambda>s'. map_of (sv_timers s') (pk_timer pk) = None \<and> map_of (sv_acks s') g \<noteq> Some pk) \<and>
    after (DeliverAck ne g success s) (\<lambda>s'. map_of (sv_timers s') (pk_timer pk) = None \<and> map_of (sv_acks s') g \<noteq> Some pk)"
proof -
  have ok: "routing_ok s" by (rule server_run_ok [OF assms(1,2)])
  note a = ack_owner [OF ok assms(3), unfolded ack_ok_def]
  then have "map_of (sv_sessions s) g = Some (pk_client pk)" using ok unfolding routing_ok_def sessions_ok_def by blast
  then have 1: "\<exists>cl. session_of g s = Some (pk_client pk, cl) \<and> cl_ack_timer cl = Some (pk_timer pk)"
    using a by (auto simp: session_of_def client_key_def)
  have fire: "FireTimer ne (pk_timer pk) s = ack_timeout ne (pk_client pk) (pk_kind pk) (cancel (pk_timer pk) s)"
    using a by (simp add: FireTimer_def del: ack_timeout.simps)
  have 2: "after (FireTimer ne (pk_timer pk) s) (\<lambda>s'. map_of (sv_timers s') (pk_timer pk) = None \<and> map_of (sv_acks s') g \<noteq> Some pk)"
    by (rule registration_ends [OF ok assms(3) FireTimer_ok [OF ok], where s' = s]) (simp_all add: fire timeout_timers del: ack_timeout.simps)
  have 3: "after (DeliverAck ne g success s) (\<lambda>s'. map_of (sv_timers s') (pk_timer pk) = None \<and> map_of (sv_acks s') g \<noteq> Some pk)"
    by (rule registration_ends [OF ok assms(3) DeliverAck_ok [OF ok], where s' = "ClearPendingAck g s"])
      (simp_all add: DeliverAck_def assms(3) callback_timers ClearPendingAck_def)
  show ?thesis using 1 2 3 a by blast
qed

theorem registration_has_deadline_witness:
  "\<exists>(s :: Server) pk. map_of (sv_acks s) ''g'' = Some pk \<and> pk_kind pk = HomeAck 1 1 \<and>
     map_of (sv_timers s) (pk_timer pk) = Some (AckTimeout (pk_client pk) (pk_kind pk))"
proof -
  obtain s where s: "server_run 3 ex_server s" "fst (ack_view s) = [(''g'', 0, 0, HomeAck 1 1)]"
    using ex_states by auto
  obtain pk where pk: "map_of (sv_acks s) ''g'' = Some pk" "pk_kind pk = HomeAck 1 1"
    using s(2) by (cases "sv_acks s") (auto simp: ack_view_def)
  then show ?thesis using registration_has_deadline [OF s(1) ex_start pk(1), of ex_server_env True] pk(2)
    by (intro exI [of _ s] exI [of _ pk]) (simp add: pk(1))
qed



section \<open>The invariant along every history\<close>

text \<open>
  C4. The server keeps its books along every history of messages, handlers, timers and disconnects.
  The register of sessions is exactly the logged-in sessions, one per guid, and the session store has
  the same guids; whoever waits for an acknowledgement is a live session whose deadline is armed, for
  an instance the registry knows; timers in use are distinct from those still to come; the instance
  tables and the teams keep their own invariants.
\<close>

theorem server_invariant:
  assumes "server_run n s s'" "routing_ok s"
  shows "routing_ok s'"
  by (rule server_run_ok [OF assms])

theorem server_invariant_witness:
  "\<exists>s. routing_ok s \<and> joined s = [(1, ''g'')]"
proof -
  obtain s where s: "server_run 3 ex_server s" "joined s = [(1, ''g'')]" using ex_states by blast
  then show ?thesis using server_invariant [OF s(1) ex_start] by blast
qed

end
