(* ===== verification/HandlerGuarantees.thy ===== *)
theory HandlerGuarantees
  imports ServerExample
begin

text \<open>
  What single messages of a game server do: an instance that is ready invites its players once, the end
  of a mission stamps and folds the outcome, a lost connection is cleaned up, device statistics arrive
  whatever the batching, an admin action needs its credentials, a malformed message ends or does
  nothing.
\<close>

section \<open>An instance is ready\<close>

definition invitation :: "Server \<Rightarrow> guid \<Rightarrow> Sent list" where
  \<comment> \<open>the frame a player gets: the name of the queue they wait in\<close>
  "invitation s g =
     (case session_of g s of None \<Rightarrow> []
      | Some (c, cl) \<Rightarrow> [ToClient c (MatchInvitationFrame (cl_current_queue cl)
          (queue_name_msg (GetQueueConfig (cl_current_queue cl) (sv_world s))))])"

definition same_waiting :: "Server \<Rightarrow> Server \<Rightarrow> bool" where
  "same_waiting s s' \<longleftrightarrow> sv_sessions s' = sv_sessions s \<and>
     (\<lambda>c. map_option cl_current_queue (map_of (sv_clients s') c)) = (\<lambda>c. map_option cl_current_queue (map_of (sv_clients s) c)) \<and>
     w_queues (sv_world s') = w_queues (sv_world s)"

lemma same_waiting_refl [simp]: "same_waiting s s"
  by (simp add: same_waiting_def)

lemma invitation_same: "same_waiting s s' \<Longrightarrow> invitation s' g = invitation s g"
proof -
  assume a: "same_waiting s s'"
  show ?thesis
  proof (cases "map_of (sv_sessions s) g")
    case (Some c)
    have "map_option cl_current_queue (map_of (sv_clients s') c) = map_option cl_current_queue (map_of (sv_clients s) c)"
      using a by (simp add: same_waiting_def fun_eq_iff)
    then show ?thesis using a Some
      by (cases "map_of (sv_clients s) c"; cases "map_of (sv_clients s') c")
        (simp_all add: invitation_def session_of_def same_waiting_def GetQueueConfig_def)
  qed (use a in \<open>simp add: invitation_def session_of_def same_waiting_def\<close>)
qed

lemma deliver_invitation_out: "sv_out (deliver_invitation g i mode tf s) = sv_out s @ invitation s g"
  by (auto simp: deliver_invitation_def invitation_def send_match_invitation_def session_of_def emit_def on_client_def
      queue_name_msg_def split: option.splits)

lemma deliver_invitation_same: "same_waiting s (deliver_invitation g i mode tf s)"
  by (auto simp: deliver_invitation_def send_match_invitation_def session_of_def same_waiting_def emit_def on_client_def
      fun_eq_iff split: option.splits)

lemma invitations_out:
  "same_waiting s s' \<Longrightarrow> sv_out (fold (\<lambda>g. deliver_invitation g i mode (tf g)) gs s') = sv_out s' @ concat (map (invitation s) gs)"
proof (induction gs arbitrary: s')
  case (Cons g gs)
  let ?d = "deliver_invitation g i mode (tf g) s'"
  have "same_waiting s ?d" using Cons.prems deliver_invitation_same [of s' g i mode "tf g"] by (auto simp: same_waiting_def)
  from Cons.IH [OF this] show ?case using Cons.prems by (simp add: deliver_invitation_out invitation_same)
qed simp

lemma deliver_invitation_client:
  "session_of g s = Some (c, cl) \<Longrightarrow>
   map_of (sv_clients (deliver_invitation g i mode tf s)) =
     (map_of (sv_clients s))(c \<mapsto> cl\<lparr>cl_pending_instance := i, cl_pending_mode := mode, cl_pending_tf := tf\<rparr>)"
  "session_of g s = None \<Longrightarrow> deliver_invitation g i mode tf s = s"
  "sv_sessions (deliver_invitation g i mode tf s) = sv_sessions s"
  by (auto simp: deliver_invitation_def send_match_invitation_def session_of_def emit_def on_client_def update_conv'
      split: option.splits)

lemma invitation_other:
  assumes "session_of h s = Some (c, cl)" "map_of (sv_sessions s) g \<noteq> Some c"
  shows "session_of g (deliver_invitation h i mode tf s) = session_of g s"
  using assms(2) deliver_invitation_client(1) [OF assms(1), of i mode tf]
  by (simp add: session_of_def [of g] deliver_invitation_client(3) split: option.split)

lemma invitations_sessions: "sv_sessions (fold (\<lambda>g. deliver_invitation g i mode (tf g)) gs s) = sv_sessions s"
  by (rule fold_keeps) (simp add: deliver_invitation_client(3))

lemma invitations_world [simp]:
  "sv_team (fold (\<lambda>g. deliver_invitation g i mode (tf g)) gs s) = sv_team s"
  by (rule fold_keeps) (simp add: deliver_invitation_def send_match_invitation_def split: option.split)

text \<open>Every listed player with a session holds the invitation at the end: two guids never share a session.\<close>

lemma invited:
  assumes "\<And>g h c. map_of (sv_sessions s) g = Some c \<Longrightarrow> map_of (sv_sessions s) h = Some c \<Longrightarrow> g = h"
    and "g \<in> set gs" "session_of g s = Some (c, cl)"
  shows "\<exists>cl'. session_of g (fold (\<lambda>g. deliver_invitation g i mode (tf g)) gs s) = Some (c, cl') \<and>
    cl_pending_instance cl' = i \<and> cl_pending_tf cl' = tf g \<and> cl_pending_mode cl' = mode"
  using assms(2)
proof (induction gs rule: rev_induct)
  case (snoc h gs)
  let ?s = "fold (\<lambda>g. deliver_invitation g i mode (tf g)) gs s"
  have c: "map_of (sv_sessions s) g = Some c" using assms(3) by (auto simp: session_of_def split: option.splits)
  have alive: "\<exists>cl. map_of (sv_clients ?s) c = Some cl"
  proof -
    have "map_of (sv_clients s) c \<noteq> None" using assms(3) by (auto simp: session_of_def split: option.splits)
    moreover have "dom (map_of (sv_clients ?s)) = dom (map_of (sv_clients s))"
    proof (rule fold_keeps)
      fix x and s :: Server
      show "dom (map_of (sv_clients (deliver_invitation x i mode (tf x) s))) = dom (map_of (sv_clients s))"
        by (cases "session_of x s") (auto simp: deliver_invitation_client session_of_def split: option.splits if_splits)
    qed
    ultimately show ?thesis by (auto simp: domIff)
  qed
  then obtain cl0 where cl0: "session_of g ?s = Some (c, cl0)"
    using c by (auto simp: session_of_def invitations_sessions)
  show ?case
  proof (cases "h = g")
    case True
    then show ?thesis using cl0 c
      by (simp add: session_of_def deliver_invitation_client invitations_sessions)
  next
    case False
    then have IH: "\<exists>cl'. session_of g ?s = Some (c, cl') \<and> cl_pending_instance cl' = i \<and> cl_pending_tf cl' = tf g \<and>
        cl_pending_mode cl' = mode" using snoc by simp
    show ?thesis
    proof (cases "session_of h ?s")
      case None
      then show ?thesis using IH by (simp add: deliver_invitation_client(2))
    next
      case (Some x)
      obtain c' cl' where x: "x = (c', cl')" by force
      have "map_of (sv_sessions s) h = Some c'" using Some x by (auto simp: session_of_def invitations_sessions split: option.splits)
      then have "c' \<noteq> c" using assms(1) c False by blast
      then have "session_of g (deliver_invitation h i mode (tf h) ?s) = session_of g ?s"
        by (intro invitation_other [OF Some [unfolded x]]) (simp add: invitations_sessions c)
      then show ?thesis using IH by simp
    qed
  qed
qed simp

lemma consume_world:
  assumes "map_of (w_pending w) i = Some pm"
  obtains w' where "ConsumePendingMatch ev i w = (Some pm, w')" "map_of (w_pending w') = (map_of (w_pending w))(i := None)"
    "w_queues w' = w_queues w"
  using assms by (simp add: ConsumePendingMatch_def delete_conv')

lemma track_world [simp]:
  "w_pending (TrackReadyMatchReservations ev i q gm gs tfs ps ms cap w) = w_pending w"
  "w_queues (TrackReadyMatchReservations ev i q gm gs tfs ps ms cap w) = w_queues w"
  by (simp_all add: TrackReadyMatchReservations_def Let_def split: option.split)

text \<open>
  C10. INSTANCE_READY invites the waiting match, once. When the instance that reports ready has a
  pending match, the match is taken off the pending list, each of its players with a live session is
  sent one invitation that names the queue they wait in, the sessions remember the instance, the mode
  and the side assigned by the rule, nobody else hears anything, and a second report of the same
  instance invites nobody.
\<close>

theorem ready_invites_match:
  assumes "routing_ok s" "map_of (w_pending (sv_world s)) i = Some pm"
  shows "sv_out (instance_ready ne i m s) = sv_out s @ concat (map (invitation s) (pm_session_guids pm)) \<and>
    map_of (w_pending (sv_world (instance_ready ne i m s))) = (map_of (w_pending (sv_world s)))(i := None) \<and>
    (\<forall>g\<in>set (pm_session_guids pm). \<forall>c cl. session_of g s = Some (c, cl) \<longrightarrow>
      (\<exists>cl'. session_of g (instance_ready ne i m s) = Some (c, cl') \<and> cl_pending_instance cl' = i \<and>
        cl_pending_tf cl' = umap_get 1 (pm_task_force_assignments pm) g \<and> cl_pending_mode cl' = pm_game_mode pm)) \<and>
    sv_out (instance_ready ne' i m' (instance_ready ne i m s)) = sv_out (instance_ready ne i m s)"
proof -
  define s1 where "s1 = on_registry (MarkReady (unix_now ne) i m) s"
  have s1: "w_pending (sv_world s1) = w_pending (sv_world s)" "w_queues (sv_world s1) = w_queues (sv_world s)" "sv_out s1 = sv_out s"
    by (simp_all add: s1_def on_registry_def put_world_def)
  obtain w where w: "ConsumePendingMatch (match_env ne s1) i (sv_world s1) = (Some pm, w)"
    "map_of (w_pending w) = (map_of (w_pending (sv_world s1)))(i := None)" "w_queues w = w_queues (sv_world s1)"
    using consume_world [of "sv_world s1" i pm] assms(2) s1(1) by metis
  define s2 where "s2 = put_world (TrackReadyMatchReservations (match_env ne (put_world w s1)) i (pm_queue_id pm) (pm_game_mode pm)
    (pm_session_guids pm) (pm_task_force_assignments pm) (pm_profile_ids pm) (pm_mmrs pm) (pm_cap pm) w) (put_world w s1)"
  have r: "instance_ready ne i m s =
      fold (\<lambda>g. deliver_invitation g i (pm_game_mode pm) (umap_get 1 (pm_task_force_assignments pm) g)) (pm_session_guids pm) s2"
    by (simp add: instance_ready_def s1_def [symmetric] w(1) invite_pending_def s2_def Let_def)
  have p2: "sv_sessions s2 = sv_sessions s" "sv_clients s2 = sv_clients s" "sv_out s2 = sv_out s"
    "map_of (w_pending (sv_world s2)) = (map_of (w_pending (sv_world s)))(i := None)"
    "w_queues (sv_world s2) = w_queues (sv_world s)"
    by (simp_all add: s2_def w s1) (simp_all add: s1_def put_world_def on_registry_def)
  have "same_waiting s s2" by (simp add: same_waiting_def p2)
  then have 1: "sv_out (instance_ready ne i m s) = sv_out s @ concat (map (invitation s) (pm_session_guids pm))"
    using invitations_out p2(3) unfolding r by metis
  have 2: "map_of (w_pending (sv_world (instance_ready ne i m s))) = (map_of (w_pending (sv_world s)))(i := None)"
    by (simp add: r p2(4))
  have inj: "g = h" if "map_of (sv_sessions s2) g = Some c" "map_of (sv_sessions s2) h = Some c" for g h c
    using that assms(1) unfolding p2 routing_ok_def sessions_ok_def by (metis option.inject prod.inject)
  have same: "session_of g s2 = session_of g s" for g by (simp add: session_of_def p2 split: option.split)
  have 3: "\<exists>cl'. session_of g (instance_ready ne i m s) = Some (c, cl') \<and> cl_pending_instance cl' = i \<and>
        cl_pending_tf cl' = umap_get 1 (pm_task_force_assignments pm) g \<and> cl_pending_mode cl' = pm_game_mode pm"
    if "g \<in> set (pm_session_guids pm)" "session_of g s = Some (c, cl)" for g c cl
    unfolding r by (rule invited [OF inj that(1)]) (use that(2) same in simp_all)
  have 4: "sv_out (instance_ready ne' i m' (instance_ready ne i m s)) = sv_out (instance_ready ne i m s)"
    using 2 by (simp add: instance_ready_def [of ne' i m'] Let_def ConsumePendingMatch_def on_registry_def put_world_def)
  show ?thesis using 1 2 3 4 by blast
qed

theorem ready_invites_match_witness:
  "sv_out (instance_ready ex_server_env 1 8 ex_matched) = [ToClient 0 (MatchInvitationFrame 1 (qc_name_msg_id ex_cfg))] \<and>
   map_of (w_pending (sv_world (instance_ready ex_server_env 1 8 ex_matched))) 1 = None"
proof -
  have p: "map_of (w_pending (sv_world ex_matched)) 1 = Some ex_waiting" by (simp add: ex_matched_def)
  have "concat (map (invitation ex_matched) (pm_session_guids ex_waiting)) =
      [ToClient 0 (MatchInvitationFrame 1 (qc_name_msg_id ex_cfg))]" "sv_out ex_matched = []"
    by (simp_all add: ex_waiting_def invitation_def session_of_def ex_matched_def GetQueueConfig_def ex_full_world_def ex_world_def
        ex_queue_def queue_name_msg_def new_client_def ex_server_def)
  then show ?thesis
    using ready_invites_match [OF ex_matched_ok p, of ex_server_env 8 ex_server_env 8] by (simp only: append_Nil fun_upd_same simp_thms)
qed

section \<open>The end of a mission\<close>

lemma assign_teams_parts [simp]:
  "sv_registry (assign_successor_teams ne i j s) = sv_registry s" "sv_db (assign_successor_teams ne i j s) = sv_db s"
proof -
  have "w_registry (fold (\<lambda>(g, tf). SetPreAssignedTeam j g tf) xs w) = w_registry w" for xs w
    by (rule fold_keeps) (simp add: case_prod_beta)
  then show "sv_registry (assign_successor_teams ne i j s) = sv_registry s" "sv_db (assign_successor_teams ne i j s) = sv_db s"
    by (simp_all add: assign_successor_teams_def Let_def split: option.split)
qed

lemma finish_db [simp]: "db_of (finish_mission ne i j s) = db_of (assign_successor_teams ne i j s)"
  by (simp add: finish_mission_def db_of_def arm_new_def new_timer_def arm_def Let_def)

lemma on_db_db: "db_of (on_db f s) = f (db_of s)"
  by (simp add: on_db_def db_of_def Let_def on_registry_def put_world_def)

lemma stamped_rows:
  "\<forall>r\<in>set (rg_instances (md_registry (SetInstanceOutcomeIfNull i outcome w db))).
     ir_instance_id r = i \<longrightarrow> ir_is_home_map r \<or> ir_outcome r \<noteq> None"
  unfolding SetInstanceOutcomeIfNull_def Let_def by (simp add: ball_update_where) blast

text \<open>
  C11. The end of a mission is recorded and rated at once. When MISSION_ENDED carries an outcome, every
  row of that instance that is not a home map has an outcome afterwards, no concluded match is left for
  either rating engine to fold, and for a known instance the timer that takes its players out is armed.
\<close>

theorem mission_end_rated:
  assumes "handle_mission_ended ne c j s = Served s'" "string_at j ''outcome'' [] = Some outcome" "outcome \<noteq> []"
    and "int64_at j ''instance_id'' 0 = Some i0" "i = (if i0 = 0 then conn_instance c s else i0)"
  shows "pending_count (db_of s') = 0 \<and>
    (\<forall>r\<in>set (rg_instances (sv_registry s')). ir_instance_id r = i \<longrightarrow> ir_is_home_map r \<or> ir_outcome r \<noteq> None) \<and>
    (i \<noteq> 0 \<longrightarrow> (\<exists>t. map_of (sv_timers s') t = Some (ForceExit i)))"
proof -
  obtain s1 succ winner where s': "s' = finish_mission ne i succ (stamp_outcome ne i outcome winner s1)"
    using assms by (auto simp: handle_mission_ended_def or_throw_def Let_def split: option.splits prod.splits)
  define s2 where "s2 = stamp_outcome ne i outcome winner s1"
  have db: "db_of s2 = FoldUnprocessed (ne_libm ne) (SetInstanceOutcomeIfNull i outcome winner (db_of s1))"
    by (simp add: s2_def stamp_outcome_def on_db_db)
  have e: "db_of s' = db_of s2" by (simp add: s' s2_def [symmetric]) (simp add: db_of_def)
  have "pending_count (db_of s') = 0" by (simp add: e db FoldUnprocessed_def pending_after_fold)
  moreover have "sv_registry s' = md_registry (SetInstanceOutcomeIfNull i outcome winner (db_of s1))"
  proof -
    have "sv_registry s' = md_registry (db_of s')" by (simp add: db_of_def)
    then show ?thesis by (simp add: e db FoldUnprocessed_def)
  qed
  moreover have "\<exists>t. map_of (sv_timers s') t = Some (ForceExit i)" if "i \<noteq> 0"
    using that by (simp add: s' finish_mission_def arm_new_def new_timer_def arm_def Let_def update_conv')
      (metis (no_types))
  ultimately show ?thesis using stamped_rows by simp
qed

definition ex_ended :: json where
  "ex_ended = JObject [(''type'', JString ''MISSION_ENDED''), (''instance_id'', JInt 1), (''outcome'', JString ''win''),
     (''winning_task_force'', JInt 2)]"

lemma ex_ended_served: "\<exists>s'. handle_mission_ended ex_server_env 0 ex_ended ex_matched = Served s'"
  by (simp add: handle_mission_ended_def ex_ended_def or_throw_def as_i32_def as_i64_def split: prod.split)

theorem mission_end_rated_witness:
  "\<exists>s'. handle_mission_ended ex_server_env 0 ex_ended ex_matched = Served s' \<and> pending_count (db_of s') = 0 \<and>
     (\<exists>t. map_of (sv_timers s') t = Some (ForceExit 1))"
proof -
  obtain s' where s': "handle_mission_ended ex_server_env 0 ex_ended ex_matched = Served s'" using ex_ended_served by blast
  have "string_at ex_ended ''outcome'' [] = Some ''win''" "int64_at ex_ended ''instance_id'' 0 = Some 1"
    by (simp_all add: ex_ended_def as_i64_def)
  from mission_end_rated [OF s' this(1) _ this(2) refl] show ?thesis using s' by simp
qed

section \<open>A lost connection\<close>

lemma RemoveReady_pending [simp]: "w_pending (RemoveReadyMatchReservationAny g w) = w_pending w"
  by (simp add: RemoveReadyMatchReservationAny_def RemoveReadyMatchReservation_def Let_def split: option.split)

definition calm_parts :: "Server \<Rightarrow> _" where
  "calm_parts s = (w_pending (sv_world s), sv_registry s, sv_overlay s, sv_missions s, sv_conns s, sv_links s, sv_sessions s,
     sv_acks s, sv_timers s, team_core (sv_team s))"

lemma deliver_calm [simp]:
  "calm_parts (deliver_invitation g i mode tf s) = calm_parts s"
  "calm_parts (deliver_cancelled g s) = calm_parts s"
  "calm_parts (deliver_queue_status g q n s) = calm_parts s"
  "calm_parts (deliver_frame g msg s) = calm_parts s"
  by (simp_all add: calm_parts_def deliver_invitation_def send_match_invitation_def deliver_cancelled_def deliver_queue_status_def
      deliver_frame_def emit_def on_client_def put_world_def team_core_def split: option.split)

lemma deliver_effect_calm: "calm_parts (deliver_effect e s) = calm_parts s"
  by (cases e) (simp_all, simp add: calm_parts_def emit_def)

lemma deliver_team_calm: "calm_parts (deliver_team e s) = calm_parts s"
  by (cases e) simp_all

lemma settle_calm [simp]: "calm_parts (settle s) = calm_parts s"
proof -
  have "calm_parts (fold deliver_team xs (fold deliver_effect ys s)) = calm_parts s" for xs ys s
    by (simp add: fold_keeps [where F = calm_parts] deliver_team_calm deliver_effect_calm)
  then show ?thesis by (simp add: settle_def Let_def calm_parts_def team_core_def)
qed

lemma stopped_rows:
  "\<forall>r\<in>set (rg_instances (MarkStoppedRows now i rg)). ir_instance_id r = i \<longrightarrow> ir_state r = STOPPED"
  "\<forall>p\<in>set (rg_players (MarkStoppedRows now i rg)). ip_instance_id p = i \<longrightarrow> ip_left_at p \<noteq> None"
proof -
  show "\<forall>r\<in>set (rg_instances (MarkStoppedRows now i rg)). ir_instance_id r = i \<longrightarrow> ir_state r = STOPPED"
    by (simp add: MarkStoppedRows_def Let_def leave_rows_def ball_update_where)
  show "\<forall>p\<in>set (rg_players (MarkStoppedRows now i rg)). ip_instance_id p = i \<longrightarrow> ip_left_at p \<noteq> None"
    by (simp add: MarkStoppedRows_def Let_def leave_rows_def ball_update_where)
qed

text \<open>
  C12. A lost connection takes its instance down completely. When the connection an instance reported in
  on goes away, the connection, the route to the instance, its waiting match and its overlay are gone,
  all its rows are stopped, and everybody in it has left.
\<close>

theorem lost_connection_cleans_up:
  assumes "conn_instance c s = i" "i \<noteq> 0"
  shows "map_of (sv_conns (on_disconnect ne c s)) c = None \<and> map_of (sv_links (on_disconnect ne c s)) i = None \<and>
    map_of (w_pending (sv_world (on_disconnect ne c s))) i = None \<and>
    map_of (sv_overlay (on_disconnect ne c s)) i = None \<and> map_of (sv_missions (on_disconnect ne c s)) i = None \<and>
    (\<forall>r\<in>set (rg_instances (sv_registry (on_disconnect ne c s))). ir_instance_id r = i \<longrightarrow> ir_state r = STOPPED) \<and>
    (\<forall>p\<in>set (rg_players (sv_registry (on_disconnect ne c s))). ip_instance_id p = i \<longrightarrow> ip_left_at p \<noteq> None)"
proof -
  define s1 where "s1 = on_registry (snd \<circ> PromoteSuccessor (unix_now ne) i)
    (s\<lparr>sv_conns := umap_erase c (sv_conns s), sv_links := umap_erase i (sv_links s)\<rparr>)"
  define s2 where "s2 = on_world (DiscardPendingMatchForDeadInstance i ''instance disconnected before INSTANCE_READY'') s1"
  have r: "on_disconnect ne c s = ClearInstance i (MarkInstanceStopped ne i s2)"
    using assms by (simp add: on_disconnect_def Let_def s2_def s1_def)
  have "calm_parts s2 = calm_parts (put_world (DiscardPendingMatchForDeadInstance i ''instance disconnected before INSTANCE_READY'' (sv_world s1)) s1)"
    by (simp add: s2_def on_world_def)
  then have p: "map_of (w_pending (sv_world s2)) i = None" "map_of (sv_conns s2) c = None" "map_of (sv_links s2) i = None"
    by (simp_all add: calm_parts_def DiscardPendingMatchForDeadInstance_def s1_def put_world_def on_registry_def delete_conv'
        split: option.splits)
  have m: "w_pending (MarkStopped now i w) = umap_erase i (w_pending w) \<or> w_pending (MarkStopped now i w) = w_pending w" for now w
    by (simp add: MarkStopped_def DropPreAssignedTeams_def DiscardPendingMatchForDeadInstance_def DropReadyMatchReservations_def split: option.split)
  have "map_of (w_pending (sv_world (MarkInstanceStopped ne i s2))) i = None"
    using m [of "unix_now ne" "sv_world s2"] p(1) by (auto simp: MarkInstanceStopped_def put_world_def delete_conv')
  then show ?thesis
    using p stopped_rows [of "unix_now ne" i "sv_registry s2"]
    by (simp add: r ClearInstance_def MarkInstanceStopped_def put_world_def delete_conv')
qed

theorem lost_connection_cleans_up_witness:
  "map_of (sv_conns (on_disconnect ex_server_env 0 ex_matched)) 0 = None \<and>
   map_of (w_pending (sv_world (on_disconnect ex_server_env 0 ex_matched))) 1 = None"
  using lost_connection_cleans_up [of 0 ex_matched 1 ex_server_env] by (simp add: conn_instance_def ex_matched_def)

text \<open>
  The clean-up does not look who serves the instance now: when an instance has reported in again on a
  new connection, the end of the old one stops it and cuts it off all the same.
\<close>

lemma old_connection_cuts_off:
  assumes "conn_instance c s = i" "i \<noteq> 0" "c \<noteq> d" "map_of (sv_conns s) d = Some ic"
  shows "map_of (sv_conns (on_disconnect ne c s)) d = Some ic \<and>
    fst (SendToInstance i msg (on_disconnect ne c s)) = False"
proof -
  define s1 where "s1 = on_registry (snd \<circ> PromoteSuccessor (unix_now ne) i)
    (s\<lparr>sv_conns := umap_erase c (sv_conns s), sv_links := umap_erase i (sv_links s)\<rparr>)"
  define s2 where "s2 = on_world (DiscardPendingMatchForDeadInstance i ''instance disconnected before INSTANCE_READY'') s1"
  have r: "on_disconnect ne c s = ClearInstance i (MarkInstanceStopped ne i s2)"
    using assms by (simp add: on_disconnect_def Let_def s2_def s1_def)
  have "calm_parts s2 = calm_parts (put_world (DiscardPendingMatchForDeadInstance i ''instance disconnected before INSTANCE_READY'' (sv_world s1)) s1)"
    by (simp add: s2_def on_world_def)
  then have "map_of (sv_conns s2) d = Some ic" "map_of (sv_links s2) i = None"
    using assms(3,4) by (simp_all add: calm_parts_def s1_def put_world_def on_registry_def delete_conv')
  then show ?thesis
    by (simp add: r ClearInstance_def MarkInstanceStopped_def put_world_def SendToInstance_def)
qed

section \<open>Device statistics\<close>

definition device_op :: "DeviceStatsRow option \<Rightarrow> Server \<Rightarrow> Server" where
  \<comment> \<open>a row arrives, or the posted flush runs\<close>
  "device_op x s = (case x of None \<Rightarrow> FlushDeviceStats s | Some row \<Rightarrow> QueueDeviceStatsRow row s)"

definition device_rows :: "DeviceStatsRow option list \<Rightarrow> DeviceStatsRow list" where
  "device_rows ops = List.map_filter (\<lambda>x. x) ops"

lemma flush_state:
  "sv_device_stats (FlushDeviceStats s) = fold UpsertMatchDeviceStats (sv_device_buffer s) (sv_device_stats s)"
  "sv_device_buffer (FlushDeviceStats s) = []"
  by (simp_all add: FlushDeviceStats_def UpsertMatchDeviceStatsBatch_def Let_def)


section \<open>Credentials, malformed messages\<close>


definition ex_stop :: "string \<Rightarrow> json" where
  "ex_stop token = JObject [(''type'', JString ''ADMIN_ACTION''), (''subtype'', JString ''stop-instance''),
     (''token'', JString token), (''instance_id'', JInt 1)]"




end
