(* ===== verification/SessionGuarantees.thy ===== *)
theory SessionGuarantees
  imports ServerExample
begin

text \<open>
  What the handlers of a player session promise: a login takes over every other session of the name, a
  disconnect forgets the session everywhere, an open-world zone never runs twice, and joining a queue.
\<close>

section \<open>Logging in\<close>

lemma takeover_clears: "GetByPlayerName name (takeover ne name s) = None"
proof (induction ne name s rule: takeover.induct)
  case (1 ne name s)
  then show ?case
  proof (cases "GetByPlayerName name s")
    case None
    then show ?thesis by (simp add: takeover.simps [of ne name s])
  next
    case (Some x)
    then show ?thesis using 1 by (cases x) (simp add: takeover.simps [of ne name s])
  qed
qed

lemma start_store [simp]: "sv_store (snd (start_instance ne m gm h q p d port s)) = sv_store s"
  by (simp add: start_instance_def Let_def MarkInstanceStopped_def split: prod.split)

lemma spawn_home_store: "after (SpawnHomeMap ne s) (\<lambda>s'. sv_store s' = sv_store s)"
  by (simp add: SpawnHomeMap_def with_port_def split: option.split)

lemma warm_store: "after (EnsureHomeMapWarm ne s) (\<lambda>s'. sv_store s' = sv_store s)"
  by (simp add: EnsureHomeMapWarm_def spawn_home_store split: option.split)

lemma update_members: "(k', v') \<in> set (AList.update k v m) \<Longrightarrow> (k', v') \<in> set m \<or> k' = k \<and> v' = v"
  by (induction m) (auto split: if_splits)

text \<open>
  C13. A login takes over. When duplicate logins are not allowed, a completed login leaves nobody else
  under the name, in any capitalisation: every session the store lists under it has the new guid, the
  new guid is registered for this connection, and the books are consistent again.
\<close>

theorem login_takes_over:
  assumes "routing_ok s" "client_key s c = Some ([], a)" "g \<noteq> []" "map_of (sv_sessions s) g = None"
    and "\<not> ne_allow_duplicate_logins ne" "CompleteLogin ne c name user g row s = Served s'"
  shows "routing_ok s' \<and> (\<exists>cl. session_of g s' = Some (c, cl) \<and> cl_guid cl = g) \<and>
    (\<forall>(g', i)\<in>set (sv_store s'). NamesEqualCi (se_player_name i) name \<longrightarrow> g' = g)"
proof -
  have ok: "routing_ok s'" by (rule after_Served [OF CompleteLogin_ok [OF assms(1-4)] assms(6)])
  define s1 where "s1 = takeover ne name s"
  define s4 where "s4 = (let s3 = on_client c (\<lambda>cl. cl\<lparr>cl_guid := g, cl_player_name := name, cl_user_id := user, cl_session_row := row\<rparr>)
      (s1\<lparr>sv_sessions := umap_put g c (sv_sessions s1)\<rparr>)
    in s3\<lparr>sv_store := umap_put g \<lparr>se_guid = g, se_player_name = name, se_user_id = user,
         se_character_id = 0, se_profile_id = 0\<rparr> (sv_store s3)\<rparr>)"
  obtain s5 where s5: "EnsureHomeMapWarm ne s4 = Served s5" "s' = emit (ToClient c LoginResponse) s5"
    using assms(5,6)
    by (cases "EnsureHomeMapWarm ne s4") (auto simp: CompleteLogin_def s4_def s1_def Let_def)
  have st: "sv_store s' = sv_store s4" using after_Served [OF warm_store s5(1)] by (simp add: s5(2))
  have "keeps s4 s5" by (rule after_Served [OF EnsureHomeMapWarm_keeps [OF keeps_refl] s5(1)])
  then have "map_of (sv_sessions s') g = map_of (sv_sessions s4) g" by (simp add: s5(2) keeps_def)
  then have reg: "map_of (sv_sessions s') g = Some c" by (simp add: s4_def Let_def)
  then have "\<exists>t. client_key s' c = Some (g, t)" using ok unfolding routing_ok_def sessions_ok_def by blast
  then have 1: "\<exists>cl. session_of g s' = Some (c, cl) \<and> cl_guid cl = g"
    using reg by (auto simp: session_of_def client_key_def)
  have none: "\<not> NamesEqualCi (se_player_name i) name" if "(g', i) \<in> set (sv_store s1)" for g' i
    using takeover_clears [of name ne s] that by (auto simp: GetByPlayerName_def find_None_iff s1_def)
  have "g' = g" if "(g', i) \<in> set (sv_store s')" "NamesEqualCi (se_player_name i) name" for g' i
    using that none unfolding st by (auto simp: s4_def Let_def dest: update_members)
  then show ?thesis using ok 1 by auto
qed

text \<open>The player of the example logs in a second time, from another connection and in capitals.\<close>

theorem login_takes_over_witness:
  "\<exists>s'. CompleteLogin ex_server_env 1 ''ANN'' 1 ''h'' 12 (OpenClient ex_matched) = Served s' \<and>
     (\<exists>cl. session_of ''h'' s' = Some (1, cl)) \<and>
     (\<forall>(g', i)\<in>set (sv_store s'). NamesEqualCi (se_player_name i) ''ANN'' \<longrightarrow> g' = ''h'')"
proof -
  have "case CompleteLogin ex_server_env 1 ''ANN'' 1 ''h'' 12 (OpenClient ex_matched) of Served _ \<Rightarrow> True | _ \<Rightarrow> False"
    by code_simp
  then obtain s' where s': "CompleteLogin ex_server_env 1 ''ANN'' 1 ''h'' 12 (OpenClient ex_matched) = Served s'"
    by (cases "CompleteLogin ex_server_env 1 ''ANN'' 1 ''h'' 12 (OpenClient ex_matched)") simp_all
  have "client_key (OpenClient ex_matched) 1 = Some ([], None)" "map_of (sv_sessions (OpenClient ex_matched)) ''h'' = None"
    "\<not> ne_allow_duplicate_logins ex_server_env"
    by (simp_all add: OpenClient_def ex_matched_def client_key_def new_client_def ex_server_env_def)
  from login_takes_over [OF OpenClient_ok [OF ex_matched_ok] this(1) _ this(2,3) s'] show ?thesis using s' by auto
qed

section \<open>Disconnecting\<close>

lemma leave_unteamed:
  assumes "team_world_ok tw"
  shows "FindTeamByMember g (snd (LeaveCurrentTeam env g tw)) = None"
proof (cases "FindTeamByMember g tw")
  case None
  then show ?thesis by (simp add: LeaveCurrentTeam_def Let_def)
next
  case (Some t)
  obtain as bs where s: "ts_teams tw = as @ t # bs" by (metis FindTeamByMember_def Some find_Some_in_set split_list)
  have T: "teams_ok (as @ t # bs) (ts_next_team_id tw)" using assms s by (simp add: team_world_ok_def)
  have "g \<in> set (team_guids t)" by (rule found_team_ok(5) [OF assms Some])
  then have "g \<notin> set (all_guids (as @ bs))" using teams_ok_parts [OF T] by auto
  moreover have "distinct (team_guids t)" using teams_ok_parts [OF T] by auto
  ultimately show ?thesis
    unfolding find_None_guids by (auto simp: leave_result [OF assms Some s] without_guids)
qed

lemma settle_team [simp]:
  "FindTeamByMember g (sv_team (settle s)) = FindTeamByMember g (sv_team s)"
  "ts_invites (sv_team (settle s)) = ts_invites (sv_team s)"
  "sv_acks (settle s) = sv_acks s" "sv_timers (settle s) = sv_timers s" "sv_sessions (settle s) = sv_sessions s"
proof -
  define F where "F = (\<lambda>s :: Server. (ts_teams (sv_team s), ts_invites (sv_team s), sv_acks s, sv_timers s, sv_sessions s))"
  have d: "F (deliver_invitation g i mode tf s) = F s" "F (deliver_cancelled g s) = F s"
    "F (deliver_queue_status g q n s) = F s" "F (deliver_frame g msg s) = F s" "F (emit x s) = F s" for g i mode tf s q n msg x
    by (simp_all add: F_def deliver_invitation_def send_match_invitation_def deliver_cancelled_def deliver_queue_status_def
        deliver_frame_def put_world_def split: option.split)
  have "F (deliver_effect e s) = F s" "F (deliver_team t s) = F s" for e t s
    by (cases e; simp add: d) (cases t; simp add: d)
  then have "F (fold deliver_team xs (fold deliver_effect ys s)) = F s" for xs ys s
    by (simp add: fold_keeps [where F = F])
  then have "F (settle s) = F s" by (simp add: settle_def Let_def F_def)
  then show "FindTeamByMember g (sv_team (settle s)) = FindTeamByMember g (sv_team s)"
    "ts_invites (sv_team (settle s)) = ts_invites (sv_team s)"
    "sv_acks (settle s) = sv_acks s" "sv_timers (settle s) = sv_timers s" "sv_sessions (settle s) = sv_sessions s"
    by (simp_all add: F_def FindTeamByMember_def)
qed

lemma leave_invites [simp]: "ts_invites (snd (LeaveCurrentTeam env g tw)) = ts_invites tw"
  by (simp add: LeaveCurrentTeam_def update_team_def Let_def split: option.split)

lemma exit_forgets:
  assumes "team_world_ok tw"
  shows "FindTeamByMember g (HandleDisconnect env g tw) = None"
    "\<forall>iv\<in>set (ts_invites (HandleDisconnect env g tw)). \<not> involves g iv"
  using leave_unteamed [OF cancel_ok [OF assms]]
  by (simp_all add: HandleDisconnect_def HandleVoluntaryExit_def) (simp add: CancelInvitesFor_def)

text \<open>
  C14. A disconnect forgets the player everywhere. Afterwards the guid is in no register of sessions, has
  no entry in the session store, waits for no instance and its deadline is disarmed, is in no team and
  neither end of an invitation, and the session has no guid; the books are consistent.
\<close>

theorem disconnect_forgets:
  assumes "routing_ok s" "map_of (sv_clients s) c = Some cl" "cl_guid cl = g" "g \<noteq> []"
  shows "let s' = handle_socket_disconnect ne c s in
    routing_ok s' \<and> map_of (sv_sessions s') g = None \<and> map_of (sv_store s') g = None \<and> map_of (sv_acks s') g = None \<and>
    (\<forall>t. cl_ack_timer cl = Some t \<longrightarrow> map_of (sv_timers s') t = None) \<and>
    \<not> IsTeamed g (sv_team s') \<and> (\<forall>iv\<in>set (ts_invites (sv_team s')). \<not> involves g iv) \<and>
    client_key s' c = Some ([], None)"
proof -
  define s2 where "s2 = (case cl_ack_timer cl of None \<Rightarrow> finalize_row c cl s
    | Some t \<Rightarrow> on_client c (\<lambda>cl. cl\<lparr>cl_ack_timer := None\<rparr>) (cancel t (finalize_row c cl s)))"
  define s3 where "s3 = close_instance_side ne c cl s2"
  define s4 where "s4 = on_world (RemovePlayer (match_env ne s3) g) s3"
  define s5 where "s5 = on_team (HandleDisconnect (team_env ne s4) g) s4"
  let ?s' = "handle_socket_disconnect ne c s"
  have r: "?s' = on_client c (\<lambda>cl. cl\<lparr>cl_guid := []\<rparr>) (StoreUnregister g (ClearPendingAck g (UnregisterSession g s5)))"
    using assms(2-4) by (simp add: handle_socket_disconnect_def Let_def s2_def s3_def forget_session_def s4_def s5_def)
  have ok: "routing_ok ?s'" by (rule disconnect_ok(1) [OF assms(1)])
  have key: "client_key ?s' c = Some ([], None)"
    using disconnect_ok(2) [OF assms(1), of ne c] assms(2) by (simp add: client_key_def)
  have "sv_team (finalize_row c cl s) = sv_team s" "sv_team s2 = sv_team (finalize_row c cl s)"
    by (simp_all add: finalize_row_def s2_def split: option.split)
  moreover have "team_world_ok (sv_team s3) = team_world_ok (sv_team s2)" "sv_timers s3 = sv_timers s2"
    by (simp_all add: s3_def close_instance_side_def Let_def on_registry_def put_world_def team_world_ok_def)
  ultimately have "team_world_ok (sv_team s3)" and tm: "sv_timers s3 = sv_timers s2" using assms(1) by (simp_all add: routing_ok_def)
  moreover have "keeps s3 s4" by (simp add: s4_def kept)
  ultimately have ok4: "team_world_ok (sv_team s4)" by (simp add: keeps_def)
  have team: "FindTeamByMember g (sv_team s5) = None" "\<forall>iv\<in>set (ts_invites (sv_team s5)). \<not> involves g iv"
    using exit_forgets [OF ok4] by (simp_all add: s5_def on_team_def)
  have timers: "map_of (sv_timers ?s') t = None" if "cl_ack_timer cl = Some t" for t
  proof -
    have "sv_timers ?s' = sv_timers s3"
      by (simp add: r StoreUnregister_def ClearPendingAck_def UnregisterSession_def s5_def on_team_def s4_def on_world_def put_world_def)
    then show ?thesis using that by (simp add: tm s2_def cancel_def delete_conv')
  qed
  have "sv_team ?s' = sv_team s5" by (simp add: r StoreUnregister_def UnregisterSession_def)
  moreover have "map_of (sv_sessions ?s') g = None" "map_of (sv_store ?s') g = None" "map_of (sv_acks ?s') g = None"
    by (simp_all add: r StoreUnregister_def ClearPendingAck_def UnregisterSession_def delete_conv')
  ultimately show ?thesis using ok key team timers by (simp add: Let_def IsTeamed_def)
qed

theorem disconnect_forgets_witness:
  "map_of (sv_sessions ex_matched) ''g'' = Some 0 \<and>
   map_of (sv_sessions (handle_socket_disconnect ex_server_env 0 ex_matched)) ''g'' = None \<and>
   client_key (handle_socket_disconnect ex_server_env 0 ex_matched) 0 = Some ([], None)"
  using disconnect_forgets [OF ex_matched_ok, of 0 _ "''g''" ex_server_env]
  by (simp add: Let_def) (simp add: ex_matched_def)

section \<open>A queue that does not exist\<close>

text \<open>The player hears that they have joined, the session notes the queue, and nobody has been queued.\<close>

lemma join_unknown_queue:
  assumes "map_of (sv_clients s) c = Some cl" "map_of (w_queues (sv_world s)) q = None"
  shows "\<exists>s1. send_match_join_response n ne c q override solo s =
    Served (emit (ToClient c (TeamSystemMessageFrame MSG_JOINED_QUEUE [])) (emit (ToClient c (MatchQueueStatusFrame q 0)) (settle s1))) \<and>
    sv_world s1 = sv_world s \<and> map_option cl_current_queue (map_of (sv_clients s1) c) = Some q"
  using assms
  by (simp add: send_match_join_response_def GetQueueConfig_def queue_name_msg_def run_world_def AddPlayer_def AddParty_def)
    (rule exI, rule conjI [OF refl], simp add: on_client_def)

section \<open>Open-world zones\<close>

definition is_live :: "string \<Rightarrow> InstanceRow \<Rightarrow> bool" where
  \<comment> \<open>what \<open>GetLiveInstanceByMapName\<close> looks for\<close>
  "is_live m r \<longleftrightarrow> ir_map_name r = m \<and> ir_state r \<in> {STARTING, READY}"

definition live_rows :: "string \<Rightarrow> Registry \<Rightarrow> InstanceRow list" where
  "live_rows m rg = filter (is_live m) (rg_instances rg)"

definition fewer_live :: "string \<Rightarrow> Server \<Rightarrow> Server \<Rightarrow> bool" where
  "fewer_live m s s' \<longleftrightarrow> length (live_rows m (sv_registry s')) \<le> length (live_rows m (sv_registry s))"

interpretation zones: frame_relation "fewer_live m" for m
  by unfold_locales (auto simp: fewer_live_def)

lemma fewer_refl [simp]: "fewer_live m s s"
  by (rule zones.frame_refl)

lemma live_update:
  assumes "\<And>r. P r \<Longrightarrow> is_live m (f r) \<Longrightarrow> is_live m r"
  shows "length (filter (is_live m) (update_where P f rs)) \<le> length (filter (is_live m) rs)"
proof (induction rs)
  case (Cons r rs)
  then show ?case using assms [of r] by (auto simp: update_where_def)
qed (simp add: update_where_def)

lemma left_fewer: "length (live_rows m (MarkInstancePlayerLeft now i g rg)) \<le> length (live_rows m rg)"
  by (simp add: live_rows_def MarkInstancePlayerLeft_def recount_def Let_def)
    (rule order_trans [OF live_update live_update], simp_all add: is_live_def)

lemma fewer_left: "fewer_live m s (on_registry (MarkInstancePlayerLeft now i g) s)"
  by (simp add: fewer_live_def left_fewer)

lemma fewer_quiet: "sv_team s' = sv_team s \<Longrightarrow> fewer_live m s s'"
  by (simp add: fewer_live_def)

lemma stopped_fewer: "length (live_rows m (MarkStoppedRows now i rg)) \<le> length (live_rows m rg)"
  by (simp add: live_rows_def MarkStoppedRows_def leave_rows_def Let_def)
    (rule order_trans [OF live_update live_update], simp_all add: is_live_def fallback_outcome_def)

lemma insert_live:
  "length (live_rows m (snd (InsertStarting b now mp gm port pid home q pre acc own rg))) \<le>
     length (live_rows m rg) + (if mp = m then 1 else 0)"
proof -
  have app: "update_where P f (xs @ [y]) = update_where P f xs @ [if P y then f y else y]" for P f and xs :: "InstanceRow list" and y
    by (simp add: update_where_def)
  have "length (filter (is_live m) (update_where P (\<lambda>r. r\<lparr>ir_instance_id := k\<rparr>) rs)) \<le> length (filter (is_live m) rs)" for P k rs
    by (rule live_update) (simp add: is_live_def)
  from this [of "\<lambda>r. ir_id r = rg_next_instance rg" "rg_next_instance rg" "rg_instances rg"] show ?thesis
    by (auto simp: live_rows_def InsertStarting_def Let_def app) (simp_all add: is_live_def)
qed

lemma start_live:
  "length (live_rows m (sv_registry (snd (start_instance ne mp gm home q p d port s)))) \<le>
     length (live_rows m (sv_registry s)) + (if mp = m then 1 else 0)"
proof -
  define r where "r = InsertStarting (ev_bonus_lives (en_match (ne_team ne))) (unix_now ne) mp gm port 0 home q p ''OPEN'' [] (sv_registry s)"
  have 1: "length (live_rows m (snd r)) \<le> length (live_rows m (sv_registry s)) + (if mp = m then 1 else 0)"
    unfolding r_def by (rule insert_live)
  have 2: "length (live_rows m (UpdatePid i x (snd r))) \<le> length (live_rows m (snd r))" for i x
    by (simp add: live_rows_def UpdatePid_def) (rule live_update, simp add: is_live_def)
  have "\<exists>x. sv_registry (snd (start_instance ne mp gm home q p d port s)) = MarkStoppedRows (unix_now ne) (fst r) (snd r) \<or>
      sv_registry (snd (start_instance ne mp gm home q p d port s)) = UpdatePid (fst r) x (snd r)"
    by (cases r) (auto simp: start_instance_def r_def [symmetric] Let_def MarkInstanceStopped_def put_world_def on_registry_def emit_def)
  then show ?thesis using order_trans [OF stopped_fewer 1] order_trans [OF 2 1] by metis
qed

lemma send_team [simp]: "sv_team (snd (SendToInstance i msg s)) = sv_team s"
  by simp

lemma action_team [simp]: "sv_team (snd (DeliverPlayerAction g x s)) = sv_team s"
  by (simp add: DeliverPlayerAction_def split: option.split)

lemma alert_team [simp]: "sv_team (travel_alert g msg dur s) = sv_team s"
  by (simp add: travel_alert_def)

lemma await_team [simp]: "sv_team (snd (await_ack c g kind i msg s)) = sv_team s"
proof -
  define s2 where "s2 = RegisterPendingAck g \<lparr>pk_client = c, pk_timer = sv_next_timer s, pk_kind = kind\<rparr>
    (on_client c (\<lambda>cl. cl\<lparr>cl_ack_timer := Some (sv_next_timer s)\<rparr>) (s\<lparr>sv_next_timer := Suc (sv_next_timer s)\<rparr>))"
  obtain b s3 where s3: "SendToInstance i msg s2 = (b, s3)" by force
  have "sv_team s3 = sv_team s" using send_team [of i msg s2] by (simp add: s3) (simp add: s2_def RegisterPendingAck_def)
  then show ?thesis
    by (cases b) (simp_all add: await_ack_def new_timer_def s2_def [symmetric] s3 arm_def)
qed

lemma go_play_team [simp]: "sv_team (initiate_player_register_and_go_play ne c s) = sv_team s"
  by (simp add: initiate_player_register_and_go_play_def Let_def split: option.split)

lemma spawn_home_live: "ne_home_map ne \<noteq> m \<Longrightarrow> after (SpawnHomeMap ne s) (fewer_live m s)"
  using start_live [of m ne "ne_home_map ne"]
  by (auto simp: SpawnHomeMap_def with_port_def fewer_live_def split: option.split)

lemma wait_home_live:
  assumes "ne_home_map ne \<noteq> m"
  shows "after (wait_for_home_map_then_register ne c secs s) (fewer_live m s)"
proof -
  have spawn: "after (if b then SpawnHomeMap ne s else Served s) (fewer_live m s)" for b
    using spawn_home_live [OF assms, of s] by simp
  have poll: "after (and_then (if b then SpawnHomeMap ne s else Served s)
      (\<lambda>s1. Served (arm_new (HomePoll c secs) s1))) (fewer_live m s)" for b
    by (rule after_and_then, rule after_mono [OF spawn])
      (simp add: fewer_live_def arm_new_def new_timer_def arm_def)
  have go: "fewer_live m s (initiate_player_register_and_go_play ne c (on_client c f s))" for f
    by (rule fewer_quiet) simp
  show ?thesis
    unfolding wait_for_home_map_then_register_def
    using poll [of True] poll [of False]
    by (simp only: if_True if_False split: option.split if_split) (simp only: after_simps fewer_refl go simp_thms)
qed

lemma after_fewer: "after r (fewer_live m s') \<Longrightarrow> fewer_live m s s' \<Longrightarrow> after r (fewer_live m s)"
  by (erule after_mono) (rule zones.frame_trans)

lemma target_live:
  assumes "ne_home_map ne \<noteq> m"
  shows "after (initiate_player_register_for_target ne c i tf s) (fewer_live m s)"
proof (cases "map_of (sv_clients s) c")
  case (Some cl)
  let ?cl = "take_token cl"
  obtain b s1 where a: "await_ack c (cl_guid cl) (TargetAck i tf) i
      (RegisterPlayer (register_msg ne ?cl (Some (cl_token ?cl)) tf False)) (on_client c (\<lambda>_. ?cl) s) = (b, s1)" by force
  have "sv_team s1 = sv_team s"
    using await_team [of c "cl_guid cl" "TargetAck i tf" i "RegisterPlayer (register_msg ne ?cl (Some (cl_token ?cl)) tf False)"
        "on_client c (\<lambda>_. ?cl) s"] by (simp add: a)
  then have q: "fewer_live m s s1" by (rule fewer_quiet)
  have "after (wait_for_home_map_then_register ne c 120 s1) (fewer_live m s)"
    by (rule after_fewer [OF wait_home_live [OF assms] q])
  then show ?thesis using q
    by (cases b) (simp_all add: initiate_player_register_for_target_def Some Let_def a split: option.split)
qed (simp add: initiate_player_register_for_target_def)

lemma travel_live:
  assumes "ne_home_map ne \<noteq> m"
  shows "after (travel_to_map_when_ready ne c mp tf secs s) (fewer_live m s)"
proof -
  have q: "fewer_live m s (on_client c f s)" "fewer_live m s (arm_new job s)" for f job
    by (rule fewer_quiet, simp add: arm_new_def new_timer_def arm_def)+
  have "fewer_live m s (on_client c f (on_registry (MarkInstancePlayerLeft now i g) s))" for f now i g
    by (rule zones.frame_trans [OF fewer_left fewer_quiet]) simp
  then show ?thesis
    unfolding travel_to_map_when_ready_def Let_def
    by (auto simp: q intro!: after_fewer [OF target_live [OF assms]] split: option.split)
qed

lemma deliver_travel_live:
  assumes "ne_home_map ne \<noteq> m"
  shows "after (DeliverOpenWorldTravel ne g mp tf s) (fewer_live m s)"
  by (auto simp: DeliverOpenWorldTravel_def split: option.split intro!: after_fewer [OF travel_live [OF assms]] fewer_quiet)

lemma none_live: "GetLiveInstanceByMapName m rg = None \<Longrightarrow> live_rows m rg = []"
  by (auto simp: GetLiveInstanceByMapName_def live_rows_def is_live_def find_None_iff filter_empty_conv)

text \<open>
  C15. An open-world zone never runs twice. A travel request for a zone of which at most one instance is
  starting or ready leaves at most one, whoever asks, whether or not the start succeeds and wherever the
  player ends up; the zone is not the home map.
\<close>

theorem open_world_zone_once:
  assumes "OpenWorldDestination ne i = Some row" "ne_home_map ne \<noteq> mg_map_name row"
    and "length (live_rows (mg_map_name row) (sv_registry s)) \<le> 1"
  shows "after (OpenWorldTravelRequest ne g i s) (\<lambda>s'. length (live_rows (mg_map_name row) (sv_registry s')) \<le> 1)"
proof -
  let ?m = "mg_map_name row"
  let ?ok = "\<lambda>s'. length (live_rows ?m (sv_registry s')) \<le> 1"
  have arrive: "after (DeliverOpenWorldTravel ne g ?m tf (if b then s' else travel_alert g msg dur s')) ?ok"
    if "?ok s'" for b s' tf msg dur
  proof -
    have "fewer_live ?m s' (if b then s' else travel_alert g msg dur s')" by (rule fewer_quiet) simp
    from after_fewer [OF deliver_travel_live [OF assms(2)] this] show ?thesis
      by (rule after_mono) (use that in \<open>simp add: fewer_live_def\<close>)
  qed
  have spawn: "after (OpenWorldSpawn ne row (s\<lparr>sv_spawning := ms\<rparr>)) (\<lambda>r. ?ok (snd r))"
    if "GetLiveInstanceByMapName ?m (sv_registry s) = None" for ms
    using start_live [of ?m ne ?m] none_live [OF that] assms(3)
    by (auto simp: OpenWorldSpawn_def split: option.split intro: order_trans [OF start_live])
  show ?thesis
  proof (cases "GetLiveInstanceByMapName ?m (sv_registry s)")
    case (Some live)
    then show ?thesis using arrive [OF assms(3)] assms(1,3)
      by (simp add: OpenWorldTravelRequest_def)
  next
    case None
    have go: "after (case r of Hung \<Rightarrow> Hung | Threw (_, s1) \<Rightarrow> Threw s1 | Served (iid, s1) \<Rightarrow>
        (let s2 = s1\<lparr>sv_spawning := removeAll ?m (sv_spawning s1)\<rparr>
         in if iid = 0 then Served s2 else DeliverOpenWorldTravel ne g ?m kTaskForce
              (if False then s2 else travel_alert g ''Instance is starting, please wait...'' 10 s2))) ?ok"
      if "after r (\<lambda>r. ?ok (snd r))" for r
      using that arrive [where b = False]
      by (cases r) (auto simp: Let_def split: prod.split)
    show ?thesis
      using None assms(1,3) arrive [OF assms(3), where b = False] go [OF spawn [OF None]]
      by (simp add: OpenWorldTravelRequest_def)
  qed
qed

text \<open>The player of the example asks for the zone of the example's map table, which has to be started.\<close>

lemma ex_travel:
  "map_option mg_map_name (OpenWorldDestination ex_server_env 7) = Some ''Zone'' \<and>
   (case OpenWorldTravelRequest ex_server_env ''g'' 7 ex_matched of
      Served s' \<Rightarrow> map ir_map_name (live_rows ''Zone'' (sv_registry s')) = [''Zone''] | _ \<Rightarrow> False)"
  by code_simp

theorem open_world_zone_once_witness:
  "\<exists>s'. OpenWorldTravelRequest ex_server_env ''g'' 7 ex_matched = Served s' \<and>
     live_rows ''Zone'' (sv_registry s') \<noteq> [] \<and> length (live_rows ''Zone'' (sv_registry s')) \<le> 1"
proof -
  obtain row where row: "OpenWorldDestination ex_server_env 7 = Some row" "mg_map_name row = ''Zone''" using ex_travel by auto
  obtain s' where s': "OpenWorldTravelRequest ex_server_env ''g'' 7 ex_matched = Served s'"
    "map ir_map_name (live_rows ''Zone'' (sv_registry s')) = [''Zone'']"
    using ex_travel by (cases "OpenWorldTravelRequest ex_server_env ''g'' 7 ex_matched") auto
  have "ne_home_map ex_server_env \<noteq> mg_map_name row" by (simp add: ex_server_env_def row)
  moreover have "length (live_rows (mg_map_name row) (sv_registry ex_matched)) \<le> 1"
    by (simp add: row live_rows_def is_live_def ex_matched_def ex_full_world_def ex_starting_def InsertStarting_def Let_def update_where_def empty_registry_def)
  ultimately have "after (OpenWorldTravelRequest ex_server_env ''g'' 7 ex_matched)
      (\<lambda>s'. length (live_rows (mg_map_name row) (sv_registry s')) \<le> 1)"
    by (rule open_world_zone_once [OF row(1)])
  then show ?thesis using s' by (auto simp: row)
qed

end
