(* ===== verification/Spec2Isabelle.thy ===== *)
theory Spec2Isabelle
  imports MatchmakingBooks TeamInvariants TicketInfo StreamFraming MmrChain ChatGuarantees ServerGuarantees
    HandlerGuarantees SessionGuarantees
begin

text \<open>
  A verification development of the control server of Global Agenda Commonwealth
  (\<open>src/ControlServer/\<close>): its matchmaking, its rating engines, its instance registry, its team
  service, its chat, the routing of players between game servers, and the protocol it speaks to
  clients and game servers.

  \<^bold>\<open>The program.\<close> Players queue alone or as a team (\<open>TeamService\<close>). \<open>MatchmakingService\<close> keeps one
  queue per configuration and evaluates the queue's rule (\<open>Rules/\<close>) whenever a queue changes.
  A rule looks at the waiting parties and at the running instances and may answer with a
  match: the parties it consumes, a side for each player and either an instance to join or
  the wish for a new one. New instances are rows of the instance table
  (\<open>InstanceRegistry\<close>) with a port of their own; the callbacks of \<open>main.cpp\<close> spawn the server
  process and keep the match as pending until the server reports ready, and tell the rules
  which instances have free seats. A fairness log records who was left out and who defended,
  and gives priority and side rotation to those owed. When matches have ended, \<open>MmrService\<close> folds
  them into the ratings of two engines, one of which the side choosers read. Clients and game
  servers talk to the server over byte streams: \<open>TcpSession\<close>, \<open>ChatSession\<close> and \<open>IpcSession\<close> cut a
  stream into packets, \<open>PacketView\<close> reads the fields of a packet, and responses go out through a
  bounded queue. \<open>ChatSession\<close> hands a line to the audience of its channel and runs the commands among
  the lines. \<open>IpcServer\<close> serves the messages of the game servers: instances report in, ready, empty and
  ended, with their events and statistics. A session gets its player from one instance to the next:
  it registers the player with the target over \<open>IpcServer\<close>, waits for the acknowledgement or its
  deadline, and sends the client there; \<open>main.cpp\<close> starts instances when they are needed and cleans
  up every minute.

  \<^bold>\<open>Theories.\<close> In the order of their imports:
  \<^item> \<open>Prelude\<close>: the \<open>unordered_map\<close> of the code as an association list (\<open>umap\<close>), a stable sort
    with the comparator's strict weak order as a locale, greedy alternation between two
    sides as a locale, and generic list lemmas. The locales are interpreted on the model's
    own operations in the theories that use them.
  \<^item> \<open>Domain\<close>: \<open>Domain.hpp\<close>, \<open>DifficultyScalar.hpp\<close>: the structures, enumerations and parsers.
  \<^item> \<open>MmrSwap\<close>, \<open>SidePlacement\<close>, \<open>DefenderRotation\<close>, \<open>StrictBalance\<close>, \<open>RoleWeightedSplit\<close>: the files
    of the same names, which choose sides.
  \<^item> \<open>RuleSupport\<close>, \<open>MatchRules\<close>: \<open>RuleSupport.hpp\<close>, the three rules and \<open>RuleFactory.cpp\<close>. What
    every rule promises (\<open>result_ok\<close>) is the locale \<open>match_rule\<close>, interpreted for each rule and
    for the factory's dispatch.
  \<^item> \<open>InstanceRegistry\<close>: both tables as lists of rows and every statement on them; histories are
    the inductive relation \<open>reg_step\<close>.
  \<^item> \<open>FairnessLog\<close>: the event table and the in-memory index that mirrors it.
  \<^item> \<open>MatchmakingState\<close>, \<open>MatchPop\<close>: the state of \<open>MatchmakingService\<close> (\<open>World\<close>), its books, and the
    pop path \<open>TryPop\<close> with the two callbacks of \<open>main.cpp\<close>. \<open>MatchPopLemmas\<close> frames the parts and
    gives the step lemma, \<open>PopGuarantees\<close> and \<open>MatchmakingBooks\<close> what players can rely on.
  \<^item> \<open>TeamService\<close>, \<open>TeamInvariants\<close>: \<open>TeamService.cpp\<close>, with the inductive relation \<open>team_step\<close>.
  \<^item> \<open>PacketReader\<close>, \<open>PacketRoundtrip\<close>: \<open>PacketView.hpp\<close> with its field table and the field writers
    of \<open>TcpSession.hpp\<close>. A read outside the buffer is the value \<open>Fault\<close>.
  \<^item> \<open>StreamFraming\<close>: how the three connections cut their streams, as one locale \<open>framer\<close> with three
    interpretations; \<open>IpcFraming.hpp\<close>, the chunks of \<open>send_response\<close>, and the write queue with its
    histories \<open>writer_run\<close>.
  \<^item> \<open>TicketInfo\<close>: \<open>RuntimeStats.cpp\<close>, \<open>TicketInfoEncoder.cpp\<close> and the response that lists the queues.
  \<^item> \<open>MmrService\<close>, \<open>MmrChain\<close>: \<open>MmrService.cpp\<close> and the writers of the tables it reads; \<open>mmr_reach\<close>
    are the histories of the rating tables, \<open>live\<close> those in which matches conclude in order.
  \<^item> \<open>ChatCommand\<close>, \<open>ChatRooms\<close>, \<open>ChatGuarantees\<close>: the command parser and \<open>ChatSession.cpp\<close>, with the
    loops over the list of sessions as the code runs them.
  \<^item> \<open>JsonValue\<close>, \<open>ServerState\<close>: the JSON values and reads, and the state of the whole server
    (\<open>Server\<close>): connections, sessions, acknowledgements, timers, statistics, overlay, around the team and
    matchmaking worlds and the match database; the services that act on it, the map table, the spawners.
  \<^item> \<open>PlayerRouting\<close>, \<open>QueueSession\<close>: the handlers of a player session in \<open>TcpSession.cpp\<close>,
    \<open>OpenWorldTravel.cpp\<close>; \<open>IpcDispatch\<close>: \<open>IpcServer.cpp\<close>, the admin actions and the maintenance.
  \<^item> \<open>ServerFrames\<close>, \<open>RoutingInvariant\<close>, \<open>ServerInvariant\<close>: what operations leave alone, as the locale
    \<open>frame_relation\<close> and the collection \<open>kept\<close>; the invariant \<open>routing_ok\<close> operation by operation; the
    step relation \<open>server_step\<close> of the whole server.
  \<^item> \<open>ServerExample\<close>, \<open>ServerGuarantees\<close>, \<open>HandlerGuarantees\<close>, \<open>SessionGuarantees\<close>: concrete servers, and
    what the server promises along histories, per message, and per session.

  \<^bold>\<open>Reading the model.\<close> Structures are records with the fields of the code, prefixed; enumerations
  are datatypes; \<open>uint32_t\<close>, \<open>uint64_t\<close> and \<open>uint16_t\<close> are words, database ids and the signed
  counters are \<open>int\<close>; \<open>double\<close> and \<open>float\<close> are exact rationals. Static members are fields of a state
  record that every operation takes and returns. Database tables are lists of rows in
  insertion order. What the code sends or spawns is appended to a list of effects. Reads of
  other parts of the server (verified accounts, ratings, installed packs, sessions, clocks)
  and the random engine, a tape of numbers, are fields of an environment record.

  \<^bold>\<open>What is shown.\<close> For the side choosers: totality, evenness, cohesion of parties and that the
  chosen split is optimal for the measure the code uses. For the rules: results are
  complete and atomic, access and seats are respected, each rule has its own shape. For
  the registry: an invariant of every history, the life cycle of an instance, the hand-over
  to a successor in every order of messages. For the pop path: it returns, loses nobody
  while ports last, never damages a pending match, and touches nothing but its own queue.
  For the books: round trip of the owner list, credit at most once, exact seat counts. For
  teams: an invariant of every history and the effect of joining, leaving and queueing. For
  the protocol: readers stay inside the packet, fields read back as written, streams may be
  cut anywhere, responses reassemble and leave in order; and where the encoding is lossy,
  what arrives instead. For the ratings: histories are bounded chains without repeats, a fold
  settles everything, and a reseed replays the live win/loss chain. For chat: a line reaches exactly
  the audience of its channel, a command stays private, and a full queue breaks the loop that delivers.
  For the server: one invariant of every history ties sessions, session store, acknowledgements, timers,
  registry and teams together; every registration in flight has a deadline; an instance that is ready
  invites its match once; the end of a mission is rated at once; log-in, disconnect and a lost
  connection clean up; an open-world zone runs once; batches of statistics equal single rows; admin
  actions need their credentials; and what malformed messages and stale deadlines do.

  \<^bold>\<open>Bounds and fuel.\<close> \<open>TryPop\<close> takes one unit of fuel per recursive call; \<open>try_pop_returns\<close> shows
  that one unit more than there are waiting parties is enough, because every call that goes
  on has consumed a party. The port scan is a \<open>partial_function\<close>, because with a range that ends
  at 65535 its counter wraps; it ends for every smaller bound (\<open>allocate_port_least\<close>). Search
  over subsets is bounded as in the code, at 20 parties. Skipping a packet field ends because
  the position never moves back, shown on the domain of the functions first. Counters are assumed not to wrap
  where a lemma says so.

  \<^bold>\<open>Assumptions.\<close> SQLite statements succeed; the code logs a failed statement and goes on.
  Iteration over an \<open>unordered_map\<close> follows the order of the association list. Arithmetic on
  floating-point numbers does not round; \<open>pow\<close> and \<open>sqrt\<close> are parameters, of which \<open>pow\<close> is
  assumed positive. A stream delivers bytes in order. A mutex makes the locked part of an operation
  atomic, and operations are called from the one thread of the io context. A cancelled timer does not
  fire. What matchmaking and teams send to sessions is delivered when their operation returns. A
  registered session object exists. The result of the JSON parser is the argument of \<open>dispatch\<close>. A
  generated session guid is not in use.

  \<^bold>\<open>Not modelled.\<close> The packet handlers of \<open>TcpSession\<close> that assemble packets from database rows
  (inventory, agencies, friends, mail, quests) and the game-event handlers of a session; password
  challenge and bans; of the chat commands the inventory harness, which a constant switches off, and two
  that are compiled out; admin actions on tables of other components, which are a parameter, and the
  texts of admin acknowledgements; the child processes of \<open>InstanceSpawner\<close>; the schema and the
  single-statement accessors of \<open>Database\<close>; the loadout tables; the HTTP server over the overlay; the
  loading of queue configurations from the database, configuration files and logging; and the game
  server side (\<open>src/GameServer\<close>, detours inside the Unreal engine whose memory layout is not part of
  the repository), the generated SDK and vendored libraries.
\<close>

end
